(* ===== verification/Prelude.thy ===== *)
theory Prelude
  imports Complex_Main "HOL-Library.Word"
begin

unbundle bit_operations_syntax

text \<open>
  Shared vocabulary of the development: the machine-integer widths of the C sources, the time
  types, the first-match array search that most of the tables use, and the counting, list-update
  and word lemmas the component theories share.

  Conventions, for every theory.
  \<^item> A fixed-size C array is a list whose length is part of the component's invariant; an index is
    a \<open>nat\<close> and every index a model computes is in range under that invariant.
  \<^item> \<open>uint8_t\<close> to \<open>uint64_t\<close> are words of that width; \<open>int\<close> and \<open>long\<close> values that are only
    copied and compared are \<open>int\<close>.
  \<^item> Monotonic and wall-clock time stamps, \<open>double\<close> and \<open>time_t\<close> in C, are \<open>real\<close> and \<open>int\<close>: the
    code only subtracts and compares them, and floating-point rounding is not modelled. The clock
    is an argument of the operations that read it.
  \<^item> Pointer arguments are the objects they point to (a caller never passes NULL), except where
    the code takes a documented NULL or a missing allocation into account; there the argument is
    an \<open>option\<close>.
  \<^item> Log output is not modelled.
\<close>

section \<open>Machine types\<close>

type_synonym u8 = "8 word"
type_synonym u16 = "16 word"
type_synonym u32 = "32 word"
type_synonym u64 = "64 word"
type_synonym mono_s = real
type_synonym wall_s = int

named_theorems array_simps \<open>length and read-back facts of the array operations of the models\<close>
named_theorems inv_intros \<open>preservation of the component invariants, one fact per operation\<close>

section \<open>First-match search\<close>

text \<open>The loop \<open>for (i = 0; i < n; i++) if (p(a[i])) return i;\<close>.\<close>

fun find_index :: "('a \<Rightarrow> bool) \<Rightarrow> 'a list \<Rightarrow> nat option" where
  "find_index p [] = None"
| "find_index p (x # xs) = (if p x then Some 0 else map_option Suc (find_index p xs))"

lemma find_index_SomeD:
  "find_index p xs = Some i \<Longrightarrow> i < length xs \<and> p (xs ! i) \<and> (\<forall>j<i. \<not> p (xs ! j))"
proof (induction xs arbitrary: i)
  case Nil
  then show ?case by simp
next
  case (Cons x xs)
  show ?case
  proof (cases "p x")
    case True
    with Cons.prems show ?thesis by simp
  next
    case False
    with Cons.prems obtain k where k: "find_index p xs = Some k" "i = Suc k" by auto
    with Cons.IH[OF k(1)] False show ?thesis by (auto simp: less_Suc_eq_0_disj)
  qed
qed

lemma find_index_None_iff: "find_index p xs = None \<longleftrightarrow> (\<forall>x\<in>set xs. \<not> p x)"
  by (induction xs) auto

lemma find_index_Some_iff:
  "find_index p xs = Some i \<longleftrightarrow> i < length xs \<and> p (xs ! i) \<and> (\<forall>j<i. \<not> p (xs ! j))"
proof
  assume "i < length xs \<and> p (xs ! i) \<and> (\<forall>j<i. \<not> p (xs ! j))"
  then show "find_index p xs = Some i"
  proof (induction xs arbitrary: i)
    case (Cons x xs)
    then show ?case
    proof (cases i)
      case (Suc k)
      with Cons.prems have "\<not> p x" "k < length xs \<and> p (xs ! k) \<and> (\<forall>j<k. \<not> p (xs ! j))" by force+
      with Cons.IH Suc show ?thesis by auto
    qed simp
  qed simp
qed (rule find_index_SomeD)

lemma find_index_less: "find_index p xs = Some i \<Longrightarrow> i < length xs"
  by (auto dest: find_index_SomeD)

lemma find_index_prop: "find_index p xs = Some i \<Longrightarrow> p (xs ! i)"
  by (auto dest: find_index_SomeD)

text \<open>When at most one element satisfies the predicate, the search finds that element.\<close>

lemma find_index_unique:
  assumes "i < length xs" "p (xs ! i)" "\<And>j. j < length xs \<Longrightarrow> p (xs ! j) \<Longrightarrow> j = i"
  shows "find_index p xs = Some i"
proof (cases "find_index p xs")
  case None
  with assms(1,2) show ?thesis by (auto simp: find_index_None_iff)
next
  case (Some k)
  then show ?thesis using assms(3) by (auto dest!: find_index_SomeD)
qed

lemma find_index_list_update:
  "p y = p (xs ! i) \<Longrightarrow> find_index p (xs[i := y]) = find_index p xs"
proof (induction xs arbitrary: i)
  case (Cons x xs)
  then show ?case by (cases i) auto
qed simp

lemma find_index_map: "find_index p (map f xs) = find_index (\<lambda>x. p (f x)) xs"
  by (induction xs) auto

lemma find_index_cong:
  "xs = ys \<Longrightarrow> (\<And>x. x \<in> set ys \<Longrightarrow> p x = q x) \<Longrightarrow> find_index p xs = find_index q ys"
  by (induction ys arbitrary: xs) auto

section \<open>Counting and updating\<close>

definition count_if :: "('a \<Rightarrow> bool) \<Rightarrow> 'a list \<Rightarrow> nat" where
  "count_if p xs = length (filter p xs)"

lemma count_if_simps [simp]:
  "count_if p [] = 0"
  "count_if p (x # xs) = (if p x then Suc (count_if p xs) else count_if p xs)"
  by (simp_all add: count_if_def)

lemma count_if_eq_0_iff: "count_if p xs = 0 \<longleftrightarrow> (\<forall>x\<in>set xs. \<not> p x)"
  by (induction xs) auto

lemma count_if_le_length: "count_if p xs \<le> length xs"
  by (simp add: count_if_def)

lemma count_if_update:
  "i < length xs \<Longrightarrow>
   int (count_if p (xs[i := y])) =
     int (count_if p xs) - (if p (xs ! i) then 1 else 0) + (if p y then 1 else 0)"
proof (induction xs arbitrary: i)
  case (Cons x xs)
  show ?case
  proof (cases i)
    case 0
    then show ?thesis by simp
  next
    case (Suc k)
    with Cons.prems Cons.IH [of k] show ?thesis by (simp split: if_splits)
  qed
qed simp

lemma count_if_update_same:
  "i < length xs \<Longrightarrow> p (xs ! i) = p y \<Longrightarrow> count_if p (xs[i := y]) = count_if p xs"
  using count_if_update [of i xs p y] by (auto split: if_splits)

lemma count_if_replicate [simp]: "\<not> p x \<Longrightarrow> count_if p (replicate n x) = 0"
  by (simp add: count_if_eq_0_iff)

lemma count_if_map: "count_if p (map f xs) = count_if (\<lambda>x. p (f x)) xs"
  by (induction xs) auto

lemma count_if_split:
  "(\<And>x. q x \<Longrightarrow> p x) \<Longrightarrow> count_if p xs = count_if (\<lambda>x. p x \<and> \<not> q x) xs + count_if q xs"
  by (induction xs) auto

lemma all_nth_iff: "(\<forall>x\<in>set xs. P x) \<longleftrightarrow> (\<forall>i<length xs. P (xs ! i))"
  by (auto simp: all_set_conv_all_nth)

section \<open>Lists\<close>

lemma tl_keeps: "x \<in> set xs \<Longrightarrow> x \<notin> set (tl xs) \<Longrightarrow> x = hd xs"
  by (cases xs) auto

lemma tl_drops_one:
  "\<lbrakk>x \<in> set xs; y \<in> set xs; x \<notin> set (tl xs); y \<notin> set (tl xs)\<rbrakk> \<Longrightarrow> x = y"
  using tl_keeps [of x xs] tl_keeps [of y xs] by simp

lemma set_tl: "x \<in> set (tl xs) \<Longrightarrow> x \<in> set xs"
  by (cases xs) auto

text \<open>Removing element \<open>i\<close> of the first \<open>c\<close> by moving the last of them into its place.\<close>

lemma swap_remove:
  assumes "distinct (take c xs)" "i < c" "c \<le> length xs"
  defines "ys \<equiv> take (c - 1) (if i \<noteq> c - 1 then xs[i := xs ! (c - 1)] else xs)"
  shows "set ys = set (take c xs) - {xs ! i}" "distinct ys"
proof -
  obtain k where c: "c = Suc k" using assms(2) by (cases c) auto
  let ?us = "take k xs" and ?z = "xs ! k"
  have zs: "take (Suc k) xs = ?us @ [?z]" using assms(3) by (simp add: c take_Suc_conv_app_nth)
  have d: "distinct ?us" "?z \<notin> set ?us" using assms(1) by (auto simp: zs c)
  show "set ys = set (take c xs) - {xs ! i}"
  proof (cases "i = k")
    case False
    then have i: "i < length ?us" using assms(2,3) c by simp
    have "ys = ?us[i := ?z]" using False by (simp add: ys_def c take_update_swap)
    moreover have "set (?us[i := ?z]) = insert ?z (set ?us - {?us ! i})" by (rule set_update_distinct [OF d(1) i])
    moreover have "?us ! i \<in> set ?us" by (rule nth_mem [OF i])
    ultimately show ?thesis using d(2) i by (auto simp: zs c)
  qed (use d in \<open>auto simp: ys_def c zs\<close>)
  show "distinct ys"
    using d distinct_list_update [of ?us ?z i] by (auto simp: ys_def c take_update_swap)
qed

section \<open>Words\<close>

lemma word_succ_nonzero: "(w::'a::len word) \<noteq> - 1 \<Longrightarrow> w + 1 \<noteq> 0"
  using eq_neg_iff_add_eq_0 [of w 1] by auto

lemma word_less_succ: "(w::'a::len word) \<noteq> - 1 \<Longrightarrow> w < w + 1"
  using inc_less_eq_self_iff_eq [of w] by auto

lemma unat_u64_less: "unat (w::u64) < 2 ^ 64"
  using unsigned_less [of w] by simp

end
