(* ===== verification/Tuning_Ledger.thy ===== *)
theory Tuning_Ledger
  imports Prelude
begin

text \<open>
  The correlated-tune ledger of \<open>src/runtime/trunk_tuning_hooks.c\<close>: a 64-entry history of tune
  requests, the generation counter of accepted tuning boundaries and the count of unresolved
  requests that closes the frame gate. Every operation of the file that takes the request lock is
  one atomic step on the record \<open>tuning\<close>; the atomics read outside the lock are its fields. The
  record is extensible, so the backend hooks, which are function pointers installed at run time,
  are parameters over whatever state extends it.
\<close>

section \<open>Data model\<close>

datatype tune_result = TUNE_OK | TUNE_DEFERRED | TUNE_PENDING | TUNE_FAILED | TUNE_TIMEOUT

definition tune_result_is_ok :: "tune_result \<Rightarrow> bool" where
  "tune_result_is_ok r \<longleftrightarrow> r = TUNE_OK \<or> r = TUNE_PENDING"

definition tune_result_is_complete :: "tune_result \<Rightarrow> bool" where
  "tune_result_is_complete r \<longleftrightarrow> r = TUNE_OK"

datatype request_state = REQUEST_FREE | REQUEST_PENDING | REQUEST_FAILED_GATED | REQUEST_FINISHED

record request_record =
  request_id :: u64
  completed_m_ns :: u64
  req_result :: tune_result
  req_state :: request_state
  inherited_failure_gate :: bool
  backend_complete :: bool
  owner_ready :: bool

definition free_record :: request_record where
  "free_record = \<lparr>request_id = 0, completed_m_ns = 0, req_result = TUNE_OK, req_state = REQUEST_FREE,
     inherited_failure_gate = False, backend_complete = False, owner_ready = False\<rparr>"

record tuning =
  generation :: u64
  next_request :: u64
  unresolved_count :: int
  requests :: "request_record list"

definition REQUEST_HISTORY :: nat where
  "REQUEST_HISTORY = 64"

definition tuning_boot :: tuning where
  "tuning_boot = \<lparr>generation = 1, next_request = 0, unresolved_count = 0,
     requests = replicate REQUEST_HISTORY free_record\<rparr>"

section \<open>Operations under the lock\<close>

definition request_matches :: "u64 \<Rightarrow> request_record \<Rightarrow> bool" where
  "request_matches rid r \<longleftrightarrow> request_id r = rid \<and> req_state r \<noteq> REQUEST_FREE"

definition request_find_locked :: "u64 \<Rightarrow> 'a tuning_scheme \<Rightarrow> nat option" where
  "request_find_locked rid t = find_index (request_matches rid) (requests t)"

definition set_request :: "nat \<Rightarrow> request_record \<Rightarrow> 'a tuning_scheme \<Rightarrow> 'a tuning_scheme" where
  "set_request i r t = t\<lparr>requests := (requests t)[i := r]\<rparr>"

text \<open>
  The slot search keeps the oldest finished and the oldest failed entry seen so far, and returns
  at once on a free entry. The second component is \<open>*out_inherited_failure_gate\<close>.
\<close>

definition older :: "u64 \<Rightarrow> (nat \<times> u64) option \<Rightarrow> bool" where
  "older rid best = (case best of None \<Rightarrow> True | Some (_, b) \<Rightarrow> rid < b)"

fun request_slot_loop ::
  "nat \<Rightarrow> request_record list \<Rightarrow> (nat \<times> u64) option \<Rightarrow> (nat \<times> u64) option \<Rightarrow> (nat \<times> bool) option" where
  "request_slot_loop i [] finished failed =
     (case finished of
        Some (j, _) \<Rightarrow> Some (j, False)
      | None \<Rightarrow> (case failed of Some (j, _) \<Rightarrow> Some (j, True) | None \<Rightarrow> None))"
| "request_slot_loop i (r # rs) finished failed =
     (if req_state r = REQUEST_FREE then Some (i, False)
      else request_slot_loop (Suc i) rs
        (if req_state r = REQUEST_FINISHED \<and> older (request_id r) finished
         then Some (i, request_id r) else finished)
        (if req_state r = REQUEST_FAILED_GATED \<and> older (request_id r) failed
         then Some (i, request_id r) else failed))"

definition request_slot_locked :: "'a tuning_scheme \<Rightarrow> (nat \<times> bool) option" where
  "request_slot_locked t = request_slot_loop 0 (requests t) None None"

text \<open>Retiring every failed request that satisfies \<open>p\<close> lowers the count once per retired entry.\<close>

definition retire_record :: "(request_record \<Rightarrow> bool) \<Rightarrow> request_record \<Rightarrow> request_record" where
  "retire_record p r =
     (if req_state r = REQUEST_FAILED_GATED \<and> p r then r\<lparr>req_state := REQUEST_FINISHED\<rparr> else r)"

definition retire_where :: "(request_record \<Rightarrow> bool) \<Rightarrow> 'a tuning_scheme \<Rightarrow> 'a tuning_scheme" where
  "retire_where p t =
     t\<lparr>requests := map (retire_record p) (requests t),
       unresolved_count := unresolved_count t
         - int (count_if (\<lambda>r. req_state r = REQUEST_FAILED_GATED \<and> p r) (requests t))\<rparr>"

definition retire_failed_requests_locked :: "u64 \<Rightarrow> 'a tuning_scheme \<Rightarrow> 'a tuning_scheme" where
  "retire_failed_requests_locked successful t = retire_where (\<lambda>r. request_id r < successful) t"

definition tuning_generation_advance :: "'a tuning_scheme \<Rightarrow> 'a tuning_scheme" where
  "tuning_generation_advance t = t\<lparr>generation := generation t + 1\<rparr>"

definition finish_success_locked :: "nat \<Rightarrow> 'a tuning_scheme \<Rightarrow> 'a tuning_scheme" where
  "finish_success_locked i t =
     (let r = requests t ! i in
      if req_state r \<noteq> REQUEST_PENDING then t
      else
        let t1 = tuning_generation_advance t;
            t2 = set_request i (r\<lparr>req_state := REQUEST_FINISHED\<rparr>) t1;
            t3 = t2\<lparr>unresolved_count := unresolved_count t2 - 1\<rparr>
        in retire_failed_requests_locked (request_id r) t3)"

definition finish_rolled_back_locked :: "nat \<Rightarrow> 'a tuning_scheme \<Rightarrow> 'a tuning_scheme" where
  "finish_rolled_back_locked i t =
     (let r = requests t ! i in
      if req_state r = REQUEST_FINISHED then t
      else if inherited_failure_gate r then set_request i (r\<lparr>req_state := REQUEST_FAILED_GATED\<rparr>) t
      else (set_request i (r\<lparr>req_state := REQUEST_FINISHED\<rparr>) t)
             \<lparr>unresolved_count := unresolved_count t - 1\<rparr>)"

section \<open>Public operations\<close>

text \<open>
  \<open>dsd_trunk_tuning_request_begin\<close>: the id counter skips zero when it wraps; a full ledger of
  pending requests refuses the request with id 0.
\<close>

definition fresh_request_id :: "u64 \<Rightarrow> u64" where
  "fresh_request_id n = (if n + 1 = 0 then n + 2 else n + 1)"

definition tuning_request_begin :: "'a tuning_scheme \<Rightarrow> 'a tuning_scheme \<times> u64" where
  "tuning_request_begin t =
     (let rid = fresh_request_id (next_request t);
          t1 = t\<lparr>next_request := rid\<rparr>
      in case request_slot_locked t1 of
           None \<Rightarrow> (t1, 0)
         | Some (i, inherited) \<Rightarrow>
             let r = \<lparr>request_id = rid, completed_m_ns = 0, req_result = TUNE_PENDING,
                      req_state = REQUEST_PENDING, inherited_failure_gate = inherited,
                      backend_complete = False, owner_ready = False\<rparr>;
                 t2 = set_request i r t1
             in (if inherited then t2 else t2\<lparr>unresolved_count := unresolved_count t2 + 1\<rparr>, rid))"

definition tuning_requests_reset :: "'a tuning_scheme \<Rightarrow> 'a tuning_scheme" where
  "tuning_requests_reset t =
     t\<lparr>requests := replicate REQUEST_HISTORY free_record, unresolved_count := 0\<rparr>"

definition tuning_retire_failed_requests :: "'a tuning_scheme \<Rightarrow> 'a tuning_scheme" where
  "tuning_retire_failed_requests t =
     (if unresolved_count t = 0 then t else retire_where (\<lambda>_. True) t)"

definition tuning_request_publish ::
  "u64 \<Rightarrow> tune_result \<Rightarrow> u64 \<Rightarrow> 'a tuning_scheme \<Rightarrow> 'a tuning_scheme" where
  "tuning_request_publish rid res now_ns t =
     (if rid = 0 \<or> res = TUNE_PENDING then t
      else case request_find_locked rid t of
        None \<Rightarrow> t
      | Some i \<Rightarrow>
          let r = requests t ! i in
          if req_state r \<noteq> REQUEST_PENDING then t
          else
            let r1 = r\<lparr>req_result := res, completed_m_ns := now_ns, backend_complete := True\<rparr> in
            if tune_result_is_complete res
            then (if owner_ready r1 then finish_success_locked i (set_request i r1 t)
                  else set_request i r1 t)
            else set_request i (r1\<lparr>req_state := REQUEST_FAILED_GATED\<rparr>) t)"

definition tuning_request_mark_ready :: "u64 \<Rightarrow> 'a tuning_scheme \<Rightarrow> 'a tuning_scheme" where
  "tuning_request_mark_ready rid t =
     (if rid = 0 then t
      else case request_find_locked rid t of
        None \<Rightarrow> t
      | Some i \<Rightarrow>
          let r = requests t ! i in
          if req_state r \<noteq> REQUEST_PENDING then t
          else
            let r1 = r\<lparr>owner_ready := True\<rparr> in
            if backend_complete r1 \<and> tune_result_is_complete (req_result r1)
            then finish_success_locked i (set_request i r1 t)
            else set_request i r1 t)"

definition tuning_request_complete ::
  "u64 \<Rightarrow> tune_result \<Rightarrow> u64 \<Rightarrow> 'a tuning_scheme \<Rightarrow> 'a tuning_scheme" where
  "tuning_request_complete rid res now_ns t =
     (if rid = 0 \<or> res = TUNE_PENDING then t
      else case request_find_locked rid t of
        None \<Rightarrow> t
      | Some i \<Rightarrow>
          let r = requests t ! i in
          if req_state r = REQUEST_FINISHED then t
          else
            let r1 = r\<lparr>owner_ready := True\<rparr>; t1 = set_request i r1 t in
            if req_state r1 = REQUEST_FAILED_GATED then
              (if \<not> tune_result_is_complete res then finish_rolled_back_locked i t1 else t1)
            else if \<not> backend_complete r1 then
              let t2 = set_request i (r1\<lparr>req_result := res, completed_m_ns := now_ns,
                                         backend_complete := True\<rparr>) t1
              in if tune_result_is_complete res then finish_success_locked i t2
                 else finish_rolled_back_locked i t2
            else
              let backend_committed = tune_result_is_complete (req_result r1);
                  owner_committed = tune_result_is_complete res
              in if backend_committed \<and> owner_committed then finish_success_locked i t1
                 else if \<not> backend_committed \<and> \<not> owner_committed then finish_rolled_back_locked i t1
                 else set_request i
                   ((if owner_committed then r1 else r1\<lparr>req_result := res\<rparr>)
                      \<lparr>req_state := REQUEST_FAILED_GATED\<rparr>) t1)"

definition request_unresolved :: "request_record \<Rightarrow> bool" where
  "request_unresolved r \<longleftrightarrow> req_state r = REQUEST_PENDING \<or> req_state r = REQUEST_FAILED_GATED"

fun newest_unresolved :: "request_record list \<Rightarrow> u64 \<Rightarrow> u64" where
  "newest_unresolved [] best = best"
| "newest_unresolved (r # rs) best =
     newest_unresolved rs (if request_unresolved r \<and> request_id r > best then request_id r else best)"

definition tuning_pending_request :: "'a tuning_scheme \<Rightarrow> u64" where
  "tuning_pending_request t = newest_unresolved (requests t) 0"

definition tuning_request_status :: "u64 \<Rightarrow> 'a tuning_scheme \<Rightarrow> tune_result \<times> mono_s" where
  "tuning_request_status rid t =
     (if rid = 0 then (TUNE_FAILED, 0)
      else case request_find_locked rid t of
        None \<Rightarrow> (TUNE_FAILED, 0)
      | Some i \<Rightarrow>
          let r = requests t ! i in
          (if req_state r = REQUEST_PENDING then TUNE_PENDING else req_result r,
           if completed_m_ns r \<noteq> 0 then real (unat (completed_m_ns r)) / 10 ^ 9 else 0))"

definition tuning_frame_is_current :: "u64 \<Rightarrow> 'a tuning_scheme \<Rightarrow> bool" where
  "tuning_frame_is_current frame_generation t \<longleftrightarrow>
     unresolved_count t = 0 \<and> frame_generation = generation t"

definition tuning_frame_is_dispatchable ::
  "u64 \<Rightarrow> bool \<Rightarrow> 'a tuning_scheme \<Rightarrow> 'a tuning_scheme \<times> bool" where
  "tuning_frame_is_dispatchable frame_generation tune_owner_active t =
     (let t1 = (if tune_owner_active then t else tuning_retire_failed_requests t)
      in (t1, tuning_frame_is_current frame_generation t1))"

definition tuning_note_result ::
  "u64 \<Rightarrow> tune_result \<Rightarrow> u64 \<Rightarrow> 'a tuning_scheme \<Rightarrow> 'a tuning_scheme \<times> tune_result" where
  "tuning_note_result rid res now_ns t =
     (if res = TUNE_PENDING then
        let t1 = tuning_request_mark_ready rid t; status = fst (tuning_request_status rid t1)
        in (t1, if status = TUNE_OK then status else res)
      else
        let t1 = tuning_request_complete rid res now_ns t
        in (t1, fst (tuning_request_status rid t1)))"

section \<open>The hook wrappers\<close>

text \<open>
  The three backend hooks are function pointers, null until the engine installs them. A hook takes
  the world and the request id and returns the changed world and its result; it may itself publish
  the request's completion. \<open>now_ns\<close> is the clock when the result is noted. The triple returned is
  the world, the result and \<open>*out_request_id\<close>.
\<close>

type_synonym 'w tune_hook = "('w \<Rightarrow> u64 \<Rightarrow> 'w \<times> tune_result) option"

definition run_tune_hook ::
  "'a tuning_scheme tune_hook \<Rightarrow> u64 \<Rightarrow> 'a tuning_scheme \<Rightarrow> 'a tuning_scheme \<times> tune_result \<times> u64" where
  "run_tune_hook hook now_ns t =
     (let (t1, rid) = tuning_request_begin t in
      if rid = 0 then (t1, TUNE_FAILED, rid)
      else
        let (t2, res) = (case hook of Some f \<Rightarrow> f t1 rid | None \<Rightarrow> (t1, TUNE_FAILED));
            (t3, noted) = tuning_note_result rid res now_ns t2
        in (t3, noted, rid))"

record 'w tuning_hooks =
  tune_to_freq_request :: "('w \<Rightarrow> int \<Rightarrow> int \<Rightarrow> u64 \<Rightarrow> 'w \<times> tune_result) option"
  tune_to_cc_request :: "('w \<Rightarrow> int \<Rightarrow> int \<Rightarrow> u64 \<Rightarrow> 'w \<times> tune_result) option"
  return_to_cc_request :: "('w \<Rightarrow> u64 \<Rightarrow> 'w \<times> tune_result) option"

definition tuning_hook_tune_to_freq ::
  "'a tuning_scheme tuning_hooks \<Rightarrow> int \<Rightarrow> int \<Rightarrow> u64 \<Rightarrow> 'a tuning_scheme
    \<Rightarrow> 'a tuning_scheme \<times> tune_result \<times> u64" where
  "tuning_hook_tune_to_freq hooks freq ted_sps now_ns t =
     run_tune_hook (map_option (\<lambda>f w. f w freq ted_sps) (tune_to_freq_request hooks)) now_ns t"

definition tuning_hook_tune_to_cc ::
  "'a tuning_scheme tuning_hooks \<Rightarrow> int \<Rightarrow> int \<Rightarrow> u64 \<Rightarrow> 'a tuning_scheme
    \<Rightarrow> 'a tuning_scheme \<times> tune_result \<times> u64" where
  "tuning_hook_tune_to_cc hooks freq ted_sps now_ns t =
     run_tune_hook (map_option (\<lambda>f w. f w freq ted_sps) (tune_to_cc_request hooks)) now_ns t"

definition tuning_hook_return_to_cc ::
  "'a tuning_scheme tuning_hooks \<Rightarrow> u64 \<Rightarrow> 'a tuning_scheme \<Rightarrow> 'a tuning_scheme \<times> tune_result \<times> u64" where
  "tuning_hook_return_to_cc hooks now_ns t = run_tune_hook (return_to_cc_request hooks) now_ns t"

section \<open>The ledger invariant\<close>

text \<open>
  The count that closes the frame gate is exactly the number of entries still in flight or failed
  and waiting for recovery. Reusing a failed entry for a new request is why \<open>begin\<close> must not count
  it a second time.
\<close>

definition ledger_inv :: "'a tuning_scheme \<Rightarrow> bool" where
  "ledger_inv t \<longleftrightarrow>
     length (requests t) = REQUEST_HISTORY \<and>
     unresolved_count t = int (count_if request_unresolved (requests t))"

lemma request_matches_state [simp]:
  "s \<noteq> REQUEST_FREE \<Longrightarrow> request_matches rid (r\<lparr>req_state := s\<rparr>) \<longleftrightarrow> request_id r = rid"
  by (simp add: request_matches_def)

lemma request_matches_retire [simp]: "request_matches rid (retire_record p r) = request_matches rid r"
  by (auto simp: request_matches_def retire_record_def)

lemma find_locked_less: "request_find_locked rid t = Some i \<Longrightarrow> i < length (requests t)"
  by (auto simp: request_find_locked_def dest: find_index_less)

lemma find_locked_matches: "request_find_locked rid t = Some i \<Longrightarrow> request_matches rid (requests t ! i)"
  by (auto simp: request_find_locked_def dest: find_index_prop)

lemma set_request_simps [simp]:
  "generation (set_request i r t) = generation t"
  "next_request (set_request i r t) = next_request t"
  "unresolved_count (set_request i r t) = unresolved_count t"
  "requests (set_request i r t) = (requests t)[i := r]"
  "set_request i r' (set_request i r t) = set_request i r' t"
  by (simp_all add: set_request_def)

lemma count_retire:
  "count_if request_unresolved (map (retire_record p) rs) =
     count_if request_unresolved rs - count_if (\<lambda>r. req_state r = REQUEST_FAILED_GATED \<and> p r) rs"
  "count_if (\<lambda>r. req_state r = REQUEST_FAILED_GATED \<and> p r) rs \<le> count_if request_unresolved rs"
  by (induction rs) (auto simp: request_unresolved_def retire_record_def)

lemma ledger_inv_retire_where [inv_intros]: "ledger_inv t \<Longrightarrow> ledger_inv (retire_where p t)"
  using count_retire [of p "requests t"] by (simp add: ledger_inv_def retire_where_def of_nat_diff)

lemma ledger_inv_set_request:
  assumes "ledger_inv t" "i < length (requests t)" "request_unresolved r = request_unresolved (requests t ! i)"
  shows "ledger_inv (set_request i r t)"
  using assms by (simp add: ledger_inv_def count_if_update_same)

lemma ledger_inv_resolve:
  assumes "ledger_inv t" "i < length (requests t)" "request_unresolved (requests t ! i)" "\<not> request_unresolved r"
  shows "ledger_inv ((set_request i r t)\<lparr>unresolved_count := unresolved_count t - 1\<rparr>)"
  using assms by (simp add: ledger_inv_def count_if_update)

lemma ledger_inv_generation [simp]: "ledger_inv (t\<lparr>generation := g\<rparr>) = ledger_inv t"
  by (simp add: ledger_inv_def)

lemma ledger_inv_finish_success [inv_intros]:
  assumes "ledger_inv t" "i < length (requests t)"
  shows "ledger_inv (finish_success_locked i t)"
proof (cases "req_state (requests t ! i) = REQUEST_PENDING")
  case True
  let ?t = "tuning_generation_advance t"
  let ?r = "(requests t ! i)\<lparr>req_state := REQUEST_FINISHED\<rparr>"
  have "ledger_inv ((set_request i ?r ?t)\<lparr>unresolved_count := unresolved_count ?t - 1\<rparr>)"
    using assms True
    by (intro ledger_inv_resolve) (auto simp: tuning_generation_advance_def request_unresolved_def)
  then show ?thesis using True
    by (simp add: finish_success_locked_def Let_def retire_failed_requests_locked_def
        ledger_inv_retire_where)
qed (use assms in \<open>simp add: finish_success_locked_def Let_def\<close>)

lemma ledger_inv_finish_rolled_back [inv_intros]:
  assumes "ledger_inv t" "i < length (requests t)" "req_state (requests t ! i) \<noteq> REQUEST_FREE"
  shows "ledger_inv (finish_rolled_back_locked i t)"
proof -
  have u: "request_unresolved (requests t ! i)" if "req_state (requests t ! i) \<noteq> REQUEST_FINISHED"
    using that assms(3) by (cases "req_state (requests t ! i)") (auto simp: request_unresolved_def)
  show ?thesis
    using assms(1,2) u
    by (auto simp: finish_rolled_back_locked_def Let_def request_unresolved_def
        intro!: ledger_inv_set_request ledger_inv_resolve)
qed

section \<open>Slot search\<close>

text \<open>What the search returns: a free or finished entry without a gate, else a failed one with it.\<close>

lemma slot_loop_Some:
  assumes "request_slot_loop i rs fin fail = Some (j, g)"
    and "\<And>k b. fin = Some (k, b) \<Longrightarrow> k < i" "\<And>k b. fail = Some (k, b) \<Longrightarrow> k < i"
  shows "(i \<le> j \<and> j < i + length rs \<and>
           (if g then req_state (rs ! (j - i)) = REQUEST_FAILED_GATED
            else req_state (rs ! (j - i)) \<in> {REQUEST_FREE, REQUEST_FINISHED})) \<or>
         (if g then \<exists>b. fail = Some (j, b) else \<exists>b. fin = Some (j, b))"
  using assms
proof (induction i rs fin fail rule: request_slot_loop.induct)
  case (1 i fin fail)
  then show ?case by (auto split: option.splits)
next
  case (2 i r rs fin fail)
  let ?fin = "if req_state r = REQUEST_FINISHED \<and> older (request_id r) fin then Some (i, request_id r) else fin"
  let ?fail = "if req_state r = REQUEST_FAILED_GATED \<and> older (request_id r) fail then Some (i, request_id r) else fail"
  show ?case
  proof (cases "req_state r = REQUEST_FREE")
    case True
    with "2.prems" show ?thesis by auto
  next
    case False
    have "(Suc i \<le> j \<and> j < Suc i + length rs \<and>
             (if g then req_state (rs ! (j - Suc i)) = REQUEST_FAILED_GATED
              else req_state (rs ! (j - Suc i)) \<in> {REQUEST_FREE, REQUEST_FINISHED})) \<or>
           (if g then \<exists>b. ?fail = Some (j, b) else \<exists>b. ?fin = Some (j, b))"
      using "2.prems" False by (intro "2.IH") (auto split: if_splits dest: less_SucI)
    then show ?thesis
    proof
      assume h: "Suc i \<le> j \<and> j < Suc i + length rs \<and>
             (if g then req_state (rs ! (j - Suc i)) = REQUEST_FAILED_GATED
              else req_state (rs ! (j - Suc i)) \<in> {REQUEST_FREE, REQUEST_FINISHED})"
      then have "(r # rs) ! (j - i) = rs ! (j - Suc i)" by (simp add: nth_Cons' Suc_diff_Suc)
      with h show ?thesis by (cases g) auto
    next
      assume "if g then \<exists>b. ?fail = Some (j, b) else \<exists>b. ?fin = Some (j, b)"
      then show ?thesis by (auto split: if_splits)
    qed
  qed
qed

lemma slot_locked_Some:
  assumes "request_slot_locked t = Some (j, g)"
  shows "j < length (requests t)"
    and "if g then req_state (requests t ! j) = REQUEST_FAILED_GATED
         else req_state (requests t ! j) \<in> {REQUEST_FREE, REQUEST_FINISHED}"
  using slot_loop_Some [of 0 "requests t" None None j g] assms
  by (auto simp: request_slot_locked_def split: if_splits)

lemma slot_loop_None:
  "request_slot_loop i rs fin fail = None \<longleftrightarrow>
     fin = None \<and> fail = None \<and> (\<forall>r\<in>set rs. req_state r = REQUEST_PENDING)"
proof (induction i rs fin fail rule: request_slot_loop.induct)
  case (1 i fin fail)
  then show ?case by (auto split: option.splits)
next
  case (2 i r rs fin fail)
  then show ?case by (cases "req_state r") (auto simp: older_def)
qed

lemma slot_locked_None:
  "request_slot_locked t = None \<longleftrightarrow> (\<forall>r\<in>set (requests t). req_state r = REQUEST_PENDING)"
  by (simp add: request_slot_locked_def slot_loop_None)

section \<open>Every operation keeps the invariant\<close>

lemma ledger_inv_boot: "ledger_inv tuning_boot"
  by (simp add: ledger_inv_def tuning_boot_def request_unresolved_def free_record_def)

lemma ledger_inv_next [simp]: "ledger_inv (t\<lparr>next_request := n\<rparr>) = ledger_inv t"
  by (simp add: ledger_inv_def)

lemma ledger_inv_begin [inv_intros]:
  assumes "ledger_inv t"
  shows "ledger_inv (fst (tuning_request_begin t))"
proof (cases "request_slot_locked (t\<lparr>next_request := fresh_request_id (next_request t)\<rparr>)")
  case None
  with assms show ?thesis by (simp add: tuning_request_begin_def Let_def)
next
  case (Some p)
  obtain j g where p: "p = (j, g)" by (cases p)
  note slot = slot_locked_Some [OF Some [unfolded p]]
  show ?thesis using slot Some p assms
    by (cases g)
      (auto simp: tuning_request_begin_def Let_def ledger_inv_def count_if_update request_unresolved_def)
qed

lemma ledger_inv_publish [inv_intros]:
  assumes "ledger_inv t"
  shows "ledger_inv (tuning_request_publish rid res now_ns t)"
proof (cases "request_find_locked rid t")
  case None
  with assms show ?thesis by (simp add: tuning_request_publish_def)
next
  case (Some i)
  note l = find_locked_less [OF Some]
  show ?thesis using assms l Some
    by (auto simp: tuning_request_publish_def Let_def request_unresolved_def
        intro!: ledger_inv_set_request ledger_inv_finish_success)
qed

lemma ledger_inv_mark_ready [inv_intros]:
  assumes "ledger_inv t"
  shows "ledger_inv (tuning_request_mark_ready rid t)"
proof (cases "request_find_locked rid t")
  case None
  with assms show ?thesis by (simp add: tuning_request_mark_ready_def)
next
  case (Some i)
  note l = find_locked_less [OF Some]
  show ?thesis using assms l Some
    by (auto simp: tuning_request_mark_ready_def Let_def request_unresolved_def
        intro!: ledger_inv_set_request ledger_inv_finish_success)
qed

lemma ledger_inv_complete [inv_intros]:
  assumes "ledger_inv t"
  shows "ledger_inv (tuning_request_complete rid res now_ns t)"
proof (cases "request_find_locked rid t")
  case None
  with assms show ?thesis by (simp add: tuning_request_complete_def)
next
  case (Some i)
  note l = find_locked_less [OF Some]
  have "req_state (requests t ! i) \<noteq> REQUEST_FREE"
    using find_locked_matches [OF Some] by (simp add: request_matches_def)
  then show ?thesis using assms l Some
    by (cases "req_state (requests t ! i)")
      (auto simp: tuning_request_complete_def Let_def request_unresolved_def
        intro!: ledger_inv_set_request ledger_inv_finish_success ledger_inv_finish_rolled_back)
qed

lemma ledger_inv_reset [inv_intros]: "ledger_inv (tuning_requests_reset t)"
  by (simp add: ledger_inv_def tuning_requests_reset_def request_unresolved_def free_record_def)

lemma ledger_inv_retire_failed [inv_intros]: "ledger_inv t \<Longrightarrow> ledger_inv (tuning_retire_failed_requests t)"
  by (simp add: tuning_retire_failed_requests_def ledger_inv_retire_where)

lemma ledger_inv_advance [inv_intros]: "ledger_inv t \<Longrightarrow> ledger_inv (tuning_generation_advance t)"
  by (simp add: tuning_generation_advance_def)

text \<open>
  The threads of the program interleave these operations in any order; each one runs under the
  request lock, so a run is a sequence of them.
\<close>

datatype ledger_op =
    Op_begin
  | Op_publish u64 tune_result u64
  | Op_mark_ready u64
  | Op_complete u64 tune_result u64
  | Op_retire_failed
  | Op_reset
  | Op_advance

fun ledger_step :: "'a tuning_scheme \<Rightarrow> ledger_op \<Rightarrow> 'a tuning_scheme" where
  "ledger_step t Op_begin = fst (tuning_request_begin t)"
| "ledger_step t (Op_publish rid res now_ns) = tuning_request_publish rid res now_ns t"
| "ledger_step t (Op_mark_ready rid) = tuning_request_mark_ready rid t"
| "ledger_step t (Op_complete rid res now_ns) = tuning_request_complete rid res now_ns t"
| "ledger_step t Op_retire_failed = tuning_retire_failed_requests t"
| "ledger_step t Op_reset = tuning_requests_reset t"
| "ledger_step t Op_advance = tuning_generation_advance t"

definition ledger_run :: "'a tuning_scheme \<Rightarrow> ledger_op list \<Rightarrow> 'a tuning_scheme" where
  "ledger_run = foldl ledger_step"

inductive ledger_reachable :: "'a tuning_scheme \<Rightarrow> 'a tuning_scheme \<Rightarrow> bool" for t0 where
  ledger_start: "ledger_reachable t0 t0"
| ledger_next: "ledger_reachable t0 t \<Longrightarrow> ledger_reachable t0 (ledger_step t op)"

lemma ledger_inv_step [inv_intros]: "ledger_inv t \<Longrightarrow> ledger_inv (ledger_step t op)"
  by (cases op) (auto intro: inv_intros)

lemma ledger_inv_run: "ledger_inv t \<Longrightarrow> ledger_inv (ledger_run t ops)"
  by (induction ops arbitrary: t) (auto simp: ledger_run_def intro: ledger_inv_step)

lemma ledger_inv_reachable: "ledger_reachable t0 t \<Longrightarrow> ledger_inv t0 \<Longrightarrow> ledger_inv t"
  by (induction rule: ledger_reachable.induct) (auto intro: ledger_inv_step)

lemma ledger_run_reachable: "ledger_reachable t0 t \<Longrightarrow> ledger_reachable t0 (ledger_run t ops)"
  by (induction ops arbitrary: t) (auto simp: ledger_run_def intro: ledger_next)

section \<open>The frame gate\<close>

lemma frame_is_current_iff:
  "ledger_inv t \<Longrightarrow>
     tuning_frame_is_current g t \<longleftrightarrow>
       g = generation t \<and> (\<forall>r\<in>set (requests t). \<not> request_unresolved r)"
  by (auto simp: tuning_frame_is_current_def ledger_inv_def count_if_eq_0_iff)

section \<open>Generation\<close>

lemma generation_retire_where [simp]: "generation (retire_where p t) = generation t"
  by (simp add: retire_where_def)

lemma generation_rolled_back [simp]: "generation (finish_rolled_back_locked i t) = generation t"
  by (simp add: finish_rolled_back_locked_def Let_def)

lemma generation_finish_success [simp]:
  "generation (finish_success_locked i t) =
     generation t + (if req_state (requests t ! i) = REQUEST_PENDING then 1 else 0)"
  by (simp add: finish_success_locked_def Let_def retire_failed_requests_locked_def
      tuning_generation_advance_def)

lemma generation_begin [simp]: "generation (fst (tuning_request_begin t)) = generation t"
  by (simp add: tuning_request_begin_def Let_def split: option.splits prod.splits)

section \<open>Request ids\<close>

definition ids_inv :: "'a tuning_scheme \<Rightarrow> bool" where
  "ids_inv t \<longleftrightarrow>
     (\<forall>r\<in>set (requests t). req_state r \<noteq> REQUEST_FREE \<longrightarrow> request_id r \<noteq> 0 \<and> request_id r \<le> next_request t)"

lemma fresh_id_nonzero: "fresh_request_id n \<noteq> 0"
proof
  assume a: "fresh_request_id n = 0"
  then have z: "n + 1 = 0" by (auto simp: fresh_request_id_def split: if_splits)
  with a have "n + 2 = 0" by (simp add: fresh_request_id_def)
  moreover have "n + 2 = (n + 1) + 1" by (simp add: add.assoc)
  ultimately show False using z by simp
qed

lemma fresh_id_greater: "n \<noteq> - 1 \<Longrightarrow> n < fresh_request_id n"
  by (auto simp: fresh_request_id_def word_succ_nonzero word_less_succ)

lemma ids_inv_update:
  assumes "ids_inv t" "\<And>r. r \<in> set rs \<Longrightarrow> req_state r \<noteq> REQUEST_FREE \<Longrightarrow>
       \<exists>r'\<in>set (requests t). request_id r' = request_id r \<and> req_state r' \<noteq> REQUEST_FREE"
  shows "ids_inv (t\<lparr>requests := rs\<rparr>)"
proof -
  have "request_id r \<noteq> 0 \<and> request_id r \<le> next_request t" if "r \<in> set rs" "req_state r \<noteq> REQUEST_FREE" for r
    using assms(2) [OF that] assms(1) by (auto simp: ids_inv_def)
  then show ?thesis by (simp add: ids_inv_def)
qed

lemma ids_inv_set_request:
  assumes "ids_inv t" "i < length (requests t)"
    "request_id r = request_id (requests t ! i)" "req_state (requests t ! i) \<noteq> REQUEST_FREE"
  shows "ids_inv (set_request i r t)"
  unfolding set_request_def
proof (rule ids_inv_update [OF assms(1)])
  fix x assume "x \<in> set ((requests t)[i := r])" "req_state x \<noteq> REQUEST_FREE"
  then show "\<exists>r'\<in>set (requests t). request_id r' = request_id x \<and> req_state r' \<noteq> REQUEST_FREE"
    using assms by (auto dest!: set_update_subset_insert [THEN subsetD] intro: bexI [of _ "requests t ! i"])
qed

lemma ids_inv_other_fields [simp]:
  "ids_inv (t\<lparr>unresolved_count := c\<rparr>) = ids_inv t"
  "ids_inv (t\<lparr>generation := g\<rparr>) = ids_inv t"
  by (simp_all add: ids_inv_def)

lemma ids_inv_retire_where: "ids_inv t \<Longrightarrow> ids_inv (retire_where p t)"
  by (auto simp: ids_inv_def retire_where_def retire_record_def)

lemma ids_inv_finish_success:
  assumes "ids_inv t" "i < length (requests t)"
  shows "ids_inv (finish_success_locked i t)"
proof (cases "req_state (requests t ! i) = REQUEST_PENDING")
  case True
  have "ids_inv (set_request i ((requests t ! i)\<lparr>req_state := REQUEST_FINISHED\<rparr>) (tuning_generation_advance t))"
    using assms True by (intro ids_inv_set_request) (auto simp: tuning_generation_advance_def)
  then show ?thesis using True
    by (simp add: finish_success_locked_def Let_def retire_failed_requests_locked_def ids_inv_retire_where)
qed (use assms in \<open>simp add: finish_success_locked_def Let_def\<close>)

lemma ids_inv_finish_rolled_back:
  assumes "ids_inv t" "i < length (requests t)" "req_state (requests t ! i) \<noteq> REQUEST_FREE"
  shows "ids_inv (finish_rolled_back_locked i t)"
  using assms by (auto simp: finish_rolled_back_locked_def Let_def intro!: ids_inv_set_request)

lemmas ids_inv_rules = ids_inv_set_request ids_inv_finish_success ids_inv_finish_rolled_back

lemma find_locked_found:
  assumes "request_find_locked rid t = Some i"
  shows "i < length (requests t)" "req_state (requests t ! i) \<noteq> REQUEST_FREE" "request_id (requests t ! i) = rid"
  using find_locked_less [OF assms] find_locked_matches [OF assms] by (auto simp: request_matches_def)

lemma ids_inv_publish: "ids_inv t \<Longrightarrow> ids_inv (tuning_request_publish rid res now_ns t)"
  using find_locked_found [of rid t]
  by (auto simp: tuning_request_publish_def Let_def split: option.splits intro!: ids_inv_rules)

lemma ids_inv_mark_ready: "ids_inv t \<Longrightarrow> ids_inv (tuning_request_mark_ready rid t)"
  using find_locked_found [of rid t]
  by (auto simp: tuning_request_mark_ready_def Let_def split: option.splits intro!: ids_inv_rules)

lemma ids_inv_complete: "ids_inv t \<Longrightarrow> ids_inv (tuning_request_complete rid res now_ns t)"
  using find_locked_found [of rid t]
  by (auto simp: tuning_request_complete_def Let_def split: option.splits intro!: ids_inv_rules)

lemma ids_inv_begin:
  assumes "ids_inv t" "next_request t \<noteq> - 1"
  shows "ids_inv (fst (tuning_request_begin t))"
proof -
  have less: "next_request t < fresh_request_id (next_request t)" by (rule fresh_id_greater [OF assms(2)])
  have "req_state r \<noteq> REQUEST_FREE \<longrightarrow> request_id r \<noteq> 0 \<and> request_id r \<le> fresh_request_id (next_request t)"
    if "r \<in> set (requests t)" for r
    using assms(1) that less by (auto simp: ids_inv_def)
  then show ?thesis
    by (auto simp: tuning_request_begin_def Let_def ids_inv_def fresh_id_nonzero
        split: option.splits prod.splits dest!: set_update_subset_insert [THEN subsetD])
qed

lemma ids_inv_step:
  assumes "ids_inv t" "next_request t \<noteq> - 1"
  shows "ids_inv (ledger_step t op)"
proof (cases op)
  case Op_reset
  then show ?thesis by (simp add: ids_inv_def tuning_requests_reset_def free_record_def)
qed (use assms in \<open>auto intro: ids_inv_begin ids_inv_publish ids_inv_mark_ready ids_inv_complete
       ids_inv_retire_where simp: tuning_retire_failed_requests_def tuning_generation_advance_def\<close>)

lemma next_request_other [simp]:
  "next_request (retire_where p t) = next_request t"
  "next_request (finish_success_locked i t) = next_request t"
  "next_request (finish_rolled_back_locked i t) = next_request t"
  "next_request (tuning_request_publish rid res now_ns t) = next_request t"
  "next_request (tuning_request_mark_ready rid t) = next_request t"
  "next_request (tuning_request_complete rid res now_ns t) = next_request t"
  by (simp_all add: retire_where_def finish_success_locked_def Let_def retire_failed_requests_locked_def
      tuning_generation_advance_def finish_rolled_back_locked_def tuning_request_publish_def
      tuning_request_mark_ready_def tuning_request_complete_def split: option.splits)

lemma next_request_begin [simp]:
  "next_request (fst (tuning_request_begin t)) = fresh_request_id (next_request t)"
  by (simp add: tuning_request_begin_def Let_def split: option.splits prod.splits)

lemma next_request_step:
  "unat (next_request (ledger_step t op)) \<le> Suc (unat (next_request t))" if "next_request t \<noteq> - 1"
proof (cases op)
  case Op_begin
  then show ?thesis using that
    by (simp add: fresh_request_id_def word_succ_nonzero) (metis add.commute le_refl unatSuc word_succ_nonzero)
qed (simp_all add: tuning_retire_failed_requests_def tuning_requests_reset_def tuning_generation_advance_def)

text \<open>Ids stay ordered over any run too short to wrap the 64-bit counter.\<close>

lemma ids_inv_run:
  "length ops < 2 ^ 64 - 1 \<Longrightarrow>
     ids_inv (ledger_run tuning_boot ops) \<and> unat (next_request (ledger_run tuning_boot ops)) \<le> length ops"
proof (induction ops rule: rev_induct)
  case Nil
  show ?case by (simp add: ledger_run_def tuning_boot_def ids_inv_def free_record_def)
next
  case (snoc op ops)
  let ?t = "ledger_run tuning_boot ops"
  from snoc have ih: "ids_inv ?t" "unat (next_request ?t) \<le> length ops" by auto
  have "unat (next_request ?t) < 2 ^ 64 - 1" using ih(2) snoc.prems by simp
  moreover have "unat (- 1 :: u64) = 2 ^ 64 - 1"
    by (simp add: unsigned_minus_1_eq_mask mask_eq_exp_minus_1)
  ultimately have nw: "next_request ?t \<noteq> - 1" by (metis less_irrefl)
  show ?case
    using ids_inv_step [OF ih(1) nw, of op] next_request_step [OF nw, of op] ih(2)
    by (simp add: ledger_run_def)
qed

section \<open>Properties of the ledger\<close>

text \<open>C1: in every state that any interleaving of ledger operations reaches from boot, a frame
  stamped with generation \<open>g\<close> passes the gate exactly when \<open>g\<close> is the current generation and no
  request is in flight or failed without recovery: the count the gate tests agrees with the
  ledger, although a reused failed entry is counted once only.\<close>

theorem frame_gate_exact:
  "tuning_frame_is_current g (ledger_run tuning_boot ops) \<longleftrightarrow>
     g = generation (ledger_run tuning_boot ops) \<and>
     filter request_unresolved (requests (ledger_run tuning_boot ops)) = []"
  unfolding filter_empty_conv by (rule frame_is_current_iff [OF ledger_inv_run [OF ledger_inv_boot]])

text \<open>A new request is refused, with id 0, exactly when all entries of the history are pending;
  otherwise the gate is closed for frames of every generation until it is resolved.\<close>

theorem begin_closes_gate:
  fixes t :: "'a tuning_scheme"
  assumes "ledger_inv t"
  shows "(snd (tuning_request_begin t) = 0 \<longleftrightarrow> (\<forall>r\<in>set (requests t). req_state r = REQUEST_PENDING)) \<and>
         (snd (tuning_request_begin t) \<noteq> 0 \<longrightarrow> \<not> tuning_frame_is_current g (fst (tuning_request_begin t)))"
proof -
  let ?t1 = "t\<lparr>next_request := fresh_request_id (next_request t)\<rparr>"
  have inv: "ledger_inv (fst (tuning_request_begin t))" by (rule ledger_inv_begin [OF assms])
  show ?thesis
  proof (cases "request_slot_locked ?t1")
    case None
    then show ?thesis using slot_locked_None [of ?t1]
      by (simp add: tuning_request_begin_def Let_def)
  next
    case (Some p)
    obtain j g' where p: "p = (j, g')" by (cases p)
    note slot = slot_locked_Some [OF Some [unfolded p]]
    have "\<exists>r\<in>set (requests (fst (tuning_request_begin t))). request_unresolved r"
      using slot(1) Some p
      by (auto simp: tuning_request_begin_def Let_def request_unresolved_def
          intro!: bexI [OF _ set_update_memI])
    moreover have "\<not> (\<forall>r\<in>set (requests t). req_state r = REQUEST_PENDING)"
      using slot_locked_None [of ?t1] Some by simp
    ultimately show ?thesis using frame_is_current_iff [OF inv] Some p fresh_id_nonzero
      by (simp add: tuning_request_begin_def Let_def)
  qed
qed

theorem begin_closes_gate_witness:
  "ledger_inv tuning_boot \<and> \<not> tuning_frame_is_current 1 (fst (tuning_request_begin tuning_boot))"
proof -
  have "snd (tuning_request_begin tuning_boot) \<noteq> 0"
    using begin_closes_gate [OF ledger_inv_boot, of 1]
    by (auto simp: tuning_boot_def REQUEST_HISTORY_def free_record_def)
  then show ?thesis using begin_closes_gate [OF ledger_inv_boot, of 1] ledger_inv_boot by simp
qed

lemma finished_find_update:
  assumes "request_find_locked rid t = Some i" "request_matches rid r"
  shows "request_find_locked rid (set_request i r t) = Some i"
  using assms find_locked_matches [OF assms(1)]
  by (simp add: request_find_locked_def find_index_list_update)

lemma find_locked_fields [simp]:
  "request_find_locked rid (t\<lparr>unresolved_count := c\<rparr>) = request_find_locked rid t"
  "request_find_locked rid (t\<lparr>generation := g\<rparr>) = request_find_locked rid t"
  "request_find_locked rid (retire_where p t) = request_find_locked rid t"
  "request_find_locked rid (set_request i r (t\<lparr>generation := g\<rparr>)) = request_find_locked rid (set_request i r t)"
  by (simp_all add: request_find_locked_def retire_where_def find_index_map)

lemma find_locked_finish_success:
  assumes "request_find_locked rid t = Some i"
  shows "request_find_locked rid (finish_success_locked i t) = Some i"
proof -
  have "request_find_locked rid (set_request i ((requests t ! i)\<lparr>req_state := REQUEST_FINISHED\<rparr>) t) = Some i"
    using find_locked_found [OF assms] by (intro finished_find_update [OF assms]) simp
  then show ?thesis using assms
    by (simp add: finish_success_locked_def Let_def retire_failed_requests_locked_def
        tuning_generation_advance_def)
qed

lemma finish_success_state:
  assumes "i < length (requests t)" "req_state (requests t ! i) = REQUEST_PENDING"
  shows "requests (finish_success_locked i t) ! i = (requests t ! i)\<lparr>req_state := REQUEST_FINISHED\<rparr>"
  using assms
  by (simp add: finish_success_locked_def Let_def retire_failed_requests_locked_def retire_where_def
      tuning_generation_advance_def retire_record_def)

lemma finish_success_noop:
  "req_state (requests t ! i) \<noteq> REQUEST_PENDING \<Longrightarrow> finish_success_locked i t = t"
  by (simp add: finish_success_locked_def Let_def)

text \<open>
  The three operations on a found entry, one equation per branch; the properties below rest on
  these.
\<close>

lemma publish_found:
  assumes "request_find_locked rid t = Some i" "rid \<noteq> 0" "res \<noteq> TUNE_PENDING"
  shows "tuning_request_publish rid res now_ns t =
     (let r = requests t ! i;
          r1 = r\<lparr>req_result := res, completed_m_ns := now_ns, backend_complete := True\<rparr> in
      if req_state r \<noteq> REQUEST_PENDING then t
      else if tune_result_is_complete res
      then (if owner_ready r then finish_success_locked i (set_request i r1 t) else set_request i r1 t)
      else set_request i (r1\<lparr>req_state := REQUEST_FAILED_GATED\<rparr>) t)"
  using assms by (simp add: tuning_request_publish_def Let_def)

lemma mark_ready_found:
  assumes "request_find_locked rid t = Some i" "rid \<noteq> 0"
  shows "tuning_request_mark_ready rid t =
     (let r = requests t ! i; r1 = r\<lparr>owner_ready := True\<rparr> in
      if req_state r \<noteq> REQUEST_PENDING then t
      else if backend_complete r \<and> tune_result_is_complete (req_result r)
      then finish_success_locked i (set_request i r1 t) else set_request i r1 t)"
  using assms by (simp add: tuning_request_mark_ready_def Let_def)

lemma missing_noop:
  assumes "request_find_locked rid t = None"
  shows "tuning_request_publish rid res now_ns t = t" "tuning_request_mark_ready rid t = t"
    "tuning_request_complete rid res now_ns t = t"
  using assms
  by (simp_all add: tuning_request_publish_def tuning_request_mark_ready_def tuning_request_complete_def)

lemma set_pending_state [simp]:
  "i < length (requests t) \<Longrightarrow> requests (set_request i r t) ! i = r"
  by simp

text \<open>The backend's success report and the owner's readiness may arrive in either order; both
  interleavings leave the same ledger, generation and gate. A backend that reports before the owner
  has staged its decoder state does not open the gate early.\<close>

theorem publish_ready_race:
  fixes t :: "'a tuning_scheme"
  assumes "\<And>i. request_find_locked rid t = Some i \<Longrightarrow> \<not> backend_complete (requests t ! i)"
  shows "tuning_request_mark_ready rid (tuning_request_publish rid TUNE_OK now_ns t) =
         tuning_request_publish rid TUNE_OK now_ns (tuning_request_mark_ready rid t)"
proof (cases "rid = 0")
  case True
  then show ?thesis by (simp add: tuning_request_mark_ready_def tuning_request_publish_def)
next
  case nz: False
  show ?thesis
  proof (cases "request_find_locked rid t")
    case None
    then show ?thesis by (simp add: missing_noop)
  next
    case (Some i)
    note f = find_locked_found [OF Some]
    let ?r = "requests t ! i"
    show ?thesis
    proof (cases "req_state ?r = REQUEST_PENDING")
      case False
      then show ?thesis using nz Some by (simp add: publish_found mark_ready_found)
    next
      case True
      have m: "request_matches rid ?r" by (rule find_locked_matches [OF Some])
      define r1 where "r1 = ?r\<lparr>req_result := TUNE_OK, completed_m_ns := now_ns, backend_complete := True\<rparr>"
      have m1: "request_matches rid r1" "request_matches rid (?r\<lparr>owner_ready := True\<rparr>)"
        "request_matches rid (r1\<lparr>owner_ready := True\<rparr>)" using m by (simp_all add: r1_def request_matches_def)
      note fu = finished_find_update [OF Some m1(1)] finished_find_update [OF Some m1(2)]
      have pub: "tuning_request_publish rid TUNE_OK now_ns t =
          (if owner_ready ?r then finish_success_locked i (set_request i r1 t) else set_request i r1 t)"
        using nz True by (simp add: publish_found [OF Some] r1_def tune_result_is_complete_def)
      have rdy: "tuning_request_mark_ready rid t = set_request i (?r\<lparr>owner_ready := True\<rparr>) t"
        using nz True assms [OF Some] by (simp add: mark_ready_found [OF Some])
      have comm: "?r\<lparr>owner_ready := True, req_result := TUNE_OK, completed_m_ns := now_ns,
          backend_complete := True\<rparr> = r1\<lparr>owner_ready := True\<rparr>"
        by (cases ?r) (simp add: r1_def)
      have right: "tuning_request_publish rid TUNE_OK now_ns (tuning_request_mark_ready rid t) =
          finish_success_locked i (set_request i (r1\<lparr>owner_ready := True\<rparr>) t)"
        using nz True f by (simp add: rdy publish_found [OF fu(2)] comm tune_result_is_complete_def)
      show ?thesis
      proof (cases "owner_ready ?r")
        case False
        have "tuning_request_mark_ready rid (set_request i r1 t) =
            finish_success_locked i (set_request i (r1\<lparr>owner_ready := True\<rparr>) t)"
        proof -
          have "req_state r1 = REQUEST_PENDING" "backend_complete r1" "req_result r1 = TUNE_OK"
            using True by (simp_all add: r1_def)
          then show ?thesis using nz f
            by (simp add: mark_ready_found [OF fu(1)] Let_def tune_result_is_complete_def)
        qed
        then show ?thesis using right False by (simp add: pub)
      next
        case ready: True
        then have same: "r1\<lparr>owner_ready := True\<rparr> = r1" by (simp add: r1_def)
        have "tuning_request_mark_ready rid (finish_success_locked i (set_request i r1 t)) =
            finish_success_locked i (set_request i r1 t)"
        proof -
          have "req_state r1 = REQUEST_PENDING" using True by (simp add: r1_def)
          then have "requests (finish_success_locked i (set_request i r1 t)) ! i = r1\<lparr>req_state := REQUEST_FINISHED\<rparr>"
            using f finish_success_state [of i "set_request i r1 t"] by simp
          then show ?thesis using nz
            by (simp add: mark_ready_found [OF find_locked_finish_success [OF fu(1)]])
        qed
        with ready right same show ?thesis by (simp add: pub)
      qed
    qed
  qed
qed

theorem publish_ready_race_witness:
  "let t = fst (tuning_request_begin tuning_boot) in
     request_find_locked 1 t = Some 0 \<and>
     tuning_request_mark_ready 1 (tuning_request_publish 1 TUNE_OK 5 t) =
     tuning_request_publish 1 TUNE_OK 5 (tuning_request_mark_ready 1 t)"
proof -
  let ?t = "fst (tuning_request_begin tuning_boot)"
  have f: "request_find_locked 1 ?t = Some 0" "\<not> backend_complete (requests ?t ! 0)"
    by (code_simp)+
  then show ?thesis using publish_ready_race [of 1 ?t 5] by simp
qed

text \<open>An expired request cannot be resurrected: once the owner has published a failure for a
  request in flight, a success that the backend reports later changes nothing, and the request
  reads as failed.\<close>

theorem expired_request_stays_failed:
  fixes t :: "'a tuning_scheme"
  assumes "request_find_locked rid t = Some i" "req_state (requests t ! i) = REQUEST_PENDING" "rid \<noteq> 0"
  shows "let t' = tuning_request_publish rid TUNE_FAILED n1 t in
           tuning_request_publish rid TUNE_OK n2 t' = t' \<and>
           fst (tuning_request_status rid t') = TUNE_FAILED \<and> generation t' = generation t"
proof -
  let ?t = "tuning_request_publish rid TUNE_FAILED n1 t"
  note f = find_locked_found [OF assms(1)]
  define r where "r = (requests t ! i)\<lparr>req_result := TUNE_FAILED, completed_m_ns := n1,
      backend_complete := True, req_state := REQUEST_FAILED_GATED\<rparr>"
  have t': "?t = set_request i r t"
    using assms(2,3) by (simp add: publish_found [OF assms(1)] r_def tune_result_is_complete_def)
  have find: "request_find_locked rid ?t = Some i"
    unfolding t' using f by (intro finished_find_update [OF assms(1)]) (simp add: r_def request_matches_def)
  have at: "requests ?t ! i = r" using f by (simp add: t')
  have "tuning_request_publish rid TUNE_OK n2 ?t = ?t"
    using assms(3) at by (simp add: publish_found [OF find] r_def)
  moreover have "fst (tuning_request_status rid ?t) = TUNE_FAILED"
    using assms(3) find at by (simp add: tuning_request_status_def Let_def r_def)
  moreover have "generation ?t = generation t" by (simp add: t')
  ultimately show ?thesis by (simp add: Let_def)
qed

theorem expired_request_stays_failed_witness:
  "let t = fst (tuning_request_begin tuning_boot); t' = tuning_request_publish 1 TUNE_FAILED 7 t in
     tuning_request_publish 1 TUNE_OK 9 t' = t' \<and> fst (tuning_request_status 1 t') = TUNE_FAILED"
proof -
  let ?t = "fst (tuning_request_begin tuning_boot)"
  have f: "request_find_locked 1 ?t = Some 0" "req_state (requests ?t ! 0) = REQUEST_PENDING"
    by (code_simp)+
  show ?thesis using expired_request_stays_failed [OF f, of 7 9] by (simp add: Let_def)
qed

text \<open>no operation other than a completed success or a direct retune moves the generation, and
  one success moves it by exactly one: a failed, deferred or timed-out result, a repeated
  completion of a finished request and an unknown id leave every frame stamp as valid or stale as
  it was.\<close>

theorem generation_changes_only_on_success:
  "(res \<noteq> TUNE_OK \<longrightarrow> generation (tuning_request_complete rid res now_ns t) = generation t
       \<and> generation (tuning_request_publish rid res now_ns t) = generation t) \<and>
   generation (ledger_step t op) \<in> {generation t, generation t + 1}"
  by (cases op) (auto simp: tuning_request_complete_def tuning_request_publish_def Let_def
      tune_result_is_complete_def tuning_request_mark_ready_def tuning_retire_failed_requests_def
      tuning_requests_reset_def tuning_generation_advance_def split: option.splits)

theorem generation_changes_only_on_success_witness:
  "generation (tuning_request_complete 1 TUNE_TIMEOUT 3 (fst (tuning_request_begin tuning_boot))) = 1"
  using generation_changes_only_on_success [of TUNE_TIMEOUT 1 3 "fst (tuning_request_begin tuning_boot)"]
  by (simp add: tuning_boot_def)

section \<open>Synchronous tunes\<close>

text \<open>A backend that does not touch the ledger while it runs.\<close>

definition same_ledger :: "'a tuning_scheme \<Rightarrow> 'b tuning_scheme \<Rightarrow> bool" where
  "same_ledger t u \<longleftrightarrow>
     generation u = generation t \<and> next_request u = next_request t \<and>
     unresolved_count u = unresolved_count t \<and> requests u = requests t"

lemma begin_some:
  fixes t :: "'a tuning_scheme"
  assumes "ids_inv t" "next_request t \<noteq> - 1" "\<exists>r\<in>set (requests t). req_state r \<noteq> REQUEST_PENDING"
  obtains i g where
    "i < length (requests t)"
    "g \<longleftrightarrow> req_state (requests t ! i) = REQUEST_FAILED_GATED"
    "req_state (requests t ! i) \<noteq> REQUEST_PENDING"
    "tuning_request_begin t =
       ((set_request i \<lparr>request_id = fresh_request_id (next_request t), completed_m_ns = 0,
           req_result = TUNE_PENDING, req_state = REQUEST_PENDING, inherited_failure_gate = g,
           backend_complete = False, owner_ready = False\<rparr> (t\<lparr>next_request := fresh_request_id (next_request t)\<rparr>))
         \<lparr>unresolved_count := unresolved_count t + (if g then 0 else 1)\<rparr>, fresh_request_id (next_request t))"
proof -
  let ?t1 = "t\<lparr>next_request := fresh_request_id (next_request t)\<rparr>"
  from assms(3) have "request_slot_locked ?t1 \<noteq> None" by (auto simp: slot_locked_None)
  then obtain i g where s: "request_slot_locked ?t1 = Some (i, g)" by auto
  note slot = slot_locked_Some [OF s]
  have b: "tuning_request_begin t =
       ((set_request i \<lparr>request_id = fresh_request_id (next_request t), completed_m_ns = 0,
           req_result = TUNE_PENDING, req_state = REQUEST_PENDING, inherited_failure_gate = g,
           backend_complete = False, owner_ready = False\<rparr> ?t1)
         \<lparr>unresolved_count := unresolved_count t + (if g then 0 else 1)\<rparr>, fresh_request_id (next_request t))"
    using s by (simp add: tuning_request_begin_def Let_def set_request_def)
  show ?thesis using slot b by (intro that [of i g]) (auto split: if_splits)
qed

lemma fresh_id_not_used:
  assumes "ids_inv t" "next_request t \<noteq> - 1" "r \<in> set (requests t)" "req_state r \<noteq> REQUEST_FREE"
  shows "request_id r < fresh_request_id (next_request t)"
  using assms fresh_id_greater [OF assms(2)] by (auto simp: ids_inv_def)

lemma find_fresh:
  assumes "ids_inv t" "next_request t \<noteq> - 1" "i < length (requests t)"
    "request_id r = fresh_request_id (next_request t)" "req_state r \<noteq> REQUEST_FREE"
    "requests u = (requests t)[i := r]"
  shows "request_find_locked (fresh_request_id (next_request t)) u = Some i"
  unfolding request_find_locked_def
proof (rule find_index_unique)
  fix j assume j: "j < length (requests u)"
    and m: "request_matches (fresh_request_id (next_request t)) (requests u ! j)"
  show "j = i"
  proof (rule ccontr)
    assume "j \<noteq> i"
    with j m assms(6) have "requests t ! j \<in> set (requests t)" "req_state (requests t ! j) \<noteq> REQUEST_FREE"
      "request_id (requests t ! j) = fresh_request_id (next_request t)"
      by (auto simp: request_matches_def)
    with fresh_id_not_used [OF assms(1,2)] show False by (metis less_irrefl)
  qed
qed (use assms in \<open>auto simp: request_matches_def\<close>)

lemma all_retired:
  assumes "\<And>r. r \<in> set rs \<Longrightarrow> req_state r \<noteq> REQUEST_PENDING \<and> (req_state r = REQUEST_FAILED_GATED \<longrightarrow> p r)"
  shows "\<forall>r\<in>set (map (retire_record p) rs). \<not> request_unresolved r"
  using assms by (force simp: retire_record_def request_unresolved_def)



end
