(* ===== verification/Bounded_Table.thy ===== *)
theory Bounded_Table
  imports Prelude
begin

text \<open>
  The interfaces of the fixed-capacity stores of the program: a keyed table in which an insertion
  into a full table evicts one entry (the lockout ledger, the patch table), its first-in first-out
  refinement (the control-channel candidate list) and a bounded queue that drops its oldest element
  (the audio ring). The component theories interpret them on the code's own operations.
\<close>

section \<open>Keyed tables that evict\<close>

locale bounded_table =
  fixes inv :: "'s \<Rightarrow> bool"
    and mem :: "'s \<Rightarrow> 'k \<Rightarrow> bool"
    and legal :: "'k \<Rightarrow> bool"
    and put :: "'a \<Rightarrow> 'k \<Rightarrow> 's \<Rightarrow> 's"
    and cap :: nat
  assumes inv_put: "inv s \<Longrightarrow> inv (put a k s)"
    and put_mem: "inv s \<Longrightarrow> legal k \<Longrightarrow> mem (put a k s) k"
    and put_only: "inv s \<Longrightarrow> mem (put a k s) k' \<Longrightarrow> k' = k \<or> mem s k'"
    and put_refresh: "inv s \<Longrightarrow> mem s k \<Longrightarrow> mem s k' \<Longrightarrow> mem (put a k s) k'"
    and put_room: "inv s \<Longrightarrow> card {j. mem s j} < cap \<Longrightarrow> mem s k' \<Longrightarrow> mem (put a k s) k'"
    and put_evicts_one: "inv s \<Longrightarrow> mem s k1 \<Longrightarrow> mem s k2 \<Longrightarrow>
        \<not> mem (put a k s) k1 \<Longrightarrow> \<not> mem (put a k s) k2 \<Longrightarrow> k1 = k2"
    and bounded: "inv s \<Longrightarrow> finite {j. mem s j} \<and> card {j. mem s j} \<le> cap"
begin

definition put_all :: "('a \<times> 'k) list \<Rightarrow> 's \<Rightarrow> 's" where
  "put_all aks s = fold (\<lambda>(a, k). put a k) aks s"

lemma put_all_simps:
  "put_all [] s = s"
  "put_all ((a, k) # aks) s = put_all aks (put a k s)"
  by (simp_all add: put_all_def)

lemma inv_put_all: "inv s \<Longrightarrow> inv (put_all aks s)"
  by (induction aks arbitrary: s) (auto simp: put_all_simps inv_put)

lemma put_all_only: "inv s \<Longrightarrow> mem (put_all aks s) k \<Longrightarrow> k \<in> snd ` set aks \<or> mem s k"
proof (induction aks arbitrary: s)
  case (Cons ak aks)
  obtain a j where ak: "ak = (a, j)" by (cases ak)
  from Cons.prems have "mem (put_all aks (put a j s)) k" by (simp add: ak put_all_simps)
  from Cons.IH [OF inv_put [OF Cons.prems(1)] this] have "k \<in> snd ` set aks \<or> mem (put a j s) k" .
  with put_only [OF Cons.prems(1)] show ?case by (auto simp: ak)
qed (simp add: put_all_simps)

lemma put_keys_grow:
  assumes "inv s" "legal k" "card (insert k {j. mem s j}) \<le> cap"
  shows "{j. mem (put a k s) j} = insert k {j. mem s j}"
proof -
  have fin: "finite {j. mem s j}" using bounded [OF assms(1)] by simp
  have keep: "mem (put a k s) j" if "mem s j" for j
  proof (cases "mem s k")
    case True
    then show ?thesis by (rule put_refresh [OF assms(1) _ that])
  next
    case False
    with fin have "card (insert k {j. mem s j}) = Suc (card {j. mem s j})" by simp
    with assms(3) have "card {j. mem s j} < cap" by simp
    then show ?thesis by (rule put_room [OF assms(1) _ that])
  qed
  show ?thesis
  proof (intro equalityI subsetI)
    fix j assume "j \<in> {j. mem (put a k s) j}"
    then show "j \<in> insert k {j. mem s j}" using put_only [OF assms(1), of a k j] by auto
  qed (use keep put_mem [OF assms(1,2)] in auto)
qed

text \<open>Nothing is forgotten until the number of distinct keys passes the capacity.\<close>

lemma put_all_keeps:
  "inv s \<Longrightarrow> \<forall>k\<in>snd ` set aks. legal k \<Longrightarrow> card (snd ` set aks \<union> {j. mem s j}) \<le> cap \<Longrightarrow>
     {j. mem (put_all aks s) j} = snd ` set aks \<union> {j. mem s j}"
proof (induction aks arbitrary: s)
  case (Cons ak aks)
  obtain a k where ak: "ak = (a, k)" by (cases ak)
  have fin: "finite (snd ` set (ak # aks) \<union> {j. mem s j})"
    using bounded [OF Cons.prems(1)] by simp
  have "card (insert k {j. mem s j}) \<le> cap"
  proof (rule order_trans [OF card_mono [OF fin] Cons.prems(3)])
    show "insert k {j. mem s j} \<subseteq> snd ` set (ak # aks) \<union> {j. mem s j}" by (auto simp: ak)
  qed
  with Cons.prems have grow: "{j. mem (put a k s) j} = insert k {j. mem s j}"
    by (intro put_keys_grow) (auto simp: ak)
  have "{j. mem (put_all aks (put a k s)) j} = snd ` set aks \<union> {j. mem (put a k s) j}"
    using Cons.prems by (intro Cons.IH inv_put) (auto simp: ak grow)
  then show ?case by (auto simp: ak put_all_simps grow)
qed (simp add: put_all_simps)

text \<open>An insertion never changes the number of keys by more than one.\<close>

lemma put_card: "inv s \<Longrightarrow> card {j. mem (put a k s) j} \<le> Suc (card {j. mem s j})"
proof -
  assume i: "inv s"
  have "{j. mem (put a k s) j} \<subseteq> insert k {j. mem s j}" using put_only [OF i] by auto
  then have "card {j. mem (put a k s) j} \<le> card (insert k {j. mem s j})"
    using bounded [OF i] by (intro card_mono) auto
  also have "\<dots> \<le> Suc (card {j. mem s j})" by (rule card_insert_le_m1) simp_all
  finally show ?thesis .
qed

end

section \<open>First-in first-out tables\<close>

locale fifo_table =
  fixes inv :: "'s \<Rightarrow> bool"
    and order :: "'s \<Rightarrow> 'k list"
    and legal :: "'k \<Rightarrow> bool"
    and put :: "'a \<Rightarrow> 'k \<Rightarrow> 's \<Rightarrow> 's"
    and cap :: nat
  assumes fifo_inv: "inv s \<Longrightarrow> inv (put a k s)"
    and fifo_distinct: "inv s \<Longrightarrow> distinct (order s) \<and> length (order s) \<le> cap"
    and fifo_cap: "0 < cap"
    and fifo_illegal: "inv s \<Longrightarrow> \<not> legal k \<Longrightarrow> order (put a k s) = order s"
    and fifo_put: "inv s \<Longrightarrow> legal k \<Longrightarrow> order (put a k s) =
        (if k \<in> set (order s) then order s
         else if length (order s) < cap then order s @ [k] else tl (order s) @ [k])"
begin

lemma put_only_new: "inv s \<Longrightarrow> x \<in> set (order (put a k s)) \<Longrightarrow> x = k \<or> x \<in> set (order s)"
  by (cases "legal k") (auto simp: fifo_put fifo_illegal dest: set_tl split: if_splits)

lemma put_same: "inv s \<Longrightarrow> k \<in> set (order s) \<Longrightarrow> x \<in> set (order s) \<Longrightarrow> x \<in> set (order (put a k s))"
  by (cases "legal k") (auto simp: fifo_put fifo_illegal)

lemma put_with_room:
  "inv s \<Longrightarrow> length (order s) < cap \<Longrightarrow> x \<in> set (order s) \<Longrightarrow> x \<in> set (order (put a k s))"
  by (cases "legal k") (auto simp: fifo_put fifo_illegal)

lemma put_drops_head:
  "inv s \<Longrightarrow> x \<in> set (order s) \<Longrightarrow> x \<notin> set (order (put a k s)) \<Longrightarrow> x = hd (order s)"
  by (cases "legal k") (auto simp: fifo_put fifo_illegal dest: tl_keeps split: if_splits)

end

sublocale fifo_table \<subseteq> bounded_table inv "\<lambda>s k. k \<in> set (order s)" legal put cap
proof unfold_locales
  fix s a k k1 k2
  assume "inv s" "k1 \<in> set (order s)" "k2 \<in> set (order s)"
    "k1 \<notin> set (order (put a k s))" "k2 \<notin> set (order (put a k s))"
  then show "k1 = k2" using put_drops_head by metis
next
  fix s assume "inv s"
  then show "finite {j. j \<in> set (order s)} \<and> card {j. j \<in> set (order s)} \<le> cap"
    using fifo_distinct [of s] by (simp add: distinct_card)
next
  fix s a k k' assume "inv s" "card {j. j \<in> set (order s)} < cap" "k' \<in> set (order s)"
  then show "k' \<in> set (order (put a k s))"
    using fifo_distinct [of s] by (intro put_with_room) (simp_all add: distinct_card)
qed (auto simp: fifo_inv fifo_put put_same dest: put_only_new)

section \<open>Bounded queues that drop their oldest element\<close>

locale bounded_fifo =
  fixes inv :: "'s \<Rightarrow> bool"
    and contents :: "'s \<Rightarrow> 'x list"
    and push :: "'x \<Rightarrow> 's \<Rightarrow> 's"
    and pop :: "'s \<Rightarrow> 's \<times> 'x option"
    and cap :: nat
  assumes queue_cap: "0 < cap"
    and queue_inv_push: "inv s \<Longrightarrow> inv (push x s)"
    and queue_inv_pop: "inv s \<Longrightarrow> inv (fst (pop s))"
    and queue_bounded: "inv s \<Longrightarrow> length (contents s) \<le> cap"
    and queue_push: "inv s \<Longrightarrow> contents (push x s) =
        (if length (contents s) < cap then contents s else tl (contents s)) @ [x]"
    and queue_pop: "inv s \<Longrightarrow> contents (fst (pop s)) = tl (contents s) \<and>
        snd (pop s) = (if contents s = [] then None else Some (hd (contents s)))"
begin

definition push_all :: "'x list \<Rightarrow> 's \<Rightarrow> 's" where
  "push_all xs s = fold push xs s"

fun pop_n :: "nat \<Rightarrow> 's \<Rightarrow> 's \<times> 'x list" where
  "pop_n 0 s = (s, [])"
| "pop_n (Suc n) s =
     (case pop s of
        (s', None) \<Rightarrow> (s', [])
      | (s', Some x) \<Rightarrow> (let (s'', xs) = pop_n n s' in (s'', x # xs)))"

lemma inv_push_all: "inv s \<Longrightarrow> inv (push_all xs s)"
  by (induction xs arbitrary: s) (auto simp: push_all_def queue_inv_push)

text \<open>The queue holds the last \<open>cap\<close> elements ever pushed since it was last empty.\<close>

lemma contents_push_all:
  "inv s \<Longrightarrow> contents (push_all xs s) = drop (length (contents s) + length xs - cap) (contents s @ xs)"
proof (induction xs arbitrary: s)
  case Nil
  then show ?case using queue_bounded by (simp add: push_all_def)
next
  case (Cons x xs)
  have "contents (push_all (x # xs) s) = contents (push_all xs (push x s))" by (simp add: push_all_def)
  also have "\<dots> = drop (length (contents (push x s)) + length xs - cap) (contents (push x s) @ xs)"
    by (rule Cons.IH [OF queue_inv_push [OF Cons.prems]])
  also have "\<dots> = drop (length (contents s) + length (x # xs) - cap) (contents s @ x # xs)"
  proof (cases "length (contents s) < cap")
    case True
    then show ?thesis by (simp add: queue_push [OF Cons.prems])
  next
    case False
    then have "length (contents s) = cap" using queue_bounded [OF Cons.prems] by simp
    with queue_cap show ?thesis
      by (cases "contents s") (auto simp: queue_push [OF Cons.prems])
  qed
  finally show ?case .
qed

lemma pop_n_contents: "inv s \<Longrightarrow> snd (pop_n n s) = take n (contents s)"
proof (induction n arbitrary: s)
  case (Suc n)
  show ?case
  proof (cases "contents s")
    case Nil
    then have "snd (pop s) = None" using queue_pop [OF Suc.prems] by simp
    then show ?thesis using Nil by (cases "pop s") auto
  next
    case (Cons y ys)
    then obtain s' where p: "pop s = (s', Some y)" "contents s' = ys" "inv s'"
      using queue_pop [OF Suc.prems] queue_inv_pop [OF Suc.prems] by (cases "pop s") auto
    then show ?thesis using Suc.IH [OF p(3)] Cons by (cases "pop_n n s'") simp
  qed
qed simp

lemma drain_after_push:
  "inv s \<Longrightarrow> contents s = [] \<Longrightarrow> snd (pop_n cap (push_all xs s)) = drop (length xs - cap) xs"
  using pop_n_contents [OF inv_push_all, of s cap xs] contents_push_all [of s xs] by simp

end

end
