(* ===== verification/Audio_Ring.thy ===== *)
theory Audio_Ring
  imports Bounded_Table
begin

text \<open>
  The two-slot audio jitter ring of \<open>src/runtime/p25_p2_audio_ring.c\<close>: per slot a head, a tail, a
  count and \<open>DSD_P25_P2_AUDIO_RING_DEPTH\<close> frames of 160 samples. The C state keeps an array per
  field indexed by slot; here a slot is a record and the state a list of two of them. The samples
  are of any type with a zero, as the ring only copies them. Head, tail and count are C ints that
  start at zero; they are decremented only when positive and reduced modulo the depth, so they are
  naturals.
\<close>

section \<open>Model\<close>

definition P2_AUDIO_RING_DEPTH :: nat where
  "P2_AUDIO_RING_DEPTH = 4"

record 'f ring_slot =
  ring_head :: nat
  ring_tail :: nat
  ring_count :: nat
  ring_frames :: "'f list list"

type_synonym 'f audio_ring = "'f ring_slot list"

definition zero_frame :: "'f::zero list" where
  "zero_frame = replicate 160 0"

definition empty_slot :: "'f::zero ring_slot" where
  "empty_slot = \<lparr>ring_head = 0, ring_tail = 0, ring_count = 0,
     ring_frames = replicate P2_AUDIO_RING_DEPTH zero_frame\<rparr>"

definition p25_p2_audio_ring_reset :: "int \<Rightarrow> 'f::zero audio_ring \<Rightarrow> 'f audio_ring" where
  "p25_p2_audio_ring_reset slot st =
     (if slot < 0 \<or> slot > 1 then map (\<lambda>_. empty_slot) st else st[nat slot := empty_slot])"

definition slot_push :: "'f list \<Rightarrow> 'f ring_slot \<Rightarrow> 'f ring_slot" where
  "slot_push frame r =
     (let r1 = (if ring_count r \<ge> P2_AUDIO_RING_DEPTH
                then r\<lparr>ring_head := (ring_head r + 1) mod P2_AUDIO_RING_DEPTH,
                       ring_count := ring_count r - 1\<rparr>
                else r)
      in r1\<lparr>ring_frames := (ring_frames r1)[ring_tail r1 := frame],
            ring_tail := (ring_tail r1 + 1) mod P2_AUDIO_RING_DEPTH,
            ring_count := ring_count r1 + 1\<rparr>)"

definition slot_pop :: "'f ring_slot \<Rightarrow> 'f ring_slot \<times> 'f list option" where
  "slot_pop r =
     (if ring_count r = 0 then (r, None)
      else (r\<lparr>ring_head := (ring_head r + 1) mod P2_AUDIO_RING_DEPTH, ring_count := ring_count r - 1\<rparr>,
            Some (ring_frames r ! ring_head r)))"

definition p25_p2_audio_ring_push :: "int \<Rightarrow> 'f list \<Rightarrow> 'f audio_ring \<Rightarrow> 'f audio_ring \<times> bool" where
  "p25_p2_audio_ring_push slot frame st =
     (if slot < 0 \<or> slot > 1 then (st, False)
      else (st[nat slot := slot_push frame (st ! nat slot)], True))"

text \<open>\<open>out\<close> is the caller's buffer: it is written unless the slot number is wrong.\<close>

definition p25_p2_audio_ring_pop ::
  "int \<Rightarrow> 'f::zero list \<Rightarrow> 'f audio_ring \<Rightarrow> 'f audio_ring \<times> 'f list \<times> bool" where
  "p25_p2_audio_ring_pop slot out st =
     (if slot < 0 \<or> slot > 1 then (st, out, False)
      else case slot_pop (st ! nat slot) of
             (r, None) \<Rightarrow> (st, zero_frame, False)
           | (r, Some frame) \<Rightarrow> (st[nat slot := r], frame, True))"

section \<open>The slot is a bounded queue\<close>

definition slot_inv :: "'f ring_slot \<Rightarrow> bool" where
  "slot_inv r \<longleftrightarrow>
     length (ring_frames r) = P2_AUDIO_RING_DEPTH \<and>
     ring_head r < P2_AUDIO_RING_DEPTH \<and> ring_count r \<le> P2_AUDIO_RING_DEPTH \<and>
     ring_tail r = (ring_head r + ring_count r) mod P2_AUDIO_RING_DEPTH"

definition slot_contents :: "'f ring_slot \<Rightarrow> 'f list list" where
  "slot_contents r =
     map (\<lambda>k. ring_frames r ! ((ring_head r + k) mod P2_AUDIO_RING_DEPTH)) [0..<ring_count r]"

lemma length_slot_contents [simp]: "length (slot_contents r) = ring_count r"
  by (simp add: slot_contents_def)

lemma mod_depth_neq:
  assumes "h < (d::nat)" "k < n" "n < d"
  shows "(h + k) mod d \<noteq> (h + n) mod d"
proof
  assume "(h + k) mod d = (h + n) mod d"
  then have "d dvd (h + n) - (h + k)" using assms(2) by (subst mod_eq_dvd_iff_nat [symmetric]) simp_all
  with assms show False by (auto dest: dvd_imp_le)
qed

lemma slot_contents_tl:
  "slot_inv r \<Longrightarrow> 0 < ring_count r \<Longrightarrow>
     slot_contents (r\<lparr>ring_head := (ring_head r + 1) mod P2_AUDIO_RING_DEPTH, ring_count := ring_count r - 1\<rparr>)
       = tl (slot_contents r)"
  by (rule nth_equalityI) (auto simp: slot_contents_def nth_tl mod_simps)

lemma slot_contents_hd:
  "slot_inv r \<Longrightarrow> 0 < ring_count r \<Longrightarrow> hd (slot_contents r) = ring_frames r ! ring_head r"
  by (simp add: slot_contents_def slot_inv_def hd_map)

lemma slot_contents_append:
  assumes "slot_inv r" "ring_count r < P2_AUDIO_RING_DEPTH"
  shows "slot_contents (r\<lparr>ring_frames := (ring_frames r)[ring_tail r := x],
           ring_tail := t, ring_count := ring_count r + 1\<rparr>) = slot_contents r @ [x]"
proof -
  have "(ring_head r + k) mod P2_AUDIO_RING_DEPTH \<noteq> ring_tail r" if "k < ring_count r" for k
    using assms that mod_depth_neq [of "ring_head r" P2_AUDIO_RING_DEPTH k "ring_count r"]
    by (simp add: slot_inv_def)
  moreover have "ring_tail r < length (ring_frames r)" "(ring_head r + ring_count r) mod P2_AUDIO_RING_DEPTH = ring_tail r"
    using assms(1) by (simp_all add: slot_inv_def P2_AUDIO_RING_DEPTH_def)
  ultimately show ?thesis by (auto simp: slot_contents_def intro!: nth_list_update_neq dest: sym)
qed

lemma slot_inv_drop:
  "slot_inv r \<Longrightarrow> 0 < ring_count r \<Longrightarrow>
     slot_inv (r\<lparr>ring_head := (ring_head r + 1) mod P2_AUDIO_RING_DEPTH, ring_count := ring_count r - 1\<rparr>)"
proof -
  assume inv: "slot_inv r" and pos: "0 < ring_count r"
  have "(Suc (ring_head r) mod 4 + (ring_count r - 1)) mod 4 = (Suc (ring_head r) + (ring_count r - 1)) mod 4"
    by (simp only: mod_add_left_eq)
  also have "Suc (ring_head r) + (ring_count r - 1) = ring_head r + ring_count r" using pos by simp
  finally show ?thesis using inv by (auto simp: slot_inv_def P2_AUDIO_RING_DEPTH_def)
qed

lemma slot_inv_append:
  "slot_inv r \<Longrightarrow> ring_count r < P2_AUDIO_RING_DEPTH \<Longrightarrow>
     slot_inv (r\<lparr>ring_frames := (ring_frames r)[ring_tail r := x],
       ring_tail := (ring_tail r + 1) mod P2_AUDIO_RING_DEPTH, ring_count := ring_count r + 1\<rparr>)"
  by (auto simp: slot_inv_def mod_simps add.assoc)

lemma slot_push_contents:
  assumes "slot_inv r"
  shows "slot_contents (slot_push x r) =
    (if length (slot_contents r) < P2_AUDIO_RING_DEPTH then slot_contents r else tl (slot_contents r)) @ [x]"
    and "slot_inv (slot_push x r)"
proof -
  let ?r1 = "r\<lparr>ring_head := (ring_head r + 1) mod P2_AUDIO_RING_DEPTH, ring_count := ring_count r - 1\<rparr>"
  have full: "0 < ring_count r" "ring_count ?r1 < P2_AUDIO_RING_DEPTH" if "\<not> ring_count r < P2_AUDIO_RING_DEPTH"
    using that assms by (auto simp: slot_inv_def P2_AUDIO_RING_DEPTH_def)
  show "slot_contents (slot_push x r) =
    (if length (slot_contents r) < P2_AUDIO_RING_DEPTH then slot_contents r else tl (slot_contents r)) @ [x]"
    using slot_contents_append [OF assms] full slot_contents_append [OF slot_inv_drop [OF assms]]
      slot_contents_tl [OF assms]
    by (auto simp: slot_push_def Let_def)
  show "slot_inv (slot_push x r)"
    using slot_inv_append [OF assms] full slot_inv_append [OF slot_inv_drop [OF assms]]
    by (auto simp: slot_push_def Let_def)
qed

interpretation p2_slot: bounded_fifo slot_inv slot_contents slot_push slot_pop P2_AUDIO_RING_DEPTH
proof unfold_locales
  fix s :: "'f ring_slot" and x assume inv: "slot_inv s"
  show "slot_inv (slot_push x s)" by (rule slot_push_contents(2) [OF inv])
  show "slot_contents (slot_push x s) =
    (if length (slot_contents s) < P2_AUDIO_RING_DEPTH then slot_contents s else tl (slot_contents s)) @ [x]"
    by (rule slot_push_contents(1) [OF inv])
  show "slot_inv (fst (slot_pop s))" using slot_inv_drop [OF inv] inv by (simp add: slot_pop_def)
  show "slot_contents (fst (slot_pop s)) = tl (slot_contents s) \<and>
        snd (slot_pop s) = (if slot_contents s = [] then None else Some (hd (slot_contents s)))"
    using slot_contents_tl [OF inv] slot_contents_hd [OF inv]
    by (cases "ring_count s = 0") (auto simp: slot_pop_def slot_contents_def)
  show "length (slot_contents s) \<le> P2_AUDIO_RING_DEPTH" using inv by (simp add: slot_inv_def)
qed (simp add: P2_AUDIO_RING_DEPTH_def)

section \<open>The two-slot ring\<close>

definition ring_inv :: "'f audio_ring \<Rightarrow> bool" where
  "ring_inv st \<longleftrightarrow> length st = 2 \<and> list_all slot_inv st"

definition valid_slot :: "int \<Rightarrow> bool" where
  "valid_slot slot \<longleftrightarrow> slot = 0 \<or> slot = 1"

definition ring_push_frames :: "int \<Rightarrow> 'f list list \<Rightarrow> 'f audio_ring \<Rightarrow> 'f audio_ring" where
  "ring_push_frames slot frames st = fold (\<lambda>f s. fst (p25_p2_audio_ring_push slot f s)) frames st"

fun ring_drain :: "nat \<Rightarrow> int \<Rightarrow> 'f::zero audio_ring \<Rightarrow> 'f audio_ring \<times> 'f list list" where
  "ring_drain 0 slot st = (st, [])"
| "ring_drain (Suc n) slot st =
     (case p25_p2_audio_ring_pop slot [] st of
        (st', frame, got) \<Rightarrow>
          if got then (let (st'', fs) = ring_drain n slot st' in (st'', frame # fs)) else (st', []))"

lemma valid_slot_nat:
  assumes "valid_slot slot" "ring_inv st"
  shows "nat slot < length st" "\<not> slot < 0" "\<not> 1 < slot" "slot_inv (st ! nat slot)"
  using assms by (auto simp: valid_slot_def ring_inv_def list_all_length)

lemma ring_inv_update: "ring_inv st \<Longrightarrow> slot_inv r \<Longrightarrow> ring_inv (st[i := r])"
  by (cases "i < length st") (auto simp: ring_inv_def list_all_length nth_list_update)

lemma ring_inv_push: "ring_inv st \<Longrightarrow> ring_inv (fst (p25_p2_audio_ring_push slot f st))"
proof (cases "slot < 0 \<or> slot > 1")
  case False
  then have "valid_slot slot" by (auto simp: valid_slot_def)
  moreover assume "ring_inv st"
  ultimately show ?thesis using False
    by (auto simp: p25_p2_audio_ring_push_def
        intro!: ring_inv_update slot_push_contents(2) dest: valid_slot_nat(4))
qed (simp add: p25_p2_audio_ring_push_def)

lemma ring_push_frames_slot:
  assumes "valid_slot slot" "ring_inv st"
  shows "ring_push_frames slot fs st = st[nat slot := p2_slot.push_all fs (st ! nat slot)]"
  using assms(2)
proof (induction fs arbitrary: st)
  case Nil
  then show ?case by (simp add: ring_push_frames_def p2_slot.push_all_def)
next
  case (Cons f fs)
  note v = valid_slot_nat [OF assms(1) Cons.prems]
  have "ring_push_frames slot (f # fs) st = ring_push_frames slot fs (fst (p25_p2_audio_ring_push slot f st))"
    by (simp add: ring_push_frames_def)
  also have "fst (p25_p2_audio_ring_push slot f st) = st[nat slot := slot_push f (st ! nat slot)]"
    using v by (simp add: p25_p2_audio_ring_push_def)
  also have "ring_push_frames slot fs \<dots> = st[nat slot := p2_slot.push_all fs (slot_push f (st ! nat slot))]"
    using Cons.IH [OF ring_inv_update [OF Cons.prems slot_push_contents(2) [OF v(4)]]] v by simp
  finally show ?case by (simp add: p2_slot.push_all_def)
qed

lemma ring_drain_slot:
  assumes "valid_slot slot" "ring_inv st"
  shows "ring_drain n slot st =
    (st[nat slot := fst (p2_slot.pop_n n (st ! nat slot))], snd (p2_slot.pop_n n (st ! nat slot)))"
  using assms(2)
proof (induction n arbitrary: st)
  case (Suc n)
  note v = valid_slot_nat [OF assms(1) Suc.prems]
  obtain r q where p: "slot_pop (st ! nat slot) = (r, q)" by (cases "slot_pop (st ! nat slot)")
  have inv: "ring_inv (st[nat slot := r])"
    using p2_slot.queue_inv_pop [OF v(4)] p Suc.prems by (auto intro: ring_inv_update)
  show ?case
  proof (cases q)
    case None
    then have "r = st ! nat slot" using p by (auto simp: slot_pop_def split: if_splits)
    then show ?thesis using p None v by (simp add: p25_p2_audio_ring_pop_def)
  next
    case (Some f)
    then show ?thesis using p v Suc.IH [OF inv]
      by (simp add: p25_p2_audio_ring_pop_def split: prod.splits)
  qed
qed simp

section \<open>Properties\<close>

text \<open>The ring delivers the newest frames in order. Pushing any number of frames into an empty
  slot and draining it returns exactly the last four of them, oldest first (all of them when there
  are fewer), and the other slot is left as it was.\<close>

theorem audio_ring_delivers_newest:
  assumes "ring_inv st" "valid_slot slot" "ring_count (st ! nat slot) = 0"
  shows "snd (ring_drain P2_AUDIO_RING_DEPTH slot (ring_push_frames slot fs st)) =
           drop (length fs - P2_AUDIO_RING_DEPTH) fs \<and>
         fst (ring_drain P2_AUDIO_RING_DEPTH slot (ring_push_frames slot fs st)) ! nat (1 - slot) =
           st ! nat (1 - slot)"
proof -
  note v = valid_slot_nat [OF assms(2,1)]
  have e: "slot_contents (st ! nat slot) = []" using assms(3) by (simp add: slot_contents_def)
  have inv: "ring_inv (ring_push_frames slot fs st)"
    using ring_inv_update [OF assms(1) p2_slot.inv_push_all [OF v(4)]]
    by (simp add: ring_push_frames_slot [OF assms(2,1)])
  have "nat slot \<noteq> nat (1 - slot)" using assms(2) by (auto simp: valid_slot_def)
  then show ?thesis
    using p2_slot.drain_after_push [OF v(4) e] v
    unfolding ring_drain_slot [OF assms(2) inv] by (simp add: ring_push_frames_slot [OF assms(2,1)])
qed

theorem audio_ring_delivers_newest_witness:
  "snd (ring_drain P2_AUDIO_RING_DEPTH 1 (ring_push_frames 1 [[1], [2], [3], [4], [5::int]]
      (p25_p2_audio_ring_reset (- 1) [empty_slot, empty_slot]))) = [[2], [3], [4], [5]]"
proof -
  have "ring_inv (p25_p2_audio_ring_reset (- 1) [empty_slot, empty_slot :: int ring_slot])"
    "valid_slot 1" "ring_count (p25_p2_audio_ring_reset (- 1) [empty_slot, empty_slot :: int ring_slot] ! nat 1) = 0"
    by (simp_all add: ring_inv_def slot_inv_def empty_slot_def p25_p2_audio_ring_reset_def valid_slot_def
        P2_AUDIO_RING_DEPTH_def)
  from audio_ring_delivers_newest [OF this, of "[[1], [2], [3], [4], [5]]"]
  show ?thesis by (simp add: P2_AUDIO_RING_DEPTH_def)
qed

end
