(* ===== verification/Cc_Candidates.thy ===== *)
theory Cc_Candidates
  imports Bounded_Table
begin

text \<open>
  The control-channel candidate list of \<open>src/runtime/trunk_cc_candidates.c\<close>: up to 16 frequencies
  with flags and a cooldown time each, a round-robin cursor and two counters. The list hangs off the
  decoder state as an extension that the first insertion allocates; the extension slot is an
  \<open>option\<close>, and whether an allocation succeeds is an argument. Frequencies are C longs in hertz, kept
  as \<open>int\<close>. A count outside \<open>0..16\<close> is the corruption the code recovers from by clearing the list.
\<close>

section \<open>Model\<close>

definition CC_CANDIDATES_MAX :: nat where
  "CC_CANDIDATES_MAX = 16"

record cc_candidates =
  cc_freqs :: "int list"
  cc_flags :: "u8 list"
  cc_count :: int
  cc_idx :: int
  cc_cool_until :: "mono_s list"
  cc_added :: u32
  cc_used :: u32

definition cc_calloc :: cc_candidates where
  "cc_calloc = \<lparr>cc_freqs = replicate CC_CANDIDATES_MAX 0, cc_flags = replicate CC_CANDIDATES_MAX 0,
     cc_count = 0, cc_idx = 0, cc_cool_until = replicate CC_CANDIDATES_MAX 0, cc_added = 0, cc_used = 0\<rparr>"

definition cc_candidates_clear :: "cc_candidates \<Rightarrow> cc_candidates" where
  "cc_candidates_clear cc =
     cc\<lparr>cc_count := 0, cc_idx := 0, cc_freqs := replicate CC_CANDIDATES_MAX 0,
        cc_flags := replicate CC_CANDIDATES_MAX 0, cc_cool_until := replicate CC_CANDIDATES_MAX 0\<rparr>"

definition cc_has_valid_count :: "cc_candidates \<Rightarrow> cc_candidates \<times> bool" where
  "cc_has_valid_count cc =
     (if cc_count cc \<ge> 0 \<and> cc_count cc \<le> int CC_CANDIDATES_MAX then (cc, True)
      else (cc_candidates_clear cc, False))"

text \<open>The loop \<open>for (k = 1; k < n; k++) a[k - 1] = a[k];\<close> leaves the last element in place.\<close>

definition shift_down :: "'a list \<Rightarrow> 'a list" where
  "shift_down xs = tl xs @ [last xs]"

definition cc_drop_oldest :: "cc_candidates \<Rightarrow> cc_candidates" where
  "cc_drop_oldest cc =
     cc\<lparr>cc_freqs := shift_down (cc_freqs cc), cc_flags := shift_down (cc_flags cc),
        cc_cool_until := shift_down (cc_cool_until cc),
        cc_idx := (if cc_idx cc > 0 then cc_idx cc - 1 else cc_idx cc)\<rparr>"

definition cc_candidate_is_allowed ::
  "cc_candidates \<Rightarrow> nat \<Rightarrow> int \<Rightarrow> mono_s \<Rightarrow> u8 \<Rightarrow> int option" where
  "cc_candidate_is_allowed cc idx skip_cc_freq now required_flags =
     (let flags = cc_flags cc ! idx; freq_hz = cc_freqs cc ! idx in
      if required_flags \<noteq> 0 \<and> flags AND required_flags \<noteq> required_flags then None
      else if freq_hz = 0 \<or> freq_hz = skip_cc_freq then None
      else if cc_cool_until cc ! idx > 0 \<and> now < cc_cool_until cc ! idx then None
      else Some freq_hz)"

definition cc_candidates_get :: "bool \<Rightarrow> cc_candidates option \<Rightarrow> cc_candidates option" where
  "cc_candidates_get alloc_ok ext =
     (case ext of Some cc \<Rightarrow> Some cc | None \<Rightarrow> if alloc_ok then Some cc_calloc else None)"

definition cc_insert :: "bool \<times> u8 \<Rightarrow> int \<Rightarrow> cc_candidates \<Rightarrow> cc_candidates \<times> bool" where
  "cc_insert a freq_hz cc0 =
     (let (bump_added, flags) = a; (cc, valid) = cc_has_valid_count cc0 in
      if \<not> valid then (cc, False)
      else case find_index (\<lambda>f. f = freq_hz) (take (nat (cc_count cc)) (cc_freqs cc)) of
        Some k \<Rightarrow> (cc\<lparr>cc_flags := (cc_flags cc)[k := cc_flags cc ! k OR flags]\<rparr>, False)
      | None \<Rightarrow>
          let put = (\<lambda>k c. c\<lparr>cc_freqs := (cc_freqs c)[k := freq_hz], cc_flags := (cc_flags c)[k := flags],
                             cc_cool_until := (cc_cool_until c)[k := 0]\<rparr>);
              cc1 = (if cc_count cc < int CC_CANDIDATES_MAX
                     then (put (nat (cc_count cc)) cc)\<lparr>cc_count := cc_count cc + 1\<rparr>
                     else put (CC_CANDIDATES_MAX - 1) (cc_drop_oldest cc))
          in (if bump_added then cc1\<lparr>cc_added := cc_added cc1 + 1\<rparr> else cc1, True))"

definition cc_candidates_add ::
  "bool \<Rightarrow> int \<Rightarrow> bool \<Rightarrow> u8 \<Rightarrow> cc_candidates option \<Rightarrow> cc_candidates option \<times> bool" where
  "cc_candidates_add alloc_ok freq_hz bump_added flags ext =
     (if freq_hz = 0 then (ext, False)
      else case cc_candidates_get alloc_ok ext of
        None \<Rightarrow> (ext, False)
      | Some cc \<Rightarrow> let (cc', added) = cc_insert (bump_added, flags) freq_hz cc in (Some cc', added))"

fun cc_next_loop ::
  "nat \<Rightarrow> int \<Rightarrow> mono_s \<Rightarrow> u8 \<Rightarrow> cc_candidates \<Rightarrow> cc_candidates \<times> int option" where
  "cc_next_loop 0 skip_cc_freq now required_flags cc = (cc, None)"
| "cc_next_loop (Suc tries) skip_cc_freq now required_flags cc =
     (let cc1 = (if cc_idx cc \<ge> cc_count cc then cc\<lparr>cc_idx := 0\<rparr> else cc);
          idx = nat (cc_idx cc1);
          cc2 = cc1\<lparr>cc_idx := cc_idx cc1 + 1\<rparr>
      in case cc_candidate_is_allowed cc2 idx skip_cc_freq now required_flags of
           Some f \<Rightarrow> (cc2\<lparr>cc_used := cc_used cc2 + 1\<rparr>, Some f)
         | None \<Rightarrow> cc_next_loop tries skip_cc_freq now required_flags cc2)"

definition cc_candidates_next ::
  "int \<Rightarrow> int \<Rightarrow> mono_s \<Rightarrow> u8 \<Rightarrow> cc_candidates option \<Rightarrow> cc_candidates option \<times> int option" where
  "cc_candidates_next trunk_cc_freq p25_cc_freq now required_flags ext =
     (case ext of
        None \<Rightarrow> (None, None)
      | Some cc0 \<Rightarrow>
          let (cc, valid) = cc_has_valid_count cc0;
              skip_cc_freq = (if trunk_cc_freq \<noteq> 0 then trunk_cc_freq else p25_cc_freq)
          in if \<not> valid then (Some cc, None)
             else let (cc', f) = cc_next_loop (nat (cc_count cc)) skip_cc_freq now required_flags cc
                  in (Some cc', f))"

definition cc_candidates_set_cooldown ::
  "int \<Rightarrow> mono_s \<Rightarrow> cc_candidates option \<Rightarrow> cc_candidates option" where
  "cc_candidates_set_cooldown freq_hz until ext =
     (if freq_hz = 0 then ext
      else case ext of
        None \<Rightarrow> None
      | Some cc \<Rightarrow>
          (case find_index (\<lambda>f. f = freq_hz) (take (nat (cc_count cc)) (cc_freqs cc)) of
             None \<Rightarrow> Some cc
           | Some i \<Rightarrow> Some (cc\<lparr>cc_cool_until := (cc_cool_until cc)[i := until]\<rparr>)))"

definition cc_candidates_reset :: "cc_candidates option \<Rightarrow> cc_candidates option" where
  "cc_candidates_reset ext =
     map_option (\<lambda>cc. (cc_candidates_clear cc)\<lparr>cc_added := 0, cc_used := 0\<rparr>) ext"

section \<open>The candidate list as a first-in first-out table\<close>

definition cc_order :: "cc_candidates \<Rightarrow> int list" where
  "cc_order cc = take (nat (cc_count cc)) (cc_freqs cc)"

definition cc_inv :: "cc_candidates \<Rightarrow> bool" where
  "cc_inv cc \<longleftrightarrow>
     length (cc_freqs cc) = CC_CANDIDATES_MAX \<and> length (cc_flags cc) = CC_CANDIDATES_MAX \<and>
     length (cc_cool_until cc) = CC_CANDIDATES_MAX \<and>
     0 \<le> cc_count cc \<and> cc_count cc \<le> int CC_CANDIDATES_MAX \<and>
     0 \<le> cc_idx cc \<and> cc_idx cc \<le> cc_count cc \<and> distinct (cc_order cc)"

lemma length_shift_down [array_simps]: "xs \<noteq> [] \<Longrightarrow> length (shift_down xs) = length xs"
  by (simp add: shift_down_def)

lemma shift_down_update: "xs \<noteq> [] \<Longrightarrow> (shift_down xs)[length xs - 1 := y] = tl xs @ [y]"
  by (simp add: shift_down_def list_update_append)

lemma cc_inv_calloc: "cc_inv cc_calloc"
  by (simp add: cc_inv_def cc_calloc_def cc_order_def CC_CANDIDATES_MAX_def)

lemma length_cc_order: "cc_inv cc \<Longrightarrow> length (cc_order cc) = nat (cc_count cc)"
  by (auto simp: cc_order_def cc_inv_def)

definition cc_put :: "bool \<times> u8 \<Rightarrow> int \<Rightarrow> cc_candidates \<Rightarrow> cc_candidates" where
  "cc_put a f cc = (if f = 0 then cc else fst (cc_insert a f cc))"

lemma cc_insert_known:
  assumes "cc_inv cc" "f \<in> set (cc_order cc)"
  shows "\<exists>k. cc_insert a f cc = (cc\<lparr>cc_flags := (cc_flags cc)[k := cc_flags cc ! k OR snd a]\<rparr>, False)
            \<and> k < nat (cc_count cc) \<and> cc_freqs cc ! k = f"
proof -
  from assms(2) obtain k where k: "find_index (\<lambda>x. x = f) (cc_order cc) = Some k"
    by (cases "find_index (\<lambda>x. x = f) (cc_order cc)") (auto simp: find_index_None_iff)
  then have "k < nat (cc_count cc)" "cc_freqs cc ! k = f"
    using length_cc_order [OF assms(1)] by (auto dest!: find_index_SomeD simp: cc_order_def)
  then show ?thesis using k assms(1)
    by (auto simp: cc_insert_def cc_has_valid_count_def cc_inv_def cc_order_def split: prod.split)
qed

lemma cc_insert_new:
  assumes "cc_inv cc" "f \<notin> set (cc_order cc)" "cc_count cc < int CC_CANDIDATES_MAX"
  shows "snd (cc_insert a f cc)"
    and "cc_order (fst (cc_insert a f cc)) = cc_order cc @ [f]"
    and "cc_inv (fst (cc_insert a f cc))"
proof -
  have none: "find_index (\<lambda>x. x = f) (take (nat (cc_count cc)) (cc_freqs cc)) = None"
    using assms(2) by (auto simp: find_index_None_iff cc_order_def)
  have n: "nat (cc_count cc) < length (cc_freqs cc)" "nat (cc_count cc + 1) = Suc (nat (cc_count cc))"
    using assms by (auto simp: cc_inv_def)
  show "snd (cc_insert a f cc)"
    using none assms(1) by (auto simp: cc_insert_def cc_has_valid_count_def cc_inv_def Let_def split: prod.split)
  show ord: "cc_order (fst (cc_insert a f cc)) = cc_order cc @ [f]"
    using none assms n
    by (auto simp: cc_insert_def cc_has_valid_count_def cc_inv_def cc_order_def Let_def
        take_Suc_conv_app_nth split: prod.split)
  have "distinct (cc_order cc @ [f])" using assms(1,2) by (simp add: cc_inv_def)
  then show "cc_inv (fst (cc_insert a f cc))"
    unfolding cc_inv_def ord using none assms(1,3)
    by (auto simp: cc_insert_def cc_has_valid_count_def cc_inv_def Let_def split: prod.split)
qed

lemma cc_insert_full:
  assumes "cc_inv cc" "f \<notin> set (cc_order cc)" "cc_count cc = int CC_CANDIDATES_MAX"
  shows "snd (cc_insert a f cc)"
    and "cc_order (fst (cc_insert a f cc)) = tl (cc_order cc) @ [f]"
    and "cc_inv (fst (cc_insert a f cc))"
    and "cc_idx (fst (cc_insert a f cc)) = (if cc_idx cc > 0 then cc_idx cc - 1 else 0)"
proof -
  have none: "find_index (\<lambda>x. x = f) (take (nat (cc_count cc)) (cc_freqs cc)) = None"
    using assms(2) by (auto simp: find_index_None_iff cc_order_def)
  have ne: "cc_freqs cc \<noteq> []" "cc_flags cc \<noteq> []" "cc_cool_until cc \<noteq> []"
    using assms(1) by (auto simp: cc_inv_def CC_CANDIDATES_MAX_def)
  show "snd (cc_insert a f cc)"
    using none assms(1) by (auto simp: cc_insert_def cc_has_valid_count_def cc_inv_def Let_def split: prod.split)
  have fr: "cc_freqs (fst (cc_insert a f cc)) = tl (cc_freqs cc) @ [f]"
    using none assms ne shift_down_update [OF ne(1), of f]
    by (auto simp: cc_insert_def cc_has_valid_count_def cc_inv_def Let_def cc_drop_oldest_def split: prod.split)
  have ct: "cc_count (fst (cc_insert a f cc)) = cc_count cc"
    "cc_idx (fst (cc_insert a f cc)) = (if cc_idx cc > 0 then cc_idx cc - 1 else cc_idx cc)"
    "length (cc_flags (fst (cc_insert a f cc))) = length (cc_flags cc)"
    "length (cc_cool_until (fst (cc_insert a f cc))) = length (cc_cool_until cc)"
    using none assms ne
    by (auto simp: cc_insert_def cc_has_valid_count_def cc_inv_def Let_def cc_drop_oldest_def
        array_simps split: prod.split)
  show ord: "cc_order (fst (cc_insert a f cc)) = tl (cc_order cc) @ [f]"
    using fr ct(1) assms(1,3) by (simp add: cc_order_def cc_inv_def CC_CANDIDATES_MAX_def)
  have "distinct (tl (cc_order cc) @ [f])"
    using assms(1,2) by (auto simp: cc_inv_def distinct_tl dest: set_tl)
  then show "cc_inv (fst (cc_insert a f cc))"
    unfolding cc_inv_def ord using fr ct assms(1) ne by (auto simp: cc_inv_def CC_CANDIDATES_MAX_def)
  show "cc_idx (fst (cc_insert a f cc)) = (if cc_idx cc > 0 then cc_idx cc - 1 else 0)"
    using ct(2) assms(1) by (auto simp: cc_inv_def)
qed

lemma cc_inv_insert: "cc_inv cc \<Longrightarrow> cc_inv (fst (cc_insert a f cc))"
proof (cases "f \<in> set (cc_order cc)")
  case True
  moreover assume "cc_inv cc"
  ultimately show ?thesis using cc_insert_known [of cc f a] by (auto simp: cc_inv_def cc_order_def)
next
  case False
  assume inv: "cc_inv cc"
  then consider "cc_count cc < int CC_CANDIDATES_MAX" | "cc_count cc = int CC_CANDIDATES_MAX"
    by (force simp: cc_inv_def)
  then show ?thesis using cc_insert_new(3) [OF inv False] cc_insert_full(3) [OF inv False] by cases auto
qed

interpretation cc_table: fifo_table cc_inv cc_order "\<lambda>f. f \<noteq> 0" cc_put CC_CANDIDATES_MAX
proof unfold_locales
  fix cc a and f :: int assume inv: "cc_inv cc"
  show "cc_inv (cc_put a f cc)" using cc_inv_insert [OF inv] inv by (simp add: cc_put_def)
  show "distinct (cc_order cc) \<and> length (cc_order cc) \<le> CC_CANDIDATES_MAX"
    using inv length_cc_order [OF inv] by (auto simp: cc_inv_def)
  show "\<not> f \<noteq> 0 \<Longrightarrow> cc_order (cc_put a f cc) = cc_order cc" by (simp add: cc_put_def)
  assume f: "f \<noteq> 0"
  show "cc_order (cc_put a f cc) =
      (if f \<in> set (cc_order cc) then cc_order cc
       else if length (cc_order cc) < CC_CANDIDATES_MAX then cc_order cc @ [f] else tl (cc_order cc) @ [f])"
  proof (cases "f \<in> set (cc_order cc)")
    case True
    then show ?thesis using cc_insert_known [OF inv True, of a] f by (auto simp: cc_put_def cc_order_def)
  next
    case False
    have "cc_count cc < int CC_CANDIDATES_MAX \<longleftrightarrow> length (cc_order cc) < CC_CANDIDATES_MAX"
      using length_cc_order [OF inv] inv by (auto simp: cc_inv_def)
    moreover have "cc_count cc = int CC_CANDIDATES_MAX" if "\<not> cc_count cc < int CC_CANDIDATES_MAX"
      using that inv by (simp add: cc_inv_def)
    ultimately show ?thesis
      using cc_insert_new(2) [OF inv False] cc_insert_full(2) [OF inv False] f False
      by (auto simp: cc_put_def)
  qed
qed (simp add: CC_CANDIDATES_MAX_def)

section \<open>The round robin\<close>

text \<open>The positions that a call may return, in the order in which the cursor visits them.\<close>

definition cc_eligible :: "int \<Rightarrow> mono_s \<Rightarrow> u8 \<Rightarrow> cc_candidates \<Rightarrow> nat \<Rightarrow> bool" where
  "cc_eligible skip now req cc i \<longleftrightarrow> cc_candidate_is_allowed cc i skip now req \<noteq> None"

definition cc_visit :: "cc_candidates \<Rightarrow> nat list" where
  "cc_visit cc = rotate (nat (cc_idx cc)) [0..<nat (cc_count cc)]"

lemma allowed_idx [simp]:
  "cc_candidate_is_allowed (cc\<lparr>cc_idx := i\<rparr>) = cc_candidate_is_allowed cc"
  "cc_candidate_is_allowed (cc\<lparr>cc_used := u\<rparr>) = cc_candidate_is_allowed cc"
  by (simp_all add: cc_candidate_is_allowed_def fun_eq_iff cong: if_cong)

lemma allowed_Some: "cc_candidate_is_allowed cc i skip now req = Some f \<Longrightarrow> f = cc_freqs cc ! i"
  by (auto simp: cc_candidate_is_allowed_def Let_def split: if_splits)

lemma cc_inv_used [simp]: "cc_inv (cc\<lparr>cc_used := u\<rparr>) = cc_inv cc"
  by (simp add: cc_inv_def cc_order_def)

lemma rotate_upt_nth: "k < n \<Longrightarrow> rotate i [0..<n] ! k = (i + k) mod n"
  by (simp add: nth_rotate)

text \<open>One lap of the loop, from any cursor: it stops at the first eligible position it visits.\<close>

lemma cc_next_loop_find:
  assumes "0 \<le> cc_idx cc" "cc_idx cc \<le> cc_count cc" "0 < cc_count cc"
  shows "cc_next_loop n skip now req cc =
    (case find_index (\<lambda>k. cc_eligible skip now req cc ((nat (cc_idx cc) + k) mod nat (cc_count cc))) [0..<n] of
       None \<Rightarrow> (cc\<lparr>cc_idx := if n = 0 then cc_idx cc
                   else int ((nat (cc_idx cc) + n - 1) mod nat (cc_count cc)) + 1\<rparr>, None)
     | Some k \<Rightarrow> (let p = (nat (cc_idx cc) + k) mod nat (cc_count cc) in
         (cc\<lparr>cc_idx := int p + 1, cc_used := cc_used cc + 1\<rparr>, Some (cc_freqs cc ! p))))"
  using assms
proof (induction n arbitrary: cc)
  case 0
  show ?case by simp
next
  case (Suc n)
  let ?c = "nat (cc_count cc)"
  let ?i = "nat (cc_idx cc) mod ?c"
  define cc2 where "cc2 = cc\<lparr>cc_idx := int ?i + 1\<rparr>"
  let ?P = "\<lambda>k. cc_eligible skip now req cc ((nat (cc_idx cc) + k) mod ?c)"
  have c: "0 < ?c" using Suc.prems by simp
  have idx: "(if cc_idx cc \<ge> cc_count cc then cc\<lparr>cc_idx := 0\<rparr> else cc) = cc\<lparr>cc_idx := int ?i\<rparr>"
  proof (cases "cc_idx cc \<ge> cc_count cc")
    case True
    then have "cc_idx cc = cc_count cc" using Suc.prems by simp
    then show ?thesis by simp
  next
    case False
    then have "nat (cc_idx cc) < ?c" using Suc.prems by linarith
    then show ?thesis using False Suc.prems by simp
  qed
  have shift: "(Suc ?i + k) mod ?c = (nat (cc_idx cc) + Suc k) mod ?c" for k
    by (metis add_Suc_shift mod_add_left_eq)
  have upt: "find_index ?P [0..<Suc n] =
      (if ?P 0 then Some 0 else map_option Suc (find_index (\<lambda>k. ?P (Suc k)) [0..<n]))"
    by (simp only: upt_conv_Cons [OF zero_less_Suc] map_Suc_upt [symmetric] find_index.simps find_index_map)
  show ?case
  proof (cases "cc_candidate_is_allowed cc ?i skip now req")
    case (Some f)
    then have "?P 0" by (simp add: cc_eligible_def)
    moreover have "f = cc_freqs cc ! ?i" using Some by (rule allowed_Some)
    ultimately show ?thesis using Some by (simp add: upt idx Let_def del: upt_Suc)
  next
    case None
    then have np: "\<not> ?P 0" by (simp add: cc_eligible_def)
    have il: "int ?i + 1 \<le> cc_count cc" using mod_less_divisor [OF c, of "nat (cc_idx cc)"] c by linarith
    have loop: "cc_next_loop (Suc n) skip now req cc = cc_next_loop n skip now req cc2"
      using None by (simp add: idx Let_def cc2_def)
    have pre: "0 \<le> cc_idx cc2" "cc_idx cc2 \<le> cc_count cc2" "0 < cc_count cc2"
      using il Suc.prems by (simp_all add: cc2_def)
    have fields: "nat (cc_idx cc2) = Suc ?i" "cc_count cc2 = cc_count cc" "cc_freqs cc2 = cc_freqs cc"
      "cc_used cc2 = cc_used cc" "cc_eligible skip now req cc2 = cc_eligible skip now req cc"
      "cc2\<lparr>cc_idx := x\<rparr> = cc\<lparr>cc_idx := x\<rparr>" for x
      by (simp_all add: cc2_def cc_eligible_def fun_eq_iff nat_add_distrib)
    have last: "(?i + n) mod ?c = (nat (cc_idx cc) + n) mod ?c" "cc_idx cc2 = int ?i + 1"
      by (simp_all add: mod_simps cc2_def)
    show ?thesis
      unfolding loop Suc.IH [OF pre] fields shift upt using np last
      by (simp add: Let_def del: upt_Suc split: option.split)
  qed
qed

lemma filter_first:
  assumes "find_index p xs = Some k"
  shows "filter p xs = xs ! k # filter p (drop (Suc k) xs)" "filter p (take (Suc k) xs) = [xs ! k]"
proof -
  note k = find_index_SomeD [OF assms]
  have "filter p (take k xs) = []" using k by (auto simp: filter_empty_conv in_set_conv_nth)
  then show "filter p (take (Suc k) xs) = [xs ! k]" using k by (simp add: take_Suc_conv_app_nth)
  moreover have "filter p xs = filter p (take (Suc k) xs) @ filter p (drop (Suc k) xs)"
    by (metis append_take_drop_id filter_append)
  ultimately show "filter p xs = xs ! k # filter p (drop (Suc k) xs)" by simp
qed

lemma find_index_upt: "find_index (\<lambda>k. p (xs ! k)) [0..<length xs] = find_index p xs"
  using find_index_map [of p "\<lambda>k. xs ! k" "[0..<length xs]"] by (simp add: map_nth)

text \<open>One call: it returns the next eligible position and moves it to the end of the queue.\<close>

lemma cc_next_step:
  assumes inv: "cc_inv cc" and "trunk \<noteq> 0 \<or> skip = p25" "trunk \<noteq> 0 \<Longrightarrow> skip = trunk"
    and e: "filter (cc_eligible skip now req cc) (cc_visit cc) = e # es"
  obtains cc' where "cc_candidates_next trunk p25 now req (Some cc) = (Some cc', Some (cc_freqs cc ! e))"
    "cc_inv cc'" "filter (cc_eligible skip now req cc') (cc_visit cc') = es @ [e]"
    "cc_freqs cc' = cc_freqs cc"
proof -
  let ?xs = "cc_visit cc" and ?E = "cc_eligible skip now req cc" and ?c = "nat (cc_count cc)"
  have len: "length ?xs = ?c" by (simp add: cc_visit_def)
  have "?xs \<noteq> []" using e by auto
  then have c: "0 < ?c" using len by (cases "?c") auto
  then have pre: "0 \<le> cc_idx cc" "cc_idx cc \<le> cc_count cc" "0 < cc_count cc"
    using inv by (auto simp: cc_inv_def)
  obtain k where k: "find_index ?E ?xs = Some k"
    using e by (cases "find_index ?E ?xs") (auto simp: find_index_None_iff filter_empty_conv [symmetric])
  note kd = find_index_SomeD [OF k]
  have at: "?xs ! j = (nat (cc_idx cc) + j) mod ?c" if "j < ?c" for j
    using that by (simp add: cc_visit_def nth_rotate)
  have "find_index (\<lambda>j. ?E ((nat (cc_idx cc) + j) mod ?c)) [0..<?c] = find_index (\<lambda>j. ?E (?xs ! j)) [0..<?c]"
    by (rule find_index_cong) (simp_all add: at)
  also have "\<dots> = Some k" using find_index_upt [of ?E ?xs] k len by simp
  finally have fi: "find_index (\<lambda>j. ?E ((nat (cc_idx cc) + j) mod ?c)) [0..<?c] = Some k" .
  have ek: "e = ?xs ! k" "es = filter ?E (drop (Suc k) ?xs)" using filter_first(1) [OF k] e by simp_all
  let ?cc' = "cc\<lparr>cc_idx := int e + 1, cc_used := cc_used cc + 1\<rparr>"
  have ee: "e = (nat (cc_idx cc) + k) mod ?c" using ek(1) at kd len by simp
  have "(if trunk \<noteq> 0 then trunk else p25) = skip" using assms(2,3) by auto
  moreover have "cc_has_valid_count cc = (cc, True)" using inv by (simp add: cc_has_valid_count_def cc_inv_def)
  ultimately have step: "cc_candidates_next trunk p25 now req (Some cc) = (Some ?cc', Some (cc_freqs cc ! e))"
    by (simp add: cc_candidates_next_def cc_next_loop_find [OF pre] fi Let_def ee)
  have inv': "cc_inv ?cc'"
  proof -
    have "e < ?c" using c by (simp add: ee)
    then show ?thesis using inv by (simp add: cc_inv_def cc_order_def)
  qed
  have queue: "filter (cc_eligible skip now req ?cc') (cc_visit ?cc') = es @ [e]"
  proof -
    have "cc_visit ?cc' = rotate (Suc e) [0..<?c]" by (simp add: cc_visit_def nat_add_distrib)
    also have "\<dots> = rotate (Suc (nat (cc_idx cc) + k)) [0..<?c]"
      using rotate_conv_mod [of "Suc e" "[0..<?c]"] rotate_conv_mod [of "Suc (nat (cc_idx cc) + k)" "[0..<?c]"]
      by (simp add: ee mod_Suc_eq)
    also have "\<dots> = rotate (Suc k) ?xs"
      by (metis add.commute add_Suc cc_visit_def rotate_rotate)
    also have "\<dots> = drop (Suc k mod length ?xs) ?xs @ take (Suc k mod length ?xs) ?xs" by (rule rotate_drop_take)
    also have "\<dots> = drop (Suc k) ?xs @ take (Suc k) ?xs"
      using kd by (cases "Suc k = length ?xs") auto
    finally have v: "cc_visit ?cc' = drop (Suc k) ?xs @ take (Suc k) ?xs" .
    have "cc_eligible skip now req ?cc' = ?E" by (simp add: cc_eligible_def fun_eq_iff)
    then have "filter (cc_eligible skip now req ?cc') (cc_visit ?cc') = filter ?E (drop (Suc k) ?xs @ take (Suc k) ?xs)"
      unfolding v by simp
    also have "\<dots> = es @ [e]" using filter_first(2) [OF k] by (simp add: ek)
    finally show ?thesis .
  qed
  show ?thesis by (rule that [OF step inv' queue]) simp
qed

section \<open>Properties\<close>

fun cc_next_calls ::
  "nat \<Rightarrow> int \<Rightarrow> int \<Rightarrow> mono_s \<Rightarrow> u8 \<Rightarrow> cc_candidates option \<Rightarrow> cc_candidates option \<times> int option list" where
  "cc_next_calls 0 trunk p25 now req ext = (ext, [])"
| "cc_next_calls (Suc n) trunk p25 now req ext =
     (let (ext1, f) = cc_candidates_next trunk p25 now req ext;
          (ext2, fs) = cc_next_calls n trunk p25 now req ext1
      in (ext2, f # fs))"

lemma cc_next_calls_lap:
  assumes "cc_inv cc" "trunk \<noteq> 0 \<or> skip = p25" "trunk \<noteq> 0 \<Longrightarrow> skip = trunk"
    and "filter (cc_eligible skip now req cc) (cc_visit cc) = es @ done_es"
  shows "snd (cc_next_calls (length es) trunk p25 now req (Some cc)) = map (\<lambda>i. Some (cc_freqs cc ! i)) es"
  using assms(1,4)
proof (induction es arbitrary: cc done_es)
  case (Cons e es)
  then have "filter (cc_eligible skip now req cc) (cc_visit cc) = e # (es @ done_es)" by simp
  from cc_next_step [OF Cons.prems(1) assms(2,3) this] obtain cc' where
    c: "cc_candidates_next trunk p25 now req (Some cc) = (Some cc', Some (cc_freqs cc ! e))"
      "cc_inv cc'" "filter (cc_eligible skip now req cc') (cc_visit cc') = es @ (done_es @ [e])"
      "cc_freqs cc' = cc_freqs cc" by force
  show ?case using Cons.IH [OF c(2,3)] c(1,4)
    by (cases "cc_next_calls (length es) trunk p25 now req (Some cc')") simp
qed simp

text \<open>The round robin is fair. As long as the clock and the filter stay the same, as many calls
  as there are eligible candidates return every eligible candidate exactly once, in cursor order; a
  candidate is eligible when it carries the required flags, is not the current control channel and is
  not cooling down.\<close>

theorem cc_round_robin_fair:
  assumes "cc_inv cc"
  shows "let es = filter (\<lambda>i.
             (req = 0 \<or> cc_flags cc ! i AND req = req) \<and>
             cc_freqs cc ! i \<noteq> 0 \<and> cc_freqs cc ! i \<noteq> (if trunk \<noteq> 0 then trunk else p25) \<and>
             (cc_cool_until cc ! i \<le> 0 \<or> cc_cool_until cc ! i \<le> now))
           (rotate (nat (cc_idx cc)) [0..<nat (cc_count cc)])
         in snd (cc_next_calls (length es) trunk p25 now req (Some cc)) = map (\<lambda>i. Some (cc_freqs cc ! i)) es"
proof -
  define skip where "skip = (if trunk \<noteq> 0 then trunk else p25)"
  have elig: "(\<lambda>i. (req = 0 \<or> cc_flags cc ! i AND req = req) \<and> cc_freqs cc ! i \<noteq> 0 \<and> cc_freqs cc ! i \<noteq> skip \<and>
      (cc_cool_until cc ! i \<le> 0 \<or> cc_cool_until cc ! i \<le> now)) = cc_eligible skip now req cc"
    by (auto simp: fun_eq_iff cc_eligible_def cc_candidate_is_allowed_def Let_def split: if_splits)
  have "snd (cc_next_calls (length (filter (cc_eligible skip now req cc) (cc_visit cc))) trunk p25 now req (Some cc))
      = map (\<lambda>i. Some (cc_freqs cc ! i)) (filter (cc_eligible skip now req cc) (cc_visit cc))"
    by (rule cc_next_calls_lap [OF assms(1), where skip = skip and done_es = "[]"]) (simp_all add: skip_def)
  then show ?thesis unfolding Let_def skip_def [symmetric] elig cc_visit_def .
qed

definition cc_sample :: cc_candidates where
  "cc_sample = fst (cc_insert (True, 1) 300 (fst (cc_insert (True, 1) 200 (fst (cc_insert (True, 0) 100 cc_calloc)))))"

theorem cc_round_robin_fair_witness:
  "cc_inv cc_sample \<and> snd (cc_next_calls 2 0 200 5 0 (Some cc_sample)) = [Some 100, Some 300]"
proof -
  have inv: "cc_inv cc_sample" unfolding cc_sample_def by (intro cc_inv_insert cc_inv_calloc)
  have s: "cc_count cc_sample = 3" "cc_idx cc_sample = 0" "take 3 (cc_freqs cc_sample) = [100, 200, 300]"
    "take 3 (cc_cool_until cc_sample) = [0, 0, 0]"
    by (code_simp)+
  have at: "cc_freqs cc_sample ! i = [100, 200, 300] ! i" "cc_cool_until cc_sample ! i = [0, 0, 0] ! i" if "i < 3" for i
    using that nth_take [of i 3 "cc_freqs cc_sample"] nth_take [of i 3 "cc_cool_until cc_sample"] by (simp_all add: s)
  have upt: "[0..<3] = [0, 1, 2::nat]" by (simp add: upt_rec)
  show ?thesis
    using cc_round_robin_fair [OF inv, of 0 0 200 5] inv
    by (simp add: s upt at Let_def numeral_2_eq_2)
qed

text \<open>Candidates are forgotten first in, first out, and only when they must be: inserting any
  number of frequencies into a list that was never filled keeps all of them while at most 16 are
  distinct, and an insertion into a full list drops exactly the oldest one.\<close>

theorem cc_forgets_oldest_only:
  assumes "cc_inv cc" "f \<noteq> 0" "f \<notin> set (cc_order cc)"
  shows "(case cc_candidates_add True f bump flags (Some cc) of
     (None, _) \<Rightarrow> False
   | (Some cc', added) \<Rightarrow> added \<and> cc_inv cc' \<and> cc_order cc' =
       (if length (cc_order cc) < CC_CANDIDATES_MAX then cc_order cc else tl (cc_order cc)) @ [f]) \<and>
   (list_all (\<lambda>(_, k). k \<noteq> 0) fs \<longrightarrow> card (set (map snd fs)) \<le> CC_CANDIDATES_MAX \<longrightarrow>
     set (cc_order (cc_table.put_all fs cc_calloc)) = set (map snd fs))"
proof
  have full: "cc_count cc < int CC_CANDIDATES_MAX \<longleftrightarrow> length (cc_order cc) < CC_CANDIDATES_MAX"
    "\<not> cc_count cc < int CC_CANDIDATES_MAX \<Longrightarrow> cc_count cc = int CC_CANDIDATES_MAX"
    using length_cc_order [OF assms(1)] assms(1) by (auto simp: cc_inv_def)
  then show "case cc_candidates_add True f bump flags (Some cc) of
     (None, _) \<Rightarrow> False
   | (Some cc', added) \<Rightarrow> added \<and> cc_inv cc' \<and> cc_order cc' =
       (if length (cc_order cc) < CC_CANDIDATES_MAX then cc_order cc else tl (cc_order cc)) @ [f]"
    using cc_insert_new [OF assms(1,3), of "(bump, flags)"] cc_insert_full [OF assms(1,3), of "(bump, flags)"] assms(2)
      cc_inv_insert [OF assms(1), of "(bump, flags)" f]
    by (auto simp: cc_candidates_add_def cc_candidates_get_def split: prod.split)
next
  have "{j. j \<in> set (cc_order (cc_table.put_all fs cc_calloc))} = snd ` set fs \<union> {j. j \<in> set (cc_order cc_calloc)}"
    if "list_all (\<lambda>(_, k). k \<noteq> 0) fs" "card (set (map snd fs)) \<le> CC_CANDIDATES_MAX"
    using that by (intro cc_table.put_all_keeps cc_inv_calloc) (auto simp: list_all_iff cc_order_def cc_calloc_def)
  then show "list_all (\<lambda>(_, k). k \<noteq> 0) fs \<longrightarrow> card (set (map snd fs)) \<le> CC_CANDIDATES_MAX \<longrightarrow>
     set (cc_order (cc_table.put_all fs cc_calloc)) = set (map snd fs)"
    by (auto simp: cc_order_def cc_calloc_def)
qed

theorem cc_forgets_oldest_only_witness:
  "cc_order cc_calloc = [] \<and> set (cc_order (cc_table.put_all [((True, 0), 851), ((False, 1), 852)] cc_calloc)) = {851, 852}"
proof -
  have o: "cc_order cc_calloc = []" by (simp add: cc_order_def cc_calloc_def)
  show ?thesis
    using cc_forgets_oldest_only [OF cc_inv_calloc, of 1 True 0 "[((True, 0), 851), ((False, 1), 852)]"]
    by (simp add: o CC_CANDIDATES_MAX_def)
qed

lemma cc_next_Some:
  assumes "cc_inv cc" "snd (cc_candidates_next trunk p25 now req (Some cc)) = Some f"
  obtains p where "p < nat (cc_count cc)" "cc_freqs cc ! p = f" "cc_eligible (if trunk \<noteq> 0 then trunk else p25) now req cc p"
proof (cases "cc_count cc = 0")
  case True
  then have "cc_has_valid_count cc = (cc, True)" by (simp add: cc_has_valid_count_def)
  with True assms(2) show ?thesis by (simp add: cc_candidates_next_def Let_def)
next
  case False
  then have pre: "0 \<le> cc_idx cc" "cc_idx cc \<le> cc_count cc" "0 < cc_count cc" using assms(1) by (auto simp: cc_inv_def)
  have v: "cc_has_valid_count cc = (cc, True)" using assms(1) by (simp add: cc_has_valid_count_def cc_inv_def)
  let ?skip = "if trunk \<noteq> 0 then trunk else p25"
  from assms(2) obtain k where
    k: "find_index (\<lambda>k. cc_eligible ?skip now req cc ((nat (cc_idx cc) + k) mod nat (cc_count cc))) [0..<nat (cc_count cc)] = Some k"
    "f = cc_freqs cc ! ((nat (cc_idx cc) + k) mod nat (cc_count cc))"
    by (auto simp: cc_candidates_next_def v cc_next_loop_find [OF pre] Let_def split: option.splits)
  show ?thesis
    by (rule that [of "(nat (cc_idx cc) + k) mod nat (cc_count cc)"])
      (use k pre(3) in \<open>auto dest!: find_index_SomeD\<close>)
qed

text \<open>A candidate in cooldown is not hunted: once a cooldown is set on a frequency, no call returns
  that frequency before the cooldown ends.\<close>

theorem cc_cooldown_respected:
  assumes "cc_inv cc" "f \<noteq> 0" "0 < until" "now < until"
  shows "snd (cc_candidates_next trunk p25 now req (cc_candidates_set_cooldown f until (Some cc))) \<noteq> Some f"
proof (cases "find_index (\<lambda>x. x = f) (cc_order cc)")
  case None
  show ?thesis
  proof
    assume a: "snd (cc_candidates_next trunk p25 now req (cc_candidates_set_cooldown f until (Some cc))) = Some f"
    have "cc_candidates_set_cooldown f until (Some cc) = Some cc"
      using None assms(2) by (simp add: cc_candidates_set_cooldown_def cc_order_def)
    with a obtain p where "p < nat (cc_count cc)" "cc_freqs cc ! p = f"
      using cc_next_Some [OF assms(1)] by metis
    then have "f \<in> set (cc_order cc)" using length_cc_order [OF assms(1)]
      by (auto simp: cc_order_def in_set_conv_nth intro!: exI [of _ p])
    with None show False by (auto simp: find_index_None_iff)
  qed
next
  case (Some i)
  let ?cc = "cc\<lparr>cc_cool_until := (cc_cool_until cc)[i := until]\<rparr>"
  have s: "cc_candidates_set_cooldown f until (Some cc) = Some ?cc"
    using Some assms(2) by (simp add: cc_candidates_set_cooldown_def cc_order_def)
  have inv: "cc_inv ?cc" using assms(1) by (simp add: cc_inv_def cc_order_def)
  have i: "i < nat (cc_count cc)" "cc_freqs cc ! i = f" "i < length (cc_cool_until cc)"
    using find_index_SomeD [OF Some] length_cc_order [OF assms(1)] assms(1) by (auto simp: cc_order_def cc_inv_def)
  show ?thesis
  proof
    assume "snd (cc_candidates_next trunk p25 now req (cc_candidates_set_cooldown f until (Some cc))) = Some f"
    from cc_next_Some [OF inv this [unfolded s]] obtain p skip where
      p: "p < nat (cc_count cc)" "cc_freqs cc ! p = f" "cc_eligible skip now req ?cc p" by (metis cc_candidates.select_convs cc_candidates.update_convs cc_candidates.surjective)
    have "cc_order cc ! p = cc_order cc ! i" "p < length (cc_order cc)" "i < length (cc_order cc)"
      using p i length_cc_order [OF assms(1)] by (simp_all add: cc_order_def)
    then have "p = i" using assms(1) nth_eq_iff_index_eq by (auto simp: cc_inv_def)
    with p(3) i(3) assms(3,4) show False
      by (simp add: cc_eligible_def cc_candidate_is_allowed_def Let_def split: if_splits)
  qed
qed

theorem cc_cooldown_respected_witness:
  "snd (cc_candidates_next 0 0 4 0 (cc_candidates_set_cooldown 100 9 (Some cc_sample))) \<noteq> Some 100"
  by (rule cc_cooldown_respected) (simp_all add: cc_sample_def cc_inv_insert cc_inv_calloc)

end
