(* ===== verification/Enc_Lockout.thy ===== *)
theory Enc_Lockout
  imports Bounded_Table
begin

text \<open>
  The encrypted-target lockout ledger of \<open>src/core/util/enc_lockout.c\<close>: 128 entries keyed by target
  and kind (group or private), stamped with the key epoch and with a confirmation ticket that orders
  evictions. The wall clock is an argument; opts is reduced to its \<open>trunk_tune_enc_calls\<close> flag. The
  decoder thread owns all mutation, so an operation is one step.
\<close>

section \<open>Model\<close>

definition ENC_LOCKOUT_MAX :: nat where
  "ENC_LOCKOUT_MAX = 128"

record lockout_entry =
  le_key_epoch :: u64
  le_last_seq :: u64
  le_last_seen :: wall_s
  le_target :: u32
  le_hits :: u32
  le_algid :: "16 word"
  le_keyid :: u16
  le_is_group :: bool
  le_in_use :: bool

record lockout =
  lockout_entries :: "lockout_entry list"
  lockout_key_epoch :: u64
  lockout_seq :: u64

definition zero_entry :: lockout_entry where
  "zero_entry = \<lparr>le_key_epoch = 0, le_last_seq = 0, le_last_seen = 0, le_target = 0, le_hits = 0,
     le_algid = 0, le_keyid = 0, le_is_group = False, le_in_use = False\<rparr>"

definition ALGID_UNKNOWN :: "16 word" where
  "ALGID_UNKNOWN = - 1"

definition enc_lockout_find :: "u32 \<Rightarrow> bool \<Rightarrow> lockout \<Rightarrow> nat option" where
  "enc_lockout_find target is_group s =
     (if target = 0 then None
      else find_index (\<lambda>e. le_in_use e \<and> le_target e = target \<and> le_is_group e = is_group) (lockout_entries s))"

text \<open>The eviction scan; the accumulator is \<open>victim\<close>, null at first.\<close>

fun choose_slot_loop :: "u64 \<Rightarrow> nat \<Rightarrow> lockout_entry list \<Rightarrow> (nat \<times> lockout_entry) option \<Rightarrow> nat option" where
  "choose_slot_loop epoch i [] victim = map_option fst victim"
| "choose_slot_loop epoch i (e # es) victim =
     (if \<not> le_in_use e then Some i
      else
        let e_stale = le_key_epoch e \<noteq> epoch;
            better = (case victim of
               None \<Rightarrow> True
             | Some (_, v) \<Rightarrow>
                 let victim_stale = le_key_epoch v \<noteq> epoch in
                 (e_stale \<and> \<not> victim_stale) \<or> (e_stale = victim_stale \<and> le_last_seq e < le_last_seq v))
        in choose_slot_loop epoch (Suc i) es (if better then Some (i, e) else victim))"

definition enc_lockout_choose_slot :: "lockout \<Rightarrow> nat option" where
  "enc_lockout_choose_slot s = choose_slot_loop (lockout_key_epoch s) 0 (lockout_entries s) None"

definition enc_lockout_stamp :: "u64 \<Rightarrow> u64 \<Rightarrow> wall_s \<Rightarrow> int \<Rightarrow> int \<Rightarrow> lockout_entry \<Rightarrow> lockout_entry" where
  "enc_lockout_stamp epoch sq now algid keyid e =
     (let e1 = e\<lparr>le_key_epoch := epoch, le_last_seq := sq, le_last_seen := now,
                 le_hits := (if le_hits e < - 1 then le_hits e + 1 else le_hits e)\<rparr>;
          e2 = (if algid \<ge> 0
                then e1\<lparr>le_algid := word_of_int (algid AND 0xFF), le_keyid := word_of_int (keyid AND 0xFFFF)\<rparr>
                else e1)
      in e2\<lparr>le_in_use := True\<rparr>)"

definition enc_lockout_note :: "wall_s \<Rightarrow> u32 \<Rightarrow> bool \<Rightarrow> int \<Rightarrow> int \<Rightarrow> lockout \<Rightarrow> lockout \<times> bool" where
  "enc_lockout_note now target is_group algid keyid s =
     (if target = 0 then (s, False)
      else
        let found = enc_lockout_find target is_group s;
            chosen = (case found of
               Some i \<Rightarrow> Some (i, lockout_entries s ! i,
                 le_key_epoch (lockout_entries s ! i) \<noteq> lockout_key_epoch s)
             | None \<Rightarrow> (case enc_lockout_choose_slot s of
                 None \<Rightarrow> None
               | Some i \<Rightarrow> Some (i,
                   zero_entry\<lparr>le_target := target, le_is_group := is_group, le_algid := ALGID_UNKNOWN\<rparr>, True)))
        in case chosen of
             None \<Rightarrow> (s, False)
           | Some (i, e, newly_locking) \<Rightarrow>
               let sq = lockout_seq s + 1 in
               (s\<lparr>lockout_entries := (lockout_entries s)
                    [i := enc_lockout_stamp (lockout_key_epoch s) sq now algid keyid e],
                  lockout_seq := sq\<rparr>, newly_locking))"

definition enc_lockout_entry_active :: "u32 \<Rightarrow> bool \<Rightarrow> lockout \<Rightarrow> bool" where
  "enc_lockout_entry_active target is_group s =
     (case enc_lockout_find target is_group s of
        None \<Rightarrow> False
      | Some i \<Rightarrow> le_key_epoch (lockout_entries s ! i) = lockout_key_epoch s)"

definition enc_lockout_is_blocked :: "bool \<Rightarrow> u32 \<Rightarrow> bool \<Rightarrow> lockout \<Rightarrow> bool" where
  "enc_lockout_is_blocked trunk_tune_enc_calls target is_group s =
     (if trunk_tune_enc_calls then False else enc_lockout_entry_active target is_group s)"

definition enc_lockout_lookup :: "u32 \<Rightarrow> bool \<Rightarrow> lockout \<Rightarrow> lockout_entry option" where
  "enc_lockout_lookup target is_group s =
     map_option (\<lambda>i. lockout_entries s ! i) (enc_lockout_find target is_group s)"

definition enc_lockout_release :: "u32 \<Rightarrow> bool \<Rightarrow> lockout \<Rightarrow> lockout \<times> bool" where
  "enc_lockout_release target is_group s =
     (if target = 0 then (s, False)
      else case enc_lockout_find target is_group s of
        Some i \<Rightarrow> (s\<lparr>lockout_entries := (lockout_entries s)[i := zero_entry]\<rparr>, True)
      | None \<Rightarrow> (s, False))"

definition enc_lockout_bump_key_epoch :: "lockout \<Rightarrow> lockout" where
  "enc_lockout_bump_key_epoch s = s\<lparr>lockout_key_epoch := lockout_key_epoch s + 1\<rparr>"

definition enc_lockout_clear_all :: "lockout \<Rightarrow> lockout" where
  "enc_lockout_clear_all s = s\<lparr>lockout_entries := replicate ENC_LOCKOUT_MAX zero_entry\<rparr>"

definition enc_lockout_active_count :: "lockout \<Rightarrow> nat" where
  "enc_lockout_active_count s =
     count_if (\<lambda>e. le_in_use e \<and> le_key_epoch e = lockout_key_epoch s) (lockout_entries s)"

definition enc_lockout_init :: lockout where
  "enc_lockout_init = \<lparr>lockout_entries = replicate ENC_LOCKOUT_MAX zero_entry,
     lockout_key_epoch = 1, lockout_seq = 0\<rparr>"

section \<open>The eviction scan\<close>

text \<open>Stale entries rank below current ones, older tickets below newer ones.\<close>

definition evict_rank :: "u64 \<Rightarrow> lockout_entry \<Rightarrow> nat" where
  "evict_rank epoch e = (if le_key_epoch e \<noteq> epoch then 0 else 2 ^ 64) + unat (le_last_seq e)"

lemma better_iff_rank:
  "(le_key_epoch e \<noteq> epoch \<and> \<not> le_key_epoch v \<noteq> epoch \<or>
    (le_key_epoch e \<noteq> epoch) = (le_key_epoch v \<noteq> epoch) \<and> le_last_seq e < le_last_seq v) \<longleftrightarrow>
     evict_rank epoch e < evict_rank epoch v"
  using unat_u64_less [of "le_last_seq e"] unat_u64_less [of "le_last_seq v"]
  by (auto simp: evict_rank_def word_less_nat_alt)

lemma choose_loop_step:
  "le_in_use e \<Longrightarrow> choose_slot_loop epoch i (e # es) (Some (k, v)) =
     choose_slot_loop epoch (Suc i) es
       (if evict_rank epoch e < evict_rank epoch v then Some (i, e) else Some (k, v))"
  by (simp only: better_iff_rank [symmetric] choose_slot_loop.simps Let_def) simp

lemma choose_loop_free:
  "find_index (\<lambda>e. \<not> le_in_use e) es = Some j \<Longrightarrow> choose_slot_loop epoch i es victim = Some (i + j)"
  by (induction es arbitrary: i j victim) (auto simp: Let_def split: if_splits)

lemma choose_loop_full:
  "list_all le_in_use es \<Longrightarrow>
     \<exists>r w. choose_slot_loop epoch i es (Some (k, v)) = Some r \<and>
       (r = k \<and> w = v \<or> (\<exists>j<length es. r = i + j \<and> w = es ! j)) \<and>
       evict_rank epoch w \<le> evict_rank epoch v \<and> (\<forall>e\<in>set es. evict_rank epoch w \<le> evict_rank epoch e)"
proof (induction es arbitrary: i k v)
  case (Cons e es)
  then have use: "le_in_use e" "list_all le_in_use es" by simp_all
  show ?case
  proof (cases "evict_rank epoch e < evict_rank epoch v")
    case True
    from Cons.IH [OF use(2), of "Suc i" i e] True show ?thesis
      unfolding choose_loop_step [OF use(1)] by (fastforce simp: less_Suc_eq_0_disj)
  next
    case False
    from Cons.IH [OF use(2), of "Suc i" k v] False show ?thesis
      unfolding choose_loop_step [OF use(1)] by (fastforce simp: less_Suc_eq_0_disj)
  qed
qed simp

text \<open>What the scan chooses: the first free entry, else an entry of least rank.\<close>

lemma choose_slot_cases:
  assumes "lockout_entries s \<noteq> []"
  obtains i where "enc_lockout_choose_slot s = Some i" "i < length (lockout_entries s)"
    "\<not> le_in_use (lockout_entries s ! i) \<or>
     (list_all le_in_use (lockout_entries s) \<and>
      (\<forall>e\<in>set (lockout_entries s).
         evict_rank (lockout_key_epoch s) (lockout_entries s ! i) \<le> evict_rank (lockout_key_epoch s) e))"
proof (cases "find_index (\<lambda>e. \<not> le_in_use e) (lockout_entries s)")
  case (Some j)
  then show ?thesis
    by (intro that [of j]) (auto simp: enc_lockout_choose_slot_def choose_loop_free dest: find_index_SomeD)
next
  case None
  then have use: "list_all le_in_use (lockout_entries s)" by (auto simp: find_index_None_iff list_all_iff)
  obtain e es where es: "lockout_entries s = e # es" using assms by (cases "lockout_entries s") auto
  have start: "enc_lockout_choose_slot s = choose_slot_loop (lockout_key_epoch s) (Suc 0) es (Some (0, e))"
    using use by (simp add: enc_lockout_choose_slot_def es Let_def)
  obtain r w where r: "choose_slot_loop (lockout_key_epoch s) (Suc 0) es (Some (0, e)) = Some r"
    "r = 0 \<and> w = e \<or> (\<exists>j<length es. r = Suc 0 + j \<and> w = es ! j)"
    "evict_rank (lockout_key_epoch s) w \<le> evict_rank (lockout_key_epoch s) e"
    "\<forall>x\<in>set es. evict_rank (lockout_key_epoch s) w \<le> evict_rank (lockout_key_epoch s) x"
    using choose_loop_full [of es] use unfolding es list.pred_inject by metis
  then have "w = lockout_entries s ! r" "r < length (lockout_entries s)" by (auto simp: es)
  with r use show ?thesis by (intro that [of r]) (auto simp: start es)
qed

section \<open>Invariant\<close>

type_synonym lockout_key = "u32 \<times> bool"

definition entry_key :: "lockout_entry \<Rightarrow> lockout_key" where
  "entry_key e = (le_target e, le_is_group e)"

definition holds_key :: "lockout \<Rightarrow> nat \<Rightarrow> lockout_key \<Rightarrow> bool" where
  "holds_key s i k \<longleftrightarrow>
     i < length (lockout_entries s) \<and> le_in_use (lockout_entries s ! i) \<and> entry_key (lockout_entries s ! i) = k"

definition lockout_inv :: "lockout \<Rightarrow> bool" where
  "lockout_inv s \<longleftrightarrow>
     length (lockout_entries s) = ENC_LOCKOUT_MAX \<and>
     (\<forall>i k. holds_key s i k \<longrightarrow> fst k \<noteq> 0) \<and>
     (\<forall>i j k. holds_key s i k \<longrightarrow> holds_key s j k \<longrightarrow> i = j)"

definition lockout_mem :: "lockout \<Rightarrow> lockout_key \<Rightarrow> bool" where
  "lockout_mem s k \<longleftrightarrow> enc_lockout_lookup (fst k) (snd k) s \<noteq> None"

lemma holds_unique: "lockout_inv s \<Longrightarrow> holds_key s i k \<Longrightarrow> holds_key s j k \<Longrightarrow> i = j"
  unfolding lockout_inv_def by blast

lemma holds_nonzero: "lockout_inv s \<Longrightarrow> holds_key s i k \<Longrightarrow> fst k \<noteq> 0"
  unfolding lockout_inv_def by blast

lemma find_iff:
  assumes "lockout_inv s"
  shows "enc_lockout_find t g s = Some i \<longleftrightarrow> holds_key s i (t, g)"
proof
  assume "enc_lockout_find t g s = Some i"
  then show "holds_key s i (t, g)"
    by (auto simp: enc_lockout_find_def holds_key_def entry_key_def split: if_splits dest!: find_index_SomeD)
next
  assume h: "holds_key s i (t, g)"
  have t: "t \<noteq> 0" using holds_nonzero [OF assms h] by simp
  have "find_index (\<lambda>e. le_in_use e \<and> le_target e = t \<and> le_is_group e = g) (lockout_entries s) = Some i"
  proof (rule find_index_unique)
    fix j assume "j < length (lockout_entries s)"
      "le_in_use (lockout_entries s ! j) \<and> le_target (lockout_entries s ! j) = t \<and> le_is_group (lockout_entries s ! j) = g"
    then have "holds_key s j (t, g)" by (simp add: holds_key_def entry_key_def)
    then show "j = i" by (rule holds_unique [OF assms _ h])
  qed (use h in \<open>auto simp: holds_key_def entry_key_def\<close>)
  with t show "enc_lockout_find t g s = Some i" by (simp add: enc_lockout_find_def)
qed

lemma mem_iff:
  assumes "lockout_inv s"
  shows "lockout_mem s k \<longleftrightarrow> (\<exists>i. holds_key s i k)"
proof -
  have "lockout_mem s k \<longleftrightarrow> (\<exists>i. enc_lockout_find (fst k) (snd k) s = Some i)"
    by (simp add: lockout_mem_def enc_lockout_lookup_def)
  then show ?thesis by (simp add: find_iff [OF assms])
qed

lemma stamp_fields [simp]:
  "le_in_use (enc_lockout_stamp epoch sq now algid keyid e)"
  "entry_key (enc_lockout_stamp epoch sq now algid keyid e) = entry_key e"
  "le_target (enc_lockout_stamp epoch sq now algid keyid e) = le_target e"
  "le_key_epoch (enc_lockout_stamp epoch sq now algid keyid e) = epoch"
  "le_last_seq (enc_lockout_stamp epoch sq now algid keyid e) = sq"
  by (simp_all add: enc_lockout_stamp_def Let_def entry_key_def)

text \<open>What a confirmation does: it rewrites one slot, the target's own or the chosen one.\<close>

lemma note_effect:
  assumes inv: "lockout_inv s" and t: "t \<noteq> 0"
  obtains i e where "i < length (lockout_entries s)" "le_in_use e" "entry_key e = (t, g)"
    "le_key_epoch e = lockout_key_epoch s" "le_last_seq e = lockout_seq s + 1"
    "fst (enc_lockout_note now t g algid keyid s) =
       s\<lparr>lockout_entries := (lockout_entries s)[i := e], lockout_seq := lockout_seq s + 1\<rparr>"
    "holds_key s i (t, g) \<and>
       (snd (enc_lockout_note now t g algid keyid s) \<longleftrightarrow> le_key_epoch (lockout_entries s ! i) \<noteq> lockout_key_epoch s)
     \<or> \<not> lockout_mem s (t, g) \<and> snd (enc_lockout_note now t g algid keyid s) \<and>
       (\<not> le_in_use (lockout_entries s ! i) \<or>
        list_all le_in_use (lockout_entries s) \<and>
        (\<forall>x\<in>set (lockout_entries s).
           evict_rank (lockout_key_epoch s) (lockout_entries s ! i) \<le> evict_rank (lockout_key_epoch s) x))"
proof (cases "enc_lockout_find t g s")
  case (Some i)
  then have h: "holds_key s i (t, g)" using find_iff [OF inv] by simp
  let ?e = "enc_lockout_stamp (lockout_key_epoch s) (lockout_seq s + 1) now algid keyid (lockout_entries s ! i)"
  show ?thesis
    by (rule that [of i ?e]) (use h Some t in \<open>auto simp: holds_key_def enc_lockout_note_def Let_def\<close>)
next
  case None
  have "lockout_entries s \<noteq> []" using inv by (auto simp: lockout_inv_def ENC_LOCKOUT_MAX_def)
  from choose_slot_cases [OF this] obtain i where i: "enc_lockout_choose_slot s = Some i" "i < length (lockout_entries s)"
    "\<not> le_in_use (lockout_entries s ! i) \<or> list_all le_in_use (lockout_entries s) \<and>
        (\<forall>x\<in>set (lockout_entries s).
           evict_rank (lockout_key_epoch s) (lockout_entries s ! i) \<le> evict_rank (lockout_key_epoch s) x)" .
  let ?z = "zero_entry\<lparr>le_target := t, le_is_group := g, le_algid := ALGID_UNKNOWN\<rparr>"
  let ?e = "enc_lockout_stamp (lockout_key_epoch s) (lockout_seq s + 1) now algid keyid ?z"
  have "entry_key ?z = (t, g)" by (simp add: entry_key_def)
  moreover have "\<not> lockout_mem s (t, g)" using None by (simp add: lockout_mem_def enc_lockout_lookup_def)
  ultimately show ?thesis
    by (intro that [of i ?e]) (use i None t in \<open>auto simp: enc_lockout_note_def Let_def\<close>)
qed

lemma holds_update:
  "i < length (lockout_entries s) \<Longrightarrow>
     holds_key (s\<lparr>lockout_entries := (lockout_entries s)[i := e], lockout_seq := q\<rparr>) j k \<longleftrightarrow>
       (if j = i then le_in_use e \<and> entry_key e = k else holds_key s j k)"
  by (auto simp: holds_key_def nth_list_update)

lemma lockout_inv_update:
  assumes inv: "lockout_inv s" and i: "i < length (lockout_entries s)"
    and e: "le_in_use e \<Longrightarrow> le_target e \<noteq> 0 \<and> (\<forall>j. j \<noteq> i \<longrightarrow> \<not> holds_key s j (entry_key e))"
  shows "lockout_inv (s\<lparr>lockout_entries := (lockout_entries s)[i := e], lockout_seq := q\<rparr>)"
proof -
  let ?s = "s\<lparr>lockout_entries := (lockout_entries s)[i := e], lockout_seq := q\<rparr>"
  have "fst k \<noteq> 0" if "holds_key ?s j k" for j k
    using that e holds_nonzero [OF inv, of j k] unfolding holds_update [OF i]
    by (auto simp: entry_key_def split: if_splits)
  moreover have "j1 = j2" if "holds_key ?s j1 k" "holds_key ?s j2 k" for j1 j2 k
    using that e holds_unique [OF inv, of j1 k j2] unfolding holds_update [OF i]
    by (auto split: if_splits)
  moreover have "length (lockout_entries ?s) = ENC_LOCKOUT_MAX" using inv by (simp add: lockout_inv_def)
  ultimately show ?thesis unfolding lockout_inv_def by blast
qed

lemma lockout_inv_note [inv_intros]:
  assumes inv: "lockout_inv s"
  shows "lockout_inv (fst (enc_lockout_note now t g algid keyid s))"
proof (cases "t = 0")
  case False
  obtain i e where n: "i < length (lockout_entries s)" "le_in_use e" "entry_key e = (t, g)"
    "fst (enc_lockout_note now t g algid keyid s) =
       s\<lparr>lockout_entries := (lockout_entries s)[i := e], lockout_seq := lockout_seq s + 1\<rparr>"
    "holds_key s i (t, g) \<or> \<not> lockout_mem s (t, g)"
    using note_effect [OF inv False] by metis
  have "\<not> holds_key s j (t, g)" if "j \<noteq> i" for j
    using n(5) that holds_unique [OF inv] mem_iff [OF inv] by metis
  with n False show ?thesis
    unfolding n(4) by (intro lockout_inv_update [OF inv]) (auto simp: entry_key_def)
qed (simp add: enc_lockout_note_def inv)

section \<open>The ledger as a table that evicts\<close>

definition lockout_put :: "(wall_s \<times> int \<times> int) \<Rightarrow> lockout_key \<Rightarrow> lockout \<Rightarrow> lockout" where
  "lockout_put a k s =
     (case a of (now, algid, keyid) \<Rightarrow> fst (enc_lockout_note now (fst k) (snd k) algid keyid s))"

lemma put_effect:
  assumes "lockout_inv s" "fst k \<noteq> 0"
  obtains i where "\<And>j k'. holds_key (lockout_put a k s) j k' \<longleftrightarrow> (if j = i then k = k' else holds_key s j k')"
    "holds_key s i k \<or> \<not> lockout_mem s k \<and>
       (\<not> le_in_use (lockout_entries s ! i) \<or> list_all le_in_use (lockout_entries s))"
proof -
  obtain now algid keyid where a: "a = (now, algid, keyid)" by (cases a)
  obtain i e where n: "i < length (lockout_entries s)" "le_in_use e" "entry_key e = (fst k, snd k)"
    "fst (enc_lockout_note now (fst k) (snd k) algid keyid s) =
       s\<lparr>lockout_entries := (lockout_entries s)[i := e], lockout_seq := lockout_seq s + 1\<rparr>"
    "holds_key s i (fst k, snd k) \<or> \<not> lockout_mem s (fst k, snd k) \<and>
       (\<not> le_in_use (lockout_entries s ! i) \<or> list_all le_in_use (lockout_entries s))"
    using note_effect [OF assms] by metis
  show ?thesis
    by (rule that [of i]) (use n in \<open>auto simp: lockout_put_def a holds_update\<close>)
qed

lemma put_illegal: "fst k = 0 \<Longrightarrow> lockout_put a k s = s"
  by (cases a) (simp add: lockout_put_def enc_lockout_note_def)

lemma lockout_inv_put: "lockout_inv s \<Longrightarrow> lockout_inv (lockout_put a k s)"
  by (cases a) (simp add: lockout_put_def lockout_inv_note)

lemma mem_put:
  assumes "lockout_inv s"
  shows "lockout_mem (lockout_put a k s) k' \<longleftrightarrow> (\<exists>j. holds_key (lockout_put a k s) j k')"
  by (rule mem_iff [OF lockout_inv_put [OF assms]])

lemma mem_keys:
  assumes "lockout_inv s"
  shows "{k. lockout_mem s k} = (\<lambda>i. entry_key (lockout_entries s ! i)) `
      {i. i < length (lockout_entries s) \<and> le_in_use (lockout_entries s ! i)}"
  unfolding mem_iff [OF assms] holds_key_def by blast

lemma mem_card:
  assumes "lockout_inv s"
  shows "finite {k. lockout_mem s k}"
    and "card {k. lockout_mem s k} = card {i. i < length (lockout_entries s) \<and> le_in_use (lockout_entries s ! i)}"
proof -
  let ?I = "{i. i < length (lockout_entries s) \<and> le_in_use (lockout_entries s ! i)}"
  have "inj_on (\<lambda>i. entry_key (lockout_entries s ! i)) ?I"
  proof (rule inj_onI)
    fix i j assume "i \<in> ?I" "j \<in> ?I" "entry_key (lockout_entries s ! i) = entry_key (lockout_entries s ! j)"
    then have "holds_key s i (entry_key (lockout_entries s ! i))" "holds_key s j (entry_key (lockout_entries s ! i))"
      by (auto simp: holds_key_def)
    then show "i = j" by (rule holds_unique [OF assms])
  qed
  then show "card {k. lockout_mem s k} = card ?I" unfolding mem_keys [OF assms] by (rule card_image)
  show "finite {k. lockout_mem s k}" unfolding mem_keys [OF assms] by simp
qed

lemma lost_key:
  assumes "lockout_inv s" "lockout_mem s k'" "\<not> lockout_mem (lockout_put a k s) k'"
  shows "\<not> lockout_mem s k \<and> list_all le_in_use (lockout_entries s)"
    and "\<And>i. (\<And>j k'. holds_key (lockout_put a k s) j k' \<longleftrightarrow> (if j = i then k = k' else holds_key s j k'))
       \<Longrightarrow> holds_key s i k'"
proof -
  have t: "fst k \<noteq> 0" using assms(2,3) put_illegal [of k a s] by auto
  obtain j where j: "holds_key s j k'" using assms(2) mem_iff [OF assms(1)] by blast
  have none: "\<not> holds_key (lockout_put a k s) j' k'" for j' using assms(3) mem_put [OF assms(1)] by blast
  obtain i where i: "\<And>j k'. holds_key (lockout_put a k s) j k' \<longleftrightarrow> (if j = i then k = k' else holds_key s j k')"
    "holds_key s i k \<or> \<not> lockout_mem s k \<and>
       (\<not> le_in_use (lockout_entries s ! i) \<or> list_all le_in_use (lockout_entries s))"
    by (rule put_effect [OF assms(1) t, where a = a]) blast
  have ji: "j = i" using none [of j] j i(1) [of j k'] by (simp split: if_splits)
  have "k \<noteq> k'" using none [of i] i(1) [of i k'] by simp
  then have "\<not> holds_key s i k" using j ji by (auto simp: holds_key_def)
  then show "\<not> lockout_mem s k \<and> list_all le_in_use (lockout_entries s)"
    using i(2) j ji by (auto simp: holds_key_def)
  fix i' assume "\<And>j k'. holds_key (lockout_put a k s) j k' \<longleftrightarrow> (if j = i' then k = k' else holds_key s j k')"
  with none [of j] j show "holds_key s i' k'" by (metis)
qed

interpretation lockout_table: bounded_table lockout_inv lockout_mem "\<lambda>k. fst k \<noteq> 0" lockout_put ENC_LOCKOUT_MAX
proof unfold_locales
  fix s a and k k' k1 k2 :: lockout_key assume inv: "lockout_inv s"
  show "lockout_inv (lockout_put a k s)" by (rule lockout_inv_put [OF inv])
  show "lockout_mem (lockout_put a k s) k" if "fst k \<noteq> 0"
    using put_effect [OF inv that, of a] mem_put [OF inv, of a k k] by metis
  show "k' = k \<or> lockout_mem s k'" if "lockout_mem (lockout_put a k s) k'"
  proof (cases "fst k = 0")
    case False
    then show ?thesis
      using that put_effect [OF inv False, of a] mem_put [OF inv, of a k k'] mem_iff [OF inv, of k'] by metis
  qed (use that put_illegal in auto)
  show "lockout_mem (lockout_put a k s) k'" if "lockout_mem s k" "lockout_mem s k'"
    using lost_key(1) [OF inv that(2)] that(1) by blast
  have all: "card {k. lockout_mem s k} = ENC_LOCKOUT_MAX" if "list_all le_in_use (lockout_entries s)"
  proof -
    have "{i. i < length (lockout_entries s) \<and> le_in_use (lockout_entries s ! i)} = {..<ENC_LOCKOUT_MAX}"
      using that inv by (auto simp: list_all_length lockout_inv_def)
    then show ?thesis by (simp add: mem_card(2) [OF inv])
  qed
  show "lockout_mem (lockout_put a k s) k'" if "card {j. lockout_mem s j} < ENC_LOCKOUT_MAX" "lockout_mem s k'"
    using lost_key(1) [OF inv that(2)] that(1) all by fastforce
  show "k1 = k2" if "lockout_mem s k1" "lockout_mem s k2"
    "\<not> lockout_mem (lockout_put a k s) k1" "\<not> lockout_mem (lockout_put a k s) k2"
  proof -
    have "fst k \<noteq> 0" using that put_illegal [of k a s] by auto
    then obtain i where "\<And>j k'. holds_key (lockout_put a k s) j k' \<longleftrightarrow> (if j = i then k = k' else holds_key s j k')"
      using put_effect [OF inv] by metis
    from lost_key(2) [OF inv that(1,3) this] lost_key(2) [OF inv that(2,4) this]
    show ?thesis by (simp add: holds_key_def)
  qed
  show "finite {j. lockout_mem s j} \<and> card {j. lockout_mem s j} \<le> ENC_LOCKOUT_MAX"
  proof -
    have "{i. i < length (lockout_entries s) \<and> le_in_use (lockout_entries s ! i)} \<subseteq> {..<ENC_LOCKOUT_MAX}"
      using inv by (auto simp: lockout_inv_def)
    from card_mono [OF _ this] show ?thesis using mem_card [OF inv] by simp
  qed
qed

section \<open>Epochs\<close>

definition epoch_inv :: "lockout \<Rightarrow> bool" where
  "epoch_inv s \<longleftrightarrow> (\<forall>e\<in>set (lockout_entries s). le_in_use e \<longrightarrow> le_key_epoch e \<le> lockout_key_epoch s)"

datatype lockout_op =
    Lockout_note wall_s u32 bool int int
  | Lockout_release u32 bool
  | Lockout_bump
  | Lockout_clear

fun lockout_step :: "lockout \<Rightarrow> lockout_op \<Rightarrow> lockout" where
  "lockout_step s (Lockout_note now t g algid keyid) = fst (enc_lockout_note now t g algid keyid s)"
| "lockout_step s (Lockout_release t g) = fst (enc_lockout_release t g s)"
| "lockout_step s Lockout_bump = enc_lockout_bump_key_epoch s"
| "lockout_step s Lockout_clear = enc_lockout_clear_all s"

lemma holds_congs:
  "holds_key (enc_lockout_bump_key_epoch s) i k = holds_key s i k"
  "\<not> holds_key (enc_lockout_clear_all s) i k"
  "\<not> holds_key enc_lockout_init i k"
  by (auto simp: holds_key_def enc_lockout_bump_key_epoch_def enc_lockout_clear_all_def enc_lockout_init_def
      zero_entry_def)

lemma lockout_inv_init: "lockout_inv enc_lockout_init"
  unfolding lockout_inv_def using holds_congs(3) by (simp) (simp add: enc_lockout_init_def)

lemma holds_release:
  assumes "lockout_inv s"
  shows "holds_key (fst (enc_lockout_release t g s)) j k \<longleftrightarrow> holds_key s j k \<and> k \<noteq> (t, g)"
proof (cases "enc_lockout_find t g s")
  case None
  then have "\<not> holds_key s j (t, g)" using find_iff [OF assms, of t g j] by simp
  then show ?thesis using None by (auto simp: enc_lockout_release_def)
next
  case (Some i)
  then have h: "holds_key s i (t, g)" using find_iff [OF assms] by simp
  then have "t \<noteq> 0" using holds_nonzero [OF assms] by force
  then have "holds_key (fst (enc_lockout_release t g s)) j k \<longleftrightarrow> j \<noteq> i \<and> holds_key s j k"
    using Some h by (auto simp: enc_lockout_release_def holds_key_def nth_list_update zero_entry_def)
  moreover have "j \<noteq> i \<longleftrightarrow> k \<noteq> (t, g)" if "holds_key s j k"
    using that h holds_unique [OF assms, of j "(t, g)" i] by (metis holds_key_def)
  ultimately show ?thesis by blast
qed

lemma lockout_inv_release [inv_intros]:
  assumes "lockout_inv s"
  shows "lockout_inv (fst (enc_lockout_release t g s))"
proof -
  have "length (lockout_entries (fst (enc_lockout_release t g s))) = length (lockout_entries s)"
    by (simp add: enc_lockout_release_def split: option.split)
  then show ?thesis using assms unfolding lockout_inv_def holds_release [OF assms] by auto
qed

lemma lockout_inv_step: "lockout_inv s \<Longrightarrow> lockout_inv (lockout_step s op)"
proof (cases op)
  case Lockout_bump
  assume "lockout_inv s"
  then show ?thesis unfolding Lockout_bump lockout_step.simps lockout_inv_def holds_congs
    by (simp add: enc_lockout_bump_key_epoch_def)
next
  case Lockout_clear
  then show ?thesis by (simp add: lockout_inv_def holds_congs) (simp add: enc_lockout_clear_all_def)
qed (auto intro: inv_intros)

lemma epoch_inv_note: "epoch_inv s \<Longrightarrow> lockout_inv s \<Longrightarrow> epoch_inv (fst (enc_lockout_note now t g algid keyid s))"
proof (cases "t = 0")
  case False
  assume e: "epoch_inv s" and inv: "lockout_inv s"
  obtain i x where "i < length (lockout_entries s)" "le_key_epoch x = lockout_key_epoch s"
    "fst (enc_lockout_note now t g algid keyid s) =
       s\<lparr>lockout_entries := (lockout_entries s)[i := x], lockout_seq := lockout_seq s + 1\<rparr>"
    using note_effect [OF inv False] by metis
  then show ?thesis using e by (auto simp: epoch_inv_def dest!: set_update_subset_insert [THEN subsetD])
qed (simp add: enc_lockout_note_def)

lemma epoch_inv_step:
  assumes "epoch_inv s" "lockout_inv s" "lockout_key_epoch s \<noteq> - 1"
  shows "epoch_inv (lockout_step s op)"
proof (cases op)
  case Lockout_bump
  have "x \<le> lockout_key_epoch s + 1" if "x \<le> lockout_key_epoch s" for x
    using that word_less_succ [OF assms(3)] by simp
  with assms(1) show ?thesis by (auto simp: Lockout_bump epoch_inv_def enc_lockout_bump_key_epoch_def)
next
  case (Lockout_release t g)
  then show ?thesis using assms(1)
    by (auto simp: epoch_inv_def enc_lockout_release_def zero_entry_def
        dest!: set_update_subset_insert [THEN subsetD] split: option.split)
next
  case Lockout_clear
  then show ?thesis by (simp add: epoch_inv_def enc_lockout_clear_all_def zero_entry_def)
qed (use assms epoch_inv_note in auto)

lemma key_epoch_step:
  "unat (lockout_key_epoch (lockout_step s op)) \<le> Suc (unat (lockout_key_epoch s))"
  if "lockout_key_epoch s \<noteq> - 1"
proof (cases op)
  case Lockout_bump
  have "unat (lockout_key_epoch s + 1) = Suc (unat (lockout_key_epoch s))"
    using word_succ_nonzero [OF that] by (metis unatSuc add.commute)
  then show ?thesis by (simp add: Lockout_bump enc_lockout_bump_key_epoch_def)
qed (auto simp: enc_lockout_note_def enc_lockout_release_def enc_lockout_clear_all_def Let_def split: option.split)

lemma run_invs:
  "length ops < 2 ^ 64 - 2 \<Longrightarrow>
     lockout_inv (foldl lockout_step enc_lockout_init ops) \<and> epoch_inv (foldl lockout_step enc_lockout_init ops) \<and>
     unat (lockout_key_epoch (foldl lockout_step enc_lockout_init ops)) \<le> Suc (length ops)"
proof (induction ops rule: rev_induct)
  case Nil
  show ?case by (simp add: lockout_inv_init) (simp add: epoch_inv_def enc_lockout_init_def zero_entry_def)
next
  case (snoc op ops)
  let ?s = "foldl lockout_step enc_lockout_init ops"
  have ih: "lockout_inv ?s" "epoch_inv ?s" "unat (lockout_key_epoch ?s) \<le> Suc (length ops)" using snoc by auto
  have "unat (lockout_key_epoch ?s) < 2 ^ 64 - 1" using ih(3) snoc.prems by simp
  moreover have "unat (- 1 :: u64) = 2 ^ 64 - 1" by (simp add: unsigned_minus_1_eq_mask mask_eq_exp_minus_1)
  ultimately have nw: "lockout_key_epoch ?s \<noteq> - 1" by (metis less_irrefl)
  show ?case using lockout_inv_step [OF ih(1), of op] epoch_inv_step [OF ih(2,1) nw, of op] key_epoch_step [OF nw, of op] ih(3)
    by simp
qed

section \<open>Properties\<close>

lemma entry_active_iff:
  assumes "lockout_inv s"
  shows "enc_lockout_entry_active t g s \<longleftrightarrow>
     (\<exists>i. holds_key s i (t, g) \<and> le_key_epoch (lockout_entries s ! i) = lockout_key_epoch s)"
proof (cases "enc_lockout_find t g s")
  case None
  then show ?thesis using find_iff [OF assms, of t g] by (simp add: enc_lockout_entry_active_def)
next
  case (Some i)
  then have "holds_key s i (t, g)" using find_iff [OF assms] by simp
  then show ?thesis using Some holds_unique [OF assms] by (auto simp: enc_lockout_entry_active_def)
qed

lemma note_locks:
  assumes "lockout_inv s" "t \<noteq> 0"
  shows "enc_lockout_entry_active t g (fst (enc_lockout_note now t g algid keyid s)) \<and>
         (snd (enc_lockout_note now t g algid keyid s) \<longleftrightarrow> \<not> enc_lockout_entry_active t g s)"
proof -
  obtain i e where n: "i < length (lockout_entries s)" "le_in_use e" "entry_key e = (t, g)"
    "le_key_epoch e = lockout_key_epoch s"
    "fst (enc_lockout_note now t g algid keyid s) =
       s\<lparr>lockout_entries := (lockout_entries s)[i := e], lockout_seq := lockout_seq s + 1\<rparr>"
    "holds_key s i (t, g) \<and>
       (snd (enc_lockout_note now t g algid keyid s) \<longleftrightarrow> le_key_epoch (lockout_entries s ! i) \<noteq> lockout_key_epoch s)
     \<or> \<not> lockout_mem s (t, g) \<and> snd (enc_lockout_note now t g algid keyid s)"
    using note_effect [OF assms] by metis
  let ?s = "fst (enc_lockout_note now t g algid keyid s)"
  have "holds_key ?s i (t, g)" "le_key_epoch (lockout_entries ?s ! i) = lockout_key_epoch ?s"
    using n(1-4) unfolding n(5) by (simp_all add: holds_update)
  then have "enc_lockout_entry_active t g ?s"
    using entry_active_iff [OF lockout_inv_note [OF assms(1)]] by blast
  moreover have "snd (enc_lockout_note now t g algid keyid s) \<longleftrightarrow> \<not> enc_lockout_entry_active t g s"
    using n(6) mem_iff [OF assms(1), of "(t, g)"] entry_active_iff [OF assms(1), of t g]
      holds_unique [OF assms(1)] by metis
  ultimately show ?thesis by simp
qed

text \<open>A confirmation locks the target at the current key epoch, and it reports a new lock exactly
  when the target was not locked before: on the first confirmation, after an eviction or a release,
  and on the first confirmation after the key material changed.\<close>

theorem note_locks_exactly:
  assumes "lockout_inv s" "t \<noteq> 0"
  shows "enc_lockout_entry_active t g (fst (enc_lockout_note now t g algid keyid s)) \<and>
         (snd (enc_lockout_note now t g algid keyid s) \<longleftrightarrow> \<not> enc_lockout_entry_active t g s)"
  by (rule note_locks [OF assms])

theorem note_locks_exactly_witness:
  "snd (enc_lockout_note 100 4660 True 0x84 1 enc_lockout_init) \<and>
   \<not> snd (enc_lockout_note 101 4660 True 0x84 1 (fst (enc_lockout_note 100 4660 True 0x84 1 enc_lockout_init)))"
proof -
  let ?s = "fst (enc_lockout_note 100 4660 True 0x84 1 enc_lockout_init)"
  have "\<not> enc_lockout_entry_active 4660 True enc_lockout_init"
    unfolding entry_active_iff [OF lockout_inv_init] using holds_congs(3) by blast
  then have "snd (enc_lockout_note 100 4660 True 0x84 1 enc_lockout_init)" "enc_lockout_entry_active 4660 True ?s"
    using note_locks_exactly [OF lockout_inv_init, where t = 4660 and g = True and now = 100 and algid = "0x84" and keyid = 1]
    by simp_all
  moreover have "lockout_inv ?s" by (rule lockout_inv_note [OF lockout_inv_init])
  ultimately show ?thesis
    using note_locks_exactly [where s = ?s and t = 4660 and g = True and now = 101 and algid = "0x84" and keyid = 1]
    by simp
qed

text \<open>A confirmation of one target forgets another locked target only under pressure, and then
  the least valuable one: the ledger is full, every one of its entries is locked at the current
  epoch (a stale entry would have gone first), and the lost target was the one confirmed longest
  ago.\<close>

theorem eviction_only_under_pressure:
  assumes "lockout_inv s" "enc_lockout_entry_active t' g' s"
    "\<not> enc_lockout_entry_active t' g' (fst (enc_lockout_note now t g algid keyid s))"
  shows "(\<forall>e\<in>set (lockout_entries s). le_in_use e \<and> le_key_epoch e = lockout_key_epoch s) \<and>
         (\<exists>i. enc_lockout_find t' g' s = Some i \<and>
            (\<forall>e\<in>set (lockout_entries s). le_last_seq (lockout_entries s ! i) \<le> le_last_seq e))"
proof -
  have t: "t \<noteq> 0" using assms(2,3) by (auto simp: enc_lockout_note_def)
  obtain j where j: "holds_key s j (t', g')" "le_key_epoch (lockout_entries s ! j) = lockout_key_epoch s"
    using assms(2) entry_active_iff [OF assms(1)] by blast
  obtain i e where n: "i < length (lockout_entries s)" "le_in_use e" "entry_key e = (t, g)"
    "le_key_epoch e = lockout_key_epoch s"
    "fst (enc_lockout_note now t g algid keyid s) =
       s\<lparr>lockout_entries := (lockout_entries s)[i := e], lockout_seq := lockout_seq s + 1\<rparr>"
    "holds_key s i (t, g) \<or> \<not> le_in_use (lockout_entries s ! i) \<or> list_all le_in_use (lockout_entries s) \<and>
        (\<forall>x\<in>set (lockout_entries s).
           evict_rank (lockout_key_epoch s) (lockout_entries s ! i) \<le> evict_rank (lockout_key_epoch s) x)"
    using note_effect [OF assms(1) t] by metis
  let ?s = "fst (enc_lockout_note now t g algid keyid s)"
  have keep: "\<not> holds_key ?s k (t', g') \<or> le_key_epoch (lockout_entries ?s ! k) \<noteq> lockout_key_epoch s" for k
    using assms(3) unfolding entry_active_iff [OF lockout_inv_note [OF assms(1)]] by (simp add: n(5))
  have ij: "i = j"
    using keep [of j] j n(1) unfolding n(5) by (auto simp: holds_update nth_list_update split: if_splits)
  have "(t, g) \<noteq> (t', g')" using keep [of i] n(1-4) unfolding n(5) by (auto simp: holds_update)
  then have full: "list_all le_in_use (lockout_entries s)" and
    rank: "\<forall>x\<in>set (lockout_entries s). evict_rank (lockout_key_epoch s) (lockout_entries s ! j) \<le> evict_rank (lockout_key_epoch s) x"
    using n(6) j(1) ij by (auto simp: holds_key_def)
  have cur: "le_key_epoch x = lockout_key_epoch s" if "x \<in> set (lockout_entries s)" for x
    using rank that j(2) unat_u64_less [of "le_last_seq x"] by (fastforce simp: evict_rank_def split: if_splits)
  have "le_last_seq (lockout_entries s ! j) \<le> le_last_seq x" if "x \<in> set (lockout_entries s)" for x
    using rank that j(2) cur [OF that] by (auto simp: evict_rank_def word_le_nat_alt)
  moreover have "enc_lockout_find t' g' s = Some j" using find_iff [OF assms(1)] j(1) by simp
  ultimately show ?thesis using full cur by (auto simp: list_all_iff)
qed

text \<open>A ledger with 128 current entries, for the witness.\<close>

definition nth_word :: "nat \<Rightarrow> 'w::len word" where
  "nth_word i = of_nat (Suc i)"

definition full_entry :: "nat \<Rightarrow> lockout_entry" where
  "full_entry i = \<lparr>le_key_epoch = 1, le_last_seq = nth_word i, le_last_seen = 0, le_target = nth_word i,
     le_hits = 1, le_algid = ALGID_UNKNOWN, le_keyid = 0, le_is_group = True, le_in_use = True\<rparr>"

definition full_ledger :: lockout where
  "full_ledger = \<lparr>lockout_entries = map full_entry [0..<ENC_LOCKOUT_MAX], lockout_key_epoch = 1, lockout_seq = 128\<rparr>"

lemma unat_nth_word:
  "i < ENC_LOCKOUT_MAX \<Longrightarrow> unat (nth_word i :: u32) = Suc i"
  "i < ENC_LOCKOUT_MAX \<Longrightarrow> unat (nth_word i :: u64) = Suc i"
  unfolding nth_word_def ENC_LOCKOUT_MAX_def
  by (simp_all add: unsigned_of_nat take_bit_nat_eq_self del: of_nat_Suc)

lemma full_nth:
  "i < ENC_LOCKOUT_MAX \<Longrightarrow> lockout_entries full_ledger ! i = full_entry i"
  "length (lockout_entries full_ledger) = ENC_LOCKOUT_MAX" "lockout_key_epoch full_ledger = 1"
  by (simp_all add: full_ledger_def)

lemma full_entry_fields: "le_in_use (full_entry i)" "entry_key (full_entry i) = (nth_word i, True)"
  by (simp_all add: full_entry_def entry_key_def)

lemma full_holds: "holds_key full_ledger i k \<longleftrightarrow> i < ENC_LOCKOUT_MAX \<and> k = (nth_word i, True)"
  using full_nth(1) [of i] full_entry_fields [of i] unfolding holds_key_def full_nth(2)
  by (cases "i < ENC_LOCKOUT_MAX") auto

lemma full_inv: "lockout_inv full_ledger"
proof -
  have "i = j" if "i < ENC_LOCKOUT_MAX" "j < ENC_LOCKOUT_MAX" "(nth_word i :: u32) = nth_word j" for i j
    by (metis Suc_inject that unat_nth_word(1))
  moreover have "(nth_word i :: u32) \<noteq> 0" if "i < ENC_LOCKOUT_MAX" for i
    using unat_nth_word(1) [OF that] by auto
  ultimately show ?thesis unfolding lockout_inv_def full_holds by (auto simp: full_nth(2))
qed

theorem eviction_only_under_pressure_witness:
  "enc_lockout_entry_active 1 True full_ledger \<and>
   \<not> enc_lockout_entry_active 1 True (fst (enc_lockout_note 9 4660 False (- 1) 0 full_ledger)) \<and>
   (\<exists>i. enc_lockout_find 1 True full_ledger = Some i)"
proof -
  let ?s = "fst (enc_lockout_note 9 4660 False (- 1) 0 full_ledger)"
  have pos: "0 < ENC_LOCKOUT_MAX" by (simp add: ENC_LOCKOUT_MAX_def)
  have "holds_key full_ledger 0 (1, True)" unfolding full_holds using pos by (simp add: nth_word_def)
  moreover have "le_key_epoch (lockout_entries full_ledger ! 0) = lockout_key_epoch full_ledger"
    using full_nth(1) [OF pos] full_nth(3) by (simp add: full_entry_def)
  ultimately have a: "enc_lockout_entry_active 1 True full_ledger"
    unfolding entry_active_iff [OF full_inv] by blast
  obtain i e where n: "i < length (lockout_entries full_ledger)" "le_in_use e" "entry_key e = (4660, False)"
    "?s = full_ledger\<lparr>lockout_entries := (lockout_entries full_ledger)[i := e],
        lockout_seq := lockout_seq full_ledger + 1\<rparr>"
    "holds_key full_ledger i (4660, False) \<or> \<not> le_in_use (lockout_entries full_ledger ! i) \<or>
        (\<forall>x\<in>set (lockout_entries full_ledger). evict_rank (lockout_key_epoch full_ledger)
           (lockout_entries full_ledger ! i) \<le> evict_rank (lockout_key_epoch full_ledger) x)"
    by (rule note_effect [OF full_inv, where t = 4660 and g = False and now = 9 and algid = "- 1" and keyid = 0])
      (simp, blast)
  note len = full_nth(2,3)
  have "\<not> holds_key full_ledger i (4660, False)" by (simp add: full_holds)
  moreover have "le_in_use (lockout_entries full_ledger ! i)" using full_nth(1) n(1) len by (simp add: full_entry_def)
  moreover have "lockout_entries full_ledger ! 0 \<in> set (lockout_entries full_ledger)"
    using pos len by (intro nth_mem) simp
  ultimately have "evict_rank 1 (lockout_entries full_ledger ! i) \<le> evict_rank 1 (lockout_entries full_ledger ! 0)"
    using n(5) len(2) by auto
  then have "unat (nth_word i :: u64) \<le> unat (nth_word 0 :: u64)"
    using full_nth(1) n(1) len pos by (simp add: evict_rank_def full_entry_def)
  then have i: "i = 0" using unat_nth_word(2) n(1) len pos by simp
  have "\<not> holds_key ?s j (1, True)" for j
  proof
    assume h: "holds_key ?s j (1, True)"
    then have "j \<noteq> 0" "holds_key full_ledger j (1, True)"
      using n(1-3) i unfolding n(4) by (auto simp: holds_update split: if_splits)
    moreover have "holds_key full_ledger 0 (1, True)" unfolding full_holds using pos by (simp add: nth_word_def)
    ultimately show False using holds_unique [OF full_inv] by blast
  qed
  then have b: "\<not> enc_lockout_entry_active 1 True ?s"
    unfolding entry_active_iff [OF lockout_inv_note [OF full_inv]] by blast
  show ?thesis using eviction_only_under_pressure [OF full_inv a b] a b by blast
qed

text \<open>New key material unlocks everything once. After any run of the ledger and a change of key
  material no target is blocked, yet no entry is forgotten, so the next confirmation of a remembered
  target locks it again and is reported as a new lock.\<close>

theorem key_change_unlocks_all:
  assumes "length ops < 2 ^ 64 - 2"
  shows "let s = foldl lockout_step enc_lockout_init ops; s' = enc_lockout_bump_key_epoch s in
     \<not> enc_lockout_is_blocked opt t g s' \<and> enc_lockout_active_count s' = 0 \<and>
     enc_lockout_lookup t g s' = enc_lockout_lookup t g s \<and>
     (t \<noteq> 0 \<longrightarrow> snd (enc_lockout_note now t g algid keyid s'))"
proof -
  let ?s = "foldl lockout_step enc_lockout_init ops"
  let ?b = "enc_lockout_bump_key_epoch ?s"
  have i: "lockout_inv ?s" "epoch_inv ?s" "unat (lockout_key_epoch ?s) \<le> Suc (length ops)"
    using run_invs [OF assms] by auto
  have ib: "lockout_inv ?b" using lockout_inv_step [OF i(1), of Lockout_bump] by simp
  have "unat (lockout_key_epoch ?s) < 2 ^ 64 - 1" using i(3) assms by simp
  moreover have "unat (- 1 :: u64) = 2 ^ 64 - 1" by (simp add: unsigned_minus_1_eq_mask mask_eq_exp_minus_1)
  ultimately have "lockout_key_epoch ?s \<noteq> - 1" by (metis less_irrefl)
  note less = word_less_succ [OF this]
  have stale: "\<not> (le_in_use e \<and> le_key_epoch e = lockout_key_epoch ?b)" if "e \<in> set (lockout_entries ?b)" for e
    using that i(2) less by (auto simp: epoch_inv_def enc_lockout_bump_key_epoch_def dest: leD)
  then have inact: "\<not> enc_lockout_entry_active t g ?b"
    unfolding entry_active_iff [OF ib] holds_key_def by (metis nth_mem)
  moreover have "enc_lockout_active_count ?b = 0"
    using stale by (simp add: enc_lockout_active_count_def count_if_eq_0_iff)
  moreover have "enc_lockout_lookup t g ?b = enc_lockout_lookup t g ?s"
    by (simp add: enc_lockout_lookup_def enc_lockout_find_def enc_lockout_bump_key_epoch_def)
  moreover have "t \<noteq> 0 \<longrightarrow> snd (enc_lockout_note now t g algid keyid ?b)"
    using note_locks [OF ib] inact by simp
  ultimately show ?thesis by (simp add: Let_def enc_lockout_is_blocked_def)
qed

theorem key_change_unlocks_all_witness:
  "\<not> enc_lockout_is_blocked False 7 True
      (enc_lockout_bump_key_epoch (foldl lockout_step enc_lockout_init [Lockout_note 5 7 True 0x84 1]))"
  using key_change_unlocks_all [of "[Lockout_note 5 7 True 0x84 1]"] by (simp add: Let_def)

text \<open>The ledger remembers for the session: as long as no more than 128 distinct targets are
  confirmed, every confirmed target stays locked, however often and in whatever order they are
  confirmed.\<close>

theorem lockout_remembers:
  assumes "card (set (map snd notes)) \<le> ENC_LOCKOUT_MAX" "(t, g) \<in> set (map snd notes)"
    "list_all (\<lambda>(_, k). fst k \<noteq> 0) notes"
  shows "enc_lockout_entry_active t g (lockout_table.put_all notes enc_lockout_init)"
proof -
  let ?s = "lockout_table.put_all notes enc_lockout_init"
  have inv: "lockout_inv ?s" by (rule lockout_table.inv_put_all [OF lockout_inv_init])
  have none: "{k. lockout_mem enc_lockout_init k} = {}" using mem_iff [OF lockout_inv_init] holds_congs(3) by auto
  have "card (snd ` set notes \<union> {k. lockout_mem enc_lockout_init k}) \<le> ENC_LOCKOUT_MAX"
    unfolding none using assms(1) by simp
  moreover have "\<forall>k\<in>snd ` set notes. fst k \<noteq> 0" using assms(3) by (auto simp: list_all_iff)
  ultimately have "{k. lockout_mem ?s k} = snd ` set notes \<union> {k. lockout_mem enc_lockout_init k}"
    by (intro lockout_table.put_all_keeps [OF lockout_inv_init])
  then have "lockout_mem ?s (t, g)" using assms(2) by auto
  then obtain i where i: "holds_key ?s i (t, g)" using mem_iff [OF inv] by blast
  have cur: "\<forall>e\<in>set (lockout_entries (lockout_table.put_all ns s)). le_in_use e \<longrightarrow>
      le_key_epoch e = lockout_key_epoch (lockout_table.put_all ns s)"
    if "lockout_inv s" "\<forall>e\<in>set (lockout_entries s). le_in_use e \<longrightarrow> le_key_epoch e = lockout_key_epoch s" for ns s
    using that
  proof (induction ns arbitrary: s)
    case (Cons n ns)
    obtain now algid keyid t g where n: "n = ((now, algid, keyid), (t, g))" by (metis prod.collapse)
    have "\<forall>e\<in>set (lockout_entries (fst (enc_lockout_note now t g algid keyid s))). le_in_use e \<longrightarrow>
        le_key_epoch e = lockout_key_epoch (fst (enc_lockout_note now t g algid keyid s))"
    proof (cases "t = 0")
      case False
      obtain i x where "le_key_epoch x = lockout_key_epoch s"
        "fst (enc_lockout_note now t g algid keyid s) =
          s\<lparr>lockout_entries := (lockout_entries s)[i := x], lockout_seq := lockout_seq s + 1\<rparr>"
        using note_effect [OF Cons.prems(1) False] by metis
      then show ?thesis using Cons.prems(2) by (auto dest!: set_update_subset_insert [THEN subsetD])
    qed (use Cons.prems(2) in \<open>simp add: enc_lockout_note_def\<close>)
    moreover have "lockout_table.put_all (n # ns) s =
        lockout_table.put_all ns (fst (enc_lockout_note now t g algid keyid s))"
      unfolding n lockout_table.put_all_simps by (simp add: lockout_put_def)
    ultimately show ?case using Cons.IH [OF lockout_inv_note [OF Cons.prems(1)]] by simp
  qed (simp add: lockout_table.put_all_simps)
  have "le_key_epoch (lockout_entries ?s ! i) = lockout_key_epoch ?s"
    using i cur [OF lockout_inv_init, where ns = "notes"]
    by (auto simp: holds_key_def enc_lockout_init_def zero_entry_def)
  then show ?thesis using entry_active_iff [OF inv] i by blast
qed

theorem lockout_remembers_witness:
  "enc_lockout_entry_active 7 True
     (lockout_table.put_all [((1, 0x84, 2), (7, True)), ((2, - 1, 0), (9, False))] enc_lockout_init)"
  by (rule lockout_remembers) (simp_all add: ENC_LOCKOUT_MAX_def)

end
