(* ===== verification/P25_Patch.thy ===== *)
theory P25_Patch
  imports Bounded_Table
begin

text \<open>
  The P25 regroup/patch table of \<open>src/protocol/p25/p25_patch.c\<close>: eight super groups, each with up to
  eight talkgroup and eight unit members and the key, algorithm and session context of the regroup
  commands. The decoder state keeps one array per field; here the eight entries are records. Entries
  older than 20 seconds of wall clock are stale. An operation that reads the clock takes one
  argument \<open>now\<close> for all its readings. The \<open>int\<close> group ids are converted with the source's casts.
\<close>

section \<open>Data model\<close>

definition P25_PATCH_TTL_SECONDS :: int where
  "P25_PATCH_TTL_SECONDS = 20"

record patch_entry =
  pe_sgid :: u16
  pe_is_patch :: bool
  pe_active :: bool
  pe_last_update :: wall_s
  pe_wgid_count :: nat
  pe_wgid :: "u16 list"
  pe_wuid_count :: nat
  pe_wuid :: "u32 list"
  pe_key :: u16
  pe_alg :: u8
  pe_ssn :: u8
  pe_key_valid :: bool

record patch_table =
  patch_count :: int
  patch_entries :: "patch_entry list"

definition empty_patch :: patch_entry where
  "empty_patch = \<lparr>pe_sgid = 0, pe_is_patch = False, pe_active = False, pe_last_update = 0,
     pe_wgid_count = 0, pe_wgid = replicate 8 0, pe_wuid_count = 0, pe_wuid = replicate 8 0,
     pe_key = 0, pe_alg = 0, pe_ssn = 0, pe_key_valid = False\<rparr>"

definition patch_boot :: patch_table where
  "patch_boot = \<lparr>patch_count = 0, patch_entries = replicate 8 empty_patch\<rparr>"

text \<open>The entries that the loops \<open>i < p25_patch_count && i < 8\<close> visit.\<close>

definition patch_live :: "patch_table \<Rightarrow> patch_entry list" where
  "patch_live s = take (nat (patch_count s)) (patch_entries s)"

definition set_patch :: "nat \<Rightarrow> patch_entry \<Rightarrow> patch_table \<Rightarrow> patch_table" where
  "set_patch i e s = s\<lparr>patch_entries := (patch_entries s)[i := e]\<rparr>"

section \<open>Operations\<close>

definition find_patch_idx :: "u16 \<Rightarrow> patch_table \<Rightarrow> nat option" where
  "find_patch_idx sgid s = find_index (\<lambda>e. pe_sgid e = sgid) (patch_live s)"

definition patch_entry_is_stale :: "wall_s \<Rightarrow> patch_entry \<Rightarrow> bool" where
  "patch_entry_is_stale now e \<longleftrightarrow>
     pe_last_update e > 0 \<and> now - pe_last_update e > P25_PATCH_TTL_SECONDS"

definition patch_clear_entry_context :: "patch_entry \<Rightarrow> patch_entry" where
  "patch_clear_entry_context e =
     e\<lparr>pe_wgid_count := 0, pe_wuid_count := 0, pe_wgid := replicate 8 0, pe_wuid := replicate 8 0,
       pe_key := 0, pe_alg := 0, pe_ssn := 0, pe_key_valid := False\<rparr>"

fun oldest_loop :: "nat \<Rightarrow> patch_entry list \<Rightarrow> wall_s \<Rightarrow> nat \<Rightarrow> nat" where
  "oldest_loop i [] oldest repl = repl"
| "oldest_loop i (e # es) oldest repl =
     (if pe_last_update e < oldest then oldest_loop (Suc i) es (pe_last_update e) i
      else oldest_loop (Suc i) es oldest repl)"

definition patch_replacement_idx :: "patch_table \<Rightarrow> bool \<Rightarrow> wall_s \<Rightarrow> nat option" where
  "patch_replacement_idx s active now =
     (case find_index (\<lambda>e. \<not> pe_active e) (patch_entries s) of
        Some i \<Rightarrow> Some i
      | None \<Rightarrow>
          (case find_index (patch_entry_is_stale now) (patch_entries s) of
             Some i \<Rightarrow> Some i
           | None \<Rightarrow>
               if \<not> active then None
               else Some (oldest_loop 1 (tl (patch_entries s)) (pe_last_update (hd (patch_entries s))) 0)))"

text \<open>The compaction: \<open>n\<close> iterations are left, \<open>i\<close> reads and \<open>w\<close> writes.\<close>

fun sweep_loop :: "wall_s \<Rightarrow> nat \<Rightarrow> nat \<Rightarrow> nat \<Rightarrow> patch_entry list \<Rightarrow> patch_entry list \<times> nat" where
  "sweep_loop now 0 i w es = (es, w)"
| "sweep_loop now (Suc n) i w es =
     (if patch_entry_is_stale now (es ! i) then sweep_loop now n (Suc i) w es
      else sweep_loop now n (Suc i) (Suc w) (if w \<noteq> i then es[w := es ! i] else es))"

definition patch_sweep_stale :: "wall_s \<Rightarrow> patch_table \<Rightarrow> patch_table" where
  "patch_sweep_stale now s =
     (let (es, w) = sweep_loop now (min (nat (patch_count s)) 8) 0 0 (patch_entries s)
      in s\<lparr>patch_entries := es, patch_count := int w\<rparr>)"

definition p25_patch_update :: "wall_s \<Rightarrow> int \<Rightarrow> bool \<Rightarrow> bool \<Rightarrow> patch_table \<Rightarrow> patch_table" where
  "p25_patch_update now sgid is_patch active s =
     (if sgid \<le> 0 \<or> sgid > 0xFFFF then s
      else case find_patch_idx (word_of_int sgid) s of
        Some i \<Rightarrow> set_patch i ((patch_entries s ! i)
                    \<lparr>pe_is_patch := is_patch, pe_active := active, pe_last_update := now\<rparr>) s
      | None \<Rightarrow>
          let idx = (if patch_count s < 0 then 0 else patch_count s);
              (s1, slot) = (if idx \<ge> 8
                 then (let s1 = s\<lparr>patch_count := 8\<rparr> in (s1, patch_replacement_idx s1 active now))
                 else (s\<lparr>patch_count := idx + 1\<rparr>, Some (nat idx)))
          in case slot of
               None \<Rightarrow> s1
             | Some i \<Rightarrow> set_patch i (patch_clear_entry_context ((patch_entries s1 ! i)
                   \<lparr>pe_sgid := word_of_int sgid, pe_is_patch := is_patch, pe_active := active,
                      pe_last_update := now\<rparr>)) s1)"

text \<open>Find the entry of a super group, creating it as an active patch when it is missing.\<close>

definition patch_find_or_create :: "wall_s \<Rightarrow> int \<Rightarrow> patch_table \<Rightarrow> patch_table \<times> nat option" where
  "patch_find_or_create now sgid s =
     (case find_patch_idx (word_of_int sgid) s of
        Some i \<Rightarrow> (s, Some i)
      | None \<Rightarrow> let s1 = p25_patch_update now sgid True True s in (s1, find_patch_idx (word_of_int sgid) s1))"

definition entry_add_wgid :: "u16 \<Rightarrow> patch_entry \<Rightarrow> patch_entry" where
  "entry_add_wgid w e =
     (if w \<in> set (take (pe_wgid_count e) (pe_wgid e)) then e
      else if pe_wgid_count e < 8
      then e\<lparr>pe_wgid := (pe_wgid e)[pe_wgid_count e := w], pe_wgid_count := pe_wgid_count e + 1\<rparr>
      else e)"

definition p25_patch_add_wgid :: "wall_s \<Rightarrow> int \<Rightarrow> int \<Rightarrow> patch_table \<Rightarrow> patch_table" where
  "p25_patch_add_wgid now sgid wgid s =
     (if sgid \<le> 0 \<or> sgid > 0xFFFF \<or> wgid \<le> 0 \<or> wgid > 0xFFFF then s
      else case patch_find_or_create now sgid s of
        (s1, None) \<Rightarrow> s1
      | (s1, Some i) \<Rightarrow> set_patch i (entry_add_wgid (word_of_int wgid) (patch_entries s1 ! i)) s1)"

definition entry_add_wuid :: "u32 \<Rightarrow> patch_entry \<Rightarrow> patch_entry" where
  "entry_add_wuid w e =
     (if w \<in> set (take (pe_wuid_count e) (pe_wuid e)) then e
      else if pe_wuid_count e < 8
      then e\<lparr>pe_wuid := (pe_wuid e)[pe_wuid_count e := w], pe_wuid_count := pe_wuid_count e + 1\<rparr>
      else e)"

definition p25_patch_add_wuid :: "wall_s \<Rightarrow> int \<Rightarrow> u32 \<Rightarrow> patch_table \<Rightarrow> patch_table" where
  "p25_patch_add_wuid now sgid wuid s =
     (if sgid \<le> 0 \<or> sgid > 0xFFFF \<or> wuid = 0 then s
      else case patch_find_or_create now sgid s of
        (s1, None) \<Rightarrow> s1
      | (s1, Some i) \<Rightarrow> set_patch i (entry_add_wuid wuid (patch_entries s1 ! i)) s1)"

text \<open>Removal swaps the last member into the hole, then deactivates an entry left without members.\<close>

definition entry_remove_wgid :: "u16 \<Rightarrow> patch_entry \<Rightarrow> patch_entry" where
  "entry_remove_wgid w e =
     (let cnt = pe_wgid_count e;
          e1 = (case find_index (\<lambda>x. x = w) (take cnt (pe_wgid e)) of
                  None \<Rightarrow> e
                | Some i \<Rightarrow> e\<lparr>pe_wgid := (if i \<noteq> cnt - 1 then (pe_wgid e)[i := pe_wgid e ! (cnt - 1)] else pe_wgid e),
                               pe_wgid_count := cnt - 1\<rparr>)
      in if pe_wgid_count e1 = 0 \<and> pe_wuid_count e1 = 0 then e1\<lparr>pe_active := False\<rparr> else e1)"

definition p25_patch_remove_wgid :: "int \<Rightarrow> int \<Rightarrow> patch_table \<Rightarrow> patch_table" where
  "p25_patch_remove_wgid sgid wgid s =
     (if sgid \<le> 0 \<or> wgid \<le> 0 then s
      else case find_patch_idx (word_of_int sgid) s of
        None \<Rightarrow> s
      | Some i \<Rightarrow> set_patch i (entry_remove_wgid (word_of_int wgid) (patch_entries s ! i)) s)"

definition p25_patch_clear_sg :: "wall_s \<Rightarrow> int \<Rightarrow> patch_table \<Rightarrow> patch_table" where
  "p25_patch_clear_sg now sgid s =
     (if sgid \<le> 0 then s
      else case find_patch_idx (word_of_int sgid) s of
        None \<Rightarrow> s
      | Some i \<Rightarrow> set_patch i ((patch_clear_entry_context (patch_entries s ! i))
                    \<lparr>pe_active := False, pe_last_update := now\<rparr>) s)"

definition p25_patch_prepare_grg_update ::
  "wall_s \<Rightarrow> int \<Rightarrow> bool \<Rightarrow> bool \<Rightarrow> int \<Rightarrow> patch_table \<Rightarrow> patch_table \<times> bool" where
  "p25_patch_prepare_grg_update now sgid is_patch active ssn s =
     (if sgid \<le> 0 \<or> sgid > 0xFFFF then (s, False)
      else
        let normalized_ssn = (if ssn \<ge> 0 then ssn AND 0x1F else - 1);
            idx = find_patch_idx (word_of_int sgid) s
        in if \<not> active then
             let s1 = (if idx = None then p25_patch_update now sgid is_patch False s else s);
                 s2 = p25_patch_clear_sg now sgid s1
             in (case find_patch_idx (word_of_int sgid) s2 of
                   Some i \<Rightarrow> set_patch i ((patch_entries s2 ! i)\<lparr>pe_is_patch := is_patch\<rparr>) s2
                 | None \<Rightarrow> s2, False)
           else
             let s1 = (case idx of
                   Some i \<Rightarrow>
                     (if pe_active (patch_entries s ! i) \<and> normalized_ssn \<ge> 0 \<and>
                         pe_ssn (patch_entries s ! i) \<noteq> word_of_int normalized_ssn
                      then set_patch i (patch_clear_entry_context (patch_entries s ! i)) s else s)
                 | None \<Rightarrow> s)
             in (p25_patch_update now sgid is_patch True s1, True))"

definition entry_set_kas :: "int \<Rightarrow> int \<Rightarrow> int \<Rightarrow> patch_entry \<Rightarrow> patch_entry" where
  "entry_set_kas key alg ssn e =
     (let e1 = (if key \<ge> 0 then e\<lparr>pe_key := word_of_int key, pe_key_valid := True\<rparr> else e);
          e2 = (if alg \<ge> 0 then e1\<lparr>pe_alg := word_of_int alg\<rparr> else e1)
      in if ssn \<ge> 0 then e2\<lparr>pe_ssn := word_of_int (ssn AND 0x1F)\<rparr> else e2)"

definition p25_patch_set_kas :: "wall_s \<Rightarrow> int \<Rightarrow> int \<Rightarrow> int \<Rightarrow> int \<Rightarrow> patch_table \<Rightarrow> patch_table" where
  "p25_patch_set_kas now sgid key alg ssn s =
     (if sgid \<le> 0 then s
      else case patch_find_or_create now sgid s of
        (s1, None) \<Rightarrow> s1
      | (s1, Some i) \<Rightarrow> set_patch i (entry_set_kas key alg ssn (patch_entries s1 ! i)) s1)"

fun tg_clear_loop :: "wall_s \<Rightarrow> u16 \<Rightarrow> patch_entry list \<Rightarrow> bool" where
  "tg_clear_loop now tg [] = False"
| "tg_clear_loop now tg (e # es) =
     (if \<not> pe_active e \<or> patch_entry_is_stale now e then tg_clear_loop now tg es
      else if tg \<in> set (take (pe_wgid_count e) (pe_wgid e)) then pe_key_valid e \<and> pe_key e = 0
      else tg_clear_loop now tg es)"

definition p25_patch_tg_key_is_clear :: "wall_s \<Rightarrow> int \<Rightarrow> patch_table \<Rightarrow> bool" where
  "p25_patch_tg_key_is_clear now tg s =
     (if tg \<le> 0 then False else tg_clear_loop now (word_of_int tg) (patch_live s))"

fun sg_clear_loop :: "wall_s \<Rightarrow> u16 \<Rightarrow> patch_entry list \<Rightarrow> bool" where
  "sg_clear_loop now sgid [] = False"
| "sg_clear_loop now sgid (e # es) =
     (if \<not> pe_active e \<or> pe_sgid e \<noteq> sgid \<or> patch_entry_is_stale now e then sg_clear_loop now sgid es
      else pe_key_valid e \<and> pe_key e = 0)"

definition p25_patch_sg_key_is_clear :: "wall_s \<Rightarrow> int \<Rightarrow> patch_table \<Rightarrow> bool" where
  "p25_patch_sg_key_is_clear now sgid s =
     (if sgid \<le> 0 then False else sg_clear_loop now (word_of_int sgid) (patch_live s))"

text \<open>The returned list is what is written to \<open>out\<close>, at most \<open>cap\<close> ids; the number is the full count.\<close>

definition p25_patch_collect_active_wgids :: "wall_s \<Rightarrow> int \<Rightarrow> nat \<Rightarrow> patch_table \<Rightarrow> u16 list \<times> nat" where
  "p25_patch_collect_active_wgids now sgid cap s =
     (if sgid \<le> 0 \<or> sgid > 0xFFFF then ([], 0)
      else case find_patch_idx (word_of_int sgid) s of
        None \<Rightarrow> ([], 0)
      | Some i \<Rightarrow>
          let e = patch_entries s ! i in
          if \<not> pe_active e \<or> patch_entry_is_stale now e then ([], 0)
          else let count = (if pe_wgid_count e > 8 then 8 else pe_wgid_count e)
               in (take (min count cap) (pe_wgid e), count))"

section \<open>The status line\<close>

text \<open>
  The \<open>snprintf\<close> formats used by the status line: decimal and upper-case hexadecimal, zero padded to
  a minimum width. The caller's buffer of \<open>cap\<close> bytes is the string written so far, without its
  terminator; \<open>n\<close> counts the characters that would have been written.
\<close>

definition digit_char :: "nat \<Rightarrow> char" where
  "digit_char d = ''0123456789ABCDEF'' ! d"

fun digits_base :: "nat \<Rightarrow> nat \<Rightarrow> string" where
  "digits_base b n =
     (if b < 2 \<or> n < b then [digit_char (n mod 16)] else digits_base b (n div b) @ [digit_char (n mod b mod 16)])"

declare digits_base.simps [simp del]

definition zero_pad :: "nat \<Rightarrow> string \<Rightarrow> string" where
  "zero_pad w ds = replicate (w - length ds) (CHR ''0'') @ ds"

definition fmt_dec :: "nat \<Rightarrow> nat \<Rightarrow> string" where
  "fmt_dec w n = zero_pad w (digits_base 10 n)"

definition fmt_hex :: "nat \<Rightarrow> nat \<Rightarrow> string" where
  "fmt_hex w n = zero_pad w (digits_base 16 n)"

definition p25_patch_append :: "nat \<Rightarrow> string \<Rightarrow> string \<times> nat \<Rightarrow> string \<times> nat" where
  "p25_patch_append cap txt b =
     (let (out, n) = b; rem = (if cap > n then cap - n else 0)
      in if rem = 0 then b else (out @ take (rem - 1) txt, n + length txt))"

definition patch_append_wg_summary :: "nat \<Rightarrow> patch_entry \<Rightarrow> string \<times> nat \<Rightarrow> string \<times> nat" where
  "patch_append_wg_summary cap e b =
     (let wgc = pe_wgid_count e in
      if wgc = 0 then b
      else if wgc \<le> 3 then
        fold (\<lambda>k. p25_patch_append cap ((if k = 0 then [] else '','') @ fmt_dec 4 (unat (pe_wgid e ! k))))
          [0..<min wgc 3] (p25_patch_append cap '' WG:'' b)
      else p25_patch_append cap ('' WG:'' @ fmt_dec 0 wgc @ ''('' @ fmt_dec 4 (unat (pe_wgid e ! 0)) @ '',''
             @ fmt_dec 4 (unat (pe_wgid e ! 1)) @ ''+)'') b)"

definition patch_append_crypt_summary :: "nat \<Rightarrow> patch_entry \<Rightarrow> string \<times> nat \<Rightarrow> string \<times> nat" where
  "patch_append_crypt_summary cap e b =
     (let b1 = (if pe_key e \<noteq> 0 then p25_patch_append cap ('' K:'' @ fmt_hex 4 (unat (pe_key e AND 0xFFFF))) b else b);
          b2 = (if pe_alg e \<noteq> 0 then p25_patch_append cap ('' A:'' @ fmt_hex 2 (unat (pe_alg e AND 0xFF))) b1 else b1)
      in if pe_ssn e \<noteq> 0 then p25_patch_append cap ('' S:'' @ fmt_dec 2 (unat (pe_ssn e AND 0x1F))) b2 else b2)"

definition compose_entry :: "nat \<Rightarrow> patch_entry \<Rightarrow> string \<times> nat \<Rightarrow> string \<times> nat" where
  "compose_entry cap e b =
     (let b1 = (if snd b > 0 then p25_patch_append cap ''; '' b else b);
          b2 = p25_patch_append cap (''SG'' @ fmt_dec 3 (unat (pe_sgid e)) @ ''[''
                 @ (if pe_is_patch e then ''P'' else ''S'') @ '']'') b1;
          b3 = (if pe_wgid_count e > 0 then patch_append_wg_summary cap e b2
                else if pe_wuid_count e > 0 then p25_patch_append cap ('' U:'' @ fmt_dec 0 (pe_wuid_count e)) b2
                else b2)
      in if pe_key e \<noteq> 0 \<or> pe_alg e \<noteq> 0 \<or> pe_ssn e \<noteq> 0 then patch_append_crypt_summary cap e b3 else b3)"

fun compose_loop :: "nat \<Rightarrow> patch_entry list \<Rightarrow> string \<times> nat \<Rightarrow> string \<times> nat" where
  "compose_loop cap [] b = b"
| "compose_loop cap (e # es) b =
     (if \<not> pe_active e then compose_loop cap es b
      else let b1 = compose_entry cap e b
           in if int (snd b1) \<ge> int cap - 8 then b1 else compose_loop cap es b1)"

definition p25_patch_compose_details :: "wall_s \<Rightarrow> nat \<Rightarrow> patch_table \<Rightarrow> patch_table \<times> string \<times> nat" where
  "p25_patch_compose_details now cap s =
     (if cap = 0 then (s, [], 0)
      else let s1 = patch_sweep_stale now s in (s1, compose_loop cap (patch_live s1) ([], 0)))"

section \<open>Invariant\<close>

definition entry_ok :: "patch_entry \<Rightarrow> bool" where
  "entry_ok e \<longleftrightarrow> length (pe_wgid e) = 8 \<and> length (pe_wuid e) = 8 \<and> pe_wgid_count e \<le> 8 \<and> pe_wuid_count e \<le> 8 \<and>
     distinct (take (pe_wgid_count e) (pe_wgid e)) \<and> distinct (take (pe_wuid_count e) (pe_wuid e))"

definition patch_inv :: "patch_table \<Rightarrow> bool" where
  "patch_inv s \<longleftrightarrow> length (patch_entries s) = 8 \<and> 0 \<le> patch_count s \<and> patch_count s \<le> 8 \<and>
     distinct (map pe_sgid (patch_live s)) \<and> list_all entry_ok (patch_entries s)"

lemma set_patch_simps [simp]:
  "patch_count (set_patch i e s) = patch_count s"
  "patch_entries (set_patch i e s) = (patch_entries s)[i := e]"
  "patch_live (set_patch i e s) = (patch_live s)[i := e]"
  by (simp_all add: set_patch_def patch_live_def take_update_swap)

lemma length_live: "patch_inv s \<Longrightarrow> length (patch_live s) = nat (patch_count s)"
  by (auto simp: patch_inv_def patch_live_def)

lemma live_nth: "patch_inv s \<Longrightarrow> i < length (patch_live s) \<Longrightarrow> patch_live s ! i = patch_entries s ! i"
  by (simp add: patch_live_def)

lemma live_sub: "e \<in> set (patch_live s) \<Longrightarrow> e \<in> set (patch_entries s)"
  unfolding patch_live_def by (rule in_set_takeD)

lemma find_patch_Some:
  assumes "patch_inv s" "find_patch_idx g s = Some i"
  shows "i < length (patch_live s)" "i < length (patch_entries s)" "pe_sgid (patch_entries s ! i) = g"
    "patch_live s ! i = patch_entries s ! i" "entry_ok (patch_entries s ! i)"
proof -
  show i: "i < length (patch_live s)" using assms(2) by (auto simp: find_patch_idx_def dest: find_index_less)
  show l: "patch_live s ! i = patch_entries s ! i" by (rule live_nth [OF assms(1) i])
  show "pe_sgid (patch_entries s ! i) = g"
    using assms(2) l by (auto simp: find_patch_idx_def dest: find_index_prop)
  show il: "i < length (patch_entries s)" using i by (simp add: patch_live_def)
  show "entry_ok (patch_entries s ! i)" using assms(1) il by (auto simp: patch_inv_def list_all_length)
qed

lemma find_patch_None: "find_patch_idx g s = None \<longleftrightarrow> g \<notin> pe_sgid ` set (patch_live s)"
  by (auto simp: find_patch_idx_def find_index_None_iff)

text \<open>Rewriting a known entry without changing its id keeps the table well formed.\<close>

lemma patch_inv_set:
  assumes "patch_inv s" "find_patch_idx g s = Some i" "pe_sgid e = g" "entry_ok e"
  shows "patch_inv (set_patch i e s)"
proof -
  note f = find_patch_Some [OF assms(1,2)]
  have "map pe_sgid ((patch_live s)[i := e]) = map pe_sgid (patch_live s)"
    using f assms(3) by (metis list_update_id map_update)
  then show ?thesis using assms(1,4) f(2)
    by (auto simp: patch_inv_def list_all_length nth_list_update)
qed

lemma entry_ok_ops [simp]:
  "entry_ok (patch_clear_entry_context e)"
  "entry_ok e \<Longrightarrow> entry_ok (entry_set_kas key alg ssn e)"
  "entry_ok (e\<lparr>pe_sgid := g\<rparr>) = entry_ok e" "entry_ok (e\<lparr>pe_is_patch := b\<rparr>) = entry_ok e"
  "entry_ok (e\<lparr>pe_active := b\<rparr>) = entry_ok e" "entry_ok (e\<lparr>pe_last_update := w\<rparr>) = entry_ok e"
  by (simp_all add: entry_ok_def patch_clear_entry_context_def entry_set_kas_def Let_def)

lemma entry_ok_add_wgid [simp]: "entry_ok e \<Longrightarrow> entry_ok (entry_add_wgid w e)"
  by (auto simp: entry_ok_def entry_add_wgid_def take_Suc_conv_app_nth)

lemma entry_ok_add_wuid [simp]: "entry_ok e \<Longrightarrow> entry_ok (entry_add_wuid w e)"
  by (auto simp: entry_ok_def entry_add_wuid_def take_Suc_conv_app_nth)

lemma remove_wgid_members:
  assumes "entry_ok e"
  shows "entry_ok (entry_remove_wgid w e)"
    and "set (take (pe_wgid_count (entry_remove_wgid w e)) (pe_wgid (entry_remove_wgid w e))) =
       set (take (pe_wgid_count e) (pe_wgid e)) - {w}"
proof -
  let ?c = "pe_wgid_count e" and ?r = "entry_remove_wgid w e"
  have "length (pe_wgid ?r) = 8 \<and> pe_wgid_count ?r \<le> ?c \<and> pe_wuid ?r = pe_wuid e \<and> pe_wuid_count ?r = pe_wuid_count e
      \<and> distinct (take (pe_wgid_count ?r) (pe_wgid ?r))
      \<and> set (take (pe_wgid_count ?r) (pe_wgid ?r)) = set (take ?c (pe_wgid e)) - {w}"
  proof (cases "find_index (\<lambda>x. x = w) (take ?c (pe_wgid e))")
    case None
    then have "w \<notin> set (take ?c (pe_wgid e))" by (auto simp: find_index_None_iff)
    then show ?thesis using None assms by (simp add: entry_remove_wgid_def Let_def entry_ok_def)
  next
    case (Some i)
    then have i: "i < ?c" "pe_wgid e ! i = w" using assms by (auto simp: entry_ok_def dest!: find_index_SomeD)
    let ?ys = "if i \<noteq> ?c - 1 then (pe_wgid e)[i := pe_wgid e ! (?c - 1)] else pe_wgid e"
    have r: "pe_wgid ?r = ?ys" "pe_wgid_count ?r = ?c - 1" "pe_wuid ?r = pe_wuid e" "pe_wuid_count ?r = pe_wuid_count e"
      by (simp_all add: entry_remove_wgid_def Let_def Some)
    have "distinct (take ?c (pe_wgid e))" "?c \<le> length (pe_wgid e)" using assms by (simp_all add: entry_ok_def)
    from swap_remove [OF this(1) i(1) this(2)] show ?thesis
      unfolding r i(2) using assms by (simp add: entry_ok_def)
  qed
  then show "entry_ok ?r" "set (take (pe_wgid_count ?r) (pe_wgid ?r)) = set (take ?c (pe_wgid e)) - {w}"
    using assms by (simp_all add: entry_ok_def)
qed

lemma entry_sgid_ops [simp]:
  "pe_sgid (patch_clear_entry_context e) = pe_sgid e"
  "pe_sgid (entry_set_kas key alg ssn e) = pe_sgid e"
  "pe_sgid (entry_add_wgid w e) = pe_sgid e" "pe_sgid (entry_add_wuid u e) = pe_sgid e"
  "pe_sgid (entry_remove_wgid w e) = pe_sgid e"
  by (simp_all add: patch_clear_entry_context_def entry_set_kas_def entry_add_wgid_def entry_add_wuid_def
      entry_remove_wgid_def Let_def split: option.split)

section \<open>Sweeping\<close>

lemma sweep_loop_compacts:
  assumes "i + n \<le> length es" "w \<le> i" "take w es = filter (\<lambda>e. \<not> patch_entry_is_stale now e) (take i es0)"
    "length es = length es0" "\<And>j. i \<le> j \<Longrightarrow> j < length es \<Longrightarrow> es ! j = es0 ! j"
  shows "case sweep_loop now n i w es of (es', w') \<Rightarrow>
     length es' = length es \<and> w' \<le> i + n \<and>
     take w' es' = filter (\<lambda>e. \<not> patch_entry_is_stale now e) (take (i + n) es0) \<and>
     set es' \<subseteq> set es"
  using assms
proof (induction n arbitrary: i w es)
  case (Suc n)
  have i: "i < length es" "es ! i = es0 ! i" using Suc.prems by simp_all
  have tk: "take (Suc i) es0 = take i es0 @ [es ! i]" using i Suc.prems(4) by (simp add: take_Suc_conv_app_nth)
  show ?case
  proof (cases "patch_entry_is_stale now (es ! i)")
    case True
    then show ?thesis using Suc.IH [of "Suc i" es w] Suc.prems by (simp add: tk)
  next
    case False
    let ?es = "if w \<noteq> i then es[w := es ! i] else es"
    have w: "w < length es" using Suc.prems i by simp
    have "take (Suc w) ?es = filter (\<lambda>e. \<not> patch_entry_is_stale now e) (take (Suc i) es0)"
      using Suc.prems(3) w False by (auto simp: tk take_Suc_conv_app_nth)
    moreover have "?es ! j = es0 ! j" if "Suc i \<le> j" "j < length ?es" for j
      using Suc.prems(2) Suc.prems(5) [of j] that by (simp split: if_splits)
    ultimately have "case sweep_loop now n (Suc i) (Suc w) ?es of (es', w') \<Rightarrow>
       length es' = length ?es \<and> w' \<le> Suc i + n \<and>
       take w' es' = filter (\<lambda>e. \<not> patch_entry_is_stale now e) (take (Suc i + n) es0) \<and> set es' \<subseteq> set ?es"
      using Suc.prems w by (intro Suc.IH) auto
    moreover have "set ?es \<subseteq> set es" using i(1) by (auto dest!: set_update_subset_insert [THEN subsetD])
    moreover have "length ?es = length es" by simp
    ultimately show ?thesis using False by (fastforce simp del: length_list_update split: prod.splits)
  qed
qed simp

lemma sweep_live:
  assumes "patch_inv s"
  shows "patch_live (patch_sweep_stale now s) = filter (\<lambda>e. \<not> patch_entry_is_stale now e) (patch_live s)"
    and "patch_inv (patch_sweep_stale now s)"
    and "set (patch_entries (patch_sweep_stale now s)) \<subseteq> set (patch_entries s)"
proof -
  let ?n = "min (nat (patch_count s)) 8"
  have n: "?n = nat (patch_count s)" "0 + ?n \<le> length (patch_entries s)" using assms by (auto simp: patch_inv_def)
  obtain es w where l: "sweep_loop now ?n 0 0 (patch_entries s) = (es, w)" by (cases "sweep_loop now ?n 0 0 (patch_entries s)")
  have c: "length es = length (patch_entries s)" "w \<le> ?n"
    "take w es = filter (\<lambda>e. \<not> patch_entry_is_stale now e) (patch_live s)" "set es \<subseteq> set (patch_entries s)"
    using sweep_loop_compacts [OF n(2), of 0 now "patch_entries s"] l [unfolded n(1)] n(1)
    by (simp_all add: patch_live_def)
  have s: "patch_sweep_stale now s = s\<lparr>patch_entries := es, patch_count := int w\<rparr>"
    by (simp add: patch_sweep_stale_def l)
  show live: "patch_live (patch_sweep_stale now s) = filter (\<lambda>e. \<not> patch_entry_is_stale now e) (patch_live s)"
    unfolding s using c(3) by (simp add: patch_live_def)
  show sub: "set (patch_entries (patch_sweep_stale now s)) \<subseteq> set (patch_entries s)" using c(4) by (simp add: s)
  have "distinct (map pe_sgid (patch_live (patch_sweep_stale now s)))"
    unfolding live using assms by (simp add: patch_inv_def distinct_map_filter)
  then show "patch_inv (patch_sweep_stale now s)"
    using assms c sub by (auto simp: patch_inv_def s list_all_iff)
qed

section \<open>Updating\<close>

lemma oldest_loop_min:
  "case oldest_loop i es oldest repl of r \<Rightarrow>
     r = repl \<and> (\<forall>e\<in>set es. oldest \<le> pe_last_update e) \<or>
     (\<exists>j<length es. r = i + j \<and> (\<forall>e\<in>set es. pe_last_update (es ! j) \<le> pe_last_update e) \<and> pe_last_update (es ! j) < oldest)"
proof (induction es arbitrary: i oldest repl)
  case (Cons e es)
  show ?case
  proof (cases "pe_last_update e < oldest")
    case True
    then show ?thesis using Cons.IH [of "Suc i" "pe_last_update e" i] by (fastforce simp: less_Suc_eq_0_disj)
  next
    case False
    then show ?thesis using Cons.IH [of "Suc i" oldest repl] by (fastforce simp: less_Suc_eq_0_disj)
  qed
qed simp

text \<open>Which entry a full table gives up.\<close>

lemma replacement_cases:
  assumes "length (patch_entries s) = 8" "patch_replacement_idx s active now = Some i"
  shows "i < 8"
    and "\<not> pe_active (patch_entries s ! i) \<or>
       (list_all pe_active (patch_entries s) \<and>
        (patch_entry_is_stale now (patch_entries s ! i) \<or>
         active \<and> list_all (\<lambda>e. \<not> patch_entry_is_stale now e) (patch_entries s) \<and>
           (\<forall>e\<in>set (patch_entries s). pe_last_update (patch_entries s ! i) \<le> pe_last_update e)))"
proof -
  let ?es = "patch_entries s"
  have "i < 8 \<and> (\<not> pe_active (?es ! i) \<or>
       (list_all pe_active ?es \<and>
        (patch_entry_is_stale now (?es ! i) \<or>
         active \<and> list_all (\<lambda>e. \<not> patch_entry_is_stale now e) ?es \<and>
           (\<forall>e\<in>set ?es. pe_last_update (?es ! i) \<le> pe_last_update e))))"
  proof (cases "find_index (\<lambda>e. \<not> pe_active e) ?es")
    case (Some j)
    with assms show ?thesis by (auto simp: patch_replacement_idx_def dest!: find_index_SomeD)
  next
    case None
    then have act: "list_all pe_active ?es" by (auto simp: find_index_None_iff list_all_iff)
    show ?thesis
    proof (cases "find_index (patch_entry_is_stale now) ?es")
      case (Some j)
      with assms None act show ?thesis by (auto simp: patch_replacement_idx_def dest!: find_index_SomeD)
    next
      case fresh: None
      obtain e es where es: "?es = e # es" using assms(1) by (cases ?es) auto
      have i: "active" "i = oldest_loop 1 es (pe_last_update e) 0"
        using assms(2) None fresh by (auto simp: patch_replacement_idx_def es split: if_splits)
      have "list_all (\<lambda>e. \<not> patch_entry_is_stale now e) ?es"
        using fresh by (auto simp: find_index_None_iff list_all_iff)
      moreover have "i < 8 \<and> (\<forall>x\<in>set ?es. pe_last_update (?es ! i) \<le> pe_last_update x)"
        using oldest_loop_min [of 1 es "pe_last_update e" 0] assms(1) unfolding i(2) [symmetric] es by auto
      ultimately show ?thesis using act i(1) by blast
    qed
  qed
  then show "i < 8" "\<not> pe_active (?es ! i) \<or>
       (list_all pe_active ?es \<and>
        (patch_entry_is_stale now (?es ! i) \<or>
         active \<and> list_all (\<lambda>e. \<not> patch_entry_is_stale now e) ?es \<and>
           (\<forall>e\<in>set ?es. pe_last_update (?es ! i) \<le> pe_last_update e)))"
    by blast+
qed

definition patch_keys :: "patch_table \<Rightarrow> u16 list" where
  "patch_keys s = map pe_sgid (patch_live s)"

definition fresh_patch :: "u16 \<Rightarrow> bool \<Rightarrow> bool \<Rightarrow> wall_s \<Rightarrow> patch_entry \<Rightarrow> patch_entry" where
  "fresh_patch g is_patch active now e = patch_clear_entry_context
     (e\<lparr>pe_sgid := g, pe_is_patch := is_patch, pe_active := active, pe_last_update := now\<rparr>)"

lemma fresh_patch_simps [simp]:
  "pe_sgid (fresh_patch g p a now e) = g" "entry_ok (fresh_patch g p a now e)"
  "pe_active (fresh_patch g p a now e) = a" "pe_last_update (fresh_patch g p a now e) = now"
  "pe_is_patch (fresh_patch g p a now e) = p" "\<not> pe_key_valid (fresh_patch g p a now e)"
  "pe_wgid_count (fresh_patch g p a now e) = 0" "pe_ssn (fresh_patch g p a now e) = 0"
  by (simp_all add: fresh_patch_def) (simp_all add: patch_clear_entry_context_def)

lemma legal_sgid:
  fixes g :: u16
  assumes "g \<noteq> 0"
  shows "\<not> uint g \<le> 0" "\<not> uint g > 0xFFFF" "word_of_int (uint g) = g"
proof -
  have "uint g \<noteq> 0" using assms unsigned_eq_0_iff by blast
  moreover have "0 \<le> uint g" by simp
  ultimately show "\<not> uint g \<le> 0" by linarith
  show "\<not> uint g > 0xFFFF" using uint_lt2p [of g] by simp
qed simp

text \<open>The four outcomes of an update.\<close>

lemma update_known:
  assumes "find_patch_idx (word_of_int sgid) s = Some i" "0 < sgid" "sgid \<le> 0xFFFF"
  shows "p25_patch_update now sgid p a s =
    set_patch i ((patch_entries s ! i)\<lparr>pe_is_patch := p, pe_active := a, pe_last_update := now\<rparr>) s"
  using assms by (simp add: p25_patch_update_def)

lemma update_append:
  assumes "find_patch_idx (word_of_int sgid) s = None" "0 < sgid" "sgid \<le> 0xFFFF" "patch_inv s" "patch_count s < 8"
  shows "p25_patch_update now sgid p a s = (let i = nat (patch_count s) in
    set_patch i (fresh_patch (word_of_int sgid) p a now (patch_entries s ! i)) (s\<lparr>patch_count := patch_count s + 1\<rparr>))"
  using assms by (auto simp: p25_patch_update_def patch_inv_def Let_def fresh_patch_def set_patch_def)

lemma update_full:
  assumes "find_patch_idx (word_of_int sgid) s = None" "0 < sgid" "sgid \<le> 0xFFFF" "patch_inv s" "patch_count s = 8"
  shows "p25_patch_update now sgid p a s =
    (case patch_replacement_idx s a now of
       None \<Rightarrow> s
     | Some i \<Rightarrow> set_patch i (fresh_patch (word_of_int sgid) p a now (patch_entries s ! i)) s)"
  using assms by (cases s) (simp add: p25_patch_update_def Let_def fresh_patch_def split: option.split)

lemma count_cases: "patch_inv s \<Longrightarrow> patch_count s < 8 \<or> patch_count s = 8"
  by (auto simp: patch_inv_def)

lemma patch_inv_append:
  assumes "patch_inv s" "patch_count s < 8" "pe_sgid e \<notin> set (patch_keys s)" "entry_ok e"
  defines "s' \<equiv> set_patch (nat (patch_count s)) e (s\<lparr>patch_count := patch_count s + 1\<rparr>)"
  shows "patch_live s' = patch_live s @ [e]" "patch_inv s'"
proof -
  have n: "nat (patch_count s) < length (patch_entries s)" "nat (patch_count s + 1) = Suc (nat (patch_count s))"
    using assms(1,2) by (auto simp: patch_inv_def)
  show live: "patch_live s' = patch_live s @ [e]"
    using n by (simp add: s'_def patch_live_def take_Suc_conv_app_nth list_update_append)
  have "distinct (map pe_sgid (patch_live s'))"
    unfolding live using assms(1,3) by (simp add: patch_inv_def patch_keys_def)
  then show "patch_inv s'"
    using assms(1,2,4) n by (auto simp: patch_inv_def s'_def list_all_length nth_list_update)
qed

lemma patch_inv_replace:
  assumes "patch_inv s" "i < length (patch_live s)" "pe_sgid e \<notin> set (patch_keys s)" "entry_ok e"
  shows "patch_inv (set_patch i e s)" "patch_keys (set_patch i e s) = (patch_keys s)[i := pe_sgid e]"
proof -
  show k: "patch_keys (set_patch i e s) = (patch_keys s)[i := pe_sgid e]" by (simp add: patch_keys_def map_update)
  have "distinct ((patch_keys s)[i := pe_sgid e])"
    using assms(1,3) by (intro distinct_list_update) (auto simp: patch_inv_def patch_keys_def)
  then have "distinct (map pe_sgid (patch_live (set_patch i e s)))" using k by (simp add: patch_keys_def)
  moreover have "i < length (patch_entries s)" using assms(2) by (simp add: patch_live_def)
  ultimately show "patch_inv (set_patch i e s)" using assms
    by (auto simp: patch_inv_def list_all_length nth_list_update)
qed

text \<open>What an update does to the ids of the table.\<close>

lemma update_keys:
  fixes p a :: bool and now :: wall_s
  assumes inv: "patch_inv s" and g: "0 < sgid" "sgid \<le> 0xFFFF"
  defines "g \<equiv> word_of_int sgid :: u16" and "s' \<equiv> p25_patch_update now sgid p a s"
  shows "patch_inv s' \<and>
    (if g \<in> set (patch_keys s) then patch_keys s' = patch_keys s
     else if length (patch_keys s) < 8 then patch_keys s' = patch_keys s @ [g]
     else (s' = s \<and> \<not> a) \<or> (\<exists>i<8. patch_keys s' = (patch_keys s)[i := g]))"
proof (cases "find_patch_idx g s")
  case (Some i)
  note f = find_patch_Some [OF inv Some]
  have s': "s' = set_patch i ((patch_entries s ! i)\<lparr>pe_is_patch := p, pe_active := a, pe_last_update := now\<rparr>) s"
    unfolding s'_def by (rule update_known [OF Some [unfolded g_def] g])
  have "g \<in> set (patch_keys s)" using f(1,3,4) by (auto simp: patch_keys_def intro!: image_eqI [OF _ nth_mem])
  moreover have "patch_keys s' = patch_keys s"
    using f(1,4) by (simp add: s' patch_keys_def map_update list_update_same_conv)
  moreover have "patch_inv s'" unfolding s' using f(3,5) by (intro patch_inv_set [OF inv Some]) simp_all
  ultimately show ?thesis by simp
next
  case None
  then have n: "g \<notin> set (patch_keys s)" by (simp add: find_patch_None patch_keys_def)
  have len: "length (patch_keys s) = nat (patch_count s)" using length_live [OF inv] by (simp add: patch_keys_def)
  consider (room) "patch_count s < 8" | (full) "patch_count s = 8" using count_cases [OF inv] by auto
  then show ?thesis
  proof cases
    case room
    let ?i = "nat (patch_count s)" let ?e = "fresh_patch g p a now (patch_entries s ! ?i)"
    have s': "s' = set_patch ?i ?e (s\<lparr>patch_count := patch_count s + 1\<rparr>)"
      using update_append [OF None [unfolded g_def] g inv room] by (simp add: s'_def g_def Let_def)
    have "patch_live s' = patch_live s @ [?e] \<and> patch_inv s'"
      unfolding s' using n by (intro conjI patch_inv_append [OF inv room]) simp_all
    then have "patch_inv s'" "patch_keys s' = patch_keys s @ [g]" by (simp_all add: patch_keys_def)
    moreover have "length (patch_keys s) < 8" using room inv unfolding len by (simp add: patch_inv_def)
    ultimately show ?thesis using n by simp
  next
    case full
    note u = update_full [OF None [unfolded g_def] g inv full, of now p a, folded g_def s'_def]
    show ?thesis
    proof (cases "patch_replacement_idx s a now")
      case no: None
      have "patch_replacement_idx s True now \<noteq> None" by (simp add: patch_replacement_idx_def split: option.split)
      with no have "\<not> a" by (cases a) auto
      then show ?thesis using u no n full len inv by simp
    next
      case (Some i)
      have "i < 8" using replacement_cases(1) [OF _ Some] inv by (simp add: patch_inv_def)
      then have i: "i < length (patch_live s)" using len full by (simp add: patch_keys_def)
      have "pe_sgid (fresh_patch g p a now (patch_entries s ! i)) \<notin> set (patch_keys s)" using n by simp
      from patch_inv_replace [OF inv i this] show ?thesis using u Some n full len \<open>i < 8\<close> by auto
    qed
  qed
qed

section \<open>The patch table as a table that evicts\<close>

definition patch_put :: "(wall_s \<times> bool) \<Rightarrow> u16 \<Rightarrow> patch_table \<Rightarrow> patch_table" where
  "patch_put a g s = p25_patch_update (fst a) (uint g) (snd a) True s"

lemma put_keys:
  assumes "patch_inv s"
  shows "patch_inv (patch_put a g s) \<and>
    (if g = 0 \<or> g \<in> set (patch_keys s) then patch_keys (patch_put a g s) = patch_keys s
     else if length (patch_keys s) < 8 then patch_keys (patch_put a g s) = patch_keys s @ [g]
     else \<exists>i<8. patch_keys (patch_put a g s) = (patch_keys s)[i := g])"
proof (cases "g = 0")
  case True
  then have "patch_put a g s = s" by (simp add: patch_put_def p25_patch_update_def)
  then show ?thesis using True assms by simp
next
  case False
  note l = legal_sgid [OF False]
  then have "0 < uint g" "uint g \<le> 0xFFFF" unfolding linorder_not_le linorder_not_less by blast+
  from update_keys [OF assms this, of "fst a" "snd a" True] show ?thesis
    using False unfolding patch_put_def l(3) by (auto split: if_splits)
qed

lemma distinct_keys: "patch_inv s \<Longrightarrow> distinct (patch_keys s) \<and> length (patch_keys s) \<le> 8"
  using length_live [of s] by (auto simp: patch_inv_def patch_keys_def)

lemma set_upd_memI: "x \<in> set xs \<Longrightarrow> x \<noteq> xs ! i \<Longrightarrow> x \<in> set (xs[i := y])"
  by (metis in_set_conv_nth length_list_update nth_list_update_neq)

interpretation patch_store: bounded_table patch_inv "\<lambda>s g. g \<in> set (patch_keys s)" "\<lambda>g. g \<noteq> 0" patch_put 8
proof unfold_locales
  fix s a and g k k1 k2 :: u16 assume inv: "patch_inv s"
  note p = put_keys [OF inv, of a g]
  show "patch_inv (patch_put a g s)" using p by blast
  show "g \<in> set (patch_keys (patch_put a g s))" if "g \<noteq> 0"
  proof (cases "g \<in> set (patch_keys s) \<or> length (patch_keys s) < 8")
    case False
    then have "length (patch_keys s) = 8" using distinct_keys [OF inv] by linarith
    with p that False show ?thesis by (auto intro!: set_update_memI)
  qed (use p that in \<open>auto split: if_splits\<close>)
  show "k = g \<or> k \<in> set (patch_keys s)" if "k \<in> set (patch_keys (patch_put a g s))"
    using p that by (auto split: if_splits dest!: set_update_subset_insert [THEN subsetD])
  show "k \<in> set (patch_keys (patch_put a g s))" if "g \<in> set (patch_keys s)" "k \<in> set (patch_keys s)"
    using p that by auto
  have card: "card {j. j \<in> set (patch_keys s)} = length (patch_keys s)"
    using distinct_keys [OF inv] by (simp add: distinct_card)
  show "k \<in> set (patch_keys (patch_put a g s))" if "card {j. j \<in> set (patch_keys s)} < 8" "k \<in> set (patch_keys s)"
    using p that unfolding card by (auto split: if_splits)
  show "k1 = k2" if "k1 \<in> set (patch_keys s)" "k2 \<in> set (patch_keys s)"
    "k1 \<notin> set (patch_keys (patch_put a g s))" "k2 \<notin> set (patch_keys (patch_put a g s))"
  proof -
    have "\<exists>i. patch_keys (patch_put a g s) = (patch_keys s)[i := g]" using p that by (auto split: if_splits)
    then obtain i where "patch_keys (patch_put a g s) = (patch_keys s)[i := g]" by blast
    then have "k1 = patch_keys s ! i" "k2 = patch_keys s ! i" using that set_upd_memI by metis+
    then show ?thesis by simp
  qed
  show "finite {j. j \<in> set (patch_keys s)} \<and> card {j. j \<in> set (patch_keys s)} \<le> 8"
    using card distinct_keys [OF inv] by simp
qed

section \<open>Invariant of every operation\<close>

lemma patch_inv_boot: "patch_inv patch_boot"
  by (simp add: patch_inv_def patch_boot_def patch_live_def list_all_iff) (simp add: entry_ok_def empty_patch_def)

lemma patch_inv_update [inv_intros]: "patch_inv s \<Longrightarrow> patch_inv (p25_patch_update now sgid p a s)"
proof (cases "0 < sgid \<and> sgid \<le> 0xFFFF")
  case False
  then show "patch_inv s \<Longrightarrow> ?thesis" by (auto simp: p25_patch_update_def)
qed (use update_keys in blast)

lemma find_or_create_inv:
  assumes "patch_inv s" "patch_find_or_create now sgid s = (s1, r)"
  shows "patch_inv s1" "\<And>i. r = Some i \<Longrightarrow> find_patch_idx (word_of_int sgid) s1 = Some i"
  using assms patch_inv_update [OF assms(1)]
  by (auto simp: patch_find_or_create_def Let_def split: option.splits)

lemma find_or_create_set:
  assumes "patch_inv s" "\<And>e. entry_ok e \<Longrightarrow> entry_ok (f e)" "\<And>e. pe_sgid (f e) = pe_sgid e"
  shows "patch_inv (case patch_find_or_create now sgid s of (s1, None) \<Rightarrow> s1
     | (s1, Some i) \<Rightarrow> set_patch i (f (patch_entries s1 ! i)) s1)"
proof -
  obtain s1 r where c: "patch_find_or_create now sgid s = (s1, r)" by (cases "patch_find_or_create now sgid s")
  note i = find_or_create_inv [OF assms(1) c]
  show ?thesis
  proof (cases r)
    case (Some j)
    note f = find_patch_Some [OF i(1) i(2) [OF Some]]
    from Some show ?thesis using patch_inv_set [OF i(1) i(2) [OF Some]] f assms(2,3) by (simp add: c)
  qed (simp add: c i)
qed

lemma patch_inv_ops [inv_intros]:
  assumes "patch_inv s"
  shows "patch_inv (p25_patch_add_wgid now sgid wgid s)" "patch_inv (p25_patch_add_wuid now sgid wuid s)"
    "patch_inv (p25_patch_set_kas now sgid key alg ssn s)" "patch_inv (p25_patch_remove_wgid sgid wgid s)"
    "patch_inv (p25_patch_clear_sg now sgid s)"
proof -
  show "patch_inv (p25_patch_add_wgid now sgid wgid s)"
    using find_or_create_set [OF assms, of "entry_add_wgid (word_of_int wgid)" now sgid] assms
    by (simp add: p25_patch_add_wgid_def)
  show "patch_inv (p25_patch_add_wuid now sgid wuid s)"
    using find_or_create_set [OF assms, of "entry_add_wuid wuid" now sgid] assms by (simp add: p25_patch_add_wuid_def)
  show "patch_inv (p25_patch_set_kas now sgid key alg ssn s)"
    using find_or_create_set [OF assms, of "entry_set_kas key alg ssn" now sgid] assms
    by (simp add: p25_patch_set_kas_def)
  show "patch_inv (p25_patch_remove_wgid sgid wgid s)"
    using assms find_patch_Some [OF assms] remove_wgid_members(1)
    by (auto simp: p25_patch_remove_wgid_def intro!: patch_inv_set split: option.split)
  show "patch_inv (p25_patch_clear_sg now sgid s)"
    using assms find_patch_Some [OF assms]
    by (auto simp: p25_patch_clear_sg_def intro!: patch_inv_set split: option.split)
qed

lemma patch_inv_prepare [inv_intros]:
  assumes "patch_inv s"
  shows "patch_inv (fst (p25_patch_prepare_grg_update now sgid p a ssn s))"
proof -
  have set_p: "patch_inv (case find_patch_idx g t of Some i \<Rightarrow> set_patch i ((patch_entries t ! i)\<lparr>pe_is_patch := p\<rparr>) t | None \<Rightarrow> t)"
    if "patch_inv t" for g t
    using that find_patch_Some [OF that] by (auto intro!: patch_inv_set split: option.split)
  have clr: "patch_inv (case find_patch_idx g s of Some i \<Rightarrow> if C i then set_patch i (patch_clear_entry_context (patch_entries s ! i)) s else s | None \<Rightarrow> s)"
    for g C
    using assms find_patch_Some [OF assms] by (auto intro!: patch_inv_set split: option.split)
  show ?thesis unfolding p25_patch_prepare_grg_update_def Let_def
    using assms by (simp add: set_p clr patch_inv_ops(5) patch_inv_update)
qed

section \<open>Runs\<close>

datatype patch_op =
    Patch_update int bool bool
  | Patch_add_wgid int int
  | Patch_add_wuid int u32
  | Patch_remove_wgid int int
  | Patch_clear_sg int
  | Patch_prepare int bool bool int
  | Patch_set_kas int int int int
  | Patch_compose nat

fun patch_step :: "patch_table \<Rightarrow> wall_s \<times> patch_op \<Rightarrow> patch_table" where
  "patch_step s (now, Patch_update sgid p a) = p25_patch_update now sgid p a s"
| "patch_step s (now, Patch_add_wgid sgid w) = p25_patch_add_wgid now sgid w s"
| "patch_step s (now, Patch_add_wuid sgid u) = p25_patch_add_wuid now sgid u s"
| "patch_step s (now, Patch_remove_wgid sgid w) = p25_patch_remove_wgid sgid w s"
| "patch_step s (now, Patch_clear_sg sgid) = p25_patch_clear_sg now sgid s"
| "patch_step s (now, Patch_prepare sgid p a ssn) = fst (p25_patch_prepare_grg_update now sgid p a ssn s)"
| "patch_step s (now, Patch_set_kas sgid key alg ssn) = p25_patch_set_kas now sgid key alg ssn s"
| "patch_step s (now, Patch_compose cap) = fst (p25_patch_compose_details now cap s)"

lemma patch_inv_step: "patch_inv s \<Longrightarrow> patch_inv (patch_step s x)"
  by (induction s x rule: patch_step.induct)
    (auto simp: p25_patch_compose_details_def Let_def sweep_live(2) intro: inv_intros)

lemma patch_inv_run: "patch_inv s \<Longrightarrow> patch_inv (foldl patch_step s ops)"
  by (induction ops arbitrary: s) (auto intro: patch_inv_step)

text \<open>An entry with a key either had it before the step or got it from a key command for its group.\<close>

definition same_key :: "patch_entry \<Rightarrow> patch_entry \<Rightarrow> bool" where
  "same_key e' e \<longleftrightarrow> pe_sgid e' = pe_sgid e \<and> pe_key e' = pe_key e \<and> pe_key_valid e' = pe_key_valid e"

definition keys_from :: "patch_table \<Rightarrow> patch_table \<Rightarrow> bool" where
  "keys_from s s' \<longleftrightarrow>
     (\<forall>e'\<in>set (patch_entries s'). pe_key_valid e' \<longrightarrow> (\<exists>e\<in>set (patch_entries s). same_key e' e))"

lemma same_key_ops [simp]:
  "same_key e e" "same_key (e\<lparr>pe_is_patch := p\<rparr>) e" "same_key (e\<lparr>pe_active := p\<rparr>) e"
  "same_key (e\<lparr>pe_last_update := w\<rparr>) e" "same_key (entry_add_wgid wg e) e" "same_key (entry_add_wuid u e) e"
  "same_key (entry_remove_wgid wg e) e"
  by (auto simp: same_key_def entry_add_wgid_def entry_add_wuid_def entry_remove_wgid_def Let_def split: option.split)

lemma same_key_trans: "same_key a b \<Longrightarrow> same_key b c \<Longrightarrow> same_key a c"
  by (simp add: same_key_def)

lemma keys_from_refl [simp]: "keys_from s s"
  by (auto simp: keys_from_def intro: same_key_ops(1))

lemma keys_from_trans:
  assumes "keys_from s t" "keys_from t u"
  shows "keys_from s u"
  unfolding keys_from_def
proof (intro ballI impI)
  fix x assume "x \<in> set (patch_entries u)" "pe_key_valid x"
  then obtain y where y: "y \<in> set (patch_entries t)" "same_key x y" using assms(2) unfolding keys_from_def by blast
  then have "pe_key_valid y" using \<open>pe_key_valid x\<close> by (simp add: same_key_def)
  then obtain z where "z \<in> set (patch_entries s)" "same_key y z" using assms(1) y(1) unfolding keys_from_def by blast
  then show "\<exists>z\<in>set (patch_entries s). same_key x z" using y(2) same_key_trans by blast
qed

lemma keys_from_set:
  assumes "\<not> pe_key_valid e \<or> same_key e (patch_entries s ! i)"
  shows "keys_from s (set_patch i e s)"
  unfolding keys_from_def
proof (intro ballI impI)
  fix x assume x: "x \<in> set (patch_entries (set_patch i e s))" "pe_key_valid x"
  show "\<exists>z\<in>set (patch_entries s). same_key x z"
  proof (cases "x \<in> set (patch_entries s)")
    case False
    then have "i < length (patch_entries s)"
      using x(1) by (cases "i < length (patch_entries s)") (simp_all add: list_update_beyond)
    moreover have "x = e" using False x by (auto dest!: set_update_subset_insert [THEN subsetD])
    ultimately show ?thesis using assms x(2) nth_mem by metis
  qed (use same_key_ops(1) in blast)
qed

lemma keys_from_count [simp]: "keys_from s (s\<lparr>patch_count := c\<rparr>)"
  by (auto simp: keys_from_def intro: same_key_ops(1))

lemma no_key_clear [simp]: "\<not> pe_key_valid (patch_clear_entry_context e)"
  by (simp add: patch_clear_entry_context_def)

lemma keys_from_update: "patch_inv s \<Longrightarrow> keys_from s (p25_patch_update now sgid p a s)"
proof (cases "0 < sgid \<and> sgid \<le> 0xFFFF")
  case False
  then show ?thesis by (auto simp: p25_patch_update_def)
next
  case True
  then have g: "0 < sgid" "sgid \<le> 0xFFFF" by auto
  assume inv: "patch_inv s"
  show ?thesis
  proof (cases "find_patch_idx (word_of_int sgid) s")
    case (Some i)
    show ?thesis unfolding update_known [OF Some g]
      by (rule keys_from_set) (simp add: same_key_def)
  next
    case None
    from count_cases [OF inv] show ?thesis
    proof
      assume c: "patch_count s < 8"
      show ?thesis unfolding update_append [OF None g inv c] Let_def
        by (rule keys_from_trans [OF keys_from_count keys_from_set]) simp
    next
      assume c: "patch_count s = 8"
      show ?thesis unfolding update_full [OF None g inv c]
        by (auto split: option.split intro!: keys_from_set)
    qed
  qed
qed

lemma keys_from_find_or_create:
  assumes "patch_inv s" "\<And>e. same_key (f e) e"
  shows "keys_from s (case patch_find_or_create now sgid s of (s1, None) \<Rightarrow> s1
     | (s1, Some i) \<Rightarrow> set_patch i (f (patch_entries s1 ! i)) s1)"
proof -
  have "keys_from s s1" if "patch_find_or_create now sgid s = (s1, r)" for s1 r
    using that keys_from_update [OF assms(1)] by (auto simp: patch_find_or_create_def Let_def split: option.splits)
  then show ?thesis using assms(2)
    by (auto split: prod.split option.split intro: keys_from_trans [OF _ keys_from_set])
qed

lemma keys_from_clear_sg: "keys_from s (p25_patch_clear_sg now sgid s)"
  by (auto simp: p25_patch_clear_sg_def patch_clear_entry_context_def split: option.split intro!: keys_from_set)

lemma keys_from_step:
  assumes "patch_inv s" "\<And>now sgid key alg ssn. x \<noteq> (now, Patch_set_kas sgid key alg ssn)"
  shows "keys_from s (patch_step s x)"
proof -
  obtain now op where x: "x = (now, op)" by (cases x)
  show ?thesis
  proof (cases op)
    case (Patch_prepare sgid p a ssn)
    have last: "keys_from t (case find_patch_idx g t of Some i \<Rightarrow> set_patch i ((patch_entries t ! i)\<lparr>pe_is_patch := p\<rparr>) t | None \<Rightarrow> t)"
      for g t by (auto split: option.split intro!: keys_from_set)
    have upd: "keys_from s (p25_patch_clear_sg now sgid (if b then p25_patch_update now sgid p False s else s))" for b
      using keys_from_trans [OF keys_from_update [OF assms(1)] keys_from_clear_sg] keys_from_clear_sg by simp
    have reset: "keys_from s s1 \<and> patch_inv s1" if "s1 = (case find_patch_idx g s of Some i \<Rightarrow>
        if C i then set_patch i (patch_clear_entry_context (patch_entries s ! i)) s else s | None \<Rightarrow> s)" for s1 g C
      unfolding that using assms(1) find_patch_Some [OF assms(1)]
      by (auto split: option.split intro!: keys_from_set patch_inv_set)
    show ?thesis
      unfolding x Patch_prepare patch_step.simps p25_patch_prepare_grg_update_def Let_def
      using keys_from_trans [OF upd last] keys_from_trans [OF _ keys_from_update] reset [OF refl] by auto
  next
    case (Patch_compose cap)
    then show ?thesis using sweep_live(3) [OF assms(1)]
      by (auto simp: x p25_patch_compose_details_def Let_def keys_from_def intro: same_key_ops(1))
  next
    case (Patch_set_kas sgid key alg ssn)
    then show ?thesis using assms(2) x by blast
  qed (use assms(1) in \<open>auto simp: x p25_patch_add_wgid_def p25_patch_add_wuid_def p25_patch_remove_wgid_def
      intro: keys_from_update keys_from_find_or_create keys_from_set keys_from_clear_sg split: option.split\<close>)
qed

text \<open>The key command itself.\<close>

lemma set_kas_entries:
  assumes "patch_inv s" "e' \<in> set (patch_entries (p25_patch_set_kas now sgid key alg ssn s))" "pe_key_valid e'"
  shows "(\<exists>e\<in>set (patch_entries s). same_key e' e) \<or>
    0 < sgid \<and> 0 \<le> key \<and> pe_sgid e' = word_of_int sgid \<and> pe_key e' = word_of_int key"
proof (cases "0 < sgid")
  case True
  obtain s1 r where c: "patch_find_or_create now sgid s = (s1, r)" by (cases "patch_find_or_create now sgid s")
  note i = find_or_create_inv [OF assms(1) c]
  have k: "keys_from s s1"
    using c keys_from_update [OF assms(1)] by (auto simp: patch_find_or_create_def Let_def split: option.splits)
  show ?thesis
  proof (cases r)
    case None
    then show ?thesis using assms(2,3) True c k by (auto simp: p25_patch_set_kas_def keys_from_def)
  next
    case (Some j)
    note f = find_patch_Some [OF i(1) i(2) [OF Some]]
    from assms(2) have "e' \<in> set (patch_entries s1) \<or> e' = entry_set_kas key alg ssn (patch_entries s1 ! j)"
      using True c Some by (auto simp: p25_patch_set_kas_def dest!: set_update_subset_insert [THEN subsetD])
    then show ?thesis
    proof
      assume "e' \<in> set (patch_entries s1)"
      then show ?thesis using k assms(3) by (auto simp: keys_from_def)
    next
      assume e: "e' = entry_set_kas key alg ssn (patch_entries s1 ! j)"
      show ?thesis
      proof (cases "key \<ge> 0")
        case key: True
        then show ?thesis using True f(3) by (simp add: e entry_set_kas_def Let_def)
      next
        case False
        then have "same_key e' (patch_entries s1 ! j)" by (simp add: e entry_set_kas_def Let_def same_key_def)
        moreover have "pe_key_valid (patch_entries s1 ! j)" using calculation assms(3) by (simp add: same_key_def)
        ultimately show ?thesis using k f(2) unfolding keys_from_def by (metis nth_mem same_key_trans)
      qed
    qed
  qed
qed (use assms in \<open>auto simp: p25_patch_set_kas_def intro: same_key_ops(1)\<close>)

section \<open>Properties\<close>

definition clear_command :: "u16 \<Rightarrow> wall_s \<times> patch_op \<Rightarrow> bool" where
  "clear_command g x = (case x of (_, Patch_set_kas sgid key alg ssn) \<Rightarrow>
     0 < sgid \<and> 0 \<le> key \<and> word_of_int sgid = g \<and> (word_of_int key :: u16) = 0 | _ \<Rightarrow> False)"

lemma run_keys_explicit:
  "e \<in> set (patch_entries (foldl patch_step patch_boot ops)) \<Longrightarrow> pe_key_valid e \<Longrightarrow> pe_key e = 0 \<Longrightarrow>
     \<exists>x\<in>set ops. clear_command (pe_sgid e) x"
proof (induction ops arbitrary: e rule: rev_induct)
  case Nil
  then show ?case by (auto simp: patch_boot_def empty_patch_def)
next
  case (snoc x ops)
  let ?s = "foldl patch_step patch_boot ops"
  have inv: "patch_inv ?s" by (rule patch_inv_run [OF patch_inv_boot])
  have old: ?case if h: "z \<in> set (patch_entries ?s)" "same_key e z" for z
  proof -
    have "\<exists>x\<in>set ops. clear_command (pe_sgid z) x"
      using h(2) snoc.prems(2,3) by (intro snoc.IH [OF h(1)]) (simp_all add: same_key_def)
    then show ?thesis using h(2) by (simp add: same_key_def)
  qed
  show ?case
  proof (cases "\<exists>now sgid key alg ssn. x = (now, Patch_set_kas sgid key alg ssn)")
    case False
    then have "keys_from ?s (patch_step ?s x)" by (intro keys_from_step [OF inv]) blast
    then show ?thesis using snoc.prems(1,2) old by (auto simp: keys_from_def)
  next
    case True
    then obtain now sgid key alg ssn where x: "x = (now, Patch_set_kas sgid key alg ssn)" by blast
    show ?thesis
      using set_kas_entries [OF inv, of e now sgid key alg ssn] snoc.prems old
      by (auto simp: x clear_command_def)
  qed
qed

lemma sg_clear_loop_entry: "sg_clear_loop now g es \<Longrightarrow>
    \<exists>e\<in>set es. pe_active e \<and> pe_sgid e = g \<and> \<not> patch_entry_is_stale now e \<and> pe_key_valid e \<and> pe_key e = 0"
  by (induction es) (auto split: if_splits)

text \<open>C20: a regroup is treated as clear only on explicit evidence: after any history of regroup commands,
  a super group whose key reads as clear has a live, active and unexpired entry with a key that a
  command for that very group set to zero. An absent, evicted or merely defaulted key never reads as
  clear.\<close>

theorem clear_needs_explicit_key:
  assumes "p25_patch_sg_key_is_clear now sgid (foldl patch_step patch_boot ops)"
  shows "list_ex (clear_command (word_of_int sgid)) ops \<and>
    list_ex (\<lambda>e. pe_sgid e = word_of_int sgid \<and> pe_active e \<and> \<not> patch_entry_is_stale now e)
      (patch_live (foldl patch_step patch_boot ops))"
proof -
  let ?s = "foldl patch_step patch_boot ops"
  from assms obtain e where e: "e \<in> set (patch_live ?s)" "pe_active e" "pe_sgid e = word_of_int sgid"
    "\<not> patch_entry_is_stale now e" "pe_key_valid e" "pe_key e = 0"
    by (auto simp: p25_patch_sg_key_is_clear_def dest!: sg_clear_loop_entry split: if_splits)
  have "\<exists>x\<in>set ops. clear_command (pe_sgid e) x" by (rule run_keys_explicit [OF live_sub [OF e(1)] e(5,6)])
  then show ?thesis using e(1-4) by (auto simp: list_ex_iff)
qed

theorem clear_needs_explicit_key_witness:
  "p25_patch_sg_key_is_clear 105 77 (foldl patch_step patch_boot [(100, Patch_set_kas 77 0 0x84 3)]) \<and>
   list_ex (clear_command 77) [(100, Patch_set_kas 77 0 0x84 3)]"
proof -
  have "p25_patch_sg_key_is_clear 105 77 (foldl patch_step patch_boot [(100, Patch_set_kas 77 0 0x84 3)])"
    by code_simp
  then show ?thesis using clear_needs_explicit_key [of 105 77 "[(100, Patch_set_kas 77 0 0x84 3)]"] by simp
qed

text \<open>Sweeping removes the expired groups and nothing else: it keeps the unexpired entries with all
  their context in their order and leaves a well-formed table.\<close>

theorem sweep_keeps_exactly_fresh:
  assumes "patch_inv s"
  shows "patch_live (patch_sweep_stale now s) =
      filter (\<lambda>e. \<not> (pe_last_update e > 0 \<and> now - pe_last_update e > 20)) (patch_live s) \<and>
    patch_inv (patch_sweep_stale now s)"
  using sweep_live(1,2) [OF assms, of now] by (simp add: patch_entry_is_stale_def P25_PATCH_TTL_SECONDS_def)

theorem sweep_keeps_exactly_fresh_witness:
  "patch_inv patch_boot \<and> patch_live (patch_sweep_stale 50 patch_boot) = []"
  using sweep_keeps_exactly_fresh [OF patch_inv_boot, of 50] patch_inv_boot
  by (simp add: patch_live_def patch_boot_def)

text \<open>The members of a super group, as the policy code sees them.\<close>

definition patch_members :: "u16 \<Rightarrow> patch_table \<Rightarrow> u16 set" where
  "patch_members g s = (case find_patch_idx g s of None \<Rightarrow> {}
     | Some i \<Rightarrow> set (take (pe_wgid_count (patch_entries s ! i)) (pe_wgid (patch_entries s ! i))))"

lemma find_after_set:
  assumes "patch_inv s" "find_patch_idx g s = Some i" "pe_sgid e = g"
  shows "find_patch_idx h (set_patch i e s) = find_patch_idx h s"
  using find_patch_Some [OF assms(1,2)] assms(3) by (auto simp: find_patch_idx_def intro!: find_index_list_update)

lemma members_after_set:
  assumes "patch_inv s" "find_patch_idx g s = Some i" "pe_sgid e = g"
  shows "patch_members h (set_patch i e s) =
     (if h = g then set (take (pe_wgid_count e) (pe_wgid e)) else patch_members h s)"
proof (cases "find_patch_idx h s")
  case None
  then show ?thesis using assms(2) find_after_set [OF assms, of h] by (auto simp: patch_members_def)
next
  case (Some j)
  have "j = i \<longleftrightarrow> h = g"
  proof
    assume "j = i"
    then show "h = g" using find_patch_Some(3) [OF assms(1) Some] find_patch_Some(3) [OF assms(1,2)] by metis
  next
    assume "h = g"
    then show "j = i" using Some assms(2) by simp
  qed
  then show ?thesis using Some find_after_set [OF assms, of h] find_patch_Some(2) [OF assms(1,2)]
    by (auto simp: patch_members_def nth_list_update)
qed

lemma add_wgid_members:
  assumes "entry_ok e"
  shows "set (take (pe_wgid_count (entry_add_wgid w e)) (pe_wgid (entry_add_wgid w e))) =
    (if card (set (take (pe_wgid_count e) (pe_wgid e))) < 8 then insert w (set (take (pe_wgid_count e) (pe_wgid e)))
     else set (take (pe_wgid_count e) (pe_wgid e)))"
proof -
  have c: "card (set (take (pe_wgid_count e) (pe_wgid e))) = pe_wgid_count e"
    using assms by (simp add: entry_ok_def distinct_card)
  show ?thesis
  proof (cases "w \<in> set (take (pe_wgid_count e) (pe_wgid e)) \<or> \<not> pe_wgid_count e < 8")
    case True
    then have "entry_add_wgid w e = e" by (auto simp: entry_add_wgid_def)
    moreover have "insert w (set (take (pe_wgid_count e) (pe_wgid e))) = set (take (pe_wgid_count e) (pe_wgid e))"
      if "pe_wgid_count e < 8" using True that by (intro insert_absorb) simp
    ultimately show ?thesis unfolding c by simp
  next
    case False
    then show ?thesis using assms c by (simp add: entry_add_wgid_def entry_ok_def take_Suc_conv_app_nth)
  qed
qed

text \<open>Membership follows the regroup commands: adding a talkgroup to a known super group inserts it
  (up to eight members, duplicates absorbed), removing it deletes exactly it although the array is
  compacted by moving its last element, and neither touches the members of another group.\<close>

theorem patch_membership:
  assumes "patch_inv s" "find_patch_idx (word_of_int sgid) s \<noteq> None" "0 < sgid" "sgid \<le> 0xFFFF" "0 < wgid" "wgid \<le> 0xFFFF"
  shows "patch_members h (p25_patch_add_wgid now sgid wgid s) =
      (if h = word_of_int sgid \<and> card (patch_members h s) < 8 then insert (word_of_int wgid) (patch_members h s)
       else patch_members h s) \<and>
    patch_members h (p25_patch_remove_wgid sgid wgid s) =
      (if h = word_of_int sgid then patch_members h s - {word_of_int wgid} else patch_members h s)"
proof -
  let ?g = "word_of_int sgid :: u16"
  obtain i where i: "find_patch_idx ?g s = Some i" using assms(2) by auto
  note f = find_patch_Some [OF assms(1) i]
  let ?e = "patch_entries s ! i"
  have m: "patch_members ?g s = set (take (pe_wgid_count ?e) (pe_wgid ?e))" by (simp add: patch_members_def i)
  have "p25_patch_add_wgid now sgid wgid s = set_patch i (entry_add_wgid (word_of_int wgid) ?e) s"
    using assms(3-6) i by (simp add: p25_patch_add_wgid_def patch_find_or_create_def)
  moreover have "p25_patch_remove_wgid sgid wgid s = set_patch i (entry_remove_wgid (word_of_int wgid) ?e) s"
    using assms(3,5) i by (simp add: p25_patch_remove_wgid_def)
  ultimately show ?thesis
    using add_wgid_members [OF f(5), of "word_of_int wgid"] remove_wgid_members(2) [OF f(5), of "word_of_int wgid"] f(3)
    by (simp add: members_after_set [OF assms(1) i] m)
qed

definition patch_sample :: patch_table where
  "patch_sample = foldl patch_step patch_boot
     [(100, Patch_update 77 True True), (100, Patch_add_wgid 77 5), (101, Patch_add_wgid 77 6)]"

theorem patch_membership_witness:
  "patch_members 77 patch_sample = {5, 6} \<and>
   patch_members 77 (p25_patch_remove_wgid 77 5 patch_sample) = {6}"
proof -
  have inv: "patch_inv patch_sample" unfolding patch_sample_def by (rule patch_inv_run [OF patch_inv_boot])
  have m: "patch_members 77 patch_sample = {5, 6}" by code_simp
  have "find_patch_idx (word_of_int 77) patch_sample \<noteq> None" by code_simp
  from patch_membership [OF inv this, of 5 77] m show ?thesis by simp
qed

text \<open>What a full table gives up. When a ninth super group is activated, a group that was active and
  unexpired is dropped only if all eight are, and then it is the one updated longest ago; up to eight
  distinct groups are never dropped at all.\<close>

theorem patch_eviction_order:
  assumes "patch_inv s" "find_patch_idx (word_of_int sgid) s = None" "0 < sgid" "sgid \<le> 0xFFFF"
    "e \<in> set (patch_live s)" "pe_active e" "\<not> patch_entry_is_stale now e"
    "pe_sgid e \<notin> set (patch_keys (p25_patch_update now sgid p True s))"
  shows "length (patch_live s) = 8 \<and>
    (\<forall>x\<in>set (patch_live s). pe_active x \<and> \<not> patch_entry_is_stale now x \<and> pe_last_update e \<le> pe_last_update x)"
proof -
  have "\<not> patch_count s < 8"
  proof
    assume c: "patch_count s < 8"
    have "word_of_int sgid \<notin> set (patch_keys s)" "length (patch_keys s) < 8"
      using assms(2) c length_live [OF assms(1)] assms(1)
      by (auto simp: find_patch_None patch_keys_def patch_inv_def)
    then show False using update_keys [OF assms(1,3,4), of now p True] assms(5,8) by (auto simp: patch_keys_def)
  qed
  then have full: "patch_count s = 8" using count_cases [OF assms(1)] by blast
  then have live: "patch_live s = patch_entries s" "length (patch_entries s) = 8"
    using assms(1) by (auto simp: patch_live_def patch_inv_def)
  note u = update_full [OF assms(2-4,1) full, of now p True]
  obtain i where i: "patch_replacement_idx s True now = Some i"
    using u assms(5,8) by (cases "patch_replacement_idx s True now") (auto simp: patch_keys_def)
  have "patch_keys (p25_patch_update now sgid p True s) = (patch_keys s)[i := word_of_int sgid]"
    using u i by (simp add: patch_keys_def map_update)
  then have "pe_sgid e = patch_keys s ! i"
    using assms(5,8) set_upd_memI [of "pe_sgid e" "patch_keys s" i] by (auto simp: patch_keys_def)
  moreover have "i < 8" by (rule replacement_cases(1) [OF live(2) i])
  moreover obtain j where j: "j < 8" "e = patch_entries s ! j"
    using assms(5) live by (auto simp: in_set_conv_nth)
  ultimately have "patch_keys s ! i = patch_keys s ! j" "i < length (patch_keys s)" "j < length (patch_keys s)"
    using live by (simp_all add: patch_keys_def)
  then have "i = j" using distinct_keys [OF assms(1)] nth_eq_iff_index_eq by blast
  with replacement_cases(2) [OF live(2) i] j assms(6,7) show ?thesis
    by (auto simp: live list_all_iff)
qed

definition patch_full :: patch_table where
  "patch_full = foldl (\<lambda>s k. p25_patch_update (100 + k) (k + 1) True True s) patch_boot [0..7]"

theorem patch_eviction_order_witness:
  "\<exists>e\<in>set (patch_live patch_full). pe_sgid e = 1 \<and> (\<forall>x\<in>set (patch_live patch_full). pe_last_update e \<le> pe_last_update x)"
proof -
  have "patch_inv (foldl (\<lambda>s k. p25_patch_update (100 + k) (k + 1) True True s) s ks)" if "patch_inv s" for s ks
    using that by (induction ks arbitrary: s) (auto intro: patch_inv_update)
  then have inv: "patch_inv patch_full" unfolding patch_full_def using patch_inv_boot by blast
  let ?e = "patch_live patch_full ! 0"
  have "0 < length (patch_live patch_full)" by code_simp
  then have e: "?e \<in> set (patch_live patch_full)" by (rule nth_mem)
  have f: "find_patch_idx (word_of_int 9) patch_full = None" "pe_active ?e" "\<not> patch_entry_is_stale 110 ?e"
    "pe_sgid ?e \<notin> set (patch_keys (p25_patch_update 110 9 True True patch_full))" "pe_sgid ?e = 1"
    by (code_simp)+
  from patch_eviction_order [OF inv f(1) _ _ e f(2-4)] e f(5) show ?thesis by auto
qed

lemma prepare_known:
  assumes inv: "patch_inv s" and i: "find_patch_idx (word_of_int sgid) s = Some i" and g: "0 < sgid" "sgid \<le> 0xFFFF"
  shows "fst (p25_patch_prepare_grg_update now sgid p True ssn s) = set_patch i
      ((if pe_active (patch_entries s ! i) \<and> 0 \<le> ssn \<and> pe_ssn (patch_entries s ! i) \<noteq> word_of_int (ssn AND 0x1F)
        then patch_clear_entry_context (patch_entries s ! i) else patch_entries s ! i)
       \<lparr>pe_is_patch := p, pe_active := True, pe_last_update := now\<rparr>) s"
    and "fst (p25_patch_prepare_grg_update now sgid p False ssn s) = set_patch i
      ((patch_clear_entry_context (patch_entries s ! i))\<lparr>pe_active := False, pe_last_update := now, pe_is_patch := p\<rparr>) s"
proof -
  note f = find_patch_Some [OF inv i]
  let ?e = "patch_entries s ! i"
  have set2: "set_patch i a (set_patch i b s) = set_patch i a s" for a b by (simp add: set_patch_def)
  have look: "find_patch_idx (word_of_int sgid) (set_patch i x s) = Some i" if "pe_sgid x = word_of_int sgid" for x
    using find_after_set [OF inv i that] i by simp
  have pos: "0 \<le> ssn AND 0x1F" if "0 \<le> ssn" for ssn :: int using that by simp
  show "fst (p25_patch_prepare_grg_update now sgid p True ssn s) = set_patch i
      ((if pe_active ?e \<and> 0 \<le> ssn \<and> pe_ssn ?e \<noteq> word_of_int (ssn AND 0x1F)
        then patch_clear_entry_context ?e else ?e)\<lparr>pe_is_patch := p, pe_active := True, pe_last_update := now\<rparr>) s"
  proof (cases "pe_active ?e \<and> 0 \<le> ssn \<and> pe_ssn ?e \<noteq> word_of_int (ssn AND 0x1F)")
    case True
    have "pe_sgid (patch_clear_entry_context ?e) = word_of_int sgid" using f(3) by simp
    from update_known [OF look [OF this] g] True f(2) show ?thesis
      using i g pos by (simp add: p25_patch_prepare_grg_update_def Let_def set2)
  next
    case False
    then show ?thesis using update_known [OF i g] i g
      by (auto simp: p25_patch_prepare_grg_update_def Let_def)
  qed
  let ?c = "(patch_clear_entry_context ?e)\<lparr>pe_active := False, pe_last_update := now\<rparr>"
  have c: "p25_patch_clear_sg now sgid s = set_patch i ?c s" using i g by (simp add: p25_patch_clear_sg_def)
  have "find_patch_idx (word_of_int sgid) (set_patch i ?c s) = Some i" using f(3) by (intro look) simp
  then show "fst (p25_patch_prepare_grg_update now sgid p False ssn s) = set_patch i
      ((patch_clear_entry_context ?e)\<lparr>pe_active := False, pe_last_update := now, pe_is_patch := p\<rparr>) s"
    using i g f(2) by (simp add: p25_patch_prepare_grg_update_def Let_def c set2)
qed

text \<open>A new session starts clean. Re-activating a live group under a different session number, and
  deactivating any group, forget its members and its key, so nothing learnt from the earlier session
  can decide a later call; re-activation under the same number keeps both.\<close>

theorem regroup_session_change:
  assumes "patch_inv s" "find_patch_idx (word_of_int sgid) s = Some i" "0 < sgid" "sgid \<le> 0xFFFF" "0 \<le> ssn"
  shows "let e = patch_entries s ! i; g = word_of_int sgid;
             s1 = fst (p25_patch_prepare_grg_update now sgid p True ssn s);
             s0 = fst (p25_patch_prepare_grg_update now sgid p False ssn s)
    in (pe_active e \<longrightarrow> pe_ssn e \<noteq> word_of_int (ssn AND 0x1F) \<longrightarrow>
          patch_members g s1 = {} \<and> \<not> p25_patch_sg_key_is_clear t sgid s1) \<and>
       (pe_ssn e = word_of_int (ssn AND 0x1F) \<longrightarrow>
          patch_members g s1 = patch_members g s \<and> pe_key (patch_entries s1 ! i) = pe_key e) \<and>
       patch_members g s0 = {} \<and> \<not> p25_patch_sg_key_is_clear t sgid s0"
proof -
  let ?g = "word_of_int sgid :: u16" and ?e = "patch_entries s ! i"
  note f = find_patch_Some [OF assms(1,2)] and pk = prepare_known [OF assms(1-4)]
  have no_clear: "\<not> p25_patch_sg_key_is_clear t sgid (set_patch i x s)"
    if "pe_sgid x = ?g" "\<not> pe_key_valid x \<or> \<not> pe_active x" for x
  proof
    assume "p25_patch_sg_key_is_clear t sgid (set_patch i x s)"
    then obtain y where y: "y \<in> set ((patch_live s)[i := x])" "pe_active y" "pe_sgid y = ?g" "pe_key_valid y"
      by (auto simp: p25_patch_sg_key_is_clear_def dest!: sg_clear_loop_entry split: if_splits)
    then obtain j where j: "j < length (patch_live s)" "y = (patch_live s)[i := x] ! j"
      by (auto simp: in_set_conv_nth)
    show False
    proof (cases "j = i")
      case True
      then show False using that y j f(1) by simp
    next
      case False
      then have "patch_keys s ! j = patch_keys s ! i" "i < length (patch_keys s)" "j < length (patch_keys s)"
        using y(3) j f by (simp_all add: patch_keys_def)
      then show False using False distinct_keys [OF assms(1)] nth_eq_iff_index_eq by blast
    qed
  qed
  have members: "patch_members ?g (set_patch i x s) = set (take (pe_wgid_count x) (pe_wgid x))" if "pe_sgid x = ?g" for x
    using members_after_set [OF assms(1,2) that] by simp
  have old: "patch_members ?g s = set (take (pe_wgid_count ?e) (pe_wgid ?e))" by (simp add: patch_members_def assms(2))
  have cleared: "pe_wgid_count (patch_clear_entry_context ?e) = 0" by (simp add: patch_clear_entry_context_def)
  show ?thesis unfolding Let_def pk
    using assms(5) f(2,3) cleared by (simp add: members no_clear old)
qed

theorem regroup_session_change_witness:
  "patch_members 77 (fst (p25_patch_prepare_grg_update 103 77 True True 4 patch_sample)) = {} \<and>
   patch_members 77 (fst (p25_patch_prepare_grg_update 103 77 True True 0 patch_sample)) = {5, 6}"
proof -
  have inv: "patch_inv patch_sample" unfolding patch_sample_def by (rule patch_inv_run [OF patch_inv_boot])
  have f: "find_patch_idx (word_of_int 77) patch_sample = Some 0" "pe_active (patch_entries patch_sample ! 0)"
    "pe_ssn (patch_entries patch_sample ! 0) = 0" "patch_members 77 patch_sample = {5, 6}"
    by (code_simp)+
  have w: "(word_of_int (4 AND 0x1F) :: u8) \<noteq> 0" "(word_of_int (0 AND 0x1F) :: u8) = 0" by simp_all
  show ?thesis
    using regroup_session_change [OF inv f(1), of 4 103 True 103] regroup_session_change [OF inv f(1), of 0 103 True 103]
      f(2-4) w by (simp add: Let_def)
qed

section \<open>The status line fits its buffer\<close>

definition fits :: "nat \<Rightarrow> string \<times> nat \<Rightarrow> bool" where
  "fits cap b \<longleftrightarrow> length (fst b) = min (snd b) (cap - 1)"

lemma fits_append: "0 < cap \<Longrightarrow> fits cap b \<Longrightarrow> fits cap (p25_patch_append cap txt b)"
  by (cases b) (auto simp: fits_def p25_patch_append_def Let_def min_def)

lemma fits_fold: "fits cap b \<Longrightarrow> (\<And>k b. fits cap b \<Longrightarrow> fits cap (f k b)) \<Longrightarrow> fits cap (fold f ks b)"
  by (induction ks arbitrary: b) auto

lemma fits_entry: "0 < cap \<Longrightarrow> fits cap b \<Longrightarrow> fits cap (compose_entry cap e b)"
  by (auto simp: compose_entry_def patch_append_wg_summary_def patch_append_crypt_summary_def Let_def
      intro!: fits_append fits_fold)

lemma fits_loop: "0 < cap \<Longrightarrow> fits cap b \<Longrightarrow> fits cap (compose_loop cap es b)"
proof (induction es arbitrary: b)
  case (Cons e es)
  then show ?case using fits_entry [OF Cons.prems, of e] Cons.IH [OF Cons.prems(1)] by (simp add: Let_def)
qed simp

text \<open>
  Whatever the table holds, the text written is shorter than the buffer, so the terminator fits, and
  it is the returned number of characters unless the text was cut at the end of the buffer.
\<close>

lemma compose_fits:
  assumes "p25_patch_compose_details now cap s = (s', out, n)" "0 < cap"
  shows "length out < cap" "length out = min n (cap - 1)"
proof -
  have "fits cap (compose_loop cap (patch_live (patch_sweep_stale now s)) ([], 0))"
    using assms(2) by (intro fits_loop) (simp_all add: fits_def)
  then show "length out < cap" "length out = min n (cap - 1)"
    using assms by (auto simp: p25_patch_compose_details_def Let_def fits_def)
qed

end
