(* ===== verification/Fec_Linear.thy ===== *)
theory Fec_Linear
  imports Prelude
begin

text \<open>
  The syndrome decoders of \<open>src/fec/fec.c\<close> in general form. A received word is a list of bits (the C
  code keeps one bit per byte), a parity-check matrix a list of rows, and the syndrome index reads the
  parity of every row, most significant first. A decoder looks the index up in a table of bit
  positions and flips them in place. The interface \<open>syndrome_decoder\<close> states what such a table must
  promise; \<open>table_code\<close> derives the promise for the tables that the init functions fill, from the
  minimum weight of the code.
\<close>

section \<open>Bits, parities, flips\<close>

type_synonym bits = "bool list"

definition bits_of :: "nat list \<Rightarrow> bits" where
  "bits_of ds = map (\<lambda>d. d = 1) ds"

text \<open>\<open>(x[0] * h[0] + x[1] * h[1] + ...) % 2\<close>.\<close>

definition dot :: "bits \<Rightarrow> bits \<Rightarrow> bool" where
  "dot row x = odd (sum_list (map2 (\<lambda>h b. of_bool h * of_bool b :: nat) row x))"

text \<open>\<open>sum of bit_i << (n - 1 - i)\<close>: the first bit is the most significant.\<close>

definition bits_value :: "bits \<Rightarrow> nat" where
  "bits_value xs = horner_sum of_bool 2 (rev xs)"

definition syndrome :: "bits list \<Rightarrow> bits \<Rightarrow> bits" where
  "syndrome H x = map (\<lambda>row. dot row x) H"

definition syndrome_index :: "bits list \<Rightarrow> bits \<Rightarrow> nat" where
  "syndrome_index H x = bits_value (syndrome H x)"

definition flip_bit :: "nat \<Rightarrow> bits \<Rightarrow> bits" where
  "flip_bit j x = x[j := \<not> x ! j]"

definition flip_bits :: "nat list \<Rightarrow> bits \<Rightarrow> bits" where
  "flip_bits ps x = fold flip_bit ps x"

definition codeword :: "bits list \<Rightarrow> bits \<Rightarrow> bool" where
  "codeword H c \<longleftrightarrow> list_all (\<lambda>row. \<not> dot row c) H"

text \<open>The index of an error pattern: \<open>((H[i1] + H[i2] + H[i3]) % 2) << (r - 1 - ir)\<close> summed over the rows.\<close>

definition pattern_bits :: "bits list \<Rightarrow> nat list \<Rightarrow> bits" where
  "pattern_bits H ps = map (\<lambda>row. odd (\<Sum>j\<leftarrow>ps. of_bool (row ! j) :: nat)) H"

definition pattern_index :: "bits list \<Rightarrow> nat list \<Rightarrow> nat" where
  "pattern_index H ps = bits_value (pattern_bits H ps)"

definition hamming_dist :: "bits \<Rightarrow> bits \<Rightarrow> nat" where
  "hamming_dist x y = length (filter (\<lambda>(a, b). a \<noteq> b) (zip x y))"

lemma dot_simps [simp]:
  "dot [] x = False" "dot row [] = False"
  "dot (h # row) (b # x) = ((h \<and> b) \<noteq> dot row x)"
  by (auto simp: dot_def)

lemma length_flip [simp]: "length (flip_bit j x) = length x" "length (flip_bits ps x) = length x"
proof -
  show l: "length (flip_bit j x) = length x" for j x by (simp add: flip_bit_def)
  show "length (flip_bits ps x) = length x"
    unfolding flip_bits_def by (induction ps arbitrary: x) (simp_all add: l)
qed

lemma flip_bits_simps [simp]:
  "flip_bits [] x = x" "flip_bits (p # ps) x = flip_bits ps (flip_bit p x)"
  by (simp_all add: flip_bits_def)

lemma nth_flip_bits:
  "i < length x \<Longrightarrow> flip_bits ps x ! i = (x ! i \<noteq> odd (count_list ps i))"
  by (induction ps arbitrary: x) (auto simp: flip_bit_def nth_list_update)

lemma count_list_distinct: "distinct ps \<Longrightarrow> count_list ps i = of_bool (i \<in> set ps)"
  by (induction ps) auto

lemma flip_bits_twice:
  assumes "distinct ps" "distinct qs" "set ps = set qs"
  shows "flip_bits ps (flip_bits qs x) = x"
  using assms by (intro nth_equalityI) (auto simp: nth_flip_bits count_list_distinct)

lemma dot_flip_bit:
  "j < length x \<Longrightarrow> length row = length x \<Longrightarrow> dot row (flip_bit j x) = (dot row x \<noteq> row ! j)"
proof (induction row arbitrary: j x)
  case (Cons h row)
  then obtain b y where x: "x = b # y" by (cases x) auto
  show ?case
  proof (cases j)
    case 0
    then show ?thesis by (auto simp: x flip_bit_def)
  next
    case (Suc i)
    then show ?thesis using Cons.IH [of i y] Cons.prems by (auto simp: x flip_bit_def)
  qed
qed simp

lemma dot_flip_bits:
  "\<forall>j\<in>set ps. j < length x \<Longrightarrow> length row = length x \<Longrightarrow>
     dot row (flip_bits ps x) = (dot row x \<noteq> odd (\<Sum>j\<leftarrow>ps. of_bool (row ! j) :: nat))"
  by (induction ps arbitrary: x) (auto simp: dot_flip_bit)

text \<open>The syndrome of a corrupted codeword depends on the error pattern only.\<close>

lemma syndrome_flip_bits:
  assumes "codeword H c" "\<forall>row\<in>set H. length row = length c" "\<forall>j\<in>set ps. j < length c"
  shows "syndrome H (flip_bits ps c) = pattern_bits H ps"
  using assms dot_flip_bits [OF assms(3)] by (auto simp: syndrome_def pattern_bits_def codeword_def list_all_iff)

lemma hamming_dist_pattern:
  assumes "length x = length c"
  obtains ps where "sorted_wrt (<) ps" "set ps \<subseteq> {..<length c}" "length ps = hamming_dist c x"
    "x = flip_bits ps c"
proof -
  let ?ps = "filter (\<lambda>i. c ! i \<noteq> x ! i) [0..<length c]"
  have "hamming_dist c x = length ?ps"
  proof -
    have "zip c x = map (\<lambda>i. (c ! i, x ! i)) [0..<length c]"
      using assms by (intro nth_equalityI) simp_all
    then show ?thesis by (simp add: hamming_dist_def filter_map comp_def)
  qed
  moreover have "x = flip_bits ?ps c"
    using assms by (intro nth_equalityI) (auto simp: nth_flip_bits count_list_distinct)
  ultimately show ?thesis by (intro that [of ?ps]) (auto simp: sorted_wrt_filter)
qed

lemma bit_bits_value: "bit (bits_value xs) m \<longleftrightarrow> m < length xs \<and> xs ! (length xs - 1 - m)"
  by (auto simp: bits_value_def bit_horner_sum_bit_iff rev_nth)

lemma bits_value_less: "bits_value xs < 2 ^ length xs"
  using horner_sum_of_bool_2_less [of "rev xs"] by (simp add: bits_value_def)

lemma bits_value_inj:
  assumes "bits_value xs = bits_value ys" "length xs = length ys"
  shows "xs = ys"
proof (intro nth_equalityI)
  fix i assume i: "i < length xs"
  then have "bit (bits_value xs) (length xs - 1 - i) = bit (bits_value ys) (length ys - 1 - i)"
    using assms by simp
  then show "xs ! i = ys ! i" using i assms(2) by (auto simp: bit_bits_value)
qed (rule assms(2))

lemma bits_value_flip:
  assumes "i < length xs"
  shows "bits_value (xs[i := \<not> xs ! i]) = bits_value xs XOR 2 ^ (length xs - 1 - i)"
proof (rule bit_eqI)
  fix m
  have p: "bit (2 ^ k :: nat) j \<longleftrightarrow> j = k" for k j by (auto simp: bit_exp_iff)
  show "bit (bits_value (xs[i := \<not> xs ! i])) m = bit (bits_value xs XOR 2 ^ (length xs - 1 - i)) m"
  proof (cases "m < length xs")
    case True
    then have "length xs - 1 - m = i \<longleftrightarrow> m = length xs - 1 - i" "length xs - 1 - m < length xs"
      using assms by arith+
    then show ?thesis using True assms
      by (cases "m = length xs - 1 - i") (simp_all add: bit_bits_value bit_xor_iff p)
  next
    case False
    then show ?thesis using assms by (simp add: bit_bits_value bit_xor_iff p)
  qed
qed

lemma bits_value_zero: "bits_value xs = 0 \<longleftrightarrow> (\<forall>x\<in>set xs. \<not> x)"
proof -
  have z: "bits_value (replicate (length xs) False) = 0"
    by (rule bit_eqI) (simp add: bit_bits_value)
  have "bits_value xs = 0 \<longleftrightarrow> xs = replicate (length xs) False"
    using bits_value_inj [of xs "replicate (length xs) False"] z by (metis length_replicate)
  also have "\<dots> \<longleftrightarrow> (\<forall>x\<in>set xs. \<not> x)"
    using replicate_eqI [of xs "length xs" False] by (metis in_set_replicate)
  finally show ?thesis .
qed

section \<open>The decoder interface\<close>

text \<open>A bit position of a pattern; the table of a decoder returns the positions to flip.\<close>

definition error_pattern :: "nat \<Rightarrow> nat \<Rightarrow> nat list \<Rightarrow> bool" where
  "error_pattern n t ps \<longleftrightarrow> sorted_wrt (<) ps \<and> set ps \<subseteq> {..<n} \<and> length ps \<le> t"

lemma sorted_less_distinct: "sorted_wrt (<) (ps::nat list) \<Longrightarrow> distinct ps"
  by (induction ps) auto

locale syndrome_decoder =
  fixes H :: "bits list" and n :: nat and t :: nat and flips :: "nat \<Rightarrow> nat list"
  assumes rows: "\<forall>row\<in>set H. length row = n"
    and flips_pattern: "error_pattern n t ps \<Longrightarrow> flips (pattern_index H ps) = ps"
begin

definition correct :: "bits \<Rightarrow> bits" where
  "correct x = flip_bits (flips (syndrome_index H x)) x"

lemma syndrome_of_error:
  assumes "codeword H c" "length c = n" "set ps \<subseteq> {..<n}"
  shows "syndrome_index H (flip_bits ps c) = pattern_index H ps"
proof -
  have "\<forall>j\<in>set ps. j < length c" using assms(2,3) by auto
  then have "syndrome H (flip_bits ps c) = pattern_bits H ps"
    using syndrome_flip_bits [OF assms(1)] rows assms(2) by simp
  then show ?thesis by (simp add: syndrome_index_def pattern_index_def)
qed

text \<open>Every received word within \<open>t\<close> of a codeword is corrected to it.\<close>

lemma flips_of_error:
  assumes "codeword H c" "length c = n" "length x = n" "hamming_dist c x \<le> t"
  obtains ps where "error_pattern n t ps" "length ps = hamming_dist c x" "x = flip_bits ps c"
    "flips (syndrome_index H x) = ps" "flip_bits ps x = c"
proof -
  obtain ps where ps: "sorted_wrt (<) ps" "set ps \<subseteq> {..<length c}" "length ps = hamming_dist c x" "x = flip_bits ps c"
    using hamming_dist_pattern [of x c] assms(2,3) by metis
  then have e: "error_pattern n t ps" using assms by (simp add: error_pattern_def)
  have "flips (syndrome_index H x) = ps"
    using syndrome_of_error [OF assms(1,2)] flips_pattern [OF e] ps assms(2) by simp
  moreover have "flip_bits ps x = c"
    using flip_bits_twice [of ps ps c] sorted_less_distinct [OF ps(1)] ps(4) by simp
  ultimately show ?thesis using that e ps by blast
qed

lemma correct_errors:
  assumes "codeword H c" "length c = n" "length x = n" "hamming_dist c x \<le> t"
  shows "correct x = c"
  using flips_of_error [OF assms] by (metis correct_def)

lemma no_flips_iff:
  assumes "codeword H c" "length c = n" "length x = n" "hamming_dist c x \<le> t"
  shows "flips (syndrome_index H x) = [] \<longleftrightarrow> x = c"
proof -
  obtain ps where ps: "x = flip_bits ps c" "flips (syndrome_index H x) = ps" "flip_bits ps x = c"
    using flips_of_error [OF assms] by metis
  have "error_pattern n t []" by (simp add: error_pattern_def)
  from flips_pattern [OF this] syndrome_of_error [OF assms(1,2), of "[]"] have "flips (syndrome_index H c) = []" by simp
  with ps show ?thesis by auto
qed

lemma index_zero_iff:
  assumes "codeword H c" "length c = n" "length x = n" "hamming_dist c x \<le> t"
  shows "syndrome_index H x = 0 \<longleftrightarrow> x = c"
proof -
  have "error_pattern n t []" by (simp add: error_pattern_def)
  moreover have z: "pattern_index H [] = 0" by (simp add: pattern_index_def bits_value_zero pattern_bits_def)
  ultimately have "flips 0 = []" using flips_pattern by metis
  moreover have "syndrome_index H c = 0" using syndrome_of_error [OF assms(1,2), of "[]"] z by simp
  ultimately show ?thesis using no_flips_iff [OF assms] by auto
qed

end

section \<open>Minimum weight\<close>

text \<open>
  Walking over all subsets of the information columns, accumulating their sum: every non-empty one
  together with its parity part must have weight at least \<open>d\<close>.
\<close>

fun weight :: "bits \<Rightarrow> nat" where
  "weight [] = 0"
| "weight (b # xs) = (if b then Suc (weight xs) else weight xs)"

fun xor_bits :: "bits \<Rightarrow> bits \<Rightarrow> bits" where
  "xor_bits (a # xs) (b # ys) = (a \<noteq> b) # xor_bits xs ys"
| "xor_bits xs ys = []"

fun min_weight_check :: "nat \<Rightarrow> nat \<Rightarrow> bits \<Rightarrow> bits list \<Rightarrow> bool" where
  "min_weight_check d w acc [] = (w = 0 \<or> d \<le> w + weight acc)"
| "min_weight_check d w acc (c # cs) =
     (if d \<le> w then True
      else min_weight_check d w acc cs \<and> min_weight_check d (Suc w) (xor_bits acc c) cs)"

fun combine :: "bits \<Rightarrow> bits list \<Rightarrow> bits \<Rightarrow> bits" where
  "combine (b # m) (c # cs) acc = combine m cs (if b then xor_bits acc c else acc)"
| "combine m cs acc = acc"

lemma min_weight_sound:
  "min_weight_check d w acc cs \<Longrightarrow> length m = length cs \<Longrightarrow> 0 < w + weight m \<Longrightarrow>
     d \<le> w + weight m + weight (combine m cs acc)"
proof (induction d w acc cs arbitrary: m rule: min_weight_check.induct)
  case (1 d w acc)
  then show ?case by simp
next
  case (2 d w acc c cs)
  then obtain b m' where m: "m = b # m'" "length m' = length cs" by (cases m) auto
  show ?case
  proof (cases "d \<le> w")
    case False
    then have chk: "min_weight_check d w acc cs" "min_weight_check d (Suc w) (xor_bits acc c) cs" using "2.prems" by simp_all
    show ?thesis using "2.IH" [OF False] chk m "2.prems"(3) by (cases b) auto
  qed simp
qed

lemma length_xor_bits [simp]: "length (xor_bits xs ys) = min (length xs) (length ys)"
  by (induction xs ys rule: xor_bits.induct) auto

lemma nth_xor_bits: "i < length xs \<Longrightarrow> i < length ys \<Longrightarrow> xor_bits xs ys ! i = (xs ! i \<noteq> ys ! i)"
proof (induction xs ys arbitrary: i rule: xor_bits.induct)
  case (1 a xs b ys)
  then show ?case by (cases i) auto
qed simp_all

lemma combine_nth:
  "length m = length cs \<Longrightarrow> \<forall>c\<in>set cs. length c = length acc \<Longrightarrow> i < length acc \<Longrightarrow>
     length (combine m cs acc) = length acc \<and>
     combine m cs acc ! i = (acc ! i \<noteq> dot (map (\<lambda>c. c ! i) cs) m)"
  by (induction m cs acc rule: combine.induct) (auto simp: nth_xor_bits)

lemma weight_append [simp]: "weight (xs @ ys) = weight xs + weight ys"
  by (induction xs) auto

lemma weight_zero: "weight xs = 0 \<longleftrightarrow> (\<forall>x\<in>set xs. \<not> x)"
  by (induction xs) auto

lemma weight_flip_bits: "weight (flip_bits ps x) \<le> weight x + length ps"
proof (induction ps arbitrary: x)
  case (Cons p ps)
  have "weight (flip_bit j y) \<le> Suc (weight y)" for j y
  proof (induction y arbitrary: j)
    case (Cons b y)
    then show ?case by (cases j) (auto simp: flip_bit_def)
  qed (simp add: flip_bit_def)
  then show ?case using Cons [of "flip_bit p x"] by (metis add_Suc_right add_Suc add_le_mono1 flip_bits_simps(2) le_trans length_Cons)
qed simp

section \<open>Correction tables\<close>

text \<open>
  \<open>corr[s][0] = i1; corr[s][1] = i2; ...\<close> writes the positions of one pattern into the row of its
  index; the rest of the row keeps what it held, 0xFF after the initial memset.
\<close>

definition corr_put :: "nat list list \<Rightarrow> nat \<times> nat list \<Rightarrow> nat list list" where
  "corr_put tab w = (case w of (s, ps) \<Rightarrow> tab[s := ps @ drop (length ps) (tab ! s)])"

definition corr_fill :: "nat \<Rightarrow> nat \<Rightarrow> (nat \<times> nat list) list \<Rightarrow> nat list list" where
  "corr_fill r t ws = foldl corr_put (replicate (2 ^ r) (replicate t 255)) ws"

definition corr_flips :: "nat list list \<Rightarrow> nat \<Rightarrow> nat list" where
  "corr_flips tab s = takeWhile (\<lambda>v. v \<noteq> 255) (tab ! s)"

definition column :: "bits list \<Rightarrow> nat \<Rightarrow> bits" where
  "column H j = map (\<lambda>row. row ! j) H"

lemma length_corr_fill [simp]: "length (corr_fill r t ws) = 2 ^ r"
  unfolding corr_fill_def
  by (induction ws rule: rev_induct) (auto simp: corr_put_def split: prod.split)

lemma corr_fill_row:
  assumes "\<And>u ps qs. (u, ps) \<in> set ws \<Longrightarrow> (u, qs) \<in> set ws \<Longrightarrow> ps = qs" "s < 2 ^ r"
  shows "(s \<notin> fst ` set ws \<longrightarrow> corr_fill r t ws ! s = replicate t 255) \<and>
    (\<forall>ps. (s, ps) \<in> set ws \<longrightarrow> corr_fill r t ws ! s = ps @ replicate (t - length ps) 255)"
  using assms(1)
proof (induction ws rule: rev_induct)
  case Nil
  then show ?case using assms(2) by (simp add: corr_fill_def)
next
  case (snoc w ws)
  obtain u qs where w: "w = (u, qs)" by (cases w)
  have ih: "(s \<notin> fst ` set ws \<longrightarrow> corr_fill r t ws ! s = replicate t 255) \<and>
    (\<forall>ps. (s, ps) \<in> set ws \<longrightarrow> corr_fill r t ws ! s = ps @ replicate (t - length ps) 255)"
    using snoc.prems by (intro snoc.IH) auto
  have step: "corr_fill r t (ws @ [(u, qs)]) = (corr_fill r t ws)[u := qs @ drop (length qs) (corr_fill r t ws ! u)]"
    by (simp add: corr_fill_def corr_put_def)
  show ?case
  proof (cases "u = s")
    case False
    then show ?thesis using ih by (auto simp: step w)
  next
    case True
    have "corr_fill r t (ws @ [(u, qs)]) ! s = qs @ replicate (t - length qs) 255"
    proof (cases "s \<in> fst ` set ws")
      case True
      then obtain ps where ps: "(s, ps) \<in> set ws" by auto
      then have "ps = qs" using snoc.prems [of s ps qs] \<open>u = s\<close> by (simp add: w)
      then show ?thesis using ih ps assms(2) \<open>u = s\<close> unfolding step by simp
    next
      case False
      then show ?thesis using ih assms(2) \<open>u = s\<close> unfolding step by simp
    qed
    moreover have "ps = qs" if "(s, ps) \<in> set (ws @ [w])" for ps
      using that snoc.prems [of s ps qs] True by (simp add: w)
    moreover have "s \<in> fst ` set (ws @ [w])" using True by (simp add: w)
    ultimately show ?thesis unfolding w by blast
  qed
qed

lemma dot_commute: "dot x y = dot y x"
proof (induction x arbitrary: y)
  case (Cons a x)
  then show ?case by (cases y) auto
qed simp

lemma dot_append: "length a = length c \<Longrightarrow> dot (a @ b) (c @ d) = (dot a c \<noteq> dot b d)"
  by (induction a c rule: list_induct2) auto

lemma dot_zero: "dot (replicate m False) x = False"
proof (induction m arbitrary: x)
  case (Suc m)
  then show ?case by (cases x) auto
qed simp

lemma dot_unit:
  assumes "length u = length p" "i < length p" "\<And>j. j < length p \<Longrightarrow> u ! j = (i = j)"
  shows "dot u p = p ! i"
proof -
  have "u = flip_bit i (replicate (length p) False)"
    using assms by (intro nth_equalityI) (auto simp: flip_bit_def nth_list_update)
  then have "dot u p = dot p (flip_bit i (replicate (length p) False))" by (simp add: dot_commute)
  also have "\<dots> = (dot p (replicate (length p) False) \<noteq> p ! i)" using assms(2) by (simp add: dot_flip_bit)
  also have "\<dots> = p ! i" by (simp add: dot_commute [of p] dot_zero)
  finally show ?thesis .
qed

locale table_code =
  fixes H :: "bits list" and k r t :: nat and writes :: "(nat \<times> nat list) list"
  assumes shape: "length H = r" "\<forall>row\<in>set H. length row = k + r"
    and systematic: "i < r \<Longrightarrow> j < r \<Longrightarrow> H ! i ! (k + j) = (i = j)"
    and small: "k + r < 255"
    and dist: "min_weight_check (2 * t + 1) 0 (replicate r False) (map (column H) [0..<k])"
    and writes_iff: "(s, ps) \<in> set writes \<longleftrightarrow> ps \<noteq> [] \<and> error_pattern (k + r) t ps \<and> s = pattern_index H ps"
begin

lemma row_length: "i < r \<Longrightarrow> length (H ! i) = k + r"
  using shape nth_mem by force

text \<open>The parity part of a codeword is the sum of the columns its information part selects.\<close>

lemma codeword_parity:
  assumes "codeword H x" "length x = k + r"
  shows "drop k x = combine (take k x) (map (column H) [0..<k]) (replicate r False)"
proof (rule nth_equalityI)
  let ?cols = "map (column H) [0..<k]" and ?z = "replicate r False"
  have comb: "length (combine (take k x) ?cols ?z) = r \<and>
      combine (take k x) ?cols ?z ! i = dot (map (\<lambda>c. c ! i) ?cols) (take k x)" if "i < r" for i
    using combine_nth [of "take k x" ?cols ?z i] assms(2) shape(1) that by (auto simp: column_def)
  show len: "length (drop k x) = length (combine (take k x) ?cols ?z)"
  proof (cases "r = 0")
    case True
    have "length (combine m cs []) = 0" for m cs by (induction m cs "[]::bits" rule: combine.induct) auto
    then show ?thesis using True assms(2) by simp
  qed (use comb [of 0] assms(2) in simp)
  fix i assume "i < length (drop k x)"
  then have i: "i < r" using assms(2) by simp
  have "\<not> dot (H ! i) x" using assms(1) i shape(1) by (auto simp: codeword_def list_all_length)
  moreover have "dot (H ! i) x = (dot (take k (H ! i)) (take k x) \<noteq> dot (drop k (H ! i)) (drop k x))"
    using dot_append [of "take k (H ! i)" "take k x" "drop k (H ! i)" "drop k x"] row_length [OF i] assms(2) by simp
  moreover have "dot (drop k (H ! i)) (drop k x) = drop k x ! i"
    using row_length [OF i] assms(2) i systematic by (intro dot_unit) auto
  moreover have "map (\<lambda>c. c ! i) ?cols = take k (H ! i)"
    using row_length [OF i] i shape(1) by (intro nth_equalityI) (auto simp: column_def)
  ultimately show "drop k x ! i = combine (take k x) ?cols ?z ! i" using comb [OF i] by simp
qed

lemma min_distance:
  assumes "codeword H x" "length x = k + r" "weight x \<le> 2 * t"
  shows "weight x = 0"
proof (rule ccontr)
  assume nz: "weight x \<noteq> 0"
  let ?m = "take k x" and ?cols = "map (column H) [0..<k]"
  have x: "weight x = weight ?m + weight (combine ?m ?cols (replicate r False))"
    by (metis append_take_drop_id weight_append codeword_parity [OF assms(1,2)])
  have "0 < weight ?m"
  proof (rule ccontr)
    assume "\<not> 0 < weight ?m"
    then have z: "\<forall>b\<in>set ?m. \<not> b" using weight_zero [of ?m] by simp
    have "combine m cs acc = acc" if "\<forall>b\<in>set m. \<not> b" for m cs acc
      using that by (induction m cs acc rule: combine.induct) auto
    from this [OF z] have "weight x = weight (replicate r False)" using x \<open>\<not> 0 < weight ?m\<close> by simp
    then show False using nz weight_zero [of "replicate r False"] by simp
  qed
  then have "2 * t + 1 \<le> 0 + weight ?m + weight (combine ?m ?cols (replicate r False))"
    using assms(2) by (intro min_weight_sound [OF dist]) simp_all
  then show False using x assms(3) by simp
qed

lemma pattern_inj:
  assumes "error_pattern (k + r) t ps" "error_pattern (k + r) t qs" "pattern_index H ps = pattern_index H qs"
  shows "ps = qs"
proof -
  let ?z = "replicate (k + r) False"
  define x where "x = flip_bits qs (flip_bits ps ?z)"
  have len: "length x = k + r" by (simp add: x_def)
  have bits: "pattern_bits H ps = pattern_bits H qs"
    using assms(3) bits_value_inj [of "pattern_bits H ps" "pattern_bits H qs"]
    by (simp add: pattern_index_def) (simp add: pattern_bits_def)
  have "codeword H x"
    unfolding codeword_def list_all_length
  proof (intro allI impI)
    fix i assume i: "i < length H"
    have "length (H ! i) = k + r" using row_length i shape(1) by simp
    then have "dot (H ! i) x = ((dot (H ! i) ?z \<noteq> pattern_bits H ps ! i) \<noteq> pattern_bits H qs ! i)"
      using assms(1,2) i by (auto simp: x_def dot_flip_bits error_pattern_def pattern_bits_def subset_eq)
    then show "\<not> dot (H ! i) x" using bits by (simp add: dot_commute [of "H ! i"] dot_zero)
  qed
  moreover have "weight x \<le> 2 * t"
    using weight_flip_bits [of qs "flip_bits ps ?z"] weight_flip_bits [of ps ?z] weight_zero [of ?z] assms(1,2)
    by (simp add: x_def error_pattern_def)
  ultimately have "\<forall>b\<in>set x. \<not> b" using min_distance [OF _ len] weight_zero by blast
  then have zero: "\<not> x ! i" if "i < k + r" for i using that len nth_mem by metis
  note d = sorted_less_distinct [of ps] sorted_less_distinct [of qs]
  have "(i \<in> set ps) = (i \<in> set qs)" for i
  proof (cases "i < k + r")
    case True
    then show ?thesis using zero [OF True] d assms(1,2)
      by (auto simp: x_def nth_flip_bits count_list_distinct error_pattern_def)
  qed (use assms(1,2) in \<open>auto simp: error_pattern_def\<close>)
  then have "set qs = set ps" by blast
  then show ?thesis using assms(1,2) strict_sorted_equal [of ps qs] by (simp add: error_pattern_def)
qed

lemma fill_flips:
  assumes "error_pattern (k + r) t ps"
  shows "corr_flips (corr_fill r t writes) (pattern_index H ps) = ps"
proof -
  have u: "ps = qs" if "(u, ps) \<in> set writes" "(u, qs) \<in> set writes" for u ps qs
    using that pattern_inj unfolding writes_iff by blast
  have s: "pattern_index H ps < 2 ^ r"
    using bits_value_less [of "pattern_bits H ps"] shape(1) by (simp add: pattern_index_def pattern_bits_def)
  have row: "(pattern_index H ps \<notin> fst ` set writes \<longrightarrow> corr_fill r t writes ! pattern_index H ps = replicate t 255) \<and>
    (\<forall>qs. (pattern_index H ps, qs) \<in> set writes \<longrightarrow>
       corr_fill r t writes ! pattern_index H ps = qs @ replicate (t - length qs) 255)"
    using s by (intro corr_fill_row) (rule u)
  have "corr_fill r t writes ! pattern_index H ps = ps @ replicate (t - length ps) 255"
  proof (cases "ps = []")
    case True
    have "pattern_index H ps \<notin> fst ` set writes"
    proof
      assume "pattern_index H ps \<in> fst ` set writes"
      then obtain qs where "qs \<noteq> []" "error_pattern (k + r) t qs" "pattern_index H ps = pattern_index H qs"
        by (auto simp: writes_iff)
      then show False using pattern_inj [OF assms] True by blast
    qed
    then show ?thesis using row True by simp
  next
    case False
    then have "(pattern_index H ps, ps) \<in> set writes" using assms by (simp add: writes_iff)
    then show ?thesis using row by blast
  qed
  moreover have "\<forall>p\<in>set ps. p \<noteq> 255" using assms small by (auto simp: error_pattern_def)
  ultimately show ?thesis
    by (simp add: corr_flips_def)
qed

end

sublocale table_code \<subseteq> syndrome_decoder H "k + r" t "corr_flips (corr_fill r t writes)"
  using shape(2) fill_flips by unfold_locales auto

section \<open>The loops that fill the tables\<close>

text \<open>
  The nested loops of the Golay and quadratic-residue init functions, as the sequence of table rows
  they write: the index and the positions. Index bits of the parity part are flipped with
  \<open>1 << (r - 1 - ip)\<close>.
\<close>

definition golay_writes :: "bits list \<Rightarrow> nat \<Rightarrow> nat \<Rightarrow> (nat \<times> nat list) list" where
  "golay_writes H k r =
     (let bit = (\<lambda>ip. 2 ^ (r - 1 - ip)) in
      concat (map (\<lambda>i1.
        concat (map (\<lambda>i2.
          map (\<lambda>i3. (pattern_index H [i1, i2, i3], [i1, i2, i3])) [Suc i2..<k]
          @ [(pattern_index H [i1, i2], [i1, i2])]
          @ map (\<lambda>ip. (pattern_index H [i1, i2] XOR bit ip, [i1, i2, k + ip])) [0..<r]) [Suc i1..<k])
        @ [(pattern_index H [i1], [i1])]
        @ concat (map (\<lambda>ip1.
            (pattern_index H [i1] XOR bit ip1, [i1, k + ip1])
            # map (\<lambda>ip2. (pattern_index H [i1] XOR bit ip1 XOR bit ip2, [i1, k + ip1, k + ip2])) [Suc ip1..<r])
            [0..<r])) [0..<k])
      @ concat (map (\<lambda>ip1.
          (bit ip1, [k + ip1])
          # concat (map (\<lambda>ip2.
              (bit ip1 XOR bit ip2, [k + ip1, k + ip2])
              # map (\<lambda>ip3. (bit ip1 XOR bit ip2 XOR bit ip3, [k + ip1, k + ip2, k + ip3])) [Suc ip2..<r])
              [Suc ip1..<r])) [0..<r]))"

definition qr_writes :: "bits list \<Rightarrow> nat \<Rightarrow> nat \<Rightarrow> (nat \<times> nat list) list" where
  "qr_writes H k r =
     (let bit = (\<lambda>ip. 2 ^ (r - 1 - ip)) in
      concat (map (\<lambda>i1.
        map (\<lambda>i2. (pattern_index H [i1, i2], [i1, i2])) [Suc i1..<k]
        @ [(pattern_index H [i1], [i1])]
        @ map (\<lambda>ip. (pattern_index H [i1] XOR bit ip, [i1, k + ip])) [0..<r]) [0..<k])
      @ concat (map (\<lambda>ip1.
          (bit ip1, [k + ip1])
          # map (\<lambda>ip2. (bit ip1 XOR bit ip2, [k + ip1, k + ip2])) [Suc ip1..<r]) [0..<r]))"

definition systematic_check :: "bits list \<Rightarrow> nat \<Rightarrow> nat \<Rightarrow> bool" where
  "systematic_check H k r \<longleftrightarrow> length H = r \<and> list_all (\<lambda>row. length row = k + r) H \<and>
     list_all (\<lambda>i. list_all (\<lambda>j. H ! i ! (k + j) = (i = j)) [0..<r]) [0..<r]"

text \<open>With unit columns in the parity part, a further parity flip is an exclusive-or of one bit.\<close>

lemma pattern_index_parity:
  assumes "systematic_check H k r" "ip < r"
  shows "pattern_index H (ps @ [k + ip]) = pattern_index H ps XOR 2 ^ (r - 1 - ip)"
proof -
  have len: "length H = r" using assms(1) by (simp add: systematic_check_def)
  have unit: "H ! i ! (k + ip) = (i = ip)" if "i < r" for i
    using assms that by (simp add: systematic_check_def list_all_length)
  have "pattern_bits H (ps @ [k + ip]) = (pattern_bits H ps)[ip := \<not> pattern_bits H ps ! ip]"
    using assms(2) len unit by (intro nth_equalityI) (auto simp: pattern_bits_def nth_list_update)
  then show ?thesis using bits_value_flip [of ip "pattern_bits H ps"] assms(2) len
    by (simp add: pattern_index_def) (simp add: pattern_bits_def)
qed

lemma pattern_index_parts:
  assumes "systematic_check H k r"
  shows "ip < r \<Longrightarrow> pattern_index H ps XOR 2 ^ (r - 1 - ip) = pattern_index H (ps @ [k + ip])"
    and "pattern_index H [] = 0"
  using pattern_index_parity [OF assms] by (simp_all add: pattern_index_def bits_value_zero pattern_bits_def)

lemma indexed_sound:
  assumes "systematic_check H k r" "(s, ps) \<in> set (golay_writes H k r) \<or> (s, ps) \<in> set (qr_writes H k r)"
  shows "s = pattern_index H ps"
proof -
  note p = pattern_index_parity [OF assms(1)] and z = pattern_index_parts(2) [OF assms(1)]
  have one: "pattern_index H [k + a] = 2 ^ (r - 1 - a)" if "a < r" for a using p [OF that, of "[]"] z by simp
  have two: "pattern_index H [x, k + b] = pattern_index H [x] XOR 2 ^ (r - 1 - b)" if "b < r" for x b
    using p [OF that, of "[x]"] by simp
  have three: "pattern_index H [x, y, k + c] = pattern_index H [x, y] XOR 2 ^ (r - 1 - c)" if "c < r" for x y c
    using p [OF that, of "[x, y]"] by simp
  show ?thesis using assms(2)
    by (auto simp: golay_writes_def qr_writes_def Let_def one two three xor.assoc)
qed

text \<open>The patterns the loops visit are exactly the error patterns of up to three, or two, positions.\<close>

lemma sorted_lists:
  "error_pattern n 3 ps \<and> ps \<noteq> [] \<longleftrightarrow> (\<exists>a<n. ps = [a]) \<or> (\<exists>b<n. \<exists>a<b. ps = [a, b]) \<or>
     (\<exists>c<n. \<exists>b<c. \<exists>a<b. ps = [a, b, c])"
  "error_pattern n 2 ps \<and> ps \<noteq> [] \<longleftrightarrow> (\<exists>a<n. ps = [a]) \<or> (\<exists>b<n. \<exists>a<b. ps = [a, b])"
proof -
  consider "ps = []" | a where "ps = [a]" | a b where "ps = [a, b]" | a b c where "ps = [a, b, c]"
    | a b c d qs where "ps = a # b # c # d # qs"
    by (metis list.exhaust)
  then have "(error_pattern n 3 ps \<and> ps \<noteq> [] \<longleftrightarrow> (\<exists>a<n. ps = [a]) \<or> (\<exists>b<n. \<exists>a<b. ps = [a, b]) \<or>
     (\<exists>c<n. \<exists>b<c. \<exists>a<b. ps = [a, b, c])) \<and>
     (error_pattern n 2 ps \<and> ps \<noteq> [] \<longleftrightarrow> (\<exists>a<n. ps = [a]) \<or> (\<exists>b<n. \<exists>a<b. ps = [a, b]))"
    by cases (auto simp: error_pattern_def)
  then show "error_pattern n 3 ps \<and> ps \<noteq> [] \<longleftrightarrow> (\<exists>a<n. ps = [a]) \<or> (\<exists>b<n. \<exists>a<b. ps = [a, b]) \<or>
     (\<exists>c<n. \<exists>b<c. \<exists>a<b. ps = [a, b, c])"
    "error_pattern n 2 ps \<and> ps \<noteq> [] \<longleftrightarrow> (\<exists>a<n. ps = [a]) \<or> (\<exists>b<n. \<exists>a<b. ps = [a, b])" by blast+
qed

lemma split_index: "a < k + (r::nat) \<Longrightarrow> a < k \<or> (\<exists>ip<r. a = k + ip)"
  by (metis add_less_cancel_left le_Suc_ex linorder_not_le)

text \<open>The positions alone, chunk by chunk.\<close>

definition chunk2 :: "nat \<Rightarrow> nat \<Rightarrow> nat \<Rightarrow> nat \<Rightarrow> nat list list" where
  "chunk2 k r i1 i2 = map (\<lambda>i3. [i1, i2, i3]) [Suc i2..<k] @ [[i1, i2]] @ map (\<lambda>ip. [i1, i2, k + ip]) [0..<r]"

definition chunk1 :: "nat \<Rightarrow> nat \<Rightarrow> nat \<Rightarrow> nat list list" where
  "chunk1 k r i1 = concat (map (\<lambda>ip1. [i1, k + ip1] # map (\<lambda>ip2. [i1, k + ip1, k + ip2]) [Suc ip1..<r]) [0..<r])"

definition chunk0 :: "nat \<Rightarrow> nat \<Rightarrow> nat list list" where
  "chunk0 k r = concat (map (\<lambda>ip1. [k + ip1] # concat (map (\<lambda>ip2. [k + ip1, k + ip2]
     # map (\<lambda>ip3. [k + ip1, k + ip2, k + ip3]) [Suc ip2..<r]) [Suc ip1..<r])) [0..<r])"

lemma golay_chunks: "map snd (golay_writes H k r) =
    concat (map (\<lambda>i1. concat (map (chunk2 k r i1) [Suc i1..<k]) @ [[i1]] @ chunk1 k r i1) [0..<k]) @ chunk0 k r"
  by (simp add: golay_writes_def Let_def chunk2_def [abs_def] chunk1_def chunk0_def map_concat comp_def)

lemma chunk2_iff: "ps \<in> set (chunk2 k r i1 i2) \<longleftrightarrow>
    (\<exists>i3. i2 < i3 \<and> i3 < k \<and> ps = [i1, i2, i3]) \<or> ps = [i1, i2] \<or> (\<exists>ip<r. ps = [i1, i2, k + ip])"
  by (auto simp: chunk2_def)

lemma chunk1_iff: "ps \<in> set (chunk1 k r i1) \<longleftrightarrow>
    (\<exists>ip1<r. ps = [i1, k + ip1] \<or> (\<exists>ip2. ip1 < ip2 \<and> ip2 < r \<and> ps = [i1, k + ip1, k + ip2]))"
  by (fastforce simp: chunk1_def)

lemma chunk0_iff: "ps \<in> set (chunk0 k r) \<longleftrightarrow>
    (\<exists>ip1<r. ps = [k + ip1] \<or> (\<exists>ip2. ip1 < ip2 \<and> ip2 < r \<and> (ps = [k + ip1, k + ip2] \<or>
       (\<exists>ip3. ip2 < ip3 \<and> ip3 < r \<and> ps = [k + ip1, k + ip2, k + ip3]))))"
  by (fastforce simp: chunk0_def)

lemma golay_visits: "ps \<in> snd ` set (golay_writes H k r) \<longleftrightarrow>
    (\<exists>i1<k. (\<exists>i2. i1 < i2 \<and> i2 < k \<and> ps \<in> set (chunk2 k r i1 i2)) \<or> ps = [i1] \<or> ps \<in> set (chunk1 k r i1)) \<or>
    ps \<in> set (chunk0 k r)"
proof -
  have "ps \<in> snd ` set (golay_writes H k r) \<longleftrightarrow> ps \<in> set (map snd (golay_writes H k r))" by simp
  also have "\<dots> \<longleftrightarrow> (\<exists>i1<k. (\<exists>i2. i1 < i2 \<and> i2 < k \<and> ps \<in> set (chunk2 k r i1 i2)) \<or> ps = [i1] \<or> ps \<in> set (chunk1 k r i1)) \<or>
    ps \<in> set (chunk0 k r)"
    unfolding golay_chunks set_append set_concat set_map by (simp add: Suc_le_eq Bex_def) blast
  finally show ?thesis .
qed

lemma golay_chunk_in:
  "i1 < i2 \<Longrightarrow> i2 < k \<Longrightarrow> ps \<in> set (chunk2 k r i1 i2) \<Longrightarrow> ps \<in> snd ` set (golay_writes H k r)"
  "i1 < k \<Longrightarrow> ps \<in> set (chunk1 k r i1) \<Longrightarrow> ps \<in> snd ` set (golay_writes H k r)"
  "ps \<in> set (chunk0 k r) \<Longrightarrow> ps \<in> snd ` set (golay_writes H k r)"
  "i1 < k \<Longrightarrow> [i1] \<in> snd ` set (golay_writes H k r)"
proof -
  show "ps \<in> snd ` set (golay_writes H k r)" if "i1 < i2" "i2 < k" "ps \<in> set (chunk2 k r i1 i2)"
  proof -
    have "i1 < k" using that(1,2) by simp
    then show ?thesis using that unfolding golay_visits by blast
  qed
  show "i1 < k \<Longrightarrow> ps \<in> set (chunk1 k r i1) \<Longrightarrow> ps \<in> snd ` set (golay_writes H k r)"
    "ps \<in> set (chunk0 k r) \<Longrightarrow> ps \<in> snd ` set (golay_writes H k r)"
    "i1 < k \<Longrightarrow> [i1] \<in> snd ` set (golay_writes H k r)"
    unfolding golay_visits by blast+
qed

lemma golay_intros:
  "i1 < i2 \<Longrightarrow> i2 < i3 \<Longrightarrow> i3 < k \<Longrightarrow> [i1, i2, i3] \<in> snd ` set (golay_writes H k r)"
  "i1 < i2 \<Longrightarrow> i2 < k \<Longrightarrow> [i1, i2] \<in> snd ` set (golay_writes H k r)"
  "i1 < i2 \<Longrightarrow> i2 < k \<Longrightarrow> u < r \<Longrightarrow> [i1, i2, k + u] \<in> snd ` set (golay_writes H k r)"
  "i1 < k \<Longrightarrow> u < r \<Longrightarrow> [i1, k + u] \<in> snd ` set (golay_writes H k r)"
  "i1 < k \<Longrightarrow> u < v \<Longrightarrow> v < r \<Longrightarrow> [i1, k + u, k + v] \<in> snd ` set (golay_writes H k r)"
  "u < r \<Longrightarrow> [k + u] \<in> snd ` set (golay_writes H k r)"
  "u < v \<Longrightarrow> v < r \<Longrightarrow> [k + u, k + v] \<in> snd ` set (golay_writes H k r)"
  "u < v \<Longrightarrow> v < w \<Longrightarrow> w < r \<Longrightarrow> [k + u, k + v, k + w] \<in> snd ` set (golay_writes H k r)"
proof -
  show "i1 < i2 \<Longrightarrow> i2 < i3 \<Longrightarrow> i3 < k \<Longrightarrow> [i1, i2, i3] \<in> snd ` set (golay_writes H k r)"
    by (rule golay_chunk_in(1) [of i1 i2]) (auto simp: chunk2_iff)
  show "i1 < i2 \<Longrightarrow> i2 < k \<Longrightarrow> [i1, i2] \<in> snd ` set (golay_writes H k r)"
    by (rule golay_chunk_in(1) [of i1 i2]) (auto simp: chunk2_iff)
  show "i1 < i2 \<Longrightarrow> i2 < k \<Longrightarrow> u < r \<Longrightarrow> [i1, i2, k + u] \<in> snd ` set (golay_writes H k r)"
    by (rule golay_chunk_in(1) [of i1 i2]) (auto simp: chunk2_iff)
  show "i1 < k \<Longrightarrow> u < r \<Longrightarrow> [i1, k + u] \<in> snd ` set (golay_writes H k r)"
    by (rule golay_chunk_in(2) [of i1]) (auto simp: chunk1_iff)
  show "i1 < k \<Longrightarrow> u < v \<Longrightarrow> v < r \<Longrightarrow> [i1, k + u, k + v] \<in> snd ` set (golay_writes H k r)"
    by (rule golay_chunk_in(2) [of i1]) (auto simp: chunk1_iff)
  show "u < r \<Longrightarrow> [k + u] \<in> snd ` set (golay_writes H k r)"
    by (rule golay_chunk_in(3)) (auto simp: chunk0_iff)
  show "u < v \<Longrightarrow> v < r \<Longrightarrow> [k + u, k + v] \<in> snd ` set (golay_writes H k r)"
    by (rule golay_chunk_in(3)) (auto simp: chunk0_iff)
  show "u < v \<Longrightarrow> v < w \<Longrightarrow> w < r \<Longrightarrow> [k + u, k + v, k + w] \<in> snd ` set (golay_writes H k r)"
  proof (rule golay_chunk_in(3))
    assume "u < v" "v < w" "w < r"
    then have "u < r \<and> u < v \<and> v < r \<and> v < w \<and> w < r" by simp
    then show "[k + u, k + v, k + w] \<in> set (chunk0 k r)" unfolding chunk0_iff by blast
  qed
qed

lemma golay_patterns: "ps \<in> snd ` set (golay_writes H k r) \<longleftrightarrow> error_pattern (k + r) 3 ps \<and> ps \<noteq> []"
proof
  assume "ps \<in> snd ` set (golay_writes H k r)"
  then show "error_pattern (k + r) 3 ps \<and> ps \<noteq> []"
    unfolding golay_visits chunk2_iff chunk1_iff chunk0_iff error_pattern_def by auto
next
  assume "error_pattern (k + r) 3 ps \<and> ps \<noteq> []"
  then consider a where "a < k + r" "ps = [a]" | a b where "a < b" "b < k + r" "ps = [a, b]"
    | a b c where "a < b" "b < c" "c < k + r" "ps = [a, b, c]" unfolding sorted_lists by blast
  then show "ps \<in> snd ` set (golay_writes H k r)"
  proof cases
    case 1
    then show ?thesis using split_index [of a k r] golay_chunk_in(4) golay_intros(6) by blast
  next
    case 2
    then consider "b < k" | q where "a < k" "q < r" "b = k + q" | p q where "p < q" "q < r" "a = k + p" "b = k + q"
      using split_index [of a k r] split_index [of b k r] by fastforce
    then show ?thesis using 2 golay_intros(2,4,7) by cases simp_all
  next
    case 3
    then consider "c < k" | q where "b < k" "q < r" "c = k + q"
      | p q where "a < k" "p < q" "q < r" "b = k + p" "c = k + q"
      | u p q where "u < p" "p < q" "q < r" "a = k + u" "b = k + p" "c = k + q"
      using split_index [of a k r] split_index [of b k r] split_index [of c k r] by fastforce
    then show ?thesis using 3 golay_intros(1,3,5,8) by cases simp_all
  qed
qed

lemma qr_visits: "ps \<in> snd ` set (qr_writes H k r) \<longleftrightarrow>
    (\<exists>i1<k. (\<exists>i2. i1 < i2 \<and> i2 < k \<and> ps = [i1, i2]) \<or> ps = [i1] \<or> (\<exists>ip<r. ps = [i1, k + ip])) \<or>
    (\<exists>ip1<r. ps = [k + ip1] \<or> (\<exists>ip2. ip1 < ip2 \<and> ip2 < r \<and> ps = [k + ip1, k + ip2]))"
proof -
  have "ps \<in> snd ` set (qr_writes H k r) \<longleftrightarrow> ps \<in> set (map snd (qr_writes H k r))" by simp
  also have "map snd (qr_writes H k r) =
      concat (map (\<lambda>i1. map (\<lambda>i2. [i1, i2]) [Suc i1..<k] @ [[i1]] @ map (\<lambda>ip. [i1, k + ip]) [0..<r]) [0..<k])
      @ concat (map (\<lambda>ip1. [k + ip1] # map (\<lambda>ip2. [k + ip1, k + ip2]) [Suc ip1..<r]) [0..<r])"
    by (simp add: qr_writes_def Let_def map_concat comp_def)
  finally have "ps \<in> snd ` set (qr_writes H k r) \<longleftrightarrow>
     ps \<in> set (concat (map (\<lambda>i1. map (\<lambda>i2. [i1, i2]) [Suc i1..<k] @ [[i1]] @ map (\<lambda>ip. [i1, k + ip]) [0..<r]) [0..<k])) \<or>
     ps \<in> set (concat (map (\<lambda>ip1. [k + ip1] # map (\<lambda>ip2. [k + ip1, k + ip2]) [Suc ip1..<r]) [0..<r]))"
    by (simp only: set_append Un_iff)
  moreover have "ps \<in> set (concat (map (\<lambda>i1. map (\<lambda>i2. [i1, i2]) [Suc i1..<k] @ [[i1]] @ map (\<lambda>ip. [i1, k + ip]) [0..<r]) [0..<k])) \<longleftrightarrow>
     (\<exists>i1<k. (\<exists>i2. i1 < i2 \<and> i2 < k \<and> ps = [i1, i2]) \<or> ps = [i1] \<or> (\<exists>ip<r. ps = [i1, k + ip]))"
    by fastforce
  moreover have "ps \<in> set (concat (map (\<lambda>ip1. [k + ip1] # map (\<lambda>ip2. [k + ip1, k + ip2]) [Suc ip1..<r]) [0..<r])) \<longleftrightarrow>
     (\<exists>ip1<r. ps = [k + ip1] \<or> (\<exists>ip2. ip1 < ip2 \<and> ip2 < r \<and> ps = [k + ip1, k + ip2]))"
    by fastforce
  ultimately show ?thesis by blast
qed

lemma qr_patterns: "ps \<in> snd ` set (qr_writes H k r) \<longleftrightarrow> error_pattern (k + r) 2 ps \<and> ps \<noteq> []"
proof
  assume "ps \<in> snd ` set (qr_writes H k r)"
  then show "error_pattern (k + r) 2 ps \<and> ps \<noteq> []" unfolding qr_visits error_pattern_def by auto
next
  assume "error_pattern (k + r) 2 ps \<and> ps \<noteq> []"
  then consider a where "a < k + r" "ps = [a]" | a b where "a < b" "b < k + r" "ps = [a, b]"
    unfolding sorted_lists by blast
  then show "ps \<in> snd ` set (qr_writes H k r)"
  proof cases
    case 1
    then show ?thesis using split_index [of a k r] unfolding qr_visits by blast
  next
    case 2
    then consider "b < k" | q where "a < k" "q < r" "b = k + q" | p q where "p < q" "q < r" "a = k + p" "b = k + q"
      using split_index [of a k r] split_index [of b k r] by fastforce
    then show ?thesis
    proof cases
      case 1
      then have "a < k \<and> a < b \<and> b < k" using 2 by simp
      then show ?thesis using 2 unfolding qr_visits by blast
    next
      case (3 p q)
      then have "p < r \<and> p < q \<and> q < r" by simp
      then show ?thesis using 2 3 unfolding qr_visits by blast
    qed (use 2 in \<open>auto simp: qr_visits\<close>)
  qed
qed

text \<open>So a table code needs three computations: shape, unit columns and minimum weight.\<close>

lemma golay_table_code:
  assumes "systematic_check H k r" "k + r < 255"
    "min_weight_check 7 0 (replicate r False) (map (column H) [0..<k])"
  shows "table_code H k r 3 (golay_writes H k r)"
proof
  show "(s, ps) \<in> set (golay_writes H k r) \<longleftrightarrow> ps \<noteq> [] \<and> error_pattern (k + r) 3 ps \<and> s = pattern_index H ps" for s ps
  proof
    assume "(s, ps) \<in> set (golay_writes H k r)"
    moreover from this have "ps \<in> snd ` set (golay_writes H k r)" by (force simp: image_iff)
    ultimately show "ps \<noteq> [] \<and> error_pattern (k + r) 3 ps \<and> s = pattern_index H ps"
      using indexed_sound [OF assms(1)] unfolding golay_patterns by blast
  next
    assume a: "ps \<noteq> [] \<and> error_pattern (k + r) 3 ps \<and> s = pattern_index H ps"
    then have "ps \<in> snd ` set (golay_writes H k r)" unfolding golay_patterns by blast
    then obtain u where "(u, ps) \<in> set (golay_writes H k r)" by (force simp: image_iff)
    moreover from this have "u = s" using indexed_sound [OF assms(1)] a by blast
    ultimately show "(s, ps) \<in> set (golay_writes H k r)" by simp
  qed
qed (use assms in \<open>auto simp: systematic_check_def list_all_iff list_all_length\<close>)

lemma qr_table_code:
  assumes "systematic_check H k r" "k + r < 255"
    "min_weight_check 5 0 (replicate r False) (map (column H) [0..<k])"
  shows "table_code H k r 2 (qr_writes H k r)"
proof
  show "(s, ps) \<in> set (qr_writes H k r) \<longleftrightarrow> ps \<noteq> [] \<and> error_pattern (k + r) 2 ps \<and> s = pattern_index H ps" for s ps
  proof
    assume "(s, ps) \<in> set (qr_writes H k r)"
    moreover from this have "ps \<in> snd ` set (qr_writes H k r)" by (force simp: image_iff)
    ultimately show "ps \<noteq> [] \<and> error_pattern (k + r) 2 ps \<and> s = pattern_index H ps"
      using indexed_sound [OF assms(1)] unfolding qr_patterns by blast
  next
    assume a: "ps \<noteq> [] \<and> error_pattern (k + r) 2 ps \<and> s = pattern_index H ps"
    then have "ps \<in> snd ` set (qr_writes H k r)" unfolding qr_patterns by blast
    then obtain u where "(u, ps) \<in> set (qr_writes H k r)" by (force simp: image_iff)
    moreover from this have "u = s" using indexed_sound [OF assms(1)] a by blast
    ultimately show "(s, ps) \<in> set (qr_writes H k r)" by simp
  qed
qed (use assms in \<open>auto simp: systematic_check_def list_all_iff list_all_length\<close>)

end
