(* ===== verification/Fec_Codes.thy ===== *)
theory Fec_Codes
  imports Fec_Linear
begin

text \<open>
  The eight block codes of \<open>src/fec/fec.c\<close>: the parity-check matrices row by row as the source lists
  them, the correction tables as the init functions fill them, and the decoders. The five Hamming
  codes and the three table codes are instances of the interfaces of \<open>Fec_Linear\<close>.
\<close>

section \<open>Matrices and tables\<close>

definition Hamming_7_4_H :: "bits list" where
  "Hamming_7_4_H = map bits_of [
     [1, 1, 1, 0, 1, 0, 0],
     [0, 1, 1, 1, 0, 1, 0],
     [1, 1, 0, 1, 0, 0, 1]]"

definition Hamming_12_8_H :: "bits list" where
  "Hamming_12_8_H = map bits_of [
     [1, 0, 1, 0, 1, 1, 0, 0, 1, 0, 0, 0],
     [1, 1, 0, 1, 0, 1, 1, 0, 0, 1, 0, 0],
     [1, 1, 1, 0, 1, 0, 1, 1, 0, 0, 1, 0],
     [0, 1, 0, 1, 1, 0, 0, 1, 0, 0, 0, 1]]"

definition Hamming_13_9_H :: "bits list" where
  "Hamming_13_9_H = map bits_of [
     [1, 1, 0, 1, 0, 1, 1, 0, 0, 1, 0, 0, 0],
     [1, 1, 1, 0, 1, 0, 1, 1, 0, 0, 1, 0, 0],
     [1, 1, 1, 1, 0, 1, 0, 1, 1, 0, 0, 1, 0],
     [1, 0, 1, 0, 1, 1, 0, 0, 1, 0, 0, 0, 1]]"

definition Hamming_15_11_H :: "bits list" where
  "Hamming_15_11_H = map bits_of [
     [1, 1, 1, 1, 0, 1, 0, 1, 1, 0, 0, 1, 0, 0, 0],
     [0, 1, 1, 1, 1, 0, 1, 0, 1, 1, 0, 0, 1, 0, 0],
     [0, 0, 1, 1, 1, 1, 0, 1, 0, 1, 1, 0, 0, 1, 0],
     [1, 1, 1, 0, 1, 0, 1, 1, 0, 0, 1, 0, 0, 0, 1]]"

definition Hamming_16_11_4_H :: "bits list" where
  "Hamming_16_11_4_H = map bits_of [
     [1, 1, 1, 1, 0, 1, 0, 1, 1, 0, 0, 1, 0, 0, 0, 0],
     [0, 1, 1, 1, 1, 0, 1, 0, 1, 1, 0, 0, 1, 0, 0, 0],
     [0, 0, 1, 1, 1, 1, 0, 1, 0, 1, 1, 0, 0, 1, 0, 0],
     [1, 1, 1, 0, 1, 0, 1, 1, 0, 0, 1, 0, 0, 0, 1, 0],
     [1, 0, 1, 0, 0, 1, 1, 0, 1, 1, 1, 0, 0, 0, 0, 1]]"

definition Golay_20_8_H :: "bits list" where
  "Golay_20_8_H = map bits_of [
     [0, 1, 0, 0, 1, 1, 1, 1, 1, 0, 0, 0, 0, 0, 0, 0, 0, 0, 0, 0],
     [0, 1, 1, 0, 1, 0, 0, 0, 0, 1, 0, 0, 0, 0, 0, 0, 0, 0, 0, 0],
     [1, 0, 1, 1, 0, 1, 0, 0, 0, 0, 1, 0, 0, 0, 0, 0, 0, 0, 0, 0],
     [1, 1, 0, 1, 1, 0, 1, 0, 0, 0, 0, 1, 0, 0, 0, 0, 0, 0, 0, 0],
     [1, 1, 1, 0, 1, 1, 0, 1, 0, 0, 0, 0, 1, 0, 0, 0, 0, 0, 0, 0],
     [1, 0, 1, 1, 1, 0, 0, 1, 0, 0, 0, 0, 0, 1, 0, 0, 0, 0, 0, 0],
     [0, 0, 0, 1, 0, 0, 1, 1, 0, 0, 0, 0, 0, 0, 1, 0, 0, 0, 0, 0],
     [1, 1, 0, 0, 0, 1, 1, 0, 0, 0, 0, 0, 0, 0, 0, 1, 0, 0, 0, 0],
     [1, 1, 1, 0, 0, 0, 1, 1, 0, 0, 0, 0, 0, 0, 0, 0, 1, 0, 0, 0],
     [0, 0, 1, 1, 1, 1, 1, 0, 0, 0, 0, 0, 0, 0, 0, 0, 0, 1, 0, 0],
     [1, 0, 0, 1, 1, 1, 1, 1, 0, 0, 0, 0, 0, 0, 0, 0, 0, 0, 1, 0],
     [0, 1, 1, 1, 0, 1, 0, 1, 0, 0, 0, 0, 0, 0, 0, 0, 0, 0, 0, 1]]"

definition Golay_24_12_G :: "bits list" where
  "Golay_24_12_G = map bits_of [
     [1, 0, 0, 0, 0, 0, 0, 0, 0, 0, 0, 0, 1, 1, 0, 0, 0, 1, 1, 1, 0, 1, 0, 1],
     [0, 1, 0, 0, 0, 0, 0, 0, 0, 0, 0, 0, 0, 1, 1, 0, 0, 0, 1, 1, 1, 0, 1, 1],
     [0, 0, 1, 0, 0, 0, 0, 0, 0, 0, 0, 0, 1, 1, 1, 1, 0, 1, 1, 0, 1, 0, 0, 0],
     [0, 0, 0, 1, 0, 0, 0, 0, 0, 0, 0, 0, 0, 1, 1, 1, 1, 0, 1, 1, 0, 1, 0, 0],
     [0, 0, 0, 0, 1, 0, 0, 0, 0, 0, 0, 0, 0, 0, 1, 1, 1, 1, 0, 1, 1, 0, 1, 0],
     [0, 0, 0, 0, 0, 1, 0, 0, 0, 0, 0, 0, 1, 1, 0, 1, 1, 0, 0, 1, 1, 0, 0, 1],
     [0, 0, 0, 0, 0, 0, 1, 0, 0, 0, 0, 0, 0, 1, 1, 0, 1, 1, 0, 0, 1, 1, 0, 1],
     [0, 0, 0, 0, 0, 0, 0, 1, 0, 0, 0, 0, 0, 0, 1, 1, 0, 1, 1, 0, 0, 1, 1, 1],
     [0, 0, 0, 0, 0, 0, 0, 0, 1, 0, 0, 0, 1, 1, 0, 1, 1, 1, 0, 0, 0, 1, 1, 0],
     [0, 0, 0, 0, 0, 0, 0, 0, 0, 1, 0, 0, 1, 0, 1, 0, 1, 0, 0, 1, 0, 1, 1, 1],
     [0, 0, 0, 0, 0, 0, 0, 0, 0, 0, 1, 0, 1, 0, 0, 1, 0, 0, 1, 1, 1, 1, 1, 0],
     [0, 0, 0, 0, 0, 0, 0, 0, 0, 0, 0, 1, 1, 0, 0, 0, 1, 1, 1, 0, 1, 0, 1, 1]]"

definition Golay_24_12_H :: "bits list" where
  "Golay_24_12_H = map bits_of [
     [1, 0, 1, 0, 0, 1, 0, 0, 1, 1, 1, 1, 1, 0, 0, 0, 0, 0, 0, 0, 0, 0, 0, 0],
     [1, 1, 1, 1, 0, 1, 1, 0, 1, 0, 0, 0, 0, 1, 0, 0, 0, 0, 0, 0, 0, 0, 0, 0],
     [0, 1, 1, 1, 1, 0, 1, 1, 0, 1, 0, 0, 0, 0, 1, 0, 0, 0, 0, 0, 0, 0, 0, 0],
     [0, 0, 1, 1, 1, 1, 0, 1, 1, 0, 1, 0, 0, 0, 0, 1, 0, 0, 0, 0, 0, 0, 0, 0],
     [0, 0, 0, 1, 1, 1, 1, 0, 1, 1, 0, 1, 0, 0, 0, 0, 1, 0, 0, 0, 0, 0, 0, 0],
     [1, 0, 1, 0, 1, 0, 1, 1, 1, 0, 0, 1, 0, 0, 0, 0, 0, 1, 0, 0, 0, 0, 0, 0],
     [1, 1, 1, 1, 0, 0, 0, 1, 0, 0, 1, 1, 0, 0, 0, 0, 0, 0, 1, 0, 0, 0, 0, 0],
     [1, 1, 0, 1, 1, 1, 0, 0, 0, 1, 1, 0, 0, 0, 0, 0, 0, 0, 0, 1, 0, 0, 0, 0],
     [0, 1, 1, 0, 1, 1, 1, 0, 0, 0, 1, 1, 0, 0, 0, 0, 0, 0, 0, 0, 1, 0, 0, 0],
     [1, 0, 0, 1, 0, 0, 1, 1, 1, 1, 1, 0, 0, 0, 0, 0, 0, 0, 0, 0, 0, 1, 0, 0],
     [0, 1, 0, 0, 1, 0, 0, 1, 1, 1, 1, 1, 0, 0, 0, 0, 0, 0, 0, 0, 0, 0, 1, 0],
     [1, 1, 0, 0, 0, 1, 1, 1, 0, 1, 0, 1, 0, 0, 0, 0, 0, 0, 0, 0, 0, 0, 0, 1]]"

definition QR_16_7_6_H :: "bits list" where
  "QR_16_7_6_H = map bits_of [
     [0, 1, 1, 1, 1, 0, 0, 1, 0, 0, 0, 0, 0, 0, 0, 0],
     [0, 0, 1, 1, 1, 1, 0, 0, 1, 0, 0, 0, 0, 0, 0, 0],
     [1, 0, 0, 1, 1, 1, 1, 0, 0, 1, 0, 0, 0, 0, 0, 0],
     [0, 0, 1, 1, 0, 1, 1, 0, 0, 0, 1, 0, 0, 0, 0, 0],
     [0, 1, 1, 0, 0, 0, 1, 0, 0, 0, 0, 1, 0, 0, 0, 0],
     [1, 1, 0, 0, 1, 0, 0, 0, 0, 0, 0, 0, 1, 0, 0, 0],
     [1, 1, 1, 0, 0, 1, 0, 0, 0, 0, 0, 0, 0, 1, 0, 0],
     [1, 1, 1, 1, 0, 0, 1, 0, 0, 0, 0, 0, 0, 0, 1, 0],
     [1, 0, 1, 0, 1, 1, 1, 0, 0, 0, 0, 0, 0, 0, 0, 1]]"

definition Hamming_7_4_corr :: "nat list" where
  "Hamming_7_4_corr = (replicate 8 255)
     [5 := 0, 7 := 1, 6 := 2, 3 := 3, 4 := 4, 2 := 5, 1 := 6]"

definition Hamming_12_8_corr :: "nat list" where
  "Hamming_12_8_corr = (replicate 16 255)
     [14 := 0, 7 := 1, 10 := 2, 5 := 3, 11 := 4, 12 := 5, 6 := 6, 3 := 7, 8 := 8, 4 := 9, 2 := 10, 1 := 11]"

definition Hamming_13_9_corr :: "nat list" where
  "Hamming_13_9_corr = (replicate 16 255)
     [15 := 0, 14 := 1, 7 := 2, 10 := 3, 5 := 4, 11 := 5, 12 := 6, 6 := 7, 3 := 8, 8 := 9, 4 := 10, 2 := 11, 1 := 12]"

definition Hamming_15_11_corr :: "nat list" where
  "Hamming_15_11_corr = (replicate 16 255)
     [9 := 0, 13 := 1, 15 := 2, 14 := 3, 7 := 4, 10 := 5, 5 := 6, 11 := 7, 12 := 8, 6 := 9, 3 := 10, 8 := 11, 4 := 12, 2 := 13, 1 := 14]"

definition Hamming_16_11_4_corr :: "nat list" where
  "Hamming_16_11_4_corr = (replicate 32 255)
     [19 := 0, 26 := 1, 31 := 2, 28 := 3, 14 := 4, 21 := 5, 11 := 6, 22 := 7, 25 := 8, 13 := 9, 7 := 10, 16 := 11, 8 := 12, 4 := 13, 2 := 14, 1 := 15]"
section \<open>Decoders\<close>

subsection \<open>Hamming codes\<close>

text \<open>
  One codeword: the syndrome index selects the position to flip; 0xFF marks an index that no single
  error produces.
\<close>

definition hamming_word :: "bits list \<Rightarrow> nat list \<Rightarrow> bits \<Rightarrow> bits \<times> bool" where
  "hamming_word H corr x =
     (let s = syndrome_index H x in
      if s > 0 then
        if corr ! s = 255 then (x, False) else (flip_bit (corr ! s) x, True)
      else (x, True))"

definition Hamming_7_4_decode :: "bits \<Rightarrow> bits \<times> bool" where
  "Hamming_7_4_decode rxBits = hamming_word Hamming_7_4_H Hamming_7_4_corr rxBits"

text \<open>
  The other four decode \<open>nbCodewords\<close> consecutive codewords in place and copy their information bits.
  All but the (12,8) code stop at the first uncorrectable codeword; the decoded buffer may be NULL.
\<close>

record hamming_code =
  hc_n :: nat
  hc_k :: nat
  hc_stops :: bool
  hc_H :: "bits list"
  hc_corr :: "nat list"

definition overwrite :: "nat \<Rightarrow> 'a list \<Rightarrow> 'a list \<Rightarrow> 'a list" where
  "overwrite off ys xs = take off xs @ ys @ drop (off + length ys) xs"

fun hamming_loop ::
  "hamming_code \<Rightarrow> nat \<Rightarrow> nat \<Rightarrow> bits \<Rightarrow> bits option \<Rightarrow> bool \<Rightarrow> bits \<times> bits option \<times> bool" where
  "hamming_loop hc 0 ic rxBits decodedBits correctable = (rxBits, decodedBits, correctable)"
| "hamming_loop hc (Suc left) ic rxBits decodedBits correctable =
     (let (word, good) = hamming_word (hc_H hc) (hc_corr hc) (take (hc_n hc) (drop (hc_n hc * ic) rxBits));
          rx1 = overwrite (hc_n hc * ic) word rxBits
      in if \<not> good \<and> hc_stops hc then (rx1, decodedBits, False)
         else hamming_loop hc left (Suc ic) rx1
                (map_option (overwrite (hc_k hc * ic) (take (hc_k hc) word)) decodedBits)
                (correctable \<and> good))"

definition hamming_decode :: "hamming_code \<Rightarrow> bits \<Rightarrow> bits option \<Rightarrow> nat \<Rightarrow> bits \<times> bits option \<times> bool" where
  "hamming_decode hc rxBits decodedBits nbCodewords = hamming_loop hc nbCodewords 0 rxBits decodedBits True"

definition Hamming_12_8 :: hamming_code where
  "Hamming_12_8 = \<lparr>hc_n = 12, hc_k = 8, hc_stops = False, hc_H = Hamming_12_8_H, hc_corr = Hamming_12_8_corr\<rparr>"

definition Hamming_13_9 :: hamming_code where
  "Hamming_13_9 = \<lparr>hc_n = 13, hc_k = 9, hc_stops = True, hc_H = Hamming_13_9_H, hc_corr = Hamming_13_9_corr\<rparr>"

definition Hamming_15_11 :: hamming_code where
  "Hamming_15_11 = \<lparr>hc_n = 15, hc_k = 11, hc_stops = True, hc_H = Hamming_15_11_H, hc_corr = Hamming_15_11_corr\<rparr>"

definition Hamming_16_11_4 :: hamming_code where
  "Hamming_16_11_4 =
     \<lparr>hc_n = 16, hc_k = 11, hc_stops = True, hc_H = Hamming_16_11_4_H, hc_corr = Hamming_16_11_4_corr\<rparr>"

subsection \<open>Golay and quadratic-residue codes\<close>

definition Golay_20_8_init :: "nat list list" where
  "Golay_20_8_init = corr_fill 12 3 (golay_writes Golay_20_8_H 8 12)"

definition Golay_24_12_init :: "nat list list" where
  "Golay_24_12_init = corr_fill 12 3 (golay_writes Golay_24_12_H 12 12)"

definition QR_16_7_6_init :: "nat list list" where
  "QR_16_7_6_init = corr_fill 9 2 (qr_writes QR_16_7_6_H 7 9)"

text \<open>The (20,8) decoder flips every listed bit before it refuses a correction of more than two.\<close>

definition Golay_20_8_decode :: "nat list list \<Rightarrow> bits \<Rightarrow> bits \<times> bool" where
  "Golay_20_8_decode corr rxBits =
     (let s = syndrome_index Golay_20_8_H rxBits in
      if s > 0 then
        let ps = corr_flips corr s
        in (flip_bits ps rxBits, \<not> (length ps = 0) \<and> \<not> (length ps > 2))
      else (rxBits, True))"

definition Golay_24_12_encode :: "bits \<Rightarrow> bits" where
  "Golay_24_12_encode origBits =
     map (\<lambda>j. (\<Sum>i\<leftarrow>[0..<12]. of_bool (origBits ! i) * of_bool (Golay_24_12_G ! i ! j) :: nat) mod 2 = 1) [0..<24]"

definition Golay_24_12_decode :: "nat list list \<Rightarrow> bits \<Rightarrow> bits \<times> bool" where
  "Golay_24_12_decode corr rxBits =
     (let s = syndrome_index Golay_24_12_H rxBits in
      if s > 0 then let ps = corr_flips corr s in (flip_bits ps rxBits, length ps \<noteq> 0)
      else (rxBits, True))"

definition QR_16_7_6_decode :: "nat list list \<Rightarrow> bits \<Rightarrow> bits \<times> bool" where
  "QR_16_7_6_decode corr rxBits =
     (let s = syndrome_index QR_16_7_6_H rxBits in
      if s > 0 then let ps = corr_flips corr s in (flip_bits ps rxBits, length ps \<noteq> 0)
      else (rxBits, True))"

section \<open>The codes keep the interface\<close>

definition hamming_flips :: "nat list \<Rightarrow> nat \<Rightarrow> nat list" where
  "hamming_flips corr s = (if s > 0 \<and> corr ! s \<noteq> 255 then [corr ! s] else [])"

definition hamming_check :: "bits list \<Rightarrow> nat \<Rightarrow> nat list \<Rightarrow> bool" where
  "hamming_check H n corr \<longleftrightarrow> list_all (\<lambda>row. length row = n) H \<and>
     list_all (\<lambda>j. hamming_flips corr (pattern_index H [j]) = [j]) [0..<n]"

lemma hamming_decoder:
  assumes "hamming_check H n corr"
  shows "syndrome_decoder H n 1 (hamming_flips corr)"
proof
  fix ps assume "error_pattern n 1 ps"
  then consider "ps = []" | j where "ps = [j]" "j < n"
    by (cases ps) (auto simp: error_pattern_def)
  then show "hamming_flips corr (pattern_index H ps) = ps"
  proof cases
    case 1
    then show ?thesis by (simp add: hamming_flips_def pattern_index_def bits_value_zero pattern_bits_def)
  next
    case 2
    then show ?thesis using assms by (simp add: hamming_check_def list_all_length)
  qed
qed (use assms in \<open>simp add: hamming_check_def list_all_iff\<close>)

interpretation h7_4: syndrome_decoder Hamming_7_4_H 7 1 "hamming_flips Hamming_7_4_corr"
  by (rule hamming_decoder) code_simp

interpretation h12_8: syndrome_decoder Hamming_12_8_H 12 1 "hamming_flips Hamming_12_8_corr"
  by (rule hamming_decoder) code_simp

interpretation h13_9: syndrome_decoder Hamming_13_9_H 13 1 "hamming_flips Hamming_13_9_corr"
  by (rule hamming_decoder) code_simp

interpretation h15_11: syndrome_decoder Hamming_15_11_H 15 1 "hamming_flips Hamming_15_11_corr"
  by (rule hamming_decoder) code_simp

interpretation h16_11: syndrome_decoder Hamming_16_11_4_H 16 1 "hamming_flips Hamming_16_11_4_corr"
  by (rule hamming_decoder) code_simp

interpretation golay20: table_code Golay_20_8_H 8 12 3 "golay_writes Golay_20_8_H 8 12"
  by (rule golay_table_code) (code_simp)+

interpretation golay24: table_code Golay_24_12_H 12 12 3 "golay_writes Golay_24_12_H 12 12"
  by (rule golay_table_code) (code_simp)+

interpretation qr16: table_code QR_16_7_6_H 7 9 2 "qr_writes QR_16_7_6_H 7 9"
  by (rule qr_table_code) (code_simp)+

section \<open>What the decoders do\<close>

lemma odd_sum_of_bool: "(\<Sum>x\<leftarrow>xs. of_bool (P x) :: nat) = length (filter P xs)"
  by (induction xs) auto

subsection \<open>Hamming blocks\<close>

lemma hamming_word_flips:
  "snd (hamming_word H corr x) \<Longrightarrow> fst (hamming_word H corr x) = flip_bits (hamming_flips corr (syndrome_index H x)) x"
  by (auto simp: hamming_word_def hamming_flips_def Let_def split: if_splits)

lemma hamming_word_corrects:
  assumes d: "syndrome_decoder H n 1 (hamming_flips corr)"
    and c: "codeword H c" "length c = n" "length x = n" "hamming_dist c x \<le> 1"
  shows "hamming_word H corr x = (c, True)"
proof (cases "x = c")
  case True
  then have "syndrome_index H x = 0" using syndrome_decoder.index_zero_iff [OF d c] by (rule iffD2 [rotated])
  then show ?thesis using True by (simp add: hamming_word_def)
next
  case False
  then have "syndrome_index H x \<noteq> 0" "hamming_flips corr (syndrome_index H x) \<noteq> []"
    using syndrome_decoder.index_zero_iff [OF d c] syndrome_decoder.no_flips_iff [OF d c] by blast+
  then have "snd (hamming_word H corr x)" by (auto simp: hamming_word_def hamming_flips_def Let_def split: if_splits)
  moreover from hamming_word_flips [OF this] have "fst (hamming_word H corr x) = c"
    using syndrome_decoder.correct_errors [OF d c] by (simp add: syndrome_decoder.correct_def [OF d])
  ultimately show ?thesis by (simp add: prod_eq_iff)
qed

definition hamming_codes :: "hamming_code list" where
  "hamming_codes = [Hamming_12_8, Hamming_13_9, Hamming_15_11, Hamming_16_11_4]"

lemma hamming_codes_decode:
  assumes "hc \<in> set hamming_codes"
  shows "syndrome_decoder (hc_H hc) (hc_n hc) 1 (hamming_flips (hc_corr hc))" "hc_k hc \<le> hc_n hc"
  using assms h12_8.syndrome_decoder_axioms h13_9.syndrome_decoder_axioms h15_11.syndrome_decoder_axioms
    h16_11.syndrome_decoder_axioms
  by (auto simp: hamming_codes_def Hamming_12_8_def Hamming_13_9_def Hamming_15_11_def Hamming_16_11_4_def)

text \<open>\<open>corrupted hc cs xs\<close>: the words \<open>xs\<close> are codewords \<open>cs\<close> with at most one wrong bit each.\<close>

definition corrupted :: "hamming_code \<Rightarrow> bits list \<Rightarrow> bits list \<Rightarrow> bool" where
  "corrupted hc cs xs \<longleftrightarrow> list_all2 (\<lambda>c x. codeword (hc_H hc) c \<and> length c = hc_n hc \<and> length x = hc_n hc \<and>
     hamming_dist c x \<le> 1) cs xs"

lemma overwrite_middle:
  "length pre = off \<Longrightarrow> length ys = length mid \<Longrightarrow> overwrite off ys (pre @ mid @ post) = pre @ ys @ post"
  by (simp add: overwrite_def)

lemma hamming_loop_corrects:
  assumes "hc \<in> set hamming_codes" "corrupted hc cs xs" "length pre = hc_n hc * ic" "length dpre = hc_k hc * ic"
    "length out = hc_k hc * length cs"
  shows "hamming_loop hc (length cs) ic (pre @ concat xs @ post) (Some (dpre @ out @ dpost)) ok =
    (pre @ concat cs @ post, Some (dpre @ concat (map (take (hc_k hc)) cs) @ dpost), ok)"
  using assms(2)[unfolded corrupted_def] assms(3-5)
proof (induction cs xs arbitrary: pre dpre out ic rule: list_all2_induct)
  case Nil
  then show ?case by simp
next
  case (Cons c cs x xs)
  let ?n = "hc_n hc" and ?k = "hc_k hc"
  have w: "hamming_word (hc_H hc) (hc_corr hc) x = (c, True)"
    using hamming_word_corrects [OF hamming_codes_decode(1) [OF assms(1)]] Cons.hyps by simp
  obtain o1 o2 where o: "out = o1 @ o2" "length o1 = ?k" "length o2 = ?k * length cs"
    using Cons.prems(3) by (metis append_take_drop_id length_Cons length_append length_drop add_diff_cancel_left'
      length_take min_absorb2 mult_Suc_right le_add1)
  have k: "length (take ?k c) = ?k" using Cons.hyps hamming_codes_decode(2) [OF assms(1)] by simp
  have t: "take ?n (drop (?n * ic) (pre @ x @ concat xs @ post)) = x" using Cons.hyps Cons.prems by simp
  have r: "overwrite (?n * ic) c (pre @ x @ concat xs @ post) = pre @ c @ concat xs @ post"
    using overwrite_middle [of pre "?n * ic" c x "concat xs @ post"] Cons.hyps Cons.prems by simp
  have q: "overwrite (?k * ic) (take ?k c) (dpre @ o1 @ o2 @ dpost) = dpre @ take ?k c @ o2 @ dpost"
    using overwrite_middle [of dpre "?k * ic" "take ?k c" o1 "o2 @ dpost"] k Cons.prems o by simp
  have "hamming_loop hc (length (c # cs)) ic (pre @ concat (x # xs) @ post) (Some (dpre @ out @ dpost)) ok =
      hamming_loop hc (length cs) (Suc ic) (pre @ c @ concat xs @ post) (Some (dpre @ take ?k c @ o2 @ dpost)) ok"
    by (simp add: t w r q o(1) del: take_append drop_append)
  then show ?case
    using Cons.IH [of "pre @ c" "Suc ic" "dpre @ take ?k c" o2] Cons.hyps Cons.prems o(2,3) k by simp
qed

text \<open>C23: The Hamming (12,8), (13,9), (15,11) and (16,11,4) block decoders, given any number of consecutive
  received words each within one bit of a codeword, rewrite the received buffer to exactly those
  codewords, copy exactly their information bits into the decoded buffer, report success, and
  leave whatever follows in either buffer unchanged.\<close>

theorem hamming_blocks_corrected:
  assumes "hc \<in> set hamming_codes" "corrupted hc cs xs" "length out = hc_k hc * length cs"
  shows "hamming_decode hc (concat xs @ post) (Some (out @ dpost)) (length cs) =
    (concat cs @ post, Some (concat (map (take (hc_k hc)) cs) @ dpost), True)"
  using hamming_loop_corrects [OF assms(1,2), of "[]" 0 "[]" out post dpost True] assms(3)
  by (simp add: hamming_decode_def)

theorem hamming_blocks_corrected_witness:
  "hamming_decode Hamming_13_9 (concat [(replicate 13 False)[4 := True], replicate 13 False] @ [True])
     (Some (replicate 18 True @ [])) (length [replicate 13 False, replicate 13 False]) =
   (concat [replicate 13 False, replicate 13 False] @ [True],
    Some (concat (map (take (hc_k Hamming_13_9)) [replicate 13 False, replicate 13 False]) @ []), True)"
proof (rule hamming_blocks_corrected)
  show "Hamming_13_9 \<in> set hamming_codes" by (simp add: hamming_codes_def)
  show "corrupted Hamming_13_9 [replicate 13 False, replicate 13 False]
      [(replicate 13 False)[4 := True], replicate 13 False]" by code_simp
  show "length (replicate 18 True) = hc_k Hamming_13_9 * length [replicate 13 False, replicate 13 False]"
    by (simp add: Hamming_13_9_def)
qed

subsection \<open>Double errors in the extended Hamming code\<close>

definition pairs_refused :: "bits list \<Rightarrow> nat \<Rightarrow> nat list \<Rightarrow> bool" where
  "pairs_refused H n corr \<longleftrightarrow> list_all (\<lambda>j. list_all (\<lambda>i.
     pattern_index H [i, j] > 0 \<and> corr ! pattern_index H [i, j] = 255) [0..<j]) [0..<n]"

lemma hamming_word_refuses:
  assumes "syndrome_decoder H n 1 (hamming_flips corr)" "pairs_refused H n corr"
    and "codeword H c" "length c = n" "length x = n" "hamming_dist c x = 2"
  shows "hamming_word H corr x = (x, False)"
proof -
  obtain ps where ps: "sorted_wrt (<) ps" "set ps \<subseteq> {..<length c}" "length ps = hamming_dist c x" "x = flip_bits ps c"
    using hamming_dist_pattern [of x c] assms by metis
  then obtain i j where ij: "ps = [i, j]" "i < j" "j < n"
    using assms(4,6) by (auto simp: length_Suc_conv numeral_2_eq_2)
  have "syndrome_index H x = pattern_index H [i, j]"
    using syndrome_decoder.syndrome_of_error [OF assms(1,3,4) ps(2) [unfolded assms(4)]] ps(4) ij(1) by (simp only:)
  then show ?thesis using assms(2) ij by (simp add: pairs_refused_def list_all_iff hamming_word_def)
qed

text \<open>The (16,11,4) decoder never miscorrects a codeword with two wrong bits: it reports failure and
  leaves both the received buffer and the decoded buffer as they were.\<close>

theorem hamming_16_11_double_refused:
  assumes "codeword Hamming_16_11_4_H c" "length c = 16" "length x = 16" "hamming_dist c x = 2"
  shows "hamming_decode Hamming_16_11_4 (x @ post) out (Suc left) = (x @ post, out, False)"
proof -
  have "pairs_refused Hamming_16_11_4_H 16 Hamming_16_11_4_corr" by code_simp
  then have "hamming_word Hamming_16_11_4_H Hamming_16_11_4_corr x = (x, False)"
    using hamming_word_refuses [OF h16_11.syndrome_decoder_axioms] assms by blast
  then show ?thesis using assms(3) by (simp add: hamming_decode_def Hamming_16_11_4_def overwrite_def)
qed

theorem hamming_16_11_double_refused_witness:
  "hamming_decode Hamming_16_11_4 ((replicate 16 False)[3 := True, 9 := True] @ []) None (Suc 0) =
    ((replicate 16 False)[3 := True, 9 := True] @ [], None, False)"
proof (rule hamming_16_11_double_refused)
  show "codeword Hamming_16_11_4_H (replicate 16 False)" by code_simp
  show "hamming_dist (replicate 16 False) ((replicate 16 False)[3 := True, 9 := True]) = 2" by code_simp
qed simp_all

subsection \<open>Golay and quadratic-residue codes\<close>

lemma dot_xor_bits: "length x = length y \<Longrightarrow> length row = length x \<Longrightarrow> dot row (xor_bits x y) = (dot row x \<noteq> dot row y)"
proof (induction x y arbitrary: row rule: list_induct2)
  case (Cons a x b y)
  then show ?case by (cases row) auto
qed simp

lemma codeword_combine:
  "\<forall>row\<in>set H. length row = n \<Longrightarrow> \<forall>c\<in>set cs. codeword H c \<and> length c = n \<Longrightarrow> codeword H acc \<Longrightarrow> length acc = n \<Longrightarrow>
     codeword H (combine m cs acc)"
  by (induction m cs acc rule: combine.induct) (auto simp: codeword_def list_all_iff dot_xor_bits)

lemma golay_encode_combine:
  assumes "length m = 12"
  shows "Golay_24_12_encode m = combine m Golay_24_12_G (replicate 24 False)"
proof (rule nth_equalityI)
  have g: "length Golay_24_12_G = 12" "\<forall>c\<in>set Golay_24_12_G. length c = 24"
    by (simp_all add: Golay_24_12_G_def bits_of_def)
  then have c: "length (combine m Golay_24_12_G (replicate 24 False)) = 24 \<and>
      combine m Golay_24_12_G (replicate 24 False) ! j = dot (map (\<lambda>c. c ! j) Golay_24_12_G) m" if "j < 24" for j
    using combine_nth [of m Golay_24_12_G "replicate 24 False" j] assms that by simp
  show "length (Golay_24_12_encode m) = length (combine m Golay_24_12_G (replicate 24 False))"
    using c [of 0] by (simp add: Golay_24_12_encode_def)
  fix j assume "j < length (Golay_24_12_encode m)"
  then have j: "j < 24" by (simp add: Golay_24_12_encode_def)
  have "map2 (\<lambda>h b. of_bool h * of_bool b :: nat) (map (\<lambda>c. c ! j) Golay_24_12_G) m =
      map (\<lambda>i. of_bool (m ! i) * of_bool (Golay_24_12_G ! i ! j)) [0..<12]"
    using assms g by (intro nth_equalityI) simp_all
  then have "dot (map (\<lambda>c. c ! j) Golay_24_12_G) m =
      odd (\<Sum>i\<leftarrow>[0..<12]. of_bool (m ! i) * of_bool (Golay_24_12_G ! i ! j) :: nat)"
    unfolding dot_def by (simp only:)
  then show "Golay_24_12_encode m ! j = combine m Golay_24_12_G (replicate 24 False) ! j"
    unfolding conjunct2 [OF c [OF j]] Golay_24_12_encode_def using j by (simp add: odd_iff_mod_2_eq_one)
qed

lemma golay_encode_codeword: "length m = 12 \<Longrightarrow> codeword Golay_24_12_H (Golay_24_12_encode m)"
proof -
  assume m: "length m = 12"
  have "list_all (\<lambda>c. codeword Golay_24_12_H c \<and> length c = 24) Golay_24_12_G" by code_simp
  moreover have "codeword Golay_24_12_H (replicate 24 False)" by code_simp
  ultimately show ?thesis
    using codeword_combine [of Golay_24_12_H 24] golay24.rows by (simp add: golay_encode_combine [OF m] list_all_iff)
qed

lemma length_golay_encode [simp]: "length (Golay_24_12_encode m) = 24"
  by (simp add: Golay_24_12_encode_def)

lemma golay_24_12_corrects:
  assumes "length m = 12" "length x = 24" "hamming_dist (Golay_24_12_encode m) x \<le> 3"
  shows "Golay_24_12_decode Golay_24_12_init x = (Golay_24_12_encode m, True)"
proof -
  note c = golay_encode_codeword [OF assms(1)]
  have num: "(12::nat) + 12 = 24" by simp
  obtain ps where ps: "corr_flips Golay_24_12_init (syndrome_index Golay_24_12_H x) = ps" "flip_bits ps x = Golay_24_12_encode m"
    by (rule golay24.flips_of_error [OF c _ _ assms(3)])
      (simp_all only: Golay_24_12_init_def assms(2) length_golay_encode num)
  have z: "(syndrome_index Golay_24_12_H x = 0) = (x = Golay_24_12_encode m)"
    using golay24.index_zero_iff [OF c _ _ assms(3)] assms(2) by simp
  show ?thesis
  proof (cases "x = Golay_24_12_encode m")
    case True
    then show ?thesis using z by (simp add: Golay_24_12_decode_def)
  next
    case False
    then have "ps \<noteq> []" using ps(2) by auto
    then show ?thesis using z False ps by (simp add: Golay_24_12_decode_def)
  qed
qed

text \<open>A 12-bit message encoded with the extended Golay code and received with at most three wrong
  bits decodes to the very codeword that was sent, and the decoder reports success.\<close>

theorem golay_24_12_roundtrip:
  assumes "length m = 12" "length x = 24" "hamming_dist (Golay_24_12_encode m) x \<le> 3"
  shows "Golay_24_12_decode Golay_24_12_init x = (Golay_24_12_encode m, True)"
  by (rule golay_24_12_corrects [OF assms])

theorem golay_24_12_roundtrip_witness:
  "Golay_24_12_decode Golay_24_12_init (flip_bits [0, 7, 20] (Golay_24_12_encode (replicate 12 True))) =
    (Golay_24_12_encode (replicate 12 True), True)"
proof (rule golay_24_12_roundtrip)
  let ?c = "combine (replicate 12 True) Golay_24_12_G (replicate 24 False)"
  have "hamming_dist ?c (flip_bits [0, 7, 20] ?c) \<le> 3" by code_simp
  then show "hamming_dist (Golay_24_12_encode (replicate 12 True))
      (flip_bits [0, 7, 20] (Golay_24_12_encode (replicate 12 True))) \<le> 3"
    unfolding golay_encode_combine [OF length_replicate] .
qed simp_all

text \<open>The (20,8) decoder restores every codeword received with at most three wrong bits, but it
  reports success only for at most two: with exactly three wrong bits the buffer is corrected in
  place and the decoder still reports failure.\<close>

theorem golay_20_8_decodes:
  assumes "codeword Golay_20_8_H c" "length c = 20" "length x = 20" "hamming_dist c x \<le> 3"
  shows "Golay_20_8_decode Golay_20_8_init x = (c, hamming_dist c x \<le> 2)"
proof -
  obtain ps where ps: "length ps = hamming_dist c x" "corr_flips Golay_20_8_init (syndrome_index Golay_20_8_H x) = ps"
      "flip_bits ps x = c" "x = flip_bits ps c"
    using golay20.flips_of_error [OF assms(1) _ _ assms(4)] assms(2,3) unfolding Golay_20_8_init_def by auto
  have z: "(syndrome_index Golay_20_8_H x = 0) = (x = c)"
    using golay20.index_zero_iff [OF assms(1) _ _ assms(4)] assms(2,3) by simp
  show ?thesis
  proof (cases "x = c")
    case True
    have "hamming_dist c c = 0" by (auto simp: hamming_dist_def filter_empty_conv set_zip)
    then show ?thesis using True z by (simp add: Golay_20_8_decode_def)
  next
    case False
    then have "ps \<noteq> []" using ps(4) by auto
    then show ?thesis using z False ps by (auto simp: Golay_20_8_decode_def)
  qed
qed

theorem golay_20_8_decodes_witness:
  "Golay_20_8_decode Golay_20_8_init ((replicate 20 False)[1 := True, 4 := True, 19 := True]) =
    (replicate 20 False, hamming_dist (replicate 20 False) ((replicate 20 False)[1 := True, 4 := True, 19 := True]) \<le> 2)"
proof (rule golay_20_8_decodes)
  show "codeword Golay_20_8_H (replicate 20 False)" by code_simp
  show "hamming_dist (replicate 20 False) ((replicate 20 False)[1 := True, 4 := True, 19 := True]) \<le> 3" by code_simp
qed simp_all

text \<open>The (16,7,6) quadratic-residue decoder restores every codeword received with at most two wrong
  bits and reports success.\<close>

theorem qr_16_7_6_decodes:
  assumes "codeword QR_16_7_6_H c" "length c = 16" "length x = 16" "hamming_dist c x \<le> 2"
  shows "QR_16_7_6_decode QR_16_7_6_init x = (c, True)"
proof -
  obtain ps where ps: "corr_flips QR_16_7_6_init (syndrome_index QR_16_7_6_H x) = ps" "flip_bits ps x = c" "x = flip_bits ps c"
    using qr16.flips_of_error [OF assms(1) _ _ assms(4)] assms(2,3) unfolding QR_16_7_6_init_def by auto
  have z: "(syndrome_index QR_16_7_6_H x = 0) = (x = c)"
    using qr16.index_zero_iff [OF assms(1) _ _ assms(4)] assms(2,3) by simp
  show ?thesis
  proof (cases "x = c")
    case False
    then have "ps \<noteq> []" using ps(3) by auto
    then show ?thesis using z False ps by (simp add: QR_16_7_6_decode_def)
  qed (use z in \<open>simp add: QR_16_7_6_decode_def\<close>)
qed

theorem qr_16_7_6_decodes_witness:
  "QR_16_7_6_decode QR_16_7_6_init ((replicate 16 False)[2 := True, 15 := True]) = (replicate 16 False, True)"
proof (rule qr_16_7_6_decodes)
  show "codeword QR_16_7_6_H (replicate 16 False)" by code_simp
  show "hamming_dist (replicate 16 False) ((replicate 16 False)[2 := True, 15 := True]) \<le> 2" by code_simp
qed simp_all

end
