(* ===== verification/Fec_Bptc.thy ===== *)
theory Fec_Bptc
  imports Fec_Codes
begin

text \<open>
  The product codes of \<open>src/fec/bptc.c\<close>: de-interleaving, the iterated row and column decoding of the
  (196,96) code, the single pass of the (128,77) code and the reverse-channel 16x2 code. A matrix is
  the list of its rows. The decoders' output buffers are local arrays the C code does not
  initialise, so their first contents are arguments of the model.
\<close>

section \<open>De-interleaving\<close>

definition BPTCDeInterleavingIndex :: "nat list" where
  "BPTCDeInterleavingIndex = [
     0, 13, 26, 39, 52, 65, 78, 91, 104, 117, 130, 143, 156, 169, 182, 195, 12, 25, 38, 51,
     64, 77, 90, 103, 116, 129, 142, 155, 168, 181, 194, 11, 24, 37, 50, 63, 76, 89, 102, 115,
     128, 141, 154, 167, 180, 193, 10, 23, 36, 49, 62, 75, 88, 101, 114, 127, 140, 153, 166, 179,
     192, 9, 22, 35, 48, 61, 74, 87, 100, 113, 126, 139, 152, 165, 178, 191, 8, 21, 34, 47,
     60, 73, 86, 99, 112, 125, 138, 151, 164, 177, 190, 7, 20, 33, 46, 59, 72, 85, 98, 111,
     124, 137, 150, 163, 176, 189, 6, 19, 32, 45, 58, 71, 84, 97, 110, 123, 136, 149, 162, 175,
     188, 5, 18, 31, 44, 57, 70, 83, 96, 109, 122, 135, 148, 161, 174, 187, 4, 17, 30, 43,
     56, 69, 82, 95, 108, 121, 134, 147, 160, 173, 186, 3, 16, 29, 42, 55, 68, 81, 94, 107,
     120, 133, 146, 159, 172, 185, 2, 15, 28, 41, 54, 67, 80, 93, 106, 119, 132, 145, 158, 171,
     184, 1, 14, 27, 40, 53, 66, 79, 92, 105, 118, 131, 144, 157, 170, 183]"

definition lsb :: "u8 \<Rightarrow> bool" where
  "lsb b = bit b 0"

definition BPTCDeInterleaveDMRData :: "u8 list \<Rightarrow> bits \<Rightarrow> bits" where
  "BPTCDeInterleaveDMRData Input Output =
     fold (\<lambda>i out. out[BPTCDeInterleavingIndex ! i := lsb (Input ! i)]) [0..<196] Output"

section \<open>BPTC (196,96)\<close>

text \<open>\<open>matrix[i][j] = input[k] & 1\<close> with \<open>k\<close> counting up from 1: bit 0 is not used.\<close>

definition bptc_196x96_fill_matrix :: "bits \<Rightarrow> bits list" where
  "bptc_196x96_fill_matrix input = map (\<lambda>i. map (\<lambda>j. input ! (1 + 15 * i + j)) [0..<15]) [0..<13]"

fun decode_rows_loop :: "nat list \<Rightarrow> bits \<Rightarrow> bits list \<Rightarrow> nat \<Rightarrow> bits list \<times> nat" where
  "decode_rows_loop [] line_corrected matrix errors = (matrix, errors)"
| "decode_rows_loop (i # is) line_corrected matrix errors =
     (let (_, corrected, good) = hamming_decode Hamming_15_11 (matrix ! i) (Some line_corrected) 1;
          line = the corrected
      in decode_rows_loop is line (matrix[i := overwrite 0 line (matrix ! i)])
           (if good then errors else errors + 1))"

definition bptc_196x96_decode_rows :: "bits \<Rightarrow> bits list \<Rightarrow> bits list \<times> nat" where
  "bptc_196x96_decode_rows line_corrected matrix = decode_rows_loop [0..<9] line_corrected matrix 0"

definition matrix_column :: "bits list \<Rightarrow> nat \<Rightarrow> bits" where
  "matrix_column matrix i = map (\<lambda>row. row ! i) matrix"

text \<open>\<open>for j < 9: matrix[j][i] = col_corrected[j]\<close>.\<close>

definition set_column :: "nat \<Rightarrow> bits \<Rightarrow> bits list \<Rightarrow> bits list" where
  "set_column i col matrix = map (\<lambda>j. if j < length col then (matrix ! j)[i := col ! j] else matrix ! j) [0..<length matrix]"

fun decode_cols_loop :: "nat list \<Rightarrow> bits \<Rightarrow> bits list \<Rightarrow> nat \<Rightarrow> bits list \<times> nat" where
  "decode_cols_loop [] col_corrected matrix errors = (matrix, errors)"
| "decode_cols_loop (i # is) col_corrected matrix errors =
     (let (_, corrected, good) = hamming_decode Hamming_13_9 (matrix_column matrix i) (Some col_corrected) 1;
          col = the corrected
      in decode_cols_loop is col (set_column i col matrix) (if good then errors else errors + 1))"

definition bptc_196x96_decode_cols :: "bits \<Rightarrow> bits list \<Rightarrow> bits list \<times> nat" where
  "bptc_196x96_decode_cols col_corrected matrix = decode_cols_loop [0..<15] col_corrected matrix 0"

definition bptc_196x96_extract_payload_and_r :: "bits list \<Rightarrow> bits \<times> bits" where
  "bptc_196x96_extract_payload_and_r matrix =
     (map (\<lambda>i. matrix ! 0 ! i) [3..<11] @ concat (map (\<lambda>i. map (\<lambda>j. matrix ! i ! j) [0..<11]) [1..<9]),
      [matrix ! 0 ! 2, matrix ! 0 ! 1, matrix ! 0 ! 0])"

text \<open>The four uninitialised arrays: one per call of the row and column passes.\<close>

record scratch =
  rows1 :: bits
  cols1 :: bits
  rows2 :: bits
  cols2 :: bits

definition BPTC_196x96_Extract_Data :: "scratch \<Rightarrow> bits \<Rightarrow> bits \<times> bits \<times> nat" where
  "BPTC_196x96_Extract_Data u input =
     (let m0 = bptc_196x96_fill_matrix input;
          m1 = fst (bptc_196x96_decode_rows (rows1 u) m0);
          m2 = fst (bptc_196x96_decode_cols (cols1 u) m1);
          (m3, e3) = bptc_196x96_decode_rows (rows2 u) m2;
          (m4, e4) = bptc_196x96_decode_cols (cols2 u) m3;
          (extracted, r_bits) = bptc_196x96_extract_payload_and_r m4
      in (extracted, r_bits, e3 + e4))"

section \<open>BPTC (128,77)\<close>

text \<open>One row: on failure the received row stays, otherwise its 11 information bits are replaced.\<close>

definition bptc_128_row :: "bits \<Rightarrow> bits \<Rightarrow> bits \<times> bits \<times> bool" where
  "bptc_128_row LineCorrected row =
     (let (_, corrected, good) = hamming_decode Hamming_16_11_4 row (Some LineCorrected) 1;
          line = the corrected
      in if \<not> good then (row, line, False) else (overwrite 0 (take 11 line) row, line, True))"

fun bptc_128_rows :: "bits \<Rightarrow> bits list \<Rightarrow> nat \<Rightarrow> bits list \<times> nat" where
  "bptc_128_rows LineCorrected [] errors = ([], errors)"
| "bptc_128_rows LineCorrected (row # rows) errors =
     (let (row', line, good) = bptc_128_row LineCorrected row;
          (rows', errors') = bptc_128_rows line rows (if good then errors else errors + 1)
      in (row' # rows', errors'))"

definition bptc_128_payload :: "bits list \<Rightarrow> bits" where
  "bptc_128_payload m = concat (map (\<lambda>i. map (\<lambda>j. m ! i ! j) [0..<11]) [0..<2])
     @ concat (map (\<lambda>i. map (\<lambda>j. m ! i ! j) [0..<10]) [2..<7]) @ map (\<lambda>i. m ! i ! 10) [2..<7]"

definition bptc_128_parity_errors :: "bits list \<Rightarrow> nat" where
  "bptc_128_parity_errors m =
     length (filter (\<lambda>i. (\<Sum>j\<leftarrow>[0..<7]. of_bool (m ! j ! i) :: nat) mod 2 \<noteq> of_bool (m ! 7 ! i)) [0..<16])"

definition BPTC_128x77_Extract_Data :: "bits \<Rightarrow> u8 list list \<Rightarrow> bits \<times> nat" where
  "BPTC_128x77_Extract_Data LineCorrected InputDataMatrix =
     (let m0 = map (map lsb) InputDataMatrix;
          (rows, errors) = bptc_128_rows LineCorrected (take 7 m0) 0;
          m = rows @ drop 7 m0
      in (bptc_128_payload m, errors + bptc_128_parity_errors m))"

section \<open>Reverse-channel 16x2 code\<close>

definition DeInterleaveReverseChannelBptc :: "nat list" where
  "DeInterleaveReverseChannelBptc = [0, 17, 2, 19, 4, 21, 6, 23, 8, 25, 10, 27, 12, 29, 14, 31,
     16, 1, 18, 3, 20, 5, 22, 7, 24, 9, 26, 11, 28, 13, 30, 15]"

definition DeInterleaveReverseChannelBptcPlacement :: "nat list" where
  "DeInterleaveReverseChannelBptcPlacement = [0, 16, 1, 17, 2, 18, 3, 19, 4, 20, 5, 21, 6, 22, 7, 23,
     8, 24, 9, 25, 10, 26, 11, 27, 12, 28, 13, 29, 14, 30, 15, 31]"

definition rc_matrix :: "u8 list \<Rightarrow> bits \<Rightarrow> bits" where
  "rc_matrix InputInterleavedData DataMatrix =
     fold (\<lambda>i m. m[DeInterleaveReverseChannelBptcPlacement ! (DeInterleaveReverseChannelBptc ! i) :=
             lsb (InputInterleavedData ! i)]) [0..<32] DataMatrix"

definition BPTC_16x2_Extract_Data :: "bits \<Rightarrow> bits \<Rightarrow> u8 list \<Rightarrow> bool \<Rightarrow> bits \<times> nat" where
  "BPTC_16x2_Extract_Data DataMatrix LineCorrected InputInterleavedData ParityCheckTypeOdd =
     (let m = rc_matrix InputInterleavedData DataMatrix;
          (_, corrected, good) = hamming_decode Hamming_16_11_4 (take 16 m) (Some LineCorrected) 1;
          extracted = overwrite 0 (take 11 (the corrected)) m;
          hamming = (if good then 0 else 1 :: nat);
          odd_errors = length (filter (\<lambda>i. extracted ! i = extracted ! (i + 16)) [0..<16]);
          even_errors = length (filter (\<lambda>i. extracted ! i \<noteq> extracted ! (i + 16)) [0..<16])
      in (extracted, if ParityCheckTypeOdd then hamming + odd_errors else hamming + even_errors))"

section \<open>Array lemmas\<close>

lemma fold_update_nth:
  "inj_on g (set is) \<Longrightarrow> \<forall>i\<in>set is. g i < length out \<Longrightarrow> distinct is \<Longrightarrow> k \<in> set is \<Longrightarrow>
     fold (\<lambda>i out. out[g i := f i]) is out ! g k = f k"
proof (induction "is" arbitrary: out)
  case (Cons i "is")
  show ?case
  proof (cases "k \<in> set is")
    case True
    then show ?thesis using Cons by simp
  next
    case False
    then have k: "k = i" using Cons.prems by simp
    have "fold (\<lambda>i out. out[g i := f i]) js xs ! g k = xs ! g k" if "g k \<notin> g ` set js" for js xs
      using that by (induction js arbitrary: xs) simp_all
    moreover have "g k \<notin> g ` set is" using Cons.prems k by (auto simp: inj_on_def)
    ultimately show ?thesis using Cons.prems k by simp
  qed
qed simp

lemma length_fold_update: "length (fold (\<lambda>i out. out[g i := f i]) is out) = length out"
  by (induction "is" arbitrary: out) simp_all

lemma hamming_dist_card:
  assumes "length x = length c"
  shows "hamming_dist c x = card {i. i < length c \<and> c ! i \<noteq> x ! i}"
  using assms length_filter_conv_card [of "\<lambda>(a, b). a \<noteq> b" "zip c x"]
  by (simp add: hamming_dist_def split_def cong: conj_cong)

lemma hamming_dist_mono:
  assumes "length x = length c" "length y = length c"
    "\<And>i. i < length c \<Longrightarrow> c ! i \<noteq> x ! i \<Longrightarrow> c ! i \<noteq> y ! i"
  shows "hamming_dist c x \<le> hamming_dist c y"
  unfolding hamming_dist_card [OF assms(1)] hamming_dist_card [OF assms(2)]
  using assms(3) by (intro card_mono) auto

lemma hamming_dist_one:
  assumes "length x = length c" "\<And>i. i < length c \<Longrightarrow> i \<noteq> b \<Longrightarrow> c ! i = x ! i"
  shows "hamming_dist c x \<le> 1"
proof -
  have "card {i. i < length c \<and> c ! i \<noteq> x ! i} \<le> card {b}" using assms(2) by (intro card_mono) auto
  then show ?thesis by (simp add: hamming_dist_card [OF assms(1)])
qed

lemma hamming_dist_zero [simp]: "hamming_dist c c = 0"
  by (simp add: hamming_dist_card)

lemma hamming_decode_one:
  assumes "hc \<in> set hamming_codes" "codeword (hc_H hc) c" "length c = hc_n hc" "length x = hc_n hc"
    "hamming_dist c x \<le> 1" "length out = hc_k hc"
  shows "hamming_decode hc x (Some out) 1 = (c, Some (take (hc_k hc) c), True)"
  using hamming_loop_corrects [OF assms(1), of "[c]" "[x]" "[]" 0 "[]" out "[]" "[]" True] assms(2-)
  by (simp add: hamming_decode_def corrupted_def)

lemma length_hamming_word [simp]: "length (fst (hamming_word H corr x)) = length x"
  by (simp add: hamming_word_def Let_def)

text \<open>One received word, whatever it holds: a decoded word or the old buffer.\<close>

lemma hamming_decode_one_shape:
  assumes "hc \<in> set hamming_codes" "length x = hc_n hc" "length out = hc_k hc"
  obtains word d good where "hamming_decode hc x (Some out) 1 = (word, Some d, good)" "length word = hc_n hc"
    "length d = hc_k hc" "(word, good) = hamming_word (hc_H hc) (hc_corr hc) x"
    "\<not> good \<and> hc_stops hc \<Longrightarrow> d = out" "good \<Longrightarrow> d = take (hc_k hc) word"
proof -
  obtain word good where w: "hamming_word (hc_H hc) (hc_corr hc) x = (word, good)" by fastforce
  then have l: "length word = hc_n hc" using length_hamming_word [of "hc_H hc" "hc_corr hc" x] assms(2) by simp
  let ?d = "if \<not> good \<and> hc_stops hc then out else take (hc_k hc) word"
  have "hamming_decode hc x (Some out) 1 = (word, Some ?d, good)"
    using assms l hamming_codes_decode(2) [OF assms(1)] w by (simp add: hamming_decode_def overwrite_def)
  from this l show ?thesis
  proof (rule that)
    show "length ?d = hc_k hc" using l assms(3) hamming_codes_decode(2) [OF assms(1)] by simp
  qed (simp_all add: w)
qed

lemma index_table: "BPTCDeInterleavingIndex = map (\<lambda>i. 13 * i mod 196) [0..<196]"
  unfolding BPTCDeInterleavingIndex_def
  by (simp add: upt_rec [of 0 196] upt_rec [of "Suc 0" 196] numeral_2_eq_2 [symmetric])

lemma deinterleave_index:
  assumes "i < 196"
  shows "181 * (BPTCDeInterleavingIndex ! i) mod 196 = i" "BPTCDeInterleavingIndex ! i < 196"
    "BPTCDeInterleavingIndex ! (181 * i mod 196) = i"
proof -
  have "2353 * i = i + 196 * (12 * i)" by simp
  then have "2353 * i mod 196 = (i + 196 * (12 * i)) mod 196" by (rule arg_cong)
  then have "2353 * i mod 196 = i" using assms by (simp only: mod_mult_self2 mod_less)
  then show "181 * (BPTCDeInterleavingIndex ! i) mod 196 = i" "BPTCDeInterleavingIndex ! i < 196"
    "BPTCDeInterleavingIndex ! (181 * i mod 196) = i"
    using assms mod_mult_right_eq [of 181 "13 * i" 196] mod_mult_right_eq [of 13 "181 * i" 196] by (simp_all add: index_table)
qed

text \<open>De-interleaving undoes the interleaving rule of the DMR standard: position \<open>i\<close> of the
  de-interleaved block is the low bit of input byte \<open>181 * i mod 196\<close>, whatever the output buffer held.\<close>

theorem deinterleave_inverts_standard:
  assumes "length Output = 196"
  shows "BPTCDeInterleaveDMRData Input Output = map (\<lambda>i. lsb (Input ! (181 * i mod 196))) [0..<196]"
proof (rule nth_equalityI)
  show "length (BPTCDeInterleaveDMRData Input Output) = length (map (\<lambda>i. lsb (Input ! (181 * i mod 196))) [0..<196])"
    using assms by (simp add: BPTCDeInterleaveDMRData_def length_fold_update)
  note inv = deinterleave_index
  have "inj_on ((!) BPTCDeInterleavingIndex) {0..<196}"
    using inv(1) by (intro inj_on_inverseI [where g = "\<lambda>p. 181 * p mod 196"]) simp
  moreover fix i assume "i < length (BPTCDeInterleaveDMRData Input Output)"
  then have i: "i < 196" using assms by (simp add: BPTCDeInterleaveDMRData_def length_fold_update)
  ultimately show "BPTCDeInterleaveDMRData Input Output ! i = map (\<lambda>i. lsb (Input ! (181 * i mod 196))) [0..<196] ! i"
    using fold_update_nth [of "(!) BPTCDeInterleavingIndex" "[0..<196]" Output "181 * i mod 196" "\<lambda>i. lsb (Input ! i)"]
      inv i assms by (simp add: BPTCDeInterleaveDMRData_def)
qed

theorem deinterleave_inverts_standard_witness:
  "BPTCDeInterleaveDMRData (map of_nat [0..<196]) (replicate 196 True) =
     map (\<lambda>i. lsb (map of_nat [0..<196] ! (181 * i mod 196))) [0..<196]"
  by (rule deinterleave_inverts_standard) simp

section \<open>Product codewords\<close>

text \<open>
  Nine rows of 15 bits that the row code accepts, four rows of column parity, and all fifteen columns
  codewords of the column code.
\<close>

definition matrix_shape :: "bits list \<Rightarrow> bool" where
  "matrix_shape m \<longleftrightarrow> length m = 13 \<and> list_all (\<lambda>row. length row = 15) m"

definition product_code :: "bits list \<Rightarrow> bool" where
  "product_code C \<longleftrightarrow> matrix_shape C \<and> list_all (codeword Hamming_15_11_H) (take 9 C)
     \<and> list_all (\<lambda>j. codeword Hamming_13_9_H (matrix_column C j)) [0..<15]"

definition row_errors :: "bits list \<Rightarrow> bits list \<Rightarrow> nat \<Rightarrow> nat" where
  "row_errors C m i = hamming_dist (C ! i) (m ! i)"

definition col_errors :: "bits list \<Rightarrow> bits list \<Rightarrow> nat \<Rightarrow> nat" where
  "col_errors C m j = hamming_dist (matrix_column C j) (matrix_column m j)"

lemma shape_nth: "matrix_shape m \<Longrightarrow> i < 13 \<Longrightarrow> length (m ! i) = 15" "matrix_shape m \<Longrightarrow> length m = 13"
  by (simp_all add: matrix_shape_def list_all_length)

lemma product_code_nth:
  assumes "product_code C"
  shows "matrix_shape C" "i < 9 \<Longrightarrow> codeword Hamming_15_11_H (C ! i)"
    "j < 15 \<Longrightarrow> codeword Hamming_13_9_H (matrix_column C j)"
  using assms by (auto simp: product_code_def matrix_shape_def list_all_length)

lemma matrix_eqI:
  assumes "matrix_shape a" "matrix_shape b" "\<And>i j. i < 13 \<Longrightarrow> j < 15 \<Longrightarrow> a ! i ! j = b ! i ! j"
  shows "a = b"
  using assms shape_nth by (intro nth_equalityI) auto

lemma matrix_column_nth [simp]: "i < length m \<Longrightarrow> matrix_column m j ! i = m ! i ! j"
  "length (matrix_column m j) = length m"
  by (simp_all add: matrix_column_def)

text \<open>One row or column of the passes.\<close>

lemma code_members: "Hamming_15_11 \<in> set hamming_codes" "Hamming_13_9 \<in> set hamming_codes"
  "Hamming_16_11_4 \<in> set hamming_codes"
  by (simp_all add: hamming_codes_def)

lemma code_fields:
  "hc_n Hamming_15_11 = 15" "hc_k Hamming_15_11 = 11" "hc_H Hamming_15_11 = Hamming_15_11_H"
  "hc_n Hamming_13_9 = 13" "hc_k Hamming_13_9 = 9" "hc_H Hamming_13_9 = Hamming_13_9_H" "hc_stops Hamming_13_9"
  "hc_n Hamming_16_11_4 = 16" "hc_k Hamming_16_11_4 = 11" "hc_H Hamming_16_11_4 = Hamming_16_11_4_H"
  "hc_corr Hamming_13_9 = Hamming_13_9_corr" "hc_corr Hamming_16_11_4 = Hamming_16_11_4_corr" "hc_stops Hamming_16_11_4"
  by (simp_all add: Hamming_15_11_def Hamming_13_9_def Hamming_16_11_4_def)

lemmas decode_exact = hamming_decode_one [OF code_members(1), unfolded code_fields]
  hamming_decode_one [OF code_members(2), unfolded code_fields]
  hamming_decode_one [OF code_members(3), unfolded code_fields]

lemma decode_rows_loop_pass:
  assumes "product_code C" "matrix_shape m" "length junk = 11" "distinct is" "set is \<subseteq> {..<9}"
  shows "matrix_shape (fst (decode_rows_loop is junk m e)) \<and>
    (\<forall>i. i < 13 \<and> i \<notin> set is \<longrightarrow> fst (decode_rows_loop is junk m e) ! i = m ! i) \<and>
    (\<forall>i\<in>set is. row_errors C m i \<le> 1 \<longrightarrow> fst (decode_rows_loop is junk m e) ! i = take 11 (C ! i) @ drop 11 (m ! i)) \<and>
    ((\<forall>i\<in>set is. row_errors C m i \<le> 1) \<longrightarrow> snd (decode_rows_loop is junk m e) = e)"
  using assms(2-5)
proof (induction "is" arbitrary: junk m e)
  case Nil
  then show ?case by simp
next
  case (Cons i "is")
  have i: "i < 9" "i < 13" "i < length m" "i \<notin> set is" using Cons.prems by (auto simp: matrix_shape_def)
  obtain word d good where d: "hamming_decode Hamming_15_11 (m ! i) (Some junk) 1 = (word, Some d, good)" "length d = 11"
    using hamming_decode_one_shape [OF code_members(1), of "m ! i" junk] shape_nth(1) [OF Cons.prems(1) i(2)] Cons.prems(2)
    unfolding code_fields by blast
  let ?m = "m[i := overwrite 0 d (m ! i)]"
  have sh: "matrix_shape ?m"
    using Cons.prems(1) shape_nth(1) [OF Cons.prems(1) i(2)] d(2) i(2)
    by (auto simp: matrix_shape_def list_all_length nth_list_update overwrite_def)
  have step: "decode_rows_loop (i # is) junk m e = decode_rows_loop is d ?m (if good then e else e + 1)" by (simp add: d del: One_nat_def)
  have good: "d = take 11 (C ! i) \<and> good" if "row_errors C m i \<le> 1"
  proof -
    have "hamming_decode Hamming_15_11 (m ! i) (Some junk) 1 = (C ! i, Some (take 11 (C ! i)), True)"
      using that shape_nth(1) [OF Cons.prems(1) i(2)] shape_nth(1) [OF product_code_nth(1) [OF assms(1)] i(2)]
      by (intro decode_exact(1) product_code_nth(2) [OF assms(1) i(1)] Cons.prems(2)) (simp_all add: row_errors_def)
    from trans [OF sym [OF d(1)] this] show ?thesis by simp
  qed
  have rest: "row_errors C ?m k = row_errors C m k" "?m ! k = m ! k" if "k \<noteq> i" for k
    using that by (simp_all add: row_errors_def)
  have ne: "k \<noteq> i" if "k \<in> set is" for k using that i(4) by blast
  note ih = Cons.IH [OF sh d(2), where e = "if good then e else e + 1"]
  have ih': "matrix_shape (fst (decode_rows_loop (i # is) junk m e))"
    "k < 13 \<Longrightarrow> k \<notin> set is \<Longrightarrow> fst (decode_rows_loop (i # is) junk m e) ! k = ?m ! k"
    "k \<in> set is \<Longrightarrow> row_errors C m k \<le> 1 \<Longrightarrow> fst (decode_rows_loop (i # is) junk m e) ! k = take 11 (C ! k) @ drop 11 (m ! k)"
    "\<forall>k\<in>set is. row_errors C m k \<le> 1 \<Longrightarrow> snd (decode_rows_loop (i # is) junk m e) = (if good then e else e + 1)" for k
    using ih rest [OF ne] Cons.prems(3,4) unfolding step by simp_all
  have "fst (decode_rows_loop (i # is) junk m e) ! i = take 11 (C ! i) @ drop 11 (m ! i)" if "row_errors C m i \<le> 1"
    using ih'(2) [of i] i good [OF that] d(2) by (simp add: overwrite_def)
  moreover have "fst (decode_rows_loop (i # is) junk m e) ! k = m ! k" if "k < 13" "k \<notin> set (i # is)" for k
    using ih'(2) [of k] that rest(2) [of k] by simp
  ultimately show ?case using ih'(1,3,4) good by (auto simp del: decode_rows_loop.simps)
qed

lemma rows_pass:
  assumes "product_code C" "matrix_shape m" "length junk = 11"
  shows "matrix_shape (fst (bptc_196x96_decode_rows junk m))"
    "9 \<le> i \<Longrightarrow> i < 13 \<Longrightarrow> fst (bptc_196x96_decode_rows junk m) ! i = m ! i"
    "i < 9 \<Longrightarrow> row_errors C m i \<le> 1 \<Longrightarrow> fst (bptc_196x96_decode_rows junk m) ! i = take 11 (C ! i) @ drop 11 (m ! i)"
    "\<forall>i<9. row_errors C m i \<le> 1 \<Longrightarrow> snd (bptc_196x96_decode_rows junk m) = 0"
  using decode_rows_loop_pass [OF assms distinct_upt, of 0 9 0] unfolding bptc_196x96_decode_rows_def
  by (simp_all add: subset_eq)

lemma set_column_simps [simp]:
  "length (set_column i col m) = length m"
  "k < length m \<Longrightarrow> set_column i col m ! k = (if k < length col then (m ! k)[i := col ! k] else m ! k)"
  by (simp_all add: set_column_def)

lemma set_column_shape: "matrix_shape m \<Longrightarrow> matrix_shape (set_column i col m)"
  by (simp add: matrix_shape_def list_all_length)

lemma set_column_other: "j \<noteq> i \<Longrightarrow> matrix_column (set_column i col m) j = matrix_column m j"
  by (intro nth_equalityI) simp_all

text \<open>
  What a column pass leaves in rows 0 to 8 of column \<open>i\<close>: the information part of the nearest column
  at or before \<open>i\<close> that the column code accepts, or the uninitialised buffer if there is none.
\<close>

definition column_word :: "bits list \<Rightarrow> nat \<Rightarrow> bits \<times> bool" where
  "column_word m i = hamming_word Hamming_13_9_H Hamming_13_9_corr (matrix_column m i)"

primrec carried :: "bits \<Rightarrow> bits list \<Rightarrow> nat \<Rightarrow> bits" where
  "carried junk m 0 = (if snd (column_word m 0) then take 9 (fst (column_word m 0)) else junk)"
| "carried junk m (Suc i) = (if snd (column_word m (Suc i)) then take 9 (fst (column_word m (Suc i))) else carried junk m i)"

definition carried_before :: "bits \<Rightarrow> bits list \<Rightarrow> nat \<Rightarrow> bits" where
  "carried_before junk m i = (case i of 0 \<Rightarrow> junk | Suc k \<Rightarrow> carried junk m k)"

lemma carried_rec:
  "carried junk m i = (if snd (column_word m i) then take 9 (fst (column_word m i)) else carried_before junk m i)"
  by (cases i) (simp_all add: carried_before_def)

lemma length_carried: "matrix_shape m \<Longrightarrow> length junk = 9 \<Longrightarrow> length (carried junk m i) = 9"
  by (induction i) (simp_all add: column_word_def matrix_shape_def)

lemma decode_cols_loop_spec:
  assumes "matrix_shape m" "matrix_shape m0" "length junk = 9" "a \<le> 15" "\<And>i. a \<le> i \<Longrightarrow> matrix_column m i = matrix_column m0 i"
    "\<And>i k. i < a \<Longrightarrow> k < 9 \<Longrightarrow> m ! k ! i = carried junk m0 i ! k"
    "\<And>i k. 9 \<le> k \<Longrightarrow> k < 13 \<Longrightarrow> m ! k = m0 ! k"
  shows "matrix_shape (fst (decode_cols_loop [a..<15] (carried_before junk m0 a) m e)) \<and>
    (\<forall>i<15. \<forall>k<9. fst (decode_cols_loop [a..<15] (carried_before junk m0 a) m e) ! k ! i = carried junk m0 i ! k) \<and>
    (\<forall>k<13. 9 \<le> k \<longrightarrow> fst (decode_cols_loop [a..<15] (carried_before junk m0 a) m e) ! k = m0 ! k) \<and>
    snd (decode_cols_loop [a..<15] (carried_before junk m0 a) m e) = e + length (filter (\<lambda>i. \<not> snd (column_word m0 i)) [a..<15])"
  using assms(1,4-7)
proof (induction "15 - a" arbitrary: a m e)
  case 0
  then have "[a..<15] = []" by simp
  then show ?case using 0 by simp
next
  case (Suc n)
  have a: "a < 15" using Suc.hyps(2) by simp
  have up: "[a..<15] = a # [Suc a..<15]" using a by (rule upt_conv_Cons)
  have jl: "length (carried_before junk m0 a) = 9"
    using length_carried [OF assms(2,3)] assms(3) by (simp add: carried_before_def split: nat.split)
  obtain word d good where d: "hamming_decode Hamming_13_9 (matrix_column m a) (Some (carried_before junk m0 a)) 1 = (word, Some d, good)"
      "length d = 9" "(word, good) = hamming_word Hamming_13_9_H Hamming_13_9_corr (matrix_column m a)"
      "\<not> good \<and> hc_stops Hamming_13_9 \<Longrightarrow> d = carried_before junk m0 a" "good \<Longrightarrow> d = take 9 word"
  proof (rule hamming_decode_one_shape [OF code_members(2), of "matrix_column m a" "carried_before junk m0 a"])
  qed (use jl shape_nth(2) [OF Suc.prems(1)] in \<open>simp_all add: code_fields del: One_nat_def\<close>)
  have cw: "column_word m0 a = (word, good)"
    using d(3) Suc.prems(3) [of a] by (simp add: column_word_def)
  have dc: "d = carried junk m0 a" using d(4,5) cw by (simp add: code_fields carried_rec [of junk m0 a])
  let ?m = "set_column a d m"
  have step: "decode_cols_loop [a..<15] (carried_before junk m0 a) m e =
      decode_cols_loop [Suc a..<15] (carried_before junk m0 (Suc a)) ?m (if good then e else e + 1)"
    unfolding up using d(1) dc by (simp add: carried_before_def Let_def del: One_nat_def)
  have l: "length m = 13" "k < 13 \<Longrightarrow> length (m ! k) = 15" for k using shape_nth [OF Suc.prems(1)] by simp_all
  have prem: "matrix_shape ?m" "Suc a \<le> 15" "Suc a \<le> i \<Longrightarrow> matrix_column ?m i = matrix_column m0 i"
    "i < Suc a \<Longrightarrow> k < 9 \<Longrightarrow> ?m ! k ! i = carried junk m0 i ! k" "9 \<le> k \<Longrightarrow> k < 13 \<Longrightarrow> ?m ! k = m0 ! k" for i k
  proof -
    show "matrix_shape ?m" by (rule set_column_shape [OF Suc.prems(1)])
    show "Suc a \<le> 15" using a by simp
    show "Suc a \<le> i \<Longrightarrow> matrix_column ?m i = matrix_column m0 i" using Suc.prems(3) by (simp add: set_column_other)
    show "i < Suc a \<Longrightarrow> k < 9 \<Longrightarrow> ?m ! k ! i = carried junk m0 i ! k"
      using Suc.prems(4) [of i k] l d(2) dc a by (cases "i = a") simp_all
    show "9 \<le> k \<Longrightarrow> k < 13 \<Longrightarrow> ?m ! k = m0 ! k" using Suc.prems(5) l d(2) by simp
  qed
  have "length (filter (\<lambda>i. \<not> snd (column_word m0 i)) [a..<15]) =
      (if good then 0 else 1) + length (filter (\<lambda>i. \<not> snd (column_word m0 i)) [Suc a..<15])"
    unfolding up using cw by simp
  then show ?case
    using Suc.hyps(1) [of "Suc a" ?m "if good then e else e + 1"] Suc.hyps(2) prem unfolding step by simp
qed

lemma cols_pass:
  assumes "matrix_shape m" "length junk = 9"
  shows "matrix_shape (fst (bptc_196x96_decode_cols junk m))"
    "i < 15 \<Longrightarrow> k < 9 \<Longrightarrow> fst (bptc_196x96_decode_cols junk m) ! k ! i = carried junk m i ! k"
    "9 \<le> k \<Longrightarrow> k < 13 \<Longrightarrow> fst (bptc_196x96_decode_cols junk m) ! k = m ! k"
    "snd (bptc_196x96_decode_cols junk m) = length (filter (\<lambda>i. \<not> snd (column_word m i)) [0..<15])"
  using decode_cols_loop_spec [OF assms(1,1,2), of 0 0]
  by (simp_all add: bptc_196x96_decode_cols_def carried_before_def)

lemma cols_pass_corrects:
  assumes "product_code C" "matrix_shape m" "length junk = 9" "\<And>j. j < 15 \<Longrightarrow> col_errors C m j \<le> 1"
  shows "k < 9 \<Longrightarrow> fst (bptc_196x96_decode_cols junk m) ! k = C ! k" "snd (bptc_196x96_decode_cols junk m) = 0"
proof -
  have w: "column_word m j = (matrix_column C j, True)" if "j < 15" for j
    unfolding column_word_def
  proof (rule hamming_word_corrects [OF h13_9.syndrome_decoder_axioms])
    show "codeword Hamming_13_9_H (matrix_column C j)" using product_code_nth(3) [OF assms(1) that] .
    show "hamming_dist (matrix_column C j) (matrix_column m j) \<le> 1" using assms(4) [OF that] by (simp add: col_errors_def)
  qed (simp_all add: shape_nth(2) assms(2) product_code_nth(1) [OF assms(1)])
  then show "snd (bptc_196x96_decode_cols junk m) = 0"
    by (simp add: cols_pass(4) [OF assms(2,3)] filter_empty_conv)
  note sh = cols_pass(1) [OF assms(2,3)] product_code_nth(1) [OF assms(1)]
  assume k: "k < 9"
  have "carried junk m j ! k = C ! k ! j" if "j < 15" for j
    using w [OF that] k shape_nth(2) [OF sh(2)] by (simp add: carried_rec [of junk m j])
  then show "fst (bptc_196x96_decode_cols junk m) ! k = C ! k"
    using shape_nth(1) [OF sh(1), of k] shape_nth(1) [OF sh(2), of k] k cols_pass(2) [OF assms(2,3) _ k]
    by (intro nth_equalityI) simp_all
qed

section \<open>What the decoders do\<close>

lemma fill_shape: "matrix_shape (bptc_196x96_fill_matrix input)"
  by (simp add: matrix_shape_def bptc_196x96_fill_matrix_def list_all_length)

text \<open>After a row pass that leaves at most one wrong bit per column everything else is exact.\<close>

lemma bptc_converges:
  assumes C: "product_code C" and u: "length (rows1 u) = 11" "length (cols1 u) = 9" "length (rows2 u) = 11" "length (cols2 u) = 9"
    and m: "matrix_shape m"
    and cols: "\<And>j. j < 15 \<Longrightarrow> col_errors C (fst (bptc_196x96_decode_rows (rows1 u) m)) j \<le> 1"
  defines "m2 \<equiv> fst (bptc_196x96_decode_cols (cols1 u) (fst (bptc_196x96_decode_rows (rows1 u) m)))"
  defines "m3 \<equiv> fst (bptc_196x96_decode_rows (rows2 u) m2)"
  shows "k < 9 \<Longrightarrow> fst (bptc_196x96_decode_cols (cols2 u) m3) ! k = C ! k"
    "snd (bptc_196x96_decode_rows (rows2 u) m2) = 0" "snd (bptc_196x96_decode_cols (cols2 u) m3) = 0"
proof -
  note s1 = rows_pass(1) [OF C m u(1)]
  have m2: "matrix_shape m2" "k < 9 \<Longrightarrow> m2 ! k = C ! k"
    "9 \<le> k \<Longrightarrow> k < 13 \<Longrightarrow> m2 ! k = fst (bptc_196x96_decode_rows (rows1 u) m) ! k" for k
    using cols_pass(1,3) [OF s1 u(2)] cols_pass_corrects(1) [OF C s1 u(2) cols] unfolding m2_def by simp_all
  have r: "row_errors C m2 k \<le> 1" if "k < 9" for k using m2(2) [OF that] by (simp add: row_errors_def)
  show "snd (bptc_196x96_decode_rows (rows2 u) m2) = 0" using rows_pass(4) [OF C m2(1) u(3)] r by blast
  have m3: "m3 = m2"
  proof (rule matrix_eqI)
    show "m3 ! i ! j = m2 ! i ! j" if "i < 13" "j < 15" for i j
    proof (cases "i < 9")
      case True
      then show ?thesis using rows_pass(3) [OF C m2(1) u(3) True r [OF True]] m2(2) [OF True] unfolding m3_def by simp
    qed (use that rows_pass(2) [OF C m2(1) u(3)] in \<open>simp add: m3_def\<close>)
  qed (use rows_pass(1) [OF C m2(1) u(3)] m2(1) in \<open>simp_all add: m3_def\<close>)
  have c: "col_errors C m2 j \<le> 1" if "j < 15" for j
  proof -
    note l = shape_nth(2) [OF product_code_nth(1) [OF C]] shape_nth(2) [OF m2(1)] shape_nth(2) [OF s1]
    have "col_errors C m2 j \<le> col_errors C (fst (bptc_196x96_decode_rows (rows1 u) m)) j"
      unfolding col_errors_def
    proof (rule hamming_dist_mono)
      fix i assume "i < length (matrix_column C j)" "matrix_column C j ! i \<noteq> matrix_column m2 j ! i"
      then show "matrix_column C j ! i \<noteq> matrix_column (fst (bptc_196x96_decode_rows (rows1 u) m)) j ! i"
        using l m2(2,3) [of i] by (cases "i < 9") simp_all
    qed (simp_all add: l)
    then show ?thesis using cols [OF that] by simp
  qed
  show "k < 9 \<Longrightarrow> fst (bptc_196x96_decode_cols (cols2 u) m3) ! k = C ! k" "snd (bptc_196x96_decode_cols (cols2 u) m3) = 0"
    using cols_pass_corrects [OF C m2(1) u(4) c] unfolding m3 by simp_all
qed

lemma payload_cong:
  assumes "\<And>k. k < 9 \<Longrightarrow> a ! k = b ! k"
  shows "bptc_196x96_extract_payload_and_r a = bptc_196x96_extract_payload_and_r b"
proof -
  have "concat (map (\<lambda>i. map (\<lambda>j. a ! i ! j) [0..<11]) [1..<9]) = concat (map (\<lambda>i. map (\<lambda>j. b ! i ! j) [0..<11]) [1..<9])"
    using assms by (intro arg_cong [where f = concat] map_cong) simp_all
  then show ?thesis using assms [of 0] by (simp add: bptc_196x96_extract_payload_and_r_def)
qed

text \<open>
  The received block is a product codeword with at most one wrong bit in every information row and
  in every column, or with any number of wrong bits inside a single information row.
\<close>

definition correctable_block :: "bits list \<Rightarrow> bits list \<Rightarrow> bool" where
  "correctable_block C m \<longleftrightarrow>
     list_all (\<lambda>i. row_errors C m i \<le> 1) [0..<9] \<and> list_all (\<lambda>j. col_errors C m j \<le> 1) [0..<15] \<or>
     list_ex (\<lambda>b. list_all (\<lambda>i. i = b \<or> m ! i = C ! i) [0..<13]) [0..<9]"

lemma correctable_rows_pass:
  assumes C: "product_code C" and m: "matrix_shape m" "correctable_block C m" and junk: "length junk = 11" and j: "j < 15"
  shows "col_errors C (fst (bptc_196x96_decode_rows junk m)) j \<le> 1"
proof -
  let ?m1 = "fst (bptc_196x96_decode_rows junk m)"
  note sh = product_code_nth(1) [OF C] rows_pass(1) [OF C m(1) junk] m(1)
  consider "\<forall>i<9. row_errors C m i \<le> 1" "\<forall>j<15. col_errors C m j \<le> 1"
    | b where "b < 9" "\<forall>i<13. i = b \<or> m ! i = C ! i"
    using m(2) by (auto simp: correctable_block_def list_all_length list_ex_length)
  then show ?thesis
  proof cases
    case 1
    have "col_errors C ?m1 j \<le> col_errors C m j"
      unfolding col_errors_def
    proof (rule hamming_dist_mono)
      fix i assume i: "i < length (matrix_column C j)" "matrix_column C j ! i \<noteq> matrix_column ?m1 j ! i"
      then have l: "i < 13" using shape_nth(2) [OF sh(1)] by simp
      have n: "matrix_column C j ! i = C ! i ! j" "matrix_column ?m1 j ! i = ?m1 ! i ! j" "matrix_column m j ! i = m ! i ! j"
        using l by (simp_all add: shape_nth(2) sh)
      have "?m1 ! i ! j = m ! i ! j \<or> ?m1 ! i ! j = C ! i ! j"
      proof (cases "i < 9")
        case True
        then have "?m1 ! i = take 11 (C ! i) @ drop 11 (m ! i)" using rows_pass(3) [OF C m(1) junk True] 1 by blast
        then show ?thesis using j shape_nth(1) [OF sh(1) l] shape_nth(1) [OF sh(3) l]
          by (cases "j < 11") (simp_all add: nth_append)
      next
        case False
        then show ?thesis using rows_pass(2) [OF C m(1) junk, of i] l by simp
      qed
      then show "matrix_column C j ! i \<noteq> matrix_column m j ! i" using i(2) unfolding n by metis
    qed (simp_all add: shape_nth(2) sh)
    then show ?thesis using 1(2) j by (meson order_trans)
  next
    case 2
    show ?thesis
      unfolding col_errors_def
    proof (rule hamming_dist_one [where b = b])
      fix i assume i: "i < length (matrix_column C j)" "i \<noteq> b"
      then have l: "i < 13" "m ! i = C ! i" using 2(2) shape_nth(2) [OF sh(1)] by auto
      have "?m1 ! i = C ! i"
      proof (cases "i < 9")
        case True
        have "row_errors C m i \<le> 1" using l by (simp add: row_errors_def)
        from rows_pass(3) [OF C m(1) junk True this] show ?thesis using l by simp
      qed (use l rows_pass(2) [OF C m(1) junk, of i] in simp)
      then show "matrix_column C j ! i = matrix_column ?m1 j ! i"
        using l shape_nth(2) [OF sh(1)] shape_nth(2) [OF sh(2)] by simp
    qed (simp add: shape_nth(2) sh)
  qed
qed

text \<open>
  Where the standard puts the data: the nine information rows of eleven bits, read row by row, are the
  three R bits (last one first) and then the 96 payload bits.
\<close>

definition information_bit :: "bits list \<Rightarrow> nat \<Rightarrow> bool" where
  "information_bit C k = C ! (k div 11) ! (k mod 11)"

lemma payload_position:
  "bptc_196x96_extract_payload_and_r C =
   (map (\<lambda>k. information_bit C (k + 3)) [0..<96], map (information_bit C) [2, 1, 0])"
proof -
  have row: "map (\<lambda>j. C ! i ! j) [0..<11] = map (information_bit C) [11 * i..<11 * i + 11]" for i
    by (rule nth_equalityI) (simp_all add: information_bit_def)
  have rows: "concat (map (\<lambda>i. map (\<lambda>j. C ! i ! j) [0..<11]) [1..<n]) = map (information_bit C) [11..<11 * n]" if "1 \<le> n" for n
    using that
  proof (induction n rule: dec_induct)
    case (step n)
    have "[11..<11 * Suc n] = [11..<11 * n] @ [11 * n..<11 * n + 11]"
      using step.hyps upt_add_eq_append [of 11 "11 * n" 11] by (simp add: add.commute)
    with step show ?case by (simp add: row)
  qed simp
  have "map (\<lambda>i. C ! 0 ! i) [3..<11] = map (information_bit C) [3..<11]"
    by (rule nth_equalityI) (simp_all add: information_bit_def)
  then have "fst (bptc_196x96_extract_payload_and_r C) = map (information_bit C) ([3..<11] @ [11..<99])"
    using rows [of 9] by (simp add: bptc_196x96_extract_payload_and_r_def del: upt_rec_numeral)
  also have "[3..<11] @ [11..<99] = map (\<lambda>k. k + 3) [0..<96]"
    using upt_add_eq_append [of 3 11 88] map_add_upt [of 3 96] by (simp del: upt_rec_numeral)
  finally show ?thesis
    by (intro prod_eqI) (simp_all add: bptc_196x96_extract_payload_and_r_def information_bit_def comp_def del: upt_rec_numeral)
qed

text \<open>C31: BPTC (196,96): when the received matrix differs from a product codeword by at most one bit in
  every information row and every column, or by a burst of any length inside one information row,
  the decoder returns the codeword's information bits 3 to 98, in order, as the payload, its information
  bits 2, 1 and 0 as the R bits, and counts no error, whatever its uninitialised buffers held.\<close>

theorem bptc_196_corrects:
  assumes "product_code C" "correctable_block C (bptc_196x96_fill_matrix input)"
    "length (rows1 u) = 11" "length (cols1 u) = 9" "length (rows2 u) = 11" "length (cols2 u) = 9"
  shows "BPTC_196x96_Extract_Data u input =
    (map (\<lambda>k. information_bit C (k + 3)) [0..<96], map (information_bit C) [2, 1, 0], 0)"
proof -
  have c: "j < 15 \<Longrightarrow> col_errors C (fst (bptc_196x96_decode_rows (rows1 u) (bptc_196x96_fill_matrix input))) j \<le> 1" for j
    by (rule correctable_rows_pass [OF assms(1) fill_shape assms(2,3)])
  note f = bptc_converges [OF assms(1,3-6) fill_shape c]
  show ?thesis
    using payload_cong [OF f(1)] f(2,3)
    by (simp add: BPTC_196x96_Extract_Data_def split_def Let_def payload_position del: upt_rec_numeral)
qed

definition zero_block :: "bits list" where
  "zero_block = replicate 13 (replicate 15 False)"

theorem bptc_196_corrects_witness:
  "BPTC_196x96_Extract_Data \<lparr>rows1 = replicate 11 True, cols1 = replicate 9 True, rows2 = replicate 11 False, cols2 = replicate 9 True\<rparr>
     (replicate 31 False @ replicate 12 True @ replicate 153 False) =
    (map (\<lambda>k. information_bit zero_block (k + 3)) [0..<96], map (information_bit zero_block) [2, 1, 0], 0)"
proof (rule bptc_196_corrects)
  show "product_code zero_block" by code_simp
  show "correctable_block zero_block (bptc_196x96_fill_matrix (replicate 31 False @ replicate 12 True @ replicate 153 False))"
    by code_simp
qed simp_all

text \<open>BPTC (196,96), the column pass in closed form: rows 9 to 12 stay, and every information column
  receives the corrected bits of the nearest column at or before it that the column code accepts,
  or the uninitialised buffer when there is none, so that a refused column is overwritten with its
  neighbour. The returned count is the number of refused columns.\<close>

theorem bptc_196_refused_columns_are_stale:
  assumes "matrix_shape m" "length junk = 9"
  shows "bptc_196x96_decode_cols junk m =
    (map (\<lambda>k. if k < 9 then map (\<lambda>i. carried junk m i ! k) [0..<15] else m ! k) [0..<13],
     length (filter (\<lambda>i. \<not> snd (column_word m i)) [0..<15]))"
proof (rule prod_eqI)
  let ?M = "map (\<lambda>k. if k < 9 then map (\<lambda>i. carried junk m i ! k) [0..<15] else m ! k) [0..<13]"
  have "matrix_shape ?M" using assms(1) by (simp add: matrix_shape_def list_all_length)
  then have "fst (bptc_196x96_decode_cols junk m) = ?M"
    using cols_pass [OF assms] by (intro matrix_eqI) simp_all
  then show "fst (bptc_196x96_decode_cols junk m) = fst (?M, length (filter (\<lambda>i. \<not> snd (column_word m i)) [0..<15]))"
    by simp
qed (simp add: cols_pass(4) [OF assms])

theorem bptc_196_refused_columns_are_stale_witness:
  "let m = zero_block[0 := (replicate 15 False)[3 := True], 12 := (replicate 15 False)[3 := True],
                      9 := (replicate 15 False)[3 := True]] in
   bptc_196x96_decode_cols (replicate 9 True) m =
    (map (\<lambda>k. if k < 9 then map (\<lambda>i. carried (replicate 9 True) m i ! k) [0..<15] else m ! k) [0..<13],
     length (filter (\<lambda>i. \<not> snd (column_word m i)) [0..<15]))"
  unfolding Let_def by (rule bptc_196_refused_columns_are_stale) (code_simp, simp)

subsection \<open>BPTC (128,77)\<close>

definition parity_code :: "bits list \<Rightarrow> bool" where
  "parity_code C \<longleftrightarrow> length C = 8 \<and> list_all (\<lambda>row. length row = 16) C \<and>
     list_all (codeword Hamming_16_11_4_H) (take 7 C) \<and>
     list_all (\<lambda>i. even (\<Sum>j\<leftarrow>[0..<8]. of_bool (C ! j ! i) :: nat)) [0..<16]"

text \<open>At most \<open>t\<close> wrong bits in each of the seven checked rows.\<close>

definition received_within :: "nat \<Rightarrow> bits list \<Rightarrow> bits list \<Rightarrow> bool" where
  "received_within t C m \<longleftrightarrow> length m = 8 \<and> list_all (\<lambda>row. length row = 16) m \<and>
     list_all2 (\<lambda>c r. hamming_dist c r \<le> t) (take 7 C) (take 7 m)"

lemma received_row:
  "parity_code C \<Longrightarrow> received_within t C m \<Longrightarrow> k < 7 \<Longrightarrow> hamming_dist (C ! k) (m ! k) \<le> t"
  by (simp add: received_within_def parity_code_def list_all2_conv_all_nth)

lemma pairs_16_11: "pairs_refused Hamming_16_11_4_H 16 Hamming_16_11_4_corr"
  by code_simp

lemma bptc_128_rows_spec:
  assumes "list_all2 (\<lambda>c r. codeword Hamming_16_11_4_H c \<and> length c = 16 \<and> length r = 16 \<and> hamming_dist c r \<le> 2) cs rs"
    "length junk = 11"
  shows "bptc_128_rows junk rs e =
    (map2 (\<lambda>c r. if hamming_dist c r \<le> 1 then take 11 c @ drop 11 r else r) cs rs,
     e + length (filter (\<lambda>(c, r). hamming_dist c r = 2) (zip cs rs)))"
  using assms
proof (induction cs rs arbitrary: junk e rule: list_all2_induct)
  case Nil
  then show ?case by simp
next
  case (Cons c cs r rs)
  consider "hamming_dist c r \<le> 1" | "hamming_dist c r = 2" using Cons.hyps(1) by linarith
  then show ?case
  proof cases
    case 1
    then have "hamming_decode Hamming_16_11_4 r (Some junk) 1 = (c, Some (take 11 c), True)"
      using decode_exact(3) [of c r junk] Cons.hyps(1) Cons.prems by blast
    then have "bptc_128_row junk r = (take 11 c @ drop 11 r, take 11 c, True)"
      using Cons.hyps(1) by (simp add: bptc_128_row_def overwrite_def Let_def)
    then show ?thesis using Cons.IH [of "take 11 c" e] Cons.hyps(1) 1 by simp
  next
    case 2
    then have "hamming_word Hamming_16_11_4_H Hamming_16_11_4_corr r = (r, False)"
      using hamming_word_refuses [OF h16_11.syndrome_decoder_axioms pairs_16_11] Cons.hyps(1) by blast
    then have "hamming_decode Hamming_16_11_4 r (Some junk) 1 = (r, Some junk, False)"
      using Cons.hyps(1) by (simp add: hamming_decode_def code_fields overwrite_def)
    then have "bptc_128_row junk r = (r, junk, False)" by (simp add: bptc_128_row_def)
    then show ?thesis using Cons.IH [of junk "e + 1"] Cons.prems 2 by simp
  qed
qed

lemma odd_sum_diff:
  "odd (\<Sum>j\<leftarrow>js. of_bool (a j) :: nat) \<longleftrightarrow> odd (\<Sum>j\<leftarrow>js. of_bool (b j) :: nat) \<noteq> odd (\<Sum>j\<leftarrow>js. of_bool (a j \<noteq> b j) :: nat)"
  by (induction js) auto

lemma parity_errors_sum:
  "bptc_128_parity_errors m = length (filter (\<lambda>i. odd (\<Sum>j\<leftarrow>[0..<8]. of_bool (m ! j ! i) :: nat)) [0..<16])"
proof -
  have s: "[0..<8] = [0..<7] @ [7::nat]" by (simp add: upt_rec)
  have "((\<Sum>j\<leftarrow>[0..<7]. of_bool (m ! j ! i) :: nat) mod 2 \<noteq> of_bool (m ! 7 ! i)) =
      odd (\<Sum>j\<leftarrow>[0..<8]. of_bool (m ! j ! i) :: nat)" for i
    unfolding s by (auto simp: odd_iff_mod_2_eq_one)
  then show ?thesis by (simp add: bptc_128_parity_errors_def)
qed

lemma bptc_128_result:
  assumes C: "parity_code C" and m: "received_within 2 C m" and junk: "length junk = 11"
  obtains rows where "bptc_128_rows junk (take 7 m) 0 = (rows, length (filter (\<lambda>k. hamming_dist (C ! k) (m ! k) = 2) [0..<7]))"
    "length rows = 7"
    "\<And>k i. k < 7 \<Longrightarrow> i < 16 \<Longrightarrow> rows ! k ! i = (if hamming_dist (C ! k) (m ! k) \<le> 1 \<and> i < 11 then C ! k ! i else m ! k ! i)"
proof -
  let ?rows = "map2 (\<lambda>c r. if hamming_dist c r \<le> 1 then take 11 c @ drop 11 r else r) (take 7 C) (take 7 m)"
  have l: "length C = 8" "length m = 8" "k < 8 \<Longrightarrow> length (C ! k) = 16" "k < 8 \<Longrightarrow> length (m ! k) = 16"
    "k < 7 \<Longrightarrow> codeword Hamming_16_11_4_H (C ! k)" "k < 7 \<Longrightarrow> hamming_dist (C ! k) (m ! k) \<le> 2" for k
    using C m by (auto simp: parity_code_def received_within_def list_all_length list_all2_conv_all_nth)
  have z: "zip (take 7 C) (take 7 m) = map (\<lambda>k. (C ! k, m ! k)) [0..<7]"
    using l by (intro nth_equalityI) simp_all
  have a: "list_all2 (\<lambda>c r. codeword Hamming_16_11_4_H c \<and> length c = 16 \<and> length r = 16 \<and> hamming_dist c r \<le> 2) (take 7 C) (take 7 m)"
    using l by (simp add: list_all2_conv_all_nth)
  show ?thesis
  proof (rule that)
    show "bptc_128_rows junk (take 7 m) 0 = (?rows, length (filter (\<lambda>k. hamming_dist (C ! k) (m ! k) = 2) [0..<7]))"
      unfolding bptc_128_rows_spec [OF a junk] z by (simp add: filter_map comp_def)
    show "length ?rows = 7" using l by simp
    fix k i :: nat assume k: "k < 7" and i: "i < 16"
    then show "?rows ! k ! i = (if hamming_dist (C ! k) (m ! k) \<le> 1 \<and> i < 11 then C ! k ! i else m ! k ! i)"
      using l(1,2) l(3,4) [of k] by (simp add: z nth_append)
  qed
qed

lemma payload_128_cong:
  assumes "\<And>k i. k < 7 \<Longrightarrow> i < 11 \<Longrightarrow> a ! k ! i = b ! k ! i"
  shows "bptc_128_payload a = bptc_128_payload b"
proof -
  have "concat (map (\<lambda>i. map (\<lambda>j. a ! i ! j) [0..<11]) [0..<2]) = concat (map (\<lambda>i. map (\<lambda>j. b ! i ! j) [0..<11]) [0..<2])"
    "concat (map (\<lambda>i. map (\<lambda>j. a ! i ! j) [0..<10]) [2..<7]) = concat (map (\<lambda>i. map (\<lambda>j. b ! i ! j) [0..<10]) [2..<7])"
    "map (\<lambda>i. a ! i ! 10) [2..<7] = map (\<lambda>i. b ! i ! 10) [2..<7]"
    by (auto intro!: arg_cong [where f = concat] map_cong simp: assms)
  then show ?thesis by (simp only: bptc_128_payload_def)
qed

text \<open>BPTC (128,77) with at most one wrong bit in each of the seven coded rows and anything in the
  parity row: the 77 extracted bits are exactly the codeword's, and the returned count is the number
  of columns in which the wrong bits the decoder keeps (the parity row, and columns 11 to 15 of the coded
  rows) are odd in number.\<close>

theorem bptc_128_corrects:
  assumes "parity_code C" "received_within 1 C (map (map lsb) Input)" "length junk = 11"
  shows "BPTC_128x77_Extract_Data junk Input = (bptc_128_payload C,
    length (filter (\<lambda>i. odd (\<Sum>k\<leftarrow>[0..<8]. of_bool ((k = 7 \<or> 11 \<le> i) \<and> map (map lsb) Input ! k ! i \<noteq> C ! k ! i) :: nat)) [0..<16]))"
proof -
  let ?m = "map (map lsb) Input"
  have r2: "received_within 2 C ?m"
    using assms(2) by (force simp: received_within_def elim: list_all2_mono)
  have d: "hamming_dist (C ! k) (?m ! k) \<le> 1" if "k < 7" for k
    using received_row [OF assms(1,2) that] .
  obtain rows where r: "bptc_128_rows junk (take 7 ?m) 0 = (rows, length (filter (\<lambda>k. hamming_dist (C ! k) (?m ! k) = 2) [0..<7]))"
    "length rows = 7"
    "\<And>k i. k < 7 \<Longrightarrow> i < 16 \<Longrightarrow> rows ! k ! i = (if hamming_dist (C ! k) (?m ! k) \<le> 1 \<and> i < 11 then C ! k ! i else ?m ! k ! i)"
    by (rule bptc_128_result [OF assms(1) r2 assms(3)]) (rule that)
  let ?M = "rows @ drop 7 ?m"
  have l: "length ?m = 8" using assms(2) by (simp add: received_within_def)
  have e: "length (filter (\<lambda>k. hamming_dist (C ! k) (?m ! k) = 2) [0..<7]) = 0"
    using d by (fastforce simp: filter_empty_conv)
  have M: "?M ! k ! i = (if k < 7 \<and> i < 11 then C ! k ! i else ?m ! k ! i)" if "k < 8" "i < 16" for k i
  proof (cases "k < 7")
    case True
    then show ?thesis using r(2) r(3) [OF True that(2)] d [OF True] by (simp add: nth_append)
  next
    case False
    then have "k = 7" using that(1) by simp
    then show ?thesis using r(2) l by (simp add: nth_append)
  qed
  have "bptc_128_payload ?M = bptc_128_payload C" by (intro payload_128_cong) (simp add: M)
  moreover have "bptc_128_parity_errors ?M =
      length (filter (\<lambda>i. odd (\<Sum>k\<leftarrow>[0..<8]. of_bool ((k = 7 \<or> 11 \<le> i) \<and> ?m ! k ! i \<noteq> C ! k ! i) :: nat)) [0..<16])"
  proof -
    have "odd (\<Sum>k\<leftarrow>[0..<8]. of_bool (?M ! k ! i) :: nat) =
        odd (\<Sum>k\<leftarrow>[0..<8]. of_bool ((k = 7 \<or> 11 \<le> i) \<and> ?m ! k ! i \<noteq> C ! k ! i) :: nat)" if i: "i < 16" for i
    proof -
      have "even (\<Sum>k\<leftarrow>[0..<8]. of_bool (C ! k ! i) :: nat)"
        using assms(1) i by (simp add: parity_code_def list_all_length)
      then have "odd (\<Sum>k\<leftarrow>[0..<8]. of_bool (?M ! k ! i) :: nat) = odd (\<Sum>k\<leftarrow>[0..<8]. of_bool (?M ! k ! i \<noteq> C ! k ! i) :: nat)"
        using odd_sum_diff [of "\<lambda>k. ?M ! k ! i" "[0..<8]" "\<lambda>k. C ! k ! i"] by blast
      also have "(\<Sum>k\<leftarrow>[0..<8]. of_bool (?M ! k ! i \<noteq> C ! k ! i) :: nat) =
          (\<Sum>k\<leftarrow>[0..<8]. of_bool ((k = 7 \<or> 11 \<le> i) \<and> ?m ! k ! i \<noteq> C ! k ! i))"
        using M i by (intro arg_cong [where f = sum_list] map_cong) auto
      finally show ?thesis .
    qed
    then show ?thesis unfolding parity_errors_sum by (intro arg_cong [where f = length] filter_cong) auto
  qed
  ultimately show ?thesis using r(1) e by (simp add: BPTC_128x77_Extract_Data_def)
qed

theorem bptc_128_corrects_witness:
  "let Input = (replicate 8 (replicate 16 0)) [2 := (replicate 16 0)[5 := 1], 4 := (replicate 16 0)[5 := 3]] in
   BPTC_128x77_Extract_Data (replicate 11 True) Input = (bptc_128_payload (replicate 8 (replicate 16 False)),
    length (filter (\<lambda>i. odd (\<Sum>k\<leftarrow>[0..<8]. of_bool ((k = 7 \<or> 11 \<le> i) \<and>
      map (map lsb) Input ! k ! i \<noteq> replicate 8 (replicate 16 False) ! k ! i) :: nat)) [0..<16]))"
  unfolding Let_def
proof (rule bptc_128_corrects)
  show "parity_code (replicate 8 (replicate 16 False))" by code_simp
  show "received_within 1 (replicate 8 (replicate 16 False))
     (map (map lsb) ((replicate 8 (replicate 16 0)) [2 := (replicate 16 0)[5 := 1], 4 := (replicate 16 0)[5 := 3]]))"
    by code_simp
qed simp

text \<open>BPTC (128,77) never returns wrong data silently: with at most two wrong bits in each coded
  row, a returned count of zero means that the 77 extracted bits are exactly the codeword's.\<close>

theorem bptc_128_zero_count_exact:
  assumes "parity_code C" "received_within 2 C (map (map lsb) Input)" "length junk = 11"
    "snd (BPTC_128x77_Extract_Data junk Input) = 0"
  shows "fst (BPTC_128x77_Extract_Data junk Input) = bptc_128_payload C"
proof -
  let ?m = "map (map lsb) Input"
  obtain rows where r: "bptc_128_rows junk (take 7 ?m) 0 = (rows, length (filter (\<lambda>k. hamming_dist (C ! k) (?m ! k) = 2) [0..<7]))"
    "length rows = 7"
    "\<And>k i. k < 7 \<Longrightarrow> i < 16 \<Longrightarrow> rows ! k ! i = (if hamming_dist (C ! k) (?m ! k) \<le> 1 \<and> i < 11 then C ! k ! i else ?m ! k ! i)"
    by (rule bptc_128_result [OF assms(1-3)]) (rule that)
  have "length (filter (\<lambda>k. hamming_dist (C ! k) (?m ! k) = 2) [0..<7]) = 0"
    using assms(4) r(1) by (simp add: BPTC_128x77_Extract_Data_def Let_def)
  then have n2: "hamming_dist (C ! k) (?m ! k) \<noteq> 2" if "k < 7" for k
    using that by (simp add: filter_empty_conv)
  have "hamming_dist (C ! k) (?m ! k) \<le> 1" if "k < 7" for k
  proof -
    have "hamming_dist (C ! k) (?m ! k) \<le> 2"
      using received_row [OF assms(1,2) that] .
    then show ?thesis using n2 [OF that] by linarith
  qed
  then have "bptc_128_payload (rows @ drop 7 ?m) = bptc_128_payload C"
    using r(2,3) by (intro payload_128_cong) (simp add: nth_append)
  then show ?thesis using r(1) by (simp add: BPTC_128x77_Extract_Data_def Let_def)
qed

theorem bptc_128_zero_count_exact_witness:
  "fst (BPTC_128x77_Extract_Data (replicate 11 True) ((replicate 8 (replicate 16 0)) [2 := (replicate 16 0)[5 := 1]])) =
    bptc_128_payload (replicate 8 (replicate 16 False))"
proof (rule bptc_128_zero_count_exact)
  show "parity_code (replicate 8 (replicate 16 False))" by code_simp
  show "received_within 2 (replicate 8 (replicate 16 False))
     (map (map lsb) ((replicate 8 (replicate 16 0)) [2 := (replicate 16 0)[5 := 1]]))" by code_simp
  show "snd (BPTC_128x77_Extract_Data (replicate 11 True) ((replicate 8 (replicate 16 0)) [2 := (replicate 16 0)[5 := 1]])) = 0"
    by code_simp
qed simp

subsection \<open>Reverse-channel code\<close>

lemma rc_targets: "distinct (map (\<lambda>i. DeInterleaveReverseChannelBptcPlacement ! (DeInterleaveReverseChannelBptc ! i)) [0..<32])"
    "set (map (\<lambda>i. DeInterleaveReverseChannelBptcPlacement ! (DeInterleaveReverseChannelBptc ! i)) [0..<32]) = {0..<32}"
proof -
  let ?ts = "map (\<lambda>i. DeInterleaveReverseChannelBptcPlacement ! (DeInterleaveReverseChannelBptc ! i)) [0..<32]"
  have s: "sort ?ts = [0..<32]" by code_simp
  then show "distinct ?ts" by (metis distinct_sort distinct_upt)
  show "set ?ts = {0..<32}" using s by (metis set_sort set_upt)
qed

text \<open>The interleaver fills the whole matrix: what the local array held before never shows.\<close>

lemma rc_matrix_determined:
  assumes "length dm = 32" "length dm' = 32"
  shows "rc_matrix Input dm = rc_matrix Input dm'"
proof (rule nth_equalityI)
  let ?g = "\<lambda>i. DeInterleaveReverseChannelBptcPlacement ! (DeInterleaveReverseChannelBptc ! i)"
  show "length (rc_matrix Input dm) = length (rc_matrix Input dm')" using assms by (simp add: rc_matrix_def length_fold_update)
  fix p assume "p < length (rc_matrix Input dm)"
  then have "p \<in> {0..<32}" using assms by (simp add: rc_matrix_def length_fold_update)
  then have "p \<in> ?g ` set [0..<32]" unfolding rc_targets(2) [symmetric] set_map .
  then obtain i where i: "i \<in> set [0..<32]" "p = ?g i" by (rule imageE)
  have inj: "inj_on ?g (set [0..<32])" using rc_targets(1) by (simp add: distinct_map)
  have b: "\<forall>i\<in>set [0..<32]. ?g i < 32" using rc_targets(2) by auto
  show "rc_matrix Input dm ! p = rc_matrix Input dm' ! p"
    using fold_update_nth [OF inj _ distinct_upt i(1), where f = "\<lambda>i. lsb (Input ! i)"] b assms
    unfolding rc_matrix_def i(2) by simp
qed

text \<open>Reverse-channel 16x2 code: when the first sixteen de-interleaved bits are within one bit of a
  (16,11,4) codeword, the output is the codeword's eleven bits followed by the received bits 11 to 31,
  the count is the number of positions that break the chosen parity, and neither uninitialised
  array shows in the result.\<close>

theorem rc_16x2_corrects:
  assumes "codeword Hamming_16_11_4_H c" "length c = 16" "hamming_dist c (take 16 (rc_matrix Input (replicate 32 False))) \<le> 1"
    "length dm = 32" "length junk = 11"
  shows "BPTC_16x2_Extract_Data dm junk Input parity_odd =
    (let out = take 11 c @ drop 11 (rc_matrix Input (replicate 32 False)) in
     (out, length (filter (\<lambda>i. (out ! i = out ! (i + 16)) = parity_odd) [0..<16])))"
proof -
  have m: "rc_matrix Input dm = rc_matrix Input (replicate 32 False)"
    using assms(4) by (intro rc_matrix_determined) simp_all
  have "length (rc_matrix Input (replicate 32 False)) = 32" by (simp add: rc_matrix_def length_fold_update)
  then have "hamming_decode Hamming_16_11_4 (take 16 (rc_matrix Input dm)) (Some junk) 1 = (c, Some (take 11 c), True)"
    using assms by (intro decode_exact(3)) (simp_all add: m)
  then show ?thesis
    using assms(2) by (cases parity_odd) (simp_all add: BPTC_16x2_Extract_Data_def m overwrite_def Let_def)
qed

theorem rc_16x2_corrects_witness:
  "BPTC_16x2_Extract_Data (replicate 32 True) (replicate 11 True) ((replicate 32 0)[4 := 1]) False =
    (let out = take 11 (replicate 16 False) @ drop 11 (rc_matrix ((replicate 32 0)[4 := 1]) (replicate 32 False)) in
     (out, length (filter (\<lambda>i. (out ! i = out ! (i + 16)) = False) [0..<16])))"
proof (rule rc_16x2_corrects)
  show "codeword Hamming_16_11_4_H (replicate 16 False)" by code_simp
  show "hamming_dist (replicate 16 False) (take 16 (rc_matrix ((replicate 32 0)[4 := 1]) (replicate 32 False))) \<le> 1" by code_simp
qed simp_all

end
