(* ===== verification/Machine.thy ===== *)
theory Machine
  imports Prelude
begin

text \<open>
  Interfaces for the components that are state machines: deterministic operations, each allowed in
  some states, reachability from the boot states, and invariants kept by every allowed operation.
\<close>

locale machine =
  fixes start :: "'s \<Rightarrow> bool" and ok :: "'op \<Rightarrow> 's \<Rightarrow> bool" and step :: "'op \<Rightarrow> 's \<Rightarrow> 's"
begin

inductive reachable :: "'s \<Rightarrow> bool" where
  boot: "start s \<Longrightarrow> reachable s"
| move: "reachable s \<Longrightarrow> ok op s \<Longrightarrow> reachable (step op s)"

fun allowed :: "'op list \<Rightarrow> 's \<Rightarrow> bool" where
  "allowed [] s = True"
| "allowed (op # ops) s = (ok op s \<and> allowed ops (step op s))"

definition run :: "'op list \<Rightarrow> 's \<Rightarrow> 's" where
  "run ops s = fold step ops s"

lemma run_simps [simp]: "run [] s = s" "run (op # ops) s = run ops (step op s)"
  by (simp_all add: run_def)

lemma run_append: "run (xs @ ys) s = run ys (run xs s)"
  by (simp add: run_def)

lemma allowed_append: "allowed (xs @ ys) s \<longleftrightarrow> allowed xs s \<and> allowed ys (run xs s)"
  by (induction xs arbitrary: s) auto

lemma reachable_from: "reachable s \<Longrightarrow> allowed ops s \<Longrightarrow> reachable (run ops s)"
  by (induction ops arbitrary: s) (auto intro: move)

lemma reachable_run: "start s \<Longrightarrow> allowed ops s \<Longrightarrow> reachable (run ops s)"
  by (rule reachable_from [OF boot])

end

locale invariant_machine = machine start ok step
  for start :: "'s \<Rightarrow> bool" and ok :: "'op \<Rightarrow> 's \<Rightarrow> bool" and step :: "'op \<Rightarrow> 's \<Rightarrow> 's" +
  fixes inv :: "'s \<Rightarrow> bool"
  assumes start_inv: "start s \<Longrightarrow> inv s"
    and step_inv: "inv s \<Longrightarrow> ok op s \<Longrightarrow> inv (step op s)"
begin

lemma reachable_inv: "reachable s \<Longrightarrow> inv s"
  by (induction rule: reachable.induct) (auto intro: start_inv step_inv)

lemma run_inv: "inv s \<Longrightarrow> allowed ops s \<Longrightarrow> inv (run ops s)"
  by (induction ops arbitrary: s) (auto intro: step_inv)

text \<open>A quantity no operation decreases.\<close>

lemma run_mono:
  assumes "\<And>op s. inv s \<Longrightarrow> ok op s \<Longrightarrow> m s \<le> (m (step op s) :: 'b :: preorder)"
  shows "inv s \<Longrightarrow> allowed ops s \<Longrightarrow> m s \<le> m (run ops s)"
proof (induction ops arbitrary: s)
  case (Cons op ops)
  then have "m s \<le> m (step op s)" "m (step op s) \<le> m (run ops (step op s))" by (auto intro: assms step_inv)
  then show ?case by (simp add: order_trans)
qed simp

end

end
