(* ===== verification/Sync_Types.thy ===== *)
theory Sync_Types
  imports Prelude
begin

text \<open>
  Frame-sync types (\<open>include/dsd-neo/core/synctype_ids.h\<close>): the identifiers, the classification macros
  and the name table of \<open>src/core/util/synctype.c\<close>. A sync type is an \<open>int\<close>, \<open>DSD_SYNC_NONE\<close> when
  nothing was observed.
\<close>

section \<open>Identifiers\<close>

definition DSD_SYNC_P25P1_POS :: int where "DSD_SYNC_P25P1_POS = 0"
definition DSD_SYNC_P25P1_NEG :: int where "DSD_SYNC_P25P1_NEG = 1"
definition DSD_SYNC_X2TDMA_DATA_POS :: int where "DSD_SYNC_X2TDMA_DATA_POS = 2"
definition DSD_SYNC_X2TDMA_VOICE_NEG :: int where "DSD_SYNC_X2TDMA_VOICE_NEG = 3"
definition DSD_SYNC_X2TDMA_VOICE_POS :: int where "DSD_SYNC_X2TDMA_VOICE_POS = 4"
definition DSD_SYNC_X2TDMA_DATA_NEG :: int where "DSD_SYNC_X2TDMA_DATA_NEG = 5"
definition DSD_SYNC_DSTAR_VOICE_POS :: int where "DSD_SYNC_DSTAR_VOICE_POS = 6"
definition DSD_SYNC_DSTAR_VOICE_NEG :: int where "DSD_SYNC_DSTAR_VOICE_NEG = 7"
definition DSD_SYNC_DSTAR_HD_POS :: int where "DSD_SYNC_DSTAR_HD_POS = 18"
definition DSD_SYNC_DSTAR_HD_NEG :: int where "DSD_SYNC_DSTAR_HD_NEG = 19"
definition DSD_SYNC_M17_STR_POS :: int where "DSD_SYNC_M17_STR_POS = 8"
definition DSD_SYNC_M17_STR_NEG :: int where "DSD_SYNC_M17_STR_NEG = 9"
definition DSD_SYNC_M17_LSF_POS :: int where "DSD_SYNC_M17_LSF_POS = 16"
definition DSD_SYNC_M17_LSF_NEG :: int where "DSD_SYNC_M17_LSF_NEG = 17"
definition DSD_SYNC_M17_BRT_POS :: int where "DSD_SYNC_M17_BRT_POS = 76"
definition DSD_SYNC_M17_BRT_NEG :: int where "DSD_SYNC_M17_BRT_NEG = 77"
definition DSD_SYNC_M17_PKT_POS :: int where "DSD_SYNC_M17_PKT_POS = 86"
definition DSD_SYNC_M17_PKT_NEG :: int where "DSD_SYNC_M17_PKT_NEG = 87"
definition DSD_SYNC_M17_PRE_POS :: int where "DSD_SYNC_M17_PRE_POS = 98"
definition DSD_SYNC_M17_PRE_NEG :: int where "DSD_SYNC_M17_PRE_NEG = 99"
definition DSD_SYNC_M17_EOT_POS :: int where "DSD_SYNC_M17_EOT_POS = 100"
definition DSD_SYNC_M17_EOT_NEG :: int where "DSD_SYNC_M17_EOT_NEG = 101"
definition DSD_SYNC_DMR_BS_DATA_POS :: int where "DSD_SYNC_DMR_BS_DATA_POS = 10"
definition DSD_SYNC_DMR_BS_VOICE_NEG :: int where "DSD_SYNC_DMR_BS_VOICE_NEG = 11"
definition DSD_SYNC_DMR_BS_VOICE_POS :: int where "DSD_SYNC_DMR_BS_VOICE_POS = 12"
definition DSD_SYNC_DMR_BS_DATA_NEG :: int where "DSD_SYNC_DMR_BS_DATA_NEG = 13"
definition DSD_SYNC_DMR_MS_VOICE :: int where "DSD_SYNC_DMR_MS_VOICE = 32"
definition DSD_SYNC_DMR_MS_DATA :: int where "DSD_SYNC_DMR_MS_DATA = 33"
definition DSD_SYNC_DMR_RC_DATA :: int where "DSD_SYNC_DMR_RC_DATA = 34"
definition DSD_SYNC_PROVOICE_POS :: int where "DSD_SYNC_PROVOICE_POS = 14"
definition DSD_SYNC_PROVOICE_NEG :: int where "DSD_SYNC_PROVOICE_NEG = 15"
definition DSD_SYNC_EDACS_POS :: int where "DSD_SYNC_EDACS_POS = 37"
definition DSD_SYNC_EDACS_NEG :: int where "DSD_SYNC_EDACS_NEG = 38"
definition DSD_SYNC_DPMR_FS1_POS :: int where "DSD_SYNC_DPMR_FS1_POS = 20"
definition DSD_SYNC_DPMR_FS2_POS :: int where "DSD_SYNC_DPMR_FS2_POS = 21"
definition DSD_SYNC_DPMR_FS3_POS :: int where "DSD_SYNC_DPMR_FS3_POS = 22"
definition DSD_SYNC_DPMR_FS4_POS :: int where "DSD_SYNC_DPMR_FS4_POS = 23"
definition DSD_SYNC_DPMR_FS1_NEG :: int where "DSD_SYNC_DPMR_FS1_NEG = 24"
definition DSD_SYNC_DPMR_FS2_NEG :: int where "DSD_SYNC_DPMR_FS2_NEG = 25"
definition DSD_SYNC_DPMR_FS3_NEG :: int where "DSD_SYNC_DPMR_FS3_NEG = 26"
definition DSD_SYNC_DPMR_FS4_NEG :: int where "DSD_SYNC_DPMR_FS4_NEG = 27"
definition DSD_SYNC_NXDN_POS :: int where "DSD_SYNC_NXDN_POS = 28"
definition DSD_SYNC_NXDN_NEG :: int where "DSD_SYNC_NXDN_NEG = 29"
definition DSD_SYNC_YSF_POS :: int where "DSD_SYNC_YSF_POS = 30"
definition DSD_SYNC_YSF_NEG :: int where "DSD_SYNC_YSF_NEG = 31"
definition DSD_SYNC_P25P2_POS :: int where "DSD_SYNC_P25P2_POS = 35"
definition DSD_SYNC_P25P2_NEG :: int where "DSD_SYNC_P25P2_NEG = 36"
definition DSD_SYNC_ANALOG :: int where "DSD_SYNC_ANALOG = 39"
definition DSD_SYNC_DIGITAL :: int where "DSD_SYNC_DIGITAL = 40"
definition DSD_SYNC_NONE :: int where "DSD_SYNC_NONE = -1"

lemmas sync_ids =
  DSD_SYNC_P25P1_POS_def
  DSD_SYNC_P25P1_NEG_def
  DSD_SYNC_X2TDMA_DATA_POS_def
  DSD_SYNC_X2TDMA_VOICE_NEG_def
  DSD_SYNC_X2TDMA_VOICE_POS_def
  DSD_SYNC_X2TDMA_DATA_NEG_def
  DSD_SYNC_DSTAR_VOICE_POS_def
  DSD_SYNC_DSTAR_VOICE_NEG_def
  DSD_SYNC_DSTAR_HD_POS_def
  DSD_SYNC_DSTAR_HD_NEG_def
  DSD_SYNC_M17_STR_POS_def
  DSD_SYNC_M17_STR_NEG_def
  DSD_SYNC_M17_LSF_POS_def
  DSD_SYNC_M17_LSF_NEG_def
  DSD_SYNC_M17_BRT_POS_def
  DSD_SYNC_M17_BRT_NEG_def
  DSD_SYNC_M17_PKT_POS_def
  DSD_SYNC_M17_PKT_NEG_def
  DSD_SYNC_M17_PRE_POS_def
  DSD_SYNC_M17_PRE_NEG_def
  DSD_SYNC_M17_EOT_POS_def
  DSD_SYNC_M17_EOT_NEG_def
  DSD_SYNC_DMR_BS_DATA_POS_def
  DSD_SYNC_DMR_BS_VOICE_NEG_def
  DSD_SYNC_DMR_BS_VOICE_POS_def
  DSD_SYNC_DMR_BS_DATA_NEG_def
  DSD_SYNC_DMR_MS_VOICE_def
  DSD_SYNC_DMR_MS_DATA_def
  DSD_SYNC_DMR_RC_DATA_def
  DSD_SYNC_PROVOICE_POS_def
  DSD_SYNC_PROVOICE_NEG_def
  DSD_SYNC_EDACS_POS_def
  DSD_SYNC_EDACS_NEG_def
  DSD_SYNC_DPMR_FS1_POS_def
  DSD_SYNC_DPMR_FS2_POS_def
  DSD_SYNC_DPMR_FS3_POS_def
  DSD_SYNC_DPMR_FS4_POS_def
  DSD_SYNC_DPMR_FS1_NEG_def
  DSD_SYNC_DPMR_FS2_NEG_def
  DSD_SYNC_DPMR_FS3_NEG_def
  DSD_SYNC_DPMR_FS4_NEG_def
  DSD_SYNC_NXDN_POS_def
  DSD_SYNC_NXDN_NEG_def
  DSD_SYNC_YSF_POS_def
  DSD_SYNC_YSF_NEG_def
  DSD_SYNC_P25P2_POS_def
  DSD_SYNC_P25P2_NEG_def
  DSD_SYNC_ANALOG_def
  DSD_SYNC_DIGITAL_def
  DSD_SYNC_NONE_def

section \<open>Classification\<close>

definition DSD_SYNC_IS_P25P1 :: "int \<Rightarrow> bool" where
  "DSD_SYNC_IS_P25P1 s \<longleftrightarrow>
     (s = DSD_SYNC_P25P1_POS \<or> s = DSD_SYNC_P25P1_NEG)"

definition DSD_SYNC_IS_P25P2 :: "int \<Rightarrow> bool" where
  "DSD_SYNC_IS_P25P2 s \<longleftrightarrow>
     (s = DSD_SYNC_P25P2_POS \<or> s = DSD_SYNC_P25P2_NEG)"

definition DSD_SYNC_IS_P25 :: "int \<Rightarrow> bool" where
  "DSD_SYNC_IS_P25 s \<longleftrightarrow>
     (DSD_SYNC_IS_P25P1 s \<or> DSD_SYNC_IS_P25P2 s)"

definition DSD_SYNC_IS_X2TDMA :: "int \<Rightarrow> bool" where
  "DSD_SYNC_IS_X2TDMA s \<longleftrightarrow>
     (s \<ge> DSD_SYNC_X2TDMA_DATA_POS \<and> s \<le> DSD_SYNC_X2TDMA_DATA_NEG)"

definition DSD_SYNC_IS_DMR_BS :: "int \<Rightarrow> bool" where
  "DSD_SYNC_IS_DMR_BS s \<longleftrightarrow>
     (s = DSD_SYNC_DMR_BS_DATA_POS \<or> s = DSD_SYNC_DMR_BS_VOICE_NEG \<or> s = DSD_SYNC_DMR_BS_VOICE_POS
     \<or> s = DSD_SYNC_DMR_BS_DATA_NEG)"

definition DSD_SYNC_IS_DMR_MS :: "int \<Rightarrow> bool" where
  "DSD_SYNC_IS_DMR_MS s \<longleftrightarrow>
     (s = DSD_SYNC_DMR_MS_VOICE \<or> s = DSD_SYNC_DMR_MS_DATA \<or> s = DSD_SYNC_DMR_RC_DATA)"

definition DSD_SYNC_IS_DMR :: "int \<Rightarrow> bool" where
  "DSD_SYNC_IS_DMR s \<longleftrightarrow>
     (DSD_SYNC_IS_DMR_BS s \<or> DSD_SYNC_IS_DMR_MS s)"

definition DSD_SYNC_IS_DSTAR :: "int \<Rightarrow> bool" where
  "DSD_SYNC_IS_DSTAR s \<longleftrightarrow>
     (s = DSD_SYNC_DSTAR_VOICE_POS \<or> s = DSD_SYNC_DSTAR_VOICE_NEG \<or> s = DSD_SYNC_DSTAR_HD_POS
     \<or> s = DSD_SYNC_DSTAR_HD_NEG)"

definition DSD_SYNC_IS_M17 :: "int \<Rightarrow> bool" where
  "DSD_SYNC_IS_M17 s \<longleftrightarrow>
     (s = DSD_SYNC_M17_STR_POS \<or> s = DSD_SYNC_M17_STR_NEG \<or> s = DSD_SYNC_M17_LSF_POS \<or>
     s = DSD_SYNC_M17_LSF_NEG \<or> s = DSD_SYNC_M17_BRT_POS \<or> s = DSD_SYNC_M17_BRT_NEG \<or>
     s = DSD_SYNC_M17_PKT_POS \<or> s = DSD_SYNC_M17_PKT_NEG \<or> s = DSD_SYNC_M17_PRE_POS \<or>
     s = DSD_SYNC_M17_PRE_NEG \<or> s = DSD_SYNC_M17_EOT_POS \<or> s = DSD_SYNC_M17_EOT_NEG)"

definition DSD_SYNC_IS_NXDN :: "int \<Rightarrow> bool" where
  "DSD_SYNC_IS_NXDN s \<longleftrightarrow>
     (s = DSD_SYNC_NXDN_POS \<or> s = DSD_SYNC_NXDN_NEG)"

definition DSD_SYNC_IS_YSF :: "int \<Rightarrow> bool" where
  "DSD_SYNC_IS_YSF s \<longleftrightarrow>
     (s = DSD_SYNC_YSF_POS \<or> s = DSD_SYNC_YSF_NEG)"

definition DSD_SYNC_IS_DPMR :: "int \<Rightarrow> bool" where
  "DSD_SYNC_IS_DPMR s \<longleftrightarrow>
     (s \<ge> DSD_SYNC_DPMR_FS1_POS \<and> s \<le> DSD_SYNC_DPMR_FS4_NEG)"

definition DSD_SYNC_IS_PROVOICE :: "int \<Rightarrow> bool" where
  "DSD_SYNC_IS_PROVOICE s \<longleftrightarrow>
     (s = DSD_SYNC_PROVOICE_POS \<or> s = DSD_SYNC_PROVOICE_NEG)"

definition DSD_SYNC_IS_EDACS_ONLY :: "int \<Rightarrow> bool" where
  "DSD_SYNC_IS_EDACS_ONLY s \<longleftrightarrow>
     (s = DSD_SYNC_EDACS_POS \<or> s = DSD_SYNC_EDACS_NEG)"

definition DSD_SYNC_IS_EDACS :: "int \<Rightarrow> bool" where
  "DSD_SYNC_IS_EDACS s \<longleftrightarrow>
     (DSD_SYNC_IS_PROVOICE s \<or> DSD_SYNC_IS_EDACS_ONLY s)"

definition DSD_SYNC_IS_TRUNKABLE :: "int \<Rightarrow> bool" where
  "DSD_SYNC_IS_TRUNKABLE s \<longleftrightarrow>
     (DSD_SYNC_IS_P25 s \<or> DSD_SYNC_IS_DMR s \<or> DSD_SYNC_IS_NXDN s \<or> DSD_SYNC_IS_EDACS s \<or>
     DSD_SYNC_IS_X2TDMA s)"

definition DSD_SYNC_IS_INVERTED :: "int \<Rightarrow> bool" where
  "DSD_SYNC_IS_INVERTED s \<longleftrightarrow>
     (s = DSD_SYNC_P25P1_NEG \<or> s = DSD_SYNC_X2TDMA_VOICE_NEG \<or> s = DSD_SYNC_X2TDMA_DATA_NEG \<or>
     s = DSD_SYNC_DSTAR_VOICE_NEG \<or> s = DSD_SYNC_DSTAR_HD_NEG \<or> s = DSD_SYNC_M17_STR_NEG \<or>
     s = DSD_SYNC_M17_LSF_NEG \<or> s = DSD_SYNC_M17_BRT_NEG \<or> s = DSD_SYNC_M17_PKT_NEG \<or>
     s = DSD_SYNC_M17_PRE_NEG \<or> s = DSD_SYNC_M17_EOT_NEG \<or> s = DSD_SYNC_DMR_BS_VOICE_NEG \<or>
     s = DSD_SYNC_DMR_BS_DATA_NEG \<or> s = DSD_SYNC_PROVOICE_NEG \<or> s = DSD_SYNC_EDACS_NEG \<or>
     s = DSD_SYNC_NXDN_NEG \<or> s = DSD_SYNC_YSF_NEG \<or> s = DSD_SYNC_P25P2_NEG \<or>
     s = DSD_SYNC_DPMR_FS1_NEG \<or> s = DSD_SYNC_DPMR_FS2_NEG \<or> s = DSD_SYNC_DPMR_FS3_NEG \<or>
     s = DSD_SYNC_DPMR_FS4_NEG)"

lemmas sync_classes =
  DSD_SYNC_IS_P25P1_def
  DSD_SYNC_IS_P25P2_def
  DSD_SYNC_IS_P25_def
  DSD_SYNC_IS_X2TDMA_def
  DSD_SYNC_IS_DMR_BS_def
  DSD_SYNC_IS_DMR_MS_def
  DSD_SYNC_IS_DMR_def
  DSD_SYNC_IS_DSTAR_def
  DSD_SYNC_IS_M17_def
  DSD_SYNC_IS_NXDN_def
  DSD_SYNC_IS_YSF_def
  DSD_SYNC_IS_DPMR_def
  DSD_SYNC_IS_PROVOICE_def
  DSD_SYNC_IS_EDACS_ONLY_def
  DSD_SYNC_IS_EDACS_def
  DSD_SYNC_IS_TRUNKABLE_def
  DSD_SYNC_IS_INVERTED_def

section \<open>Names\<close>

definition SyncTypeStrings :: "string option list" where
  "SyncTypeStrings =
     [Some ''P25p1'', Some ''P25p1'', Some ''X2TDMA DATA'', Some ''X2TDMA DATA'',
      Some ''X2TDMA VOICE'', Some ''X2TDMA VOICE'', Some ''DSTAR'', Some ''DSTAR'',
      Some ''M17'', Some ''M17'', Some ''DMR'', Some ''DMR'',
      Some ''DMR'', Some ''DMR'', Some ''EDACS/PV'', Some ''EDACS/PV'',
      Some ''M17'', Some ''M17'', Some ''DSTAR'', Some ''DSTAR'',
      Some ''dPMR'', Some ''dPMR'', Some ''dPMR'', Some ''dPMR'',
      Some ''dPMR'', Some ''dPMR'', Some ''dPMR'', Some ''dPMR'',
      Some ''NXDN'', Some ''NXDN'', Some ''YSF'', Some ''YSF'',
      Some ''DMR'', Some ''DMR'', Some ''DMR'', Some ''P25p2'',
      Some ''P25p2'', Some ''EDACS/PV'', Some ''EDACS/PV'', Some ''ANALOG'',
      Some ''DIGITAL'', None, None, None]"

definition dsd_synctype_to_string :: "int \<Rightarrow> string" where
  "dsd_synctype_to_string synctype =
     (if synctype = DSD_SYNC_M17_BRT_POS \<or> synctype = DSD_SYNC_M17_BRT_NEG then ''M17 BRT''
      else if synctype = DSD_SYNC_M17_PKT_POS \<or> synctype = DSD_SYNC_M17_PKT_NEG then ''M17 PKT''
      else if synctype = DSD_SYNC_M17_PRE_POS \<or> synctype = DSD_SYNC_M17_PRE_NEG then ''M17 PRE''
      else if synctype = DSD_SYNC_M17_EOT_POS \<or> synctype = DSD_SYNC_M17_EOT_NEG then ''M17 EOT''
      else if synctype = DSD_SYNC_NONE then ''NONE''
      else if synctype < 0 \<or> length SyncTypeStrings \<le> nat synctype then ''UNKNOWN''
      else case SyncTypeStrings ! nat synctype of Some s \<Rightarrow> s | None \<Rightarrow> ''UNKNOWN'')"

end
