(* ===== verification/Call_State.thy ===== *)
theory Call_State
  imports Sync_Types
begin

text \<open>
  The protocol-neutral call store of \<open>src/core/util/call_state.c\<close>: two slots, each with the snapshot of
  one call epoch, the event bookkeeping paired with it and its epoch counter, and the recent-activity
  ring. A decoder describes what it hears by observations; the store decides whether an observation
  continues the epoch, opens a new one, or reacquires an epoch that a recoverable end just closed.

  Text buffers are the bytes before their terminator. The extension object is an \<open>option\<close>: whether it
  can be created is an argument of the operations that create it. Every public operation runs under
  the store's mutex and is one atomic step; operations that may read the clock take the reading.
\<close>

section \<open>Data\<close>

datatype call_phase = CALL_PHASE_IDLE | CALL_PHASE_ACTIVE | CALL_PHASE_ENDED

datatype call_kind = CALL_KIND_UNKNOWN | CALL_KIND_VOICE | CALL_KIND_GROUP_VOICE | CALL_KIND_PRIVATE_VOICE
  | CALL_KIND_DATA

datatype call_crypto = CALL_CRYPTO_UNKNOWN | CALL_CRYPTO_CLEAR | CALL_CRYPTO_ENCRYPTED_PENDING
  | CALL_CRYPTO_ENCRYPTED | CALL_CRYPTO_DECRYPTABLE

datatype end_reason = CALL_END_EXPLICIT | CALL_END_SYNC_LOSS | CALL_END_UNVERIFIED_TERMINATOR
  | CALL_END_TERMINATOR

datatype call_boundary = CALL_BOUNDARY_CONTINUE | CALL_BOUNDARY_BEGIN

datatype key_source = CALL_KEY_NONE | CALL_KEY_DIRECT | CALL_KEY_SIGNALED | CALL_KEY_TALKGROUP
  | CALL_KEY_DESTINATION | CALL_KEY_DEFAULT

definition CALL_STATE_SLOT_COUNT :: nat where "CALL_STATE_SLOT_COUNT = 2"
definition RECENT_ACTIVITY_COUNT :: nat where "RECENT_ACTIVITY_COUNT = 31"
definition RECENT_ACTIVITY_TEXT_SIZE :: nat where "RECENT_ACTIVITY_TEXT_SIZE = 200"
definition CALL_IDENTITY_TEXT_SIZE :: nat where "CALL_IDENTITY_TEXT_SIZE = 64"
definition RECENT_ACTIVITY_TTL_MS :: u64 where "RECENT_ACTIVITY_TTL_MS = 3000"
definition CALL_REACQUIRE_GAP_S :: mono_s where "CALL_REACQUIRE_GAP_S = 1 / 2"
definition CALL_TERMINATOR_HEAL_GAP_S :: mono_s where "CALL_TERMINATOR_HEAL_GAP_S = 1 / 4"

type_synonym ctext = "u8 list"

text \<open>The four texts of a call: source, target and the two route texts.\<close>

record call_texts =
  source_text :: ctext
  target_text :: ctext
  route0_text :: ctext
  route1_text :: ctext

definition no_texts :: call_texts where
  "no_texts = \<lparr>source_text = [], target_text = [], route0_text = [], route1_text = []\<rparr>"

record call_observation =
  ob_protocol :: int
  ob_slot :: nat
  ob_kind :: call_kind
  ob_ota_target_id :: u64
  ob_policy_target_id :: u64
  ob_ota_source_id :: u64
  ob_texts :: call_texts
  ob_channel :: u32
  ob_frequency_hz :: int
  ob_service_options :: u16
  ob_emergency :: u8
  ob_priority :: u8
  ob_has_service_metadata :: bool
  ob_observed_m :: mono_s

record crypto_update =
  cu_classification :: call_crypto
  cu_algid :: u8
  cu_kid :: u16
  cu_mi :: u64
  cu_audio_permitted :: bool
  cu_observed_m :: mono_s

record key_selection =
  ks_valid :: bool
  ks_key_epoch :: u64
  ks_effective_id :: int
  ks_signaled_id :: u16
  ks_source :: key_source
  ks_algorithm :: u8
  ks_available :: int
  ks_fallback :: nat
  ks_profile_ref :: ctext

record call_snapshot =
  revision :: u64
  epoch :: u64
  ota_target_id :: u64
  policy_target_id :: u64
  ota_source_id :: u64
  frequency_hz :: int
  mi :: u64
  started_m :: mono_s
  updated_m :: mono_s
  ended_m :: mono_s
  media_started_m :: mono_s
  media_updated_m :: mono_s
  phase :: call_phase
  protocol :: int
  kind :: call_kind
  channel :: u32
  crypto :: call_crypto
  service_options :: u16
  kid :: u16
  slot_no :: nat
  has_service_metadata :: bool
  emergency :: u8
  priority :: u8
  algid :: u8
  audio_permitted :: bool
  media_active :: bool
  call_end_reason :: end_reason
  crc_invalid :: bool
  texts :: call_texts
  key_sel :: key_selection

text \<open>All-zero memory.\<close>

definition no_selection :: key_selection where
  "no_selection = \<lparr>ks_valid = False, ks_key_epoch = 0, ks_effective_id = 0, ks_signaled_id = 0, ks_source = CALL_KEY_NONE,
     ks_algorithm = 0, ks_available = 0, ks_fallback = 0, ks_profile_ref = []\<rparr>"

definition zero_snapshot :: call_snapshot where
  "zero_snapshot = \<lparr>revision = 0, epoch = 0, ota_target_id = 0, policy_target_id = 0, ota_source_id = 0,
     frequency_hz = 0, mi = 0, started_m = 0, updated_m = 0, ended_m = 0, media_started_m = 0, media_updated_m = 0,
     phase = CALL_PHASE_IDLE, protocol = 0, kind = CALL_KIND_UNKNOWN, channel = 0, crypto = CALL_CRYPTO_UNKNOWN,
     service_options = 0, kid = 0, slot_no = 0, has_service_metadata = False, emergency = 0, priority = 0, algid = 0,
     audio_permitted = False, media_active = False, call_end_reason = CALL_END_EXPLICIT, crc_invalid = False,
     texts = no_texts, key_sel = no_selection\<rparr>"

record calls =
  calls_revision :: u64
  slots :: "call_snapshot list"

text \<open>Render inputs that travel with a history row; the eight EDACS bit counts, shifts and masks are one list.\<close>

record render_env =
  re_nxdn_grant_chan :: u16
  re_nxdn_grant_freq :: int
  re_mfid :: u32
  re_ea_mode :: int
  re_edacs_bits :: "int list"
  re_named_call :: bool
  re_saw_media :: bool
  re_ended_positively :: bool

definition zero_env :: render_env where
  "zero_env = \<lparr>re_nxdn_grant_chan = 0, re_nxdn_grant_freq = 0, re_mfid = 0, re_ea_mode = 0, re_edacs_bits = replicate 8 0,
     re_named_call = False, re_saw_media = False, re_ended_positively = False\<rparr>"

record event_lifecycle =
  ev_epoch :: u64
  notice_epoch :: u64
  notice_target_id :: u64
  reacquired_epoch :: u64
  reacquired_from_epoch :: u64
  committed_epoch :: u64
  committed_seq :: u64
  staged_env :: render_env
  committed_env :: render_env
  committed_valid :: bool
  ended_committed :: bool
  notice_kind :: call_kind
  notice_handled :: bool
  end_alert_pending :: bool
  end_alert_due_m :: mono_s
  drop_hold_pending :: bool
  drop_hold_due_m :: mono_s

definition zero_lifecycle :: event_lifecycle where
  "zero_lifecycle = \<lparr>ev_epoch = 0, notice_epoch = 0, notice_target_id = 0, reacquired_epoch = 0, reacquired_from_epoch = 0,
     committed_epoch = 0, committed_seq = 0, staged_env = zero_env, committed_env = zero_env, committed_valid = False,
     ended_committed = False, notice_kind = CALL_KIND_UNKNOWN, notice_handled = False, end_alert_pending = False,
     end_alert_due_m = 0, drop_hold_pending = False, drop_hold_due_m = 0\<rparr>"

record recent_entry =
  ra_observation :: call_observation
  ra_notice :: ctext
  ra_updated_m_ms :: u64

definition zero_observation :: call_observation where
  "zero_observation = \<lparr>ob_protocol = 0, ob_slot = 0, ob_kind = CALL_KIND_UNKNOWN, ob_ota_target_id = 0, ob_policy_target_id = 0,
     ob_ota_source_id = 0, ob_texts = no_texts, ob_channel = 0, ob_frequency_hz = 0, ob_service_options = 0, ob_emergency = 0,
     ob_priority = 0, ob_has_service_metadata = False, ob_observed_m = 0\<rparr>"

definition zero_entry :: recent_entry where
  "zero_entry = \<lparr>ra_observation = zero_observation, ra_notice = [], ra_updated_m_ms = 0\<rparr>"

record recent =
  recent_revision :: u64
  entries :: "recent_entry list"

record call_ext =
  ext_calls :: calls
  ext_recent :: recent
  ext_events :: "event_lifecycle list"
  epoch_sequence :: "u64 list"

text \<open>A rolling window of voice-error counts.\<close>

record err_window =
  err_hist :: "u8 list"
  err_count :: int
  err_pos :: int
  err_sum :: u32

text \<open>The parts of \<open>dsd_state\<close> the store reads and writes.\<close>

record call_host =
  call_ext_slot :: "call_ext option"
  event_crc_invalid :: "u8 list"
  p1_voice_err :: err_window
  p2_voice_err :: "err_window list"
  host_key_epoch :: u64
  key_profile_ref :: ctext

section \<open>The extension object\<close>

definition call_state_ext_allocate :: call_ext where
  "call_state_ext_allocate =
     \<lparr>ext_calls = \<lparr>calls_revision = 0,
        slots = map (\<lambda>s. zero_snapshot\<lparr>slot_no := s, phase := CALL_PHASE_IDLE, protocol := DSD_SYNC_NONE\<rparr>)
                  [0..<CALL_STATE_SLOT_COUNT]\<rparr>,
      ext_recent = \<lparr>recent_revision = 0, entries = replicate RECENT_ACTIVITY_COUNT zero_entry\<rparr>,
      ext_events = replicate CALL_STATE_SLOT_COUNT zero_lifecycle,
      epoch_sequence = replicate CALL_STATE_SLOT_COUNT 0\<rparr>"

text \<open>\<open>alloc\<close>: memory, the mutex and the extension slot are all available.\<close>

definition call_state_ext_get :: "bool \<Rightarrow> bool \<Rightarrow> call_host \<Rightarrow> call_host" where
  "call_state_ext_get alloc create st =
     (case call_ext_slot st of
        Some ext \<Rightarrow> st
      | None \<Rightarrow> if create \<and> alloc then st\<lparr>call_ext_slot := Some call_state_ext_allocate\<rparr> else st)"

definition call_state_ensure :: "bool \<Rightarrow> call_host \<Rightarrow> call_host \<times> int" where
  "call_state_ensure alloc st =
     (let st1 = call_state_ext_get alloc True st in (st1, if call_ext_slot st1 \<noteq> None then 1 else 0))"

text \<open>Updating the extension in place.\<close>

definition upd_ext :: "(call_ext \<Rightarrow> call_ext) \<Rightarrow> call_host \<Rightarrow> call_host" where
  "upd_ext f st = st\<lparr>call_ext_slot := map_option f (call_ext_slot st)\<rparr>"

definition upd_slot :: "nat \<Rightarrow> (call_snapshot \<Rightarrow> call_snapshot) \<Rightarrow> call_ext \<Rightarrow> call_ext" where
  "upd_slot i f ext = ext\<lparr>ext_calls := (ext_calls ext)\<lparr>slots := (slots (ext_calls ext))[i := f (slots (ext_calls ext) ! i)]\<rparr>\<rparr>"

definition upd_event :: "nat \<Rightarrow> (event_lifecycle \<Rightarrow> event_lifecycle) \<Rightarrow> call_ext \<Rightarrow> call_ext" where
  "upd_event i f ext = ext\<lparr>ext_events := (ext_events ext)[i := f (ext_events ext ! i)]\<rparr>"

section \<open>Small helpers\<close>

definition call_state_observed_m :: "mono_s \<Rightarrow> mono_s \<Rightarrow> mono_s" where
  "call_state_observed_m now observed_m = (if observed_m > 0 then observed_m else now)"

definition call_state_next_nonzero :: "u64 \<Rightarrow> u64" where
  "call_state_next_nonzero value = (if value + 1 = 0 then 1 else value + 1)"

definition effective_target_observation :: "call_observation \<Rightarrow> u64" where
  "effective_target_observation ob = (if ob_ota_target_id ob \<noteq> 0 then ob_ota_target_id ob else ob_policy_target_id ob)"

definition effective_target_snapshot :: "call_snapshot \<Rightarrow> u64" where
  "effective_target_snapshot s = (if ota_target_id s \<noteq> 0 then ota_target_id s else policy_target_id s)"

definition call_state_protocol_family :: "int \<Rightarrow> int" where
  "call_state_protocol_family p =
     (if DSD_SYNC_IS_P25P1 p then 1
      else if DSD_SYNC_IS_P25P2 p then 2
      else if DSD_SYNC_IS_X2TDMA p then 3
      else if DSD_SYNC_IS_DSTAR p then 4
      else if DSD_SYNC_IS_M17 p then 5
      else if DSD_SYNC_IS_DMR p then 6
      else if DSD_SYNC_IS_EDACS p then 7
      else if DSD_SYNC_IS_DPMR p then 8
      else if DSD_SYNC_IS_NXDN p then 9
      else if DSD_SYNC_IS_YSF p then 10
      else if p = DSD_SYNC_NONE then 0 else 1000 + p)"

section \<open>Text normalisation\<close>

definition isspace :: "u8 \<Rightarrow> bool" where
  "isspace ch \<longleftrightarrow> ch = 32 \<or> 9 \<le> ch \<and> ch \<le> 13"

definition clean_char :: "u8 \<Rightarrow> u8" where
  "clean_char ch = (if ch < 0x20 \<or> ch = 0x7F then 95 else ch)"

fun normalize_loop :: "ctext \<Rightarrow> ctext \<Rightarrow> bool \<Rightarrow> ctext" where
  "normalize_loop [] dst pending_space = dst"
| "normalize_loop (ch # src) dst pending_space =
     (if isspace ch then normalize_loop src dst (dst \<noteq> [])
      else let dst1 = (if pending_space \<and> length dst + 1 < CALL_IDENTITY_TEXT_SIZE then dst @ [32] else dst);
               dst2 = (if length dst1 + 1 < CALL_IDENTITY_TEXT_SIZE then dst1 @ [clean_char ch] else dst1)
           in normalize_loop src dst2 False)"

definition call_state_normalize_text :: "ctext option \<Rightarrow> ctext" where
  "call_state_normalize_text src =
     (case src of None \<Rightarrow> [] | Some t \<Rightarrow> normalize_loop (dropWhile isspace t) [] False)"

definition known_text_changed :: "ctext \<Rightarrow> ctext \<Rightarrow> bool" where
  "known_text_changed current incoming \<longleftrightarrow>
     (let normalized = call_state_normalize_text (Some incoming)
      in current \<noteq> [] \<and> normalized \<noteq> [] \<and> current \<noteq> normalized)"

definition text_is_known :: "ctext \<Rightarrow> bool" where
  "text_is_known t \<longleftrightarrow> call_state_normalize_text (Some t) \<noteq> []"

definition call_state_apply_text :: "ctext option \<Rightarrow> ctext \<Rightarrow> ctext" where
  "call_state_apply_text src dst = (let normalized = call_state_normalize_text src in if normalized \<noteq> [] then normalized else dst)"

definition apply_texts :: "ctext option \<Rightarrow> ctext option \<Rightarrow> ctext option \<Rightarrow> ctext option \<Rightarrow> call_texts \<Rightarrow> call_texts" where
  "apply_texts src tgt r0 r1 t =
     \<lparr>source_text = call_state_apply_text src (source_text t), target_text = call_state_apply_text tgt (target_text t),
      route0_text = call_state_apply_text r0 (route0_text t), route1_text = call_state_apply_text r1 (route1_text t)\<rparr>"

definition call_observation_data :: "int \<Rightarrow> nat \<Rightarrow> u64 \<Rightarrow> u64 \<Rightarrow> call_observation" where
  "call_observation_data p slot source_id target_id =
     zero_observation\<lparr>ob_protocol := p, ob_slot := slot, ob_kind := CALL_KIND_DATA, ob_ota_source_id := source_id,
       ob_ota_target_id := target_id\<rparr>"

section \<open>What an observation means for the epoch\<close>

definition call_state_kind_is_voice :: "call_kind \<Rightarrow> bool" where
  "call_state_kind_is_voice k \<longleftrightarrow> k = CALL_KIND_VOICE \<or> k = CALL_KIND_GROUP_VOICE \<or> k = CALL_KIND_PRIVATE_VOICE"

definition call_state_kind_changed :: "call_kind \<Rightarrow> call_kind \<Rightarrow> bool" where
  "call_state_kind_changed old_kind new_kind \<longleftrightarrow>
     (if old_kind = CALL_KIND_UNKNOWN \<or> new_kind = CALL_KIND_UNKNOWN then False
      else if (old_kind = CALL_KIND_VOICE \<or> new_kind = CALL_KIND_VOICE)
           \<and> (old_kind = CALL_KIND_VOICE \<or> old_kind = CALL_KIND_GROUP_VOICE \<or> old_kind = CALL_KIND_PRIVATE_VOICE)
           \<and> (new_kind = CALL_KIND_VOICE \<or> new_kind = CALL_KIND_GROUP_VOICE \<or> new_kind = CALL_KIND_PRIVATE_VOICE)
        then False
      else old_kind \<noteq> new_kind)"

definition snapshot_is_provisional_voice :: "call_snapshot \<Rightarrow> bool" where
  "snapshot_is_provisional_voice s \<longleftrightarrow>
     phase s = CALL_PHASE_ACTIVE \<and> kind s = CALL_KIND_VOICE \<and> effective_target_snapshot s = 0 \<and> ota_source_id s = 0
     \<and> source_text (texts s) = [] \<and> target_text (texts s) = [] \<and> route0_text (texts s) = [] \<and> route1_text (texts s) = []"

definition observation_has_identity :: "call_observation \<Rightarrow> bool" where
  "observation_has_identity ob \<longleftrightarrow>
     effective_target_observation ob \<noteq> 0 \<or> ob_ota_source_id ob \<noteq> 0
     \<or> text_is_known (source_text (ob_texts ob)) \<or> text_is_known (target_text (ob_texts ob))
     \<or> text_is_known (route0_text (ob_texts ob)) \<or> text_is_known (route1_text (ob_texts ob))"

definition begin_specializes_provisional_voice :: "call_snapshot \<Rightarrow> call_observation \<Rightarrow> call_boundary \<Rightarrow> bool" where
  "begin_specializes_provisional_voice cur ob boundary \<longleftrightarrow>
     (if boundary \<noteq> CALL_BOUNDARY_BEGIN \<or> \<not> snapshot_is_provisional_voice cur
         \<or> \<not> call_state_kind_is_voice (ob_kind ob) \<or> \<not> observation_has_identity ob
      then False
      else if protocol cur = DSD_SYNC_NONE \<or> ob_protocol ob = DSD_SYNC_NONE then True
      else call_state_protocol_family (protocol cur) = call_state_protocol_family (ob_protocol ob))"

definition observation_changes_identity :: "call_snapshot \<Rightarrow> call_observation \<Rightarrow> bool" where
  "observation_changes_identity cur ob \<longleftrightarrow>
     (let old_target = effective_target_snapshot cur; new_target = effective_target_observation ob in
      if protocol cur \<noteq> DSD_SYNC_NONE \<and> ob_protocol ob \<noteq> DSD_SYNC_NONE
         \<and> call_state_protocol_family (protocol cur) \<noteq> call_state_protocol_family (ob_protocol ob) then True
      else if old_target \<noteq> 0 \<and> new_target \<noteq> 0 \<and> old_target \<noteq> new_target then True
      else if call_state_kind_changed (kind cur) (ob_kind ob) then True
      else if ota_source_id cur \<noteq> 0 \<and> ob_ota_source_id ob \<noteq> 0 \<and> ota_source_id cur \<noteq> ob_ota_source_id ob then True
      else known_text_changed (source_text (texts cur)) (source_text (ob_texts ob))
           \<or> known_text_changed (target_text (texts cur)) (target_text (ob_texts ob))
           \<or> known_text_changed (route0_text (texts cur)) (route0_text (ob_texts ob))
           \<or> known_text_changed (route1_text (texts cur)) (route1_text (ob_texts ob)))"

definition observation_begins_epoch :: "call_snapshot \<Rightarrow> call_observation \<Rightarrow> call_boundary \<Rightarrow> bool" where
  "observation_begins_epoch cur ob boundary \<longleftrightarrow>
     (if phase cur \<noteq> CALL_PHASE_ACTIVE then True
      else if boundary = CALL_BOUNDARY_BEGIN \<and> \<not> begin_specializes_provisional_voice cur ob boundary then True
      else observation_changes_identity cur ob)"

definition snapshot_has_identity :: "call_snapshot option \<Rightarrow> bool" where
  "snapshot_has_identity cur \<longleftrightarrow>
     (case cur of None \<Rightarrow> False
      | Some s \<Rightarrow> effective_target_snapshot s \<noteq> 0 \<or> ota_source_id s \<noteq> 0
          \<or> text_is_known (source_text (texts s)) \<or> text_is_known (target_text (texts s))
          \<or> text_is_known (route0_text (texts s)) \<or> text_is_known (route1_text (texts s)))"

definition protocol_voice_is_anonymous :: "int \<Rightarrow> bool" where
  "protocol_voice_is_anonymous p \<longleftrightarrow> DSD_SYNC_IS_X2TDMA p \<or> DSD_SYNC_IS_PROVOICE p"

definition protocol_voice_has_terminator :: "int \<Rightarrow> bool" where
  "protocol_voice_has_terminator p \<longleftrightarrow>
     \<not> DSD_SYNC_IS_DSTAR p \<and> \<not> DSD_SYNC_IS_M17 p \<and> \<not> DSD_SYNC_IS_YSF p \<and> \<not> DSD_SYNC_IS_NXDN p"

definition end_reason_is_recoverable :: "end_reason \<Rightarrow> bool" where
  "end_reason_is_recoverable r \<longleftrightarrow> r = CALL_END_SYNC_LOSS \<or> r = CALL_END_UNVERIFIED_TERMINATOR"

definition end_reason_is_terminator :: "end_reason \<Rightarrow> bool" where
  "end_reason_is_terminator r \<longleftrightarrow> r = CALL_END_TERMINATOR \<or> r = CALL_END_UNVERIFIED_TERMINATOR"

definition end_reason_reacquire_gap_s :: "end_reason \<Rightarrow> mono_s" where
  "end_reason_reacquire_gap_s r =
     (if r = CALL_END_UNVERIFIED_TERMINATOR then CALL_TERMINATOR_HEAL_GAP_S else CALL_REACQUIRE_GAP_S)"

definition reacquires_ended_epoch :: "call_snapshot \<Rightarrow> call_observation \<Rightarrow> mono_s \<Rightarrow> bool" where
  "reacquires_ended_epoch cur ob now_m \<longleftrightarrow>
     (if phase cur \<noteq> CALL_PHASE_ENDED \<or> \<not> end_reason_is_recoverable (call_end_reason cur) then False
      else if call_end_reason cur = CALL_END_UNVERIFIED_TERMINATOR \<and> observation_has_identity ob then False
      else if \<not> snapshot_has_identity (Some cur) then False
      else if observation_changes_identity cur ob then False
      else (let gap = end_reason_reacquire_gap_s (call_end_reason cur)
            in ended_m cur > 0 \<and> now_m \<ge> ended_m cur \<and> now_m - ended_m cur \<le> gap))"

definition seed_reacquired_snapshot :: "call_snapshot \<Rightarrow> call_snapshot \<Rightarrow> call_snapshot" where
  "seed_reacquired_snapshot previous s = s\<lparr>
     ota_source_id := ota_source_id previous, ota_target_id := ota_target_id previous,
     policy_target_id := policy_target_id previous, texts := texts previous, kind := kind previous,
     protocol := protocol previous, channel := channel previous, frequency_hz := frequency_hz previous,
     crypto := crypto previous, algid := algid previous, kid := kid previous, mi := mi previous,
     service_options := service_options previous, has_service_metadata := has_service_metadata previous,
     emergency := emergency previous, priority := priority previous,
     media_started_m := media_started_m previous, media_updated_m := media_updated_m previous\<rparr>"

definition call_state_apply_observation :: "call_observation \<Rightarrow> call_snapshot \<Rightarrow> call_snapshot" where
  "call_state_apply_observation ob s =
     (let s1 = (if ob_protocol ob \<noteq> DSD_SYNC_NONE then s\<lparr>protocol := ob_protocol ob\<rparr> else s);
          s2 = (if ob_kind ob \<noteq> CALL_KIND_UNKNOWN
                   \<and> \<not> (ob_kind ob = CALL_KIND_VOICE \<and> (kind s1 = CALL_KIND_GROUP_VOICE \<or> kind s1 = CALL_KIND_PRIVATE_VOICE))
                then s1\<lparr>kind := ob_kind ob\<rparr> else s1);
          s3 = (if ob_ota_target_id ob \<noteq> 0 then s2\<lparr>ota_target_id := ob_ota_target_id ob\<rparr> else s2);
          s4 = (if ob_policy_target_id ob \<noteq> 0 then s3\<lparr>policy_target_id := ob_policy_target_id ob\<rparr> else s3);
          s5 = (if ob_ota_source_id ob \<noteq> 0 then s4\<lparr>ota_source_id := ob_ota_source_id ob\<rparr> else s4);
          s6 = s5\<lparr>texts := apply_texts (Some (source_text (ob_texts ob))) (Some (target_text (ob_texts ob)))
                    (Some (route0_text (ob_texts ob))) (Some (route1_text (ob_texts ob))) (texts s5)\<rparr>;
          s7 = (if ob_channel ob \<noteq> 0 then s6\<lparr>channel := ob_channel ob\<rparr> else s6);
          s8 = (if ob_frequency_hz ob \<noteq> 0 then s7\<lparr>frequency_hz := ob_frequency_hz ob\<rparr> else s7)
      in if ob_has_service_metadata ob
         then s8\<lparr>service_options := ob_service_options ob, emergency := ob_emergency ob, priority := ob_priority ob,
                has_service_metadata := True\<rparr>
         else s8)"

section \<open>Operations\<close>

definition zero_window :: "err_window \<Rightarrow> err_window" where
  "zero_window w = \<lparr>err_hist = replicate (length (err_hist w)) 0, err_count = 0, err_pos = 0, err_sum = 0\<rparr>"

definition reset_voice_errors :: "nat \<Rightarrow> call_host \<Rightarrow> call_host" where
  "reset_voice_errors slot st =
     (let st1 = (if slot = 0 then st\<lparr>p1_voice_err := zero_window (p1_voice_err st)\<rparr> else st)
      in st1\<lparr>p2_voice_err := (p2_voice_err st1)[slot := zero_window (p2_voice_err st1 ! slot)]\<rparr>)"

text \<open>\<open>snapshot->revision = next(...); calls.revision = next(...)\<close>.\<close>

definition bump :: "nat \<Rightarrow> call_ext \<Rightarrow> call_ext" where
  "bump slot ext =
     (let e1 = upd_slot slot (\<lambda>s. s\<lparr>revision := call_state_next_nonzero (revision s)\<rparr>) ext
      in e1\<lparr>ext_calls := (ext_calls e1)\<lparr>calls_revision := call_state_next_nonzero (calls_revision (ext_calls e1))\<rparr>\<rparr>)"

text \<open>Opening an epoch: the snapshot is zeroed, numbered, and seeded when an ended epoch is reacquired.\<close>

definition open_epoch :: "nat \<Rightarrow> bool \<Rightarrow> mono_s \<Rightarrow> call_ext \<Rightarrow> call_ext" where
  "open_epoch slot reacquires now_m ext =
     (let previous = slots (ext_calls ext) ! slot;
          seq = call_state_next_nonzero (epoch_sequence ext ! slot);
          fresh = zero_snapshot\<lparr>epoch := seq, slot_no := slot, protocol := DSD_SYNC_NONE, crypto := CALL_CRYPTO_UNKNOWN,
                    started_m := now_m\<rparr>;
          s = (if reacquires then (seed_reacquired_snapshot previous fresh)\<lparr>crc_invalid := crc_invalid previous\<rparr> else fresh);
          e1 = (upd_slot slot (\<lambda>_. s) ext)\<lparr>epoch_sequence := (epoch_sequence ext)[slot := seq]\<rparr>;
          e2 = (if reacquires
                then upd_event slot (\<lambda>ev. ev\<lparr>reacquired_epoch := seq, reacquired_from_epoch := epoch previous\<rparr>) e1
                else e1)
      in upd_event slot (\<lambda>ev. ev\<lparr>ended_committed := False, notice_epoch := 0, notice_target_id := 0,
            notice_kind := CALL_KIND_UNKNOWN, notice_handled := False\<rparr>) e2)"

type_synonym reacquire_hook = "call_host \<Rightarrow> nat \<Rightarrow> call_snapshot \<Rightarrow> call_host"

text \<open>\<open>now\<close> is the clock reading, \<open>hook\<close> the installed protocol hook.\<close>

definition call_state_observe ::
  "bool \<Rightarrow> mono_s \<Rightarrow> reacquire_hook option \<Rightarrow> call_observation \<Rightarrow> call_boundary \<Rightarrow> call_host \<Rightarrow> call_host \<times> int" where
  "call_state_observe alloc now hook ob boundary st =
     (if ob_slot ob \<ge> CALL_STATE_SLOT_COUNT then (st, -1)
      else (let st1 = call_state_ext_get alloc True st in
        case call_ext_slot st1 of
          None \<Rightarrow> (st1, -1)
        | Some ext \<Rightarrow>
            (let slot = ob_slot ob;
                 snapshot = slots (ext_calls ext) ! slot;
                 now_m = call_state_observed_m now (ob_observed_m ob);
                 begins_epoch = observation_begins_epoch snapshot ob boundary;
                 reacquires = (begins_epoch \<and> reacquires_ended_epoch snapshot ob now_m);
                 st2 = (if begins_epoch then reset_voice_errors slot st1 else st1);
                 e1 = (if begins_epoch then open_epoch slot reacquires now_m ext else ext);
                 e2 = upd_slot slot (\<lambda>s. call_state_apply_observation ob (s\<lparr>phase := CALL_PHASE_ACTIVE\<rparr>)) e1;
                 e3 = upd_slot slot (\<lambda>s. s\<lparr>crc_invalid := crc_invalid s \<or> event_crc_invalid st2 ! slot \<noteq> 0,
                        updated_m := now_m, ended_m := 0\<rparr>) e2;
                 st3 = st2\<lparr>call_ext_slot := Some (bump slot e3)\<rparr>;
                 st4 = (case hook of Some h \<Rightarrow> if reacquires then h st3 slot snapshot else st3 | None \<Rightarrow> st3)
             in (st4, of_bool begins_epoch))))"

definition crypto_target_accepts :: "call_snapshot \<Rightarrow> bool \<Rightarrow> bool" where
  "crypto_target_accepts s include_ended \<longleftrightarrow>
     (if epoch s = 0 then False
      else if phase s = CALL_PHASE_ACTIVE then True
      else include_ended \<and> phase s = CALL_PHASE_ENDED)"

definition crypto_differs :: "call_snapshot \<Rightarrow> crypto_update \<Rightarrow> bool" where
  "crypto_differs s u \<longleftrightarrow> crypto s \<noteq> cu_classification u \<or> algid s \<noteq> cu_algid u \<or> kid s \<noteq> cu_kid u \<or> mi s \<noteq> cu_mi u
     \<or> audio_permitted s \<noteq> cu_audio_permitted u"

definition update_crypto_any :: "mono_s \<Rightarrow> nat \<Rightarrow> crypto_update \<Rightarrow> bool \<Rightarrow> call_host \<Rightarrow> call_host \<times> int" where
  "update_crypto_any now slot u include_ended st =
     (if slot \<ge> CALL_STATE_SLOT_COUNT then (st, -1)
      else case call_ext_slot st of
        None \<Rightarrow> (st, -1)
      | Some ext \<Rightarrow>
          (let s = slots (ext_calls ext) ! slot; crc = (event_crc_invalid st ! slot \<noteq> 0) in
           if \<not> crypto_target_accepts s include_ended then (st, 0)
           else if \<not> crypto_differs s u \<and> (\<not> crc \<or> crc_invalid s) then (st, 1)
           else (upd_ext (\<lambda>e. bump slot (upd_slot slot (\<lambda>s.
                    (let s1 = s\<lparr>crypto := cu_classification u, algid := cu_algid u, kid := cu_kid u, mi := cu_mi u,
                                audio_permitted := cu_audio_permitted u, crc_invalid := crc_invalid s \<or> crc\<rparr>
                     in if phase s1 = CALL_PHASE_ACTIVE then s1\<lparr>updated_m := call_state_observed_m now (cu_observed_m u)\<rparr>
                        else s1)) e)) st, 1)))"

definition call_state_update_crypto :: "mono_s \<Rightarrow> nat \<Rightarrow> crypto_update \<Rightarrow> call_host \<Rightarrow> call_host \<times> int" where
  "call_state_update_crypto now slot u st = update_crypto_any now slot u False st"

definition call_state_update_retained_crypto :: "mono_s \<Rightarrow> nat \<Rightarrow> crypto_update \<Rightarrow> call_host \<Rightarrow> call_host \<times> int" where
  "call_state_update_retained_crypto now slot u st = update_crypto_any now slot u True st"

text \<open>The identifiers are C integers; the signaled one is truncated to 16 bits.\<close>

definition call_state_note_key_selection ::
  "nat \<Rightarrow> u64 \<Rightarrow> key_source \<Rightarrow> int \<Rightarrow> int \<Rightarrow> int \<Rightarrow> int \<Rightarrow> call_host \<Rightarrow> call_host \<times> int" where
  "call_state_note_key_selection slot ep source signaled_id effective_id available fallback st =
     (if slot \<ge> CALL_STATE_SLOT_COUNT \<or> ep = 0 \<or> available < -1 \<or> available > 1 \<or> fallback < 0 \<or> fallback > 3 then (st, -1)
      else case call_ext_slot st of
        None \<Rightarrow> (st, 0)
      | Some ext \<Rightarrow>
          (let call = slots (ext_calls ext) ! slot;
               selection = \<lparr>ks_valid = True, ks_key_epoch = host_key_epoch st, ks_effective_id = effective_id,
                 ks_signaled_id = of_int signaled_id, ks_source = source, ks_algorithm = algid call, ks_available = available,
                 ks_fallback = nat fallback, ks_profile_ref = take 63 (key_profile_ref st)\<rparr>
           in if epoch call \<noteq> ep \<or> phase call = CALL_PHASE_IDLE then (st, 0)
              else if key_sel call \<noteq> selection
              then (upd_ext (\<lambda>e. bump slot (upd_slot slot (\<lambda>s. s\<lparr>key_sel := selection\<rparr>) e)) st, 1)
              else (st, 1)))"

definition call_state_update_media :: "mono_s \<Rightarrow> nat \<Rightarrow> bool \<Rightarrow> mono_s \<Rightarrow> call_host \<Rightarrow> call_host \<times> int" where
  "call_state_update_media now slot active observed_m st =
     (if slot \<ge> CALL_STATE_SLOT_COUNT then (st, -1)
      else case call_ext_slot st of
        None \<Rightarrow> (st, -1)
      | Some ext \<Rightarrow>
          (let s = slots (ext_calls ext) ! slot; now_m = call_state_observed_m now observed_m in
           if epoch s = 0 \<or> phase s \<noteq> CALL_PHASE_ACTIVE then (st, 0)
           else (upd_ext (\<lambda>e. bump slot (upd_slot slot (\<lambda>s.
                   (let s1 = s\<lparr>media_active := active, updated_m := now_m\<rparr> in
                    if active then (if media_started_m s1 \<le> 0 then s1\<lparr>media_started_m := now_m\<rparr> else s1)\<lparr>media_updated_m := now_m\<rparr>
                    else s1)) e)) st, 1)))"

definition call_state_end_ex :: "mono_s \<Rightarrow> nat \<Rightarrow> mono_s \<Rightarrow> end_reason \<Rightarrow> call_host \<Rightarrow> call_host \<times> int" where
  "call_state_end_ex now slot observed_m reason st =
     (if slot \<ge> CALL_STATE_SLOT_COUNT then (st, -1)
      else case call_ext_slot st of
        None \<Rightarrow> (st, -1)
      | Some ext \<Rightarrow>
          (let s = slots (ext_calls ext) ! slot in
           if epoch s = 0 \<or> phase s \<noteq> CALL_PHASE_ACTIVE then
             (let retracts = ((reason = CALL_END_EXPLICIT \<or> reason = CALL_END_TERMINATOR)
                             \<and> end_reason_is_recoverable (call_end_reason s));
                  corroborates = (reason = CALL_END_UNVERIFIED_TERMINATOR
                             \<and> call_end_reason s = CALL_END_UNVERIFIED_TERMINATOR)
              in if epoch s \<noteq> 0 \<and> phase s = CALL_PHASE_ENDED \<and> (retracts \<or> corroborates)
                 then (upd_ext (\<lambda>e. bump slot (upd_slot slot (\<lambda>s. s\<lparr>call_end_reason :=
                        (if reason = CALL_END_TERMINATOR \<or> corroborates then CALL_END_TERMINATOR else CALL_END_EXPLICIT)\<rparr>) e)) st, 1)
                 else (st, 0))
           else (upd_ext (\<lambda>e. bump slot (upd_slot slot (\<lambda>s. s\<lparr>phase := CALL_PHASE_ENDED, call_end_reason := reason,
                   media_active := False, audio_permitted := False, ended_m := call_state_observed_m now observed_m,
                   updated_m := call_state_observed_m now observed_m\<rparr>) e)) st, 1)))"

definition call_state_end :: "mono_s \<Rightarrow> nat \<Rightarrow> mono_s \<Rightarrow> call_host \<Rightarrow> call_host \<times> int" where
  "call_state_end now slot observed_m st = call_state_end_ex now slot observed_m CALL_END_EXPLICIT st"

text \<open>Readers return the code's result and what they store through the out pointer.\<close>

definition call_state_get :: "nat \<Rightarrow> call_host \<Rightarrow> call_snapshot \<Rightarrow> call_snapshot \<times> int" where
  "call_state_get slot st out =
     (if slot \<ge> CALL_STATE_SLOT_COUNT then (out, -1)
      else case call_ext_slot st of
        None \<Rightarrow> (out, 0)
      | Some ext \<Rightarrow> (let s = slots (ext_calls ext) ! slot in (s, if epoch s \<noteq> 0 then 1 else 0)))"

definition zero_calls :: calls where
  "zero_calls = \<lparr>calls_revision = 0, slots = replicate CALL_STATE_SLOT_COUNT zero_snapshot\<rparr>"

definition zero_recent :: recent where
  "zero_recent = \<lparr>recent_revision = 0, entries = replicate RECENT_ACTIVITY_COUNT zero_entry\<rparr>"

definition call_state_copy_snapshot :: "call_host \<Rightarrow> calls \<times> int" where
  "call_state_copy_snapshot st =
     (case call_ext_slot st of None \<Rightarrow> (zero_calls, 0) | Some ext \<Rightarrow> (ext_calls ext, 1))"

text \<open>\<open>if (epoch_sequence[slot] < slots[slot].epoch) epoch_sequence[slot] = slots[slot].epoch\<close>.\<close>

definition raise_sequence :: "calls \<Rightarrow> call_ext \<Rightarrow> call_ext" where
  "raise_sequence c ext = ext\<lparr>epoch_sequence :=
     map (\<lambda>i. if epoch_sequence ext ! i < epoch (slots c ! i) then epoch (slots c ! i) else epoch_sequence ext ! i)
       [0..<CALL_STATE_SLOT_COUNT]\<rparr>"

definition call_state_restore_snapshot :: "bool \<Rightarrow> calls \<Rightarrow> call_host \<Rightarrow> call_host \<times> int" where
  "call_state_restore_snapshot alloc snapshot st =
     (let st1 = call_state_ext_get alloc True st in
      case call_ext_slot st1 of
        None \<Rightarrow> (st1, 0)
      | Some ext \<Rightarrow> (upd_ext (\<lambda>e. raise_sequence snapshot (e\<lparr>ext_calls := snapshot\<rparr>)) st1, 1))"

record call_context =
  cx_calls :: calls
  cx_recent :: recent
  cx_events :: "event_lifecycle list"

definition call_context_copy_snapshot :: "call_host \<Rightarrow> call_context \<times> int" where
  "call_context_copy_snapshot st =
     (case call_ext_slot st of
        None \<Rightarrow> (\<lparr>cx_calls = zero_calls, cx_recent = zero_recent, cx_events = replicate CALL_STATE_SLOT_COUNT zero_lifecycle\<rparr>, 0)
      | Some ext \<Rightarrow> (\<lparr>cx_calls = ext_calls ext, cx_recent = ext_recent ext, cx_events = ext_events ext\<rparr>, 1))"

definition invalidate_event_lifecycle :: "event_lifecycle \<Rightarrow> event_lifecycle" where
  "invalidate_event_lifecycle ev = ev\<lparr>committed_seq := 0, committed_epoch := 0, committed_valid := False,
     reacquired_epoch := 0, reacquired_from_epoch := 0, end_alert_pending := False, end_alert_due_m := 0,
     drop_hold_pending := False, drop_hold_due_m := 0, staged_env := zero_env, committed_env := zero_env\<rparr>"

definition call_context_restore_snapshot :: "bool \<Rightarrow> call_context \<Rightarrow> call_host \<Rightarrow> call_host \<times> int" where
  "call_context_restore_snapshot alloc cx st =
     (let st1 = call_state_ext_get alloc True st in
      case call_ext_slot st1 of
        None \<Rightarrow> (st1, 0)
      | Some ext \<Rightarrow>
          (upd_ext (\<lambda>e.
             (let e1 = raise_sequence (cx_calls cx) (e\<lparr>ext_calls := cx_calls cx, ext_recent := cx_recent cx, ext_events := cx_events cx\<rparr>)
              in e1\<lparr>ext_events := map invalidate_event_lifecycle (ext_events e1),
                    ext_calls := (ext_calls e1)\<lparr>slots := map (\<lambda>s. if phase s = CALL_PHASE_ENDED
                       then s\<lparr>call_end_reason := CALL_END_EXPLICIT\<rparr> else s) (slots (ext_calls e1))\<rparr>\<rparr>)) st1, 1))"

definition call_state_enrich_text ::
  "mono_s \<Rightarrow> nat \<Rightarrow> u64 \<Rightarrow> ctext option \<Rightarrow> ctext option \<Rightarrow> ctext option \<Rightarrow> ctext option \<Rightarrow> mono_s \<Rightarrow> call_host \<Rightarrow> call_host \<times> int" where
  "call_state_enrich_text now slot ep source_t target_t route0_t route1_t observed_m st =
     (if slot \<ge> CALL_STATE_SLOT_COUNT \<or> ep = 0 then (st, -1)
      else case call_ext_slot st of
        None \<Rightarrow> (st, 0)
      | Some ext \<Rightarrow>
          (let s = slots (ext_calls ext) ! slot in
           if phase s \<noteq> CALL_PHASE_ACTIVE \<or> epoch s \<noteq> ep then (st, 0)
           else (upd_ext (\<lambda>e. bump slot (upd_slot slot (\<lambda>s. s\<lparr>texts := apply_texts source_t target_t route0_t route1_t (texts s),
                   updated_m := call_state_observed_m now observed_m\<rparr>) e)) st, 1)))"

section \<open>Recent activity\<close>

definition recent_activity_index_valid :: "nat \<Rightarrow> bool" where
  "recent_activity_index_valid index \<longleftrightarrow> index < RECENT_ACTIVITY_COUNT"

definition recent_activity_copy_text :: "ctext option \<Rightarrow> ctext" where
  "recent_activity_copy_text text_opt = (case text_opt of None \<Rightarrow> [] | Some t \<Rightarrow> take (RECENT_ACTIVITY_TEXT_SIZE - 1) t)"

definition recent_bump :: "call_ext \<Rightarrow> call_ext" where
  "recent_bump e = e\<lparr>ext_recent := (ext_recent e)\<lparr>recent_revision := call_state_next_nonzero (recent_revision (ext_recent e))\<rparr>\<rparr>"

definition set_entry :: "nat \<Rightarrow> recent_entry \<Rightarrow> call_ext \<Rightarrow> call_ext" where
  "set_entry i en e = e\<lparr>ext_recent := (ext_recent e)\<lparr>entries := (entries (ext_recent e))[i := en]\<rparr>\<rparr>"

definition normalize_texts :: "call_texts \<Rightarrow> call_texts" where
  "normalize_texts t =
     \<lparr>source_text = call_state_normalize_text (Some (source_text t)), target_text = call_state_normalize_text (Some (target_text t)),
      route0_text = call_state_normalize_text (Some (route0_text t)), route1_text = call_state_normalize_text (Some (route1_text t))\<rparr>"

definition recent_activity_publish ::
  "bool \<Rightarrow> u64 \<Rightarrow> nat \<Rightarrow> call_observation option \<Rightarrow> ctext option \<Rightarrow> u64 \<Rightarrow> call_host \<Rightarrow> call_host \<times> int" where
  "recent_activity_publish alloc clock_ms index ob notice observed_m_ms st =
     (if \<not> recent_activity_index_valid index \<or> (ob = None \<and> (notice = None \<or> notice = Some [])) then (st, -1)
      else (let now_ms = (if observed_m_ms \<noteq> 0 then observed_m_ms else clock_ms);
                st1 = call_state_ext_get alloc True st
            in case call_ext_slot st1 of
                 None \<Rightarrow> (st1, -1)
               | Some ext \<Rightarrow>
                   (let en = \<lparr>ra_observation = (case ob of None \<Rightarrow> zero_observation
                                | Some o1 \<Rightarrow> o1\<lparr>ob_texts := normalize_texts (ob_texts o1)\<rparr>),
                              ra_notice = recent_activity_copy_text notice, ra_updated_m_ms = now_ms\<rparr>
                    in (upd_ext (\<lambda>e. recent_bump (set_entry index en e)) st1, 1))))"

definition recent_activity_clear :: "nat \<Rightarrow> call_host \<Rightarrow> call_host \<times> int" where
  "recent_activity_clear index st =
     (if \<not> recent_activity_index_valid index then (st, -1)
      else case call_ext_slot st of
        None \<Rightarrow> (st, 0)
      | Some ext \<Rightarrow> (upd_ext (\<lambda>e. recent_bump (set_entry index zero_entry e)) st, 1))"

definition recent_activity_clear_all :: "bool \<Rightarrow> call_host \<Rightarrow> call_host \<times> int" where
  "recent_activity_clear_all alloc st =
     (let st1 = call_state_ext_get alloc True st in
      case call_ext_slot st1 of
        None \<Rightarrow> (st1, 0)
      | Some ext \<Rightarrow> (upd_ext (\<lambda>e. recent_bump (e\<lparr>ext_recent := (ext_recent e)\<lparr>entries :=
            replicate RECENT_ACTIVITY_COUNT zero_entry\<rparr>\<rparr>)) st1, 1))"

definition recent_activity_copy_snapshot :: "call_host \<Rightarrow> recent \<times> int" where
  "recent_activity_copy_snapshot st =
     (case call_ext_slot st of None \<Rightarrow> (zero_recent, 0) | Some ext \<Rightarrow> (ext_recent ext, 1))"

definition recent_activity_restore_snapshot :: "bool \<Rightarrow> recent \<Rightarrow> call_host \<Rightarrow> call_host \<times> int" where
  "recent_activity_restore_snapshot alloc snapshot st =
     (let st1 = call_state_ext_get alloc True st in
      case call_ext_slot st1 of
        None \<Rightarrow> (st1, 0)
      | Some ext \<Rightarrow> (upd_ext (\<lambda>e. e\<lparr>ext_recent := snapshot\<rparr>) st1, 1))"

definition entry_expired :: "u64 \<Rightarrow> u64 \<Rightarrow> recent_entry \<Rightarrow> bool" where
  "entry_expired now_ms max_age_ms en \<longleftrightarrow>
     \<not> (ra_updated_m_ms en = 0 \<or> now_ms < ra_updated_m_ms en \<or> now_ms - ra_updated_m_ms en \<le> max_age_ms)"

definition recent_activity_expire :: "u64 \<Rightarrow> u64 \<Rightarrow> u64 \<Rightarrow> call_host \<Rightarrow> call_host \<times> int" where
  "recent_activity_expire clock_ms now_m_ms ttl_ms st =
     (let now_ms = (if now_m_ms \<noteq> 0 then now_m_ms else clock_ms);
          max_age_ms = (if ttl_ms \<noteq> 0 then ttl_ms else RECENT_ACTIVITY_TTL_MS)
      in case call_ext_slot st of
           None \<Rightarrow> (st, 0)
         | Some ext \<Rightarrow>
             (let old = entries (ext_recent ext);
                  expired = length (filter (entry_expired now_ms max_age_ms) old);
                  e1 = ext\<lparr>ext_recent := (ext_recent ext)\<lparr>entries :=
                         map (\<lambda>en. if entry_expired now_ms max_age_ms en then zero_entry else en) old\<rparr>\<rparr>;
                  e2 = (if expired > 0 then recent_bump e1 else e1)
              in (st\<lparr>call_ext_slot := Some e2\<rparr>, int expired)))"

record recent_transaction =
  tx_valid :: bool
  tx_index :: nat
  tx_entry :: recent_entry

definition recent_activity_save :: "nat \<Rightarrow> call_host \<Rightarrow> recent_transaction \<Rightarrow> recent_transaction \<times> int" where
  "recent_activity_save index st tx =
     (if \<not> recent_activity_index_valid index then (tx, -1)
      else case call_ext_slot st of
        None \<Rightarrow> (\<lparr>tx_valid = True, tx_index = index, tx_entry = zero_entry\<rparr>, 0)
      | Some ext \<Rightarrow> (\<lparr>tx_valid = True, tx_index = index, tx_entry = entries (ext_recent ext) ! index\<rparr>, 1))"

definition recent_activity_restore :: "recent_transaction \<Rightarrow> call_host \<Rightarrow> call_host \<times> int" where
  "recent_activity_restore tx st =
     (if \<not> tx_valid tx \<or> \<not> recent_activity_index_valid (tx_index tx) then (st, -1)
      else case call_ext_slot st of
        None \<Rightarrow> (st, 0)
      | Some ext \<Rightarrow> (upd_ext (\<lambda>e. recent_bump (set_entry (tx_index tx) (tx_entry tx) e)) st, 1))"

definition call_state_copy_to_state :: "bool \<Rightarrow> call_host \<Rightarrow> call_host \<Rightarrow> call_host \<times> int" where
  "call_state_copy_to_state alloc src dst =
     (case call_ext_slot src of
        None \<Rightarrow> (dst\<lparr>call_ext_slot := None\<rparr>, 0)
      | Some s \<Rightarrow>
          (let dst1 = call_state_ext_get alloc True dst in
           case call_ext_slot dst1 of
             None \<Rightarrow> (dst1\<lparr>call_ext_slot := None\<rparr>, -1)
           | Some d \<Rightarrow> (dst1\<lparr>call_ext_slot := Some (d\<lparr>ext_calls := ext_calls s, ext_recent := ext_recent s,
                 ext_events := ext_events s, epoch_sequence := epoch_sequence s\<rparr>)\<rparr>, 1)))"

end
