(* ===== verification/Call_Epochs.thy ===== *)
theory Call_Epochs
  imports Call_State Machine
begin

text \<open>
  What the call store of \<open>Call_State\<close> promises: how ends and observations move a slot between epochs,
  which identity survives, when a lost transmission is reacquired, and that the reacquisition marks
  the event layer reads are exact. The store is an instance of the machine interface.
\<close>

section \<open>Reading the store\<close>

lemmas store_defs = upd_ext_def upd_slot_def upd_event_def bump_def Let_def

lemma upd_slot_simps [simp]:
  "length (slots (ext_calls (upd_slot i f e))) = length (slots (ext_calls e))"
  "ext_events (upd_slot i f e) = ext_events e" "epoch_sequence (upd_slot i f e) = epoch_sequence e"
  "ext_recent (upd_slot i f e) = ext_recent e"
  "i < length (slots (ext_calls e)) \<Longrightarrow> slots (ext_calls (upd_slot i f e)) ! i = f (slots (ext_calls e) ! i)"
  "j \<noteq> i \<Longrightarrow> slots (ext_calls (upd_slot i f e)) ! j = slots (ext_calls e) ! j"
  by (simp_all add: upd_slot_def)

lemma upd_event_simps [simp]:
  "length (ext_events (upd_event i g e)) = length (ext_events e)"
  "ext_calls (upd_event i g e) = ext_calls e" "epoch_sequence (upd_event i g e) = epoch_sequence e"
  "ext_recent (upd_event i g e) = ext_recent e"
  "i < length (ext_events e) \<Longrightarrow> ext_events (upd_event i g e) ! i = g (ext_events e ! i)"
  "j \<noteq> i \<Longrightarrow> ext_events (upd_event i g e) ! j = ext_events e ! j"
  by (simp_all add: upd_event_def)

definition bump_snapshot :: "call_snapshot \<Rightarrow> call_snapshot" where
  "bump_snapshot s = s\<lparr>revision := call_state_next_nonzero (revision s)\<rparr>"

lemma bump_simps [simp]:
  "length (slots (ext_calls (bump i e))) = length (slots (ext_calls e))"
  "ext_events (bump i e) = ext_events e" "epoch_sequence (bump i e) = epoch_sequence e"
  "ext_recent (bump i e) = ext_recent e"
  "i < length (slots (ext_calls e)) \<Longrightarrow> slots (ext_calls (bump i e)) ! i = bump_snapshot (slots (ext_calls e) ! i)"
  "j \<noteq> i \<Longrightarrow> slots (ext_calls (bump i e)) ! j = slots (ext_calls e) ! j"
  by (simp_all add: bump_def Let_def upd_slot_def bump_snapshot_def)

lemma bump_snapshot_simps [simp]:
  "epoch (bump_snapshot s) = epoch s" "phase (bump_snapshot s) = phase s" "texts (bump_snapshot s) = texts s"
  "ota_target_id (bump_snapshot s) = ota_target_id s" "policy_target_id (bump_snapshot s) = policy_target_id s"
  "ota_source_id (bump_snapshot s) = ota_source_id s" "protocol (bump_snapshot s) = protocol s"
  "kind (bump_snapshot s) = kind s" "ended_m (bump_snapshot s) = ended_m s"
  "call_end_reason (bump_snapshot s) = call_end_reason s" "media_started_m (bump_snapshot s) = media_started_m s"
  "media_updated_m (bump_snapshot s) = media_updated_m s" "media_active (bump_snapshot s) = media_active s"
  "audio_permitted (bump_snapshot s) = audio_permitted s" "started_m (bump_snapshot s) = started_m s"
  "effective_target_snapshot (bump_snapshot s) = effective_target_snapshot s"
  by (simp_all add: bump_snapshot_def effective_target_snapshot_def)

text \<open>The slot, the event bookkeeping and the counter of a host whose store exists.\<close>

definition slot_of :: "call_host \<Rightarrow> nat \<Rightarrow> call_snapshot" where
  "slot_of st i = slots (ext_calls (the (call_ext_slot st))) ! i"

definition event_of :: "call_host \<Rightarrow> nat \<Rightarrow> event_lifecycle" where
  "event_of st i = ext_events (the (call_ext_slot st)) ! i"

definition sequence_of :: "call_host \<Rightarrow> nat \<Rightarrow> u64" where
  "sequence_of st i = epoch_sequence (the (call_ext_slot st)) ! i"

section \<open>Well-formed stores\<close>

definition ext_shape :: "call_ext \<Rightarrow> bool" where
  "ext_shape e \<longleftrightarrow> length (slots (ext_calls e)) = CALL_STATE_SLOT_COUNT \<and> length (ext_events e) = CALL_STATE_SLOT_COUNT
     \<and> length (epoch_sequence e) = CALL_STATE_SLOT_COUNT \<and> length (entries (ext_recent e)) = RECENT_ACTIVITY_COUNT"

text \<open>No epoch number and no reacquisition mark is ahead of the slot's counter.\<close>

definition ext_inv :: "call_ext \<Rightarrow> bool" where
  "ext_inv e \<longleftrightarrow> ext_shape e \<and>
     (\<forall>i<CALL_STATE_SLOT_COUNT. epoch (slots (ext_calls e) ! i) \<le> epoch_sequence e ! i
        \<and> reacquired_epoch (ext_events e ! i) \<le> epoch_sequence e ! i)"

definition store_inv :: "call_host \<Rightarrow> bool" where
  "store_inv st \<longleftrightarrow> (case call_ext_slot st of None \<Rightarrow> True | Some e \<Rightarrow> ext_inv e)"

lemma ext_shapeD:
  assumes "ext_shape e"
  shows "length (slots (ext_calls e)) = 2" "length (ext_events e) = 2" "length (epoch_sequence e) = 2"
    "length (entries (ext_recent e)) = 31"
  using assms by (simp_all add: ext_shape_def CALL_STATE_SLOT_COUNT_def RECENT_ACTIVITY_COUNT_def)

lemma less_2: "i < CALL_STATE_SLOT_COUNT \<longleftrightarrow> i < 2"
  by (simp add: CALL_STATE_SLOT_COUNT_def)

lemma allocate_inv: "ext_inv call_state_ext_allocate"
  by (auto simp: ext_inv_def ext_shape_def call_state_ext_allocate_def zero_snapshot_def zero_lifecycle_def
      CALL_STATE_SLOT_COUNT_def RECENT_ACTIVITY_COUNT_def numeral_2_eq_2 less_Suc_eq)

lemma get_inv: "store_inv st \<Longrightarrow> store_inv (call_state_ext_get alloc create st)"
  by (auto simp: store_inv_def call_state_ext_get_def allocate_inv split: option.splits)

lemma ext_inv_quiet:
  assumes "ext_inv e" "\<And>s. epoch (f s) = epoch s" "i < 2"
  shows "ext_inv (bump i (upd_slot i f e))"
proof -
  have "epoch (slots (ext_calls (bump i (upd_slot i f e))) ! j) = epoch (slots (ext_calls e) ! j)" for j
    using assms ext_shapeD(1) [of e] by (cases "j = i") (simp_all add: ext_inv_def)
  then show ?thesis using assms(1) by (simp add: ext_inv_def ext_shape_def)
qed

lemma store_inv_quiet:
  "store_inv st \<Longrightarrow> (\<And>s. epoch (f s) = epoch s) \<Longrightarrow> i < 2 \<Longrightarrow> store_inv (upd_ext (\<lambda>e. bump i (upd_slot i f e)) st)"
  by (auto simp: store_inv_def upd_ext_def ext_inv_quiet split: option.splits)

lemma next_nonzero: "call_state_next_nonzero v \<noteq> 0" "v \<noteq> - 1 \<Longrightarrow> v < call_state_next_nonzero v"
  by (auto simp: call_state_next_nonzero_def word_less_succ word_succ_nonzero)

section \<open>Opening an epoch\<close>

definition fresh_snapshot :: "nat \<Rightarrow> u64 \<Rightarrow> mono_s \<Rightarrow> call_snapshot" where
  "fresh_snapshot slot seq now_m = zero_snapshot\<lparr>epoch := seq, slot_no := slot, protocol := DSD_SYNC_NONE,
     crypto := CALL_CRYPTO_UNKNOWN, started_m := now_m\<rparr>"

text \<open>What one accepted observation leaves in its slot.\<close>

definition observed_snapshot :: "call_observation \<Rightarrow> mono_s \<Rightarrow> bool \<Rightarrow> call_snapshot \<Rightarrow> call_snapshot" where
  "observed_snapshot ob now_m crc s =
     (let a = call_state_apply_observation ob (s\<lparr>phase := CALL_PHASE_ACTIVE\<rparr>)
      in bump_snapshot (a\<lparr>crc_invalid := crc_invalid a \<or> crc, updated_m := now_m, ended_m := 0\<rparr>))"

lemma apply_observation_simps [simp]:
  "epoch (call_state_apply_observation ob s) = epoch s" "phase (call_state_apply_observation ob s) = phase s"
  "started_m (call_state_apply_observation ob s) = started_m s"
  "media_started_m (call_state_apply_observation ob s) = media_started_m s"
  "media_updated_m (call_state_apply_observation ob s) = media_updated_m s"
  by (simp_all add: call_state_apply_observation_def Let_def)

lemma observed_snapshot_simps [simp]:
  "epoch (observed_snapshot ob now_m crc s) = epoch s" "phase (observed_snapshot ob now_m crc s) = CALL_PHASE_ACTIVE"
  "started_m (observed_snapshot ob now_m crc s) = started_m s"
  "media_started_m (observed_snapshot ob now_m crc s) = media_started_m s"
  "media_updated_m (observed_snapshot ob now_m crc s) = media_updated_m s"
  by (simp_all add: observed_snapshot_def Let_def)

text \<open>The hook runs protocol code: it does not touch the store.\<close>

definition keeps_store :: "reacquire_hook option \<Rightarrow> bool" where
  "keeps_store hook \<longleftrightarrow> (case hook of None \<Rightarrow> True | Some h \<Rightarrow> \<forall>st slot p. call_ext_slot (h st slot p) = call_ext_slot st)"

lemma reset_voice_errors_simps [simp]:
  "call_ext_slot (reset_voice_errors slot st) = call_ext_slot st"
  "event_crc_invalid (reset_voice_errors slot st) = event_crc_invalid st"
  by (simp_all add: reset_voice_errors_def Let_def)

lemma ext_get_simps:
  "call_ext_slot (call_state_ext_get alloc True st) =
     (case call_ext_slot st of Some e \<Rightarrow> Some e | None \<Rightarrow> if alloc then Some call_state_ext_allocate else None)"
  "event_crc_invalid (call_state_ext_get alloc create st) = event_crc_invalid st"
  by (auto simp: call_state_ext_get_def split: option.split)

text \<open>The slot the observation finds, after the store has been created if it was missing.\<close>

definition ext_before :: "call_host \<Rightarrow> call_ext" where
  "ext_before st = (case call_ext_slot st of Some e \<Rightarrow> e | None \<Rightarrow> call_state_ext_allocate)"

lemma open_epoch_effect:
  assumes "ext_shape e" "i < 2"
  shows "slots (ext_calls (open_epoch i r t e)) ! i =
      (if r then (seed_reacquired_snapshot (slots (ext_calls e) ! i)
                   (fresh_snapshot i (call_state_next_nonzero (epoch_sequence e ! i)) t))
                 \<lparr>crc_invalid := crc_invalid (slots (ext_calls e) ! i)\<rparr>
       else fresh_snapshot i (call_state_next_nonzero (epoch_sequence e ! i)) t)"
    "epoch_sequence (open_epoch i r t e) = (epoch_sequence e)[i := call_state_next_nonzero (epoch_sequence e ! i)]"
    "reacquired_epoch (ext_events (open_epoch i r t e) ! i) =
      (if r then call_state_next_nonzero (epoch_sequence e ! i) else reacquired_epoch (ext_events e ! i))"
    "reacquired_from_epoch (ext_events (open_epoch i r t e) ! i) =
      (if r then epoch (slots (ext_calls e) ! i) else reacquired_from_epoch (ext_events e ! i))"
    "j \<noteq> i \<Longrightarrow> slots (ext_calls (open_epoch i r t e)) ! j = slots (ext_calls e) ! j"
    "j \<noteq> i \<Longrightarrow> ext_events (open_epoch i r t e) ! j = ext_events e ! j"
    "ext_shape (open_epoch i r t e)"
    "ext_recent (open_epoch i r t e) = ext_recent e"
  using assms ext_shapeD [OF assms(1)]
  by (simp_all add: open_epoch_def Let_def fresh_snapshot_def ext_shape_def)

lemma observe_unfold:
  assumes "keeps_store hook" "ob_slot ob < CALL_STATE_SLOT_COUNT" "call_ext_slot (call_state_ext_get alloc True st) = Some E"
  shows "snd (call_state_observe alloc now hook ob boundary st) =
      of_bool (observation_begins_epoch (slots (ext_calls E) ! ob_slot ob) ob boundary)"
    "call_ext_slot (fst (call_state_observe alloc now hook ob boundary st)) =
      Some (bump (ob_slot ob) (upd_slot (ob_slot ob) (\<lambda>s. s\<lparr>crc_invalid := crc_invalid s \<or> event_crc_invalid st ! ob_slot ob \<noteq> 0,
              updated_m := call_state_observed_m now (ob_observed_m ob), ended_m := 0\<rparr>)
        (upd_slot (ob_slot ob) (\<lambda>s. call_state_apply_observation ob (s\<lparr>phase := CALL_PHASE_ACTIVE\<rparr>))
          (if observation_begins_epoch (slots (ext_calls E) ! ob_slot ob) ob boundary
           then open_epoch (ob_slot ob)
             (observation_begins_epoch (slots (ext_calls E) ! ob_slot ob) ob boundary
              \<and> reacquires_ended_epoch (slots (ext_calls E) ! ob_slot ob) ob (call_state_observed_m now (ob_observed_m ob)))
             (call_state_observed_m now (ob_observed_m ob)) E
           else E))))"
proof -
  have h: "call_ext_slot (case hook of None \<Rightarrow> t | Some h \<Rightarrow> if b then h t k p else t) = call_ext_slot t" for t b k p
    using assms(1) by (auto simp: keeps_store_def split: option.splits)
  have c: "\<not> CALL_STATE_SLOT_COUNT \<le> ob_slot ob" using assms(2) by simp
  show "snd (call_state_observe alloc now hook ob boundary st) =
      of_bool (observation_begins_epoch (slots (ext_calls E) ! ob_slot ob) ob boundary)"
    unfolding call_state_observe_def Let_def assms(3) using c by simp
  have ev: "event_crc_invalid (if b then reset_voice_errors k t else t) = event_crc_invalid t" for b k t by simp
  show "call_ext_slot (fst (call_state_observe alloc now hook ob boundary st)) =
      Some (bump (ob_slot ob) (upd_slot (ob_slot ob) (\<lambda>s. s\<lparr>crc_invalid := crc_invalid s \<or> event_crc_invalid st ! ob_slot ob \<noteq> 0,
              updated_m := call_state_observed_m now (ob_observed_m ob), ended_m := 0\<rparr>)
        (upd_slot (ob_slot ob) (\<lambda>s. call_state_apply_observation ob (s\<lparr>phase := CALL_PHASE_ACTIVE\<rparr>))
          (if observation_begins_epoch (slots (ext_calls E) ! ob_slot ob) ob boundary
           then open_epoch (ob_slot ob)
             (observation_begins_epoch (slots (ext_calls E) ! ob_slot ob) ob boundary
              \<and> reacquires_ended_epoch (slots (ext_calls E) ! ob_slot ob) ob (call_state_observed_m now (ob_observed_m ob)))
             (call_state_observed_m now (ob_observed_m ob)) E
           else E))))"
    unfolding call_state_observe_def Let_def assms(3) ev ext_get_simps(2) using c by (simp add: h del: not_le)
qed

lemma observe_effect:
  fixes boundary :: call_boundary
  assumes hook: "keeps_store hook" and inv: "store_inv st" and slot: "ob_slot ob = i" "i < 2"
    and room: "alloc \<or> call_ext_slot st \<noteq> None"
    and now: "now_m = call_state_observed_m now (ob_observed_m ob)"
    and cur: "cur = slots (ext_calls (ext_before st)) ! i"
    and seq: "seq = call_state_next_nonzero (epoch_sequence (ext_before st) ! i)"
    and crc: "crc = (event_crc_invalid st ! i \<noteq> 0)"
  defines "st' \<equiv> fst (call_state_observe alloc now hook ob boundary st)"
    and "begins \<equiv> observation_begins_epoch cur ob boundary"
    and "reacq \<equiv> observation_begins_epoch cur ob boundary \<and> reacquires_ended_epoch cur ob now_m"
  shows "snd (call_state_observe alloc now hook ob boundary st) = of_bool begins"
    "call_ext_slot st' \<noteq> None"
    "slot_of st' i = observed_snapshot ob now_m crc
       (if reacq then (seed_reacquired_snapshot cur (fresh_snapshot i seq now_m))\<lparr>crc_invalid := crc_invalid cur\<rparr>
        else if begins then fresh_snapshot i seq now_m else cur)"
    "sequence_of st' i = (if begins then seq else epoch_sequence (ext_before st) ! i)"
    "reacquired_epoch (event_of st' i) = (if reacq then seq else reacquired_epoch (ext_events (ext_before st) ! i))"
    "reacquired_from_epoch (event_of st' i) = (if reacq then epoch cur else reacquired_from_epoch (ext_events (ext_before st) ! i))"
    "\<And>j. j \<noteq> i \<Longrightarrow> slot_of st' j = slots (ext_calls (ext_before st)) ! j"
    "\<And>j. j \<noteq> i \<Longrightarrow> event_of st' j = ext_events (ext_before st) ! j"
    "\<And>j. j \<noteq> i \<Longrightarrow> sequence_of st' j = epoch_sequence (ext_before st) ! j"
    "ext_shape (the (call_ext_slot st'))"
proof -
  let ?e = "ext_before st"
  have e: "ext_inv ?e" using inv by (auto simp: ext_before_def store_inv_def allocate_inv split: option.split)
  note l = ext_shapeD [of ?e]
  have sh: "ext_shape ?e" using e by (simp add: ext_inv_def)
  have ge: "call_ext_slot (call_state_ext_get alloc True st) = Some ?e"
    using room by (auto simp: ext_get_simps ext_before_def split: option.split)
  let ?e1 = "if begins then open_epoch i reacq now_m ?e else ?e"
  let ?f = "\<lambda>s. call_state_apply_observation ob (s\<lparr>phase := CALL_PHASE_ACTIVE\<rparr>)"
  let ?g = "\<lambda>s. s\<lparr>crc_invalid := crc_invalid s \<or> crc, updated_m := now_m, ended_m := 0\<rparr>"
  let ?e3 = "bump i (upd_slot i ?g (upd_slot i ?f ?e1))"
  have c: "ob_slot ob < CALL_STATE_SLOT_COUNT" using slot by (simp add: less_2)
  have obs: "snd (call_state_observe alloc now hook ob boundary st) = of_bool begins" "call_ext_slot st' = Some ?e3"
    unfolding st'_def observe_unfold [OF hook c ge] begins_def reacq_def cur now crc slot(1) by (rule refl)+
  have r: "reacq \<Longrightarrow> begins" by (simp add: reacq_def begins_def)
  note oe = open_epoch_effect [OF sh slot(2), where r = reacq and t = now_m, folded cur seq]
  have e1: "ext_shape ?e1"
    "slots (ext_calls ?e1) ! i = (if reacq then (seed_reacquired_snapshot cur (fresh_snapshot i seq now_m))\<lparr>crc_invalid := crc_invalid cur\<rparr>
        else if begins then fresh_snapshot i seq now_m else cur)"
    "epoch_sequence ?e1 ! i = (if begins then seq else epoch_sequence ?e ! i)"
    "reacquired_epoch (ext_events ?e1 ! i) = (if reacq then seq else reacquired_epoch (ext_events ?e ! i))"
    "reacquired_from_epoch (ext_events ?e1 ! i) = (if reacq then epoch cur else reacquired_from_epoch (ext_events ?e ! i))"
    using oe l(3) [OF sh] slot(2) sh r cur by auto
  have other: "slots (ext_calls ?e1) ! j = slots (ext_calls ?e) ! j" "ext_events ?e1 ! j = ext_events ?e ! j"
    "epoch_sequence ?e1 ! j = epoch_sequence ?e ! j" if "j \<noteq> i" for j
    using oe(2) oe(5,6) [OF that] that by auto
  note l1 = ext_shapeD [OF e1(1)]
  show "snd (call_state_observe alloc now hook ob boundary st) = of_bool begins" "call_ext_slot st' \<noteq> None"
    using obs by simp_all
  show "slot_of st' i = observed_snapshot ob now_m crc
       (if reacq then (seed_reacquired_snapshot cur (fresh_snapshot i seq now_m))\<lparr>crc_invalid := crc_invalid cur\<rparr>
        else if begins then fresh_snapshot i seq now_m else cur)"
    using l1(1) slot(2) unfolding e1(2) [symmetric] by (simp add: slot_of_def obs(2) observed_snapshot_def Let_def)
  show "sequence_of st' i = (if begins then seq else epoch_sequence ?e ! i)"
    unfolding e1(3) [symmetric] by (simp add: sequence_of_def obs(2))
  show "reacquired_epoch (event_of st' i) = (if reacq then seq else reacquired_epoch (ext_events ?e ! i))"
    unfolding e1(4) [symmetric] by (simp add: event_of_def obs(2))
  show "reacquired_from_epoch (event_of st' i) = (if reacq then epoch cur else reacquired_from_epoch (ext_events ?e ! i))"
    unfolding e1(5) [symmetric] by (simp add: event_of_def obs(2))
  show "slot_of st' j = slots (ext_calls ?e) ! j" "event_of st' j = ext_events ?e ! j"
    "sequence_of st' j = epoch_sequence ?e ! j" if "j \<noteq> i" for j
    unfolding other [OF that, symmetric] using that by (simp_all add: slot_of_def event_of_def sequence_of_def obs(2))
  show "ext_shape (the (call_ext_slot st'))"
    using e1(1) by (simp add: obs(2) ext_shape_def)
qed

section \<open>The store as a machine\<close>

text \<open>
  Every operation that can change the store. Restored snapshots come from memory of the right shape;
  an observation is allowed while its slot's 64-bit epoch counter has not reached its last value.
\<close>

datatype call_op =
    Op_Ensure bool
  | Op_Observe bool mono_s call_observation call_boundary
  | Op_Crypto mono_s nat crypto_update
  | Op_Retained_Crypto mono_s nat crypto_update
  | Op_Key nat u64 key_source int int int int
  | Op_Media mono_s nat bool mono_s
  | Op_End mono_s nat mono_s end_reason
  | Op_Restore bool calls
  | Op_Context_Restore bool call_context
  | Op_Enrich mono_s nat u64 "ctext option" "ctext option" "ctext option" "ctext option" mono_s
  | Op_Publish bool u64 nat "call_observation option" "ctext option" u64
  | Op_Clear nat
  | Op_Clear_All bool
  | Op_Recent_Restore bool recent
  | Op_Expire u64 u64 u64
  | Op_Tx_Restore recent_transaction

fun call_step :: "reacquire_hook option \<Rightarrow> call_op \<Rightarrow> call_host \<Rightarrow> call_host" where
  "call_step hook (Op_Ensure alloc) st = fst (call_state_ensure alloc st)"
| "call_step hook (Op_Observe alloc now ob boundary) st = fst (call_state_observe alloc now hook ob boundary st)"
| "call_step hook (Op_Crypto now slot u) st = fst (call_state_update_crypto now slot u st)"
| "call_step hook (Op_Retained_Crypto now slot u) st = fst (call_state_update_retained_crypto now slot u st)"
| "call_step hook (Op_Key slot ep src sid eid av fb) st = fst (call_state_note_key_selection slot ep src sid eid av fb st)"
| "call_step hook (Op_Media now slot act m) st = fst (call_state_update_media now slot act m st)"
| "call_step hook (Op_End now slot m reason) st = fst (call_state_end_ex now slot m reason st)"
| "call_step hook (Op_Restore alloc c) st = fst (call_state_restore_snapshot alloc c st)"
| "call_step hook (Op_Context_Restore alloc cx) st = fst (call_context_restore_snapshot alloc cx st)"
| "call_step hook (Op_Enrich now slot ep a b c d m) st = fst (call_state_enrich_text now slot ep a b c d m st)"
| "call_step hook (Op_Publish alloc clk i ob n m) st = fst (recent_activity_publish alloc clk i ob n m st)"
| "call_step hook (Op_Clear i) st = fst (recent_activity_clear i st)"
| "call_step hook (Op_Clear_All alloc) st = fst (recent_activity_clear_all alloc st)"
| "call_step hook (Op_Recent_Restore alloc r) st = fst (recent_activity_restore_snapshot alloc r st)"
| "call_step hook (Op_Expire clk now ttl) st = fst (recent_activity_expire clk now ttl st)"
| "call_step hook (Op_Tx_Restore tx) st = fst (recent_activity_restore tx st)"

fun call_ok :: "call_op \<Rightarrow> call_host \<Rightarrow> bool" where
  "call_ok (Op_Observe alloc now ob boundary) st =
     (ob_slot ob < CALL_STATE_SLOT_COUNT \<longrightarrow> epoch_sequence (ext_before st) ! ob_slot ob \<noteq> - 1)"
| "call_ok (Op_Restore alloc c) st = (length (slots c) = CALL_STATE_SLOT_COUNT)"
| "call_ok (Op_Context_Restore alloc cx) st = (length (slots (cx_calls cx)) = CALL_STATE_SLOT_COUNT
     \<and> length (cx_events cx) = CALL_STATE_SLOT_COUNT \<and> length (entries (cx_recent cx)) = RECENT_ACTIVITY_COUNT)"
| "call_ok (Op_Recent_Restore alloc r) st = (length (entries r) = RECENT_ACTIVITY_COUNT)"
| "call_ok op st = True"

definition call_boot :: "call_host \<Rightarrow> bool" where
  "call_boot st \<longleftrightarrow> call_ext_slot st = None"

text \<open>One preservation lemma per operation.\<close>

lemma ensure_inv [inv_intros]: "store_inv st \<Longrightarrow> store_inv (fst (call_state_ensure alloc st))"
  by (simp add: call_state_ensure_def get_inv Let_def)

lemma observe_inv [inv_intros]:
  assumes hook: "keeps_store hook" and inv: "store_inv st"
    and ok: "ob_slot ob < CALL_STATE_SLOT_COUNT \<Longrightarrow> epoch_sequence (ext_before st) ! ob_slot ob \<noteq> - 1"
  shows "store_inv (fst (call_state_observe alloc now hook ob boundary st))"
proof (cases "ob_slot ob < CALL_STATE_SLOT_COUNT \<and> (alloc \<or> call_ext_slot st \<noteq> None)")
  case True
  let ?st' = "fst (call_state_observe alloc now hook ob boundary st)" and ?i = "ob_slot ob" and ?e = "ext_before st"
  have i: "?i < 2" using True by (simp add: less_2)
  have room: "alloc \<or> call_ext_slot st \<noteq> None" using True by simp
  note eff = observe_effect [OF hook inv refl i room refl refl refl refl, where now = now and boundary = boundary]
  have e: "ext_inv ?e" using inv by (auto simp: ext_before_def store_inv_def allocate_inv split: option.split)
  have up: "epoch_sequence ?e ! ?i < call_state_next_nonzero (epoch_sequence ?e ! ?i)" using next_nonzero(2) ok True by blast
  have "epoch (slot_of ?st' j) \<le> sequence_of ?st' j \<and> reacquired_epoch (event_of ?st' j) \<le> sequence_of ?st' j" if "j < 2" for j
  proof (cases "j = ?i")
    case True
    have "epoch (slots (ext_calls ?e) ! ?i) \<le> epoch_sequence ?e ! ?i" "reacquired_epoch (ext_events ?e ! ?i) \<le> epoch_sequence ?e ! ?i"
      using e i by (auto simp: ext_inv_def less_2)
    then show ?thesis
      using up unfolding True eff(3,4,5) by (auto simp: seed_reacquired_snapshot_def fresh_snapshot_def)
  next
    case False
    then show ?thesis using e that unfolding eff(7-9) [OF False] by (simp add: ext_inv_def less_2)
  qed
  then show ?thesis using eff(2,10) by (auto simp: store_inv_def ext_inv_def less_2 slot_of_def event_of_def sequence_of_def)
next
  case False
  then show ?thesis
    using inv get_inv [OF inv, of alloc True]
    by (auto simp: call_state_observe_def Let_def ext_get_simps split: option.splits)
qed

lemma crypto_inv: "store_inv st \<Longrightarrow> store_inv (fst (update_crypto_any now slot u r st))"
  by (auto simp: update_crypto_any_def Let_def less_2 not_le split: option.split intro!: store_inv_quiet)

lemma crypto_ops_inv [inv_intros]:
  "store_inv st \<Longrightarrow> store_inv (fst (call_state_update_crypto now slot u st))"
  "store_inv st \<Longrightarrow> store_inv (fst (call_state_update_retained_crypto now slot u st))"
  by (simp_all add: call_state_update_crypto_def call_state_update_retained_crypto_def crypto_inv)

lemma key_inv [inv_intros]: "store_inv st \<Longrightarrow> store_inv (fst (call_state_note_key_selection slot ep src sid eid av fb st))"
  by (auto simp: call_state_note_key_selection_def Let_def less_2 not_le split: option.split intro!: store_inv_quiet)

lemma media_inv [inv_intros]: "store_inv st \<Longrightarrow> store_inv (fst (call_state_update_media now slot act m st))"
  by (auto simp: call_state_update_media_def Let_def less_2 not_le split: option.split intro!: store_inv_quiet)

lemma end_inv [inv_intros]: "store_inv st \<Longrightarrow> store_inv (fst (call_state_end_ex now slot m reason st))"
  by (auto simp: call_state_end_ex_def Let_def less_2 not_le split: option.split intro!: store_inv_quiet)

lemma enrich_inv [inv_intros]: "store_inv st \<Longrightarrow> store_inv (fst (call_state_enrich_text now slot ep a b c d m st))"
  by (auto simp: call_state_enrich_text_def Let_def less_2 not_le split: option.split intro!: store_inv_quiet)

lemma raise_sequence_inv:
  assumes "ext_shape e" "length (slots c) = CALL_STATE_SLOT_COUNT" "ext_calls e = c"
    "\<And>i. i < CALL_STATE_SLOT_COUNT \<Longrightarrow> reacquired_epoch (ext_events e ! i) \<le> epoch_sequence e ! i"
  shows "ext_inv (raise_sequence c e)"
  using assms by (auto simp: ext_inv_def ext_shape_def raise_sequence_def intro: order_trans [OF _ less_imp_le])

lemma restore_inv [inv_intros]:
  assumes "store_inv st" "length (slots c) = CALL_STATE_SLOT_COUNT"
  shows "store_inv (fst (call_state_restore_snapshot alloc c st))"
proof -
  have "ext_inv (raise_sequence c (e\<lparr>ext_calls := c\<rparr>))" if "ext_inv e" for e
    using that assms(2) by (intro raise_sequence_inv) (auto simp: ext_inv_def ext_shape_def)
  then show ?thesis using get_inv [OF assms(1), of alloc True]
    by (auto simp: call_state_restore_snapshot_def Let_def store_inv_def upd_ext_def split: option.splits)
qed

lemma invalidate_simps [simp]:
  "reacquired_epoch (invalidate_event_lifecycle ev) = 0" "reacquired_from_epoch (invalidate_event_lifecycle ev) = 0"
  by (simp_all add: invalidate_event_lifecycle_def)

lemma store_inv_Some: "store_inv (st\<lparr>call_ext_slot := Some e\<rparr>) = ext_inv e"
  by (simp add: store_inv_def)

lemma upd_ext_Some: "call_ext_slot st = Some e \<Longrightarrow> store_inv (upd_ext f st) = ext_inv (f e)"
  by (simp add: upd_ext_def store_inv_Some)

lemma ext_inv_recent: "ext_inv e \<Longrightarrow> length (entries r) = RECENT_ACTIVITY_COUNT \<Longrightarrow> ext_inv (e\<lparr>ext_recent := r\<rparr>)"
  by (simp add: ext_inv_def ext_shape_def)

lemma recent_bump_inv: "ext_inv e \<Longrightarrow> ext_inv (recent_bump e)"
  by (simp add: recent_bump_def ext_inv_def ext_shape_def)

lemma set_entry_inv: "ext_inv e \<Longrightarrow> ext_inv (set_entry i en e)"
  by (simp add: set_entry_def ext_inv_def ext_shape_def)

lemma store_ext:
  assumes "store_inv st"
  shows "call_ext_slot (call_state_ext_get alloc True st) = Some e \<Longrightarrow> ext_inv e" "call_ext_slot st = Some e \<Longrightarrow> ext_inv e"
    "store_inv (call_state_ext_get alloc True st)"
  using assms get_inv [OF assms, of alloc True] by (simp_all add: store_inv_def)

lemmas recent_rules = store_ext recent_bump_inv set_entry_inv ext_inv_recent upd_ext_Some store_inv_Some

lemma recent_inv [inv_intros]:
  "store_inv st \<Longrightarrow> store_inv (fst (recent_activity_publish alloc clk i ob n m st))"
  "store_inv st \<Longrightarrow> store_inv (fst (recent_activity_clear i st))"
  "store_inv st \<Longrightarrow> store_inv (fst (recent_activity_clear_all alloc st))"
  "store_inv st \<Longrightarrow> length (entries r) = RECENT_ACTIVITY_COUNT \<Longrightarrow> store_inv (fst (recent_activity_restore_snapshot alloc r st))"
  "store_inv st \<Longrightarrow> store_inv (fst (recent_activity_expire clk now ttl st))"
  "store_inv st \<Longrightarrow> store_inv (fst (recent_activity_restore tx st))"
proof -
  show "store_inv st \<Longrightarrow> store_inv (fst (recent_activity_publish alloc clk i ob n m st))"
    unfolding recent_activity_publish_def Let_def by (simp add: recent_rules split: option.split)
  show "store_inv st \<Longrightarrow> store_inv (fst (recent_activity_clear i st))"
    unfolding recent_activity_clear_def by (simp add: recent_rules split: option.split)
  show "store_inv st \<Longrightarrow> store_inv (fst (recent_activity_clear_all alloc st))"
    unfolding recent_activity_clear_all_def Let_def by (simp add: recent_rules split: option.split)
  show "store_inv st \<Longrightarrow> length (entries r) = RECENT_ACTIVITY_COUNT \<Longrightarrow> store_inv (fst (recent_activity_restore_snapshot alloc r st))"
    unfolding recent_activity_restore_snapshot_def Let_def by (simp add: recent_rules split: option.split)
  show "store_inv st \<Longrightarrow> store_inv (fst (recent_activity_restore tx st))"
    unfolding recent_activity_restore_def by (simp add: recent_rules split: option.split)
  have "ext_inv e \<Longrightarrow> ext_inv (if b then recent_bump (e\<lparr>ext_recent := (ext_recent e)\<lparr>entries := map f (entries (ext_recent e))\<rparr>\<rparr>)
       else e\<lparr>ext_recent := (ext_recent e)\<lparr>entries := map f (entries (ext_recent e))\<rparr>\<rparr>)" for e b f
    using recent_bump_inv ext_inv_recent [of e] by (simp add: ext_inv_def ext_shape_def)
  then show "store_inv st \<Longrightarrow> store_inv (fst (recent_activity_expire clk now ttl st))"
    unfolding recent_activity_expire_def Let_def
    by (cases "call_ext_slot st") (simp_all add: store_inv_Some store_ext(2) split del: if_split)
qed

lemma context_restore_inv [inv_intros]:
  assumes "store_inv st" "call_ok (Op_Context_Restore alloc cx) st"
  shows "store_inv (fst (call_context_restore_snapshot alloc cx st))"
proof (cases "call_ext_slot (call_state_ext_get alloc True st)")
  case None
  then show ?thesis using store_ext(3) [OF assms(1)] by (simp add: call_context_restore_snapshot_def)
next
  case (Some e)
  have "ext_shape e" using store_ext(1) [OF assms(1) Some] by (simp add: ext_inv_def)
  then show ?thesis
    using assms(2) Some unfolding call_context_restore_snapshot_def Let_def
    by (simp add: upd_ext_Some ext_inv_def ext_shape_def raise_sequence_def not_less)
qed

lemma call_step_inv:
  assumes "keeps_store hook" "store_inv st" "call_ok op st"
  shows "store_inv (call_step hook op st)"
  using assms by (cases op) (auto intro: inv_intros simp del: call_ok.simps(3) simp: less_2)

text \<open>The hook of the machine does not touch the modelled state: protocol fields are outside the store.\<close>

interpretation store: invariant_machine call_boot call_ok "call_step None" store_inv
proof
  show "call_boot st \<Longrightarrow> store_inv st" for st by (simp add: call_boot_def store_inv_def)
  show "store_inv st \<Longrightarrow> call_ok op st \<Longrightarrow> store_inv (call_step None op st)" for st op
    by (rule call_step_inv) (simp_all add: keeps_store_def)
qed

section \<open>Ends\<close>

text \<open>How one more end changes the recorded reason of an ended epoch.\<close>

definition tighten :: "end_reason \<Rightarrow> end_reason \<Rightarrow> end_reason" where
  "tighten old new =
     (if end_reason_is_recoverable old \<and> (new = CALL_END_EXPLICIT \<or> new = CALL_END_TERMINATOR) then new
      else if old = CALL_END_UNVERIFIED_TERMINATOR \<and> new = CALL_END_UNVERIFIED_TERMINATOR then CALL_END_TERMINATOR
      else old)"

definition ended_snapshot :: "mono_s \<Rightarrow> end_reason \<Rightarrow> call_snapshot \<Rightarrow> call_snapshot" where
  "ended_snapshot t reason s =
     (if phase s = CALL_PHASE_ACTIVE
      then bump_snapshot (s\<lparr>phase := CALL_PHASE_ENDED, call_end_reason := reason, media_active := False,
             audio_permitted := False, ended_m := t, updated_m := t\<rparr>)
      else if phase s = CALL_PHASE_ENDED \<and> tighten (call_end_reason s) reason \<noteq> call_end_reason s
      then bump_snapshot (s\<lparr>call_end_reason := tighten (call_end_reason s) reason\<rparr>)
      else s)"

lemma end_effect:
  fixes now m :: mono_s and reason :: end_reason
  assumes "call_ext_slot st = Some e" "ext_shape e" "i < 2" "epoch (slot_of st i) \<noteq> 0"
  defines "st' \<equiv> fst (call_state_end_ex now i m reason st)"
  shows "slot_of st' i = ended_snapshot (call_state_observed_m now m) reason (slot_of st i)"
    "\<exists>e'. call_ext_slot st' = Some e' \<and> ext_shape e' \<and> ext_events e' = ext_events e \<and> epoch_sequence e' = epoch_sequence e"
    "event_crc_invalid st' = event_crc_invalid st"
    "j \<noteq> i \<Longrightarrow> slot_of st' j = slot_of st j"
proof -
  have s: "slot_of st i = slots (ext_calls e) ! i" by (simp add: slot_of_def assms(1))
  have i: "\<not> CALL_STATE_SLOT_COUNT \<le> i" using assms(3) by (simp add: CALL_STATE_SLOT_COUNT_def)
  note l = ext_shapeD [OF assms(2)]
  show "slot_of st' i = ended_snapshot (call_state_observed_m now m) reason (slot_of st i)"
    using assms(3,4) l unfolding s st'_def call_state_end_ex_def ended_snapshot_def tighten_def
    by (cases reason; cases "call_end_reason (slots (ext_calls e) ! i)"; cases "phase (slots (ext_calls e) ! i)")
      (simp_all add: i assms(1) s slot_of_def upd_ext_def end_reason_is_recoverable_def bump_snapshot_def)
  show "\<exists>e'. call_ext_slot st' = Some e' \<and> ext_shape e' \<and> ext_events e' = ext_events e \<and> epoch_sequence e' = epoch_sequence e"
    using assms(2) unfolding st'_def call_state_end_ex_def by (simp add: i assms(1) Let_def upd_ext_def ext_shape_def)
  show "event_crc_invalid st' = event_crc_invalid st"
    unfolding st'_def call_state_end_ex_def by (simp add: i assms(1) Let_def upd_ext_def)
  show "j \<noteq> i \<Longrightarrow> slot_of st' j = slot_of st j"
    unfolding st'_def call_state_end_ex_def by (simp add: i assms(1) Let_def upd_ext_def slot_of_def)
qed

lemma ended_snapshot_simps:
  "epoch (ended_snapshot t r s) = epoch s"
  "phase s = CALL_PHASE_ACTIVE \<Longrightarrow> phase (ended_snapshot t r s) = CALL_PHASE_ENDED
     \<and> ended_m (ended_snapshot t r s) = t \<and> call_end_reason (ended_snapshot t r s) = r"
  "phase s = CALL_PHASE_ENDED \<Longrightarrow> phase (ended_snapshot t r s) = CALL_PHASE_ENDED
     \<and> ended_m (ended_snapshot t r s) = ended_m s \<and> call_end_reason (ended_snapshot t r s) = tighten (call_end_reason s) r"
  by (simp_all add: ended_snapshot_def)

text \<open>Repeated ends of one slot.\<close>

definition end_all :: "nat \<Rightarrow> (mono_s \<times> mono_s \<times> end_reason) list \<Rightarrow> call_host \<Rightarrow> call_host" where
  "end_all i ends st = fold (\<lambda>(now, m, reason) st. fst (call_state_end_ex now i m reason st)) ends st"

lemma end_all_ended:
  assumes "call_ext_slot st = Some e" "ext_shape e" "i < 2" "epoch (slot_of st i) \<noteq> 0" "phase (slot_of st i) = CALL_PHASE_ENDED"
  shows "phase (slot_of (end_all i ends st) i) = CALL_PHASE_ENDED \<and> ended_m (slot_of (end_all i ends st) i) = ended_m (slot_of st i)
    \<and> epoch (slot_of (end_all i ends st) i) = epoch (slot_of st i)
    \<and> call_end_reason (slot_of (end_all i ends st) i) = foldl tighten (call_end_reason (slot_of st i)) (map (snd \<circ> snd) ends)"
  using assms
proof (induction ends arbitrary: st e)
  case Nil
  then show ?case by (simp add: end_all_def)
next
  case (Cons x ends)
  obtain now m r where x: "x = (now, m, r)" by (cases x) auto
  let ?st = "fst (call_state_end_ex now i m r st)"
  note eff = end_effect [OF Cons.prems(1-4), where now = now and m = m and reason = r]
  obtain e' where e': "call_ext_slot ?st = Some e'" "ext_shape e'" using eff(2) by blast
  have "end_all i (x # ends) st = end_all i ends ?st" by (simp add: end_all_def x)
  then show ?case
    using Cons.IH [OF e' Cons.prems(3)] Cons.prems(4,5) eff(1) ended_snapshot_simps(1,3) by (simp add: x)
qed

text \<open>However often an active call is ended, it is ended once: the end time is that of the first end,
  and the recorded reason only tightens. A recoverable end becomes final by a verified terminator, a
  teardown or a second unverified terminator; a final one never changes again.\<close>

theorem first_end_stamps_and_evidence_tightens:
  assumes "store.reachable st" "i < 2" "call_ext_slot st \<noteq> None" "epoch (slot_of st i) \<noteq> 0"
    "phase (slot_of st i) = CALL_PHASE_ACTIVE"
  shows "phase (slot_of (end_all i ((now, m, r) # ends) st) i) = CALL_PHASE_ENDED
    \<and> ended_m (slot_of (end_all i ((now, m, r) # ends) st) i) = call_state_observed_m now m
    \<and> call_end_reason (slot_of (end_all i ((now, m, r) # ends) st) i) = foldl tighten r (map (snd \<circ> snd) ends)"
proof -
  obtain e where e: "call_ext_slot st = Some e" using assms(3) by blast
  then have sh: "ext_shape e" using store.reachable_inv [OF assms(1)] by (simp add: store_inv_def ext_inv_def)
  let ?st = "fst (call_state_end_ex now i m r st)"
  note eff = end_effect [OF e sh assms(2,4), where now = now and m = m and reason = r]
  obtain e' where e': "call_ext_slot ?st = Some e'" "ext_shape e'" using eff(2) by blast
  have "end_all i ((now, m, r) # ends) st = end_all i ends ?st" by (simp add: end_all_def)
  then show ?thesis
    using end_all_ended [OF e' assms(2), of ends] ended_snapshot_simps(1,2) assms(4,5) by (simp_all add: eff(1))
qed

section \<open>Identity\<close>

text \<open>Everything the old snapshot knew about the call's identity, the new one knows the same.\<close>

definition text_kept :: "ctext \<Rightarrow> ctext \<Rightarrow> bool" where
  "text_kept old new \<longleftrightarrow> old = [] \<or> new = old"

definition identity_kept :: "call_snapshot \<Rightarrow> call_snapshot \<Rightarrow> bool" where
  "identity_kept old new \<longleftrightarrow>
     (effective_target_snapshot old = 0 \<or> effective_target_snapshot new = effective_target_snapshot old)
     \<and> (ota_source_id old = 0 \<or> ota_source_id new = ota_source_id old)
     \<and> (protocol old = DSD_SYNC_NONE \<or> call_state_protocol_family (protocol new) = call_state_protocol_family (protocol old))
     \<and> text_kept (source_text (texts old)) (source_text (texts new)) \<and> text_kept (target_text (texts old)) (target_text (texts new))
     \<and> text_kept (route0_text (texts old)) (route0_text (texts new)) \<and> text_kept (route1_text (texts old)) (route1_text (texts new))"

text \<open>What the old snapshot did not know about the identity, the new one takes from the observation.\<close>

definition text_filled :: "ctext \<Rightarrow> ctext \<Rightarrow> ctext \<Rightarrow> bool" where
  "text_filled incoming old new \<longleftrightarrow> (old = [] \<longrightarrow> new = call_state_normalize_text (Some incoming))"

definition identity_filled :: "call_observation \<Rightarrow> call_snapshot \<Rightarrow> call_snapshot \<Rightarrow> bool" where
  "identity_filled ob old new \<longleftrightarrow>
     (ota_target_id old = 0 \<longrightarrow> ota_target_id new = ob_ota_target_id ob)
     \<and> (policy_target_id old = 0 \<longrightarrow> policy_target_id new = ob_policy_target_id ob)
     \<and> (ota_source_id old = 0 \<longrightarrow> ota_source_id new = ob_ota_source_id ob)
     \<and> (protocol old = DSD_SYNC_NONE \<longrightarrow> protocol new = ob_protocol ob)
     \<and> (kind old = CALL_KIND_UNKNOWN \<longrightarrow> kind new = ob_kind ob)
     \<and> (kind old = CALL_KIND_VOICE \<and> ob_kind ob \<noteq> CALL_KIND_UNKNOWN \<longrightarrow> kind new = ob_kind ob)
     \<and> text_filled (source_text (ob_texts ob)) (source_text (texts old)) (source_text (texts new))
     \<and> text_filled (target_text (ob_texts ob)) (target_text (texts old)) (target_text (texts new))
     \<and> text_filled (route0_text (ob_texts ob)) (route0_text (texts old)) (route0_text (texts new))
     \<and> text_filled (route1_text (ob_texts ob)) (route1_text (texts old)) (route1_text (texts new))"

lemma text_kept_apply: "\<not> known_text_changed old inc \<Longrightarrow> text_kept old (call_state_apply_text (Some inc) old)"
  by (auto simp: text_kept_def known_text_changed_def call_state_apply_text_def Let_def)

lemma not_changesD:
  assumes "\<not> observation_changes_identity s ob"
  shows "protocol s = DSD_SYNC_NONE \<or> ob_protocol ob = DSD_SYNC_NONE
      \<or> call_state_protocol_family (protocol s) = call_state_protocol_family (ob_protocol ob)"
    "effective_target_snapshot s = 0 \<or> effective_target_observation ob = 0
      \<or> effective_target_snapshot s = effective_target_observation ob"
    "\<not> call_state_kind_changed (kind s) (ob_kind ob)"
    "ota_source_id s = 0 \<or> ob_ota_source_id ob = 0 \<or> ota_source_id s = ob_ota_source_id ob"
    "\<not> known_text_changed (source_text (texts s)) (source_text (ob_texts ob))"
    "\<not> known_text_changed (target_text (texts s)) (target_text (ob_texts ob))"
    "\<not> known_text_changed (route0_text (texts s)) (route0_text (ob_texts ob))"
    "\<not> known_text_changed (route1_text (texts s)) (route1_text (ob_texts ob))"
  using assms by (auto simp: observation_changes_identity_def Let_def split: if_splits)

lemma apply_observation_identity:
  "protocol (call_state_apply_observation ob s) = (if ob_protocol ob \<noteq> DSD_SYNC_NONE then ob_protocol ob else protocol s)"
  "ota_target_id (call_state_apply_observation ob s) = (if ob_ota_target_id ob \<noteq> 0 then ob_ota_target_id ob else ota_target_id s)"
  "policy_target_id (call_state_apply_observation ob s) =
     (if ob_policy_target_id ob \<noteq> 0 then ob_policy_target_id ob else policy_target_id s)"
  "ota_source_id (call_state_apply_observation ob s) = (if ob_ota_source_id ob \<noteq> 0 then ob_ota_source_id ob else ota_source_id s)"
  "texts (call_state_apply_observation ob s) = apply_texts (Some (source_text (ob_texts ob))) (Some (target_text (ob_texts ob)))
     (Some (route0_text (ob_texts ob))) (Some (route1_text (ob_texts ob))) (texts s)"
  by (simp_all add: call_state_apply_observation_def Let_def)

lemma apply_keeps_identity:
  assumes "\<not> observation_changes_identity s ob"
  shows "identity_kept s (call_state_apply_observation ob s)"
proof -
  note d = not_changesD [OF assms]
  have "effective_target_snapshot s = 0
      \<or> effective_target_snapshot (call_state_apply_observation ob s) = effective_target_snapshot s"
    using d(2) by (auto simp: effective_target_snapshot_def effective_target_observation_def apply_observation_identity split: if_splits)
  moreover have "ota_source_id s = 0 \<or> ota_source_id (call_state_apply_observation ob s) = ota_source_id s"
    using d(4) by (auto simp: apply_observation_identity)
  moreover have "protocol s = DSD_SYNC_NONE
      \<or> call_state_protocol_family (protocol (call_state_apply_observation ob s)) = call_state_protocol_family (protocol s)"
    using d(1) by (auto simp: apply_observation_identity)
  ultimately show ?thesis
    using d(5-8) by (simp add: identity_kept_def apply_observation_identity apply_texts_def text_kept_apply)
qed

lemma identity_kept_same:
  assumes "protocol a = protocol b" "ota_target_id a = ota_target_id b" "policy_target_id a = policy_target_id b"
    "ota_source_id a = ota_source_id b" "texts a = texts b"
  shows "identity_kept a c = identity_kept b c" "identity_kept c a = identity_kept c b"
  using assms by (simp_all add: identity_kept_def effective_target_snapshot_def)

lemma changes_identity_same:
  assumes "protocol a = protocol b" "ota_target_id a = ota_target_id b" "policy_target_id a = policy_target_id b"
    "ota_source_id a = ota_source_id b" "texts a = texts b" "kind a = kind b"
  shows "observation_changes_identity a ob = observation_changes_identity b ob"
  using assms by (simp add: observation_changes_identity_def effective_target_snapshot_def)

lemma observed_keeps_identity:
  assumes "\<not> observation_changes_identity s ob"
  shows "identity_kept s (observed_snapshot ob t crc s)"
proof -
  let ?p = "s\<lparr>phase := CALL_PHASE_ACTIVE\<rparr>"
  have "identity_kept ?p (call_state_apply_observation ob ?p)"
    using assms by (intro apply_keeps_identity) (simp add: changes_identity_same [of ?p s])
  then have "identity_kept s (call_state_apply_observation ob ?p)" by (simp add: identity_kept_same(1) [of ?p s])
  moreover have "identity_kept s (observed_snapshot ob t crc s) = identity_kept s (call_state_apply_observation ob ?p)"
    by (rule identity_kept_same(2)) (simp_all add: observed_snapshot_def Let_def)
  ultimately show ?thesis by simp
qed

lemma begins_if_changed:
  "\<not> observation_begins_epoch s ob boundary \<Longrightarrow> phase s = CALL_PHASE_ACTIVE \<and> \<not> observation_changes_identity s ob"
  by (auto simp: observation_begins_epoch_def split: if_splits)

lemma text_filled_apply: "text_filled inc old (call_state_apply_text (Some inc) old)"
  by (simp add: text_filled_def call_state_apply_text_def Let_def)

lemma observed_fills_identity: "identity_filled ob s (observed_snapshot ob t crc s)"
  unfolding identity_filled_def observed_snapshot_def
  by (auto simp: Let_def bump_snapshot_def apply_observation_identity apply_texts_def text_filled_apply)
    (simp_all add: call_state_apply_observation_def Let_def)

section \<open>Observations\<close>

text \<open>C5: An observation that does not open an epoch (the store returns 0) keeps the slot's epoch number and
  everything it knew about the call: target, source, protocol family and texts are never replaced, and
  those that were unknown, and a call kind that was unknown or only a generic voice call, are taken from
  the observation. The other slot, its bookkeeping and its counter do not move.\<close>

theorem continuation_never_replaces_identity:
  assumes "store.reachable st" "keeps_store hook" "ob_slot ob < 2"
    "snd (call_state_observe alloc now hook ob boundary st) = 0"
  shows "let st' = fst (call_state_observe alloc now hook ob boundary st); i = ob_slot ob in
    epoch (slot_of st' i) = epoch (slot_of st i) \<and> identity_kept (slot_of st i) (slot_of st' i)
    \<and> identity_filled ob (slot_of st i) (slot_of st' i)
    \<and> slot_of st' (1 - i) = slot_of st (1 - i) \<and> event_of st' (1 - i) = event_of st (1 - i)
    \<and> sequence_of st' (1 - i) = sequence_of st (1 - i)"
proof -
  let ?st' = "fst (call_state_observe alloc now hook ob boundary st)" and ?i = "ob_slot ob"
  have inv: "store_inv st" by (rule store.reachable_inv [OF assms(1)])
  have "phase (slots (ext_calls call_state_ext_allocate) ! ?i) = CALL_PHASE_IDLE"
    using assms(3) by (auto simp: call_state_ext_allocate_def CALL_STATE_SLOT_COUNT_def)
  then have idle: "observation_begins_epoch (slots (ext_calls call_state_ext_allocate) ! ?i) ob boundary"
    by (simp add: observation_begins_epoch_def)
  have "call_ext_slot st \<noteq> None"
  proof
    assume none: "call_ext_slot st = None"
    show False
    proof (cases alloc)
      case True
      then show False
        using observe_effect(1) [OF assms(2) inv refl assms(3) _ refl refl refl refl, of alloc now boundary] none idle assms(4)
        by (simp add: ext_before_def)
    next
      case False
      then show False using assms(3,4) none
        by (simp add: call_state_observe_def Let_def ext_get_simps CALL_STATE_SLOT_COUNT_def)
    qed
  qed
  then obtain e where e: "call_ext_slot st = Some e" by blast
  then have room: "alloc \<or> call_ext_slot st \<noteq> None" and b: "ext_before st = e" by (simp_all add: ext_before_def)
  note eff = observe_effect [OF assms(2) inv refl assms(3) room refl refl refl refl, where now = now and boundary = boundary, unfolded b]
  have nb: "\<not> observation_begins_epoch (slots (ext_calls e) ! ?i) ob boundary" using eff(1) assms(4) by simp
  have s: "slot_of st j = slots (ext_calls e) ! j" "event_of st j = ext_events e ! j" "sequence_of st j = epoch_sequence e ! j" for j
    by (simp_all add: slot_of_def event_of_def sequence_of_def e)
  have o: "1 - ?i \<noteq> ?i" using assms(3) by arith
  have "slot_of ?st' ?i = observed_snapshot ob (call_state_observed_m now (ob_observed_m ob)) (event_crc_invalid st ! ?i \<noteq> 0) (slot_of st ?i)"
    using eff(3) nb by (simp add: s)
  then show ?thesis
    using observed_keeps_identity observed_fills_identity begins_if_changed [OF nb] eff(7-9) [OF o] by (simp add: Let_def s)
qed

text \<open>After a final end (a teardown or a verified terminator, also one that arrives after a fade) the next
  observation of the slot opens a new epoch that inherits nothing from the ended call, and the
  reacquisition mark stays as it was: a second transmission is never folded into the first.\<close>

theorem final_end_inherits_nothing:
  assumes "store.reachable st" "keeps_store hook" "call_ext_slot st \<noteq> None" "ob_slot ob < 2"
    "epoch (slot_of st (ob_slot ob)) \<noteq> 0" "phase (slot_of st (ob_slot ob)) \<noteq> CALL_PHASE_IDLE"
    "reason = CALL_END_EXPLICIT \<or> reason = CALL_END_TERMINATOR"
  shows "let i = ob_slot ob; ended = fst (call_state_end_ex t i m reason st);
             st' = fst (call_state_observe alloc now hook ob boundary ended) in
    snd (call_state_observe alloc now hook ob boundary ended) = 1
    \<and> slot_of st' i = observed_snapshot ob (call_state_observed_m now (ob_observed_m ob)) (event_crc_invalid st ! i \<noteq> 0)
        (fresh_snapshot i (call_state_next_nonzero (sequence_of st i)) (call_state_observed_m now (ob_observed_m ob)))
    \<and> reacquired_epoch (event_of st' i) = reacquired_epoch (event_of st i)"
proof -
  let ?i = "ob_slot ob"
  let ?en = "fst (call_state_end_ex t ?i m reason st)"
  let ?st' = "fst (call_state_observe alloc now hook ob boundary ?en)"
  obtain e where e: "call_ext_slot st = Some e" using assms(3) by blast
  have inv: "store_inv st" by (rule store.reachable_inv [OF assms(1)])
  then have sh: "ext_shape e" using e by (simp add: store_inv_def ext_inv_def)
  note ee = end_effect [OF e sh assms(4,5), where now = t and m = m and reason = reason]
  obtain e' where e': "call_ext_slot ?en = Some e'" "ext_shape e'" "ext_events e' = ext_events e" "epoch_sequence e' = epoch_sequence e"
    using ee(2) by blast
  have b: "ext_before ?en = e'" by (simp add: ext_before_def e')
  have room: "alloc \<or> call_ext_slot ?en \<noteq> None" by (simp add: e')
  have cur: "slots (ext_calls e') ! ?i = ended_snapshot (call_state_observed_m t m) reason (slot_of st ?i)"
    using ee(1) by (simp add: slot_of_def e')
  have ph: "phase (slots (ext_calls e') ! ?i) = CALL_PHASE_ENDED" "\<not> end_reason_is_recoverable (call_end_reason (slots (ext_calls e') ! ?i))"
    unfolding cur using assms(6,7) ended_snapshot_simps(2,3) [of "slot_of st ?i"]
    by (cases "phase (slot_of st ?i)"; auto simp: tighten_def end_reason_is_recoverable_def)+
  then have d: "observation_begins_epoch (slots (ext_calls e') ! ?i) ob boundary"
    "\<not> reacquires_ended_epoch (slots (ext_calls e') ! ?i) ob (call_state_observed_m now (ob_observed_m ob))"
    by (simp_all add: observation_begins_epoch_def reacquires_ended_epoch_def)
  note eff = observe_effect [OF assms(2) end_inv [OF inv] refl assms(4) room refl refl refl refl,
      where now = now and boundary = boundary, unfolded b]
  show ?thesis
    using eff(1,3,5) d by (simp add: Let_def e'(3,4) ee(3) sequence_of_def event_of_def e)
qed

lemma seed_same:
  "protocol (seed_reacquired_snapshot p s) = protocol p" "ota_target_id (seed_reacquired_snapshot p s) = ota_target_id p"
  "policy_target_id (seed_reacquired_snapshot p s) = policy_target_id p" "kind (seed_reacquired_snapshot p s) = kind p"
  "ota_source_id (seed_reacquired_snapshot p s) = ota_source_id p" "texts (seed_reacquired_snapshot p s) = texts p"
  "epoch (seed_reacquired_snapshot p s) = epoch s" "media_started_m (seed_reacquired_snapshot p s) = media_started_m p"
  "started_m (seed_reacquired_snapshot p s) = started_m s"
  by (simp_all add: seed_reacquired_snapshot_def)

lemma seeded_keeps_identity:
  assumes "\<not> observation_changes_identity p ob"
  shows "identity_kept p (observed_snapshot ob t crc ((seed_reacquired_snapshot p f)\<lparr>crc_invalid := c\<rparr>))"
proof -
  let ?q = "(seed_reacquired_snapshot p f)\<lparr>crc_invalid := c\<rparr>"
  have "\<not> observation_changes_identity ?q ob"
    using assms by (simp add: changes_identity_same [of ?q p] seed_same)
  then have "identity_kept ?q (observed_snapshot ob t crc ?q)" by (rule observed_keeps_identity)
  then show ?thesis by (simp add: identity_kept_same(1) [of ?q p] seed_same)
qed

lemma ended_same:
  "protocol (ended_snapshot t r s) = protocol s" "ota_target_id (ended_snapshot t r s) = ota_target_id s"
  "policy_target_id (ended_snapshot t r s) = policy_target_id s" "kind (ended_snapshot t r s) = kind s"
  "ota_source_id (ended_snapshot t r s) = ota_source_id s" "texts (ended_snapshot t r s) = texts s"
  "media_started_m (ended_snapshot t r s) = media_started_m s"
  by (simp_all add: ended_snapshot_def bump_snapshot_def)

lemma has_identity_same:
  assumes "ota_target_id a = ota_target_id b" "policy_target_id a = policy_target_id b" "ota_source_id a = ota_source_id b"
    "texts a = texts b"
  shows "snapshot_has_identity (Some a) = snapshot_has_identity (Some b)"
  using assms by (simp add: snapshot_has_identity_def effective_target_snapshot_def)

text \<open>C2: A fade is healed: when an active, named call ends recoverably and an observation that does not
  contradict it arrives within the reason's window (after an unverified terminator only one without
  identity), the store opens a new epoch (it returns 1, and the new epoch number is the next of the
  slot's counter, above the ended one's) that is marked as reacquiring the ended one, keeps everything
  known of its identity and its media start, and starts at the observation. The 64-bit counter has not
  reached its last value.\<close>

theorem recoverable_end_is_healed:
  assumes "store.reachable st" "keeps_store hook" "call_ext_slot st \<noteq> None" "ob_slot ob < 2"
    and "phase (slot_of st (ob_slot ob)) = CALL_PHASE_ACTIVE" "epoch (slot_of st (ob_slot ob)) \<noteq> 0"
    and "snapshot_has_identity (Some (slot_of st (ob_slot ob)))"
    and "\<not> observation_changes_identity (slot_of st (ob_slot ob)) ob"
    and "reason = CALL_END_SYNC_LOSS \<or> reason = CALL_END_UNVERIFIED_TERMINATOR \<and> \<not> observation_has_identity ob"
    and "0 < call_state_observed_m t m" "call_state_observed_m t m \<le> call_state_observed_m now (ob_observed_m ob)"
    and "call_state_observed_m now (ob_observed_m ob) - call_state_observed_m t m \<le> end_reason_reacquire_gap_s reason"
    and "sequence_of st (ob_slot ob) \<noteq> - 1"
  shows "let i = ob_slot ob; ended = fst (call_state_end_ex t i m reason st);
             st' = fst (call_state_observe alloc now hook ob boundary ended) in
    snd (call_state_observe alloc now hook ob boundary ended) = 1
    \<and> epoch (slot_of st i) < epoch (slot_of st' i) \<and> epoch (slot_of st' i) = call_state_next_nonzero (sequence_of st i)
    \<and> reacquired_epoch (event_of st' i) = epoch (slot_of st' i) \<and> reacquired_from_epoch (event_of st' i) = epoch (slot_of st i)
    \<and> identity_kept (slot_of st i) (slot_of st' i) \<and> media_started_m (slot_of st' i) = media_started_m (slot_of st i)
    \<and> started_m (slot_of st' i) = call_state_observed_m now (ob_observed_m ob)"
proof -
  let ?i = "ob_slot ob"
  let ?s = "slot_of st ?i" and ?now = "call_state_observed_m now (ob_observed_m ob)"
  let ?en = "fst (call_state_end_ex t ?i m reason st)"
  let ?p = "ended_snapshot (call_state_observed_m t m) reason ?s"
  obtain e where e: "call_ext_slot st = Some e" using assms(3) by blast
  have inv: "store_inv st" by (rule store.reachable_inv [OF assms(1)])
  then have sh: "ext_shape e" using e by (simp add: store_inv_def ext_inv_def)
  note ee = end_effect [OF e sh assms(4,6), where now = t and m = m and reason = reason]
  obtain e' where e': "call_ext_slot ?en = Some e'" "ext_shape e'" "epoch_sequence e' = epoch_sequence e" using ee(2) by blast
  have b: "ext_before ?en = e'" by (simp add: ext_before_def e')
  have seq: "epoch_sequence e' ! ?i = sequence_of st ?i" by (simp add: e'(3) sequence_of_def e)
  have "epoch ?s \<le> sequence_of st ?i"
    using inv assms(4) e by (auto simp: store_inv_def ext_inv_def slot_of_def sequence_of_def CALL_STATE_SLOT_COUNT_def)
  then have new: "epoch ?s < call_state_next_nonzero (sequence_of st ?i)" using next_nonzero(2) [OF assms(13)] by simp
  have cur: "slots (ext_calls e') ! ?i = ?p" using ee(1) by (simp add: slot_of_def e')
  have ph: "phase ?p = CALL_PHASE_ENDED" "ended_m ?p = call_state_observed_m t m" "call_end_reason ?p = reason"
    using ended_snapshot_simps(2) [OF assms(5)] by simp_all
  have nc: "\<not> observation_changes_identity ?p ob"
    using assms(8) by (simp add: changes_identity_same [of ?p ?s] ended_same)
  have hid: "snapshot_has_identity (Some ?p)"
    using assms(7) has_identity_same [of ?p ?s] by (simp add: ended_same)
  have r: "observation_begins_epoch ?p ob boundary" "reacquires_ended_epoch ?p ob ?now"
    unfolding observation_begins_epoch_def reacquires_ended_epoch_def ph Let_def end_reason_is_recoverable_def
    using hid nc assms(9-12) by (auto simp only: if_False if_True simp_thms end_reason.distinct call_phase.distinct)
  have room: "alloc \<or> call_ext_slot ?en \<noteq> None" by (simp add: e')
  note eff = observe_effect [OF assms(2) end_inv [OF inv] refl assms(4) room refl refl refl refl,
      where now = now and boundary = boundary, unfolded b cur]
  have k: "identity_kept ?s x = identity_kept ?p x" for x
    by (rule identity_kept_same(1)) (simp_all add: ended_same)
  show ?thesis
    using eff(1,3,5,6) r new seeded_keeps_identity [OF nc]
    by (simp add: Let_def k seq seed_same fresh_snapshot_def ended_snapshot_simps(1) ended_same)
qed

text \<open>C4: The reacquisition mark the event layer compares is exact: after any history of operations in which
  the epoch counter has not wrapped, an observation that opens an epoch leaves the mark equal to the
  new epoch number if and only if it reacquired the ended epoch, so that a mark left behind by an
  earlier reacquisition never matches a later call.\<close>

theorem reacquisition_mark_is_exact:
  assumes "store.reachable st" "keeps_store hook" "ob_slot ob < 2" "call_ok (Op_Observe alloc now ob boundary) st"
    "snd (call_state_observe alloc now hook ob boundary st) = 1"
  shows "let st' = fst (call_state_observe alloc now hook ob boundary st); i = ob_slot ob in
    (reacquired_epoch (event_of st' i) = epoch (slot_of st' i)) =
      reacquires_ended_epoch (slots (ext_calls (ext_before st)) ! i) ob (call_state_observed_m now (ob_observed_m ob))"
proof -
  let ?i = "ob_slot ob" and ?e = "ext_before st"
  have inv: "store_inv st" by (rule store.reachable_inv [OF assms(1)])
  have room: "alloc \<or> call_ext_slot st \<noteq> None"
    using assms(3,5) by (auto simp: call_state_observe_def Let_def ext_get_simps CALL_STATE_SLOT_COUNT_def split: option.splits if_splits)
  note eff = observe_effect [OF assms(2) inv refl assms(3) room refl refl refl refl, where now = now and boundary = boundary]
  have b: "observation_begins_epoch (slots (ext_calls ?e) ! ?i) ob boundary" using eff(1) assms(5) by simp
  have "ext_inv ?e" using inv by (auto simp: ext_before_def store_inv_def allocate_inv split: option.split)
  then have "reacquired_epoch (ext_events ?e ! ?i) \<le> epoch_sequence ?e ! ?i" using assms(3) by (simp add: ext_inv_def less_2)
  also have "epoch_sequence ?e ! ?i < call_state_next_nonzero (epoch_sequence ?e ! ?i)"
    using assms(3,4) by (intro next_nonzero(2)) (simp add: less_2)
  finally have "reacquired_epoch (ext_events ?e ! ?i) \<noteq> call_state_next_nonzero (epoch_sequence ?e ! ?i)" by simp
  then show ?thesis using eff(3,5) b by (auto simp: Let_def seed_same fresh_snapshot_def)
qed

text \<open>Restoring a saved call context is a hop, never a fade: whatever context is restored, the next
  observation of either slot is not a reacquisition, the reacquisition marks are clear, no end alert or
  kept-back verdict is pending, and no epoch counter has gone back.\<close>

theorem context_restore_is_a_hop:
  assumes "store.reachable st" "keeps_store hook" "call_ok (Op_Context_Restore alloc cx) st" "ob_slot ob < 2"
    "snd (call_context_restore_snapshot alloc cx st) = 1"
  shows "let st1 = fst (call_context_restore_snapshot alloc cx st); i = ob_slot ob;
             st2 = fst (call_state_observe alloc2 now hook ob boundary st1) in
    \<not> end_alert_pending (event_of st1 i) \<and> \<not> drop_hold_pending (event_of st1 i) \<and> \<not> committed_valid (event_of st1 i)
    \<and> epoch_sequence (ext_before st) ! i \<le> sequence_of st1 i
    \<and> reacquired_epoch (event_of st2 i) = 0 \<and> reacquired_from_epoch (event_of st2 i) = 0"
proof -
  let ?i = "ob_slot ob"
  let ?st1 = "fst (call_context_restore_snapshot alloc cx st)"
  have inv: "store_inv st" by (rule store.reachable_inv [OF assms(1)])
  have inv1: "store_inv ?st1" by (rule context_restore_inv [OF inv assms(3)])
  obtain e where e: "call_ext_slot (call_state_ext_get alloc True st) = Some e"
    using assms(5) by (auto simp: call_context_restore_snapshot_def Let_def split: option.splits)
  then have b: "ext_before st = e"
    by (auto simp: ext_get_simps ext_before_def split: option.splits if_splits)
  obtain e1 where e1: "call_ext_slot ?st1 = Some e1" "ext_events e1 = map invalidate_event_lifecycle (cx_events cx)"
    "slots (ext_calls e1) = map (\<lambda>s. if phase s = CALL_PHASE_ENDED then s\<lparr>call_end_reason := CALL_END_EXPLICIT\<rparr> else s) (slots (cx_calls cx))"
    "epoch_sequence e1 = map (\<lambda>i. if epoch_sequence e ! i < epoch (slots (cx_calls cx) ! i) then epoch (slots (cx_calls cx) ! i)
       else epoch_sequence e ! i) [0..<CALL_STATE_SLOT_COUNT]"
    unfolding call_context_restore_snapshot_def Let_def by (simp add: e upd_ext_def raise_sequence_def)
  have l: "length (cx_events cx) = 2" "length (slots (cx_calls cx)) = 2" using assms(3) by (simp_all add: CALL_STATE_SLOT_COUNT_def)
  have ev: "event_of ?st1 ?i = invalidate_event_lifecycle (cx_events cx ! ?i)"
    using l assms(4) by (simp add: event_of_def e1)
  have room: "alloc2 \<or> call_ext_slot ?st1 \<noteq> None" and b1: "ext_before ?st1 = e1" by (simp_all add: e1(1) ext_before_def)
  note eff = observe_effect [OF assms(2) inv1 refl assms(4) room refl refl refl refl, where now = now and boundary = boundary, unfolded b1]
  have "\<not> reacquires_ended_epoch (slots (ext_calls e1) ! ?i) ob t" for t
    using l assms(4) by (simp add: e1(3) reacquires_ended_epoch_def end_reason_is_recoverable_def)
  then have "reacquired_epoch (event_of (fst (call_state_observe alloc2 now hook ob boundary ?st1)) ?i) = 0"
    "reacquired_from_epoch (event_of (fst (call_state_observe alloc2 now hook ob boundary ?st1)) ?i) = 0"
    using eff(5,6) ev by (simp_all add: event_of_def e1(1))
  moreover have "epoch_sequence e ! ?i \<le> sequence_of ?st1 ?i"
    using assms(4) by (simp add: sequence_of_def e1(1,4) CALL_STATE_SLOT_COUNT_def less_imp_le)
  ultimately show ?thesis by (simp add: Let_def ev b invalidate_event_lifecycle_def)
qed

section \<open>A concrete call\<close>

definition no_window :: err_window where
  "no_window = \<lparr>err_hist = [], err_count = 0, err_pos = 0, err_sum = 0\<rparr>"

definition demo_host :: call_host where
  "demo_host = \<lparr>call_ext_slot = None, event_crc_invalid = [0, 0], p1_voice_err = no_window,
     p2_voice_err = [no_window, no_window], host_key_epoch = 0, key_profile_ref = []\<rparr>"

definition demo_ob :: "mono_s \<Rightarrow> call_observation" where
  "demo_ob t = zero_observation\<lparr>ob_protocol := DSD_SYNC_DMR_BS_VOICE_POS, ob_kind := CALL_KIND_GROUP_VOICE,
     ob_ota_target_id := 9001, ob_ota_source_id := 77, ob_observed_m := t\<rparr>"

definition demo_active :: call_host where
  "demo_active = call_step None (Op_Observe True 0 (demo_ob 10) CALL_BOUNDARY_BEGIN) demo_host"

lemma demo_before: "ext_before demo_host = call_state_ext_allocate" "store_inv demo_host" "event_crc_invalid demo_host ! 0 = 0"
  by (simp_all add: ext_before_def demo_host_def store_inv_def)

lemma allocate_slot: "slots (ext_calls call_state_ext_allocate) ! 0 = zero_snapshot\<lparr>slot_no := 0, protocol := DSD_SYNC_NONE\<rparr>"
  "epoch_sequence call_state_ext_allocate ! 0 = 0"
  by (simp_all add: call_state_ext_allocate_def CALL_STATE_SLOT_COUNT_def zero_snapshot_def)

lemma demo_reachable: "store.reachable demo_active"
proof -
  have "store.allowed [Op_Observe True 0 (demo_ob 10) CALL_BOUNDARY_BEGIN] demo_host"
    by (simp add: demo_before allocate_slot demo_ob_def zero_observation_def CALL_STATE_SLOT_COUNT_def)
  from store.reachable_run [OF _ this] show ?thesis
    by (simp add: demo_active_def call_boot_def demo_host_def)
qed

lemma demo_slot:
  "slot_of demo_active 0 = observed_snapshot (demo_ob 10) 10 False (fresh_snapshot 0 1 10)" "call_ext_slot demo_active \<noteq> None"
  "sequence_of demo_active 0 = 1"
proof -
  have s: "ob_slot (demo_ob 10) = 0" by (simp add: demo_ob_def zero_observation_def)
  have n: "10 = call_state_observed_m 0 (ob_observed_m (demo_ob 10))"
    by (simp add: call_state_observed_m_def demo_ob_def)
  have c: "False = (event_crc_invalid demo_host ! 0 \<noteq> 0)" by (simp add: demo_before)
  have q: "1 = call_state_next_nonzero (epoch_sequence (ext_before demo_host) ! 0)"
    by (simp add: demo_before allocate_slot call_state_next_nonzero_def)
  have k: "keeps_store None" by (simp add: keeps_store_def)
  have r: "True \<or> call_ext_slot demo_host \<noteq> None" by simp
  note eff = observe_effect [OF k demo_before(2) s _ r n refl q c, where boundary = CALL_BOUNDARY_BEGIN, unfolded demo_before]
  have b: "observation_begins_epoch (slots (ext_calls call_state_ext_allocate) ! 0) (demo_ob 10) CALL_BOUNDARY_BEGIN"
    "\<not> reacquires_ended_epoch (slots (ext_calls call_state_ext_allocate) ! 0) (demo_ob 10) 10"
    by (simp_all add: allocate_slot observation_begins_epoch_def reacquires_ended_epoch_def zero_snapshot_def)
  show "slot_of demo_active 0 = observed_snapshot (demo_ob 10) 10 False (fresh_snapshot 0 1 10)" "call_ext_slot demo_active \<noteq> None"
    "sequence_of demo_active 0 = 1"
    using eff(2,3,4) b by (simp_all add: demo_active_def)
qed

lemma demo_fields:
  "phase (slot_of demo_active 0) = CALL_PHASE_ACTIVE" "epoch (slot_of demo_active 0) = 1"
  "ota_target_id (slot_of demo_active 0) = 9001" "ota_source_id (slot_of demo_active 0) = 77"
  "policy_target_id (slot_of demo_active 0) = 0" "kind (slot_of demo_active 0) = CALL_KIND_GROUP_VOICE"
  "protocol (slot_of demo_active 0) = DSD_SYNC_DMR_BS_VOICE_POS" "texts (slot_of demo_active 0) = no_texts"
proof -
  have t: "apply_texts (Some []) (Some []) (Some []) (Some []) no_texts = no_texts" by code_simp
  have n: "DSD_SYNC_DMR_BS_VOICE_POS \<noteq> DSD_SYNC_NONE" by (simp add: sync_ids)
  show "phase (slot_of demo_active 0) = CALL_PHASE_ACTIVE" "epoch (slot_of demo_active 0) = 1"
    by (simp_all add: demo_slot fresh_snapshot_def)
  show "ota_target_id (slot_of demo_active 0) = 9001" "ota_source_id (slot_of demo_active 0) = 77"
    "policy_target_id (slot_of demo_active 0) = 0" "kind (slot_of demo_active 0) = CALL_KIND_GROUP_VOICE"
    "protocol (slot_of demo_active 0) = DSD_SYNC_DMR_BS_VOICE_POS" "texts (slot_of demo_active 0) = no_texts"
    using n t by (simp_all add: demo_slot observed_snapshot_def Let_def call_state_apply_observation_def demo_ob_def
        zero_observation_def fresh_snapshot_def zero_snapshot_def bump_snapshot_def no_texts_def)
qed

lemma demo_ob_fields:
  "ob_slot (demo_ob t) = 0" "ob_observed_m (demo_ob t) = t"
  "\<not> observation_changes_identity (slot_of demo_active 0) (demo_ob t)"
  "snapshot_has_identity (Some (slot_of demo_active 0))"
  by (simp_all add: demo_ob_def zero_observation_def observation_changes_identity_def effective_target_snapshot_def
      effective_target_observation_def demo_fields call_state_kind_changed_def known_text_changed_def no_texts_def
      snapshot_has_identity_def)

lemma demo_observe_begins:
  "snd (call_state_observe False 0 None (demo_ob t) CALL_BOUNDARY_BEGIN demo_active) = 1"
  "snd (call_state_observe False 0 None (demo_ob t) CALL_BOUNDARY_CONTINUE demo_active) = 0"
proof -
  have k: "keeps_store None" by (simp add: keeps_store_def)
  have room: "False \<or> call_ext_slot demo_active \<noteq> None" using demo_slot(2) by simp
  obtain e where e: "call_ext_slot demo_active = Some e" using demo_slot(2) by blast
  then have b: "slots (ext_calls (ext_before demo_active)) ! 0 = slot_of demo_active 0" by (simp add: ext_before_def slot_of_def)
  note eff = observe_effect(1) [OF k store.reachable_inv [OF demo_reachable] demo_ob_fields(1) [of t] _ room refl refl refl refl,
      where now = 0, unfolded b]
  show "snd (call_state_observe False 0 None (demo_ob t) CALL_BOUNDARY_BEGIN demo_active) = 1"
    using eff [where boundary = CALL_BOUNDARY_BEGIN]
    by (simp add: observation_begins_epoch_def begin_specializes_provisional_voice_def snapshot_is_provisional_voice_def
        demo_fields effective_target_snapshot_def)
  show "snd (call_state_observe False 0 None (demo_ob t) CALL_BOUNDARY_CONTINUE demo_active) = 0"
    using eff [where boundary = CALL_BOUNDARY_CONTINUE] demo_ob_fields(3) by (simp add: observation_begins_epoch_def demo_fields)
qed

theorem first_end_stamps_and_evidence_tightens_witness:
  "phase (slot_of (end_all 0 ((0, 12, CALL_END_SYNC_LOSS) # [(0, 13, CALL_END_TERMINATOR)]) demo_active) 0) = CALL_PHASE_ENDED
    \<and> ended_m (slot_of (end_all 0 ((0, 12, CALL_END_SYNC_LOSS) # [(0, 13, CALL_END_TERMINATOR)]) demo_active) 0)
        = call_state_observed_m 0 12
    \<and> call_end_reason (slot_of (end_all 0 ((0, 12, CALL_END_SYNC_LOSS) # [(0, 13, CALL_END_TERMINATOR)]) demo_active) 0)
        = foldl tighten CALL_END_SYNC_LOSS (map (snd \<circ> snd) [(0::mono_s, 13::mono_s, CALL_END_TERMINATOR)])"
  by (rule first_end_stamps_and_evidence_tightens [OF demo_reachable _ demo_slot(2)]) (simp_all add: demo_fields)

theorem continuation_never_replaces_identity_witness:
  "let st' = fst (call_state_observe False 0 None (demo_ob 11) CALL_BOUNDARY_CONTINUE demo_active); i = ob_slot (demo_ob 11) in
    epoch (slot_of st' i) = epoch (slot_of demo_active i) \<and> identity_kept (slot_of demo_active i) (slot_of st' i)
    \<and> identity_filled (demo_ob 11) (slot_of demo_active i) (slot_of st' i)
    \<and> slot_of st' (1 - i) = slot_of demo_active (1 - i) \<and> event_of st' (1 - i) = event_of demo_active (1 - i)
    \<and> sequence_of st' (1 - i) = sequence_of demo_active (1 - i)"
  by (rule continuation_never_replaces_identity [OF demo_reachable _ _ demo_observe_begins(2)])
    (simp_all add: keeps_store_def demo_ob_fields)

theorem final_end_inherits_nothing_witness:
  "let i = ob_slot (demo_ob 13); ended = fst (call_state_end_ex 0 i 12 CALL_END_TERMINATOR demo_active);
       st' = fst (call_state_observe False 0 None (demo_ob 13) CALL_BOUNDARY_CONTINUE ended) in
    snd (call_state_observe False 0 None (demo_ob 13) CALL_BOUNDARY_CONTINUE ended) = 1
    \<and> slot_of st' i = observed_snapshot (demo_ob 13) (call_state_observed_m 0 (ob_observed_m (demo_ob 13)))
        (event_crc_invalid demo_active ! i \<noteq> 0)
        (fresh_snapshot i (call_state_next_nonzero (sequence_of demo_active i)) (call_state_observed_m 0 (ob_observed_m (demo_ob 13))))
    \<and> reacquired_epoch (event_of st' i) = reacquired_epoch (event_of demo_active i)"
  by (rule final_end_inherits_nothing [OF demo_reachable _ demo_slot(2)])
    (simp_all add: keeps_store_def demo_ob_fields demo_fields)

theorem recoverable_end_is_healed_witness:
  "let i = ob_slot (demo_ob (12 + 1 / 4)); ended = fst (call_state_end_ex 0 i 12 CALL_END_SYNC_LOSS demo_active);
       st' = fst (call_state_observe False 0 None (demo_ob (12 + 1 / 4)) CALL_BOUNDARY_CONTINUE ended) in
    snd (call_state_observe False 0 None (demo_ob (12 + 1 / 4)) CALL_BOUNDARY_CONTINUE ended) = 1
    \<and> epoch (slot_of demo_active i) < epoch (slot_of st' i)
    \<and> epoch (slot_of st' i) = call_state_next_nonzero (sequence_of demo_active i)
    \<and> reacquired_epoch (event_of st' i) = epoch (slot_of st' i) \<and> reacquired_from_epoch (event_of st' i) = epoch (slot_of demo_active i)
    \<and> identity_kept (slot_of demo_active i) (slot_of st' i) \<and> media_started_m (slot_of st' i) = media_started_m (slot_of demo_active i)
    \<and> started_m (slot_of st' i) = call_state_observed_m 0 (ob_observed_m (demo_ob (12 + 1 / 4)))"
  by (rule recoverable_end_is_healed [OF demo_reachable _ demo_slot(2)])
    (simp_all add: keeps_store_def demo_ob_fields demo_fields demo_slot(3) call_state_observed_m_def end_reason_reacquire_gap_s_def
      CALL_REACQUIRE_GAP_S_def)

theorem reacquisition_mark_is_exact_witness:
  "let st' = fst (call_state_observe False 0 None (demo_ob 11) CALL_BOUNDARY_BEGIN demo_active); i = ob_slot (demo_ob 11) in
    (reacquired_epoch (event_of st' i) = epoch (slot_of st' i)) =
      reacquires_ended_epoch (slots (ext_calls (ext_before demo_active)) ! i) (demo_ob 11)
        (call_state_observed_m 0 (ob_observed_m (demo_ob 11)))"
proof (rule reacquisition_mark_is_exact [OF demo_reachable _ _ _ demo_observe_begins(1)])
  obtain e where e: "call_ext_slot demo_active = Some e" using demo_slot(2) by blast
  then have "epoch_sequence (ext_before demo_active) ! 0 = 1" using demo_slot(3) by (simp add: ext_before_def sequence_of_def)
  then show "call_ok (Op_Observe False 0 (demo_ob 11) CALL_BOUNDARY_BEGIN) demo_active" by (simp add: demo_ob_fields)
qed (simp_all add: keeps_store_def demo_ob_fields)

theorem context_restore_is_a_hop_witness:
  "let cx = fst (call_context_copy_snapshot demo_host); st1 = fst (call_context_restore_snapshot True cx demo_active);
       i = ob_slot (demo_ob 11); st2 = fst (call_state_observe False 0 None (demo_ob 11) CALL_BOUNDARY_BEGIN st1) in
    \<not> end_alert_pending (event_of st1 i) \<and> \<not> drop_hold_pending (event_of st1 i) \<and> \<not> committed_valid (event_of st1 i)
    \<and> epoch_sequence (ext_before demo_active) ! i \<le> sequence_of st1 i
    \<and> reacquired_epoch (event_of st2 i) = 0 \<and> reacquired_from_epoch (event_of st2 i) = 0"
  unfolding Let_def [of "fst (call_context_copy_snapshot demo_host)"]
proof (rule context_restore_is_a_hop [OF demo_reachable])
  show "call_ok (Op_Context_Restore True (fst (call_context_copy_snapshot demo_host))) demo_active"
    by (simp add: call_context_copy_snapshot_def demo_host_def zero_calls_def zero_recent_def)
  show "snd (call_context_restore_snapshot True (fst (call_context_copy_snapshot demo_host)) demo_active) = 1"
    by (simp add: call_context_restore_snapshot_def Let_def ext_get_simps split: option.split)
qed (simp_all add: keeps_store_def demo_ob_fields)

end
