(* ===== verification/Call_Texts.thy ===== *)
theory Call_Texts
  imports Call_State
begin

text \<open>
  Identity texts and protocol families of the call store: what normalisation returns, and when two
  sync types count as the same protocol.
\<close>

section \<open>Normalised texts\<close>

definition plain_char :: "u8 \<Rightarrow> bool" where
  "plain_char c \<longleftrightarrow> \<not> isspace c \<and> clean_char c = c"

lemma plain_clean: "\<not> isspace c \<Longrightarrow> plain_char (clean_char c)"
  by (auto simp: plain_char_def clean_char_def isspace_def)

lemma space_facts [simp]: "isspace 32" "\<not> plain_char 32"
  by (simp_all add: isspace_def plain_char_def)

text \<open>Plain characters separated by single blanks.\<close>

fun canon :: "ctext \<Rightarrow> bool" where
  "canon [] = True"
| "canon [c] = (plain_char c \<or> c = 32)"
| "canon (c # d # r) = ((plain_char c \<or> c = 32 \<and> plain_char d) \<and> canon (d # r))"

lemma canon_snoc_plain: "canon xs \<Longrightarrow> plain_char c \<Longrightarrow> canon (xs @ [c])"
  by (induction xs rule: canon.induct) auto

lemma canon_snoc_space: "canon xs \<Longrightarrow> xs \<noteq> [] \<Longrightarrow> last xs \<noteq> 32 \<Longrightarrow> canon (xs @ [32])"
  by (induction xs rule: canon.induct) auto

text \<open>A buffer the loop can hold: canonical, starting with a plain character, and ending with a blank only if full.\<close>

definition normal_form :: "ctext \<Rightarrow> bool" where
  "normal_form xs \<longleftrightarrow> canon xs \<and> length xs < CALL_IDENTITY_TEXT_SIZE \<and>
     (xs = [] \<or> plain_char (hd xs) \<and> (last xs = 32 \<longrightarrow> length xs + 1 = CALL_IDENTITY_TEXT_SIZE))"

lemma normal_form_snoc:
  "normal_form xs \<Longrightarrow> plain_char c \<Longrightarrow> length xs + 1 < CALL_IDENTITY_TEXT_SIZE \<Longrightarrow> normal_form (xs @ [c])"
  using canon_snoc_plain [of xs c] by (cases xs) (auto simp: normal_form_def)

lemma normal_form_snoc2:
  "normal_form xs \<Longrightarrow> xs \<noteq> [] \<Longrightarrow> plain_char c \<Longrightarrow> length xs + 2 < CALL_IDENTITY_TEXT_SIZE \<Longrightarrow> normal_form (xs @ [32, c])"
  using canon_snoc_plain [OF canon_snoc_space, of xs c] by (cases xs) (auto simp: normal_form_def)

lemma normalize_loop_normal:
  "normal_form dst \<Longrightarrow> (pending \<Longrightarrow> dst \<noteq> []) \<Longrightarrow> normal_form (normalize_loop src dst pending)"
proof (induction src dst pending rule: normalize_loop.induct)
  case (2 ch src dst pending)
  show ?case
  proof (cases "isspace ch")
    case False
    let ?d1 = "if pending \<and> length dst + 1 < CALL_IDENTITY_TEXT_SIZE then dst @ [32] else dst"
    let ?d2 = "if length ?d1 + 1 < CALL_IDENTITY_TEXT_SIZE then ?d1 @ [clean_char ch] else ?d1"
    have "normal_form ?d2"
    proof (cases "pending \<and> length dst + 1 < CALL_IDENTITY_TEXT_SIZE")
      case True
      then have d: "dst \<noteq> []" "last dst \<noteq> 32" using "2.prems" by (auto simp: normal_form_def)
      show ?thesis
      proof (cases "length dst + 2 < CALL_IDENTITY_TEXT_SIZE")
        case True
        then show ?thesis using normal_form_snoc2 [OF "2.prems"(1) d(1) plain_clean [OF False]] \<open>pending \<and> _\<close> by simp
      next
        case full: False
        then have "?d2 = dst @ [32]" using True by simp
        moreover have "normal_form (dst @ [32])"
          using "2.prems"(1) d True full canon_snoc_space [of dst] by (cases dst) (auto simp: normal_form_def)
        ultimately show ?thesis by simp
      qed
    next
      case False
      then have "?d2 = (if length dst + 1 < CALL_IDENTITY_TEXT_SIZE then dst @ [clean_char ch] else dst)" by auto
      then show ?thesis using normal_form_snoc [OF "2.prems"(1) plain_clean [OF \<open>\<not> isspace ch\<close>]] "2.prems"(1) by simp
    qed
    then have "normal_form (normalize_loop src ?d2 False)" by (intro "2.IH"(2) [OF False refl refl]) simp_all
    moreover have "normalize_loop (ch # src) dst pending = normalize_loop src ?d2 False"
      unfolding normalize_loop.simps(2) Let_def by (simp only: False if_False)
    ultimately show ?thesis by (simp only:)
  qed (use 2 in simp)
qed simp

definition strip :: "ctext \<Rightarrow> ctext" where
  "strip xs = (if xs \<noteq> [] \<and> last xs = 32 then butlast xs else xs)"

lemma normalize_loop_canon:
  "canon rest \<Longrightarrow> dst \<noteq> [] \<or> rest = [] \<or> plain_char (hd rest) \<Longrightarrow> length dst + length rest < CALL_IDENTITY_TEXT_SIZE \<Longrightarrow>
     normalize_loop rest dst False = dst @ strip rest"
proof (induction rest arbitrary: dst rule: canon.induct)
  case (3 c d r)
  show ?case
  proof (cases "plain_char c")
    case True
    then show ?thesis using "3.IH" [of "dst @ [c]"] "3.prems" by (simp add: plain_char_def strip_def)
  next
    case False
    then have d: "c = 32" "plain_char d" "dst \<noteq> []" using "3.prems" by auto
    have "normalize_loop (d # r) dst True = normalize_loop (d # r) (dst @ [32]) False"
      using d "3.prems"(3) by (simp add: plain_char_def)
    then show ?thesis using "3.IH" [of "dst @ [32]"] "3.prems" d by (simp add: strip_def)
  qed
qed (auto simp: strip_def plain_char_def)

text \<open>Normalising an already normalised text changes nothing, except in one case: a text that fills its
  64-byte buffer and whose last kept byte is the blank before a word that no longer fits loses that blank.
  A normalised text never starts with a blank, never holds two blanks in a row, and fits the buffer.\<close>

theorem normalize_twice:
  "let n = call_state_normalize_text src in
   normal_form n \<and> call_state_normalize_text (Some n) = (if n \<noteq> [] \<and> last n = 32 then butlast n else n)"
proof -
  let ?n = "call_state_normalize_text src"
  have n: "normal_form ?n"
    by (auto simp: call_state_normalize_text_def normal_form_def [of "[]"] CALL_IDENTITY_TEXT_SIZE_def
        intro!: normalize_loop_normal split: option.split)
  have "dropWhile isspace ?n = ?n"
    using n by (cases ?n) (auto simp: normal_form_def plain_char_def)
  then have "call_state_normalize_text (Some ?n) = strip ?n"
    using n normalize_loop_canon [of ?n "[]"] by (auto simp: call_state_normalize_text_def [of "Some ?n"] normal_form_def)
  then show ?thesis using n by (simp add: Let_def strip_def)
qed

text \<open>The exception is reachable: 62 letters, a blank and one more letter.\<close>

lemma normalize_not_idempotent:
  "call_state_normalize_text (Some (replicate 62 65 @ [32, 66])) = replicate 62 65 @ [32]"
  "call_state_normalize_text (Some (replicate 62 65 @ [32])) = replicate 62 65"
  by code_simp+

section \<open>Protocol families\<close>

definition sync_families :: "(int \<Rightarrow> bool) list" where
  "sync_families = [DSD_SYNC_IS_P25P1, DSD_SYNC_IS_P25P2, DSD_SYNC_IS_X2TDMA, DSD_SYNC_IS_DSTAR, DSD_SYNC_IS_M17,
     DSD_SYNC_IS_DMR, DSD_SYNC_IS_EDACS, DSD_SYNC_IS_DPMR, DSD_SYNC_IS_NXDN, DSD_SYNC_IS_YSF]"

lemma family_of:
  "DSD_SYNC_IS_P25P1 p \<Longrightarrow> call_state_protocol_family p = 1"
  "DSD_SYNC_IS_P25P2 p \<Longrightarrow> call_state_protocol_family p = 2"
  "DSD_SYNC_IS_X2TDMA p \<Longrightarrow> call_state_protocol_family p = 3"
  "DSD_SYNC_IS_DSTAR p \<Longrightarrow> call_state_protocol_family p = 4"
  "DSD_SYNC_IS_M17 p \<Longrightarrow> call_state_protocol_family p = 5"
  "DSD_SYNC_IS_DMR p \<Longrightarrow> call_state_protocol_family p = 6"
  "DSD_SYNC_IS_EDACS p \<Longrightarrow> call_state_protocol_family p = 7"
  "DSD_SYNC_IS_DPMR p \<Longrightarrow> call_state_protocol_family p = 8"
  "DSD_SYNC_IS_NXDN p \<Longrightarrow> call_state_protocol_family p = 9"
  "DSD_SYNC_IS_YSF p \<Longrightarrow> call_state_protocol_family p = 10"
proof -
  show "DSD_SYNC_IS_P25P1 p \<Longrightarrow> call_state_protocol_family p = 1"
    unfolding sync_classes sync_ids by (elim disjE) (simp_all add: call_state_protocol_family_def sync_classes sync_ids)
  show "DSD_SYNC_IS_P25P2 p \<Longrightarrow> call_state_protocol_family p = 2"
    unfolding sync_classes sync_ids by (elim disjE) (simp_all add: call_state_protocol_family_def sync_classes sync_ids)
  show "DSD_SYNC_IS_X2TDMA p \<Longrightarrow> call_state_protocol_family p = 3"
  proof -
    assume "DSD_SYNC_IS_X2TDMA p"
    then have "p = 2 \<or> p = 3 \<or> p = 4 \<or> p = 5"
      unfolding DSD_SYNC_IS_X2TDMA_def sync_ids by arith
    then show ?thesis by (elim disjE) (simp_all add: call_state_protocol_family_def sync_classes sync_ids)
  qed
  show "DSD_SYNC_IS_DSTAR p \<Longrightarrow> call_state_protocol_family p = 4"
    unfolding sync_classes sync_ids by (elim disjE) (simp_all add: call_state_protocol_family_def sync_classes sync_ids)
  show "DSD_SYNC_IS_M17 p \<Longrightarrow> call_state_protocol_family p = 5"
    unfolding sync_classes sync_ids by (elim disjE) (simp_all add: call_state_protocol_family_def sync_classes sync_ids)
  show "DSD_SYNC_IS_DMR p \<Longrightarrow> call_state_protocol_family p = 6"
    unfolding sync_classes sync_ids by (elim disjE) (simp_all add: call_state_protocol_family_def sync_classes sync_ids)
  show "DSD_SYNC_IS_EDACS p \<Longrightarrow> call_state_protocol_family p = 7"
    unfolding sync_classes sync_ids by (elim disjE) (simp_all add: call_state_protocol_family_def sync_classes sync_ids)
  show "DSD_SYNC_IS_DPMR p \<Longrightarrow> call_state_protocol_family p = 8"
  proof -
    assume "DSD_SYNC_IS_DPMR p"
    then have "p = 20 \<or> p = 21 \<or> p = 22 \<or> p = 23 \<or> p = 24 \<or> p = 25 \<or> p = 26 \<or> p = 27"
      unfolding DSD_SYNC_IS_DPMR_def sync_ids by arith
    then show ?thesis by (elim disjE) (simp_all add: call_state_protocol_family_def sync_classes sync_ids)
  qed
  show "DSD_SYNC_IS_NXDN p \<Longrightarrow> call_state_protocol_family p = 9"
    unfolding sync_classes sync_ids by (elim disjE) (simp_all add: call_state_protocol_family_def sync_classes sync_ids)
  show "DSD_SYNC_IS_YSF p \<Longrightarrow> call_state_protocol_family p = 10"
    unfolding sync_classes sync_ids by (elim disjE) (simp_all add: call_state_protocol_family_def sync_classes sync_ids)
qed

text \<open>Two sync types belong to the same family, as the store compares them, exactly when they are equal or
  one classification macro accepts both: the macros are disjoint and no family number is shared.\<close>

theorem same_family_iff:
  assumes "-1 \<le> p" "-1 \<le> q"
  shows "call_state_protocol_family p = call_state_protocol_family q \<longleftrightarrow> p = q \<or> list_ex (\<lambda>f. f p \<and> f q) sync_families"
proof
  assume "call_state_protocol_family p = call_state_protocol_family q"
  then show "p = q \<or> list_ex (\<lambda>f. f p \<and> f q) sync_families"
    using assms by (auto simp: call_state_protocol_family_def sync_families_def DSD_SYNC_NONE_def split: if_splits)
next
  assume "p = q \<or> list_ex (\<lambda>f. f p \<and> f q) sync_families"
  then show "call_state_protocol_family p = call_state_protocol_family q"
    by (auto simp: sync_families_def family_of)
qed

theorem same_family_iff_witness:
  "call_state_protocol_family 10 = call_state_protocol_family 33 \<longleftrightarrow> 10 = (33::int) \<or> list_ex (\<lambda>f. f 10 \<and> f 33) sync_families"
  by (rule same_family_iff) simp_all

text \<open>The name table describes the inverted X2-TDMA types the other way round.\<close>

lemma x2tdma_names_swapped:
  "dsd_synctype_to_string DSD_SYNC_X2TDMA_VOICE_NEG = ''X2TDMA DATA''"
  "dsd_synctype_to_string DSD_SYNC_X2TDMA_DATA_NEG = ''X2TDMA VOICE''"
  by (simp_all add: dsd_synctype_to_string_def SyncTypeStrings_def sync_ids)

end
