(* ===== verification/Dmr_Sm.thy ===== *)
theory Dmr_Sm
  imports Tuning_Ledger Cc_Candidates Call_State Machine
begin

text \<open>
  The DMR Tier III trunking state machine of \<open>src/protocol/dmr/dmr_trunk_sm.c\<close>, with the recovery-owner
  rules of \<open>src/runtime/trunk_scan_hooks.c\<close> and the scan-list readers of
  \<open>src/core/util/dsd_state_trunk_lcn.c\<close> it uses. The machine is a context record; the decoder state,
  the options, the tuning ledger, the candidate list and the call store it works on are one record that
  extends the ledger, so that every retune runs through the modelled ledger.

  What the machine calls through function pointers (the three tuner hooks, the rigctl query, the scan
  map, the reacquisition hook) and the event-history writer are the fields of \<open>dmr_env\<close>: functions on
  that record which may change any of it. They cannot touch the context, and in the sources they do
  not. Time stands still inside an operation: \<open>clock_ns\<close> moves between operations only.
\<close>

section \<open>Data\<close>

datatype dmr_sm_state = DMR_SM_IDLE | DMR_SM_ON_CC | DMR_SM_TUNED | DMR_SM_HUNTING

datatype dmr_sm_event_type = DMR_SM_EV_GRANT | DMR_SM_EV_VOICE_SYNC | DMR_SM_EV_DATA_SYNC | DMR_SM_EV_RELEASE
  | DMR_SM_EV_CC_SYNC | DMR_SM_EV_SYNC_LOST

record dmr_sm_event =
  ev_type :: dmr_sm_event_type
  ev_slot :: int
  ev_freq_hz :: int
  ev_lpcn :: int
  ev_tg :: int
  ev_src :: int
  ev_dst :: int
  ev_is_group :: bool

record dmr_sm_slot =
  voice_active :: bool
  last_active_m :: mono_s
  slot_tg :: int

record dmr_sm_ctx =
  sm_state :: dmr_sm_state
  sm_slots :: "dmr_sm_slot list"
  vc_freq_hz :: int
  vc_lpcn :: int
  vc_tg :: int
  vc_dst :: int
  vc_src :: int
  vc_slot :: int
  vc_is_group :: bool
  vc_identity_published :: bool
  t_tune_m :: mono_s
  t_voice_m :: mono_s
  t_cc_sync_m :: mono_s
  cc_freq_hz :: int
  cc_probe_freq_hz :: int
  cc_rx_freq_hz :: int
  cc_rx_generation :: u64
  cc_acquire_start_m :: mono_s
  cc_retry_after_m :: mono_s
  cc_tune_deadline_m :: mono_s
  cc_tune_request_id :: u64
  cc_acquiring :: bool
  cc_confirmed :: bool
  cc_hunt_index :: int
  hangtime_s :: mono_s
  grant_timeout_s :: mono_s
  cc_grace_s :: mono_s
  sm_initialized :: bool

definition zero_slot :: dmr_sm_slot where
  "zero_slot = \<lparr>voice_active = False, last_active_m = 0, slot_tg = 0\<rparr>"

definition zero_ctx :: dmr_sm_ctx where
  "zero_ctx = \<lparr>sm_state = DMR_SM_IDLE, sm_slots = replicate 2 zero_slot, vc_freq_hz = 0, vc_lpcn = 0, vc_tg = 0,
     vc_dst = 0, vc_src = 0, vc_slot = 0, vc_is_group = False, vc_identity_published = False, t_tune_m = 0, t_voice_m = 0,
     t_cc_sync_m = 0, cc_freq_hz = 0, cc_probe_freq_hz = 0, cc_rx_freq_hz = 0, cc_rx_generation = 0,
     cc_acquire_start_m = 0, cc_retry_after_m = 0, cc_tune_deadline_m = 0, cc_tune_request_id = 0, cc_acquiring = False,
     cc_confirmed = False, cc_hunt_index = 0, hangtime_s = 0, grant_timeout_s = 0, cc_grace_s = 0,
     sm_initialized = False\<rparr>"

definition DMR_CC_PROBE_GRACE_S :: mono_s where "DMR_CC_PROBE_GRACE_S = 2"
definition DMR_CC_TUNE_TIMEOUT_S :: mono_s where "DMR_CC_TUNE_TIMEOUT_S = 5"

datatype recovery_protocol = DSD_TRUNK_RECOVERY_UNKNOWN | DSD_TRUNK_RECOVERY_P25 | DSD_TRUNK_RECOVERY_DMR

text \<open>The per-slot data-block state cleared by \<open>dmr_reset_blocks\<close>; flattened arrays are lists.\<close>

record dmr_blocks =
  data_p_head :: "u8 list"
  data_conf_data :: "u8 list"
  dmr_pdu_sf :: "u8 list"
  data_block_counter :: "int list"
  data_block_poc :: "u8 list"
  data_header_dd_format :: "u8 list"
  data_header_bit_padding :: "u8 list"
  data_byte_ctr :: "u16 list"
  udt_uab_reserved :: "u8 list"
  data_ks_start :: "u8 list"
  data_header_blocks :: "int list"
  data_block_crc_valid :: "u8 list"
  dmr_lrrp_source :: "u64 list"
  dmr_lrrp_target :: "u64 list"
  dmr_data_target_is_group :: "u8 list"
  dmr_cach_fragment :: "u8 list"
  cap_plus_csbk_bits :: "u8 list"
  cap_plus_block_num :: "u8 list"
  data_header_valid :: "u8 list"
  data_header_crc_invalid :: "u8 list"
  data_header_format :: "u8 list"
  data_header_sap :: "u8 list"
  data_dbsn_expected :: "u8 list"
  data_dbsn_have :: "u8 list"
  dmr_lrrp_gps :: "ctext list"

text \<open>
  The world: the ledger, the clock, the fields of \<open>dsd_opts\<close> and of \<open>dsd_state\<close> that the machine reads
  or writes, the candidate list and the call store. Option flags keep their C integer values because
  the code tests some of them for truth and some for \<open>1\<close>.
\<close>

record dmr_world = tuning +
  clock_ns :: u64
  wall_now :: wall_s
  trunk_enable :: int
  trunk_is_tuned :: int
  trunk_hangtime :: mono_s
  trunk_tune_data_calls :: int
  trunk_scan_enabled :: int
  frame_dmr :: bool
  frame_p25p1 :: bool
  frame_p25p2 :: bool
  frame_nxdn48 :: bool
  frame_nxdn96 :: bool
  frame_provoice :: bool
  use_rigctl :: int
  audio_in_is_rtl :: bool
  rtlsdr_center_freq :: u32
  chan_in_file :: string
  trunk_cc_freq :: int
  p25_cc_freq :: int
  trunk_chan_map :: "nat \<Rightarrow> int"
  dmr_lcn_trust :: "nat \<Rightarrow> u8"
  trunk_vc_freq :: "int list"
  p25_vc_freq :: "int list"
  is_con_plus :: int
  dmr_mono_slot :: int
  p25_sm_release_count :: u32
  p25_sm_tune_count :: u32
  trunk_sm_force_release :: int
  last_t3_tune_time_m :: mono_s
  last_vc_sync_time_m :: mono_s
  last_cc_sync_time :: wall_s
  last_cc_sync_time_m :: mono_s
  trunk_recovery_protocol :: recovery_protocol
  synctype :: int
  lastsynctype :: int
  lcn_freqs :: "int list"
  lcn_freq_count :: int
  lcn_avoid :: "bool list"
  candidates :: "cc_candidates option"
  call_store :: call_host
  blocks :: dmr_blocks

record dmr_env =
  tuners :: "dmr_world tuning_hooks"
  rigctl_freq :: "(dmr_world \<Rightarrow> int) option"
  scan_chan_csv :: "dmr_world \<Rightarrow> string option"
  event_sync :: "nat \<Rightarrow> dmr_world \<Rightarrow> dmr_world"
  reacquire :: "reacquire_hook option"
  cfg_hangtime_s :: "mono_s option"
  cfg_grant_timeout_s :: "mono_s option"
  ext_alloc :: bool

definition now_s :: "dmr_world \<Rightarrow> mono_s" where
  "now_s w = real (unat (clock_ns w)) / 10 ^ 9"

section \<open>Recovery ownership and the scan list\<close>

definition trunk_recovery_note_protocol :: "recovery_protocol \<Rightarrow> dmr_world \<Rightarrow> dmr_world" where
  "trunk_recovery_note_protocol p w = w\<lparr>trunk_recovery_protocol := p\<rparr>"

text \<open>\<open>scan\<close>: the installed scan coordinator has a context for the protocol.\<close>

definition trunk_p25_recovery_allowed :: "bool \<Rightarrow> dmr_world \<Rightarrow> bool" where
  "trunk_p25_recovery_allowed scan w \<longleftrightarrow>
     (if trunk_enable w \<noteq> 1 then False
      else if trunk_scan_enabled w = 1 then scan
      else if \<not> frame_p25p1 w \<and> \<not> frame_p25p2 w then False
      else trunk_recovery_protocol w = DSD_TRUNK_RECOVERY_P25
           \<or> (trunk_recovery_protocol w = DSD_TRUNK_RECOVERY_UNKNOWN \<and> \<not> frame_dmr w \<and> \<not> frame_nxdn48 w
              \<and> \<not> frame_nxdn96 w \<and> \<not> frame_provoice w))"

definition trunk_dmr_recovery_allowed :: "bool \<Rightarrow> dmr_world \<Rightarrow> bool" where
  "trunk_dmr_recovery_allowed scan w \<longleftrightarrow>
     (if trunk_enable w \<noteq> 1 then False
      else if trunk_scan_enabled w = 1 then scan
      else if \<not> frame_dmr w then False
      else trunk_recovery_protocol w = DSD_TRUNK_RECOVERY_DMR
           \<or> (trunk_recovery_protocol w = DSD_TRUNK_RECOVERY_UNKNOWN \<and> \<not> frame_p25p1 w \<and> \<not> frame_p25p2 w
              \<and> \<not> frame_nxdn48 w \<and> \<not> frame_nxdn96 w \<and> \<not> frame_provoice w))"

text \<open>The embedded slots and their heap tail are one list.\<close>

definition trunk_lcn_slot :: "dmr_world \<Rightarrow> nat \<Rightarrow> int" where
  "trunk_lcn_slot w i = lcn_freqs w ! i"

definition trunk_lcn_avoid_get :: "dmr_world \<Rightarrow> nat \<Rightarrow> bool" where
  "trunk_lcn_avoid_get w i \<longleftrightarrow> i < length (lcn_avoid w) \<and> lcn_avoid w ! i"

definition cc_map_has_frequency :: "dmr_world \<Rightarrow> int \<Rightarrow> bool" where
  "cc_map_has_frequency w freq \<longleftrightarrow>
     list_ex (\<lambda>i. trunk_lcn_slot w i = freq \<and> \<not> trunk_lcn_avoid_get w i) [0..<nat (lcn_freq_count w)]"

section \<open>Small helpers\<close>

definition resolve_freq :: "dmr_world \<Rightarrow> int \<Rightarrow> int \<Rightarrow> int" where
  "resolve_freq w freq_hz lpcn =
     (if freq_hz > 0 then freq_hz else if lpcn > 0 \<and> lpcn < 0xFFFF then trunk_chan_map w (nat lpcn) else 0)"

definition lpcn_is_trusted :: "dmr_world \<Rightarrow> int \<Rightarrow> bool" where
  "lpcn_is_trusted w lpcn \<longleftrightarrow>
     (if lpcn \<le> 0 \<or> lpcn \<ge> 0x1000 then True
      else (let trust = dmr_lcn_trust w (nat lpcn); on_cc = (trunk_cc_freq w \<noteq> 0 \<and> trunk_is_tuned w = 0)
            in \<not> (trust < 2 \<and> \<not> on_cc)))"

definition set_state :: "dmr_sm_state \<Rightarrow> dmr_sm_ctx \<Rightarrow> dmr_sm_ctx" where
  "set_state new_state ctx = (if sm_state ctx = new_state then ctx else ctx\<lparr>sm_state := new_state\<rparr>)"

text \<open>
  \<open>dmr_sm_init_ctx\<close>: the options and the state may be NULL; what it reads of them is the hang time and
  the control channel frequency.
\<close>

definition dmr_sm_init_ctx :: "dmr_env \<Rightarrow> mono_s \<Rightarrow> mono_s option \<Rightarrow> int option \<Rightarrow> dmr_sm_ctx" where
  "dmr_sm_init_ctx env now opts st =
     (let c0 = zero_ctx\<lparr>vc_slot := -1, hangtime_s := 2, grant_timeout_s := 4, cc_grace_s := 6\<rparr>;
          c1 = (case opts of Some h \<Rightarrow> if h \<ge> 0 then c0\<lparr>hangtime_s := h\<rparr> else c0 | None \<Rightarrow> c0);
          c2 = (case cfg_hangtime_s env of Some h \<Rightarrow> c1\<lparr>hangtime_s := h\<rparr> | None \<Rightarrow> c1);
          c3 = (case cfg_grant_timeout_s env of Some g \<Rightarrow> c2\<lparr>grant_timeout_s := g\<rparr> | None \<Rightarrow> c2);
          c4 = (case st of
                  Some cc \<Rightarrow> if cc \<noteq> 0 then c3\<lparr>sm_state := DMR_SM_ON_CC, t_cc_sync_m := now, cc_freq_hz := cc, cc_probe_freq_hz := cc\<rparr>
                             else c3\<lparr>sm_state := DMR_SM_IDLE\<rparr>
                | None \<Rightarrow> c3\<lparr>sm_state := DMR_SM_IDLE\<rparr>)
      in c4\<lparr>sm_initialized := True\<rparr>)"

definition init_ctx_in :: "dmr_env \<Rightarrow> dmr_world \<Rightarrow> dmr_sm_ctx" where
  "init_ctx_in env w = dmr_sm_init_ctx env (now_s w) (Some (trunk_hangtime w)) (Some (trunk_cc_freq w))"

section \<open>Control-channel acquisition\<close>

text \<open>
  Resolving an outstanding tune request: still pending before its deadline blocks the caller; at the
  deadline it is failed in the ledger; a completed request starts the acquisition.
\<close>

definition dmr_cc_resolve_pending :: "mono_s \<Rightarrow> dmr_sm_ctx \<Rightarrow> dmr_world \<Rightarrow> dmr_sm_ctx \<times> dmr_world \<times> bool" where
  "dmr_cc_resolve_pending now_m ctx w =
     (let rid = cc_tune_request_id ctx in
      if rid = 0 then (ctx, w, True)
      else
        (let (result, completed_m) = tuning_request_status rid w in
         if result = TUNE_PENDING \<and> now_m < cc_tune_deadline_m ctx then (ctx, w, False)
         else
           (let w1 = (if result = TUNE_PENDING then tuning_request_publish rid TUNE_FAILED (clock_ns w) w else w);
                (result1, completed1) = (if result = TUNE_PENDING then tuning_request_status rid w1 else (result, completed_m));
                c1 = ctx\<lparr>cc_tune_request_id := 0\<rparr>
            in if result1 = TUNE_OK
               then (c1\<lparr>cc_acquire_start_m := (if completed1 > 0 then completed1 else now_m),
                        cc_rx_freq_hz := cc_probe_freq_hz c1, cc_rx_generation := generation w1\<rparr>, w1, True)
               else (set_state DMR_SM_HUNTING (c1\<lparr>cc_acquiring := False, cc_retry_after_m := now_m + 2\<rparr>), w1, False))))"

definition dmr_sm_begin_cc_acquisition :: "dmr_env \<Rightarrow> int \<Rightarrow> u64 \<Rightarrow> dmr_sm_ctx \<Rightarrow> dmr_world \<Rightarrow> dmr_sm_ctx \<times> dmr_world" where
  "dmr_sm_begin_cc_acquisition env freq_hz rid ctx w =
     (if freq_hz \<le> 0 then (ctx, w)
      else
        (let c1 = (init_ctx_in env w)\<lparr>cc_freq_hz := freq_hz, cc_probe_freq_hz := freq_hz, cc_acquiring := True,
                    cc_acquire_start_m := now_s w, cc_tune_request_id := rid,
                    cc_tune_deadline_m := now_s w + DMR_CC_TUNE_TIMEOUT_S, sm_state := DMR_SM_ON_CC\<rparr>;
             c2 = (if rid = 0 then c1\<lparr>cc_rx_freq_hz := freq_hz, cc_rx_generation := generation w\<rparr> else c1);
             (c3, w1, ok) = dmr_cc_resolve_pending (cc_acquire_start_m c2) c2 w
         in (c3, w1)))"

definition dmr_sm_return_to_cc ::
  "dmr_env \<Rightarrow> int \<Rightarrow> dmr_sm_ctx \<Rightarrow> dmr_world \<Rightarrow> dmr_sm_ctx \<times> dmr_world \<times> tune_result" where
  "dmr_sm_return_to_cc env freq_hz ctx w =
     (if freq_hz \<le> 0 then (ctx, w, TUNE_FAILED)
      else
        (let previous_cc = trunk_cc_freq w;
             previous_p25_cc = p25_cc_freq w;
             (w1, result, rid) = tuning_hook_return_to_cc (tuners env) (clock_ns w) (w\<lparr>p25_cc_freq := 0, trunk_cc_freq := freq_hz\<rparr>)
         in if \<not> tune_result_is_ok result
            then (ctx, w1\<lparr>p25_cc_freq := previous_p25_cc, trunk_cc_freq := previous_cc\<rparr>, result)
            else
              (let w2 = w1\<lparr>is_con_plus := 0\<rparr>;
                   (c3, w3) = dmr_sm_begin_cc_acquisition env freq_hz rid (set_state DMR_SM_ON_CC ctx) w2
               in (c3, w3, result))))"

section \<open>Control-channel evidence\<close>

definition dmr_cc_current_frequency :: "dmr_env \<Rightarrow> dmr_sm_ctx option \<Rightarrow> dmr_world \<Rightarrow> int" where
  "dmr_cc_current_frequency env ctx w =
     (let fallback = (if use_rigctl w = 1 then (case rigctl_freq env of Some f \<Rightarrow> f w | None \<Rightarrow> 0)
                      else if audio_in_is_rtl w then uint (rtlsdr_center_freq w)
                      else (case ctx of None \<Rightarrow> 0
                            | Some c \<Rightarrow> if cc_probe_freq_hz c \<noteq> 0 then cc_probe_freq_hz c else cc_freq_hz c))
      in case ctx of
           Some c \<Rightarrow> if cc_rx_freq_hz c > 0 \<and> cc_rx_generation c = generation w then cc_rx_freq_hz c else fallback
         | None \<Rightarrow> fallback)"

definition dmr_cc_note_monitor_frequency :: "dmr_env \<Rightarrow> int \<Rightarrow> dmr_world \<Rightarrow> dmr_world" where
  "dmr_cc_note_monitor_frequency env freq_hz w =
     (let current = dmr_cc_current_frequency env None w in
      if current > 0 \<and> (freq_hz \<le> 0 \<or> freq_hz = current) then w\<lparr>trunk_cc_freq := current\<rparr> else w)"

definition dmr_cc_note_activity_ctx :: "dmr_env \<Rightarrow> int \<Rightarrow> dmr_sm_ctx \<Rightarrow> dmr_world \<Rightarrow> dmr_sm_ctx \<times> dmr_world" where
  "dmr_cc_note_activity_ctx env freq_hz ctx w =
     (let current = dmr_cc_current_frequency env (Some ctx) w in
      if current \<le> 0 \<or> (freq_hz > 0 \<and> freq_hz \<noteq> current) \<or> (cc_acquiring ctx \<and> current \<noteq> cc_probe_freq_hz ctx)
      then (ctx, w)
      else
        (let c1 = ctx\<lparr>cc_freq_hz := current, cc_probe_freq_hz := current, cc_rx_freq_hz := current,
                      cc_rx_generation := generation w, cc_confirmed := True, cc_acquiring := False,
                      cc_retry_after_m := 0, t_cc_sync_m := now_s w\<rparr>;
             w1 = w\<lparr>trunk_cc_freq := current, last_cc_sync_time := wall_now w, last_cc_sync_time_m := t_cc_sync_m c1\<rparr>
         in (set_state DMR_SM_ON_CC c1, trunk_recovery_note_protocol DSD_TRUNK_RECOVERY_DMR w1)))"

text \<open>
  \<open>dmr_cc_activity_context\<close> on the context \<open>dmr_sm_get_ctx\<close> gives; \<open>scan\<close> says that it is a scan target's
  context. The last component says whether a context is returned.
\<close>

definition dmr_cc_activity_context :: "bool \<Rightarrow> dmr_sm_ctx \<Rightarrow> dmr_world \<Rightarrow> dmr_sm_ctx \<times> dmr_world \<times> bool" where
  "dmr_cc_activity_context scan ctx w =
     (if trunk_enable w \<noteq> 1 \<or> trunk_is_tuned w = 1 then (ctx, w, False)
      else if trunk_scan_enabled w \<noteq> 0 \<and> \<not> scan then (ctx, w, False)
      else dmr_cc_resolve_pending (now_s w) ctx w)"

definition dmr_sm_note_cc_activity :: "dmr_env \<Rightarrow> bool \<Rightarrow> int \<Rightarrow> dmr_sm_ctx \<Rightarrow> dmr_world \<Rightarrow> dmr_sm_ctx \<times> dmr_world" where
  "dmr_sm_note_cc_activity env scan freq_hz ctx w =
     (if trunk_enable w \<noteq> 1 \<and> trunk_is_tuned w = 0 then (ctx, dmr_cc_note_monitor_frequency env freq_hz w)
      else
        (let (c1, w1, ok) = dmr_cc_activity_context scan ctx w in
         if \<not> ok then (c1, w1) else dmr_cc_note_activity_ctx env freq_hz c1 w1))"

definition dmr_cc_note_heartbeat_ctx :: "dmr_sm_ctx \<Rightarrow> dmr_world \<Rightarrow> dmr_sm_ctx \<times> dmr_world" where
  "dmr_cc_note_heartbeat_ctx ctx w =
     (if trunk_is_tuned w = 1 \<or> \<not> cc_confirmed ctx \<or> cc_acquiring ctx then (ctx, w)
      else
        (let (c1, w1, ok) = dmr_cc_resolve_pending (now_s w) ctx w in
         if \<not> ok then (c1, w1)
         else if cc_rx_freq_hz c1 = cc_freq_hz c1 \<and> tuning_frame_is_current (cc_rx_generation c1) w1
         then (set_state DMR_SM_ON_CC (c1\<lparr>t_cc_sync_m := now_s w1\<rparr>), w1)
         else (c1, w1)))"

definition dmr_sm_note_cc_heartbeat :: "bool \<Rightarrow> dmr_sm_ctx \<Rightarrow> dmr_world \<Rightarrow> dmr_sm_ctx \<times> dmr_world" where
  "dmr_sm_note_cc_heartbeat scan ctx w =
     (let (c1, w1, ok) = dmr_cc_activity_context scan ctx w in
      if \<not> ok then (c1, w1) else dmr_cc_note_heartbeat_ctx c1 w1)"

section \<open>Hunting\<close>

text \<open>\<open>while (cc_hunt_index < lcn_freq_count && slot(cc_hunt_index) == freq) ++cc_hunt_index\<close>.\<close>

function skip_same_frequency :: "dmr_world \<Rightarrow> int \<Rightarrow> int \<Rightarrow> int" where
  "skip_same_frequency w freq i =
     (if i < lcn_freq_count w \<and> trunk_lcn_slot w (nat i) = freq then skip_same_frequency w freq (i + 1) else i)"
  by pat_completeness auto
termination
  by (relation "measure (\<lambda>(w, freq, i). nat (lcn_freq_count w - i))") auto

declare skip_same_frequency.simps [simp del]

fun next_mapped_loop :: "nat \<Rightarrow> dmr_sm_ctx \<Rightarrow> dmr_world \<Rightarrow> dmr_sm_ctx \<times> int" where
  "next_mapped_loop 0 ctx w = (ctx, 0)"
| "next_mapped_loop (Suc tries) ctx w =
     (let c1 = (if cc_hunt_index ctx \<ge> lcn_freq_count w \<or> cc_hunt_index ctx < 0 then ctx\<lparr>cc_hunt_index := 0\<rparr> else ctx);
          index = nat (cc_hunt_index c1);
          c2 = c1\<lparr>cc_hunt_index := cc_hunt_index c1 + 1\<rparr>;
          freq = trunk_lcn_slot w index
      in if freq \<le> 0 \<or> trunk_lcn_avoid_get w index \<or> freq = cc_probe_freq_hz ctx then next_mapped_loop tries c2 w
         else (c2\<lparr>cc_hunt_index := skip_same_frequency w freq (cc_hunt_index c2)\<rparr>, freq))"

definition dmr_cc_next_mapped_candidate :: "dmr_sm_ctx \<Rightarrow> dmr_world \<Rightarrow> dmr_sm_ctx \<times> int" where
  "dmr_cc_next_mapped_candidate ctx w = next_mapped_loop (nat (lcn_freq_count w)) ctx w"

definition CC_CANDIDATE_CURRENT_SITE :: u8 where "CC_CANDIDATE_CURRENT_SITE = 1"

definition dmr_cc_next_candidate :: "dmr_env \<Rightarrow> dmr_sm_ctx \<Rightarrow> dmr_world \<Rightarrow> dmr_sm_ctx \<times> dmr_world \<times> int" where
  "dmr_cc_next_candidate env ctx w =
     (let anchor = (if cc_freq_hz ctx > 0 then cc_freq_hz ctx else trunk_cc_freq w);
          scan_map = scan_chan_csv env w;
          user_list = (chan_in_file w \<noteq> [] \<or> (case scan_map of Some m \<Rightarrow> m \<noteq> [] | None \<Rightarrow> False))
      in if user_list \<and> lcn_freq_count w > 0
         then (if cc_probe_freq_hz ctx \<noteq> anchor \<and> anchor > 0 \<and> cc_map_has_frequency w anchor then (ctx, w, anchor)
               else (let (c1, f) = dmr_cc_next_mapped_candidate ctx w in (c1, w, f)))
         else if cc_probe_freq_hz ctx \<noteq> anchor \<and> anchor > 0 then (ctx, w, anchor)
         else (let (cands, found) = cc_candidates_next (trunk_cc_freq w) (p25_cc_freq w) (now_s w) CC_CANDIDATE_CURRENT_SITE (candidates w);
                   w1 = w\<lparr>candidates := cands\<rparr>
               in (ctx, w1, case found of Some f \<Rightarrow> f | None \<Rightarrow> anchor)))"

definition dmr_cc_hunt :: "dmr_env \<Rightarrow> bool \<Rightarrow> mono_s \<Rightarrow> dmr_sm_ctx \<Rightarrow> dmr_world \<Rightarrow> dmr_sm_ctx \<times> dmr_world" where
  "dmr_cc_hunt env scan now_m ctx w =
     (if \<not> trunk_dmr_recovery_allowed scan w \<or> trunk_is_tuned w = 1 \<or> cc_retry_after_m ctx > now_m then (ctx, w)
      else
        (let (c1, w1, freq) = dmr_cc_next_candidate env (ctx\<lparr>cc_retry_after_m := now_m + 2\<rparr>) w in
         if freq \<le> 0 then (c1, w1)
         else if freq = cc_rx_freq_hz c1 \<and> tuning_frame_is_current (cc_rx_generation c1) w1
         then (set_state DMR_SM_ON_CC (c1\<lparr>cc_probe_freq_hz := freq, cc_acquiring := True, cc_acquire_start_m := now_m\<rparr>), w1)
         else
           (let anchor = trunk_cc_freq w1;
                (w2, result, rid) = tuning_hook_tune_to_cc (tuners env) freq 0 (clock_ns w1) w1;
                w3 = w2\<lparr>trunk_cc_freq := anchor\<rparr>
            in if \<not> tune_result_is_ok result then (c1, w3)
               else
                 (let c2 = set_state DMR_SM_ON_CC (c1\<lparr>cc_probe_freq_hz := freq, cc_acquiring := True, cc_acquire_start_m := now_s w3,
                             cc_tune_request_id := rid, cc_tune_deadline_m := now_s w3 + DMR_CC_TUNE_TIMEOUT_S\<rparr>);
                      (c3, w4, ok) = dmr_cc_resolve_pending (cc_acquire_start_m c2) c2 w3
                  in (c3, w4)))))"

section \<open>Releasing a carrier\<close>

definition dmr_reset_blocks :: "dmr_blocks \<Rightarrow> dmr_blocks" where
  "dmr_reset_blocks b =
     (let clear = (\<lambda>xs. replicate (length xs) 0) in b\<lparr>
        data_p_head := clear (data_p_head b), data_conf_data := clear (data_conf_data b), dmr_pdu_sf := clear (dmr_pdu_sf b),
        data_block_counter := [1, 1], data_block_poc := clear (data_block_poc b),
        data_header_dd_format := clear (data_header_dd_format b), data_header_bit_padding := clear (data_header_bit_padding b),
        data_byte_ctr := replicate (length (data_byte_ctr b)) 0, udt_uab_reserved := clear (udt_uab_reserved b),
        data_ks_start := clear (data_ks_start b), data_header_blocks := [1, 1], data_block_crc_valid := clear (data_block_crc_valid b),
        dmr_lrrp_source := replicate (length (dmr_lrrp_source b)) 0, dmr_lrrp_target := replicate (length (dmr_lrrp_target b)) 0,
        dmr_data_target_is_group := clear (dmr_data_target_is_group b),
        dmr_cach_fragment := replicate (length (dmr_cach_fragment b)) 1, cap_plus_csbk_bits := clear (cap_plus_csbk_bits b),
        cap_plus_block_num := clear (cap_plus_block_num b), data_header_valid := clear (data_header_valid b),
        data_header_crc_invalid := clear (data_header_crc_invalid b), data_header_format := replicate (length (data_header_format b)) 7,
        data_header_sap := clear (data_header_sap b), data_dbsn_expected := clear (data_dbsn_expected b),
        data_dbsn_have := clear (data_dbsn_have b), dmr_lrrp_gps := (dmr_lrrp_gps b)[0 := [], 1 := []]\<rparr>)"

definition end_slot_call :: "dmr_env \<Rightarrow> mono_s \<Rightarrow> nat \<Rightarrow> dmr_world \<Rightarrow> dmr_world" where
  "end_slot_call env end_time slot w =
     (let (h, r) = call_state_end_ex end_time slot end_time CALL_END_EXPLICIT (call_store w);
          w1 = w\<lparr>call_store := h\<rparr>
      in if r > 0 then event_sync env slot w1 else w1)"

definition dmr_sm_release_without_cc :: "dmr_env \<Rightarrow> dmr_sm_ctx \<Rightarrow> dmr_world \<Rightarrow> dmr_sm_ctx \<times> dmr_world" where
  "dmr_sm_release_without_cc env ctx w =
     (let w1 = fold (end_slot_call env (now_s w)) [0..<CALL_STATE_SLOT_COUNT] w;
          w2 = w1\<lparr>is_con_plus := 0, p25_vc_freq := [0, 0], blocks := dmr_reset_blocks (blocks w1)\<rparr>
      in (ctx\<lparr>cc_acquiring := False, cc_confirmed := False, cc_tune_request_id := 0\<rparr>, w2))"

definition dmr_sm_clear_released_carrier ::
  "dmr_env \<Rightarrow> bool \<Rightarrow> bool \<Rightarrow> dmr_sm_state \<Rightarrow> dmr_sm_ctx \<Rightarrow> dmr_world \<Rightarrow> dmr_sm_ctx \<times> dmr_world" where
  "dmr_sm_clear_released_carrier env cc_returned count_release next_state ctx w =
     (let c1 = ctx\<lparr>sm_slots := replicate 2 zero_slot, vc_freq_hz := 0, vc_lpcn := 0, vc_tg := 0, vc_dst := 0, vc_src := 0,
                   vc_slot := -1, vc_is_group := False, vc_identity_published := False, t_tune_m := 0, t_voice_m := 0\<rparr>;
          w1 = w\<lparr>trunk_is_tuned := 0, trunk_vc_freq := [0, 0], dmr_mono_slot := 0,
                 p25_sm_release_count := (if count_release then p25_sm_release_count w + 1 else p25_sm_release_count w)\<rparr>;
          (c2, w2) = (if cc_returned then (c1, w1) else dmr_sm_release_without_cc env c1 w1)
      in (set_state next_state c2, w2))"

definition do_release :: "dmr_env \<Rightarrow> dmr_sm_ctx \<Rightarrow> dmr_world \<Rightarrow> dmr_sm_ctx \<times> dmr_world" where
  "do_release env ctx w =
     (let had_force_release = (trunk_sm_force_release w \<noteq> 0);
          w1 = w\<lparr>trunk_sm_force_release := 0\<rparr>;
          cc = (if trunk_cc_freq w1 > 0 then trunk_cc_freq w1 else cc_freq_hz ctx);
          (c2, w2, result) = (if cc > 0 then dmr_sm_return_to_cc env cc ctx w1 else (ctx, w1, TUNE_OK))
      in if \<not> tune_result_is_ok result
         then (c2, if had_force_release then w2\<lparr>trunk_sm_force_release := 1\<rparr> else w2)
         else dmr_sm_clear_released_carrier env (cc > 0) True (if cc > 0 then DMR_SM_ON_CC else DMR_SM_HUNTING) c2 w2)"

definition dmr_sm_abandon_carrier :: "dmr_env \<Rightarrow> dmr_sm_ctx \<Rightarrow> dmr_world \<Rightarrow> dmr_sm_ctx \<times> dmr_world" where
  "dmr_sm_abandon_carrier env ctx w =
     (let had_carrier = (sm_state ctx = DMR_SM_TUNED \<or> trunk_is_tuned w = 1)
      in dmr_sm_clear_released_carrier env False had_carrier DMR_SM_ON_CC ctx (w\<lparr>trunk_sm_force_release := 0\<rparr>))"

section \<open>Event handlers\<close>

definition dmr_sm_resolve_tunable_grant :: "dmr_sm_ctx \<Rightarrow> dmr_world \<Rightarrow> dmr_sm_event \<Rightarrow> int option" where
  "dmr_sm_resolve_tunable_grant ctx w ev =
     (if trunk_enable w \<noteq> 1 \<or> trunk_cc_freq w = 0 \<or> cc_tune_request_id ctx \<noteq> 0 then None
      else
        (let freq = resolve_freq w (ev_freq_hz ev) (ev_lpcn ev) in
         if freq \<le> 0 then None
         else if ev_freq_hz ev \<le> 0 \<and> ev_lpcn ev > 0 \<and> \<not> lpcn_is_trusted w (ev_lpcn ev) then None
         else if sm_state ctx = DMR_SM_TUNED \<and> vc_freq_hz ctx = freq then None
         else Some freq))"

definition handle_grant :: "dmr_env \<Rightarrow> dmr_sm_event \<Rightarrow> dmr_sm_ctx \<Rightarrow> dmr_world \<Rightarrow> dmr_sm_ctx \<times> dmr_world" where
  "handle_grant env ev ctx w0 =
     (let w = trunk_recovery_note_protocol DSD_TRUNK_RECOVERY_DMR w0 in
      case dmr_sm_resolve_tunable_grant ctx w ev of
        None \<Rightarrow> (ctx, w)
      | Some freq \<Rightarrow>
          (let (c1, w1) = (if cc_acquiring ctx \<and> trunk_is_tuned w = 0 \<and> tuning_frame_is_current (cc_rx_generation ctx) w
                           then dmr_cc_note_activity_ctx env (cc_probe_freq_hz ctx) ctx w else (ctx, w));
               now_m = now_s w1;
               (w2, result, rid) = tuning_hook_tune_to_freq (tuners env) freq 0 (clock_ns w1) w1
           in if \<not> tune_result_is_ok result then (c1, w2)
              else
                (let c2 = c1\<lparr>vc_freq_hz := freq, vc_lpcn := ev_lpcn ev, vc_tg := ev_tg ev, vc_dst := ev_dst ev, vc_src := ev_src ev,
                            vc_slot := (if ev_slot ev \<ge> 0 \<and> ev_slot ev \<le> 1 then ev_slot ev else -1),
                            vc_is_group := ev_is_group ev, vc_identity_published := False, t_tune_m := now_m, t_voice_m := 0,
                            cc_acquiring := False, cc_tune_request_id := 0, sm_slots := replicate 2 zero_slot\<rparr>;
                     w3 = w2\<lparr>dmr_mono_slot := vc_slot c2, blocks := dmr_reset_blocks (blocks w2),
                            last_t3_tune_time_m := now_m, p25_sm_tune_count := p25_sm_tune_count w2 + 1\<rparr>
                 in (set_state DMR_SM_TUNED c2, w3))))"

definition event_slot :: "int \<Rightarrow> nat" where
  "event_slot slot = (if slot \<ge> 0 \<and> slot \<le> 1 then nat slot else 0)"

definition update_slot :: "nat \<Rightarrow> (dmr_sm_slot \<Rightarrow> dmr_sm_slot) \<Rightarrow> dmr_sm_ctx \<Rightarrow> dmr_sm_ctx" where
  "update_slot s f ctx = ctx\<lparr>sm_slots := (sm_slots ctx)[s := f (sm_slots ctx ! s)]\<rparr>"

definition update_voice_sync_state :: "nat \<Rightarrow> mono_s \<Rightarrow> dmr_sm_ctx \<Rightarrow> dmr_world \<Rightarrow> dmr_sm_ctx \<times> dmr_world" where
  "update_voice_sync_state slot now_m ctx w =
     (let w1 = w\<lparr>last_vc_sync_time_m := now_m\<rparr> in
      if sm_state ctx = DMR_SM_TUNED \<and> vc_slot ctx < 0
      then (ctx\<lparr>vc_slot := int slot\<rparr>, w1\<lparr>dmr_mono_slot := int slot\<rparr>) else (ctx, w1))"

definition voice_observation :: "nat \<Rightarrow> mono_s \<Rightarrow> dmr_sm_ctx \<Rightarrow> dmr_world \<Rightarrow> call_observation" where
  "voice_observation s now_m ctx w =
     (let p0 = (if DSD_SYNC_IS_DMR (synctype w) then synctype w else lastsynctype w);
          p1 = (if DSD_SYNC_IS_DMR p0 then p0 else DSD_SYNC_DMR_BS_VOICE_POS);
          target = of_int (if vc_is_group ctx then vc_tg ctx else vc_dst ctx)
      in zero_observation\<lparr>ob_protocol := p1, ob_slot := s,
           ob_kind := (if vc_is_group ctx then CALL_KIND_GROUP_VOICE else CALL_KIND_PRIVATE_VOICE),
           ob_ota_target_id := target, ob_policy_target_id := target, ob_ota_source_id := of_int (vc_src ctx),
           ob_channel := of_int (vc_lpcn ctx), ob_frequency_hz := vc_freq_hz ctx, ob_observed_m := now_m\<rparr>)"

definition handle_voice_sync :: "dmr_env \<Rightarrow> int \<Rightarrow> dmr_sm_ctx \<Rightarrow> dmr_world \<Rightarrow> dmr_sm_ctx \<times> dmr_world" where
  "handle_voice_sync env slot ctx w =
     (let now_m = now_s w;
          s = event_slot slot;
          c1 = (update_slot s (\<lambda>sl. sl\<lparr>voice_active := True, last_active_m := now_m\<rparr>) ctx)\<lparr>t_voice_m := now_m\<rparr>;
          (c2, w1) = update_voice_sync_state s now_m c1 w
      in if sm_state c2 = DMR_SM_TUNED \<and> \<not> vc_identity_published c2 \<and> (vc_slot c2 < 0 \<or> vc_slot c2 = int s)
         then (let (h, r) = call_state_observe (ext_alloc env) now_m (reacquire env) (voice_observation s now_m c2 w1)
                              CALL_BOUNDARY_CONTINUE (call_store w1)
               in (if r \<ge> 0 then c2\<lparr>vc_identity_published := True\<rparr> else c2, w1\<lparr>call_store := h\<rparr>))
         else (c2, w1))"

definition handle_data_sync :: "int \<Rightarrow> dmr_sm_ctx \<Rightarrow> dmr_world \<Rightarrow> dmr_sm_ctx \<times> dmr_world" where
  "handle_data_sync slot ctx w =
     (if trunk_tune_data_calls w \<noteq> 1 then (ctx, w)
      else (let now_m = now_s w
            in ((update_slot (event_slot slot) (\<lambda>sl. sl\<lparr>last_active_m := now_m\<rparr>) ctx)\<lparr>t_voice_m := now_m\<rparr>,
                w\<lparr>last_vc_sync_time_m := now_m\<rparr>)))"

definition handle_release :: "dmr_env \<Rightarrow> int \<Rightarrow> dmr_sm_ctx \<Rightarrow> dmr_world \<Rightarrow> dmr_sm_ctx \<times> dmr_world" where
  "handle_release env slot ctx w =
     (if sm_state ctx \<noteq> DMR_SM_TUNED then (ctx, w)
      else if trunk_sm_force_release w \<noteq> 0 then do_release env ctx w
      else if slot < 0 \<or> slot > 1
      then (update_slot 1 (\<lambda>sl. sl\<lparr>voice_active := False\<rparr>) (update_slot 0 (\<lambda>sl. sl\<lparr>voice_active := False\<rparr>) ctx), w)
      else (update_slot (nat slot) (\<lambda>sl. sl\<lparr>voice_active := False\<rparr>) ctx, w))"

section \<open>Ticks\<close>

definition tick_on_cc :: "mono_s \<Rightarrow> mono_s \<Rightarrow> dmr_sm_ctx \<Rightarrow> dmr_sm_ctx" where
  "tick_on_cc now_m cc_grace ctx =
     (let since = (if cc_acquiring ctx then cc_acquire_start_m ctx else t_cc_sync_m ctx) in
      if since \<le> 0 then ctx
      else if now_m - since > cc_grace then set_state DMR_SM_HUNTING ctx else ctx)"

definition VOICE_STALE_S :: mono_s where "VOICE_STALE_S = 1 / 5"

definition slot_stale :: "mono_s \<Rightarrow> dmr_sm_slot \<Rightarrow> bool" where
  "slot_stale now_m sl \<longleftrightarrow> voice_active sl \<and> last_active_m sl > 0 \<and> now_m - last_active_m sl > VOICE_STALE_S"

definition clear_stale_voice_slots :: "mono_s \<Rightarrow> dmr_sm_ctx \<Rightarrow> dmr_sm_ctx" where
  "clear_stale_voice_slots now_m ctx =
     ctx\<lparr>sm_slots := map (\<lambda>sl. if slot_stale now_m sl then sl\<lparr>voice_active := False\<rparr> else sl) (sm_slots ctx)\<rparr>"

definition has_voice_activity :: "dmr_sm_ctx \<Rightarrow> bool" where
  "has_voice_activity ctx \<longleftrightarrow> voice_active (sm_slots ctx ! 0) \<or> voice_active (sm_slots ctx ! 1)"

definition hangtime_expired :: "mono_s \<Rightarrow> mono_s \<Rightarrow> dmr_sm_ctx \<Rightarrow> bool" where
  "hangtime_expired now_m hangtime ctx \<longleftrightarrow> (if t_voice_m ctx \<le> 0 then False else now_m - t_voice_m ctx \<ge> hangtime)"

definition grant_timeout_expired :: "mono_s \<Rightarrow> mono_s \<Rightarrow> dmr_sm_ctx \<Rightarrow> bool" where
  "grant_timeout_expired now_m timeout ctx \<longleftrightarrow> (if t_tune_m ctx \<le> 0 then False else now_m - t_tune_m ctx \<ge> timeout)"

definition tick_tuned :: "dmr_env \<Rightarrow> mono_s \<Rightarrow> mono_s \<Rightarrow> mono_s \<Rightarrow> dmr_sm_ctx \<Rightarrow> dmr_world \<Rightarrow> dmr_sm_ctx \<times> dmr_world" where
  "tick_tuned env now_m hangtime timeout ctx w =
     (if trunk_sm_force_release w \<noteq> 0 then do_release env ctx w
      else
        (let c1 = clear_stale_voice_slots now_m ctx in
         if has_voice_activity c1 then (c1\<lparr>t_voice_m := now_m\<rparr>, w)
         else if hangtime_expired now_m hangtime c1 then do_release env c1 w
         else if t_voice_m c1 \<le> 0 \<and> grant_timeout_expired now_m timeout c1 then do_release env c1 w
         else (c1, w)))"

definition dmr_sm_event :: "dmr_env \<Rightarrow> dmr_sm_event \<Rightarrow> dmr_sm_ctx \<Rightarrow> dmr_world \<Rightarrow> dmr_sm_ctx \<times> dmr_world" where
  "dmr_sm_event env ev ctx w =
     (let c0 = (if sm_initialized ctx then ctx else init_ctx_in env w) in
      case ev_type ev of
        DMR_SM_EV_GRANT \<Rightarrow> handle_grant env ev c0 w
      | DMR_SM_EV_VOICE_SYNC \<Rightarrow> handle_voice_sync env (ev_slot ev) c0 w
      | DMR_SM_EV_DATA_SYNC \<Rightarrow> handle_data_sync (ev_slot ev) c0 w
      | DMR_SM_EV_RELEASE \<Rightarrow> handle_release env (ev_slot ev) c0 w
      | DMR_SM_EV_CC_SYNC \<Rightarrow> dmr_cc_note_heartbeat_ctx c0 w
      | DMR_SM_EV_SYNC_LOST \<Rightarrow> (c0, w))"

definition dmr_sm_tick_ctx :: "dmr_env \<Rightarrow> bool \<Rightarrow> dmr_sm_ctx \<Rightarrow> dmr_world \<Rightarrow> dmr_sm_ctx \<times> dmr_world" where
  "dmr_sm_tick_ctx env scan ctx w =
     (if \<not> trunk_dmr_recovery_allowed scan w then (ctx, w)
      else
        (let c0 = (if sm_initialized ctx then ctx else init_ctx_in env w);
             now_m = now_s w;
             cc_grace = (if cc_acquiring c0 then DMR_CC_PROBE_GRACE_S else cc_grace_s c0);
             (c1, w1, ok) = dmr_cc_resolve_pending now_m c0 w
         in if \<not> ok then (c1, w1)
            else case sm_state c1 of
                DMR_SM_IDLE \<Rightarrow> (c1, w1)
              | DMR_SM_ON_CC \<Rightarrow> (if trunk_is_tuned w1 \<noteq> 1 then tick_on_cc now_m cc_grace c1 else c1, w1)
              | DMR_SM_TUNED \<Rightarrow> tick_tuned env now_m (hangtime_s c0) (grant_timeout_s c0) c1 w1
              | DMR_SM_HUNTING \<Rightarrow> dmr_cc_hunt env scan now_m c1 w1))"

section \<open>The singleton and the emitters\<close>

text \<open>The global context, its initialised flag, and the scan coordinator's context when one is active.\<close>

record dmr_sys =
  sys_world :: dmr_world
  global_ctx :: dmr_sm_ctx
  global_initialized :: bool
  scan_ctx :: "dmr_sm_ctx option"

definition dmr_sm_get_ctx :: "dmr_env \<Rightarrow> dmr_sys \<Rightarrow> dmr_sys \<times> dmr_sm_ctx" where
  "dmr_sm_get_ctx env sys =
     (case scan_ctx sys of
        Some c \<Rightarrow> (sys, c)
      | None \<Rightarrow>
          (let sys1 = (if global_initialized sys then sys
                       else sys\<lparr>global_ctx := dmr_sm_init_ctx env (now_s (sys_world sys)) None None, global_initialized := True\<rparr>)
           in (sys1, global_ctx sys1)))"

definition put_ctx :: "dmr_sm_ctx \<Rightarrow> dmr_sys \<Rightarrow> dmr_sys" where
  "put_ctx c sys = (case scan_ctx sys of Some _ \<Rightarrow> sys\<lparr>scan_ctx := Some c\<rparr> | None \<Rightarrow> sys\<lparr>global_ctx := c\<rparr>)"

text \<open>Running an operation on the current context.\<close>

definition on_ctx :: "dmr_env \<Rightarrow> (dmr_sm_ctx \<Rightarrow> dmr_world \<Rightarrow> dmr_sm_ctx \<times> dmr_world) \<Rightarrow> dmr_sys \<Rightarrow> dmr_sys" where
  "on_ctx env f sys =
     (let (sys1, c) = dmr_sm_get_ctx env sys; (c', w') = f c (sys_world sys1) in put_ctx c' (sys1\<lparr>sys_world := w'\<rparr>))"

definition zero_event :: dmr_sm_event where
  "zero_event = \<lparr>ev_type = DMR_SM_EV_GRANT, ev_slot = 0, ev_freq_hz = 0, ev_lpcn = 0, ev_tg = 0, ev_src = 0, ev_dst = 0,
     ev_is_group = False\<rparr>"

definition dmr_sm_ev_group_grant :: "int \<Rightarrow> int \<Rightarrow> int \<Rightarrow> int \<Rightarrow> dmr_sm_event" where
  "dmr_sm_ev_group_grant freq lpcn tg src =
     zero_event\<lparr>ev_type := DMR_SM_EV_GRANT, ev_slot := -1, ev_freq_hz := freq, ev_lpcn := lpcn, ev_tg := tg, ev_src := src,
       ev_is_group := True\<rparr>"

definition dmr_sm_ev_indiv_grant :: "int \<Rightarrow> int \<Rightarrow> int \<Rightarrow> int \<Rightarrow> dmr_sm_event" where
  "dmr_sm_ev_indiv_grant freq lpcn dst src =
     zero_event\<lparr>ev_type := DMR_SM_EV_GRANT, ev_slot := -1, ev_freq_hz := freq, ev_lpcn := lpcn, ev_dst := dst, ev_src := src,
       ev_is_group := False\<rparr>"

definition dmr_sm_ev_voice_sync :: "int \<Rightarrow> dmr_sm_event" where
  "dmr_sm_ev_voice_sync slot = zero_event\<lparr>ev_type := DMR_SM_EV_VOICE_SYNC, ev_slot := slot\<rparr>"

definition dmr_sm_ev_data_sync :: "int \<Rightarrow> dmr_sm_event" where
  "dmr_sm_ev_data_sync slot = zero_event\<lparr>ev_type := DMR_SM_EV_DATA_SYNC, ev_slot := slot\<rparr>"

definition dmr_sm_ev_release :: "int \<Rightarrow> dmr_sm_event" where
  "dmr_sm_ev_release slot = zero_event\<lparr>ev_type := DMR_SM_EV_RELEASE, ev_slot := slot\<rparr>"

definition dmr_sm_ev_cc_sync :: dmr_sm_event where
  "dmr_sm_ev_cc_sync = zero_event\<lparr>ev_type := DMR_SM_EV_CC_SYNC, ev_slot := -1\<rparr>"

definition dmr_sm_emit_voice_sync :: "dmr_env \<Rightarrow> int \<Rightarrow> dmr_sys \<Rightarrow> dmr_sys" where
  "dmr_sm_emit_voice_sync env slot = on_ctx env (dmr_sm_event env (dmr_sm_ev_voice_sync slot))"

definition dmr_sm_emit_data_sync :: "dmr_env \<Rightarrow> int \<Rightarrow> dmr_sys \<Rightarrow> dmr_sys" where
  "dmr_sm_emit_data_sync env slot = on_ctx env (dmr_sm_event env (dmr_sm_ev_data_sync slot))"

definition dmr_sm_emit_release :: "dmr_env \<Rightarrow> int \<Rightarrow> dmr_sys \<Rightarrow> dmr_sys" where
  "dmr_sm_emit_release env slot = on_ctx env (dmr_sm_event env (dmr_sm_ev_release slot))"

definition dmr_sm_emit_group_grant_slot :: "dmr_env \<Rightarrow> int \<Rightarrow> int \<Rightarrow> int \<Rightarrow> int \<Rightarrow> int \<Rightarrow> dmr_sys \<Rightarrow> dmr_sys" where
  "dmr_sm_emit_group_grant_slot env freq lpcn slot tg src =
     on_ctx env (dmr_sm_event env ((dmr_sm_ev_group_grant freq lpcn tg src)\<lparr>ev_slot := (if slot \<ge> 0 \<and> slot \<le> 1 then slot else -1)\<rparr>))"

definition dmr_sm_emit_group_grant :: "dmr_env \<Rightarrow> int \<Rightarrow> int \<Rightarrow> int \<Rightarrow> int \<Rightarrow> dmr_sys \<Rightarrow> dmr_sys" where
  "dmr_sm_emit_group_grant env freq lpcn tg src = dmr_sm_emit_group_grant_slot env freq lpcn (-1) tg src"

definition dmr_sm_emit_indiv_grant_slot :: "dmr_env \<Rightarrow> int \<Rightarrow> int \<Rightarrow> int \<Rightarrow> int \<Rightarrow> int \<Rightarrow> dmr_sys \<Rightarrow> dmr_sys" where
  "dmr_sm_emit_indiv_grant_slot env freq lpcn slot dst src =
     on_ctx env (dmr_sm_event env ((dmr_sm_ev_indiv_grant freq lpcn dst src)\<lparr>ev_slot := (if slot \<ge> 0 \<and> slot \<le> 1 then slot else -1)\<rparr>))"

definition dmr_sm_emit_indiv_grant :: "dmr_env \<Rightarrow> int \<Rightarrow> int \<Rightarrow> int \<Rightarrow> int \<Rightarrow> dmr_sys \<Rightarrow> dmr_sys" where
  "dmr_sm_emit_indiv_grant env freq lpcn dst src = dmr_sm_emit_indiv_grant_slot env freq lpcn (-1) dst src"

text \<open>
  \<open>dmr_sm_init\<close> clears the flag, fetches the context (which re-creates the global one with defaults when
  no scan context is active) and initialises it with the real options and state.
\<close>

definition dmr_sm_init :: "dmr_env \<Rightarrow> dmr_sys \<Rightarrow> dmr_sys" where
  "dmr_sm_init env sys = on_ctx env (\<lambda>c w. (init_ctx_in env w, w)) (sys\<lparr>global_initialized := False\<rparr>)"

fun dmr_sm_on_neighbor_update :: "bool \<Rightarrow> int list \<Rightarrow> dmr_world \<Rightarrow> dmr_world" where
  "dmr_sm_on_neighbor_update alloc [] w = w"
| "dmr_sm_on_neighbor_update alloc (f # fs) w =
     dmr_sm_on_neighbor_update alloc fs
       (if f = 0 \<or> f = trunk_cc_freq w then w
        else w\<lparr>candidates := fst (cc_candidates_add alloc f True CC_CANDIDATE_CURRENT_SITE (candidates w))\<rparr>)"

end
