(* ===== verification/Dmr_Sm_Props.thy ===== *)
theory Dmr_Sm_Props
  imports Dmr_Sm
begin

text \<open>
  Correctness of the DMR trunking state machine: the context invariant under every operation and any
  behaviour of the environment, what can enter and leave the tuned state, what confirms a control
  channel, that a silent voice channel is left in bounded time, and that a refused return changes
  nothing.
\<close>

section \<open>Operations as one machine\<close>

datatype dmr_op = OpEvent dmr_sm_event | OpTick bool | OpActivity bool int | OpHeartbeat bool
  | OpBegin int u64 | OpReturn int | OpAbandon | OpInit | OpWorld dmr_world

text \<open>\<open>OpWorld\<close> is any change of the decoder's state, options or clock between two operations.\<close>

fun dmr_step :: "dmr_env \<Rightarrow> dmr_op \<Rightarrow> dmr_sm_ctx \<times> dmr_world \<Rightarrow> dmr_sm_ctx \<times> dmr_world" where
  "dmr_step env (OpEvent ev) (c, w) = dmr_sm_event env ev c w"
| "dmr_step env (OpTick scan) (c, w) = dmr_sm_tick_ctx env scan c w"
| "dmr_step env (OpActivity scan f) (c, w) = dmr_sm_note_cc_activity env scan f c w"
| "dmr_step env (OpHeartbeat scan) (c, w) = dmr_sm_note_cc_heartbeat scan c w"
| "dmr_step env (OpBegin f rid) (c, w) = dmr_sm_begin_cc_acquisition env f rid c w"
| "dmr_step env (OpReturn f) (c, w) = (let (c', w', r) = dmr_sm_return_to_cc env f c w in (c', w'))"
| "dmr_step env OpAbandon (c, w) = dmr_sm_abandon_carrier env c w"
| "dmr_step env OpInit (c, w) = (init_ctx_in env w, w)"
| "dmr_step env (OpWorld w') (c, w) = (c, w')"

definition dmr_start :: "dmr_env \<Rightarrow> dmr_sm_ctx \<times> dmr_world \<Rightarrow> bool" where
  "dmr_start env s \<longleftrightarrow> fst s = zero_ctx \<or> fst s = init_ctx_in env (snd s)"

text \<open>
  The context invariant: an outstanding control-channel request belongs to an acquisition on a control
  channel; a tuned context has a voice frequency and no acquisition of any kind.
\<close>

definition ctx_inv :: "dmr_sm_ctx \<Rightarrow> bool" where
  "ctx_inv c \<longleftrightarrow>
     length (sm_slots c) = 2 \<and> vc_slot c \<in> {-1, 0, 1} \<and> 0 \<le> vc_freq_hz c \<and>
     (cc_tune_request_id c \<noteq> 0 \<longrightarrow> sm_state c = DMR_SM_ON_CC \<and> cc_acquiring c \<and> cc_probe_freq_hz c > 0) \<and>
     (sm_state c = DMR_SM_TUNED \<longrightarrow> vc_freq_hz c > 0 \<and> \<not> cc_acquiring c) \<and>
     (cc_confirmed c \<longrightarrow> cc_freq_hz c > 0)"

lemma set_state_eq: "set_state s c = c\<lparr>sm_state := s\<rparr>"
  by (cases c) (simp add: set_state_def)

lemma set_state_simps [simp]:
  "sm_state (set_state s c) = s" "sm_slots (set_state s c) = sm_slots c" "vc_freq_hz (set_state s c) = vc_freq_hz c"
  "vc_lpcn (set_state s c) = vc_lpcn c" "vc_tg (set_state s c) = vc_tg c" "vc_dst (set_state s c) = vc_dst c"
  "vc_src (set_state s c) = vc_src c" "vc_slot (set_state s c) = vc_slot c" "vc_is_group (set_state s c) = vc_is_group c"
  "t_tune_m (set_state s c) = t_tune_m c" "t_voice_m (set_state s c) = t_voice_m c"
  "cc_freq_hz (set_state s c) = cc_freq_hz c" "cc_probe_freq_hz (set_state s c) = cc_probe_freq_hz c"
  "cc_tune_request_id (set_state s c) = cc_tune_request_id c" "cc_acquiring (set_state s c) = cc_acquiring c"
  "cc_confirmed (set_state s c) = cc_confirmed c" "cc_acquire_start_m (set_state s c) = cc_acquire_start_m c"
  "hangtime_s (set_state s c) = hangtime_s c" "grant_timeout_s (set_state s c) = grant_timeout_s c"
  "sm_initialized (set_state s c) = sm_initialized c" "cc_rx_generation (set_state s c) = cc_rx_generation c"
  "cc_rx_freq_hz (set_state s c) = cc_rx_freq_hz c"
  by (simp_all add: set_state_def)

lemma init_ctx_simps [simp]:
  "sm_slots (dmr_sm_init_ctx env now o' st) = replicate 2 zero_slot"
  "vc_slot (dmr_sm_init_ctx env now o' st) = -1" "vc_freq_hz (dmr_sm_init_ctx env now o' st) = 0"
  "cc_tune_request_id (dmr_sm_init_ctx env now o' st) = 0" "cc_acquiring (dmr_sm_init_ctx env now o' st) = False"
  "cc_confirmed (dmr_sm_init_ctx env now o' st) = False" "sm_initialized (dmr_sm_init_ctx env now o' st) = True"
  by (simp_all add: dmr_sm_init_ctx_def Let_def zero_ctx_def split: option.splits)

lemma init_not_tuned [simp]: "sm_state (dmr_sm_init_ctx env now o' st) \<noteq> DMR_SM_TUNED"
  by (simp add: dmr_sm_init_ctx_def Let_def split: option.splits)

lemma ctx_inv_init [simp]: "ctx_inv (dmr_sm_init_ctx env now o' st)" "ctx_inv zero_ctx"
  by (simp_all add: ctx_inv_def) (simp add: zero_ctx_def)

lemma ctx_inv_init_in [simp]: "ctx_inv (init_ctx_in env w)"
  by (simp add: init_ctx_in_def)

lemma resolve_idle [simp]: "cc_tune_request_id c = 0 \<Longrightarrow> dmr_cc_resolve_pending now c w = (c, w, True)"
  by (simp add: dmr_cc_resolve_pending_def)

lemma resolve_forms:
  assumes "dmr_cc_resolve_pending now c w = (c', w', ok)"
  obtains (idle) "cc_tune_request_id c = 0" "c' = c" "w' = w" "ok"
  | (waiting) "cc_tune_request_id c \<noteq> 0" "c' = c" "w' = w" "\<not> ok"
  | (completed) a where "cc_tune_request_id c \<noteq> 0" "ok"
      "c' = c\<lparr>cc_tune_request_id := 0, cc_acquire_start_m := a, cc_rx_freq_hz := cc_probe_freq_hz c,
        cc_rx_generation := generation w'\<rparr>"
  | (failed) "cc_tune_request_id c \<noteq> 0" "\<not> ok"
      "c' = c\<lparr>cc_tune_request_id := 0, cc_acquiring := False, cc_retry_after_m := now + 2, sm_state := DMR_SM_HUNTING\<rparr>"
proof (cases "cc_tune_request_id c = 0")
  case True
  show ?thesis by (rule idle) (use assms True in \<open>simp_all add: dmr_cc_resolve_pending_def\<close>)
next
  case rid: False
  obtain r m where st: "tuning_request_status (cc_tune_request_id c) w = (r, m)" by (meson surj_pair)
  let ?w1 = "if r = TUNE_PENDING then tuning_request_publish (cc_tune_request_id c) TUNE_FAILED (clock_ns w) w else w"
  obtain r1 m1 where st1: "(if r = TUNE_PENDING then tuning_request_status (cc_tune_request_id c) ?w1 else (r, m)) = (r1, m1)"
    by (meson surj_pair)
  consider (w) "r = TUNE_PENDING" "now < cc_tune_deadline_m c"
    | (ok) "\<not> (r = TUNE_PENDING \<and> now < cc_tune_deadline_m c)" "r1 = TUNE_OK"
    | (bad) "\<not> (r = TUNE_PENDING \<and> now < cc_tune_deadline_m c)" "r1 \<noteq> TUNE_OK" by blast
  then show ?thesis
  proof cases
    case w
    show ?thesis by (rule waiting) (use assms rid st w in \<open>simp_all add: dmr_cc_resolve_pending_def\<close>)
  next
    case ok
    with assms rid st st1 have res: "w' = ?w1" "ok"
      "c' = c\<lparr>cc_tune_request_id := 0, cc_acquire_start_m := (if m1 > 0 then m1 else now), cc_rx_freq_hz := cc_probe_freq_hz c,
        cc_rx_generation := generation w'\<rparr>"
      unfolding dmr_cc_resolve_pending_def Let_def by (simp_all only: if_False prod.case) (auto split: if_splits)
    show ?thesis by (rule completed [OF rid res(2,3)])
  next
    case bad
    with assms rid st st1 have bad2: "\<not> ok"
      "c' = set_state DMR_SM_HUNTING (c\<lparr>cc_tune_request_id := 0, cc_acquiring := False, cc_retry_after_m := now + 2\<rparr>)"
      unfolding dmr_cc_resolve_pending_def Let_def by (simp_all only: if_False prod.case) (auto split: if_splits)
    have "set_state DMR_SM_HUNTING x = x\<lparr>sm_state := DMR_SM_HUNTING\<rparr>" for x by (simp add: set_state_eq)
    with bad2 show ?thesis by (intro failed) (simp_all add: rid)
  qed
qed

lemma resolve_effect:
  assumes "dmr_cc_resolve_pending now c w = (c', w', ok)"
  shows "ok \<Longrightarrow> cc_tune_request_id c' = 0" "cc_confirmed c' = cc_confirmed c"
    "ok \<Longrightarrow> cc_acquiring c' = cc_acquiring c" "cc_freq_hz c' = cc_freq_hz c" "ok \<Longrightarrow> sm_state c' = sm_state c"
    "sm_slots c' = sm_slots c" "cc_probe_freq_hz c' = cc_probe_freq_hz c" "sm_initialized c' = sm_initialized c"
  using assms by (cases rule: resolve_forms; simp)+

lemma resolve_inv:
  assumes "dmr_cc_resolve_pending now c w = (c', w', ok)" "ctx_inv c"
  shows "ctx_inv c'" "sm_state c = DMR_SM_TUNED \<Longrightarrow> c' = c \<and> w' = w \<and> ok"
    "sm_state c' = DMR_SM_TUNED \<longleftrightarrow> sm_state c = DMR_SM_TUNED"
  using assms by (cases rule: resolve_forms; simp add: ctx_inv_def)+

section \<open>The invariant, operation by operation\<close>

lemma begin_acquisition_fst:
  assumes "dmr_sm_begin_cc_acquisition env f rid c w = (c', w')" "ctx_inv c"
  shows "ctx_inv c'" "f > 0 \<Longrightarrow> sm_state c' \<noteq> DMR_SM_TUNED" "f > 0 \<Longrightarrow> \<not> cc_confirmed c'"
proof -
  have "ctx_inv c' \<and> (f > 0 \<longrightarrow> sm_state c' \<noteq> DMR_SM_TUNED \<and> \<not> cc_confirmed c')"
  proof (cases "f \<le> 0")
    case False
    define c2 where "c2 = (let c1 = (init_ctx_in env w)\<lparr>cc_freq_hz := f, cc_probe_freq_hz := f, cc_acquiring := True,
                    cc_acquire_start_m := now_s w, cc_tune_request_id := rid,
                    cc_tune_deadline_m := now_s w + DMR_CC_TUNE_TIMEOUT_S, sm_state := DMR_SM_ON_CC\<rparr>
      in if rid = 0 then c1\<lparr>cc_rx_freq_hz := f, cc_rx_generation := generation w\<rparr> else c1)"
    obtain c3 w3 ok where r: "dmr_cc_resolve_pending (cc_acquire_start_m c2) c2 w = (c3, w3, ok)" by (rule prod_cases3)
    have i: "ctx_inv c2" using False by (simp add: c2_def Let_def ctx_inv_def init_ctx_in_def)
    have s: "sm_state c2 = DMR_SM_ON_CC" "\<not> cc_confirmed c2" by (simp_all add: c2_def Let_def init_ctx_in_def)
    from assms(1) r False have "c' = c3"
      by (simp add: dmr_sm_begin_cc_acquisition_def c2_def Let_def del: fold_simps)
    with resolve_inv [OF r i] resolve_effect [OF r] s show ?thesis by simp
  qed (use assms in \<open>simp add: dmr_sm_begin_cc_acquisition_def\<close>)
  then show "ctx_inv c'" "f > 0 \<Longrightarrow> sm_state c' \<noteq> DMR_SM_TUNED" "f > 0 \<Longrightarrow> \<not> cc_confirmed c'" by auto
qed

lemma ctx_inv_on_cc: "ctx_inv c \<Longrightarrow> ctx_inv (set_state DMR_SM_ON_CC c)"
  by (simp add: ctx_inv_def)

lemma return_to_cc_forms:
  assumes "dmr_sm_return_to_cc env f c w = (c', w', r)"
  obtains (invalid) "f \<le> 0" "c' = c" "w' = w" "r = TUNE_FAILED"
  | (refused) w1 rid where "f > 0" "\<not> tune_result_is_ok r" "c' = c"
      "tuning_hook_return_to_cc (tuners env) (clock_ns w) (w\<lparr>p25_cc_freq := 0, trunk_cc_freq := f\<rparr>) = (w1, r, rid)"
      "w' = w1\<lparr>p25_cc_freq := p25_cc_freq w, trunk_cc_freq := trunk_cc_freq w\<rparr>"
  | (accepted) w1 rid where "f > 0" "tune_result_is_ok r"
      "tuning_hook_return_to_cc (tuners env) (clock_ns w) (w\<lparr>p25_cc_freq := 0, trunk_cc_freq := f\<rparr>) = (w1, r, rid)"
      "dmr_sm_begin_cc_acquisition env f rid (set_state DMR_SM_ON_CC c) (w1\<lparr>is_con_plus := 0\<rparr>) = (c', w')"
proof (cases "f \<le> 0")
  case True
  then show ?thesis using assms by (intro invalid) (simp_all add: dmr_sm_return_to_cc_def)
next
  case False
  obtain w1 res rid where h: "tuning_hook_return_to_cc (tuners env) (clock_ns w) (w\<lparr>p25_cc_freq := 0, trunk_cc_freq := f\<rparr>) = (w1, res, rid)"
    by (rule prod_cases3)
  obtain c3 w3 where b: "dmr_sm_begin_cc_acquisition env f rid (set_state DMR_SM_ON_CC c) (w1\<lparr>is_con_plus := 0\<rparr>) = (c3, w3)"
    by (meson surj_pair)
  show ?thesis
  proof (cases "tune_result_is_ok res")
    case True
    with assms False h b have "c' = c3" "w' = w3" "r = res" by (simp_all add: dmr_sm_return_to_cc_def Let_def)
    with True False h b show ?thesis by (intro accepted) simp_all
  next
    case bad: False
    with assms False h b have "c' = c" "w' = w1\<lparr>p25_cc_freq := p25_cc_freq w, trunk_cc_freq := trunk_cc_freq w\<rparr>" "r = res"
      by (simp_all add: dmr_sm_return_to_cc_def Let_def)
    with bad False h show ?thesis by (intro refused) simp_all
  qed
qed

lemma return_to_cc_fst:
  assumes "dmr_sm_return_to_cc env f c w = (c', w', r)" "ctx_inv c"
  shows "ctx_inv c'" "tune_result_is_ok r \<Longrightarrow> sm_state c' \<noteq> DMR_SM_TUNED" "\<not> tune_result_is_ok r \<Longrightarrow> c' = c"
    "cc_confirmed c' \<Longrightarrow> c' = c"
proof -
  have "ctx_inv c' \<and> (tune_result_is_ok r \<longrightarrow> sm_state c' \<noteq> DMR_SM_TUNED) \<and> (\<not> tune_result_is_ok r \<longrightarrow> c' = c)
    \<and> (cc_confirmed c' \<longrightarrow> c' = c)"
    using assms(1)
  proof (cases rule: return_to_cc_forms)
    case invalid
    then show ?thesis using assms(2) by (simp add: tune_result_is_ok_def)
  next
    case refused
    then show ?thesis using assms(2) by simp
  next
    case accepted
    then show ?thesis using begin_acquisition_fst [OF accepted(4) ctx_inv_on_cc [OF assms(2)]] by simp
  qed
  then show "ctx_inv c'" "tune_result_is_ok r \<Longrightarrow> sm_state c' \<noteq> DMR_SM_TUNED" "\<not> tune_result_is_ok r \<Longrightarrow> c' = c"
    "cc_confirmed c' \<Longrightarrow> c' = c" by auto
qed

lemma clear_released_form:
  assumes "dmr_sm_clear_released_carrier env returned n next c w = (c', w')"
  shows "\<exists>a k rid. (returned \<longrightarrow> a = cc_acquiring c \<and> k = cc_confirmed c \<and> rid = cc_tune_request_id c) \<and>
    (\<not> returned \<longrightarrow> \<not> a \<and> \<not> k \<and> rid = 0) \<and>
    c' = c\<lparr>sm_slots := replicate 2 zero_slot, vc_freq_hz := 0, vc_lpcn := 0, vc_tg := 0, vc_dst := 0, vc_src := 0,
      vc_slot := -1, vc_is_group := False, vc_identity_published := False, t_tune_m := 0, t_voice_m := 0,
      cc_acquiring := a, cc_confirmed := k, cc_tune_request_id := rid, sm_state := next\<rparr>"
proof (cases returned)
  case True
  with assms show ?thesis
    by (intro exI [of _ "cc_acquiring c"] exI [of _ "cc_confirmed c"] exI [of _ "cc_tune_request_id c"])
      (simp add: dmr_sm_clear_released_carrier_def Let_def set_state_eq)
next
  case False
  with assms show ?thesis
    by (intro exI [of _ False] exI [of _ 0])
      (simp add: dmr_sm_clear_released_carrier_def dmr_sm_release_without_cc_def Let_def set_state_eq del: fold_simps)
qed

lemma clear_released_fst:
  assumes "dmr_sm_clear_released_carrier env returned n next c w = (c', w')" "ctx_inv c" "next \<noteq> DMR_SM_TUNED"
    "returned \<Longrightarrow> next = DMR_SM_ON_CC"
  shows "ctx_inv c'" "sm_state c' = next" "vc_freq_hz c' = 0" "\<not> has_voice_activity c'" "cc_confirmed c' \<Longrightarrow> cc_confirmed c"
proof -
  from clear_released_form [OF assms(1)] obtain a k rid where
    f: "returned \<longrightarrow> a = cc_acquiring c \<and> k = cc_confirmed c \<and> rid = cc_tune_request_id c" "\<not> returned \<longrightarrow> \<not> a \<and> \<not> k \<and> rid = 0"
    and c': "c' = c\<lparr>sm_slots := replicate 2 zero_slot, vc_freq_hz := 0, vc_lpcn := 0, vc_tg := 0, vc_dst := 0, vc_src := 0,
      vc_slot := -1, vc_is_group := False, vc_identity_published := False, t_tune_m := 0, t_voice_m := 0,
      cc_acquiring := a, cc_confirmed := k, cc_tune_request_id := rid, sm_state := next\<rparr>" by blast
  show "sm_state c' = next" "vc_freq_hz c' = 0" unfolding c' by simp_all
  show "\<not> has_voice_activity c'" unfolding c' by (simp add: has_voice_activity_def zero_slot_def numeral_2_eq_2)
  show "cc_confirmed c' \<Longrightarrow> cc_confirmed c" unfolding c' using f by (cases returned) simp_all
  show "ctx_inv c'" unfolding c' using f assms(2-4) by (cases returned) (simp_all add: ctx_inv_def)
qed

lemma note_activity_form:
  assumes "dmr_cc_note_activity_ctx env f c w = (c', w')"
  obtains (ignored) "c' = c" "w' = w"
  | (noted) cur where "cur = dmr_cc_current_frequency env (Some c) w" "cur > 0" "f > 0 \<Longrightarrow> cur = f"
      "cc_acquiring c \<Longrightarrow> cur = cc_probe_freq_hz c"
      "c' = c\<lparr>cc_freq_hz := cur, cc_probe_freq_hz := cur, cc_rx_freq_hz := cur, cc_rx_generation := generation w,
         cc_confirmed := True, cc_acquiring := False, cc_retry_after_m := 0, t_cc_sync_m := now_s w, sm_state := DMR_SM_ON_CC\<rparr>"
proof -
  let ?cur = "dmr_cc_current_frequency env (Some c) w"
  show ?thesis
  proof (cases "?cur \<le> 0 \<or> (f > 0 \<and> f \<noteq> ?cur) \<or> (cc_acquiring c \<and> ?cur \<noteq> cc_probe_freq_hz c)")
    case True
    with assms show ?thesis by (intro ignored) (simp_all add: dmr_cc_note_activity_ctx_def Let_def)
  next
    case False
    have "(c', w') = (set_state DMR_SM_ON_CC (c\<lparr>cc_freq_hz := ?cur, cc_probe_freq_hz := ?cur, cc_rx_freq_hz := ?cur,
        cc_rx_generation := generation w, cc_confirmed := True, cc_acquiring := False, cc_retry_after_m := 0, t_cc_sync_m := now_s w\<rparr>),
        snd (dmr_cc_note_activity_ctx env f c w))"
      using assms unfolding dmr_cc_note_activity_ctx_def Let_def if_not_P [OF False] by simp
    then show ?thesis by (intro noted [OF refl]) (use False in \<open>auto simp: set_state_eq\<close>)
  qed
qed

lemma note_activity_fst:
  assumes "dmr_cc_note_activity_ctx env f c w = (c', w')" "ctx_inv c" "cc_tune_request_id c = 0"
  shows "ctx_inv c'" "sm_state c' = DMR_SM_TUNED \<Longrightarrow> c' = c" "cc_tune_request_id c' = 0"
  using assms by (cases rule: note_activity_form; simp add: ctx_inv_def)+

lemma next_mapped_loop_fst: "next_mapped_loop n c w = (c', f) \<Longrightarrow> \<exists>i. c' = c\<lparr>cc_hunt_index := i\<rparr>"
proof (induction n arbitrary: c)
  case 0
  then show ?case by (intro exI [where x = "cc_hunt_index c"]) simp
next
  case (Suc n)
  define c1 where "c1 = (if cc_hunt_index c \<ge> lcn_freq_count w \<or> cc_hunt_index c < 0 then c\<lparr>cc_hunt_index := 0\<rparr> else c)"
  have upd: "c1\<lparr>cc_hunt_index := k\<rparr> = c\<lparr>cc_hunt_index := k\<rparr>" for k by (simp add: c1_def)
  from Suc.prems consider "next_mapped_loop n (c1\<lparr>cc_hunt_index := cc_hunt_index c1 + 1\<rparr>) w = (c', f)"
    | k where "c' = c1\<lparr>cc_hunt_index := k\<rparr>"
    by (auto simp: Let_def c1_def split: if_splits)
  then show ?case
  proof cases
    case 1
    from Suc.IH [OF this] show ?thesis by (auto simp: upd)
  qed (auto simp: upd)
qed

lemma next_candidate_fst:
  assumes "dmr_cc_next_candidate env c w = (c', w', f)"
  obtains i k where "c' = c\<lparr>cc_hunt_index := i\<rparr>" "w' = w\<lparr>candidates := k\<rparr>"
proof -
  have c: "c = c\<lparr>cc_hunt_index := cc_hunt_index c\<rparr>" and w: "w = w\<lparr>candidates := candidates w\<rparr>" by simp_all
  obtain k f0 where cn: "cc_candidates_next (trunk_cc_freq w) (p25_cc_freq w) (now_s w) CC_CANDIDATE_CURRENT_SITE (candidates w) = (k, f0)"
    by (meson surj_pair)
  obtain c1 f1 where m: "dmr_cc_next_mapped_candidate c w = (c1, f1)" by (meson surj_pair)
  then obtain i where i: "c1 = c\<lparr>cc_hunt_index := i\<rparr>"
    using next_mapped_loop_fst unfolding dmr_cc_next_mapped_candidate_def by blast
  from assms consider "c' = c" "w' = w" | "c' = c1" "w' = w" | "c' = c" "w' = w\<lparr>candidates := k\<rparr>"
    unfolding dmr_cc_next_candidate_def Let_def cn m prod.case
    by (simp only: Pair_inject split: if_split_asm) blast+
  then show ?thesis using that c w i by metis
qed

lemma do_release_forms:
  assumes "do_release env c w = (c', w')"
  defines "w1 \<equiv> w\<lparr>trunk_sm_force_release := 0\<rparr>"
    and "cc \<equiv> if trunk_cc_freq w > 0 then trunk_cc_freq w else cc_freq_hz c"
  obtains (refused) w2 r where "cc > 0" "dmr_sm_return_to_cc env cc c w1 = (c, w2, r)" "\<not> tune_result_is_ok r"
      "c' = c" "w' = (if trunk_sm_force_release w \<noteq> 0 then w2\<lparr>trunk_sm_force_release := 1\<rparr> else w2)"
  | (returned) c2 w2 r where "cc > 0" "dmr_sm_return_to_cc env cc c w1 = (c2, w2, r)" "tune_result_is_ok r"
      "dmr_sm_clear_released_carrier env True True DMR_SM_ON_CC c2 w2 = (c', w')"
  | (nowhere) "cc \<le> 0" "dmr_sm_clear_released_carrier env False True DMR_SM_HUNTING c w1 = (c', w')"
proof (cases "cc > 0")
  case False
  have cc: "(if trunk_cc_freq w1 > 0 then trunk_cc_freq w1 else cc_freq_hz c) = cc" by (simp add: w1_def cc_def)
  from assms(1) have "dmr_sm_clear_released_carrier env False True DMR_SM_HUNTING c w1 = (c', w')"
    using False unfolding do_release_def Let_def w1_def [symmetric] cc by (simp add: tune_result_is_ok_def)
  with False show ?thesis by (intro nowhere) simp_all
next
  case True
  obtain c2 w2 r where r: "dmr_sm_return_to_cc env cc c w1 = (c2, w2, r)" by (rule prod_cases3)
  have cc: "(if trunk_cc_freq w1 > 0 then trunk_cc_freq w1 else cc_freq_hz c) = cc" by (simp add: w1_def cc_def)
  show ?thesis
  proof (cases "tune_result_is_ok r")
    case ok: True
    show ?thesis
      by (intro returned [OF True r ok]) (use assms(1) r True ok in \<open>simp add: do_release_def Let_def w1_def [symmetric] cc\<close>)
  next
    case bad: False
    have "c2 = c" using r by (cases rule: return_to_cc_forms) (use bad in \<open>simp_all add: tune_result_is_ok_def\<close>)
    with assms(1) r True bad show ?thesis
      by (intro refused [OF True _ bad, of w2]) (simp_all add: do_release_def Let_def w1_def [symmetric] cc)
  qed
qed

lemma do_release_fst:
  assumes "do_release env c w = (c', w')" "ctx_inv c"
  shows "ctx_inv c'" "sm_state c' = DMR_SM_TUNED \<Longrightarrow> c' = c" "cc_confirmed c' \<Longrightarrow> cc_confirmed c"
proof -
  have "ctx_inv c' \<and> (sm_state c' = DMR_SM_TUNED \<longrightarrow> c' = c) \<and> (cc_confirmed c' \<longrightarrow> cc_confirmed c)"
    using assms(1)
  proof (cases rule: do_release_forms)
    case (refused w2 r)
    with assms(2) show ?thesis by simp
  next
    case (returned c2 w2 r)
    note i = return_to_cc_fst [OF returned(2) assms(2)]
    show ?thesis using clear_released_fst [OF returned(4) i(1)] i(4) by auto
  next
    case nowhere
    show ?thesis using clear_released_fst [OF nowhere(2) assms(2)] by auto
  qed
  then show "ctx_inv c'" "sm_state c' = DMR_SM_TUNED \<Longrightarrow> c' = c" "cc_confirmed c' \<Longrightarrow> cc_confirmed c" by auto
qed

lemma handle_grant_forms:
  assumes "handle_grant env ev c w = (c', w')"
  defines "v \<equiv> trunk_recovery_note_protocol DSD_TRUNK_RECOVERY_DMR w"
  obtains (ignored) "dmr_sm_resolve_tunable_grant c v ev = None" "c' = c" "w' = v"
  | (acted) freq c1 w1 w2 r rid where "dmr_sm_resolve_tunable_grant c v ev = Some freq"
      "(c1, w1) = (if cc_acquiring c \<and> trunk_is_tuned v = 0 \<and> tuning_frame_is_current (cc_rx_generation c) v
                   then dmr_cc_note_activity_ctx env (cc_probe_freq_hz c) c v else (c, v))"
      "tuning_hook_tune_to_freq (tuners env) freq 0 (clock_ns w1) w1 = (w2, r, rid)"
      "\<not> tune_result_is_ok r \<Longrightarrow> c' = c1 \<and> w' = w2"
      "tune_result_is_ok r \<Longrightarrow> p25_sm_tune_count w' = p25_sm_tune_count w2 + 1 \<and>
         c' = c1\<lparr>vc_freq_hz := freq, vc_lpcn := ev_lpcn ev, vc_tg := ev_tg ev, vc_dst := ev_dst ev, vc_src := ev_src ev,
            vc_slot := (if ev_slot ev \<ge> 0 \<and> ev_slot ev \<le> 1 then ev_slot ev else -1),
            vc_is_group := ev_is_group ev, vc_identity_published := False, t_tune_m := now_s w1, t_voice_m := 0,
            cc_acquiring := False, cc_tune_request_id := 0, sm_slots := replicate 2 zero_slot, sm_state := DMR_SM_TUNED\<rparr>"
proof (cases "dmr_sm_resolve_tunable_grant c v ev")
  case None
  with assms(1) show ?thesis by (intro ignored) (simp_all add: handle_grant_def v_def)
next
  case (Some freq)
  obtain c1 w1 where n: "(c1, w1) = (if cc_acquiring c \<and> trunk_is_tuned v = 0 \<and> tuning_frame_is_current (cc_rx_generation c) v
                   then dmr_cc_note_activity_ctx env (cc_probe_freq_hz c) c v else (c, v))" by (metis surj_pair)
  obtain w2 r rid where t: "tuning_hook_tune_to_freq (tuners env) freq 0 (clock_ns w1) w1 = (w2, r, rid)" by (rule prod_cases3)
  show ?thesis
  proof (rule acted [OF Some n t])
    assume "\<not> tune_result_is_ok r"
    with assms(1) Some t show "c' = c1 \<and> w' = w2"
      by (simp add: handle_grant_def v_def [symmetric] n [symmetric] Let_def)
  next
    assume "tune_result_is_ok r"
    with assms(1) Some t show "p25_sm_tune_count w' = p25_sm_tune_count w2 + 1 \<and>
         c' = c1\<lparr>vc_freq_hz := freq, vc_lpcn := ev_lpcn ev, vc_tg := ev_tg ev, vc_dst := ev_dst ev, vc_src := ev_src ev,
            vc_slot := (if ev_slot ev \<ge> 0 \<and> ev_slot ev \<le> 1 then ev_slot ev else -1),
            vc_is_group := ev_is_group ev, vc_identity_published := False, t_tune_m := now_s w1, t_voice_m := 0,
            cc_acquiring := False, cc_tune_request_id := 0, sm_slots := replicate 2 zero_slot, sm_state := DMR_SM_TUNED\<rparr>"
      by (auto simp add: handle_grant_def v_def [symmetric] n [symmetric] Let_def set_state_eq)
  qed
qed

lemma resolve_grant_SomeD:
  assumes "dmr_sm_resolve_tunable_grant c w ev = Some freq"
  shows "freq > 0" "freq = resolve_freq w (ev_freq_hz ev) (ev_lpcn ev)" "trunk_enable w = 1" "trunk_cc_freq w \<noteq> 0"
    "cc_tune_request_id c = 0" "ev_freq_hz ev \<le> 0 \<Longrightarrow> lpcn_is_trusted w (ev_lpcn ev)"
    "sm_state c = DMR_SM_TUNED \<Longrightarrow> vc_freq_hz c \<noteq> freq"
  using assms by (auto simp: dmr_sm_resolve_tunable_grant_def resolve_freq_def Let_def split: if_splits)

lemma handle_grant_fst:
  assumes "handle_grant env ev c w = (c', w')" "ctx_inv c"
  shows "ctx_inv c'"
  using assms(1)
proof (cases rule: handle_grant_forms)
  case ignored
  with assms(2) show ?thesis by simp
next
  case (acted freq c1 w1 w2 r rid)
  note g = resolve_grant_SomeD [OF acted(1)]
  have c1: "ctx_inv c1"
  proof (cases "c1 = c")
    case False
    then have "dmr_cc_note_activity_ctx env (cc_probe_freq_hz c) c (trunk_recovery_note_protocol DSD_TRUNK_RECOVERY_DMR w) = (c1, w1)"
      using acted(2) by (simp split: if_splits)
    from note_activity_fst(1) [OF this assms(2) g(5)] show ?thesis .
  qed (simp add: assms(2))
  show ?thesis
  proof (cases "tune_result_is_ok r")
    case True
    with acted(5) have c': "c' = c1\<lparr>vc_freq_hz := freq, vc_lpcn := ev_lpcn ev, vc_tg := ev_tg ev, vc_dst := ev_dst ev, vc_src := ev_src ev,
            vc_slot := (if ev_slot ev \<ge> 0 \<and> ev_slot ev \<le> 1 then ev_slot ev else -1),
            vc_is_group := ev_is_group ev, vc_identity_published := False, t_tune_m := now_s w1, t_voice_m := 0,
            cc_acquiring := False, cc_tune_request_id := 0, sm_slots := replicate 2 zero_slot, sm_state := DMR_SM_TUNED\<rparr>" by simp
    have "ev_slot ev = 0 \<or> ev_slot ev = 1" if "ev_slot ev \<ge> 0" "ev_slot ev \<le> 1" using that by linarith
    with c1 g(1) show ?thesis unfolding c' ctx_inv_def by auto
  qed (use acted(4) c1 in simp)
qed

text \<open>What every operation but a grant and decoded control-channel evidence does to the context.\<close>

definition quiet :: "dmr_sm_ctx \<Rightarrow> dmr_sm_ctx \<Rightarrow> bool" where
  "quiet c c' \<longleftrightarrow> ctx_inv c' \<and> (sm_state c' = DMR_SM_TUNED \<longrightarrow> sm_state c = DMR_SM_TUNED \<and> vc_freq_hz c' = vc_freq_hz c)
     \<and> (cc_confirmed c' \<longrightarrow> cc_confirmed c)"

lemma quiet_refl: "ctx_inv c \<Longrightarrow> quiet c c"
  by (simp add: quiet_def)

lemma quiet_trans: "quiet a b \<Longrightarrow> quiet b c \<Longrightarrow> quiet a c"
  by (auto simp: quiet_def)

lemma quiet_inv: "quiet c c' \<Longrightarrow> ctx_inv c'"
  by (simp add: quiet_def)

lemma quiet_init: "ctx_inv c \<Longrightarrow> quiet c (init_ctx_in env w)"
  by (simp add: quiet_def) (simp add: init_ctx_in_def)

lemma quiet_resolve: "dmr_cc_resolve_pending now c w = (c', w', ok) \<Longrightarrow> ctx_inv c \<Longrightarrow> quiet c c'"
  using resolve_inv [of now c w c' w' ok] resolve_effect [of now c w c' w' ok] by (auto simp: quiet_def)

lemma quiet_release: "do_release env c w = (c', w') \<Longrightarrow> ctx_inv c \<Longrightarrow> quiet c c'"
  using do_release_fst [of env c w c' w'] by (auto simp: quiet_def)

lemma quiet_return: "dmr_sm_return_to_cc env f c w = (c', w', r) \<Longrightarrow> ctx_inv c \<Longrightarrow> quiet c c'"
  using return_to_cc_fst [of env f c w c' w' r] by (cases "tune_result_is_ok r") (auto simp: quiet_def)

lemma quiet_begin: "dmr_sm_begin_cc_acquisition env f rid c w = (c', w') \<Longrightarrow> ctx_inv c \<Longrightarrow> quiet c c'"
  using begin_acquisition_fst [of env f rid c w c' w']
  by (cases "f > 0") (auto simp: quiet_def dmr_sm_begin_cc_acquisition_def)

lemma quiet_abandon: "dmr_sm_abandon_carrier env c w = (c', w') \<Longrightarrow> ctx_inv c \<Longrightarrow> quiet c c'"
  unfolding dmr_sm_abandon_carrier_def Let_def
  using clear_released_fst [of env False _ DMR_SM_ON_CC c _ c' w'] by (simp add: quiet_def)

lemma quiet_heartbeat_ctx:
  assumes "dmr_cc_note_heartbeat_ctx c w = (c', w')" "ctx_inv c"
  shows "quiet c c'"
proof (cases "trunk_is_tuned w = 1 \<or> \<not> cc_confirmed c \<or> cc_acquiring c")
  case True
  with assms show ?thesis by (simp add: dmr_cc_note_heartbeat_ctx_def quiet_refl)
next
  case False
  obtain c1 w1 ok where r: "dmr_cc_resolve_pending (now_s w) c w = (c1, w1, ok)" by (rule prod_cases3)
  note q = quiet_resolve [OF r assms(2)]
  consider "c' = c1" | "c' = set_state DMR_SM_ON_CC (c1\<lparr>t_cc_sync_m := now_s w1\<rparr>)"
    using assms(1) r False unfolding dmr_cc_note_heartbeat_ctx_def Let_def
    by (simp only: if_False prod.case Pair_inject split: if_split_asm) blast+
  then show ?thesis
  proof cases
    case 2
    have "quiet c1 c'" unfolding 2 using q by (simp add: quiet_def ctx_inv_def)
    with q show ?thesis by (rule quiet_trans)
  qed (simp add: q)
qed

lemma quiet_update_slot: "ctx_inv c \<Longrightarrow> quiet c (update_slot s g c)"
  by (simp add: quiet_def ctx_inv_def update_slot_def)

lemma quiet_data_sync: "handle_data_sync slot c w = (c', w') \<Longrightarrow> ctx_inv c \<Longrightarrow> quiet c c'"
  unfolding handle_data_sync_def Let_def
  by (cases "trunk_tune_data_calls w \<noteq> 1") (auto simp: quiet_def ctx_inv_def update_slot_def)

lemma quiet_handle_release:
  assumes "handle_release env slot c w = (c', w')" "ctx_inv c"
  shows "quiet c c'"
proof -
  note q = quiet_update_slot [OF assms(2)]
  consider "c' = c" | "do_release env c w = (c', w')"
    | "c' = update_slot 1 (\<lambda>sl. sl\<lparr>voice_active := False\<rparr>) (update_slot 0 (\<lambda>sl. sl\<lparr>voice_active := False\<rparr>) c)"
    | "c' = update_slot (nat slot) (\<lambda>sl. sl\<lparr>voice_active := False\<rparr>) c"
    using assms(1) unfolding handle_release_def by (simp only: Pair_inject split: if_split_asm) simp_all
  then show ?thesis
    by cases (simp_all add: quiet_refl assms(2) quiet_release q quiet_trans [OF q quiet_update_slot [OF quiet_inv [OF q]]])
qed

lemma event_slot_less: "event_slot slot < 2" by (auto simp: event_slot_def)

lemma voice_sync_form:
  assumes "handle_voice_sync env slot c w = (c', w')"
  obtains v p where "c' = c\<lparr>sm_slots := (sm_slots c)[event_slot slot := (sm_slots c ! event_slot slot)\<lparr>voice_active := True, last_active_m := now_s w\<rparr>],
      t_voice_m := now_s w, vc_slot := v, vc_identity_published := p\<rparr>" "v = vc_slot c \<or> v = int (event_slot slot)"
proof -
  let ?c1 = "(update_slot (event_slot slot) (\<lambda>sl. sl\<lparr>voice_active := True, last_active_m := now_s w\<rparr>) c)\<lparr>t_voice_m := now_s w\<rparr>"
  obtain c2 w1 where u: "update_voice_sync_state (event_slot slot) (now_s w) ?c1 w = (c2, w1)" by (meson surj_pair)
  have c2: "\<exists>v. c2 = ?c1\<lparr>vc_slot := v\<rparr> \<and> (v = vc_slot c \<or> v = int (event_slot slot))"
  proof (cases "sm_state ?c1 = DMR_SM_TUNED \<and> vc_slot ?c1 < 0")
    case True
    then show ?thesis using u unfolding update_voice_sync_state_def Let_def if_P [OF True] by auto
  next
    case False
    then show ?thesis using u unfolding update_voice_sync_state_def Let_def if_not_P [OF False]
      by (intro exI [of _ "vc_slot c"]) (auto simp: update_slot_def)
  qed
  obtain h r where o: "call_state_observe (ext_alloc env) (now_s w) (reacquire env) (voice_observation (event_slot slot) (now_s w) c2 w1)
      CALL_BOUNDARY_CONTINUE (call_store w1) = (h, r)" by (meson surj_pair)
  have "\<exists>p. c' = c2\<lparr>vc_identity_published := p\<rparr>"
  proof -
    have "c2 = c2\<lparr>vc_identity_published := vc_identity_published c2\<rparr>" by simp
    moreover have "c' = c2\<lparr>vc_identity_published := True\<rparr> \<or> c' = c2"
      using assms unfolding handle_voice_sync_def Let_def u prod.case o
      by (simp only: Pair_inject split: if_split_asm) simp_all
    ultimately show ?thesis by metis
  qed
  with c2 that show ?thesis by (auto simp: update_slot_def)
qed

lemma quiet_voice_sync:
  assumes "handle_voice_sync env slot c w = (c', w')" "ctx_inv c"
  shows "quiet c c'"
  using assms(1)
proof (cases rule: voice_sync_form)
  case (1 v p)
  have "v \<in> {-1, 0, 1}" using 1(2) assms(2) event_slot_less [of slot] by (auto simp: ctx_inv_def)
  with assms(2) show ?thesis unfolding 1(1) by (simp add: quiet_def ctx_inv_def)
qed

lemma quiet_hunt:
  assumes "dmr_cc_hunt env scan now c w = (c', w')" "ctx_inv c" "sm_state c = DMR_SM_HUNTING"
  shows "quiet c c'"
proof (cases "\<not> trunk_dmr_recovery_allowed scan w \<or> trunk_is_tuned w = 1 \<or> cc_retry_after_m c > now")
  case True
  with assms show ?thesis by (simp add: dmr_cc_hunt_def quiet_refl)
next
  case due: False
  obtain c1 w1 freq where n: "dmr_cc_next_candidate env (c\<lparr>cc_retry_after_m := now + 2\<rparr>) w = (c1, w1, freq)" by (rule prod_cases3)
  obtain i k where c1: "c1 = (c\<lparr>cc_retry_after_m := now + 2\<rparr>)\<lparr>cc_hunt_index := i\<rparr>" by (rule next_candidate_fst [OF n])
  have q1: "quiet c c1" unfolding c1 using assms(2) by (simp add: quiet_def ctx_inv_def)
  obtain w2 result rid where t: "tuning_hook_tune_to_cc (tuners env) freq 0 (clock_ns w1) w1 = (w2, result, rid)" by (rule prod_cases3)
  let ?w3 = "w2\<lparr>trunk_cc_freq := trunk_cc_freq w1\<rparr>"
  define c2 where "c2 = set_state DMR_SM_ON_CC (c1\<lparr>cc_probe_freq_hz := freq, cc_acquiring := True, cc_acquire_start_m := now_s ?w3,
                             cc_tune_request_id := rid, cc_tune_deadline_m := now_s ?w3 + DMR_CC_TUNE_TIMEOUT_S\<rparr>)"
  obtain c3 w4 ok where r: "dmr_cc_resolve_pending (cc_acquire_start_m c2) c2 ?w3 = (c3, w4, ok)" by (rule prod_cases3)
  consider "c' = c1" | "freq > 0" "c' = set_state DMR_SM_ON_CC (c1\<lparr>cc_probe_freq_hz := freq, cc_acquiring := True, cc_acquire_start_m := now\<rparr>)"
    | "freq > 0" "c' = c3"
    using assms(1) unfolding dmr_cc_hunt_def Let_def if_not_P [OF due] n prod.case t c2_def [symmetric] r
    by (simp only: Pair_inject split: if_split_asm) (auto simp: not_le)
  then show ?thesis
  proof cases
    case 2
    have "quiet c1 c'" unfolding 2 using quiet_inv [OF q1] 2(1) by (simp add: quiet_def ctx_inv_def)
    with q1 show ?thesis by (rule quiet_trans)
  next
    case 3
    have "quiet c1 c2" unfolding c2_def using quiet_inv [OF q1] 3(1) by (simp add: quiet_def ctx_inv_def)
    moreover have "quiet c2 c3" by (rule quiet_resolve [OF r quiet_inv [OF calculation]])
    ultimately show ?thesis using q1 3(2) by (metis quiet_trans)
  qed (simp add: q1)
qed

lemma quiet_clear_stale: "ctx_inv c \<Longrightarrow> quiet c (clear_stale_voice_slots now c)"
  by (simp add: quiet_def ctx_inv_def clear_stale_voice_slots_def)

lemma quiet_tick_on_cc: "ctx_inv c \<Longrightarrow> cc_tune_request_id c = 0 \<Longrightarrow> quiet c (tick_on_cc now grace c)"
  by (auto simp: quiet_def ctx_inv_def tick_on_cc_def Let_def)

lemma quiet_tick_tuned:
  assumes "tick_tuned env now h g c w = (c', w')" "ctx_inv c"
  shows "quiet c c'"
proof -
  note q = quiet_clear_stale [OF assms(2), of now]
  consider "do_release env c w = (c', w')" | "do_release env (clear_stale_voice_slots now c) w = (c', w')"
    | "c' = (clear_stale_voice_slots now c)\<lparr>t_voice_m := now\<rparr>" | "c' = clear_stale_voice_slots now c"
    using assms(1) unfolding tick_tuned_def Let_def by (simp only: Pair_inject split: if_split_asm) blast+
  then show ?thesis
  proof cases
    case 1
    then show ?thesis by (rule quiet_release [OF _ assms(2)])
  next
    case 2
    show ?thesis by (rule quiet_trans [OF q quiet_release [OF 2 quiet_inv [OF q]]])
  next
    case 3
    show ?thesis unfolding 3 using assms(2) by (simp add: quiet_def ctx_inv_def clear_stale_voice_slots_def)
  qed (simp add: q)
qed

lemma quiet_tick:
  assumes "dmr_sm_tick_ctx env scan c w = (c', w')" "ctx_inv c"
  shows "quiet c c'"
proof (cases "trunk_dmr_recovery_allowed scan w")
  case False
  with assms show ?thesis by (simp add: dmr_sm_tick_ctx_def quiet_refl)
next
  case True
  define c0 where "c0 = (if sm_initialized c then c else init_ctx_in env w)"
  have q0: "quiet c c0" using assms(2) by (simp add: c0_def quiet_refl quiet_init)
  obtain c1 w1 ok where r: "dmr_cc_resolve_pending (now_s w) c0 w = (c1, w1, ok)" by (rule prod_cases3)
  note q1 = quiet_trans [OF q0 quiet_resolve [OF r quiet_inv [OF q0]]]
  note i1 = quiet_inv [OF q1]
  show ?thesis
  proof (cases ok)
    case False
    with assms(1) True r have "c' = c1" by (simp add: dmr_sm_tick_ctx_def Let_def c0_def [symmetric])
    with q1 show ?thesis by simp
  next
    case ok: True
    have id: "cc_tune_request_id c1 = 0" using resolve_effect(1) [OF r ok] .
    let ?g = "if cc_acquiring c0 then DMR_CC_PROBE_GRACE_S else cc_grace_s c0"
    have t: "(c', w') = (case sm_state c1 of
                DMR_SM_IDLE \<Rightarrow> (c1, w1)
              | DMR_SM_ON_CC \<Rightarrow> (if trunk_is_tuned w1 \<noteq> 1 then tick_on_cc (now_s w) ?g c1 else c1, w1)
              | DMR_SM_TUNED \<Rightarrow> tick_tuned env (now_s w) (hangtime_s c0) (grant_timeout_s c0) c1 w1
              | DMR_SM_HUNTING \<Rightarrow> dmr_cc_hunt env scan (now_s w) c1 w1)"
      using assms(1) True r ok by (simp add: dmr_sm_tick_ctx_def Let_def c0_def [symmetric])
    show ?thesis
    proof (cases "sm_state c1")
      case DMR_SM_IDLE
      with t q1 show ?thesis by simp
    next
      case DMR_SM_ON_CC
      with t have "c' = c1 \<or> c' = tick_on_cc (now_s w) ?g c1" by (simp split: if_splits)
      with quiet_trans [OF q1 quiet_tick_on_cc [OF i1 id]] q1 show ?thesis by auto
    next
      case DMR_SM_TUNED
      with t have "tick_tuned env (now_s w) (hangtime_s c0) (grant_timeout_s c0) c1 w1 = (c', w')" by simp
      from quiet_trans [OF q1 quiet_tick_tuned [OF this i1]] show ?thesis .
    next
      case DMR_SM_HUNTING
      with t have "dmr_cc_hunt env scan (now_s w) c1 w1 = (c', w')" by simp
      from quiet_trans [OF q1 quiet_hunt [OF this i1 DMR_SM_HUNTING]] show ?thesis .
    qed
  qed
qed

lemma activity_context_resolves:
  assumes "dmr_cc_activity_context scan c w = (c', w', ok)" "ctx_inv c"
  shows "quiet c c'" "ok \<Longrightarrow> cc_tune_request_id c' = 0" "ok \<Longrightarrow> trunk_enable w = 1 \<and> trunk_is_tuned w \<noteq> 1"
  using assms quiet_refl [OF assms(2)] quiet_resolve [OF _ assms(2)] resolve_effect(1) [of "now_s w" c w c' w' ok]
  by (auto simp: dmr_cc_activity_context_def split: if_splits)

lemma quiet_heartbeat:
  assumes "dmr_sm_note_cc_heartbeat scan c w = (c', w')" "ctx_inv c"
  shows "quiet c c'"
proof -
  obtain c1 w1 ok where r: "dmr_cc_activity_context scan c w = (c1, w1, ok)" by (rule prod_cases3)
  note q = activity_context_resolves(1) [OF r assms(2)]
  from assms(1) r consider "c' = c1" | "dmr_cc_note_heartbeat_ctx c1 w1 = (c', w')"
    by (cases ok) (simp_all add: dmr_sm_note_cc_heartbeat_def)
  then show ?thesis
  proof cases
    case 2
    show ?thesis by (rule quiet_trans [OF q quiet_heartbeat_ctx [OF 2 quiet_inv [OF q]]])
  qed (simp add: q)
qed

text \<open>Decoded evidence: either nothing is noted, or the received channel is confirmed.\<close>

lemma note_cc_activity_cases:
  assumes "dmr_sm_note_cc_activity env scan f c w = (c', w')" "ctx_inv c"
  obtains (kept) "quiet c c'"
  | (confirmed) c1 where "trunk_enable w = 1" "trunk_is_tuned w \<noteq> 1" "quiet c c1" "sm_state c' = DMR_SM_ON_CC" "ctx_inv c'"
      "f > 0 \<Longrightarrow> cc_freq_hz c' = f" "cc_acquiring c1 \<Longrightarrow> cc_freq_hz c' = cc_probe_freq_hz c"
proof (cases "trunk_enable w \<noteq> 1 \<and> trunk_is_tuned w = 0")
  case True
  with assms have "c' = c" by (simp add: dmr_sm_note_cc_activity_def)
  with kept quiet_refl [OF assms(2)] show ?thesis by simp
next
  case False
  obtain c1 w1 ok where r: "dmr_cc_activity_context scan c w = (c1, w1, ok)" by (rule prod_cases3)
  note a = activity_context_resolves [OF r assms(2)]
  show ?thesis
  proof (cases ok)
    case True
    have n: "dmr_cc_note_activity_ctx env f c1 w1 = (c', w')"
      using assms(1) False r True unfolding dmr_sm_note_cc_activity_def by simp
    have p: "cc_probe_freq_hz c1 = cc_probe_freq_hz c"
      using r resolve_effect(7) [of "now_s w" c w c1 w1 ok] by (auto simp: dmr_cc_activity_context_def split: if_splits)
    from n show ?thesis
    proof (cases rule: note_activity_form)
      case ignored
      with a(1) kept show ?thesis by simp
    next
      case (noted cur)
      show ?thesis
        by (rule confirmed [OF _ _ a(1)])
          (use a(3) True noted p note_activity_fst(1) [OF n quiet_inv [OF a(1)] a(2)] in simp_all)
    qed
  next
    case no: False
    with assms(1) False r a(1) kept show ?thesis by (simp add: dmr_sm_note_cc_activity_def)
  qed
qed

lemma quiet_event:
  assumes "dmr_sm_event env ev c w = (c', w')" "ctx_inv c" "ev_type ev \<noteq> DMR_SM_EV_GRANT"
  shows "quiet c c'"
proof -
  define c0 where "c0 = (if sm_initialized c then c else init_ctx_in env w)"
  have q: "quiet c c0" using assms(2) by (simp add: c0_def quiet_refl quiet_init)
  note i = quiet_inv [OF q]
  show ?thesis
  proof (rule quiet_trans [OF q], cases "ev_type ev")
    case DMR_SM_EV_VOICE_SYNC
    with assms(1) show "quiet c0 c'" by (intro quiet_voice_sync [OF _ i]) (simp add: dmr_sm_event_def Let_def c0_def)
  next
    case DMR_SM_EV_DATA_SYNC
    with assms(1) show "quiet c0 c'" by (intro quiet_data_sync [OF _ i]) (simp add: dmr_sm_event_def Let_def c0_def)
  next
    case DMR_SM_EV_RELEASE
    with assms(1) show "quiet c0 c'" by (intro quiet_handle_release [OF _ i]) (simp add: dmr_sm_event_def Let_def c0_def)
  next
    case DMR_SM_EV_CC_SYNC
    with assms(1) show "quiet c0 c'" by (intro quiet_heartbeat_ctx [OF _ i]) (simp add: dmr_sm_event_def Let_def c0_def)
  next
    case DMR_SM_EV_SYNC_LOST
    with assms(1) have "c' = c0" by (simp add: dmr_sm_event_def Let_def c0_def)
    with i show "quiet c0 c'" by (simp add: quiet_refl)
  qed (use assms(3) in simp)
qed

lemma grant_event:
  assumes "dmr_sm_event env ev c w = (c', w')" "ev_type ev = DMR_SM_EV_GRANT"
  shows "handle_grant env ev (if sm_initialized c then c else init_ctx_in env w) w = (c', w')"
  using assms by (simp add: dmr_sm_event_def Let_def)

lemma dmr_step_quiet:
  assumes "dmr_step env op (c, w) = (c', w')" "ctx_inv c"
  obtains (grant) ev where "op = OpEvent ev" "ev_type ev = DMR_SM_EV_GRANT"
      "handle_grant env ev (if sm_initialized c then c else init_ctx_in env w) w = (c', w')" "ctx_inv c'"
  | (evidence) scan f where "op = OpActivity scan f" "dmr_sm_note_cc_activity env scan f c w = (c', w')" "ctx_inv c'"
  | (other) "quiet c c'"
proof (cases op)
  case (OpEvent ev)
  with assms(1) have e: "dmr_sm_event env ev c w = (c', w')" by simp
  show ?thesis
  proof (cases "ev_type ev = DMR_SM_EV_GRANT")
    case True
    note g = grant_event [OF e True]
    have "ctx_inv (if sm_initialized c then c else init_ctx_in env w)" using assms(2) by simp
    from grant [OF OpEvent True g handle_grant_fst [OF g this]] show ?thesis .
  qed (use e assms(2) quiet_event other in blast)
next
  case (OpActivity scan f)
  with assms(1) have n: "dmr_sm_note_cc_activity env scan f c w = (c', w')" by simp
  then have "ctx_inv c'" by (cases rule: note_cc_activity_cases [OF n assms(2)]) (auto dest: quiet_inv)
  with evidence [OF OpActivity n] show ?thesis .
next
  case (OpReturn f)
  obtain r where "dmr_sm_return_to_cc env f c w = (c', w', r)"
    using assms(1) OpReturn by (auto simp: Let_def split: prod.splits)
  from other [OF quiet_return [OF this assms(2)]] show ?thesis .
qed (use assms other in \<open>simp_all add: quiet_tick quiet_heartbeat quiet_begin quiet_abandon quiet_refl\<close>,
     use assms quiet_init other in blast)

lemma dmr_step_inv: "ctx_inv (fst s) \<Longrightarrow> ctx_inv (fst (dmr_step env op s))"
proof -
  assume i: "ctx_inv (fst s)"
  obtain c w c' w' where s: "s = (c, w)" and st: "dmr_step env op (c, w) = (c', w')" by (metis surj_pair)
  show ?thesis using dmr_step_quiet [OF st] i by (auto simp: s st dest: quiet_inv)
qed

interpretation dmr: invariant_machine "dmr_start env" "\<lambda>op s. True" "dmr_step env" "\<lambda>s. ctx_inv (fst s)" for env
  by unfold_locales (auto simp: dmr_start_def dmr_step_inv)

lemma dmr_allowed [simp]: "dmr.allowed env ops s" for env
  by (induction ops arbitrary: s) simp_all

lemma dmr_history_inv:
  assumes "dmr_start env s" "fold (dmr_step env) ops s = (c, w)"
  shows "ctx_inv c"
  using dmr.run_inv [of s env ops] dmr.start_inv [OF assms(1)] assms(2) by (simp add: dmr.run_def)

section \<open>The invariant and the guards\<close>

text \<open>After any history of events, ticks, notes, acquisitions, returns and releases, whatever the tuner
  hooks answer and however the decoder's state changes in between, a tuned machine has a positive voice
  frequency, no control-channel tune outstanding and no acquisition running; an outstanding
  control-channel tune belongs to an acquisition of a positive probe frequency on a control channel; and
  a confirmed control channel has a positive frequency.
\<close>

theorem dmr_context_invariant:
  assumes "dmr_start env s" "fold (dmr_step env) ops s = (c, w)"
  shows "(sm_state c = DMR_SM_TUNED \<longrightarrow> vc_freq_hz c > 0 \<and> cc_tune_request_id c = 0 \<and> \<not> cc_acquiring c) \<and>
    (cc_tune_request_id c \<noteq> 0 \<longrightarrow> sm_state c = DMR_SM_ON_CC \<and> cc_acquiring c \<and> cc_probe_freq_hz c > 0) \<and>
    (cc_confirmed c \<longrightarrow> cc_freq_hz c > 0) \<and> vc_slot c \<in> {-1, 0, 1} \<and> length (sm_slots c) = 2"
  using dmr_history_inv [OF assms] by (auto simp: ctx_inv_def)

lemma resolve_freq_note [simp]: "resolve_freq (trunk_recovery_note_protocol p w) f l = resolve_freq w f l"
  by (simp add: resolve_freq_def trunk_recovery_note_protocol_def)

lemma lpcn_is_trusted_note [simp]: "lpcn_is_trusted (trunk_recovery_note_protocol p w) l = lpcn_is_trusted w l"
  by (simp add: lpcn_is_trusted_def trunk_recovery_note_protocol_def Let_def)

lemma note_protocol_simps [simp]:
  "trunk_enable (trunk_recovery_note_protocol p w) = trunk_enable w"
  "trunk_is_tuned (trunk_recovery_note_protocol p w) = trunk_is_tuned w"
  "trunk_cc_freq (trunk_recovery_note_protocol p w) = trunk_cc_freq w"
  "tuning_frame_is_current g (trunk_recovery_note_protocol p w) = tuning_frame_is_current g w"
  by (simp_all add: trunk_recovery_note_protocol_def tuning_frame_is_current_def)

text \<open>C7: After any history, the only operation that puts the machine on a voice channel, or moves it to
  another one, is a grant event: trunking is enabled, a control channel is known, no control-channel tune
  is outstanding, the frequency is the grant's own or the channel map's entry, and a frequency taken from
  the map off the control channel needs a trusted channel number. The machine then carries the grant's
  identity and no voice activity.
\<close>

theorem voice_channel_only_by_grant:
  assumes "dmr_start env s" "fold (dmr_step env) ops s = (c, w)"
    and "dmr_step env op (c, w) = (c', w')"
    and "sm_state c' = DMR_SM_TUNED" "sm_state c = DMR_SM_TUNED \<longrightarrow> vc_freq_hz c' \<noteq> vc_freq_hz c"
  shows "\<exists>ev. op = OpEvent ev \<and> ev_type ev = DMR_SM_EV_GRANT \<and> trunk_enable w = 1 \<and> trunk_cc_freq w \<noteq> 0 \<and>
    vc_freq_hz c' = resolve_freq w (ev_freq_hz ev) (ev_lpcn ev) \<and> vc_freq_hz c' > 0 \<and>
    (ev_freq_hz ev \<le> 0 \<longrightarrow> lpcn_is_trusted w (ev_lpcn ev)) \<and>
    vc_tg c' = ev_tg ev \<and> vc_dst c' = ev_dst ev \<and> vc_src c' = ev_src ev \<and> vc_is_group c' = ev_is_group ev \<and>
    t_voice_m c' = 0 \<and> \<not> has_voice_activity c' \<and> (sm_initialized c \<longrightarrow> cc_tune_request_id c = 0)"
  using assms(3) dmr_history_inv [OF assms(1,2)]
proof (cases rule: dmr_step_quiet)
  case (grant ev)
  have u: "sm_state (if sm_initialized c then c else init_ctx_in env w) = DMR_SM_TUNED \<Longrightarrow>
      (if sm_initialized c then c else init_ctx_in env w) = c"
    by (auto simp: init_ctx_in_def)
  from grant(3) show ?thesis
  proof (cases rule: handle_grant_forms)
    case ignored
    with u assms(4,5) show ?thesis by auto
  next
    case (acted freq c1 w1 w2 r rid)
    note g = resolve_grant_SomeD [OF acted(1)]
    show ?thesis
    proof (cases "tune_result_is_ok r")
      case True
      note c' = acted(5) [OF True, THEN conjunct2]
      have f: "vc_freq_hz c' = freq" "vc_tg c' = ev_tg ev" "vc_dst c' = ev_dst ev" "vc_src c' = ev_src ev"
        "vc_is_group c' = ev_is_group ev" "t_voice_m c' = 0" "sm_slots c' = replicate 2 zero_slot"
        unfolding c' by simp_all
      show ?thesis
        by (rule exI [of _ ev]) (use grant(1,2) g f in \<open>simp add: has_voice_activity_def zero_slot_def numeral_2_eq_2 split: if_splits\<close>)
    next
      case False
      then have c1: "c' = c1" using acted(4) by simp
      have "c1 = (if sm_initialized c then c else init_ctx_in env w)"
      proof (rule ccontr)
        assume ne: "c1 \<noteq> (if sm_initialized c then c else init_ctx_in env w)"
        then have "dmr_cc_note_activity_ctx env (cc_probe_freq_hz (if sm_initialized c then c else init_ctx_in env w))
            (if sm_initialized c then c else init_ctx_in env w) (trunk_recovery_note_protocol DSD_TRUNK_RECOVERY_DMR w) = (c1, w1)"
          using acted(2) by (simp split: if_splits)
        then show False by (cases rule: note_activity_form) (use ne assms(4) c1 in simp_all)
      qed
      with u assms(4,5) c1 show ?thesis by auto
    qed
  qed
next
  case (evidence scan f)
  show ?thesis
    by (cases rule: note_cc_activity_cases [OF evidence(2) dmr_history_inv [OF assms(1,2)]])
      (use assms(4,5) in \<open>auto simp: quiet_def\<close>)
qed (use assms(4,5) in \<open>auto simp: quiet_def\<close>)

text \<open>C8: After any history, a control channel that was not confirmed becomes confirmed only by decoded
  control-channel evidence noted while trunking and not tuned, for exactly the frequency the evidence
  names when it names one, or by a grant decoded on the frame boundary of the running acquisition, for
  exactly its probe frequency. Heartbeats, ticks, completed tunes and raw synchronisation never confirm.
\<close>

theorem confirmation_needs_decoded_evidence:
  assumes "dmr_start env s" "fold (dmr_step env) ops s = (c, w)"
    and "dmr_step env op (c, w) = (c', w')" "cc_confirmed c'" "\<not> cc_confirmed c"
  shows "(\<exists>scan f. op = OpActivity scan f \<and> trunk_enable w = 1 \<and> trunk_is_tuned w \<noteq> 1 \<and> (f > 0 \<longrightarrow> cc_freq_hz c' = f)) \<or>
    (\<exists>ev. op = OpEvent ev \<and> ev_type ev = DMR_SM_EV_GRANT \<and> cc_acquiring c \<and> trunk_is_tuned w = 0 \<and>
       tuning_frame_is_current (cc_rx_generation c) w \<and> cc_freq_hz c' = cc_probe_freq_hz c)"
  using assms(3) dmr_history_inv [OF assms(1,2)]
proof (cases rule: dmr_step_quiet)
  case (grant ev)
  define c0 where "c0 = (if sm_initialized c then c else init_ctx_in env w)"
  have n0: "\<not> cc_confirmed c0" using assms(5) by (simp add: c0_def init_ctx_in_def)
  have g: "handle_grant env ev c0 w = (c', w')" using grant(3) by (simp add: c0_def)
  then show ?thesis
  proof (cases rule: handle_grant_forms)
    case ignored
    with n0 assms(4) show ?thesis by simp
  next
    case (acted freq c1 w1 w2 r rid)
    have k: "cc_confirmed c1" "cc_freq_hz c' = cc_freq_hz c1"
      using acted(4,5) assms(4) by (cases "tune_result_is_ok r"; simp)+
    then have acq: "cc_acquiring c0 \<and> trunk_is_tuned w = 0 \<and> tuning_frame_is_current (cc_rx_generation c0) w"
      using acted(2) n0 by (simp split: if_splits)
    then have "c0 = c" by (auto simp: c0_def init_ctx_in_def split: if_splits)
    moreover from acq acted(2) have "dmr_cc_note_activity_ctx env (cc_probe_freq_hz c0) c0
        (trunk_recovery_note_protocol DSD_TRUNK_RECOVERY_DMR w) = (c1, w1)" by simp
    then have "cc_freq_hz c1 = cc_probe_freq_hz c0"
      by (cases rule: note_activity_form) (use n0 k acq in simp_all)
    ultimately show ?thesis using grant(1,2) acq k by auto
  qed
next
  case (evidence scan f)
  show ?thesis
    by (cases rule: note_cc_activity_cases [OF evidence(2) dmr_history_inv [OF assms(1,2)]])
      (use assms(4,5) evidence(1) in \<open>auto simp: quiet_def\<close>)
qed (use assms(4,5) in \<open>auto simp: quiet_def\<close>)

section \<open>Leaving a voice channel\<close>

text \<open>When a tick must leave the channel, in terms of the last sync and the two time limits.\<close>

definition slot_fresh :: "mono_s \<Rightarrow> dmr_sm_slot \<Rightarrow> bool" where
  "slot_fresh now sl \<longleftrightarrow> voice_active sl \<and> \<not> slot_stale now sl"

definition release_due :: "mono_s \<Rightarrow> dmr_sm_ctx \<Rightarrow> dmr_world \<Rightarrow> bool" where
  "release_due now c w \<longleftrightarrow> trunk_sm_force_release w \<noteq> 0 \<or>
     \<not> list_ex (slot_fresh now) (sm_slots c) \<and>
     (if t_voice_m c > 0 then now - t_voice_m c \<ge> hangtime_s c else t_tune_m c > 0 \<and> now - t_tune_m c \<ge> grant_timeout_s c)"

lemma two_slots: "length xs = 2 \<longleftrightarrow> (\<exists>a b. xs = [a, b])"
  by (auto simp: numeral_2_eq_2 length_Suc_conv)

lemma activity_after_clear:
  assumes "ctx_inv c"
  shows "has_voice_activity (clear_stale_voice_slots now c) \<longleftrightarrow> list_ex (slot_fresh now) (sm_slots c)"
proof -
  from assms obtain a b where "sm_slots c = [a, b]" by (auto simp: ctx_inv_def two_slots)
  then show ?thesis
    by (simp add: has_voice_activity_def clear_stale_voice_slots_def slot_fresh_def)
qed

lemma clear_stale_simps [simp]:
  "t_voice_m (clear_stale_voice_slots now c) = t_voice_m c" "t_tune_m (clear_stale_voice_slots now c) = t_tune_m c"
  "sm_state (clear_stale_voice_slots now c) = sm_state c" "cc_freq_hz (clear_stale_voice_slots now c) = cc_freq_hz c"
  "hangtime_s (clear_stale_voice_slots now c) = hangtime_s c" "grant_timeout_s (clear_stale_voice_slots now c) = grant_timeout_s c"
  "sm_initialized (clear_stale_voice_slots now c) = sm_initialized c" "vc_freq_hz (clear_stale_voice_slots now c) = vc_freq_hz c"
  by (simp_all add: clear_stale_voice_slots_def)

lemma tick_tuned_due:
  assumes "ctx_inv c" "release_due now c w"
  shows "\<exists>c1. (c1 = c \<or> c1 = clear_stale_voice_slots now c) \<and>
    tick_tuned env now (hangtime_s c) (grant_timeout_s c) c w = do_release env c1 w"
  using assms(2) activity_after_clear [OF assms(1), of now]
  by (auto simp: release_due_def tick_tuned_def Let_def hangtime_expired_def grant_timeout_expired_def split: if_splits)

lemma tick_tuned_not_due:
  assumes "ctx_inv c" "\<not> release_due now c w"
  shows "tick_tuned env now (hangtime_s c) (grant_timeout_s c) c w =
    (if list_ex (slot_fresh now) (sm_slots c) then (clear_stale_voice_slots now c)\<lparr>t_voice_m := now\<rparr>
     else clear_stale_voice_slots now c, w)"
  using assms(2) activity_after_clear [OF assms(1), of now]
  by (auto simp: release_due_def tick_tuned_def Let_def hangtime_expired_def grant_timeout_expired_def split: if_splits)

text \<open>What the tuner answers to the return a release asks for in this world.\<close>

definition return_accepted :: "dmr_env \<Rightarrow> dmr_sm_ctx \<Rightarrow> dmr_world \<Rightarrow> bool" where
  "return_accepted env c w \<longleftrightarrow>
     (let cc = (if trunk_cc_freq w > 0 then trunk_cc_freq w else cc_freq_hz c);
          (w1, r, rid) = tuning_hook_return_to_cc (tuners env) (clock_ns w)
             (w\<lparr>trunk_sm_force_release := 0, p25_cc_freq := 0, trunk_cc_freq := cc\<rparr>)
      in tune_result_is_ok r)"

lemma release_without_cc_simps:
  assumes "dmr_sm_clear_released_carrier env returned n next c w = (c', w')" "returned"
  shows "trunk_is_tuned w' = 0" "trunk_vc_freq w' = [0, 0]"
  using assms by (auto simp: dmr_sm_clear_released_carrier_def Let_def)

lemma do_release_accepted:
  assumes "do_release env c w = (c', w')" "ctx_inv c" "return_accepted env c w"
  shows "sm_state c' \<noteq> DMR_SM_TUNED" "vc_freq_hz c' = 0" "\<not> has_voice_activity c'"
    "trunk_cc_freq w > 0 \<Longrightarrow> trunk_is_tuned w' = 0 \<and> trunk_vc_freq w' = [0, 0]"
proof -
  have "sm_state c' \<noteq> DMR_SM_TUNED \<and> vc_freq_hz c' = 0 \<and> \<not> has_voice_activity c' \<and>
    (trunk_cc_freq w > 0 \<longrightarrow> trunk_is_tuned w' = 0 \<and> trunk_vc_freq w' = [0, 0])"
    using assms(1)
  proof (cases rule: do_release_forms)
    case (refused w2 r)
    from refused(2) have False
      by (cases rule: return_to_cc_forms)
        (use refused(1,3) assms(3) in \<open>auto simp: return_accepted_def Let_def split: if_splits\<close>)
    then show ?thesis ..
  next
    case (returned c2 w2 r)
    note i = return_to_cc_fst [OF returned(2) assms(2)]
    show ?thesis using clear_released_fst [OF returned(4) i(1)] release_without_cc_simps [OF returned(4)] by auto
  next
    case nowhere
    show ?thesis using clear_released_fst [OF nowhere(2) assms(2)] nowhere(1) by (auto split: if_splits)
  qed
  then show "sm_state c' \<noteq> DMR_SM_TUNED" "vc_freq_hz c' = 0" "\<not> has_voice_activity c'"
    "trunk_cc_freq w > 0 \<Longrightarrow> trunk_is_tuned w' = 0 \<and> trunk_vc_freq w' = [0, 0]" by auto
qed

lemma tick_of_tuned:
  assumes "ctx_inv c" "sm_initialized c" "sm_state c = DMR_SM_TUNED"
  shows "dmr_sm_tick_ctx env scan c w =
    (if trunk_dmr_recovery_allowed scan w then tick_tuned env (now_s w) (hangtime_s c) (grant_timeout_s c) c w else (c, w))"
  using assms by (simp add: dmr_sm_tick_ctx_def Let_def ctx_inv_def)

text \<open>What ticks keep while no sync arrives: the last sounds are not after \<open>T\<close>.\<close>

definition silent_since :: "mono_s \<Rightarrow> mono_s \<Rightarrow> mono_s \<Rightarrow> dmr_sm_ctx \<Rightarrow> bool" where
  "silent_since T h g c \<longleftrightarrow> ctx_inv c \<and>
     (sm_state c = DMR_SM_TUNED \<longrightarrow> sm_initialized c \<and>
        list_all (\<lambda>sl. voice_active sl \<longrightarrow> 0 < last_active_m sl \<and> last_active_m sl \<le> T) (sm_slots c) \<and>
        t_voice_m c \<le> T + VOICE_STALE_S \<and> 0 < t_tune_m c \<and> t_tune_m c \<le> T \<and> hangtime_s c = h \<and> grant_timeout_s c = g)"

lemma silent_clear_stale: "silent_since T h g c \<Longrightarrow> silent_since T h g (clear_stale_voice_slots now c)"
  using quiet_inv [OF quiet_clear_stale, of c now]
  by (auto simp: silent_since_def) (auto simp: clear_stale_voice_slots_def list_all_iff)

lemma silent_tick:
  assumes "silent_since T h g c"
  shows "silent_since T h g (fst (dmr_sm_tick_ctx env scan c w))"
proof -
  obtain c' w' where t: "dmr_sm_tick_ctx env scan c w = (c', w')" by (meson surj_pair)
  from assms have i: "ctx_inv c" by (simp add: silent_since_def)
  note q = quiet_tick [OF t i]
  have "silent_since T h g c'"
  proof (cases "sm_state c' = DMR_SM_TUNED \<and> trunk_dmr_recovery_allowed scan w")
    case False
    then show ?thesis
    proof (cases "trunk_dmr_recovery_allowed scan w")
      case False
      with t have "c' = c" by (simp add: dmr_sm_tick_ctx_def)
      with assms show ?thesis by simp
    qed (use q False in \<open>simp add: silent_since_def quiet_def\<close>)
  next
    case True
    then have st: "sm_state c = DMR_SM_TUNED" using q by (simp add: quiet_def)
    then have d: "sm_initialized c" "hangtime_s c = h" "grant_timeout_s c = g" using assms by (simp_all add: silent_since_def)
    from t True d st i have tt: "tick_tuned env (now_s w) (hangtime_s c) (grant_timeout_s c) c w = (c', w')"
      by (simp add: tick_of_tuned)
    note sc = silent_clear_stale [OF assms, of "now_s w"]
    show ?thesis
    proof (cases "release_due (now_s w) c w")
      case True
      from tick_tuned_due [OF i this] obtain c1 where c1: "c1 = c \<or> c1 = clear_stale_voice_slots (now_s w) c"
        "do_release env c1 w = (c', w')" using tt by metis
      have s1: "silent_since T h g c1" using c1(1) assms sc by auto
      then have "ctx_inv c1" by (simp add: silent_since_def)
      from do_release_fst(2) [OF c1(2) this] st q s1 show ?thesis using \<open>_ \<and> _\<close> by auto
    next
      case False
      show ?thesis
      proof (cases "list_ex (slot_fresh (now_s w)) (sm_slots c)")
        case fresh: True
        with tt tick_tuned_not_due [OF i False] have c': "c' = (clear_stale_voice_slots (now_s w) c)\<lparr>t_voice_m := now_s w\<rparr>" by auto
        have "now_s w \<le> T + VOICE_STALE_S"
          using fresh assms st by (fastforce simp: silent_since_def list_ex_iff list_all_iff slot_fresh_def slot_stale_def)
        with sc q show ?thesis unfolding c' by (simp add: silent_since_def quiet_def)
      next
        case no: False
        with tt tick_tuned_not_due [OF i False] have "c' = clear_stale_voice_slots (now_s w) c" by auto
        with sc show ?thesis by simp
      qed
    qed
  qed
  then show ?thesis by (simp add: t)
qed

lemma silent_ticks:
  "silent_since T h g c \<Longrightarrow> silent_since T h g (fold (\<lambda>(scan, w) c. fst (dmr_sm_tick_ctx env scan c w)) ts c)"
  by (induction ts arbitrary: c) (auto intro: silent_tick)

text \<open>C6: A voice channel on which nothing more is heard is left in bounded time. Let \<open>T\<close> bound the grant
  and the last sync of every active slot of a tuned context of any history. Whatever ticks run at whatever times in whatever
  worlds, a later tick at more than \<open>T\<close> plus the 0.2 s of staleness plus the hang time, and at least the
  grant timeout after \<open>T\<close>, whose return to the control channel the tuner accepts, leaves the machine off
  the voice channel; if it was still tuned, the voice frequency and the slots are cleared.
\<close>

theorem silent_channel_is_released:
  assumes "dmr_start env s" "fold (dmr_step env) ops s = (c, w0)"
    and "sm_state c = DMR_SM_TUNED" "sm_initialized c"
    and "\<forall>sl\<in>set (sm_slots c). voice_active sl \<longrightarrow> 0 < last_active_m sl \<and> last_active_m sl \<le> T"
    and "t_voice_m c \<le> T" "0 < t_tune_m c" "t_tune_m c \<le> T"
    and "c1 = fold (\<lambda>(scan, w) c. fst (dmr_sm_tick_ctx env scan c w)) ticks c"
    and "trunk_dmr_recovery_allowed scan w" "return_accepted env c1 w"
    and "now_s w > T + 1 / 5 + hangtime_s c" "now_s w > T + 1 / 5" "now_s w \<ge> T + grant_timeout_s c"
  shows "sm_state (fst (dmr_sm_tick_ctx env scan c1 w)) \<noteq> DMR_SM_TUNED \<and>
    (sm_state c1 = DMR_SM_TUNED \<longrightarrow>
       vc_freq_hz (fst (dmr_sm_tick_ctx env scan c1 w)) = 0 \<and> \<not> has_voice_activity (fst (dmr_sm_tick_ctx env scan c1 w)))"
proof -
  obtain c' w' where t: "dmr_sm_tick_ctx env scan c1 w = (c', w')" by (meson surj_pair)
  have "silent_since T (hangtime_s c) (grant_timeout_s c) c"
    using dmr_history_inv [OF assms(1,2)] assms(4-8) by (simp add: silent_since_def list_all_iff VOICE_STALE_S_def)
  then have sil: "silent_since T (hangtime_s c) (grant_timeout_s c) c1" unfolding assms(9) by (rule silent_ticks)
  then have i: "ctx_inv c1" by (simp add: silent_since_def)
  show ?thesis
  proof (cases "sm_state c1 = DMR_SM_TUNED")
    case False
    with quiet_tick [OF t i] show ?thesis by (simp add: t quiet_def)
  next
    case True
    with sil have p: "sm_initialized c1" "t_voice_m c1 \<le> T + VOICE_STALE_S" "0 < t_tune_m c1" "t_tune_m c1 \<le> T"
      "hangtime_s c1 = hangtime_s c" "grant_timeout_s c1 = grant_timeout_s c"
      "\<forall>sl\<in>set (sm_slots c1). voice_active sl \<longrightarrow> 0 < last_active_m sl \<and> last_active_m sl \<le> T"
      by (simp_all add: silent_since_def list_all_iff)
    have "\<not> list_ex (slot_fresh (now_s w)) (sm_slots c1)"
      using p(7) assms(13) by (fastforce simp: list_ex_iff slot_fresh_def slot_stale_def VOICE_STALE_S_def)
    then have due: "release_due (now_s w) c1 w"
      using p assms(12,14) by (simp add: release_due_def VOICE_STALE_S_def)
    from tick_tuned_due [OF i this, of env] t tick_of_tuned [OF i p(1) True, of env scan w] assms(10)
    obtain c2 where c2: "c2 = c1 \<or> c2 = clear_stale_voice_slots (now_s w) c1" "do_release env c2 w = (c', w')" by metis
    have "ctx_inv c2" using c2(1) i quiet_inv [OF quiet_clear_stale [OF i]] by auto
    moreover have "return_accepted env c2 w" using c2(1) assms(11) by (auto simp: return_accepted_def)
    ultimately show ?thesis using do_release_accepted [OF c2(2)] by (simp add: t)
  qed
qed

lemma do_release_refused:
  assumes "do_release env c w = (c', w')" "\<not> return_accepted env c w" "trunk_cc_freq w > 0 \<or> cc_freq_hz c > 0"
  shows "c' = c" "trunk_cc_freq w' = trunk_cc_freq w" "p25_cc_freq w' = p25_cc_freq w"
    "trunk_sm_force_release w \<noteq> 0 \<Longrightarrow> trunk_sm_force_release w' = 1"
proof -
  have "c' = c \<and> trunk_cc_freq w' = trunk_cc_freq w \<and> p25_cc_freq w' = p25_cc_freq w \<and>
    (trunk_sm_force_release w \<noteq> 0 \<longrightarrow> trunk_sm_force_release w' = 1)"
    using assms(1)
  proof (cases rule: do_release_forms)
    case (refused w2 r)
    from refused(2) have "trunk_cc_freq w2 = trunk_cc_freq w \<and> p25_cc_freq w2 = p25_cc_freq w"
      by (cases rule: return_to_cc_forms) (use refused(1,3) in simp_all)
    with refused(4,5) show ?thesis by simp
  next
    case (returned c2 w2 r)
    from returned(2) have False
      by (cases rule: return_to_cc_forms)
        (use returned(1,3) assms(2) in \<open>auto simp: return_accepted_def Let_def split: if_splits\<close>)
    then show ?thesis ..
  next
    case nowhere
    with assms(3) show ?thesis by (auto split: if_splits)
  qed
  then show "c' = c" "trunk_cc_freq w' = trunk_cc_freq w" "p25_cc_freq w' = p25_cc_freq w"
    "trunk_sm_force_release w \<noteq> 0 \<Longrightarrow> trunk_sm_force_release w' = 1" by auto
qed

lemma release_due_clear_stale:
  "release_due now c w \<Longrightarrow> trunk_sm_force_release w = 0 \<Longrightarrow> release_due now (clear_stale_voice_slots now c) w'"
  by (auto simp: release_due_def list_ex_iff slot_fresh_def slot_stale_def) (auto simp: clear_stale_voice_slots_def slot_stale_def)

text \<open>A refused return is all or nothing. When the tuner refuses the return, a tick on a tuned channel
  leaves the machine tuned to the same channel with the same grant, the same control channel and timers,
  puts both control-channel destinations back, re-arms a forced release, and leaves a release that was
  due still due, so that the next tick asks again.
\<close>

theorem refused_return_is_retried:
  assumes "dmr_start env s" "fold (dmr_step env) ops s = (c, w)"
    and "sm_state c = DMR_SM_TUNED" "sm_initialized c"
    and "trunk_cc_freq w > 0 \<or> cc_freq_hz c > 0" "\<not> return_accepted env c w" "trunk_dmr_recovery_allowed scan w"
    and "dmr_sm_tick_ctx env scan c w = (c', w')" "release_due (now_s w) c w"
  shows "sm_state c' = DMR_SM_TUNED \<and> vc_freq_hz c' = vc_freq_hz c \<and> cc_freq_hz c' = cc_freq_hz c \<and>
    t_tune_m c' = t_tune_m c \<and> t_voice_m c' = t_voice_m c \<and>
    trunk_cc_freq w' = trunk_cc_freq w \<and> p25_cc_freq w' = p25_cc_freq w \<and>
    (trunk_sm_force_release w \<noteq> 0 \<longrightarrow> trunk_sm_force_release w' = 1) \<and>
    release_due (now_s w) c' w'"
proof -
  note i = dmr_history_inv [OF assms(1,2)]
  from tick_tuned_due [OF i assms(9), of env] assms(7,8) tick_of_tuned [OF i assms(4,3), of env scan w]
  obtain c1 where c1: "c1 = c \<or> c1 = clear_stale_voice_slots (now_s w) c" "do_release env c1 w = (c', w')" by metis
  have "\<not> return_accepted env c1 w" "trunk_cc_freq w > 0 \<or> cc_freq_hz c1 > 0"
    using c1(1) assms(5,6) by (auto simp: return_accepted_def)
  note r = do_release_refused [OF c1(2) this]
  have "release_due (now_s w) c' w'"
  proof (cases "trunk_sm_force_release w = 0")
    case True
    with c1(1) assms(9) release_due_clear_stale [OF assms(9) True] show ?thesis unfolding r(1) by (auto simp: release_due_def)
  next
    case False
    with r(4) show ?thesis by (simp add: release_due_def)
  qed
  then show ?thesis using r c1(1) assms(3) by auto
qed

section \<open>Instances\<close>

text \<open>A decoder on a known control channel 100 s after boot, with a tuner that accepts grants; \<open>ret\<close> answers returns.\<close>

definition demo_env :: "(dmr_world \<Rightarrow> u64 \<Rightarrow> dmr_world \<times> tune_result) option \<Rightarrow> dmr_env" where
  "demo_env ret = \<lparr>tuners = \<lparr>tune_to_freq_request = Some (\<lambda>w f sps rid. (w\<lparr>trunk_is_tuned := 1\<rparr>, TUNE_OK)),
       tune_to_cc_request = Some (\<lambda>w f sps rid. (w, TUNE_OK)),
       return_to_cc_request = ret\<rparr>,
     rigctl_freq = None, scan_chan_csv = (\<lambda>w. None), event_sync = (\<lambda>slot w. w), reacquire = None,
     cfg_hangtime_s = None, cfg_grant_timeout_s = None, ext_alloc = True\<rparr>"

definition demo_blocks :: dmr_blocks where
  "demo_blocks = \<lparr>data_p_head = [0, 0], data_conf_data = [0, 0], dmr_pdu_sf = [], data_block_counter = [1, 1],
     data_block_poc = [0, 0], data_header_dd_format = [0, 0], data_header_bit_padding = [0, 0], data_byte_ctr = [0, 0],
     udt_uab_reserved = [0, 0], data_ks_start = [0, 0], data_header_blocks = [1, 1], data_block_crc_valid = [],
     dmr_lrrp_source = [0, 0], dmr_lrrp_target = [0, 0], dmr_data_target_is_group = [0, 0], dmr_cach_fragment = [],
     cap_plus_csbk_bits = [], cap_plus_block_num = [0, 0], data_header_valid = [0, 0], data_header_crc_invalid = [0, 0],
     data_header_format = [7, 7], data_header_sap = [0, 0], data_dbsn_expected = [0, 0], data_dbsn_have = [0, 0],
     dmr_lrrp_gps = [[], []]\<rparr>"

definition demo_host :: call_host where
  "demo_host = \<lparr>call_ext_slot = None, event_crc_invalid = [0, 0],
     p1_voice_err = \<lparr>err_hist = [], err_count = 0, err_pos = 0, err_sum = 0\<rparr>,
     p2_voice_err = replicate 2 \<lparr>err_hist = [], err_count = 0, err_pos = 0, err_sum = 0\<rparr>, host_key_epoch = 0, key_profile_ref = []\<rparr>"

definition demo_world :: dmr_world where
  "demo_world = \<lparr>generation = 1, next_request = 0, unresolved_count = 0, requests = replicate REQUEST_HISTORY free_record,
     clock_ns = 100000000000, wall_now = 0, trunk_enable = 1, trunk_is_tuned = 0, trunk_hangtime = 2, trunk_tune_data_calls = 1,
     trunk_scan_enabled = 0, frame_dmr = True, frame_p25p1 = False, frame_p25p2 = False, frame_nxdn48 = False,
     frame_nxdn96 = False, frame_provoice = False, use_rigctl = 0, audio_in_is_rtl = True, rtlsdr_center_freq = 451000000,
     chan_in_file = [], trunk_cc_freq = 451000000, p25_cc_freq = 0, trunk_chan_map = (\<lambda>n. if n = 7 then 452000000 else 0),
     dmr_lcn_trust = (\<lambda>n. 0), trunk_vc_freq = [0, 0], p25_vc_freq = [0, 0], is_con_plus = 0, dmr_mono_slot = 0,
     p25_sm_release_count = 0, p25_sm_tune_count = 0, trunk_sm_force_release = 0, last_t3_tune_time_m = 0,
     last_vc_sync_time_m = 0, last_cc_sync_time = 0, last_cc_sync_time_m = 0, trunk_recovery_protocol = DSD_TRUNK_RECOVERY_DMR,
     synctype = -1, lastsynctype = -1, lcn_freqs = [], lcn_freq_count = 0, lcn_avoid = [], candidates = None,
     call_store = demo_host, blocks = demo_blocks\<rparr>"

definition demo_grant :: dmr_sm_event where
  "demo_grant = (dmr_sm_ev_group_grant 0 7 1001 2002)\<lparr>ev_slot := 1\<rparr>"

definition demo_start :: "dmr_sm_ctx \<times> dmr_world" where
  "demo_start = (init_ctx_in (demo_env None) demo_world, demo_world)"

definition accept_return :: "dmr_world \<Rightarrow> u64 \<Rightarrow> dmr_world \<times> tune_result" where
  "accept_return w rid = (w\<lparr>trunk_is_tuned := 0\<rparr>, TUNE_OK)"

lemma demo_now: "now_s demo_world = 100"
  by (simp add: now_s_def demo_world_def)

lemma demo_requests: "replicate REQUEST_HISTORY free_record = free_record # replicate 63 free_record"
  by (simp add: REQUEST_HISTORY_def flip: replicate_Suc)

definition demo_tuned :: dmr_sm_ctx where
  "demo_tuned = zero_ctx\<lparr>sm_state := DMR_SM_TUNED, vc_freq_hz := 452000000, vc_lpcn := 7, vc_tg := 1001, vc_src := 2002,
     vc_slot := 1, vc_is_group := True, t_tune_m := 100, t_cc_sync_m := 100, cc_freq_hz := 451000000,
     cc_probe_freq_hz := 451000000, hangtime_s := 2, grant_timeout_s := 4, cc_grace_s := 6, sm_initialized := True\<rparr>"

definition finished_request :: request_record where
  "finished_request = free_record\<lparr>request_id := 1, completed_m_ns := 100000000000, req_state := REQUEST_FINISHED,
     backend_complete := True, owner_ready := True\<rparr>"

definition demo_after :: dmr_world where
  "demo_after = demo_world\<lparr>generation := 2, next_request := 1, requests := finished_request # replicate 63 free_record,
     trunk_is_tuned := 1, dmr_mono_slot := 1, blocks := demo_blocks, last_t3_tune_time_m := 100, p25_sm_tune_count := 1\<rparr>"

lemmas tune_eval = run_tune_hook_def tuning_request_begin_def Let_def fresh_request_id_def request_slot_locked_def
  set_request_def tuning_note_result_def tuning_request_complete_def request_find_locked_def request_matches_def
  finish_success_locked_def tune_result_is_complete_def tuning_generation_advance_def retire_failed_requests_locked_def
  retire_where_def tuning_request_status_def retire_record_def tune_result_is_ok_def older_def free_record_def finished_request_def

lemma demo_blocks_reset: "dmr_reset_blocks demo_blocks = demo_blocks"
  by (simp add: dmr_reset_blocks_def demo_blocks_def Let_def numeral_2_eq_2)

lemma demo_init: "init_ctx_in (demo_env ret) demo_world = zero_ctx\<lparr>vc_slot := -1, sm_state := DMR_SM_ON_CC, t_cc_sync_m := 100,
    cc_freq_hz := 451000000, cc_probe_freq_hz := 451000000, hangtime_s := 2, grant_timeout_s := 4, cc_grace_s := 6, sm_initialized := True\<rparr>"
proof -
  have "cfg_hangtime_s (demo_env ret) = None" "cfg_grant_timeout_s (demo_env ret) = None" "trunk_hangtime demo_world = 2"
    "trunk_cc_freq demo_world = 451000000"
    by (simp_all add: demo_env_def demo_world_def)
  then show ?thesis by (simp add: init_ctx_in_def dmr_sm_init_ctx_def Let_def demo_now)
qed

lemma demo_grant_resolved:
  "dmr_sm_resolve_tunable_grant (init_ctx_in (demo_env ret) demo_world) demo_world demo_grant = Some 452000000"
  unfolding demo_init
  by (simp add: dmr_sm_resolve_tunable_grant_def resolve_freq_def lpcn_is_trusted_def demo_world_def demo_grant_def
      dmr_sm_ev_group_grant_def zero_event_def zero_ctx_def)

lemma demo_noted: "trunk_recovery_note_protocol DSD_TRUNK_RECOVERY_DMR demo_world = demo_world"
  by (simp add: trunk_recovery_note_protocol_def demo_world_def)

lemma demo_tune: "tuning_hook_tune_to_freq (tuners (demo_env ret)) 452000000 0 (clock_ns demo_world) demo_world =
    (demo_world\<lparr>generation := 2, next_request := 1, requests := finished_request # replicate 63 free_record, trunk_is_tuned := 1\<rparr>, TUNE_OK, 1)"
  by (simp add: tuning_hook_tune_to_freq_def demo_env_def demo_world_def demo_requests)
    (simp add: tune_eval count_if_def)

lemma demo_world_simps [simp]:
  "clock_ns demo_world = 100000000000" "blocks demo_world = demo_blocks" "p25_sm_tune_count demo_world = 0"
  "trunk_is_tuned demo_world = 0" "trunk_cc_freq demo_world = 451000000" "trunk_enable demo_world = 1"
  "trunk_sm_force_release demo_world = 0" "p25_cc_freq demo_world = 0"
  by (simp_all add: demo_world_def)

lemma demo_init_simps [simp]: "sm_initialized (init_ctx_in env w)" "\<not> cc_acquiring (init_ctx_in env w)"
  by (simp_all add: init_ctx_in_def)

lemma demo_start_eq: "demo_start = (init_ctx_in (demo_env ret) demo_world, demo_world)"
  by (simp add: demo_start_def demo_init)

lemma demo_start_ok: "dmr_start (demo_env ret) demo_start"
  by (simp add: dmr_start_def demo_start_eq [of ret])

lemma demo_granted: "dmr_step (demo_env ret) (OpEvent demo_grant) demo_start = (demo_tuned, demo_after)"
proof -
  have g: "ev_type demo_grant = DMR_SM_EV_GRANT" "ev_slot demo_grant = 1" "ev_lpcn demo_grant = 7" "ev_tg demo_grant = 1001"
    "ev_src demo_grant = 2002" "ev_dst demo_grant = 0" "ev_is_group demo_grant"
    by (simp_all add: demo_grant_def dmr_sm_ev_group_grant_def zero_event_def)
  have "handle_grant (demo_env ret) demo_grant (init_ctx_in (demo_env ret) demo_world) demo_world = (demo_tuned, demo_after)"
    unfolding handle_grant_def Let_def demo_noted demo_grant_resolved option.case
    using demo_tune by (simp add: tune_result_is_ok_def g demo_blocks_reset demo_now set_state_eq)
      (simp add: demo_init zero_ctx_def demo_tuned_def demo_after_def)
  then show ?thesis by (simp add: demo_start_eq [of ret] dmr_sm_event_def g)
qed

text \<open>Ten seconds of silence after the grant.\<close>

definition demo_later :: dmr_world where
  "demo_later = demo_after\<lparr>clock_ns := 110000000000\<rparr>"

lemma demo_history: "fold (dmr_step (demo_env ret)) [OpEvent demo_grant, OpWorld demo_later] demo_start = (demo_tuned, demo_later)"
  by (simp add: demo_granted)

lemma demo_later_simps [simp]:
  "trunk_cc_freq demo_later = 451000000" "trunk_sm_force_release demo_later = 0" "now_s demo_later = 110"
  "trunk_dmr_recovery_allowed scan demo_later"
  by (simp_all add: demo_later_def demo_after_def now_s_def trunk_dmr_recovery_allowed_def demo_world_def)

lemma demo_tuned_simps [simp]:
  "sm_state demo_tuned = DMR_SM_TUNED" "sm_initialized demo_tuned" "sm_slots demo_tuned = [zero_slot, zero_slot]"
  "t_voice_m demo_tuned = 0" "t_tune_m demo_tuned = 100" "hangtime_s demo_tuned = 2" "grant_timeout_s demo_tuned = 4"
  "vc_freq_hz demo_tuned = 452000000" "cc_freq_hz demo_tuned = 451000000"
  by (simp_all add: demo_tuned_def zero_ctx_def numeral_2_eq_2)

lemma demo_rest: "replicate 63 free_record = free_record # replicate 62 free_record"
  by (simp flip: replicate_Suc)

lemma demo_accepts: "return_accepted (demo_env (Some accept_return)) c demo_later"
  by (simp add: return_accepted_def tuning_hook_return_to_cc_def demo_env_def demo_later_def demo_after_def demo_world_def demo_rest)
    (simp add: tune_eval accept_return_def)

lemma demo_refuses: "\<not> return_accepted (demo_env None) c demo_later"
  by (simp add: return_accepted_def tuning_hook_return_to_cc_def demo_env_def demo_later_def demo_after_def demo_world_def demo_rest)
    (simp add: tune_eval finish_rolled_back_locked_def)

lemma demo_due: "release_due (now_s demo_later) demo_tuned demo_later"
  by (simp add: release_due_def slot_fresh_def zero_slot_def)

theorem dmr_context_invariant_witness:
  "sm_state demo_tuned = DMR_SM_TUNED \<and> vc_freq_hz demo_tuned > 0 \<and> cc_tune_request_id demo_tuned = 0 \<and> \<not> cc_acquiring demo_tuned"
  using dmr_context_invariant [OF demo_start_ok demo_history] by simp

theorem voice_channel_only_by_grant_witness:
  "\<exists>ev. OpEvent demo_grant = OpEvent ev \<and> ev_type ev = DMR_SM_EV_GRANT \<and> vc_freq_hz demo_tuned = resolve_freq demo_world (ev_freq_hz ev) (ev_lpcn ev)
    \<and> lpcn_is_trusted demo_world (ev_lpcn ev)"
proof -
  have ns: "fold (dmr_step (demo_env None)) [] demo_start = (fst demo_start, demo_world)" by (simp add: demo_start_def)
  have st: "dmr_step (demo_env None) (OpEvent demo_grant) (fst demo_start, demo_world) = (demo_tuned, demo_after)"
    using demo_granted [of None] by (simp add: demo_start_def)
  have "sm_state (fst demo_start) \<noteq> DMR_SM_TUNED" by (simp add: demo_start_def init_ctx_in_def)
  with voice_channel_only_by_grant [OF demo_start_ok ns st] show ?thesis
    by (auto simp: demo_grant_def dmr_sm_ev_group_grant_def zero_event_def)
qed

theorem confirmation_needs_decoded_evidence_witness:
  "cc_confirmed (fst (dmr_step (demo_env None) (OpActivity False 451000000) demo_start)) \<and>
   cc_freq_hz (fst (dmr_step (demo_env None) (OpActivity False 451000000) demo_start)) = 451000000"
proof -
  have ns: "fold (dmr_step (demo_env None)) [] demo_start = (init_ctx_in (demo_env None) demo_world, demo_world)" by (simp add: demo_start_def)
  have cur: "dmr_cc_current_frequency (demo_env None) (Some (init_ctx_in (demo_env None) demo_world)) demo_world = 451000000"
    unfolding demo_init by (simp add: dmr_cc_current_frequency_def Let_def zero_ctx_def) (simp add: demo_world_def)
  have act: "dmr_cc_activity_context False (init_ctx_in (demo_env None) demo_world) demo_world
      = (init_ctx_in (demo_env None) demo_world, demo_world, True)"
    by (simp add: dmr_cc_activity_context_def init_ctx_in_def) (simp add: demo_world_def)
  obtain c' w' where st: "dmr_step (demo_env None) (OpActivity False 451000000) (init_ctx_in (demo_env None) demo_world, demo_world) = (c', w')"
    by (meson surj_pair)
  have k: "cc_confirmed c'"
    using st by (simp add: dmr_sm_note_cc_activity_def act dmr_cc_note_activity_ctx_def cur Let_def) auto
  from confirmation_needs_decoded_evidence [OF demo_start_ok ns st k] have "cc_freq_hz c' = 451000000"
    by (simp add: init_ctx_in_def)
  with k st show ?thesis by (simp add: demo_start_def)
qed

theorem silent_channel_is_released_witness:
  "sm_state (fst (dmr_sm_tick_ctx (demo_env (Some accept_return)) False demo_tuned demo_later)) \<noteq> DMR_SM_TUNED \<and>
   vc_freq_hz (fst (dmr_sm_tick_ctx (demo_env (Some accept_return)) False demo_tuned demo_later)) = 0"
  using silent_channel_is_released [OF demo_start_ok demo_history, of 100 demo_tuned "Some accept_return" "[]" False demo_later]
  by (simp add: demo_accepts zero_slot_def)

theorem refused_return_is_retried_witness:
  "sm_state (fst (dmr_sm_tick_ctx (demo_env None) False demo_tuned demo_later)) = DMR_SM_TUNED \<and>
   release_due (now_s demo_later) (fst (dmr_sm_tick_ctx (demo_env None) False demo_tuned demo_later))
     (snd (dmr_sm_tick_ctx (demo_env None) False demo_tuned demo_later))"
proof -
  obtain c' w' where t: "dmr_sm_tick_ctx (demo_env None) False demo_tuned demo_later = (c', w')" by (meson surj_pair)
  from refused_return_is_retried [OF demo_start_ok demo_history _ _ _ demo_refuses _ t demo_due] show ?thesis by (simp add: t)
qed

end
