(* ===== verification/Tg_Policy.thy ===== *)
theory Tg_Policy
  imports Enc_Lockout
begin

text \<open>
  The talkgroup policy of \<open>src/core/util/talkgroup_policy.c\<close>: the table of exact and range rows, the
  session avoids, the decision whether a call may be tuned, heard, recorded and streamed, and the
  preemption of active calls by priority.

  A policy context is a record; the reference-counted contexts that decoder states and scan targets
  share are in theory \<open>Tg_Policy_Store\<close>. Texts are the bytes before their terminator; a text as long as
  its buffer is one without a terminator. Each allocation a call can make is an argument of it.
\<close>

section \<open>Data\<close>

datatype tg_match = TG_MATCH_NONE | TG_MATCH_RANGE | TG_MATCH_EXACT

datatype tg_source = TG_SOURCE_IMPORTED | TG_SOURCE_RUNTIME_ALIAS | TG_SOURCE_USER_LOCKOUT | TG_SOURCE_ENC_LOCKOUT

datatype tg_upsert_mode = TG_UPSERT_ADD_IF_MISSING | TG_UPSERT_REPLACE_FIRST | TG_UPSERT_REPLACE_LEARNED_ONLY

definition TG_BLOCK_GROUP_DISABLED :: u32 where "TG_BLOCK_GROUP_DISABLED = 1"
definition TG_BLOCK_PRIVATE_DISABLED :: u32 where "TG_BLOCK_PRIVATE_DISABLED = 2"
definition TG_BLOCK_DATA_DISABLED :: u32 where "TG_BLOCK_DATA_DISABLED = 4"
definition TG_BLOCK_ENCRYPTED_DISABLED :: u32 where "TG_BLOCK_ENCRYPTED_DISABLED = 8"
definition TG_BLOCK_ALLOWLIST :: u32 where "TG_BLOCK_ALLOWLIST = 16"
definition TG_BLOCK_MODE :: u32 where "TG_BLOCK_MODE = 32"
definition TG_BLOCK_HOLD :: u32 where "TG_BLOCK_HOLD = 64"
definition TG_BLOCK_AUDIO :: u32 where "TG_BLOCK_AUDIO = 128"
definition TG_BLOCK_RECORD :: u32 where "TG_BLOCK_RECORD = 256"
definition TG_BLOCK_STREAM :: u32 where "TG_BLOCK_STREAM = 512"
definition TG_BLOCK_ENC_LOCKOUT :: u32 where "TG_BLOCK_ENC_LOCKOUT = 1024"
definition TG_BLOCK_SESSION_AVOID :: u32 where "TG_BLOCK_SESSION_AVOID = 2048"

definition TG_MODE_SIZE :: nat where "TG_MODE_SIZE = 8"
definition TG_NAME_SIZE :: nat where "TG_NAME_SIZE = 50"
definition TG_TAGS_SIZE :: nat where "TG_TAGS_SIZE = 50"

record tg_entry =
  te_start :: u32
  te_end :: u32
  te_mode :: string
  te_name :: string
  te_tags :: string
  te_priority :: int
  te_preempt :: u8
  te_audio :: u8
  te_record :: u8
  te_stream :: u8
  te_range :: bool
  te_source :: tg_source
  te_row :: u32

record tg_lookup =
  tl_match :: tg_match
  tl_entry :: tg_entry

record tg_decision =
  td_target :: u32
  td_source :: u32
  td_encrypted :: bool
  td_data_call :: bool
  td_private_call :: bool
  td_tune :: bool
  td_audio :: bool
  td_record :: bool
  td_stream :: bool
  td_priority :: int
  td_preempt :: bool
  td_reasons :: u32
  td_hold_active :: bool
  td_hold_match :: bool
  td_mode :: string
  td_name :: string
  td_match :: tg_match

record tg_route =
  tr_target :: u32
  tr_source :: u32
  tr_freq_hz :: int
  tr_channel :: int
  tr_slot :: int
  tr_retune :: bool

record tg_call =
  tc_valid :: bool
  tc_tg :: u32
  tc_src :: u32
  tc_freq_hz :: int
  tc_channel :: int
  tc_priority :: int
  tc_private :: bool
  tc_slot :: int
  tc_start :: mono_s
  tc_last_seen :: mono_s
  tc_last_preempt :: mono_s

record tg_ctx =
  tp_rows :: "tg_entry list"
  tp_capacity :: nat
  tp_generation :: u32
  tp_avoids :: "u32 list"
  tp_avoid_capacity :: nat
  tp_calls :: "tg_call list"
  tp_last_preempt :: mono_s
  tp_active_generation :: u32
  tp_references :: nat
  tp_context_id :: u64
  tp_source_id :: u64
  tp_parent_id :: u64

record tg_opts =
  to_group_calls :: int
  to_private_calls :: int
  to_data_calls :: int
  to_enc_calls :: int
  to_allow_list :: int

definition zero_tg_entry :: tg_entry where
  "zero_tg_entry = \<lparr>te_start = 0, te_end = 0, te_mode = [], te_name = [], te_tags = [], te_priority = 0, te_preempt = 0,
     te_audio = 0, te_record = 0, te_stream = 0, te_range = False, te_source = TG_SOURCE_IMPORTED, te_row = 0\<rparr>"

definition zero_call :: tg_call where
  "zero_call = \<lparr>tc_valid = False, tc_tg = 0, tc_src = 0, tc_freq_hz = 0, tc_channel = 0, tc_priority = 0, tc_private = False,
     tc_slot = 0, tc_start = 0, tc_last_seen = 0, tc_last_preempt = 0\<rparr>"

definition no_lookup :: tg_lookup where
  "no_lookup = \<lparr>tl_match = TG_MATCH_NONE, tl_entry = zero_tg_entry\<rparr>"

section \<open>Rows\<close>

definition tg_safe_copy :: "nat \<Rightarrow> string \<Rightarrow> string" where
  "tg_safe_copy cap s = take (cap - 1) s"

definition tg_mode_is_blocking :: "string \<Rightarrow> bool" where
  "tg_mode_is_blocking mode \<longleftrightarrow> mode = ''B'' \<or> mode = ''DE''"

definition tg_defaults_from_mode :: "string \<Rightarrow> tg_entry \<Rightarrow> tg_entry" where
  "tg_defaults_from_mode mode e =
     (let on = (if tg_mode_is_blocking mode then 0 else 1) in e\<lparr>te_audio := on, te_record := on, te_stream := on\<rparr>)"

definition tg_normalize_entry :: "tg_entry \<Rightarrow> tg_entry" where
  "tg_normalize_entry e =
     (let flag = (\<lambda>v :: u8. if v \<noteq> 0 then 1 else 0);
          e1 = e\<lparr>te_preempt := flag (te_preempt e), te_audio := flag (te_audio e), te_record := flag (te_record e),
                 te_stream := flag (te_stream e)\<rparr>;
          e2 = (if te_priority e1 < 0 then e1\<lparr>te_priority := 0\<rparr> else if te_priority e1 > 100 then e1\<lparr>te_priority := 100\<rparr> else e1)
      in if tg_mode_is_blocking (te_mode e2) then e2\<lparr>te_audio := 0, te_record := 0, te_stream := 0\<rparr>
         else if te_audio e2 = 0 then e2\<lparr>te_record := 0, te_stream := 0\<rparr> else e2)"

definition tg_mode_valid :: "string \<Rightarrow> bool" where
  "tg_mode_valid mode \<longleftrightarrow> mode \<noteq> [] \<and> length mode < TG_MODE_SIZE"

definition tg_entry_apply_mode :: "string \<Rightarrow> tg_entry \<Rightarrow> tg_entry" where
  "tg_entry_apply_mode mode e =
     (let e1 = e\<lparr>te_mode := tg_safe_copy TG_MODE_SIZE mode\<rparr> in tg_normalize_entry (tg_defaults_from_mode (te_mode e1) e1))"

definition tg_copy_entry_normalized :: "tg_entry \<Rightarrow> tg_entry" where
  "tg_copy_entry_normalized e = tg_normalize_entry (e\<lparr>te_mode := tg_safe_copy TG_MODE_SIZE (te_mode e),
     te_name := tg_safe_copy TG_NAME_SIZE (te_name e), te_tags := tg_safe_copy TG_TAGS_SIZE (te_tags e)\<rparr>)"

definition tg_entry_valid_exact :: "tg_entry \<Rightarrow> bool" where
  "tg_entry_valid_exact e \<longleftrightarrow> \<not> te_range e \<and> te_start e = te_end e"

definition tg_entry_valid_range :: "tg_entry \<Rightarrow> bool" where
  "tg_entry_valid_range e \<longleftrightarrow> te_range e \<and> \<not> te_start e > te_end e \<and> te_start e \<noteq> te_end e"

definition tg_make_exact_entry :: "u32 \<Rightarrow> string \<Rightarrow> string \<Rightarrow> tg_source \<Rightarrow> tg_entry" where
  "tg_make_exact_entry ident mode name source =
     (let e = zero_tg_entry\<lparr>te_start := ident, te_end := ident, te_mode := tg_safe_copy TG_MODE_SIZE mode,
                te_name := tg_safe_copy TG_NAME_SIZE name\<rparr>
      in (tg_defaults_from_mode (te_mode e) e)\<lparr>te_range := False, te_source := source, te_row := 0\<rparr>)"

section \<open>Lookups\<close>

definition tg_exact_hit :: "u32 \<Rightarrow> tg_entry \<Rightarrow> bool" where
  "tg_exact_hit ident e \<longleftrightarrow> \<not> te_range e \<and> te_start e = ident \<and> te_end e = ident"

definition tg_find_exact_idx_first :: "tg_ctx \<Rightarrow> u32 \<Rightarrow> nat option" where
  "tg_find_exact_idx_first c ident = find_index (tg_exact_hit ident) (tp_rows c)"

definition tg_find_bounds_idx_first :: "tg_ctx \<Rightarrow> u32 \<Rightarrow> u32 \<Rightarrow> nat option" where
  "tg_find_bounds_idx_first c s e = find_index (\<lambda>r. te_start r = s \<and> te_end r = e) (tp_rows c)"

text \<open>Spans are computed at 64 bits. A later row replaces the best one on equal spans.\<close>

definition tg_span :: "tg_entry \<Rightarrow> u64" where
  "tg_span e = ucast (te_end e) - ucast (te_start e)"

fun tg_best_range_loop :: "u32 \<Rightarrow> nat \<Rightarrow> tg_entry list \<Rightarrow> (nat \<times> u64) option \<Rightarrow> (nat \<times> u64) option" where
  "tg_best_range_loop ident i [] best = best"
| "tg_best_range_loop ident i (e # es) best =
     tg_best_range_loop ident (Suc i) es
       (if \<not> te_range e then best
        else if ident < te_start e \<or> ident > te_end e then best
        else (case best of
                None \<Rightarrow> Some (i, tg_span e)
              | Some (j, width) \<Rightarrow> if tg_span e < width \<or> (tg_span e = width \<and> i > j) then Some (i, tg_span e) else best))"

definition tg_find_best_range_idx :: "tg_ctx \<Rightarrow> u32 \<Rightarrow> nat option" where
  "tg_find_best_range_idx c ident = map_option fst (tg_best_range_loop ident 0 (tp_rows c) None)"

definition tg_lookup_exact_in_ctx :: "tg_ctx \<Rightarrow> u32 \<Rightarrow> tg_entry option" where
  "tg_lookup_exact_in_ctx c ident = map_option (\<lambda>i. tp_rows c ! i) (tg_find_exact_idx_first c ident)"

definition tg_lookup_id :: "tg_ctx option \<Rightarrow> u32 \<Rightarrow> tg_lookup" where
  "tg_lookup_id ctx ident =
     (case ctx of
        None \<Rightarrow> no_lookup
      | Some c \<Rightarrow>
          (case tg_lookup_exact_in_ctx c ident of
             Some e \<Rightarrow> \<lparr>tl_match = TG_MATCH_EXACT, tl_entry = e\<rparr>
           | None \<Rightarrow>
               (case tg_find_best_range_idx c ident of
                  Some i \<Rightarrow> \<lparr>tl_match = TG_MATCH_RANGE, tl_entry = tp_rows c ! i\<rparr>
                | None \<Rightarrow> no_lookup)))"

definition tg_lookup_exact_only :: "tg_ctx option \<Rightarrow> u32 \<Rightarrow> tg_entry option" where
  "tg_lookup_exact_only ctx ident =
     (let l = tg_lookup_id ctx ident in if tl_match l \<noteq> TG_MATCH_EXACT then None else Some (tl_entry l))"

definition tg_has_entries :: "tg_ctx option \<Rightarrow> bool" where
  "tg_has_entries ctx \<longleftrightarrow> (case ctx of None \<Rightarrow> False | Some c \<Rightarrow> length (tp_rows c) > 0)"

definition tg_lookup_label :: "tg_ctx option \<Rightarrow> u32 \<Rightarrow> nat \<Rightarrow> nat \<Rightarrow> string \<times> string \<times> bool" where
  "tg_lookup_label ctx ident mode_sz name_sz =
     (let l = tg_lookup_id ctx ident in
      if tl_match l \<noteq> TG_MATCH_EXACT then ([], [], False)
      else (tg_safe_copy mode_sz (te_mode (tl_entry l)), tg_safe_copy name_sz (te_name (tl_entry l)), True))"

section \<open>Active priorities and the generation\<close>

definition tg_refreshed_priority :: "tg_ctx \<Rightarrow> tg_call \<Rightarrow> int" where
  "tg_refreshed_priority c call =
     (case tg_lookup_exact_in_ctx c (tc_tg call) of
        Some e \<Rightarrow> te_priority e
      | None \<Rightarrow>
          if tc_private call
          then (case tg_lookup_exact_in_ctx c (tc_src call) of Some e \<Rightarrow> te_priority e | None \<Rightarrow> 0)
          else (case tg_find_best_range_idx c (tc_tg call) of Some i \<Rightarrow> te_priority (tp_rows c ! i) | None \<Rightarrow> 0))"

definition tg_refresh_active_priorities :: "tg_ctx \<Rightarrow> tg_ctx" where
  "tg_refresh_active_priorities c = c\<lparr>tp_calls :=
     map (\<lambda>call. if tc_valid call then call\<lparr>tc_priority := tg_refreshed_priority c call\<rparr> else call) (tp_calls c)\<rparr>"

definition tg_note_mutation :: "tg_ctx \<Rightarrow> tg_ctx" where
  "tg_note_mutation c =
     (let g = tp_generation c + 1 in tg_refresh_active_priorities (c\<lparr>tp_generation := (if g = 0 then 1 else g)\<rparr>))"

section \<open>Session avoids\<close>

function tg_lower_bound_loop :: "u32 list \<Rightarrow> u32 \<Rightarrow> nat \<Rightarrow> nat \<Rightarrow> nat" where
  "tg_lower_bound_loop xs ident lo hi =
     (if lo < hi
      then let mid = lo + (hi - lo) div 2 in
           if xs ! mid < ident then tg_lower_bound_loop xs ident (mid + 1) hi else tg_lower_bound_loop xs ident lo mid
      else lo)"
  by pat_completeness auto
termination
  by (relation "measure (\<lambda>(xs, ident, lo, hi). hi - lo)") auto

declare tg_lower_bound_loop.simps [simp del]

definition tg_avoid_lower_bound :: "tg_ctx option \<Rightarrow> u32 \<Rightarrow> nat" where
  "tg_avoid_lower_bound ctx ident = (case ctx of None \<Rightarrow> 0 | Some c \<Rightarrow> tg_lower_bound_loop (tp_avoids c) ident 0 (length (tp_avoids c)))"

definition tg_avoid_contains :: "tg_ctx option \<Rightarrow> u32 \<Rightarrow> bool" where
  "tg_avoid_contains ctx ident \<longleftrightarrow>
     (let i = tg_avoid_lower_bound ctx ident in
      case ctx of None \<Rightarrow> False | Some c \<Rightarrow> i < length (tp_avoids c) \<and> tp_avoids c ! i = ident)"

definition tg_avoid_count :: "tg_ctx option \<Rightarrow> u32 \<Rightarrow> u32 \<Rightarrow> nat" where
  "tg_avoid_count ctx first final =
     (case ctx of
        None \<Rightarrow> 0
      | Some c \<Rightarrow>
          if first > final then 0
          else (let after = (if final = -1 then length (tp_avoids c) else tg_avoid_lower_bound ctx (final + 1))
                in after - tg_avoid_lower_bound ctx first))"

definition tg_avoid_reserve :: "bool \<Rightarrow> tg_ctx \<Rightarrow> tg_ctx option" where
  "tg_avoid_reserve alloc c =
     (if length (tp_avoids c) < tp_avoid_capacity c then Some c
      else (let capacity = (if tp_avoid_capacity c \<noteq> 0 then tp_avoid_capacity c else 8)
            in if alloc then Some (c\<lparr>tp_avoid_capacity := capacity * 2\<rparr>) else None))"

text \<open>Insertion at the lower bound; the caller has reserved the place.\<close>

definition tg_avoid_insert :: "u32 \<Rightarrow> tg_ctx \<Rightarrow> tg_ctx" where
  "tg_avoid_insert ident c =
     (let i = tg_avoid_lower_bound (Some c) ident
      in tg_note_mutation (c\<lparr>tp_avoids := take i (tp_avoids c) @ ident # drop i (tp_avoids c)\<rparr>))"

definition tg_ctx_avoid_add :: "bool \<Rightarrow> u32 \<Rightarrow> tg_ctx \<Rightarrow> tg_ctx \<times> int" where
  "tg_ctx_avoid_add alloc ident c =
     (if tg_avoid_contains (Some c) ident then (c, 0)
      else case tg_avoid_reserve alloc c of None \<Rightarrow> (c, -1) | Some c1 \<Rightarrow> (tg_avoid_insert ident c1, 0))"

definition tg_ctx_avoid_clear :: "tg_ctx \<Rightarrow> tg_ctx" where
  "tg_ctx_avoid_clear c = (if tp_avoids c \<noteq> [] then tg_note_mutation (c\<lparr>tp_avoids := []\<rparr>) else c)"

section \<open>Table operations\<close>

text \<open>\<open>while (target < needed) target *= 2\<close>, from a positive target.\<close>

function double_until :: "nat \<Rightarrow> nat \<Rightarrow> nat" where
  "double_until target needed = (if 0 < target \<and> target < needed then double_until (target * 2) needed else target)"
  by pat_completeness auto
termination
  by (relation "measure (\<lambda>(target, needed). needed - target)") auto

declare double_until.simps [simp del]

definition tg_table_reserve :: "bool \<Rightarrow> nat \<Rightarrow> tg_ctx \<Rightarrow> tg_ctx option" where
  "tg_table_reserve alloc needed c =
     (if tp_capacity c \<ge> needed then Some c
      else (let first = (if tp_capacity c > 0 then tp_capacity c else 16);
                grown = double_until first needed
            in if alloc then Some (c\<lparr>tp_capacity := grown\<rparr>) else None))"

definition tg_store_append :: "bool \<Rightarrow> tg_entry \<Rightarrow> tg_ctx \<Rightarrow> tg_ctx \<times> int" where
  "tg_store_append alloc entry c =
     (if \<not> (if te_range entry then tg_entry_valid_range entry else tg_entry_valid_exact entry) then (c, 1)
      else
        (let n0 = tg_copy_entry_normalized entry;
             normalized = (if \<not> te_range entry then n0\<lparr>te_end := te_start n0\<rparr> else n0)
         in case tg_table_reserve alloc (length (tp_rows c) + 1) c of
              None \<Rightarrow> (c, -1)
            | Some c1 \<Rightarrow> (tg_note_mutation (c1\<lparr>tp_rows := tp_rows c1 @ [normalized]\<rparr>), 0)))"

definition tg_set_row :: "nat \<Rightarrow> tg_entry \<Rightarrow> tg_ctx \<Rightarrow> tg_ctx" where
  "tg_set_row i e c = tg_note_mutation (c\<lparr>tp_rows := (tp_rows c)[i := e]\<rparr>)"

text \<open>\<open>dsd_tg_policy_upsert_exact\<close> on the context it finds or creates; \<open>None\<close> when there is none.\<close>

definition tg_ctx_append_exact :: "bool \<Rightarrow> tg_entry \<Rightarrow> tg_ctx \<Rightarrow> tg_ctx \<times> int" where
  "tg_ctx_append_exact alloc entry c = (if \<not> tg_entry_valid_exact entry then (c, 1) else tg_store_append alloc entry c)"

definition tg_ctx_upsert_exact :: "bool \<Rightarrow> tg_entry \<Rightarrow> tg_upsert_mode \<Rightarrow> tg_ctx \<Rightarrow> tg_ctx \<times> int" where
  "tg_ctx_upsert_exact alloc entry mode c =
     (let n0 = tg_copy_entry_normalized entry;
          normalized = n0\<lparr>te_range := False, te_end := te_start n0\<rparr>;
          idx = tg_find_exact_idx_first c (te_start normalized)
      in case mode of
           TG_UPSERT_ADD_IF_MISSING \<Rightarrow> (case idx of Some _ \<Rightarrow> (c, 0) | None \<Rightarrow> tg_ctx_append_exact alloc normalized c)
         | TG_UPSERT_REPLACE_LEARNED_ONLY \<Rightarrow>
             (case idx of
                None \<Rightarrow> (c, 0)
              | Some i \<Rightarrow> if te_source (tp_rows c ! i) \<noteq> TG_SOURCE_RUNTIME_ALIAS then (c, 0) else (tg_set_row i normalized c, 0))
         | TG_UPSERT_REPLACE_FIRST \<Rightarrow>
             (case idx of None \<Rightarrow> tg_ctx_append_exact alloc normalized c | Some i \<Rightarrow> (tg_set_row i normalized c, 0)))"

definition tg_ctx_set_mode :: "bool \<Rightarrow> u32 \<Rightarrow> u32 \<Rightarrow> string \<Rightarrow> tg_ctx \<Rightarrow> tg_ctx \<times> int" where
  "tg_ctx_set_mode alloc s e mode c =
     (case tg_find_bounds_idx_first c s e of
        Some i \<Rightarrow>
          (let entry = tp_rows c ! i in
           if s = e \<and> (te_source entry = TG_SOURCE_RUNTIME_ALIAS \<or> te_mode entry = ''D'')
           then (tg_set_row i (tg_make_exact_entry s mode [] TG_SOURCE_USER_LOCKOUT) c, 0)
           else (tg_set_row i (tg_entry_apply_mode mode entry) c, 0))
      | None \<Rightarrow> if s \<noteq> e then (c, 1)
               else tg_store_append alloc (tg_make_exact_entry s mode [] TG_SOURCE_USER_LOCKOUT) c)"

definition tg_ctx_set_mode_at :: "nat \<Rightarrow> string \<Rightarrow> tg_ctx \<Rightarrow> tg_ctx \<times> int" where
  "tg_ctx_set_mode_at i mode c =
     (if i \<ge> length (tp_rows c) \<or> \<not> tg_mode_valid mode then (c, 1)
      else (tg_set_row i (tg_entry_apply_mode mode (tp_rows c ! i)) c, 0))"

definition tg_row_editable :: "tg_entry \<Rightarrow> bool" where
  "tg_row_editable e \<longleftrightarrow> te_source e \<noteq> TG_SOURCE_RUNTIME_ALIAS \<and> te_mode e \<noteq> ''D''"

text \<open>The field mask of an edit.\<close>

definition TG_FIELD_LISTEN :: u32 where "TG_FIELD_LISTEN = 1"
definition TG_FIELD_PRIORITY :: u32 where "TG_FIELD_PRIORITY = 2"
definition TG_FIELD_PREEMPT :: u32 where "TG_FIELD_PREEMPT = 4"
definition TG_FIELD_NAME :: u32 where "TG_FIELD_NAME = 8"
definition TG_FIELD_TAGS :: u32 where "TG_FIELD_TAGS = 16"

definition tg_listen_fields_invalid :: "tg_entry \<Rightarrow> u32 \<Rightarrow> bool" where
  "tg_listen_fields_invalid v msk \<longleftrightarrow> msk AND TG_FIELD_LISTEN \<noteq> 0 \<and>
     (\<not> length (te_mode v) < TG_MODE_SIZE \<or> te_mode v \<noteq> ''A'' \<and> te_mode v \<noteq> ''B'')"

definition tg_other_fields_invalid :: "tg_entry \<Rightarrow> u32 \<Rightarrow> bool" where
  "tg_other_fields_invalid v msk \<longleftrightarrow>
     msk AND TG_FIELD_PRIORITY \<noteq> 0 \<and> (te_priority v < 0 \<or> te_priority v > 100)
     \<or> msk AND TG_FIELD_PREEMPT \<noteq> 0 \<and> te_preempt v > 1
     \<or> msk AND TG_FIELD_NAME \<noteq> 0 \<and> \<not> length (te_name v) < TG_NAME_SIZE
     \<or> msk AND TG_FIELD_TAGS \<noteq> 0 \<and> \<not> length (te_tags v) < TG_TAGS_SIZE"

definition tg_apply_fields :: "tg_entry \<Rightarrow> u32 \<Rightarrow> tg_entry \<Rightarrow> tg_entry" where
  "tg_apply_fields v msk e =
     (let e1 = (if msk AND TG_FIELD_LISTEN \<noteq> 0 then tg_entry_apply_mode (te_mode v) e else e);
          e2 = (if msk AND TG_FIELD_PRIORITY \<noteq> 0 then e1\<lparr>te_priority := te_priority v\<rparr> else e1);
          e3 = (if msk AND TG_FIELD_PREEMPT \<noteq> 0 then e2\<lparr>te_preempt := te_preempt v\<rparr> else e2);
          e4 = (if msk AND TG_FIELD_NAME \<noteq> 0 then e3\<lparr>te_name := tg_safe_copy TG_NAME_SIZE (te_name v)\<rparr> else e3)
      in if msk AND TG_FIELD_TAGS \<noteq> 0 then e4\<lparr>te_tags := tg_safe_copy TG_TAGS_SIZE (te_tags v)\<rparr> else e4)"

definition tg_set_fields_refused :: "u32 \<Rightarrow> u32 \<Rightarrow> tg_entry \<Rightarrow> u32 \<Rightarrow> bool" where
  "tg_set_fields_refused s e v msk \<longleftrightarrow>
     (let every = TG_FIELD_LISTEN OR TG_FIELD_PRIORITY OR TG_FIELD_PREEMPT OR TG_FIELD_NAME OR TG_FIELD_TAGS
      in s > e \<or> msk = 0 \<or> msk AND NOT every \<noteq> 0 \<or> tg_listen_fields_invalid v msk \<or> tg_other_fields_invalid v msk)"

definition tg_ctx_set_fields :: "bool \<Rightarrow> u32 \<Rightarrow> u32 \<Rightarrow> tg_entry \<Rightarrow> u32 \<Rightarrow> tg_ctx \<Rightarrow> tg_ctx \<times> int" where
  "tg_ctx_set_fields alloc s e v msk c =
     (case tg_find_bounds_idx_first c s e of
        Some i \<Rightarrow> if \<not> tg_row_editable (tp_rows c ! i) then (c, 1)
                 else (tg_set_row i (tg_apply_fields v msk (tp_rows c ! i)) c, 0)
      | None \<Rightarrow>
          (let fresh = (tg_make_exact_entry s ''A'' [] TG_SOURCE_USER_LOCKOUT)\<lparr>te_end := e, te_range := s \<noteq> e\<rparr>
           in tg_store_append alloc (tg_apply_fields v msk fresh) c))"

definition tg_ctx_remove_bounds :: "u32 \<Rightarrow> u32 \<Rightarrow> tg_ctx \<Rightarrow> tg_ctx \<times> int" where
  "tg_ctx_remove_bounds s e c =
     (if s > e then (c, 1)
      else case tg_find_bounds_idx_first c s e of
        None \<Rightarrow> (c, 1)
      | Some i \<Rightarrow>
          if \<not> tg_row_editable (tp_rows c ! i) then (c, 1)
          else (tg_note_mutation (c\<lparr>tp_rows := take i (tp_rows c) @ drop (Suc i) (tp_rows c)\<rparr>), 0))"

section \<open>Editing a selection atomically\<close>

record tg_selection =
  ts_index :: int
  ts_start :: u32
  ts_end :: u32

definition selection_key :: "tg_selection \<Rightarrow> u64" where
  "selection_key item = (if ts_index item \<ge> 0 then of_int (ts_index item) else push_bit 63 1 OR ucast (ts_start item))"

fun adjacent_equal :: "u64 list \<Rightarrow> bool" where
  "adjacent_equal (a # b # xs) = (a = b \<or> adjacent_equal (b # xs))"
| "adjacent_equal xs = False"

definition selection_has_duplicates :: "tg_selection list \<Rightarrow> bool" where
  "selection_has_duplicates sel = adjacent_equal (sort (map selection_key sel))"

text \<open>\<open>old\<close> are the rows before the edit; \<open>used\<close> the copy under construction.\<close>

definition prepare_selection_entry :: "tg_entry list \<Rightarrow> tg_selection \<Rightarrow> bool \<Rightarrow> tg_entry list \<Rightarrow> tg_entry list option" where
  "prepare_selection_entry old item listening used =
     (if ts_start item = 0 \<or> ts_start item > ts_end item \<or> ts_index item < -1 then None
      else
        (let mode = (if listening then ''A'' else ''B'') in
         if ts_index item \<ge> 0 then
           (let row = nat (ts_index item) in
            if row \<ge> length old \<or> te_start (used ! row) \<noteq> ts_start item \<or> te_end (used ! row) \<noteq> ts_end item
               \<or> \<not> tg_row_editable (used ! row) then None
            else Some (used[row := tg_entry_apply_mode mode (used ! row)]))
         else if ts_start item \<noteq> ts_end item then None
         else if find_index (\<lambda>r. te_start r = ts_start item \<and> te_end r = ts_end item) old \<noteq> None then None
         else Some (used @ [tg_entry_apply_mode mode (tg_make_exact_entry (ts_start item) ''A'' [] TG_SOURCE_USER_LOCKOUT)])))"

fun prepare_selection :: "tg_entry list \<Rightarrow> tg_selection list \<Rightarrow> bool \<Rightarrow> tg_entry list \<Rightarrow> tg_entry list option" where
  "prepare_selection old [] listening used = Some used"
| "prepare_selection old (item # items) listening used =
     (case prepare_selection_entry old item listening used of
        None \<Rightarrow> None | Some used' \<Rightarrow> prepare_selection old items listening used')"

section \<open>The decision\<close>

definition tg_init_decision :: "u32 \<Rightarrow> u32 \<Rightarrow> bool \<Rightarrow> bool \<Rightarrow> tg_decision" where
  "tg_init_decision target source encrypted data_call =
     \<lparr>td_target = target, td_source = source, td_encrypted = encrypted, td_data_call = data_call, td_private_call = False,
      td_tune = True, td_audio = True, td_record = True, td_stream = True, td_priority = 0, td_preempt = False, td_reasons = 0,
      td_hold_active = False, td_hold_match = False, td_mode = [], td_name = [], td_match = TG_MATCH_NONE\<rparr>"

definition tg_decision_apply_entry :: "tg_entry \<Rightarrow> tg_match \<Rightarrow> tg_decision \<Rightarrow> tg_decision" where
  "tg_decision_apply_entry e m d = d\<lparr>td_match := m, td_priority := te_priority e, td_preempt := te_preempt e \<noteq> 0,
     td_audio := te_audio e \<noteq> 0, td_record := te_record e \<noteq> 0, td_stream := te_stream e \<noteq> 0,
     td_mode := tg_safe_copy TG_MODE_SIZE (te_mode e), td_name := tg_safe_copy TG_NAME_SIZE (te_name e)\<rparr>"

definition tg_block_tune_and_media :: "u32 \<Rightarrow> tg_decision \<Rightarrow> tg_decision" where
  "tg_block_tune_and_media reason d =
     d\<lparr>td_tune := False, td_audio := False, td_record := False, td_stream := False, td_reasons := td_reasons d OR reason\<rparr>"

definition tg_block_tune :: "bool \<Rightarrow> u32 \<Rightarrow> tg_decision \<Rightarrow> tg_decision" where
  "tg_block_tune b reason d = (if b then d\<lparr>td_tune := False, td_reasons := td_reasons d OR reason\<rparr> else d)"

definition tg_apply_explicit_media_blocks :: "bool \<Rightarrow> bool \<Rightarrow> bool \<Rightarrow> tg_decision \<Rightarrow> tg_decision" where
  "tg_apply_explicit_media_blocks a r s d =
     (if a then d\<lparr>td_audio := False, td_record := False, td_stream := False, td_reasons := td_reasons d OR TG_BLOCK_AUDIO\<rparr>
      else
        (let d1 = (if r then d\<lparr>td_record := False, td_reasons := td_reasons d OR TG_BLOCK_RECORD\<rparr> else d)
         in if s then d1\<lparr>td_stream := False, td_reasons := td_reasons d1 OR TG_BLOCK_STREAM\<rparr> else d1))"

text \<open>The decision with the entry applied, and the mode, audio, record and stream blocks of the entry.\<close>

definition tg_group_apply_lookup :: "tg_ctx option \<Rightarrow> u32 \<Rightarrow> tg_decision \<Rightarrow> tg_decision \<times> bool \<times> bool \<times> bool \<times> bool" where
  "tg_group_apply_lookup ctx tg d =
     (let l = tg_lookup_id ctx tg; e = tl_entry l in
      if tl_match l = TG_MATCH_NONE then (d, False, False, False, False)
      else
        (let mode_blocking = tg_mode_is_blocking (te_mode e) in
         (tg_decision_apply_entry e (tl_match l) d, mode_blocking,
          \<not> mode_blocking \<and> te_audio e = 0, \<not> mode_blocking \<and> te_audio e \<noteq> 0 \<and> te_record e = 0,
          \<not> mode_blocking \<and> te_audio e \<noteq> 0 \<and> te_stream e = 0)))"

definition tg_set_hold_state :: "u32 \<Rightarrow> bool \<Rightarrow> tg_decision \<Rightarrow> tg_decision \<times> bool" where
  "tg_set_hold_state hold hits d =
     (let active = (hold \<noteq> 0); matches = (active \<and> hits)
      in (d\<lparr>td_hold_active := active, td_hold_match := matches\<rparr>, active \<and> \<not> matches))"

definition tg_apply_group_tune_blocks :: "tg_opts \<Rightarrow> bool \<Rightarrow> bool \<Rightarrow> tg_decision \<Rightarrow> tg_decision" where
  "tg_apply_group_tune_blocks opts encrypted data_call d =
     (let d1 = tg_block_tune (to_group_calls opts = 0) TG_BLOCK_GROUP_DISABLED d;
          d2 = tg_block_tune (data_call \<and> to_data_calls opts = 0) TG_BLOCK_DATA_DISABLED d1;
          d3 = tg_block_tune (encrypted \<and> to_enc_calls opts = 0) TG_BLOCK_ENCRYPTED_DISABLED d2
      in tg_block_tune (to_allow_list opts = 1 \<and> td_match d3 = TG_MATCH_NONE) TG_BLOCK_ALLOWLIST d3)"

definition tg_apply_private_tune_blocks ::
  "tg_opts \<Rightarrow> bool \<Rightarrow> bool \<Rightarrow> bool \<Rightarrow> bool \<Rightarrow> bool \<Rightarrow> tg_decision \<Rightarrow> tg_decision" where
  "tg_apply_private_tune_blocks opts encrypted data_call src_match dst_match allow_unlisted d =
     (let d1 = tg_block_tune (to_private_calls opts = 0) TG_BLOCK_PRIVATE_DISABLED d;
          d2 = tg_block_tune (data_call \<and> to_data_calls opts = 0) TG_BLOCK_DATA_DISABLED d1;
          d3 = tg_block_tune (encrypted \<and> to_enc_calls opts = 0) TG_BLOCK_ENCRYPTED_DISABLED d2
      in tg_block_tune (to_allow_list opts = 1 \<and> \<not> allow_unlisted \<and> \<not> src_match \<and> \<not> dst_match) TG_BLOCK_ALLOWLIST d3)"

definition tg_apply_enc_lockout_block :: "tg_opts \<Rightarrow> lockout \<Rightarrow> u32 \<Rightarrow> bool \<Rightarrow> bool \<Rightarrow> tg_decision \<Rightarrow> tg_decision" where
  "tg_apply_enc_lockout_block opts lk target is_group data_call d =
     (if data_call then d
      else tg_block_tune (enc_lockout_is_blocked (to_enc_calls opts \<noteq> 0) target is_group lk) TG_BLOCK_ENC_LOCKOUT d)"

definition tg_evaluate_group_call ::
  "tg_opts \<Rightarrow> u32 \<Rightarrow> lockout \<Rightarrow> tg_ctx option \<Rightarrow> u32 \<Rightarrow> u32 \<Rightarrow> bool \<Rightarrow> bool \<Rightarrow> tg_decision" where
  "tg_evaluate_group_call opts hold lk ctx tg src encrypted data_call =
     (let d0 = tg_init_decision tg src encrypted data_call;
          (d1, mode_blocking, a, r, s) = tg_group_apply_lookup ctx tg d0;
          (d2, hold_mismatch) = tg_set_hold_state hold (hold = tg) d1;
          d3 = tg_apply_group_tune_blocks opts encrypted data_call d2;
          d4 = tg_apply_enc_lockout_block opts lk tg True data_call d3;
          d5 = (if tg_avoid_contains ctx tg then tg_block_tune_and_media TG_BLOCK_SESSION_AVOID d4 else d4);
          d6 = (if mode_blocking then tg_block_tune_and_media TG_BLOCK_MODE d5 else d5);
          d7 = (if hold_mismatch then tg_block_tune_and_media TG_BLOCK_HOLD d6 else d6)
      in if \<not> mode_blocking \<and> \<not> hold_mismatch then tg_apply_explicit_media_blocks a r s d7 else d7)"

definition tg_choose_private_entry :: "tg_entry option \<Rightarrow> tg_entry option \<Rightarrow> tg_entry option" where
  "tg_choose_private_entry src_entry dst_entry = (case dst_entry of Some e \<Rightarrow> Some e | None \<Rightarrow> src_entry)"

definition tg_private_mode_is_blocking :: "tg_entry option \<Rightarrow> tg_entry option \<Rightarrow> bool" where
  "tg_private_mode_is_blocking src_entry dst_entry \<longleftrightarrow>
     (case src_entry of Some e \<Rightarrow> tg_mode_is_blocking (te_mode e) | None \<Rightarrow> False)
     \<or> (case dst_entry of Some e \<Rightarrow> tg_mode_is_blocking (te_mode e) | None \<Rightarrow> False)"

definition tg_evaluate_private ::
  "tg_opts \<Rightarrow> u32 \<Rightarrow> lockout \<Rightarrow> tg_ctx option \<Rightarrow> u32 \<Rightarrow> u32 \<Rightarrow> bool \<Rightarrow> bool \<Rightarrow> bool \<Rightarrow> tg_decision" where
  "tg_evaluate_private opts hold lk ctx src dst encrypted data_call allow_unlisted =
     (let d0 = (tg_init_decision dst src encrypted data_call)\<lparr>td_private_call := True\<rparr>;
          src_entry = tg_lookup_exact_only ctx src;
          dst_entry = tg_lookup_exact_only ctx dst;
          chosen = tg_choose_private_entry src_entry dst_entry;
          d1 = (case chosen of Some e \<Rightarrow> tg_decision_apply_entry e TG_MATCH_EXACT d0 | None \<Rightarrow> d0);
          mode_blocking = tg_private_mode_is_blocking src_entry dst_entry;
          (d2, hold_mismatch) = tg_set_hold_state hold (hold = src \<or> hold = dst) d1;
          d3 = tg_apply_private_tune_blocks opts encrypted data_call (src_entry \<noteq> None) (dst_entry \<noteq> None) allow_unlisted d2;
          d4 = tg_apply_enc_lockout_block opts lk dst False data_call d3;
          d5 = (if tg_avoid_contains ctx src \<or> tg_avoid_contains ctx dst then tg_block_tune_and_media TG_BLOCK_SESSION_AVOID d4 else d4);
          d6 = (if mode_blocking then tg_block_tune_and_media TG_BLOCK_MODE d5 else d5);
          d7 = (if hold_mismatch then tg_block_tune_and_media TG_BLOCK_HOLD d6 else d6)
      in case chosen of
           Some e \<Rightarrow> if \<not> mode_blocking \<and> \<not> hold_mismatch
                    then tg_apply_explicit_media_blocks (te_audio e = 0) (te_audio e \<noteq> 0 \<and> te_record e = 0) (te_audio e \<noteq> 0 \<and> te_stream e = 0) d7
                    else d7
         | None \<Rightarrow> d7)"

definition tg_evaluate_private_call ::
  "tg_opts \<Rightarrow> u32 \<Rightarrow> lockout \<Rightarrow> tg_ctx option \<Rightarrow> u32 \<Rightarrow> u32 \<Rightarrow> bool \<Rightarrow> bool \<Rightarrow> tg_decision" where
  "tg_evaluate_private_call opts hold lk ctx src dst encrypted data_call =
     tg_evaluate_private opts hold lk ctx src dst encrypted data_call False"

definition tg_evaluate_private_grant ::
  "tg_opts \<Rightarrow> u32 \<Rightarrow> lockout \<Rightarrow> tg_ctx option \<Rightarrow> u32 \<Rightarrow> u32 \<Rightarrow> bool \<Rightarrow> bool \<Rightarrow> tg_decision" where
  "tg_evaluate_private_grant opts hold lk ctx src dst encrypted data_call =
     tg_evaluate_private opts hold lk ctx src dst encrypted data_call True"

text \<open>The label of the highest-ranking reason.\<close>

fun first_reason_label :: "u32 \<Rightarrow> (u32 \<times> string) list \<Rightarrow> string" where
  "first_reason_label reasons [] = ''policy''"
| "first_reason_label reasons ((bits, label) # rest) =
     (if reasons AND bits \<noteq> 0 then label else first_reason_label reasons rest)"

definition tg_block_reason_label :: "u32 \<Rightarrow> string" where
  "tg_block_reason_label reasons = first_reason_label reasons
     [(TG_BLOCK_SESSION_AVOID, ''session-avoid''), (TG_BLOCK_HOLD, ''hold''), (TG_BLOCK_PRIVATE_DISABLED, ''private-disabled''),
      (TG_BLOCK_GROUP_DISABLED, ''group-disabled''), (TG_BLOCK_DATA_DISABLED, ''data-disabled''),
      (TG_BLOCK_ENCRYPTED_DISABLED, ''enc-disabled''), (TG_BLOCK_ENC_LOCKOUT, ''enc-lockout''), (TG_BLOCK_ALLOWLIST, ''allowlist''),
      (TG_BLOCK_MODE, ''mode''), (TG_BLOCK_AUDIO, ''audio''), (TG_BLOCK_RECORD, ''record''), (TG_BLOCK_STREAM, ''stream'')]"

section \<open>Preemption\<close>

text \<open>
  \<open>var\<close> is the number the environment variable holds, when it is set, not empty and one \<open>strtod\<close> reads
  without a range error.
\<close>

definition tg_env_ms_default :: "real option \<Rightarrow> real \<Rightarrow> real" where
  "tg_env_ms_default var fallback_ms = (case var of None \<Rightarrow> fallback_ms | Some v \<Rightarrow> if v < 0 then fallback_ms else v)"

definition tg_route_is_complete :: "tg_route \<Rightarrow> bool" where
  "tg_route_is_complete r \<longleftrightarrow>
     (if tr_slot r \<noteq> -1 \<and> tr_slot r \<noteq> 0 \<and> tr_slot r \<noteq> 1 then False
      else \<not> (tr_channel r \<le> 0 \<and> tr_freq_hz r \<le> 0))"

definition tg_call_matches_route_slot :: "tg_call \<Rightarrow> tg_route \<Rightarrow> int \<Rightarrow> bool" where
  "tg_call_matches_route_slot c r slot \<longleftrightarrow>
     tc_valid c \<and> tc_tg c = tr_target r \<and> tc_channel c = tr_channel r \<and> tc_slot c = slot"

text \<open>The displaced slots, or \<open>None\<close> when an active call already is the candidate's.\<close>

fun tg_collect_loop :: "tg_route \<Rightarrow> int \<Rightarrow> nat \<Rightarrow> tg_call list \<Rightarrow> nat list \<Rightarrow> nat list option" where
  "tg_collect_loop r slot_match i [] displaced = Some displaced"
| "tg_collect_loop r slot_match i (c # cs) displaced =
     (if \<not> tc_valid c then tg_collect_loop r slot_match (Suc i) cs displaced
      else if tg_call_matches_route_slot c r slot_match then None
      else tg_collect_loop r slot_match (Suc i) cs (displaced @ [i]))"

definition tg_collect_displaced_all_slots :: "tg_ctx \<Rightarrow> tg_route \<Rightarrow> int \<Rightarrow> nat list option" where
  "tg_collect_displaced_all_slots c r slot_match = tg_collect_loop r slot_match 0 (tp_calls c) []"

definition tg_collect_displaced_slots :: "tg_ctx \<Rightarrow> tg_route \<Rightarrow> nat list option" where
  "tg_collect_displaced_slots c r =
     (if tr_slot r = -1 then tg_collect_displaced_all_slots c r (-1)
      else if tr_retune r then tg_collect_displaced_all_slots c r (tr_slot r)
      else
        (let call = tp_calls c ! nat (tr_slot r) in
         if \<not> tc_valid call then Some []
         else if tg_call_matches_route_slot call r (tr_slot r) then None
         else Some [nat (tr_slot r)]))"

definition tg_preempt_passes_displaced_checks ::
  "tg_ctx \<Rightarrow> nat list \<Rightarrow> tg_decision \<Rightarrow> mono_s \<Rightarrow> mono_s \<Rightarrow> mono_s \<Rightarrow> bool" where
  "tg_preempt_passes_displaced_checks c displaced d now min_dwell cooldown \<longleftrightarrow>
     list_all (\<lambda>i. let call = tp_calls c ! i in
        \<not> tc_valid call \<or>
        \<not> td_priority d \<le> tc_priority call \<and> \<not> now - tc_start call < min_dwell \<and> \<not> now - tc_last_preempt call < cooldown) displaced"

definition tg_should_preempt ::
  "real option \<Rightarrow> real option \<Rightarrow> tg_ctx option \<Rightarrow> tg_route \<Rightarrow> tg_decision \<Rightarrow> mono_s \<Rightarrow> bool" where
  "tg_should_preempt dwell_var cooldown_var ctx r d now =
     (let min_dwell = tg_env_ms_default dwell_var 750 / 1000;
          cooldown = tg_env_ms_default cooldown_var 1000 / 1000
      in case ctx of
           None \<Rightarrow> False
         | Some c \<Rightarrow>
             if \<not> td_tune d \<or> \<not> td_preempt d then False
             else if \<not> tg_route_is_complete r then False
             else (case tg_collect_displaced_slots c r of
                     None \<Rightarrow> False
                   | Some displaced \<Rightarrow>
                       if displaced = [] then False
                       else if now - tp_last_preempt c < cooldown then False
                       else tg_preempt_passes_displaced_checks c displaced d now min_dwell cooldown))"

definition tg_call_assign_from_route :: "tg_route \<Rightarrow> tg_decision \<Rightarrow> mono_s \<Rightarrow> tg_call \<Rightarrow> tg_call" where
  "tg_call_assign_from_route r d now c = c\<lparr>tc_valid := True, tc_tg := tr_target r, tc_src := tr_source r,
     tc_freq_hz := tr_freq_hz r, tc_channel := tr_channel r, tc_priority := td_priority d, tc_private := td_private_call d,
     tc_slot := tr_slot r, tc_last_seen := now\<rparr>"

definition tg_call_matches_route :: "tg_call \<Rightarrow> tg_route \<Rightarrow> bool" where
  "tg_call_matches_route c r \<longleftrightarrow> tc_valid c \<and> tc_tg c = tr_target r \<and> tc_channel c = tr_channel r \<and> tc_slot c = tr_slot r"

definition tg_should_note_preempt :: "tg_call \<Rightarrow> tg_route \<Rightarrow> tg_decision \<Rightarrow> bool" where
  "tg_should_note_preempt c r d \<longleftrightarrow> (if tg_call_matches_route c r then False else td_preempt d \<and> td_priority d > tc_priority c)"

definition tg_note_active_slot :: "nat \<Rightarrow> tg_route \<Rightarrow> tg_decision \<Rightarrow> mono_s \<Rightarrow> tg_ctx \<Rightarrow> tg_ctx" where
  "tg_note_active_slot slot r d now ctx =
     (let c = tp_calls ctx ! slot;
          c1 = (if tg_should_note_preempt c r d then c\<lparr>tc_last_preempt := now\<rparr> else c);
          ctx1 = (if tg_should_note_preempt c r d then ctx\<lparr>tp_last_preempt := now\<rparr> else ctx);
          c2 = (if \<not> tg_call_matches_route c1 r then c1\<lparr>tc_start := now\<rparr> else c1)
      in ctx1\<lparr>tp_calls := (tp_calls ctx1)[slot := tg_call_assign_from_route r d now c2]\<rparr>)"

definition tg_ctx_note_active_call :: "tg_route \<Rightarrow> tg_decision \<Rightarrow> mono_s \<Rightarrow> tg_ctx \<Rightarrow> tg_ctx \<times> int" where
  "tg_ctx_note_active_call r d now c =
     (if \<not> tg_route_is_complete r then (c, 1)
      else if tr_slot r = -1 then (tg_note_active_slot 1 r d now (tg_note_active_slot 0 r d now c), 0)
      else (tg_note_active_slot (nat (tr_slot r)) r d now c, 0))"

definition tg_ctx_clear_active_call :: "int \<Rightarrow> tg_ctx \<Rightarrow> tg_ctx \<times> int" where
  "tg_ctx_clear_active_call slot c =
     (if slot < 0 then (c\<lparr>tp_calls := replicate 2 zero_call\<rparr>, 0)
      else if slot > 1 then (c, 1)
      else (c\<lparr>tp_calls := (tp_calls c)[nat slot := zero_call]\<rparr>, 0))"

section \<open>CSV rows\<close>

text \<open>What \<open>dsd_tg_policy_write_group_file\<close> writes: texts sanitised, ranges as start-end, and the extended columns on demand.\<close>

definition tg_csv_sanitize_copy :: "nat \<Rightarrow> string \<Rightarrow> string" where
  "tg_csv_sanitize_copy cap s = map (\<lambda>c. if c = CHR '','' \<or> c = CHR 0x0A \<or> c = CHR 0x0D then CHR '' '' else c) (take (cap - 1) s)"

definition tg_entry_requires_extended_csv :: "tg_entry \<Rightarrow> bool" where
  "tg_entry_requires_extended_csv e \<longleftrightarrow>
     (let media_default = (if tg_mode_is_blocking (te_mode e) then 0 else 1)
      in te_priority e \<noteq> 0 \<or> te_preempt e \<noteq> 0 \<or> te_audio e \<noteq> media_default \<or> te_record e \<noteq> media_default
         \<or> te_stream e \<noteq> media_default)"

end
