(* ===== verification/Tg_Rows.thy ===== *)
theory Tg_Rows
  imports Tg_Policy
begin

text \<open>
  The talkgroup table: lookups give the most specific row, the session avoids are a set kept as a
  sorted array, and every operation keeps the rows in normal form.
\<close>

section \<open>The session avoids are a set\<close>

text \<open>Binary search on a strictly increasing array returns the number of smaller elements.\<close>

definition below :: "u32 \<Rightarrow> u32 list \<Rightarrow> nat" where
  "below x xs = length (filter (\<lambda>y. y < x) xs)"

lemma below_le: "below x xs \<le> length xs"
  by (simp add: below_def)

lemma filter_less_sorted:
  assumes "sorted_wrt (<) xs" "i < length xs"
  shows "xs ! i < x \<longleftrightarrow> i < below x xs"
  using assms
proof (induction xs arbitrary: i)
  case (Cons a xs)
  show ?case
  proof (cases "a < x")
    case True
    with Cons show ?thesis by (cases i) (simp_all add: below_def)
  next
    case False
    then have "below x (a # xs) = 0" using Cons.prems(1) by (auto simp: below_def intro!: filter_False)
    moreover have "\<not> (a # xs) ! i < x"
    proof (cases i)
      case (Suc j)
      then have "a < xs ! j" using Cons.prems by simp
      with Suc False show ?thesis by simp
    qed (simp add: False)
    ultimately show ?thesis by simp
  qed
qed simp

lemma lower_bound_below:
  assumes "sorted_wrt (<) xs" "lo \<le> below x xs" "below x xs \<le> hi" "hi \<le> length xs"
  shows "tg_lower_bound_loop xs x lo hi = below x xs"
  using assms
proof (induction xs x lo hi rule: tg_lower_bound_loop.induct)
  case (1 xs ident lo hi)
  show ?case
  proof (cases "lo < hi")
    case True
    define mid where "mid = lo + (hi - lo) div 2"
    have m: "lo \<le> mid" "mid < hi" using True by (auto simp: mid_def)
    have l: "xs ! mid < ident \<longleftrightarrow> mid < below ident xs" by (rule filter_less_sorted) (use 1 m in auto)
    show ?thesis
    proof (cases "xs ! mid < ident")
      case less: True
      then have "tg_lower_bound_loop xs ident (mid + 1) hi = below ident xs"
        using 1(1) [OF True mid_def] 1(3-6) l by simp
      with True less show ?thesis by (simp add: tg_lower_bound_loop.simps [of xs ident lo hi] mid_def Let_def)
    next
      case ge: False
      then have "tg_lower_bound_loop xs ident lo mid = below ident xs"
        using 1(2) [OF True mid_def] 1(3-6) l m by simp
      with True ge show ?thesis by (simp add: tg_lower_bound_loop.simps [of xs ident lo hi] mid_def Let_def)
    qed
  next
    case False
    with 1(3-6) show ?thesis by (simp add: tg_lower_bound_loop.simps [of xs ident lo hi])
  qed
qed

lemma avoid_lower_bound: "sorted_wrt (<) (tp_avoids c) \<Longrightarrow> tg_avoid_lower_bound (Some c) x = below x (tp_avoids c)"
  by (simp add: tg_avoid_lower_bound_def lower_bound_below below_le)

lemma below_member:
  assumes "sorted_wrt (<) xs"
  shows "below x xs < length xs \<and> xs ! below x xs = x \<longleftrightarrow> x \<in> set xs"
proof
  assume "x \<in> set xs"
  then obtain i where i: "i < length xs" "xs ! i = x" by (auto simp: in_set_conv_nth)
  have "\<not> i < below x xs" using filter_less_sorted [OF assms i(1), of x] i(2) by simp
  moreover have "\<not> below x xs < i"
  proof
    assume less: "below x xs < i"
    then have "xs ! below x xs < xs ! i" using assms i(1) by (simp add: sorted_wrt_nth_less)
    with filter_less_sorted [OF assms, of "below x xs" x] less i show False by simp
  qed
  ultimately have "below x xs = i" by simp
  with i show "below x xs < length xs \<and> xs ! below x xs = x" by simp
qed (metis nth_mem)

lemma avoid_contains: "sorted_wrt (<) (tp_avoids c) \<Longrightarrow> tg_avoid_contains (Some c) x \<longleftrightarrow> x \<in> set (tp_avoids c)"
  by (simp add: tg_avoid_contains_def Let_def avoid_lower_bound below_member)

lemma insert_below:
  assumes "sorted_wrt (<) xs" "x \<notin> set xs"
  defines "i \<equiv> below x xs"
  shows "sorted_wrt (<) (take i xs @ x # drop i xs)" "set (take i xs @ x # drop i xs) = insert x (set xs)"
proof -
  have t: "y < x" if "y \<in> set (take i xs)" for y
    using that filter_less_sorted [OF assms(1)] by (auto simp: in_set_conv_nth i_def)
  have d: "x < y" if "y \<in> set (drop i xs)" for y
  proof -
    from that obtain k where k: "k < length xs - i" "y = xs ! (i + k)" by (auto simp: in_set_conv_nth)
    then have "\<not> y < x" using filter_less_sorted [OF assms(1), of "i + k" x] by (simp add: i_def)
    moreover have "y \<noteq> x" using that assms(2) in_set_dropD by metis
    ultimately show ?thesis by simp
  qed
  have s: "sorted_wrt (<) (take i xs @ drop i xs)" using assms(1) by simp
  show "sorted_wrt (<) (take i xs @ x # drop i xs)"
    using s t d unfolding sorted_wrt_append by auto
  show "set (take i xs @ x # drop i xs) = insert x (set xs)"
    by (metis append_take_drop_id insert_is_Un list.simps(15) set_append sup_left_commute)
qed

lemma card_range_below:
  assumes "sorted_wrt (<) xs"
  shows "card {x \<in> set xs. a \<le> x \<and> x < b} = below b xs - below a xs"
proof (cases "a \<le> b")
  case True
  have d: "distinct xs" using assms by (simp add: strict_sorted_iff)
  have "{x \<in> set xs. x < b} = {x \<in> set xs. x < a} \<union> {x \<in> set xs. a \<le> x \<and> x < b}" using True by auto
  moreover have "{x \<in> set xs. x < a} \<inter> {x \<in> set xs. a \<le> x \<and> x < b} = {}" by auto
  ultimately have "card {x \<in> set xs. x < b} = card {x \<in> set xs. x < a} + card {x \<in> set xs. a \<le> x \<and> x < b}"
    by (simp add: card_Un_disjoint)
  moreover have "card {x \<in> set xs. x < k} = below k xs" for k
    by (metis d below_def distinct_card distinct_filter set_filter)
  ultimately show ?thesis by simp
next
  case False
  then have "below b xs \<le> below a xs" unfolding below_def
    by (induction xs) auto
  moreover have "{x \<in> set xs. a \<le> x \<and> x < b} = {}" using False by auto
  ultimately show ?thesis by (metis card.empty diff_is_0_eq')
qed

section \<open>Rows in normal form\<close>

definition row_ok :: "tg_entry \<Rightarrow> bool" where
  "row_ok e \<longleftrightarrow>
     (if te_range e then te_start e < te_end e else te_start e = te_end e)
     \<and> length (te_mode e) < TG_MODE_SIZE \<and> length (te_name e) < TG_NAME_SIZE \<and> length (te_tags e) < TG_TAGS_SIZE
     \<and> 0 \<le> te_priority e \<and> te_priority e \<le> 100
     \<and> te_preempt e \<le> 1 \<and> te_audio e \<le> 1 \<and> te_record e \<le> 1 \<and> te_stream e \<le> 1
     \<and> (tg_mode_is_blocking (te_mode e) \<longrightarrow> te_audio e = 0)
     \<and> (te_audio e = 0 \<longrightarrow> te_record e = 0 \<and> te_stream e = 0)"

lemmas row_sizes = TG_MODE_SIZE_def TG_NAME_SIZE_def TG_TAGS_SIZE_def

lemma safe_copy_fits: "0 < cap \<Longrightarrow> length (tg_safe_copy cap s) < cap"
  by (simp add: tg_safe_copy_def)

lemma normalize_parts [simp]:
  "te_start (tg_normalize_entry e) = te_start e" "te_end (tg_normalize_entry e) = te_end e"
  "te_mode (tg_normalize_entry e) = te_mode e" "te_name (tg_normalize_entry e) = te_name e"
  "te_tags (tg_normalize_entry e) = te_tags e" "te_range (tg_normalize_entry e) = te_range e"
  "te_source (tg_normalize_entry e) = te_source e" "te_row (tg_normalize_entry e) = te_row e"
  by (simp_all add: tg_normalize_entry_def Let_def)

lemma normalize_flags:
  "0 \<le> te_priority (tg_normalize_entry e)" "te_priority (tg_normalize_entry e) \<le> 100"
  "te_preempt (tg_normalize_entry e) \<le> 1" "te_audio (tg_normalize_entry e) \<le> 1"
  "te_record (tg_normalize_entry e) \<le> 1" "te_stream (tg_normalize_entry e) \<le> 1"
  "tg_mode_is_blocking (te_mode e) \<Longrightarrow> te_audio (tg_normalize_entry e) = 0"
  "te_audio (tg_normalize_entry e) = 0 \<Longrightarrow> te_record (tg_normalize_entry e) = 0 \<and> te_stream (tg_normalize_entry e) = 0"
  by (cases "te_priority e < 0"; cases "te_priority e > 100"; cases "tg_mode_is_blocking (te_mode e)"; cases "te_audio e = 0";
      simp add: tg_normalize_entry_def Let_def)+

lemma row_ok_normalize:
  "(if te_range e then te_start e < te_end e else te_start e = te_end e) \<Longrightarrow> length (te_mode e) < TG_MODE_SIZE \<Longrightarrow>
   length (te_name e) < TG_NAME_SIZE \<Longrightarrow> length (te_tags e) < TG_TAGS_SIZE \<Longrightarrow> row_ok (tg_normalize_entry e)"
  using normalize_flags [of e] by (simp add: row_ok_def)

lemma row_ok_normalize_exact:
  "length (te_mode e) < TG_MODE_SIZE \<Longrightarrow> length (te_name e) < TG_NAME_SIZE \<Longrightarrow> length (te_tags e) < TG_TAGS_SIZE \<Longrightarrow>
   row_ok (tg_normalize_entry e\<lparr>te_range := False, te_end := te_start (tg_normalize_entry e)\<rparr>)"
  using normalize_flags [of e] by (simp add: row_ok_def)

lemma row_ok_copy:
  "(if te_range e then te_start e < te_end e else te_start e = te_end e) \<Longrightarrow> row_ok (tg_copy_entry_normalized e)"
  unfolding tg_copy_entry_normalized_def by (rule row_ok_normalize) (simp_all add: safe_copy_fits row_sizes)

lemma copy_bounds [simp]:
  "te_start (tg_copy_entry_normalized e) = te_start e" "te_end (tg_copy_entry_normalized e) = te_end e"
  "te_range (tg_copy_entry_normalized e) = te_range e" "te_source (tg_copy_entry_normalized e) = te_source e"
  by (simp_all add: tg_copy_entry_normalized_def)

lemma row_ok_apply_mode: "row_ok e \<Longrightarrow> row_ok (tg_entry_apply_mode m e)"
  unfolding tg_entry_apply_mode_def Let_def
  by (rule row_ok_normalize) (simp_all add: tg_defaults_from_mode_def Let_def row_ok_def safe_copy_fits row_sizes)

lemma make_exact_parts [simp]:
  "te_start (tg_make_exact_entry i m n s) = i" "te_end (tg_make_exact_entry i m n s) = i"
  "\<not> te_range (tg_make_exact_entry i m n s)" "te_source (tg_make_exact_entry i m n s) = s"
  "te_mode (tg_make_exact_entry i m n s) = tg_safe_copy TG_MODE_SIZE m"
  by (simp_all add: tg_make_exact_entry_def tg_defaults_from_mode_def Let_def)

lemma row_ok_make_exact: "row_ok (tg_make_exact_entry i m n s)"
  by (simp add: row_ok_def tg_make_exact_entry_def tg_defaults_from_mode_def Let_def zero_tg_entry_def safe_copy_fits row_sizes)

lemma row_ok_updates:
  "row_ok e \<Longrightarrow> 0 \<le> p \<Longrightarrow> p \<le> 100 \<Longrightarrow> row_ok (e\<lparr>te_priority := p\<rparr>)"
  "row_ok e \<Longrightarrow> f \<le> 1 \<Longrightarrow> row_ok (e\<lparr>te_preempt := f\<rparr>)"
  "row_ok e \<Longrightarrow> row_ok (e\<lparr>te_name := tg_safe_copy TG_NAME_SIZE s\<rparr>)"
  "row_ok e \<Longrightarrow> row_ok (e\<lparr>te_tags := tg_safe_copy TG_TAGS_SIZE s\<rparr>)"
  by (simp_all add: row_ok_def safe_copy_fits row_sizes)

lemma row_ok_if: "(b \<Longrightarrow> row_ok x) \<Longrightarrow> row_ok y \<Longrightarrow> row_ok (if b then x else y)"
  by simp

lemma row_ok_apply_fields:
  "\<not> tg_other_fields_invalid v msk \<Longrightarrow> row_ok e \<Longrightarrow> row_ok (tg_apply_fields v msk e)"
  unfolding tg_apply_fields_def tg_other_fields_invalid_def Let_def
  by (intro row_ok_if row_ok_updates row_ok_apply_mode) (simp_all add: not_less)

lemma apply_fields_parts [simp]:
  "te_start (tg_apply_fields v msk e) = te_start e" "te_end (tg_apply_fields v msk e) = te_end e"
  "te_range (tg_apply_fields v msk e) = te_range e"
  by (simp_all add: tg_apply_fields_def tg_entry_apply_mode_def tg_defaults_from_mode_def Let_def)

section \<open>Every operation keeps a context well formed\<close>

definition ctx_ok :: "tg_ctx \<Rightarrow> bool" where
  "ctx_ok c \<longleftrightarrow> (\<forall>e\<in>set (tp_rows c). row_ok e) \<and> length (tp_rows c) \<le> tp_capacity c
     \<and> sorted_wrt (<) (tp_avoids c) \<and> length (tp_avoids c) \<le> tp_avoid_capacity c \<and> length (tp_calls c) = 2"

lemma double_until_ge: "0 < target \<Longrightarrow> needed \<le> double_until target needed"
  by (induction target needed rule: double_until.induct) (subst double_until.simps, simp)

lemma refresh_parts [simp]:
  "tp_rows (tg_refresh_active_priorities c) = tp_rows c" "tp_capacity (tg_refresh_active_priorities c) = tp_capacity c"
  "tp_generation (tg_refresh_active_priorities c) = tp_generation c" "tp_avoids (tg_refresh_active_priorities c) = tp_avoids c"
  "tp_avoid_capacity (tg_refresh_active_priorities c) = tp_avoid_capacity c"
  "tp_references (tg_refresh_active_priorities c) = tp_references c"
  "tp_context_id (tg_refresh_active_priorities c) = tp_context_id c"
  "tp_source_id (tg_refresh_active_priorities c) = tp_source_id c"
  "tp_parent_id (tg_refresh_active_priorities c) = tp_parent_id c"
  "tp_last_preempt (tg_refresh_active_priorities c) = tp_last_preempt c"
  "length (tp_calls (tg_refresh_active_priorities c)) = length (tp_calls c)"
  by (simp_all add: tg_refresh_active_priorities_def)

lemma mutation_parts [simp]:
  "tp_rows (tg_note_mutation c) = tp_rows c" "tp_capacity (tg_note_mutation c) = tp_capacity c"
  "tp_avoids (tg_note_mutation c) = tp_avoids c" "tp_avoid_capacity (tg_note_mutation c) = tp_avoid_capacity c"
  "tp_references (tg_note_mutation c) = tp_references c" "tp_context_id (tg_note_mutation c) = tp_context_id c"
  "tp_source_id (tg_note_mutation c) = tp_source_id c" "tp_parent_id (tg_note_mutation c) = tp_parent_id c"
  "tp_last_preempt (tg_note_mutation c) = tp_last_preempt c"
  "length (tp_calls (tg_note_mutation c)) = length (tp_calls c)"
  by (simp_all add: tg_note_mutation_def Let_def)

lemma mutation_ok: "ctx_ok (tg_note_mutation c) \<longleftrightarrow> ctx_ok c"
  by (simp add: ctx_ok_def)

lemma set_row_ok: "ctx_ok c \<Longrightarrow> row_ok e \<Longrightarrow> ctx_ok (tg_set_row i e c)"
  by (auto simp: tg_set_row_def mutation_ok ctx_ok_def dest: set_update_subset_insert [THEN subsetD])

lemma store_append_ok:
  assumes "ctx_ok c" shows "ctx_ok (fst (tg_store_append alloc e c))"
proof -
  have "row_ok (if \<not> te_range e then tg_copy_entry_normalized e\<lparr>te_end := te_start (tg_copy_entry_normalized e)\<rparr>
                else tg_copy_entry_normalized e)"
    if "if te_range e then tg_entry_valid_range e else tg_entry_valid_exact e"
  proof -
    have "row_ok (tg_copy_entry_normalized e)"
      by (rule row_ok_copy) (use that in \<open>auto simp: tg_entry_valid_range_def tg_entry_valid_exact_def\<close>)
    with that show ?thesis by (cases "te_range e") (auto simp: row_ok_def)
  qed
  then show ?thesis using assms
    by (auto simp: tg_store_append_def tg_table_reserve_def Let_def mutation_ok ctx_ok_def
        intro: double_until_ge [simplified Suc_eq_plus1] split: option.split if_splits)
qed

lemma ctx_ok_rows: "ctx_ok c \<Longrightarrow> i < length (tp_rows c) \<Longrightarrow> row_ok (tp_rows c ! i)"
  by (simp add: ctx_ok_def)

lemma find_bounds_lt: "tg_find_bounds_idx_first c s e = Some i \<Longrightarrow> i < length (tp_rows c)"
  by (auto simp: tg_find_bounds_idx_first_def dest: find_index_SomeD)

lemma find_exact_lt: "tg_find_exact_idx_first c ident = Some i \<Longrightarrow> i < length (tp_rows c)"
  by (auto simp: tg_find_exact_idx_first_def dest: find_index_SomeD)

lemma append_exact_ok: "ctx_ok c \<Longrightarrow> ctx_ok (fst (tg_ctx_append_exact alloc e c))"
  by (simp add: tg_ctx_append_exact_def store_append_ok)

lemma upsert_ok:
  assumes "ctx_ok c" shows "ctx_ok (fst (tg_ctx_upsert_exact alloc e mode c))"
proof -
  have n: "row_ok (tg_copy_entry_normalized e\<lparr>te_range := False, te_end := te_start (tg_copy_entry_normalized e)\<rparr>)"
    unfolding tg_copy_entry_normalized_def by (rule row_ok_normalize_exact) (simp_all add: safe_copy_fits row_sizes)
  show ?thesis
    using assms n set_row_ok [OF assms n] append_exact_ok [OF assms]
    by (cases mode) (auto simp: tg_ctx_upsert_exact_def Let_def split: option.split)
qed

lemma set_mode_ok: "ctx_ok c \<Longrightarrow> ctx_ok (fst (tg_ctx_set_mode alloc s e mode c))"
  by (auto simp: tg_ctx_set_mode_def Let_def store_append_ok intro!: set_row_ok row_ok_make_exact row_ok_apply_mode
      ctx_ok_rows dest: find_bounds_lt split: option.split)

lemma set_mode_at_ok: "ctx_ok c \<Longrightarrow> ctx_ok (fst (tg_ctx_set_mode_at i mode c))"
  by (auto simp: tg_ctx_set_mode_at_def intro!: set_row_ok row_ok_apply_mode ctx_ok_rows)

lemma set_fields_ok:
  "ctx_ok c \<Longrightarrow> \<not> tg_set_fields_refused s e v msk \<Longrightarrow> ctx_ok (fst (tg_ctx_set_fields alloc s e v msk c))"
  by (auto simp: tg_ctx_set_fields_def tg_set_fields_refused_def Let_def store_append_ok
      intro!: set_row_ok row_ok_apply_fields ctx_ok_rows dest: find_bounds_lt split: option.split)

lemma remove_ok: "ctx_ok c \<Longrightarrow> ctx_ok (fst (tg_ctx_remove_bounds s e c))"
  by (auto simp: tg_ctx_remove_bounds_def mutation_ok ctx_ok_def dest: in_set_takeD in_set_dropD split: option.split)

lemma avoid_add_ok:
  assumes "ctx_ok c" shows "ctx_ok (fst (tg_ctx_avoid_add alloc ident c))"
proof (cases "tg_avoid_contains (Some c) ident")
  case False
  have s: "sorted_wrt (<) (tp_avoids c)" using assms by (simp add: ctx_ok_def)
  then have f: "ident \<notin> set (tp_avoids c)" using False avoid_contains by simp
  show ?thesis using insert_below [OF s f] assms s False
    by (auto simp: tg_ctx_avoid_add_def tg_avoid_reserve_def tg_avoid_insert_def Let_def avoid_lower_bound mutation_ok ctx_ok_def)
qed (simp add: tg_ctx_avoid_add_def assms)

lemma avoid_clear_ok: "ctx_ok c \<Longrightarrow> ctx_ok (tg_ctx_avoid_clear c)"
  by (simp add: tg_ctx_avoid_clear_def mutation_ok ctx_ok_def)

lemma note_slot_parts [simp]:
  "tp_rows (tg_note_active_slot i r d now c) = tp_rows c" "tp_capacity (tg_note_active_slot i r d now c) = tp_capacity c"
  "tp_avoids (tg_note_active_slot i r d now c) = tp_avoids c"
  "tp_avoid_capacity (tg_note_active_slot i r d now c) = tp_avoid_capacity c"
  "tp_references (tg_note_active_slot i r d now c) = tp_references c"
  "length (tp_calls (tg_note_active_slot i r d now c)) = length (tp_calls c)"
  by (simp_all add: tg_note_active_slot_def Let_def)

lemma note_active_ok: "ctx_ok c \<Longrightarrow> ctx_ok (fst (tg_ctx_note_active_call r d now c))"
  by (simp add: tg_ctx_note_active_call_def ctx_ok_def)

lemma clear_active_ok: "ctx_ok c \<Longrightarrow> ctx_ok (fst (tg_ctx_clear_active_call slot c))"
  by (simp add: tg_ctx_clear_active_call_def ctx_ok_def)

text \<open>The references are not an operation's business.\<close>

lemma table_reserve_refs: "tg_table_reserve alloc n c = Some c1 \<Longrightarrow> tp_references c1 = tp_references c"
  by (auto simp: tg_table_reserve_def Let_def split: if_splits)

lemma store_append_refs: "tp_references (fst (tg_store_append alloc e c)) = tp_references c"
  by (auto simp: tg_store_append_def Let_def dest: table_reserve_refs split: option.split)

lemma ops_references:
  "tp_references (fst (tg_ctx_upsert_exact alloc e mode c)) = tp_references c"
  "tp_references (fst (tg_ctx_set_mode alloc s t m c)) = tp_references c"
  "tp_references (fst (tg_ctx_set_mode_at i m c)) = tp_references c"
  "tp_references (fst (tg_ctx_set_fields alloc s t v msk c)) = tp_references c"
  "tp_references (fst (tg_ctx_remove_bounds s t c)) = tp_references c"
  "tp_references (fst (tg_ctx_avoid_add alloc ident c)) = tp_references c"
  "tp_references (tg_ctx_avoid_clear c) = tp_references c"
  "tp_references (fst (tg_ctx_note_active_call r d now c)) = tp_references c"
  "tp_references (fst (tg_ctx_clear_active_call slot c)) = tp_references c"
  by (auto simp: tg_ctx_upsert_exact_def tg_ctx_append_exact_def tg_ctx_set_mode_def tg_ctx_set_mode_at_def tg_ctx_set_fields_def
      tg_ctx_remove_bounds_def tg_ctx_avoid_add_def tg_avoid_reserve_def tg_avoid_insert_def tg_ctx_avoid_clear_def
      tg_ctx_note_active_call_def tg_ctx_clear_active_call_def tg_set_row_def store_append_refs Let_def
      split: option.split tg_upsert_mode.split)

lemma prepare_entry_ok:
  assumes "\<forall>e\<in>set used. row_ok e" "length old \<le> length used" "prepare_selection_entry old item listening used = Some u"
  shows "(\<forall>e\<in>set u. row_ok e) \<and> length used \<le> length u \<and> length u \<le> length used + 1"
  using assms unfolding prepare_selection_entry_def Let_def
  by (auto simp: row_ok_apply_mode row_ok_make_exact split: if_splits
      intro!: row_ok_apply_mode dest!: set_update_subset_insert [THEN subsetD])

lemma prepare_ok:
  "\<forall>e\<in>set used. row_ok e \<Longrightarrow> length old \<le> length used \<Longrightarrow> prepare_selection old sel listening used = Some u \<Longrightarrow>
   (\<forall>e\<in>set u. row_ok e) \<and> length u \<le> length used + length sel"
proof (induction sel arbitrary: used)
  case (Cons item items)
  then obtain v where v: "prepare_selection_entry old item listening used = Some v" "prepare_selection old items listening v = Some u"
    by (auto split: option.splits)
  with prepare_entry_ok [OF Cons.prems(1,2) v(1)] Cons.IH [OF _ _ v(2)] Cons.prems(2) show ?case by force
qed simp

end
