(* ===== verification/Tg_Policy_Store.thy ===== *)
theory Tg_Policy_Store
  imports Tg_Rows Machine
begin

text \<open>
  The contexts of \<open>talkgroup_policy.c\<close> in memory: a heap of reference-counted contexts, the policy slot
  of each decoder state (\<open>src/runtime/state_ext.c\<close>) and the store pointers that scan profiles hold.

  \<open>tw_hosts\<close> are the slots, one per decoder state; their cleanup function is always
  \<open>tg_policy_context_free\<close>. \<open>tw_held\<close> lists the references handed out by \<open>dsd_tg_policy_retain\<close> and
  \<open>dsd_tg_policy_store_create\<close> and not yet released. A freed address holds \<open>None\<close> and is not reused.
\<close>

record tg_world =
  tw_heap :: "tg_ctx option list"
  tw_next_id :: u64
  tw_hosts :: "nat option list"
  tw_held :: "nat list"

definition cell :: "nat \<Rightarrow> tg_world \<Rightarrow> tg_ctx option" where
  "cell a w = (if a < length (tw_heap w) then tw_heap w ! a else None)"

definition write_cell :: "nat \<Rightarrow> tg_ctx option \<Rightarrow> tg_world \<Rightarrow> tg_world" where
  "write_cell a c w = w\<lparr>tw_heap := (tw_heap w)[a := c]\<rparr>"

section \<open>Contexts and slots\<close>

text \<open>The counter skips zero.\<close>

definition tg_next_context_id :: "tg_world \<Rightarrow> u64 \<times> tg_world" where
  "tg_next_context_id w = (let ident = (if tw_next_id w = 0 then 1 else tw_next_id w) in (ident, w\<lparr>tw_next_id := ident + 1\<rparr>))"

definition fresh_ctx :: "u64 \<Rightarrow> tg_ctx" where
  "fresh_ctx ident = \<lparr>tp_rows = [], tp_capacity = 0, tp_generation = 0, tp_avoids = [], tp_avoid_capacity = 0,
     tp_calls = replicate 2 zero_call, tp_last_preempt = 0, tp_active_generation = 0, tp_references = 1,
     tp_context_id = ident, tp_source_id = ident, tp_parent_id = 0\<rparr>"

definition tg_context_alloc :: "bool \<Rightarrow> tg_world \<Rightarrow> (nat \<times> tg_world) option" where
  "tg_context_alloc alloc w =
     (if \<not> alloc then None
      else (let (ident, w1) = tg_next_context_id w
            in Some (length (tw_heap w1), w1\<lparr>tw_heap := tw_heap w1 @ [Some (fresh_ctx ident)]\<rparr>)))"

definition tg_context_free :: "nat \<Rightarrow> tg_world \<Rightarrow> tg_world" where
  "tg_context_free a w =
     (case cell a w of
        None \<Rightarrow> w
      | Some c \<Rightarrow> (let left = tp_references c - 1
                  in write_cell a (if left \<noteq> 0 then Some (c\<lparr>tp_references := left\<rparr>) else None) w))"

text \<open>\<open>dsd_state_ext_get\<close> and \<open>dsd_state_ext_set\<close> at the policy slot of host \<open>h\<close>.\<close>

definition ext_get :: "nat \<Rightarrow> tg_world \<Rightarrow> nat option" where
  "ext_get h w = (if h < length (tw_hosts w) then tw_hosts w ! h else None)"

definition ext_set :: "nat \<Rightarrow> nat option \<Rightarrow> tg_world \<Rightarrow> tg_world" where
  "ext_set h p w =
     (let w1 = (case ext_get h w of
                  None \<Rightarrow> w
                | Some old \<Rightarrow> if p \<noteq> Some old then tg_context_free old w else w)
      in w1\<lparr>tw_hosts := (tw_hosts w1)[h := p]\<rparr>)"

definition ext_free_all :: "nat \<Rightarrow> tg_world \<Rightarrow> tg_world" where
  "ext_free_all h w =
     (let w1 = (case ext_get h w of None \<Rightarrow> w | Some p \<Rightarrow> tg_context_free p w)
      in w1\<lparr>tw_hosts := (tw_hosts w1)[h := None]\<rparr>)"

definition tg_ctx_get_mut :: "bool \<Rightarrow> nat \<Rightarrow> bool \<Rightarrow> tg_world \<Rightarrow> tg_world \<times> nat option" where
  "tg_ctx_get_mut alloc h create w =
     (case ext_get h w of
        Some a \<Rightarrow> (w, Some a)
      | None \<Rightarrow>
          if \<not> create then (w, None)
          else (case tg_context_alloc alloc w of
                  None \<Rightarrow> (w, None)
                | Some (a, w1) \<Rightarrow> (ext_set h (Some a) w1, Some a)))"

definition tg_ctx_get_const :: "nat \<Rightarrow> tg_world \<Rightarrow> tg_ctx option" where
  "tg_ctx_get_const h w = (case ext_get h w of None \<Rightarrow> None | Some a \<Rightarrow> cell a w)"

text \<open>Running an operation on the context at an address, and on a host's context, created when missing.\<close>

definition on_ctx :: "nat \<Rightarrow> (tg_ctx \<Rightarrow> tg_ctx \<times> int) \<Rightarrow> tg_world \<Rightarrow> tg_world \<times> int" where
  "on_ctx a f w = (case cell a w of None \<Rightarrow> (w, -1) | Some c \<Rightarrow> (case f c of (c', rc) \<Rightarrow> (write_cell a (Some c') w, rc)))"

definition on_host :: "bool \<Rightarrow> nat \<Rightarrow> bool \<Rightarrow> int \<Rightarrow> (tg_ctx \<Rightarrow> tg_ctx \<times> int) \<Rightarrow> tg_world \<Rightarrow> tg_world \<times> int" where
  "on_host alloc h create missing f w =
     (case tg_ctx_get_mut alloc h create w of
        (w1, None) \<Rightarrow> (w1, missing)
      | (w1, Some a) \<Rightarrow> on_ctx a f w1)"

section \<open>The operations of a decoder state\<close>

definition dsd_tg_policy_add_range_entry :: "bool \<Rightarrow> bool \<Rightarrow> nat \<Rightarrow> tg_entry \<Rightarrow> tg_world \<Rightarrow> tg_world \<times> int" where
  "dsd_tg_policy_add_range_entry al_ctx al h entry w =
     (if \<not> tg_entry_valid_range entry then (w, 1) else on_host al_ctx h True (-1) (tg_store_append al entry) w)"

definition dsd_tg_policy_append_exact :: "bool \<Rightarrow> bool \<Rightarrow> nat \<Rightarrow> tg_entry \<Rightarrow> tg_world \<Rightarrow> tg_world \<times> int" where
  "dsd_tg_policy_append_exact al_ctx al h entry w =
     (if \<not> tg_entry_valid_exact entry then (w, 1) else on_host al_ctx h True (-1) (tg_store_append al entry) w)"

definition dsd_tg_policy_upsert_exact ::
  "bool \<Rightarrow> bool \<Rightarrow> nat \<Rightarrow> tg_entry \<Rightarrow> tg_upsert_mode \<Rightarrow> tg_world \<Rightarrow> tg_world \<times> int" where
  "dsd_tg_policy_upsert_exact al_ctx al h entry mode w =
     (if \<not> tg_entry_valid_exact entry then (w, 1)
      else if mode = TG_UPSERT_ADD_IF_MISSING \<and> ext_get h w = None
      then dsd_tg_policy_append_exact al_ctx al h
             ((tg_copy_entry_normalized entry)\<lparr>te_range := False, te_end := te_start (tg_copy_entry_normalized entry)\<rparr>) w
      else on_host al_ctx h (mode \<noteq> TG_UPSERT_ADD_IF_MISSING) (-1) (tg_ctx_upsert_exact al entry mode) w)"

definition dsd_tg_policy_session_avoid_add :: "bool \<Rightarrow> bool \<Rightarrow> nat \<Rightarrow> u32 \<Rightarrow> tg_world \<Rightarrow> tg_world \<times> int" where
  "dsd_tg_policy_session_avoid_add al_ctx al h ident w =
     (if ident = 0 then (w, 1)
      else case ext_get h w of
        Some a \<Rightarrow> on_ctx a (tg_ctx_avoid_add al ident) w
      | None \<Rightarrow>
          (case tg_context_alloc al_ctx w of
             None \<Rightarrow> (w, -1)
           | Some (a, w1) \<Rightarrow>
               if \<not> al then (tg_context_free a w1, -1)
               else on_ctx a (tg_ctx_avoid_add al ident) (ext_set h (Some a) w1)))"

definition dsd_tg_policy_session_avoid_clear :: "nat \<Rightarrow> tg_world \<Rightarrow> tg_world" where
  "dsd_tg_policy_session_avoid_clear h w =
     (case ext_get h w of None \<Rightarrow> w | Some a \<Rightarrow> fst (on_ctx a (\<lambda>c. (tg_ctx_avoid_clear c, 0)) w))"

definition dsd_tg_policy_set_mode :: "bool \<Rightarrow> bool \<Rightarrow> nat \<Rightarrow> u32 \<Rightarrow> u32 \<Rightarrow> string \<Rightarrow> tg_world \<Rightarrow> tg_world \<times> int" where
  "dsd_tg_policy_set_mode al_ctx al h s e mode w =
     (if \<not> tg_mode_valid mode \<or> s > e then (w, 1) else on_host al_ctx h True (-1) (tg_ctx_set_mode al s e mode) w)"

definition dsd_tg_policy_set_mode_at :: "nat \<Rightarrow> nat \<Rightarrow> string \<Rightarrow> tg_world \<Rightarrow> tg_world \<times> int" where
  "dsd_tg_policy_set_mode_at h i mode w = on_host False h False 1 (tg_ctx_set_mode_at i mode) w"

definition dsd_tg_policy_set_fields ::
  "bool \<Rightarrow> bool \<Rightarrow> nat \<Rightarrow> u32 \<Rightarrow> u32 \<Rightarrow> tg_entry \<Rightarrow> u32 \<Rightarrow> tg_world \<Rightarrow> tg_world \<times> int" where
  "dsd_tg_policy_set_fields al_ctx al h s e v msk w =
     (if tg_set_fields_refused s e v msk then (w, 1) else on_host al_ctx h True (-1) (tg_ctx_set_fields al s e v msk) w)"

definition dsd_tg_policy_remove_bounds :: "nat \<Rightarrow> u32 \<Rightarrow> u32 \<Rightarrow> tg_world \<Rightarrow> tg_world \<times> int" where
  "dsd_tg_policy_remove_bounds h s e w = on_host False h False 1 (tg_ctx_remove_bounds s e) w"

definition dsd_tg_policy_note_active_call ::
  "bool \<Rightarrow> nat \<Rightarrow> tg_route \<Rightarrow> tg_decision \<Rightarrow> mono_s \<Rightarrow> tg_world \<Rightarrow> tg_world \<times> int" where
  "dsd_tg_policy_note_active_call al_ctx h r d now w = on_host al_ctx h True 1 (tg_ctx_note_active_call r d now) w"

definition dsd_tg_policy_clear_active_call :: "nat \<Rightarrow> int \<Rightarrow> tg_world \<Rightarrow> tg_world \<times> int" where
  "dsd_tg_policy_clear_active_call h slot w = on_host False h False 0 (tg_ctx_clear_active_call slot) w"

definition dsd_tg_policy_entry_count :: "nat \<Rightarrow> tg_world \<Rightarrow> nat" where
  "dsd_tg_policy_entry_count h w = (case tg_ctx_get_const h w of None \<Rightarrow> 0 | Some c \<Rightarrow> length (tp_rows c))"

definition dsd_tg_policy_entry_at :: "nat \<Rightarrow> nat \<Rightarrow> tg_world \<Rightarrow> tg_entry option" where
  "dsd_tg_policy_entry_at h i w =
     (case tg_ctx_get_const h w of None \<Rightarrow> None | Some c \<Rightarrow> if i \<ge> length (tp_rows c) then None else Some (tp_rows c ! i))"

definition dsd_tg_policy_table_version :: "nat \<Rightarrow> tg_world \<Rightarrow> u64 \<times> u32" where
  "dsd_tg_policy_table_version h w =
     (case tg_ctx_get_const h w of None \<Rightarrow> (0, 0) | Some c \<Rightarrow> (tp_source_id c, tp_generation c))"

text \<open>
  \<open>al_keys\<close>, \<open>al_rows\<close> and \<open>al_ctx\<close> are the allocations in the order the function makes them.
\<close>

definition dsd_tg_policy_set_listening_selection ::
  "bool \<Rightarrow> bool \<Rightarrow> bool \<Rightarrow> nat \<Rightarrow> u64 \<Rightarrow> u32 \<Rightarrow> tg_selection list \<Rightarrow> bool \<Rightarrow> tg_world \<Rightarrow> tg_world \<times> int" where
  "dsd_tg_policy_set_listening_selection al_keys al_rows al_ctx h context generation sel listening w =
     (if sel = [] then (w, 1)
      else if dsd_tg_policy_table_version h w \<noteq> (context, generation) then (w, 1)
      else if \<not> al_keys then (w, -1)
      else if selection_has_duplicates sel then (w, 1)
      else if \<not> al_rows then (w, -1)
      else
        (let old = (case tg_ctx_get_const h w of None \<Rightarrow> [] | Some c \<Rightarrow> tp_rows c) in
         case prepare_selection old sel listening old of
           None \<Rightarrow> (w, 1)
         | Some used \<Rightarrow>
             on_host al_ctx h True (-1)
               (\<lambda>c. (tg_note_mutation (c\<lparr>tp_rows := used, tp_capacity := length old + length sel\<rparr>), 0)) w))"

section \<open>Snapshots, reloads and shared stores\<close>

definition clone_of :: "tg_ctx \<Rightarrow> tg_ctx \<Rightarrow> tg_ctx" where
  "clone_of src new = new\<lparr>tp_rows := tp_rows src, tp_capacity := length (tp_rows src), tp_generation := tp_generation src,
     tp_avoids := tp_avoids src, tp_avoid_capacity := length (tp_avoids src), tp_calls := tp_calls src,
     tp_last_preempt := tp_last_preempt src, tp_active_generation := tp_active_generation src,
     tp_source_id := tp_source_id src, tp_parent_id := tp_context_id src\<rparr>"

definition tg_context_clone :: "bool \<Rightarrow> bool \<Rightarrow> bool \<Rightarrow> tg_ctx \<Rightarrow> tg_world \<Rightarrow> tg_world \<times> nat option" where
  "tg_context_clone al_ctx al_avoids al_rows src w =
     (case tg_context_alloc al_ctx w of
        None \<Rightarrow> (w, None)
      | Some (a, w1) \<Rightarrow>
          if (tp_avoids src \<noteq> [] \<and> \<not> al_avoids) \<or> (tp_rows src \<noteq> [] \<and> \<not> al_rows) then (tg_context_free a w1, None)
          else (fst (on_ctx a (\<lambda>c. (clone_of src c, 0)) w1), Some a))"

definition snapshot_is_current :: "tg_ctx \<Rightarrow> tg_ctx \<Rightarrow> bool" where
  "snapshot_is_current dst src \<longleftrightarrow> tp_context_id src \<noteq> 0 \<and> tp_parent_id dst \<noteq> 0 \<and> tp_parent_id dst = tp_context_id src
     \<and> tp_generation dst = tp_generation src \<and> length (tp_rows dst) = length (tp_rows src)"

definition copy_active :: "tg_ctx \<Rightarrow> tg_ctx \<Rightarrow> tg_ctx" where
  "copy_active src c = c\<lparr>tp_calls := tp_calls src, tp_last_preempt := tp_last_preempt src,
     tp_active_generation := tp_active_generation src\<rparr>"

text \<open>
  The slow path; a destination that shares the source's context is emptied without releasing it (as suits
  a state copied as raw memory, but not one that shares by \<open>dsd_tg_policy_restore\<close>).
\<close>

definition snapshot_clone :: "bool \<Rightarrow> bool \<Rightarrow> bool \<Rightarrow> nat \<Rightarrow> nat \<Rightarrow> tg_ctx \<Rightarrow> tg_world \<Rightarrow> tg_world \<times> int" where
  "snapshot_clone al_ctx al_avoids al_rows dst src sc w =
     (case tg_context_clone al_ctx al_avoids al_rows sc w of
        (w1, None) \<Rightarrow> (w1, -1)
      | (w1, Some a) \<Rightarrow>
          (let w2 = (if ext_get dst w1 = ext_get src w1 then w1\<lparr>tw_hosts := (tw_hosts w1)[dst := None]\<rparr> else w1)
           in (ext_set dst (Some a) w2, 0)))"

definition dsd_tg_policy_copy_snapshot :: "bool \<Rightarrow> bool \<Rightarrow> bool \<Rightarrow> nat \<Rightarrow> nat \<Rightarrow> tg_world \<Rightarrow> tg_world \<times> int" where
  "dsd_tg_policy_copy_snapshot al_ctx al_avoids al_rows dst src w =
     (if dst = src then (w, 0)
      else case tg_ctx_get_const src w of
        None \<Rightarrow> (ext_set dst None w, 0)
      | Some sc \<Rightarrow>
          (case ext_get dst w of
             None \<Rightarrow> snapshot_clone al_ctx al_avoids al_rows dst src sc w
           | Some a \<Rightarrow>
               if ext_get dst w \<noteq> ext_get src w
                  \<and> (case cell a w of None \<Rightarrow> False | Some dc \<Rightarrow> snapshot_is_current dc sc)
               then on_ctx a (\<lambda>c. (copy_active sc c, 0)) w
               else snapshot_clone al_ctx al_avoids al_rows dst src sc w))"

definition tg_terminated :: "nat \<Rightarrow> string \<Rightarrow> bool" where
  "tg_terminated cap s \<longleftrightarrow> length s < cap"

definition tg_reload_validate_candidate :: "tg_entry list \<Rightarrow> bool" where
  "tg_reload_validate_candidate es \<longleftrightarrow>
     list_all (\<lambda>e. tg_terminated TG_MODE_SIZE (te_mode e) \<and> tg_terminated TG_NAME_SIZE (te_name e)
       \<and> (if te_range e then tg_entry_valid_range e else tg_entry_valid_exact e)) es"

text \<open>
  Both a reload and a clear install a context whose generations continue those of the current one.
  \<open>csvGroupImportPath\<close> is a parameter: \<open>None\<close> when it fails, else the context it left in the candidate
  state, when it left one.
\<close>

definition next_generations :: "nat \<Rightarrow> tg_world \<Rightarrow> tg_ctx \<Rightarrow> tg_ctx" where
  "next_generations h w c =
     (case tg_ctx_get_const h w of
        None \<Rightarrow> c\<lparr>tp_generation := 1, tp_active_generation := 1\<rparr>
      | Some cur \<Rightarrow> c\<lparr>tp_generation := tp_generation cur + 1, tp_active_generation := tp_active_generation cur + 1\<rparr>)"

definition dsd_tg_policy_reload_group_file ::
  "bool \<Rightarrow> bool \<Rightarrow> tg_ctx option option \<Rightarrow> nat \<Rightarrow> tg_world \<Rightarrow> tg_world \<times> int" where
  "dsd_tg_policy_reload_group_file al_state al_ctx imported h w =
     (if \<not> al_state then (w, -1)
      else case imported of
        None \<Rightarrow> (w, -1)
      | Some candidate \<Rightarrow>
          if \<not> tg_reload_validate_candidate (case candidate of None \<Rightarrow> [] | Some c \<Rightarrow> tp_rows c) then (w, -1)
          else
            (case (case candidate of
                     Some c \<Rightarrow> Some (length (tw_heap w), w\<lparr>tw_heap := tw_heap w @ [Some c]\<rparr>)
                   | None \<Rightarrow> tg_context_alloc al_ctx w) of
               None \<Rightarrow> (w, -1)
             | Some (a, w1) \<Rightarrow> (ext_set h (Some a) (fst (on_ctx a (\<lambda>c. (next_generations h w c, 0)) w1)), 0)))"

definition dsd_tg_policy_clear :: "bool \<Rightarrow> nat \<Rightarrow> tg_world \<Rightarrow> tg_world \<times> int" where
  "dsd_tg_policy_clear al_ctx h w =
     (case tg_ctx_get_const h w of
        None \<Rightarrow> (w, 0)
      | Some _ \<Rightarrow>
          (case tg_context_alloc al_ctx w of
             None \<Rightarrow> (w, -1)
           | Some (a, w1) \<Rightarrow> (ext_set h (Some a) (fst (on_ctx a (\<lambda>c. (next_generations h w c, 0)) w1)), 0)))"

definition add_reference :: "nat \<Rightarrow> tg_world \<Rightarrow> tg_world" where
  "add_reference a w = fst (on_ctx a (\<lambda>c. (c\<lparr>tp_references := tp_references c + 1\<rparr>, 0)) w)"

text \<open>The references held by scan profiles: \<open>retain\<close> and \<open>store_create\<close> hand one out, \<open>release\<close> takes it back.\<close>

definition dsd_tg_policy_retain :: "nat \<Rightarrow> tg_world \<Rightarrow> tg_world \<times> nat option" where
  "dsd_tg_policy_retain h w =
     (case ext_get h w of
        None \<Rightarrow> (w, None)
      | Some a \<Rightarrow> (let w1 = add_reference a w in (w1\<lparr>tw_held := a # tw_held w1\<rparr>, Some a)))"

definition dsd_tg_policy_store_create :: "bool \<Rightarrow> tg_world \<Rightarrow> tg_world \<times> nat option" where
  "dsd_tg_policy_store_create al_ctx w =
     (case tg_context_alloc al_ctx w of None \<Rightarrow> (w, None) | Some (a, w1) \<Rightarrow> (w1\<lparr>tw_held := a # tw_held w1\<rparr>, Some a))"

definition dsd_tg_policy_release :: "nat \<Rightarrow> tg_world \<Rightarrow> tg_world" where
  "dsd_tg_policy_release a w = tg_context_free a (w\<lparr>tw_held := remove1 a (tw_held w)\<rparr>)"

definition dsd_tg_policy_restore :: "nat \<Rightarrow> nat option \<Rightarrow> tg_world \<Rightarrow> tg_world" where
  "dsd_tg_policy_restore h store w =
     (let w1 = (case store of None \<Rightarrow> w | Some a \<Rightarrow> if ext_get h w \<noteq> Some a then add_reference a w else w)
      in ext_set h store w1)"

definition dsd_tg_policy_install :: "nat \<Rightarrow> nat option \<Rightarrow> tg_world \<Rightarrow> tg_world" where
  "dsd_tg_policy_install h store w =
     (let w1 = (case store of
                  None \<Rightarrow> w
                | Some a \<Rightarrow> fst (on_ctx a (\<lambda>c. (c\<lparr>tp_calls := replicate 2 zero_call, tp_last_preempt := 0,
                                                   tp_active_generation := 0\<rparr>, 0)) w))
      in dsd_tg_policy_restore h store w1)"

definition dsd_tg_policy_store_append :: "bool \<Rightarrow> nat \<Rightarrow> tg_entry \<Rightarrow> tg_world \<Rightarrow> tg_world \<times> int" where
  "dsd_tg_policy_store_append al a entry w = on_ctx a (tg_store_append al entry) w"

section \<open>References\<close>

text \<open>
  \<open>owned xs w\<close>: every live context is referenced exactly as often as it is pointed to, by a slot, by a
  holder or by the pointers \<open>xs\<close> a running operation owns, and no pointer leads to a freed context.
\<close>

definition refs :: "nat list \<Rightarrow> nat \<Rightarrow> tg_world \<Rightarrow> nat" where
  "refs xs a w = count_list (tw_hosts w) (Some a) + count_list (tw_held w) a + count_list xs a"

definition cell_ok :: "nat list \<Rightarrow> nat \<Rightarrow> tg_world \<Rightarrow> bool" where
  "cell_ok xs a w \<longleftrightarrow>
     (case cell a w of None \<Rightarrow> refs xs a w = 0 | Some c \<Rightarrow> tp_references c = refs xs a w \<and> 0 < refs xs a w \<and> ctx_ok c)"

definition owned :: "nat list \<Rightarrow> tg_world \<Rightarrow> bool" where
  "owned xs w \<longleftrightarrow> (\<forall>a. cell_ok xs a w)"

lemma cell_write [simp]: "cell b (write_cell a c w) = (if b = a \<and> a < length (tw_heap w) then c else cell b w)"
  by (simp add: cell_def write_cell_def)

lemma write_parts [simp]:
  "tw_hosts (write_cell a c w) = tw_hosts w" "tw_held (write_cell a c w) = tw_held w"
  "refs xs b (write_cell a c w) = refs xs b w" "ext_get h (write_cell a c w) = ext_get h w"
  by (simp_all add: write_cell_def refs_def ext_get_def)

lemma cell_live: "cell a w = Some c \<Longrightarrow> a < length (tw_heap w)"
  by (simp add: cell_def split: if_splits)

lemma ownedD: "owned xs w \<Longrightarrow> cell a w = Some c \<Longrightarrow> tp_references c = refs xs a w \<and> 0 < refs xs a w \<and> ctx_ok c"
  by (auto simp: owned_def cell_ok_def dest: spec [of _ a])

lemma owned_live: "owned xs w \<Longrightarrow> 0 < refs xs a w \<Longrightarrow> \<exists>c. cell a w = Some c"
  by (auto simp: owned_def cell_ok_def dest: spec [of _ a] split: option.splits)

lemma refs_slot: "ext_get h w = Some a \<Longrightarrow> 0 < refs xs a w"
  by (auto simp: refs_def ext_get_def count_list_0_iff intro: nth_mem split: if_splits intro!: gr0I)
     (metis nth_mem)

lemma slot_live: "owned xs w \<Longrightarrow> ext_get h w = Some a \<Longrightarrow> \<exists>c. cell a w = Some c"
  by (blast intro: owned_live refs_slot)

text \<open>A context changed in place.\<close>

lemma owned_write:
  assumes "owned xs w" "cell a w = Some c" "ctx_ok c'" "tp_references c' = tp_references c"
  shows "owned xs (write_cell a (Some c') w)"
  unfolding owned_def
proof
  fix b
  have "cell_ok xs b w" using assms(1) by (simp add: owned_def)
  with assms(2-) cell_live [OF assms(2)] ownedD [OF assms(1,2)] show "cell_ok xs b (write_cell a (Some c') w)"
    by (cases "b = a") (auto simp: cell_ok_def split: option.splits)
qed

lemma owned_on_ctx:
  assumes "owned xs w" "\<And>c. ctx_ok c \<Longrightarrow> ctx_ok (fst (f c)) \<and> tp_references (fst (f c)) = tp_references c"
  shows "owned xs (fst (on_ctx a f w))"
  using assms(1) assms(2) ownedD [OF assms(1), of a] owned_write [OF assms(1), of a]
  by (auto simp: on_ctx_def split: option.split prod.split) (metis fst_conv)

lemma on_ctx_parts [simp]:
  "tw_hosts (fst (on_ctx a f w)) = tw_hosts w" "tw_held (fst (on_ctx a f w)) = tw_held w"
  "ext_get h (fst (on_ctx a f w)) = ext_get h w"
  by (simp_all add: on_ctx_def split: option.split prod.split)

text \<open>Allocation gives the operation the one reference of the new context.\<close>

lemma fresh_ok: "ctx_ok (fresh_ctx i)" "tp_references (fresh_ctx i) = 1"
  by (simp_all add: ctx_ok_def fresh_ctx_def)

lemma owned_extend:
  assumes "owned xs w" "ctx_ok c" "tp_references c = 1" "tw_heap w' = tw_heap w @ [Some c]"
    "tw_hosts w' = tw_hosts w" "tw_held w' = tw_held w"
  shows "owned (length (tw_heap w) # xs) w'"
  unfolding owned_def
proof
  fix b
  have "cell_ok xs b w" "cell_ok xs (length (tw_heap w)) w" using assms(1) by (simp_all add: owned_def)
  with assms(2-) show "cell_ok (length (tw_heap w) # xs) b w'"
    by (cases "b < length (tw_heap w)"; cases "b = length (tw_heap w)")
       (auto simp: cell_ok_def cell_def refs_def nth_append split: option.splits)
qed

lemma owned_alloc: "owned xs w \<Longrightarrow> tg_context_alloc alloc w = Some (a, w1) \<Longrightarrow> owned (a # xs) w1"
  by (auto simp: tg_context_alloc_def tg_next_context_id_def Let_def fresh_ok intro!: owned_extend split: if_splits)

lemma alloc_parts:
  "tg_context_alloc alloc w = Some (a, w1) \<Longrightarrow>
   alloc \<and> tw_hosts w1 = tw_hosts w \<and> tw_held w1 = tw_held w \<and> a = length (tw_heap w) \<and> ext_get h w1 = ext_get h w"
  by (auto simp: tg_context_alloc_def tg_next_context_id_def Let_def ext_get_def split: if_splits)

lemma fresh_address: "owned xs w \<Longrightarrow> tg_context_alloc alloc w = Some (a, w1) \<Longrightarrow> ext_get h w1 \<noteq> Some a"
proof
  assume o: "owned xs w" and al: "tg_context_alloc alloc w = Some (a, w1)" and "ext_get h w1 = Some a"
  then have "ext_get h w = Some a" using alloc_parts [OF al] by simp
  with o have "\<exists>c. cell a w = Some c" by (rule slot_live)
  with alloc_parts [OF al] cell_live show False by blast
qed

lemma owned_free: "owned (a # xs) w \<Longrightarrow> owned xs (tg_context_free a w)"
  unfolding owned_def
proof
  fix b
  assume "\<forall>a'. cell_ok (a # xs) a' w"
  then have b: "cell_ok (a # xs) b w" and a: "cell_ok (a # xs) a w" by auto
  from a obtain c where c: "cell a w = Some c" by (auto simp: cell_ok_def refs_def split: option.splits)
  with a b cell_live [OF c] show "cell_ok xs b (tg_context_free a w)"
    by (cases "b = a") (auto simp: cell_ok_def tg_context_free_def Let_def refs_def ctx_ok_def split: option.splits)
qed

lemma free_parts [simp]:
  "tw_hosts (tg_context_free a w) = tw_hosts w" "tw_held (tg_context_free a w) = tw_held w"
  "ext_get h (tg_context_free a w) = ext_get h w"
  by (simp_all add: tg_context_free_def Let_def split: option.split)

lemma count_list_replace:
  "i < length xs \<Longrightarrow> count_list (xs[i := y]) x + (if xs ! i = x then 1 else 0) = count_list xs x + (if y = x then 1 else 0)"
proof (induction xs arbitrary: i)
  case (Cons a xs)
  show ?case
  proof (cases i)
    case (Suc j)
    with Cons.prems Cons.IH [of j] show ?thesis by (cases "y = x") auto
  qed simp
qed simp

lemma owned_cong:
  assumes "owned xs w" "tw_heap w' = tw_heap w" "\<And>a. refs ys a w' = refs xs a w"
  shows "owned ys w'"
proof -
  have "cell a w' = cell a w" for a by (simp add: cell_def assms(2))
  then have "cell_ok ys a w' = cell_ok xs a w" for a by (simp only: cell_ok_def assms(3))
  with assms(1) show ?thesis by (simp add: owned_def)
qed

definition pointer_list :: "nat option \<Rightarrow> nat list" where
  "pointer_list p = (case p of None \<Rightarrow> [] | Some a \<Rightarrow> [a])"

lemma pointer_list_simps [simp]: "pointer_list None = []" "pointer_list (Some a) = [a]"
  by (simp_all add: pointer_list_def)

text \<open>Writing a slot trades the pointer the operation owns for the one the slot held.\<close>

lemma owned_swap:
  assumes "h < length (tw_hosts w)" "owned (pointer_list p @ xs) w"
  shows "owned (pointer_list (ext_get h w) @ xs) (w\<lparr>tw_hosts := (tw_hosts w)[h := p]\<rparr>)"
proof -
  have "refs (pointer_list (ext_get h w) @ xs) a (w\<lparr>tw_hosts := (tw_hosts w)[h := p]\<rparr>) = refs (pointer_list p @ xs) a w" for a
    using assms(1) count_list_replace [OF assms(1), of p "Some a"]
    by (cases p; cases "tw_hosts w ! h") (auto simp: refs_def ext_get_def split: if_splits)
  with assms(2) show ?thesis by (auto elim: owned_cong)
qed

lemma free_swap: "tg_context_free a w\<lparr>tw_hosts := hs\<rparr> = tg_context_free a (w\<lparr>tw_hosts := hs\<rparr>)"
  by (simp add: tg_context_free_def cell_def write_cell_def Let_def split: option.split)

lemma owned_set:
  assumes "h < length (tw_hosts w)" "owned (pointer_list p @ xs) w" "p = None \<or> ext_get h w \<noteq> p"
  shows "owned xs (ext_set h p w)"
  using owned_swap [OF assms(1,2)] assms(3) owned_free
  by (cases "ext_get h w") (auto simp: ext_set_def Let_def free_swap)

lemma owned_set_new:
  "h < length (tw_hosts w) \<Longrightarrow> owned (a # xs) w \<Longrightarrow> ext_get h w \<noteq> Some a \<Longrightarrow> owned xs (ext_set h (Some a) w)"
  using owned_set [of h w "Some a" xs] by simp

lemma set_same: "ext_get h w = Some a \<Longrightarrow> ext_set h (Some a) w = w"
  by (cases w) (auto simp: ext_set_def ext_get_def Let_def list_update_same_conv split: if_splits)

lemma owned_free_all:
  assumes "h < length (tw_hosts w)" "owned xs w" shows "owned xs (ext_free_all h w)"
  using owned_swap [OF assms(1), of None xs] assms(2) owned_free
  by (cases "ext_get h w") (auto simp: ext_free_all_def Let_def free_swap)

lemma owned_retain:
  assumes "owned xs w" "0 < refs xs a w"
  shows "owned (a # xs) (add_reference a w)"
proof -
  obtain c where c: "cell a w = Some c" using owned_live [OF assms] by blast
  then have w: "add_reference a w = write_cell a (Some (c\<lparr>tp_references := tp_references c + 1\<rparr>)) w"
    by (simp add: add_reference_def on_ctx_def)
  have "cell_ok (a # xs) b (add_reference a w)" for b
  proof -
    have "cell_ok xs b w" using assms(1) by (simp add: owned_def)
    with cell_live [OF c] ownedD [OF assms(1) c] show ?thesis
      by (cases "b = a") (auto simp: w cell_ok_def refs_def ctx_ok_def split: option.splits)
  qed
  then show ?thesis by (simp add: owned_def)
qed

lemma owned_hold: "owned (a # xs) w \<Longrightarrow> owned xs (w\<lparr>tw_held := a # tw_held w\<rparr>)"
  by (erule owned_cong) (simp_all add: refs_def)

lemma count_list_remove1: "x \<in> set xs \<Longrightarrow> count_list (remove1 x xs) y + (if x = y then 1 else 0) = count_list xs y"
  by (induction xs) auto

lemma owned_unhold:
  assumes "a \<in> set (tw_held w)" "owned xs w" shows "owned (a # xs) (w\<lparr>tw_held := remove1 a (tw_held w)\<rparr>)"
proof -
  have "refs (a # xs) b (w\<lparr>tw_held := remove1 a (tw_held w)\<rparr>) = refs xs b w" for b
    using count_list_remove1 [OF assms(1), of b] by (simp add: refs_def)
  with assms(2) show ?thesis by (auto elim: owned_cong)
qed

section \<open>Every operation keeps the references exact\<close>

lemma get_mut_owned:
  assumes "h < length (tw_hosts w)" "owned xs w" "tg_ctx_get_mut alloc h create w = (w1, p)"
  shows "owned xs w1"
proof (cases "ext_get h w = None \<and> create \<and> alloc")
  case True
  then obtain a w2 where al: "tg_context_alloc alloc w = Some (a, w2)"
    by (auto simp: tg_context_alloc_def tg_next_context_id_def Let_def)
  with True assms owned_set_new [OF _ owned_alloc [OF assms(2) al] fresh_address [OF assms(2) al]] alloc_parts [OF al]
  show ?thesis by (auto simp: tg_ctx_get_mut_def)
qed (use assms in \<open>auto simp: tg_ctx_get_mut_def tg_context_alloc_def split: option.splits if_splits\<close>)

lemma on_host_owned:
  assumes "h < length (tw_hosts w)" "owned xs w"
    "\<And>c. ctx_ok c \<Longrightarrow> ctx_ok (fst (f c)) \<and> tp_references (fst (f c)) = tp_references c"
  shows "owned xs (fst (on_host alloc h create missing f w))"
proof -
  obtain w1 p where m: "tg_ctx_get_mut alloc h create w = (w1, p)" by (cases "tg_ctx_get_mut alloc h create w")
  from get_mut_owned [OF assms(1,2) m] have "owned xs w1" .
  with owned_on_ctx [OF this assms(3)] m show ?thesis by (cases p) (simp_all add: on_host_def)
qed

lemma append_exact_owned:
  "h < length (tw_hosts w) \<Longrightarrow> owned xs w \<Longrightarrow> owned xs (fst (dsd_tg_policy_append_exact al_ctx al h e w))"
  by (simp add: dsd_tg_policy_append_exact_def on_host_owned store_append_ok store_append_refs)

lemma avoid_add_owned:
  assumes h: "h < length (tw_hosts w)" and o: "owned xs w"
  shows "owned xs (fst (dsd_tg_policy_session_avoid_add al_ctx al h ident w))"
proof (cases "ident = 0 \<or> ext_get h w \<noteq> None \<or> \<not> al_ctx")
  case True
  then show ?thesis using o owned_on_ctx [OF o, of "tg_ctx_avoid_add al ident"]
    by (auto simp: dsd_tg_policy_session_avoid_add_def tg_context_alloc_def avoid_add_ok ops_references split: option.split)
next
  case False
  then obtain a w1 where al: "tg_context_alloc al_ctx w = Some (a, w1)"
    by (auto simp: tg_context_alloc_def tg_next_context_id_def Let_def)
  have o1: "owned (a # xs) w1" by (rule owned_alloc [OF o al])
  have "owned xs (ext_set h (Some a) w1)"
    by (rule owned_set_new) (use h o1 alloc_parts [OF al] fresh_address [OF o al] in auto)
  then show ?thesis using False al owned_free [OF o1] owned_on_ctx
    by (auto simp: dsd_tg_policy_session_avoid_add_def avoid_add_ok ops_references intro!: owned_on_ctx)
qed

lemma clone_ok: "ctx_ok src \<Longrightarrow> ctx_ok (clone_of src c) \<and> tp_references (clone_of src c) = tp_references c"
  by (simp add: ctx_ok_def clone_of_def)

lemma clone_owned:
  assumes "owned xs w" "ctx_ok sc" "tg_context_clone a1 a2 a3 sc w = (w1, p)"
  shows "owned (pointer_list p @ xs) w1 \<and> tw_hosts w1 = tw_hosts w \<and> (\<forall>h. ext_get h w1 = ext_get h w)
     \<and> (\<forall>a h. p = Some a \<longrightarrow> ext_get h w \<noteq> Some a)"
proof (cases "tg_context_alloc a1 w")
  case None
  then show ?thesis using assms by (auto simp: tg_context_clone_def)
next
  case (Some q)
  then obtain a w2 where al: "tg_context_alloc a1 w = Some (a, w2)" by (cases q) simp
  have o: "owned (a # xs) w2" by (rule owned_alloc [OF assms(1) al])
  note c = assms(3) [unfolded tg_context_clone_def al option.case prod.case]
  have e: "ext_get h w2 = ext_get h w" "ext_get h w \<noteq> Some a" "tw_hosts w2 = tw_hosts w" for h
    using alloc_parts [OF al, of h] fresh_address [OF assms(1) al, of h] by auto
  have "owned (a # xs) (fst (on_ctx a (\<lambda>c. (clone_of sc c, 0)) w2))"
    by (rule owned_on_ctx [OF o]) (simp add: clone_ok [OF assms(2)])
  with c owned_free [OF o] e show ?thesis by (auto split: if_split_asm)
qed

lemma snapshot_clone_owned:
  assumes "dst < length (tw_hosts w)" "owned xs w" "ctx_ok sc"
  shows "owned (if ext_get dst w = ext_get src w \<and> snd (snapshot_clone a1 a2 a3 dst src sc w) = 0
                then pointer_list (ext_get dst w) @ xs else xs)
           (fst (snapshot_clone a1 a2 a3 dst src sc w))"
proof -
  obtain w1 p where c: "tg_context_clone a1 a2 a3 sc w = (w1, p)" by (cases "tg_context_clone a1 a2 a3 sc w")
  note o = clone_owned [OF assms(2,3) c]
  show ?thesis
  proof (cases p)
    case None
    with o c show ?thesis by (simp add: snapshot_clone_def)
  next
    case (Some a)
    have e: "ext_get h w1 = ext_get h w" "ext_get h w1 \<noteq> Some a" "tw_hosts w1 = tw_hosts w" for h using o Some by auto
    show ?thesis
    proof (cases "ext_get dst w = ext_get src w")
      case False
      have "owned xs (ext_set dst (Some a) w1)" by (rule owned_set_new) (use o Some assms(1) e in auto)
      with False Some c e(1) show ?thesis by (simp add: snapshot_clone_def)
    next
      case True
      define w2 where "w2 = w1\<lparr>tw_hosts := (tw_hosts w1)[dst := None]\<rparr>"
      have "owned (pointer_list None @ a # xs) w1" using o Some by simp
      then have "owned (pointer_list (ext_get dst w1) @ a # xs) w2"
        unfolding w2_def by (rule owned_swap [rotated]) (use assms(1) e in simp)
      then have "owned (a # pointer_list (ext_get dst w) @ xs) w2" by (rule owned_cong) (simp_all add: refs_def e(1))
      moreover have "ext_get dst w2 = None" "dst < length (tw_hosts w2)" using assms(1) e(3) by (simp_all add: w2_def ext_get_def)
      ultimately have "owned (pointer_list (ext_get dst w) @ xs) (ext_set dst (Some a) w2)" by (simp add: owned_set_new)
      with True Some c e(1) show ?thesis by (simp add: snapshot_clone_def w2_def)
    qed
  qed
qed

text \<open>
  What a snapshot leaves behind: when the two states share a context and the clone succeeds, the
  destination's pointer is overwritten without a release, and its reference stays counted.
\<close>

definition abandoned :: "bool \<Rightarrow> bool \<Rightarrow> bool \<Rightarrow> nat \<Rightarrow> nat \<Rightarrow> tg_world \<Rightarrow> nat list" where
  "abandoned al_ctx al_avoids al_rows dst src w =
     (if dst \<noteq> src \<and> ext_get dst w = ext_get src w \<and> snd (dsd_tg_policy_copy_snapshot al_ctx al_avoids al_rows dst src w) = 0
      then pointer_list (ext_get dst w) else [])"

lemma copy_snapshot_owned:
  assumes "dst < length (tw_hosts w)" "owned xs w"
  shows "owned (abandoned a1 a2 a3 dst src w @ xs) (fst (dsd_tg_policy_copy_snapshot a1 a2 a3 dst src w))"
proof (cases "tg_ctx_get_const src w")
  case None
  have "ext_get src w = None"
    using None slot_live [OF assms(2), of src] by (auto simp: tg_ctx_get_const_def split: option.splits)
  then have "abandoned a1 a2 a3 dst src w = []" by (simp add: abandoned_def)
  moreover have "owned xs (ext_set dst None w)" using owned_set [OF assms(1), of None xs] assms(2) by simp
  ultimately show ?thesis using None assms by (simp add: dsd_tg_policy_copy_snapshot_def)
next
  case (Some sc)
  then obtain s where s: "ext_get src w = Some s" "cell s w = Some sc" by (auto simp: tg_ctx_get_const_def split: option.splits)
  then have ok: "ctx_ok sc" using ownedD [OF assms(2)] by blast
  note cl = snapshot_clone_owned [OF assms(1,2) ok, of src a1 a2 a3]
  have ac: "owned xs (fst (on_ctx a (\<lambda>c. (copy_active sc c, 0)) w))" for a
    by (rule owned_on_ctx [OF assms(2)]) (use ok in \<open>simp add: ctx_ok_def copy_active_def\<close>)
  show ?thesis
    using cl ac assms(2) by (cases "ext_get dst w") (auto simp: dsd_tg_policy_copy_snapshot_def Some abandoned_def s(1) split: if_splits)
qed

lemma install_fresh_owned:
  assumes "h < length (tw_hosts w)" "owned (a # xs) w1" "tw_hosts w1 = tw_hosts w" "ext_get h w1 \<noteq> Some a"
  shows "owned xs (ext_set h (Some a) (fst (on_ctx a (\<lambda>c. (next_generations h w c, 0)) w1)))"
proof (rule owned_set_new)
  show "owned (a # xs) (fst (on_ctx a (\<lambda>c. (next_generations h w c, 0)) w1))"
    by (rule owned_on_ctx [OF assms(2)]) (simp add: next_generations_def ctx_ok_def split: option.split)
qed (use assms in auto)

text \<open>What a caller of the importer can rely on: a well-formed context with one reference.\<close>

definition imported_ok :: "tg_ctx option option \<Rightarrow> bool" where
  "imported_ok imported \<longleftrightarrow> (case imported of Some (Some c) \<Rightarrow> ctx_ok c \<and> tp_references c = 1 | _ \<Rightarrow> True)"

lemma reload_owned:
  assumes "h < length (tw_hosts w)" "owned xs w" "imported_ok imported"
  shows "owned xs (fst (dsd_tg_policy_reload_group_file a1 a2 imported h w))"
proof -
  have new: "owned xs (ext_set h (Some (length (tw_heap w)))
      (fst (on_ctx (length (tw_heap w)) (\<lambda>x. (next_generations h w x, 0)) (w\<lparr>tw_heap := tw_heap w @ [Some c]\<rparr>))))"
    if "imported = Some (Some c)" for c
  proof (rule install_fresh_owned [OF assms(1)])
    show "owned (length (tw_heap w) # xs) (w\<lparr>tw_heap := tw_heap w @ [Some c]\<rparr>)"
      by (rule owned_extend [OF assms(2)]) (use that assms(3) in \<open>auto simp: imported_ok_def\<close>)
    show "ext_get h (w\<lparr>tw_heap := tw_heap w @ [Some c]\<rparr>) \<noteq> Some (length (tw_heap w))"
      using slot_live [OF assms(2), of h "length (tw_heap w)"] by (auto simp: ext_get_def cell_def split: if_splits)
  qed simp
  have al: "owned xs (ext_set h (Some a) (fst (on_ctx a (\<lambda>x. (next_generations h w x, 0)) w1)))"
    if "tg_context_alloc a2 w = Some (a, w1)" for a w1
    by (rule install_fresh_owned [OF assms(1) owned_alloc [OF assms(2) that]])
       (use alloc_parts [OF that] fresh_address [OF assms(2) that] in auto)
  show ?thesis using new al assms(2)
    by (auto simp: dsd_tg_policy_reload_group_file_def split: option.split)
qed

lemma clear_owned:
  assumes "h < length (tw_hosts w)" "owned xs w"
  shows "owned xs (fst (dsd_tg_policy_clear a2 h w))"
proof -
  have "owned xs (ext_set h (Some a) (fst (on_ctx a (\<lambda>x. (next_generations h w x, 0)) w1)))"
    if "tg_context_alloc a2 w = Some (a, w1)" for a w1
    by (rule install_fresh_owned [OF assms(1) owned_alloc [OF assms(2) that]])
       (use alloc_parts [OF that] fresh_address [OF assms(2) that] in auto)
  with assms(2) show ?thesis by (auto simp: dsd_tg_policy_clear_def split: option.split)
qed

lemma restore_owned:
  assumes "h < length (tw_hosts w)" "owned xs w" "store = None \<or> (\<exists>a\<in>set (tw_held w). store = Some a)"
  shows "owned xs (dsd_tg_policy_restore h store w)"
proof (cases store)
  case None
  then show ?thesis using owned_set [OF assms(1), of None xs] assms(2) by (simp add: dsd_tg_policy_restore_def)
next
  case (Some a)
  with assms(3) have "0 < refs xs a w" by (auto simp: refs_def count_list_0_iff intro: gr0I)
  from owned_retain [OF assms(2) this] have r: "owned (a # xs) (add_reference a w)" .
  show ?thesis
  proof (cases "ext_get h w = Some a")
    case True
    with Some assms(2) show ?thesis by (simp add: dsd_tg_policy_restore_def set_same)
  next
    case False
    then have "owned xs (ext_set h (Some a) (add_reference a w))"
      using r assms(1) by (intro owned_set_new) (simp_all add: add_reference_def)
    with Some False show ?thesis by (simp add: dsd_tg_policy_restore_def)
  qed
qed

text \<open>The hosts exist, and the stores passed in are ones their caller holds.\<close>

definition is_host :: "nat \<Rightarrow> tg_world \<Rightarrow> bool" where
  "is_host h w \<longleftrightarrow> h < length (tw_hosts w)"

lemma held_store: "list_all (\<lambda>p. p \<in> set hs) (pointer_list store) \<longleftrightarrow> store = None \<or> (\<exists>a\<in>set hs. store = Some a)"
  by (cases store) auto

lemma const_ok: "owned xs w \<Longrightarrow> tg_ctx_get_const h w = Some c \<Longrightarrow> ctx_ok c"
  by (auto simp: tg_ctx_get_const_def dest: ownedD split: option.splits)

lemma selection_owned:
  assumes "is_host h w" "owned xs w"
  shows "owned xs (fst (dsd_tg_policy_set_listening_selection a b c h i g sel l w))"
proof -
  define old where "old = (case tg_ctx_get_const h w of None \<Rightarrow> [] | Some c \<Rightarrow> tp_rows c)"
  have old_ok: "\<forall>e\<in>set old. row_ok e"
    using const_ok [OF assms(2), of h] by (cases "tg_ctx_get_const h w") (auto simp: old_def ctx_ok_def)
  have "owned xs (fst (on_host c h True (-1)
      (\<lambda>c. (tg_note_mutation (c\<lparr>tp_rows := used, tp_capacity := length old + length sel\<rparr>), 0)) w))"
    if "prepare_selection old sel l old = Some used" for used
  proof (rule on_host_owned)
    show "h < length (tw_hosts w)" using assms(1) by (simp add: is_host_def)
  qed (use assms(2) prepare_ok [OF old_ok _ that] in \<open>auto simp: mutation_ok ctx_ok_def\<close>)
  with assms(2) show ?thesis
    by (simp add: dsd_tg_policy_set_listening_selection_def old_def [symmetric] Let_def split: option.split)
qed

lemma retain_owned: "is_host h w \<Longrightarrow> owned xs w \<Longrightarrow> owned xs (fst (dsd_tg_policy_retain h w))"
  by (auto simp: dsd_tg_policy_retain_def Let_def intro!: owned_hold owned_retain refs_slot split: option.split)

lemma store_create_owned: "owned xs w \<Longrightarrow> owned xs (fst (dsd_tg_policy_store_create a w))"
  by (auto simp: dsd_tg_policy_store_create_def intro!: owned_hold owned_alloc split: option.split)

lemma release_owned: "p \<in> set (tw_held w) \<Longrightarrow> owned xs w \<Longrightarrow> owned xs (dsd_tg_policy_release p w)"
  by (simp add: dsd_tg_policy_release_def owned_free owned_unhold)

lemma install_owned:
  assumes "is_host h w" "owned xs w" "list_all (\<lambda>p. p \<in> set (tw_held w)) (pointer_list store)"
  shows "owned xs (dsd_tg_policy_install h store w)"
  using assms unfolding dsd_tg_policy_install_def is_host_def held_store Let_def
  by (intro restore_owned) (auto simp: ctx_ok_def intro!: owned_on_ctx split: option.split)

lemma avoid_clear_owned: "owned xs w \<Longrightarrow> owned xs (dsd_tg_policy_session_avoid_clear h w)"
  by (auto simp: dsd_tg_policy_session_avoid_clear_def avoid_clear_ok ops_references intro!: owned_on_ctx split: option.split)

lemmas op_defs = dsd_tg_policy_add_range_entry_def dsd_tg_policy_upsert_exact_def dsd_tg_policy_set_mode_def
  dsd_tg_policy_set_mode_at_def dsd_tg_policy_set_fields_def dsd_tg_policy_remove_bounds_def dsd_tg_policy_note_active_call_def
  dsd_tg_policy_clear_active_call_def dsd_tg_policy_store_append_def

lemmas op_ok = store_append_ok store_append_refs upsert_ok set_mode_ok set_mode_at_ok set_fields_ok remove_ok note_active_ok
  clear_active_ok ops_references


end
