(* ===== verification/Group_Csv.thy ===== *)
theory Group_Csv
  imports Tg_Policy_Store
begin

text \<open>
  Group CSV files: the line and token helpers of \<open>src/core/file/csv_parse_internal.h\<close>, the group
  importer of \<open>src/core/file/dsd_import.c\<close> and the writers of \<open>talkgroup_policy.c\<close>.

  A file is the list of its bytes, a C string the bytes before its terminator. Opening files, stream
  errors, warnings and the validator's counts are left out; the \<open>strto\<close> functions are modelled on
  the texts the code passes them, which begin with neither blank nor sign. \<open>tolower\<close> is that of the C
  locale.
\<close>

section \<open>Line and token helpers\<close>

definition CSV_LINE_SIZE :: nat where "CSV_LINE_SIZE = 999"

text \<open>One physical line: the bytes kept, whether it was overlong or held a NUL, and the remaining file.\<close>

definition csv_read_line :: "nat \<Rightarrow> string \<Rightarrow> (string \<times> bool \<times> string) option" where
  "csv_read_line cap file =
     (if file = [] then None
      else
        (let line = takeWhile (\<lambda>c. c \<noteq> CHR 0x0A) file;
             after = dropWhile (\<lambda>c. c \<noteq> CHR 0x0A) file;
             n0 = min (length line) (cap + 1);
             n = (if after \<noteq> [] \<and> line \<noteq> [] \<and> last line = CHR 0x0D then n0 - 1 else n0)
         in Some (take (if n < cap then n else cap - 1) line,
                  n > cap - 1 \<or> CHR 0x00 \<in> set line, drop 1 after)))"

lemma read_line_shorter: "csv_read_line cap file = Some (line, invalid, rest) \<Longrightarrow> length rest < length file"
proof -
  assume "csv_read_line cap file = Some (line, invalid, rest)"
  then have "file \<noteq> []" "rest = drop 1 (dropWhile (\<lambda>c. c \<noteq> CHR 0x0A) file)"
    by (auto simp: csv_read_line_def Let_def split: if_splits)
  moreover have "length (dropWhile (\<lambda>c. c \<noteq> CHR 0x0A) file) \<le> length file" by (rule length_dropWhile_le)
  ultimately show ?thesis by (cases "dropWhile (\<lambda>c. c \<noteq> CHR 0x0A) file") auto
qed

definition is_ascii_space :: "char \<Rightarrow> bool" where
  "is_ascii_space c \<longleftrightarrow> c = CHR '' '' \<or> c = CHR 0x09 \<or> c = CHR 0x0A \<or> c = CHR 0x0D \<or> c = CHR 0x0C \<or> c = CHR 0x0B"

definition trim_end :: "(char \<Rightarrow> bool) \<Rightarrow> string \<Rightarrow> string" where
  "trim_end p s = rev (dropWhile p (rev s))"

definition trim_eol :: "string \<Rightarrow> string" where
  "trim_eol s = trim_end (\<lambda>c. c = CHR 0x0A \<or> c = CHR 0x0D) s"

definition csv_line_is_blank :: "string \<Rightarrow> bool" where
  "csv_line_is_blank s \<longleftrightarrow> list_all is_ascii_space s"

definition csv_data_row_ready :: "string \<Rightarrow> bool \<Rightarrow> bool" where
  "csv_data_row_ready buffer invalid \<longleftrightarrow> (if \<not> invalid \<and> csv_line_is_blank buffer then False else \<not> invalid)"

definition trim_ws :: "string \<Rightarrow> string" where
  "trim_ws s = trim_end is_ascii_space (dropWhile is_ascii_space s)"

definition is_digit :: "char \<Rightarrow> bool" where
  "is_digit c \<longleftrightarrow> c \<in> set ''0123456789''"

definition digit_value :: "char \<Rightarrow> nat" where
  "digit_value c = (of_char c :: nat) - 48"

definition decimal_value :: "string \<Rightarrow> nat" where
  "decimal_value ds = foldl (\<lambda>v c. 10 * v + digit_value c) 0 ds"

text \<open>\<open>strtoull\<close> and \<open>strtol\<close> in base 10: \<open>None\<close> without a digit or above the type's maximum.\<close>

definition strto_decimal :: "nat \<Rightarrow> string \<Rightarrow> (nat \<times> string) option" where
  "strto_decimal limit p =
     (let ds = takeWhile is_digit p in
      if ds = [] \<or> decimal_value ds > limit then None else Some (decimal_value ds, dropWhile is_digit p))"

definition csv_parse_u32_token :: "string \<Rightarrow> u32 option" where
  "csv_parse_u32_token token =
     (let p = dropWhile is_ascii_space token in
      if p = [] \<or> hd p = CHR ''+'' \<or> hd p = CHR ''-'' then None
      else case strto_decimal (2 ^ 64 - 1) p of
        None \<Rightarrow> None
      | Some (v, rest) \<Rightarrow>
          if v > 2 ^ 32 - 1 then None else if dropWhile is_ascii_space rest \<noteq> [] then None else Some (of_nat v))"

definition csv_parse_single_id :: "string \<Rightarrow> (u32 \<times> u32 \<times> bool) option" where
  "csv_parse_single_id token = map_option (\<lambda>i. (i, i, False)) (csv_parse_u32_token token)"

text \<open>The range parser gets the texts before and after the first dash.\<close>

definition csv_parse_range_id :: "string \<Rightarrow> string \<Rightarrow> (u32 \<times> u32 \<times> bool) option" where
  "csv_parse_range_id before after =
     (if CHR ''-'' \<in> set after then None
      else
        (let start_token = trim_ws before; end_token = trim_ws after in
         if start_token = [] \<or> end_token = [] then None
         else case (csv_parse_u32_token start_token, csv_parse_u32_token end_token) of
           (Some s, Some e) \<Rightarrow> if s > e then None else Some (s, e, s \<noteq> e)
         | _ \<Rightarrow> None))"

definition csv_parse_id_field :: "string \<Rightarrow> (u32 \<times> u32 \<times> bool) option" where
  "csv_parse_id_field field =
     (let token = trim_ws field in
      if token = [] then None
      else if CHR ''-'' \<notin> set token then csv_parse_single_id token
      else csv_parse_range_id (takeWhile (\<lambda>c. c \<noteq> CHR ''-'') token) (drop 1 (dropWhile (\<lambda>c. c \<noteq> CHR ''-'') token)))"

fun split_commas :: "string \<Rightarrow> string list" where
  "split_commas [] = [[]]"
| "split_commas (c # cs) =
     (if c = CHR '','' then [] # split_commas cs
      else (case split_commas cs of f # fs \<Rightarrow> (c # f) # fs | [] \<Rightarrow> [[c]]))"

definition csv_split_preserve_empty :: "string \<Rightarrow> nat \<Rightarrow> string list" where
  "csv_split_preserve_empty line max_fields = take max_fields (split_commas line)"

definition ascii_lower :: "char \<Rightarrow> char" where
  "ascii_lower c = (let n = (of_char c :: nat) in if 65 \<le> n \<and> n \<le> 90 then char_of (n + 32) else c)"

fun csv_ascii_casecmp :: "string \<Rightarrow> string \<Rightarrow> int" where
  "csv_ascii_casecmp (a # as) (b # bs) =
     (if ascii_lower a \<noteq> ascii_lower b then of_char (ascii_lower a) - of_char (ascii_lower b) else csv_ascii_casecmp as bs)"
| "csv_ascii_casecmp [] [] = 0"
| "csv_ascii_casecmp (a # as) [] = of_char a"
| "csv_ascii_casecmp [] (b # bs) = - of_char b"

section \<open>Importing rows\<close>

datatype 'a group_value = VALUE_MISSING | VALUE_OK 'a | VALUE_INVALID

definition group_parse_bool_field :: "string \<Rightarrow> bool group_value" where
  "group_parse_bool_field token =
     (let p = trim_ws token in
      if p = [] then VALUE_MISSING
      else if csv_ascii_casecmp p ''true'' = 0 \<or> csv_ascii_casecmp p ''yes'' = 0 \<or> csv_ascii_casecmp p ''on'' = 0 \<or> p = ''1''
      then VALUE_OK True
      else if csv_ascii_casecmp p ''false'' = 0 \<or> csv_ascii_casecmp p ''no'' = 0 \<or> csv_ascii_casecmp p ''off'' = 0 \<or> p = ''0''
      then VALUE_OK False
      else VALUE_INVALID)"

definition group_parse_priority_field :: "string \<Rightarrow> int group_value" where
  "group_parse_priority_field token =
     (let p = trim_ws token in
      if p = [] then VALUE_MISSING
      else if hd p = CHR ''+'' \<or> hd p = CHR ''-'' then VALUE_INVALID
      else case strto_decimal (2 ^ 63 - 1) p of
        None \<Rightarrow> VALUE_INVALID
      | Some (v, rest) \<Rightarrow> if dropWhile is_ascii_space rest \<noteq> [] \<or> v > 100 then VALUE_INVALID else VALUE_OK (int v))"

record group_header =
  gh_policy_active :: bool
  gh_prefix_len :: nat
  gh_invalid_order :: bool
  gh_basic_tags :: bool

definition no_header :: group_header where
  "no_header = \<lparr>gh_policy_active = False, gh_prefix_len = 0, gh_invalid_order = False, gh_basic_tags = False\<rparr>"

text \<open>The optional columns after priority, in the order expected; the first mismatch ends them.\<close>

fun header_prefix :: "string list \<Rightarrow> string list \<Rightarrow> group_header \<Rightarrow> group_header" where
  "header_prefix (col # cols) (e # expected) info =
     (if csv_ascii_casecmp (trim_ws col) e = 0 then header_prefix cols expected (info\<lparr>gh_prefix_len := gh_prefix_len info + 1\<rparr>)
      else info\<lparr>gh_invalid_order := True\<rparr>)"
| "header_prefix _ _ info = info"

definition group_parse_policy_header :: "string \<Rightarrow> group_header" where
  "group_parse_policy_header line =
     (let cols = csv_split_preserve_empty line 16 in
      if length cols < 4 then no_header
      else if csv_ascii_casecmp (trim_ws (cols ! 3)) ''priority'' \<noteq> 0
      then (let col = trim_ws (cols ! 3)
            in no_header\<lparr>gh_basic_tags := csv_ascii_casecmp col ''tag'' = 0 \<or> csv_ascii_casecmp col ''tags'' = 0
                           \<or> csv_ascii_casecmp col ''category'' = 0\<rparr>)
      else header_prefix (drop 4 cols) [''preempt'', ''audio'', ''record'', ''stream'', ''tags'']
             (no_header\<lparr>gh_policy_active := True, gh_prefix_len := 1\<rparr>))"

definition group_entry_init :: "u32 \<Rightarrow> u32 \<Rightarrow> bool \<Rightarrow> string \<Rightarrow> string \<Rightarrow> u32 \<Rightarrow> tg_entry \<times> bool" where
  "group_entry_init s e is_range mode_field name_field row_count =
     (let mode = take (TG_MODE_SIZE - 1) mode_field;
          blocking = (mode = ''B'' \<or> mode = ''DE'');
          on = (if blocking then 0 else 1)
      in (zero_tg_entry\<lparr>te_start := s, te_end := e, te_range := is_range, te_source := TG_SOURCE_IMPORTED, te_row := row_count,
            te_mode := mode, te_name := take (TG_NAME_SIZE - 1) name_field, te_priority := 0, te_preempt := 0,
            te_audio := on, te_record := on, te_stream := on\<rparr>, blocking))"

definition group_apply_optional_bool_field :: "string \<Rightarrow> u8 \<times> bool \<Rightarrow> u8 \<times> bool" where
  "group_apply_optional_bool_field token target =
     (case group_parse_bool_field token of VALUE_OK b \<Rightarrow> (if b then 1 else 0, True) | _ \<Rightarrow> target)"

definition group_apply_priority_field :: "group_header \<Rightarrow> string list \<Rightarrow> tg_entry \<Rightarrow> tg_entry" where
  "group_apply_priority_field h fs e =
     (if gh_prefix_len h \<ge> 1 \<and> length fs > 3
      then (case group_parse_priority_field (fs ! 3) of
              VALUE_OK p \<Rightarrow> e\<lparr>te_priority := p\<rparr> | VALUE_INVALID \<Rightarrow> e\<lparr>te_priority := 0\<rparr> | VALUE_MISSING \<Rightarrow> e)
      else e)"

definition group_apply_preempt_field :: "group_header \<Rightarrow> string list \<Rightarrow> tg_entry \<Rightarrow> tg_entry" where
  "group_apply_preempt_field h fs e =
     (if gh_prefix_len h \<ge> 2 \<and> length fs > 4
      then (case group_parse_bool_field (fs ! 4) of
              VALUE_OK b \<Rightarrow> e\<lparr>te_preempt := if b then 1 else 0\<rparr> | VALUE_INVALID \<Rightarrow> e\<lparr>te_preempt := 0\<rparr> | VALUE_MISSING \<Rightarrow> e)
      else e)"

definition group_apply_media_fields :: "group_header \<Rightarrow> string list \<Rightarrow> tg_entry \<Rightarrow> tg_entry \<times> bool \<times> bool \<times> bool" where
  "group_apply_media_fields h fs e =
     (let (a, has_a) = (if gh_prefix_len h \<ge> 3 \<and> length fs > 5 then group_apply_optional_bool_field (fs ! 5) (te_audio e, False)
                        else (te_audio e, False));
          (r, has_r) = (if gh_prefix_len h \<ge> 4 \<and> length fs > 6 then group_apply_optional_bool_field (fs ! 6) (te_record e, False)
                        else (te_record e, False));
          (s, has_s) = (if gh_prefix_len h \<ge> 5 \<and> length fs > 7 then group_apply_optional_bool_field (fs ! 7) (te_stream e, False)
                        else (te_stream e, False))
      in (e\<lparr>te_audio := a, te_record := r, te_stream := s\<rparr>, has_a, has_r, has_s))"

definition group_enforce_media_constraints :: "bool \<Rightarrow> bool \<Rightarrow> bool \<Rightarrow> bool \<Rightarrow> tg_entry \<Rightarrow> tg_entry" where
  "group_enforce_media_constraints blocking has_a has_r has_s e =
     (if blocking then e\<lparr>te_audio := 0, te_record := 0, te_stream := 0\<rparr>
      else if te_audio e = 0 \<and> (has_r \<and> te_record e \<noteq> 0 \<or> has_s \<and> te_stream e \<noteq> 0) then e\<lparr>te_record := 0, te_stream := 0\<rparr>
      else e)"

definition group_apply_policy_fields :: "group_header \<Rightarrow> string list \<Rightarrow> bool \<Rightarrow> tg_entry \<Rightarrow> tg_entry" where
  "group_apply_policy_fields h fs blocking e =
     (if \<not> gh_policy_active h then e
      else
        (let e1 = group_apply_priority_field h fs e;
             e2 = group_apply_preempt_field h fs e1;
             (e3, has_a, has_r, has_s) = group_apply_media_fields h fs e2
         in group_enforce_media_constraints blocking has_a has_r has_s e3))"

definition group_apply_tags_field :: "group_header \<Rightarrow> string list \<Rightarrow> tg_entry \<Rightarrow> tg_entry" where
  "group_apply_tags_field h fs e =
     (if gh_policy_active h \<and> gh_prefix_len h \<ge> 6 \<and> length fs > 8 then e\<lparr>te_tags := take (TG_TAGS_SIZE - 1) (trim_ws (fs ! 8))\<rparr>
      else if \<not> gh_policy_active h \<and> gh_basic_tags h \<and> length fs > 3 then e\<lparr>te_tags := take (TG_TAGS_SIZE - 1) (trim_ws (fs ! 3))\<rparr>
      else e)"

text \<open>The row a data line describes.\<close>

definition group_parse_row :: "group_header \<Rightarrow> u32 \<Rightarrow> string \<Rightarrow> tg_entry option" where
  "group_parse_row h row_count buffer =
     (let fs = csv_split_preserve_empty buffer 32 in
      if length fs < 3 then None
      else case csv_parse_id_field (fs ! 0) of
        None \<Rightarrow> None
      | Some (s, e, is_range) \<Rightarrow>
          (let (entry, blocking) = group_entry_init s e is_range (trim_ws (fs ! 1)) (fs ! 2) row_count
           in Some (group_apply_tags_field h fs (group_apply_policy_fields h fs blocking entry))))"

text \<open>Committing it to the candidate state's context, created for the first valid row.\<close>

definition group_commit_entry :: "bool \<Rightarrow> bool \<Rightarrow> u64 \<Rightarrow> tg_entry \<Rightarrow> tg_ctx option \<Rightarrow> tg_ctx option" where
  "group_commit_entry al_ctx al ident entry ctx =
     (if \<not> (if te_range entry then tg_entry_valid_range entry else tg_entry_valid_exact entry) then ctx
      else case ctx of
        Some c \<Rightarrow> Some (fst (tg_store_append al entry c))
      | None \<Rightarrow> if al_ctx then Some (fst (tg_store_append al entry (fresh_ctx ident))) else None)"

definition group_import_row :: "bool \<Rightarrow> bool \<Rightarrow> u64 \<Rightarrow> group_header \<Rightarrow> u32 \<Rightarrow> string \<Rightarrow> tg_ctx option \<Rightarrow> tg_ctx option" where
  "group_import_row al_ctx al ident h row_count buffer ctx =
     (case group_parse_row h row_count buffer of None \<Rightarrow> ctx | Some entry \<Rightarrow> group_commit_entry al_ctx al ident entry ctx)"

text \<open>
  The importer's loop. \<open>al\<close> gives the two allocations a row can make; \<open>ident\<close> is the identifier drawn for
  the context.
\<close>

function group_import_loop ::
  "(u32 \<Rightarrow> bool \<times> bool) \<Rightarrow> u64 \<Rightarrow> u32 \<Rightarrow> group_header \<Rightarrow> tg_ctx option \<Rightarrow> string \<Rightarrow> tg_ctx option" where
  "group_import_loop al ident row_count h ctx file =
     (case csv_read_line CSV_LINE_SIZE file of
        None \<Rightarrow> ctx
      | Some (line, invalid, rest) \<Rightarrow>
          (let row = row_count + 1; buffer = trim_eol line in
           if row = 1 then group_import_loop al ident row (if invalid then h else group_parse_policy_header buffer) ctx rest
           else if \<not> csv_data_row_ready buffer invalid then group_import_loop al ident row h ctx rest
           else group_import_loop al ident row h (group_import_row (fst (al row)) (snd (al row)) ident h row buffer ctx) rest))"
  by pat_completeness auto
termination
  by (relation "measure (\<lambda>(al, ident, row_count, h, ctx, file). length file)") (auto dest!: read_line_shorter)

declare group_import_loop.simps [simp del]

definition group_import_path :: "(u32 \<Rightarrow> bool \<times> bool) \<Rightarrow> u64 \<Rightarrow> string \<Rightarrow> tg_ctx option" where
  "group_import_path al ident file = group_import_loop al ident 0 no_header None file"

section \<open>Writing rows\<close>

definition digit_char :: "nat \<Rightarrow> char" where
  "digit_char d = ''0123456789'' ! d"

fun show_nat :: "nat \<Rightarrow> string" where
  "show_nat n = (if n < 10 then [digit_char n] else show_nat (n div 10) @ [digit_char (n mod 10)])"

declare show_nat.simps [simp del]

definition show_int :: "int \<Rightarrow> string" where
  "show_int i = (if i < 0 then CHR ''-'' # show_nat (nat (- i)) else show_nat (nat i))"

definition show_u32 :: "u32 \<Rightarrow> string" where
  "show_u32 w = show_nat (unat w)"

definition tg_bool_true_false :: "u8 \<Rightarrow> string" where
  "tg_bool_true_false v = (if v \<noteq> 0 then ''true'' else ''false'')"

definition tg_bool_on_off :: "u8 \<Rightarrow> string" where
  "tg_bool_on_off v = (if v \<noteq> 0 then ''on'' else ''off'')"

fun join_commas :: "string list \<Rightarrow> string" where
  "join_commas [] = []"
| "join_commas [f] = f"
| "join_commas (f # fs) = f @ CHR '','' # join_commas fs"

definition tg_write_group_row :: "tg_entry \<Rightarrow> string \<Rightarrow> bool \<Rightarrow> bool \<Rightarrow> string \<Rightarrow> string \<Rightarrow> string \<Rightarrow> string" where
  "tg_write_group_row e id_text use_policy use_extra clean_mode clean_name clean_extra =
     (if use_policy
      then join_commas [id_text, clean_mode, clean_name, show_int (te_priority e), tg_bool_true_false (te_preempt e),
             tg_bool_on_off (te_audio e), tg_bool_on_off (te_record e), tg_bool_on_off (te_stream e), clean_extra]
      else if use_extra then join_commas [id_text, clean_mode, clean_name, clean_extra]
      else join_commas [id_text, clean_mode, clean_name]) @ [CHR 0x0A]"

definition tg_header_line :: "bool \<Rightarrow> bool \<Rightarrow> string" where
  "tg_header_line use_policy any_tags =
     (if use_policy then ''id,mode,name,priority,preempt,audio,record,stream,tags''
      else if any_tags then ''id,mode,name,tags'' else ''id,mode,name'') @ [CHR 0x0A]"

definition tg_id_text :: "tg_entry \<Rightarrow> string" where
  "tg_id_text e = (if te_range e then show_u32 (te_start e) @ CHR ''-'' # show_u32 (te_end e) else show_u32 (te_start e))"

definition tg_write_group_table :: "tg_entry list \<Rightarrow> bool \<Rightarrow> bool \<Rightarrow> string" where
  "tg_write_group_table es use_policy any_tags =
     tg_header_line use_policy any_tags @
     concat (map (\<lambda>e. tg_write_group_row e (tg_id_text e) use_policy any_tags (tg_csv_sanitize_copy TG_MODE_SIZE (te_mode e))
       (tg_csv_sanitize_copy TG_NAME_SIZE (te_name e)) (tg_csv_sanitize_copy TG_TAGS_SIZE (te_tags e))) es)"

text \<open>The first line as \<open>fgets\<close> reads it, and whether it declares the policy columns.\<close>

definition fgets_line :: "nat \<Rightarrow> string \<Rightarrow> string" where
  "fgets_line cap file =
     (let line = takeWhile (\<lambda>c. c \<noteq> CHR 0x0A) file
      in take (cap - 1) (if length line < length file then line @ [CHR 0x0A] else line))"

definition c_string :: "string \<Rightarrow> string" where
  "c_string s = takeWhile (\<lambda>c. c \<noteq> CHR 0x00) s"

definition tg_header_is_policy :: "string \<Rightarrow> bool" where
  "tg_header_is_policy line =
     (let cols = csv_split_preserve_empty (take 511 line) 16
      in \<not> length cols < 4 \<and> csv_ascii_casecmp (trim_ws (cols ! 3)) ''priority'' = 0)"

text \<open>Has a header, has a policy header, is missing or empty. \<open>None\<close> is a file that does not exist.\<close>

definition tg_probe_group_file :: "string option \<Rightarrow> bool \<times> bool \<times> bool" where
  "tg_probe_group_file file =
     (case file of
        None \<Rightarrow> (False, False, True)
      | Some bytes \<Rightarrow> if bytes = [] then (False, False, True) else (True, tg_header_is_policy (c_string (fgets_line 512 bytes)), False))"

text \<open>\<open>dsd_tg_policy_write_group_file\<close>: the file after a successful replacement.\<close>

definition dsd_tg_policy_write_group_file :: "string option \<Rightarrow> tg_ctx option \<Rightarrow> string" where
  "dsd_tg_policy_write_group_file file ctx =
     (let (has_header, policy_header, missing) = tg_probe_group_file file;
          es = (case ctx of None \<Rightarrow> [] | Some c \<Rightarrow> tp_rows c)
      in tg_write_group_table es (has_header \<and> policy_header \<or> list_ex tg_entry_requires_extended_csv es)
           (list_ex (\<lambda>e. te_tags e \<noteq> []) es))"

definition tg_write_group_file_header :: "bool \<Rightarrow> bool \<Rightarrow> string \<Rightarrow> string" where
  "tg_write_group_file_header missing has_header clean_meta =
     (if missing then (if clean_meta \<noteq> [] then ''id,mode,name,metadata'' else ''id,mode,name'') @ [CHR 0x0A]
      else if \<not> has_header then ''id,mode,name'' @ [CHR 0x0A] else [])"

definition dsd_tg_policy_append_group_file_row :: "string option \<Rightarrow> tg_entry \<Rightarrow> string \<Rightarrow> string option \<times> int" where
  "dsd_tg_policy_append_group_file_row file e metadata =
     (if \<not> tg_entry_valid_exact e then (file, 1)
      else
        (let clean_mode = tg_csv_sanitize_copy 16 (te_mode e); clean_name = tg_csv_sanitize_copy 128 (te_name e);
             clean_meta = tg_csv_sanitize_copy 256 metadata;
             (has_header, policy_header, missing) = tg_probe_group_file file
         in (Some ((case file of None \<Rightarrow> [] | Some bytes \<Rightarrow> bytes) @ tg_write_group_file_header missing has_header clean_meta
               @ tg_write_group_row e (show_u32 (te_start e)) (has_header \<and> policy_header) (clean_meta \<noteq> []) clean_mode clean_name clean_meta),
             0)))"

end
