(* ===== verification/Tg_Policy_Machine.thy ===== *)
theory Tg_Policy_Machine
  imports Group_Csv
begin

text \<open>
  The talkgroup policy as a machine: any history of calls on the contexts of \<open>Tg_Policy_Store\<close>, with a
  reload reading the bytes of a group file through the importer of \<open>Group_Csv\<close>. The importer always hands
  over a well-formed context, and every history keeps the references accounted for.
\<close>

section \<open>The importer's context\<close>

lemma commit_entry_ok:
  "imported_ok (Some ctx) \<Longrightarrow> imported_ok (Some (group_commit_entry al_ctx al ident entry ctx))"
  by (simp add: imported_ok_def group_commit_entry_def store_append_ok store_append_refs fresh_ok split: option.splits)

lemma import_row_ok:
  "imported_ok (Some ctx) \<Longrightarrow> imported_ok (Some (group_import_row al_ctx al ident h row_count buffer ctx))"
  by (simp add: group_import_row_def commit_entry_ok split: option.split)

lemma import_loop_ok:
  "imported_ok (Some ctx) \<Longrightarrow> imported_ok (Some (group_import_loop al ident row_count h ctx bytes))"
proof (induction al ident row_count h ctx bytes rule: group_import_loop.induct)
  case (1 al ident row_count h ctx bytes)
  show ?case
  proof (cases "csv_read_line CSV_LINE_SIZE bytes")
    case None
    with "1.prems" show ?thesis by (subst group_import_loop.simps) simp
  next
    case (Some p)
    obtain line invalid rest where p: "p = (line, invalid, rest)" by (cases p) auto
    note IH = "1.IH" [OF Some p [symmetric] refl refl refl]
    show ?thesis
      using IH "1.prems" import_row_ok
      by (subst group_import_loop.simps) (simp add: Some p Let_def)
  qed
qed

text \<open>Whatever the bytes of the file and the allocations: a well-formed context with one reference, or none.\<close>

lemma importer_ok: "imported_ok (map_option (group_import_path al ident) file)"
proof (cases "file")
  case (Some bytes)
  have "imported_ok (Some None)" by (simp add: imported_ok_def)
  from import_loop_ok [OF this] Some show ?thesis by (simp add: group_import_path_def)
qed (simp add: imported_ok_def)

text \<open>
  A reload with its importer: the importer draws the identifier of the context it creates for the first
  valid row. The file is \<open>None\<close> when it cannot be read.
\<close>

definition reload_from_file ::
  "bool \<Rightarrow> bool \<Rightarrow> (u32 \<Rightarrow> bool \<times> bool) \<Rightarrow> string option \<Rightarrow> nat \<Rightarrow> tg_world \<Rightarrow> tg_world \<times> int" where
  "reload_from_file al_state al_ctx al file h w =
     (let (ident, w1) = tg_next_context_id w; imported = map_option (group_import_path al ident) file;
          drawn = al_state \<and> (case imported of Some (Some c) \<Rightarrow> True | _ \<Rightarrow> False)
      in dsd_tg_policy_reload_group_file al_state al_ctx imported h (if drawn then w1 else w))"

lemma reload_from_file_owned:
  assumes "is_host h w" "owned xs w" shows "owned xs (fst (reload_from_file a b al file h w))"
proof -
  obtain ident w1 where n: "tg_next_context_id w = (ident, w1)" by (cases "tg_next_context_id w")
  then have "tw_heap w1 = tw_heap w" "tw_hosts w1 = tw_hosts w" "tw_held w1 = tw_held w"
    by (auto simp: tg_next_context_id_def Let_def)
  moreover from this assms(2) have "owned xs w1" by (auto elim: owned_cong simp: refs_def)
  ultimately show ?thesis
    using reload_owned [OF _ _ importer_ok, of h w1 xs] reload_owned [OF _ _ importer_ok, of h w xs] assms
    by (simp add: reload_from_file_def n Let_def is_host_def)
qed

section \<open>Any history of calls\<close>

text \<open>
  Every call of the policy that a program can make, with the outcomes of its allocations. The hosts exist,
  and the stores passed in are ones their caller holds; nothing else is asked of a call.
\<close>

datatype tg_op =
    Add_range bool bool nat tg_entry
  | Append_exact bool bool nat tg_entry
  | Upsert bool bool nat tg_entry tg_upsert_mode
  | Avoid_add bool bool nat u32
  | Avoid_clear nat
  | Set_mode bool bool nat u32 u32 string
  | Set_mode_at nat nat string
  | Set_fields bool bool nat u32 u32 tg_entry u32
  | Remove_bounds nat u32 u32
  | Note_call bool nat tg_route tg_decision mono_s
  | Clear_call nat int
  | Select_listening bool bool bool nat u64 u32 "tg_selection list" bool
  | Copy_snapshot bool bool bool nat nat
  | Reload bool bool "u32 \<Rightarrow> bool \<times> bool" "string option" nat
  | Clear_policy bool nat
  | Retain nat
  | Store_create bool
  | Release nat
  | Restore nat "nat option"
  | Install nat "nat option"
  | Store_append bool nat tg_entry
  | Free_host nat

fun tg_step :: "tg_op \<Rightarrow> tg_world \<Rightarrow> tg_world" where
  "tg_step (Add_range a b h e) w = fst (dsd_tg_policy_add_range_entry a b h e w)"
| "tg_step (Append_exact a b h e) w = fst (dsd_tg_policy_append_exact a b h e w)"
| "tg_step (Upsert a b h e m) w = fst (dsd_tg_policy_upsert_exact a b h e m w)"
| "tg_step (Avoid_add a b h i) w = fst (dsd_tg_policy_session_avoid_add a b h i w)"
| "tg_step (Avoid_clear h) w = dsd_tg_policy_session_avoid_clear h w"
| "tg_step (Set_mode a b h s e m) w = fst (dsd_tg_policy_set_mode a b h s e m w)"
| "tg_step (Set_mode_at h i m) w = fst (dsd_tg_policy_set_mode_at h i m w)"
| "tg_step (Set_fields a b h s e v msk) w = fst (dsd_tg_policy_set_fields a b h s e v msk w)"
| "tg_step (Remove_bounds h s e) w = fst (dsd_tg_policy_remove_bounds h s e w)"
| "tg_step (Note_call a h r d now) w = fst (dsd_tg_policy_note_active_call a h r d now w)"
| "tg_step (Clear_call h slot) w = fst (dsd_tg_policy_clear_active_call h slot w)"
| "tg_step (Select_listening a b c h i g sel l) w = fst (dsd_tg_policy_set_listening_selection a b c h i g sel l w)"
| "tg_step (Copy_snapshot a b c dst src) w = fst (dsd_tg_policy_copy_snapshot a b c dst src w)"
| "tg_step (Reload a b al file h) w = fst (reload_from_file a b al file h w)"
| "tg_step (Clear_policy a h) w = fst (dsd_tg_policy_clear a h w)"
| "tg_step (Retain h) w = fst (dsd_tg_policy_retain h w)"
| "tg_step (Store_create a) w = fst (dsd_tg_policy_store_create a w)"
| "tg_step (Release p) w = dsd_tg_policy_release p w"
| "tg_step (Restore h store) w = dsd_tg_policy_restore h store w"
| "tg_step (Install h store) w = dsd_tg_policy_install h store w"
| "tg_step (Store_append al p e) w = fst (dsd_tg_policy_store_append al p e w)"
| "tg_step (Free_host h) w = ext_free_all h w"

fun tg_allowed :: "tg_op \<Rightarrow> tg_world \<Rightarrow> bool" where
  "tg_allowed (Add_range a b h e) w = is_host h w"
| "tg_allowed (Append_exact a b h e) w = is_host h w"
| "tg_allowed (Upsert a b h e m) w = is_host h w"
| "tg_allowed (Avoid_add a b h i) w = is_host h w"
| "tg_allowed (Avoid_clear h) w = is_host h w"
| "tg_allowed (Set_mode a b h s e m) w = is_host h w"
| "tg_allowed (Set_mode_at h i m) w = is_host h w"
| "tg_allowed (Set_fields a b h s e v msk) w = is_host h w"
| "tg_allowed (Remove_bounds h s e) w = is_host h w"
| "tg_allowed (Note_call a h r d now) w = is_host h w"
| "tg_allowed (Clear_call h slot) w = is_host h w"
| "tg_allowed (Select_listening a b c h i g sel l) w = is_host h w"
| "tg_allowed (Copy_snapshot a b c dst src) w = (is_host dst w \<and> is_host src w)"
| "tg_allowed (Reload a b al file h) w = is_host h w"
| "tg_allowed (Clear_policy a h) w = is_host h w"
| "tg_allowed (Retain h) w = is_host h w"
| "tg_allowed (Store_create a) w = True"
| "tg_allowed (Release p) w = (p \<in> set (tw_held w))"
| "tg_allowed (Restore h store) w = (is_host h w \<and> list_all (\<lambda>p. p \<in> set (tw_held w)) (pointer_list store))"
| "tg_allowed (Install h store) w = (is_host h w \<and> list_all (\<lambda>p. p \<in> set (tw_held w)) (pointer_list store))"
| "tg_allowed (Store_append al p e) w = (p \<in> set (tw_held w))"
| "tg_allowed (Free_host h) w = is_host h w"

definition tg_start :: "tg_world \<Rightarrow> bool" where
  "tg_start w \<longleftrightarrow> tw_heap w = [] \<and> tw_held w = [] \<and> list_all (\<lambda>p. p = None) (tw_hosts w)"

text \<open>The references a history leaves counted without a pointer: those its snapshots abandon.\<close>

fun leaked_by :: "tg_op \<Rightarrow> tg_world \<Rightarrow> nat list" where
  "leaked_by (Copy_snapshot a b c dst src) w = abandoned a b c dst src w"
| "leaked_by op w = []"

fun leaks :: "tg_op list \<Rightarrow> tg_world \<Rightarrow> nat list" where
  "leaks [] w = []"
| "leaks (op # ops) w = leaks ops (tg_step op w) @ leaked_by op w"

lemma start_owned: "tg_start w \<Longrightarrow> owned [] w"
  by (auto simp: tg_start_def owned_def cell_ok_def cell_def refs_def list_all_iff count_list_0_iff)

lemma step_owned: "owned xs w \<Longrightarrow> tg_allowed op w \<Longrightarrow> owned (leaked_by op w @ xs) (tg_step op w)"
  by (cases op) (simp_all add: is_host_def held_store append_exact_owned avoid_add_owned avoid_clear_owned selection_owned
      copy_snapshot_owned reload_from_file_owned clear_owned retain_owned store_create_owned release_owned restore_owned
      install_owned owned_free_all op_defs on_host_owned owned_on_ctx op_ok)

definition accounted :: "tg_world \<Rightarrow> bool" where
  "accounted w \<longleftrightarrow> (\<exists>xs. owned xs w)"

interpretation tg: invariant_machine tg_start tg_allowed tg_step accounted
  unfolding accounted_def by unfold_locales (blast intro: start_owned step_owned)+

lemma run_owned: "owned xs w \<Longrightarrow> tg.allowed ops w \<Longrightarrow> owned (leaks ops w @ xs) (tg.run ops w)"
proof (induction ops arbitrary: w xs)
  case (Cons op ops)
  then show ?case using Cons.IH [OF step_owned [OF Cons.prems(1)]] by simp
qed simp

end
