(* ===== verification/Tg_Policy_Props.thy ===== *)
theory Tg_Policy_Props
  imports Tg_Policy_Machine
begin

text \<open>
  What the talkgroup policy promises: contexts with every reference accounted for and rows in normal form
  after any history, session avoids that behave as a set, the most specific row, the decision of a group
  call spelled out to the last reason bit, active priorities that follow the table, and preemption that
  only displaces lower priorities and rests for its cooldown.
\<close>

section \<open>Histories\<close>

text \<open>C37: after any history of calls on the policy, from states without a context, no slot and no holder
  points to a freed context, and every live context counts exactly the slots and holders that point to it
  and the pointers snapshots abandoned: a snapshot onto a state that shares the source's context drops
  that pointer without releasing it. Without such a snapshot the count is exactly the pointers.\<close>

theorem contexts_counted_exactly:
  assumes "tg_start w" "tg.allowed ops w"
  defines "w' \<equiv> tg.run ops w"
  shows "(\<forall>h a. ext_get h w' = Some a \<longrightarrow> (\<exists>c. cell a w' = Some c)) \<and>
         (\<forall>a\<in>set (tw_held w'). \<exists>c. cell a w' = Some c) \<and>
         (\<forall>a c. cell a w' = Some c \<longrightarrow>
            tp_references c = count_list (tw_hosts w') (Some a) + count_list (tw_held w') a + count_list (leaks ops w) a
            \<and> 0 < tp_references c)"
proof -
  have o: "owned (leaks ops w) w'"
    unfolding w'_def using run_owned [OF start_owned [OF assms(1)] assms(2)] by simp
  show ?thesis
  proof (intro conjI allI ballI impI)
    show "\<exists>c. cell a w' = Some c" if "ext_get h w' = Some a" for h a by (rule slot_live [OF o that])
    show "\<exists>c. cell a w' = Some c" if "a \<in> set (tw_held w')" for a
      by (rule owned_live [OF o]) (use that in \<open>auto simp: refs_def count_list_0_iff intro: gr0I\<close>)
    show "tp_references c = count_list (tw_hosts w') (Some a) + count_list (tw_held w') a + count_list (leaks ops w) a"
      "0 < tp_references c" if "cell a w' = Some c" for a c
      using ownedD [OF o that] by (simp_all add: refs_def)
  qed
qed

text \<open>C39: after any history, reloads of arbitrary files included, every row a state can read is in normal
  form: bounds ordered as its kind says, texts terminated, priority 0 to 100, flags 0 or 1, nothing
  audible in a blocking mode and nothing recorded or streamed that is not audible.\<close>

theorem rows_stay_normal:
  assumes "tg_start w" "tg.allowed ops w" "dsd_tg_policy_entry_at h i (tg.run ops w) = Some e"
  shows "row_ok e"
proof -
  have o: "owned (leaks ops w) (tg.run ops w)" using run_owned [OF start_owned [OF assms(1)] assms(2)] by simp
  from assms(3) show ?thesis
    by (auto simp: dsd_tg_policy_entry_at_def intro!: ctx_ok_rows const_ok [OF o] split: option.splits if_splits)
qed

section \<open>Session avoids\<close>

lemma card_above: "sorted_wrt (<) (xs :: u32 list) \<Longrightarrow> card {y \<in> set xs. a \<le> y} = length xs - below a xs"
proof -
  assume s: "sorted_wrt (<) xs"
  then have d: "distinct xs" by (simp add: strict_sorted_iff)
  have "card {y \<in> set xs. a \<le> y} = length (filter (\<lambda>y. a \<le> y) xs)"
    by (metis d distinct_card distinct_filter set_filter)
  moreover have "length (filter (\<lambda>y. y < a) xs) + length (filter (\<lambda>y. a \<le> y) xs) = length xs"
    using sum_length_filter_compl [of "\<lambda>y. y < a" xs] by (simp add: not_less)
  ultimately show ?thesis by (simp add: below_def)
qed

lemma avoid_count_card:
  assumes s: "sorted_wrt (<) (tp_avoids c)"
  shows "tg_avoid_count (Some c) first final = card {y \<in> set (tp_avoids c). first \<le> y \<and> y \<le> final}"
proof (cases "first \<le> final")
  case True
  show ?thesis
  proof (cases "final = -1")
    case True
    with card_above [OF s] s show ?thesis by (simp add: tg_avoid_count_def avoid_lower_bound)
  next
    case False
    then have "1 + final \<noteq> 0" by (metis add.commute add_eq_0_iff)
    then have "unat (1 + final) = Suc (unat final)" by (rule unatSuc)
    then have "y \<le> final \<longleftrightarrow> y < final + 1" for y by (simp add: word_le_nat_alt word_less_nat_alt add.commute less_Suc_eq_le)
    then have "{y \<in> set (tp_avoids c). first \<le> y \<and> y \<le> final} = {y \<in> set (tp_avoids c). first \<le> y \<and> y < final + 1}"
      by simp
    with False True card_range_below [OF s, of first "final + 1"] s show ?thesis
      by (simp add: tg_avoid_count_def avoid_lower_bound not_less)
  qed
next
  case False
  then have "{y \<in> set (tp_avoids c). first \<le> y \<and> y \<le> final} = {}" by auto
  with False show ?thesis by (simp add: tg_avoid_count_def not_le)
qed

lemma avoid_add_insert:
  assumes "sorted_wrt (<) (tp_avoids c)" "tg_ctx_avoid_add True x c = (c', rc)"
  shows "set (tp_avoids c') = insert x (set (tp_avoids c)) \<and> sorted_wrt (<) (tp_avoids c') \<and> rc = 0"
proof (cases "x \<in> set (tp_avoids c)")
  case True
  with assms avoid_contains [OF assms(1), of x] show ?thesis by (auto simp: tg_ctx_avoid_add_def)
next
  case False
  obtain c1 where c1: "tg_avoid_reserve True c = Some c1" "tp_avoids c1 = tp_avoids c"
    by (cases "tg_avoid_reserve True c") (auto simp: tg_avoid_reserve_def Let_def split: if_splits)
  with assms False avoid_contains [OF assms(1), of x]
  have "c' = tg_avoid_insert x c1" "rc = 0" by (simp_all add: tg_ctx_avoid_add_def)
  with insert_below [OF assms(1) False] assms(1) c1(2) show ?thesis
    by (simp add: tg_avoid_insert_def avoid_lower_bound Let_def)
qed

lemma avoid_add_failed: "tg_ctx_avoid_add al x c = (c', rc) \<Longrightarrow> rc = 0 \<or> c' = c"
  by (auto simp: tg_ctx_avoid_add_def split: if_splits option.splits)

text \<open>The sorted array of session avoids is a set: membership by binary search, the count of a range,
  addition and clearing are those of the set of identifiers, and an addition that fails changes nothing.\<close>

theorem avoids_are_a_set:
  assumes "ctx_ok c"
  shows "(tg_avoid_contains (Some c) x \<longleftrightarrow> x \<in> set (tp_avoids c)) \<and>
    tg_avoid_count (Some c) first final = card {y \<in> set (tp_avoids c). first \<le> y \<and> y \<le> final} \<and>
    (case tg_ctx_avoid_add True x c of (c', rc) \<Rightarrow>
       set (tp_avoids c') = insert x (set (tp_avoids c)) \<and> sorted_wrt (<) (tp_avoids c') \<and> rc = 0) \<and>
    (case tg_ctx_avoid_add False x c of (c', rc) \<Rightarrow> rc = 0 \<or> c' = c) \<and>
    set (tp_avoids (tg_ctx_avoid_clear c)) = {}"
proof -
  have s: "sorted_wrt (<) (tp_avoids c)" using assms by (simp add: ctx_ok_def)
  show ?thesis
    using avoid_contains [OF s, of x] avoid_count_card [OF s] avoid_add_insert [OF s] avoid_add_failed
    by (simp add: tg_ctx_avoid_clear_def split: prod.split)
qed

section \<open>Lookups\<close>

definition in_range_row :: "u32 \<Rightarrow> tg_entry \<Rightarrow> bool" where
  "in_range_row ident e \<longleftrightarrow> te_range e \<and> te_start e \<le> ident \<and> ident \<le> te_end e"

text \<open>\<open>best\<close> is the narrowest range row over \<open>ident\<close> in \<open>xs\<close>, the last one on equal spans.\<close>

definition narrowest :: "u32 \<Rightarrow> tg_entry list \<Rightarrow> nat \<Rightarrow> bool" where
  "narrowest ident xs j \<longleftrightarrow> j < length xs \<and> in_range_row ident (xs ! j) \<and>
     (\<forall>k<length xs. in_range_row ident (xs ! k) \<longrightarrow> tg_span (xs ! j) < tg_span (xs ! k) \<or> tg_span (xs ! j) = tg_span (xs ! k) \<and> k \<le> j)"

definition best_of :: "u32 \<Rightarrow> tg_entry list \<Rightarrow> (nat \<times> u64) option \<Rightarrow> bool" where
  "best_of ident xs best \<longleftrightarrow>
     (case best of None \<Rightarrow> \<forall>e\<in>set xs. \<not> in_range_row ident e | Some (j, w) \<Rightarrow> narrowest ident xs j \<and> w = tg_span (xs ! j))"

lemma narrowest_snoc_out: "\<not> in_range_row ident e \<Longrightarrow> narrowest ident xs j \<Longrightarrow> narrowest ident (xs @ [e]) j"
  by (auto simp: narrowest_def nth_append less_Suc_eq)

lemma narrowest_snoc_keep:
  "narrowest ident xs j \<Longrightarrow> tg_span (xs ! j) < tg_span e \<Longrightarrow> narrowest ident (xs @ [e]) j"
  by (auto simp: narrowest_def nth_append less_Suc_eq)

lemma narrowest_snoc_new:
  assumes "in_range_row ident e" "best_of ident xs best" "\<And>j w. best = Some (j, w) \<Longrightarrow> tg_span e \<le> w"
  shows "narrowest ident (xs @ [e]) (length xs)"
proof -
  have "tg_span e \<le> tg_span (xs ! k)" if "k < length xs" "in_range_row ident (xs ! k)" for k
    using assms(2,3) that by (cases best) (force simp: best_of_def narrowest_def)+
  with assms(1) show ?thesis by (force simp: narrowest_def nth_append less_Suc_eq)
qed

lemma best_range_step:
  assumes "best_of ident xs best"
  shows "best_of ident (xs @ [e])
    (if \<not> te_range e then best
     else if ident < te_start e \<or> ident > te_end e then best
     else (case best of
             None \<Rightarrow> Some (length xs, tg_span e)
           | Some (j, width) \<Rightarrow>
               if tg_span e < width \<or> (tg_span e = width \<and> length xs > j) then Some (length xs, tg_span e) else best))"
proof (cases "in_range_row ident e")
  case False
  moreover from this have "\<not> te_range e \<or> ident < te_start e \<or> ident > te_end e" by (auto simp: in_range_row_def)
  ultimately show ?thesis using assms
    by (auto simp: best_of_def nth_append narrowest_snoc_out narrowest_def [of ident xs] split: option.split)
next
  case True
  then have r: "te_range e" "\<not> (ident < te_start e \<or> ident > te_end e)" by (auto simp: in_range_row_def)
  show ?thesis
  proof (cases best)
    case None
    with True narrowest_snoc_new [OF True assms] r show ?thesis by (simp add: best_of_def)
  next
    case (Some p)
    then obtain j w where b: "best = Some (j, w)" by (cases p) auto
    then have n: "narrowest ident xs j" "w = tg_span (xs ! j)" "j < length xs" using assms by (auto simp: best_of_def narrowest_def)
    show ?thesis
    proof (cases "tg_span e \<le> w")
      case True
      with b n narrowest_snoc_new [OF \<open>in_range_row ident e\<close> assms] r show ?thesis
        by (auto simp: best_of_def nth_append)
    next
      case False
      with b n narrowest_snoc_keep [OF n(1), of e] r show ?thesis by (auto simp: best_of_def nth_append not_le)
    qed
  qed
qed

lemma best_range_loop: "best_of ident xs best \<Longrightarrow> best_of ident (xs @ es) (tg_best_range_loop ident (length xs) es best)"
proof (induction es arbitrary: xs best)
  case (Cons e es)
  from Cons.IH [OF best_range_step [OF Cons.prems, of e]] show ?case by simp
qed simp

lemma best_range: "best_of ident (tp_rows c) (tg_best_range_loop ident 0 (tp_rows c) None)"
  using best_range_loop [of ident "[]" None "tp_rows c"] by (simp add: best_of_def)

text \<open>C17: a lookup returns the most specific row: the first exact row of the identifier; without one, the
  range row over it with the smallest span, the last such row on equal spans; without one, no match.\<close>

theorem lookup_is_most_specific:
  "(case tl_match (tg_lookup_id (Some c) ident) of
      TG_MATCH_EXACT \<Rightarrow> \<exists>i<length (tp_rows c). tl_entry (tg_lookup_id (Some c) ident) = tp_rows c ! i
                          \<and> tg_exact_hit ident (tp_rows c ! i) \<and> (\<forall>j<i. \<not> tg_exact_hit ident (tp_rows c ! j))
    | TG_MATCH_RANGE \<Rightarrow> \<not> (\<exists>e\<in>set (tp_rows c). tg_exact_hit ident e)
                          \<and> (\<exists>i. narrowest ident (tp_rows c) i \<and> tl_entry (tg_lookup_id (Some c) ident) = tp_rows c ! i)
    | TG_MATCH_NONE \<Rightarrow> \<not> (\<exists>e\<in>set (tp_rows c). tg_exact_hit ident e \<or> in_range_row ident e))"
proof (cases "tg_find_exact_idx_first c ident")
  case (Some i)
  then show ?thesis
    by (auto simp: tg_lookup_id_def tg_lookup_exact_in_ctx_def tg_find_exact_idx_first_def dest!: find_index_SomeD)
next
  case None
  then have n: "\<not> (\<exists>e\<in>set (tp_rows c). tg_exact_hit ident e)" by (simp add: tg_find_exact_idx_first_def find_index_None_iff)
  with None best_range [of ident c] show ?thesis
    by (cases "tg_best_range_loop ident 0 (tp_rows c) None")
       (auto simp: tg_lookup_id_def tg_lookup_exact_in_ctx_def tg_find_best_range_idx_def no_lookup_def best_of_def)
qed

section \<open>The decision of a group call\<close>

text \<open>What blocks a group call, in the words of the configuration, the hold and the table.\<close>

definition group_mode_blocked :: "tg_ctx option \<Rightarrow> u32 \<Rightarrow> bool" where
  "group_mode_blocked ctx tg \<longleftrightarrow>
     (let l = tg_lookup_id ctx tg in tl_match l \<noteq> TG_MATCH_NONE \<and> tg_mode_is_blocking (te_mode (tl_entry l)))"

definition hold_blocks :: "u32 \<Rightarrow> u32 \<Rightarrow> bool" where
  "hold_blocks hold tg \<longleftrightarrow> hold \<noteq> 0 \<and> hold \<noteq> tg"

definition group_refusals ::
  "tg_opts \<Rightarrow> u32 \<Rightarrow> lockout \<Rightarrow> tg_ctx option \<Rightarrow> u32 \<Rightarrow> bool \<Rightarrow> bool \<Rightarrow> (u32 \<times> bool) list" where
  "group_refusals opts hold lk ctx tg encrypted data_call =
     [(TG_BLOCK_GROUP_DISABLED, to_group_calls opts = 0),
      (TG_BLOCK_DATA_DISABLED, data_call \<and> to_data_calls opts = 0),
      (TG_BLOCK_ENCRYPTED_DISABLED, encrypted \<and> to_enc_calls opts = 0),
      (TG_BLOCK_ALLOWLIST, to_allow_list opts = 1 \<and> tl_match (tg_lookup_id ctx tg) = TG_MATCH_NONE),
      (TG_BLOCK_ENC_LOCKOUT, \<not> data_call \<and> enc_lockout_is_blocked (to_enc_calls opts \<noteq> 0) tg True lk),
      (TG_BLOCK_SESSION_AVOID, tg_avoid_contains ctx tg),
      (TG_BLOCK_MODE, group_mode_blocked ctx tg),
      (TG_BLOCK_HOLD, hold_blocks hold tg)]"

text \<open>A row that applies and is neither mode-blocked nor held off shows what it mutes.\<close>

definition row_mutes :: "u32 \<Rightarrow> tg_ctx option \<Rightarrow> u32 \<Rightarrow> (tg_entry \<Rightarrow> bool) \<Rightarrow> bool" where
  "row_mutes hold ctx tg muted \<longleftrightarrow>
     (let l = tg_lookup_id ctx tg
      in tl_match l \<noteq> TG_MATCH_NONE \<and> \<not> group_mode_blocked ctx tg \<and> \<not> hold_blocks hold tg \<and> muted (tl_entry l))"

definition group_mutes :: "u32 \<Rightarrow> tg_ctx option \<Rightarrow> u32 \<Rightarrow> (u32 \<times> bool) list" where
  "group_mutes hold ctx tg =
     [(TG_BLOCK_AUDIO, row_mutes hold ctx tg (\<lambda>e. te_audio e = 0)),
      (TG_BLOCK_RECORD, row_mutes hold ctx tg (\<lambda>e. te_audio e \<noteq> 0 \<and> te_record e = 0)),
      (TG_BLOCK_STREAM, row_mutes hold ctx tg (\<lambda>e. te_audio e \<noteq> 0 \<and> te_stream e = 0))]"

text \<open>The word of exactly the reasons that hold.\<close>

definition reasons_word :: "(u32 \<times> bool) list \<Rightarrow> u32" where
  "reasons_word rs = foldl (OR) 0 (map fst (filter snd rs))"

definition silenced :: "u32 \<Rightarrow> tg_ctx option \<Rightarrow> u32 \<Rightarrow> bool" where
  "silenced hold ctx tg \<longleftrightarrow> tg_avoid_contains ctx tg \<or> group_mode_blocked ctx tg \<or> hold_blocks hold tg"

definition entry_allows :: "(tg_entry \<Rightarrow> u8) \<Rightarrow> tg_ctx option \<Rightarrow> u32 \<Rightarrow> bool" where
  "entry_allows flag ctx tg \<longleftrightarrow>
     (let l = tg_lookup_id ctx tg in tl_match l = TG_MATCH_NONE \<or> te_audio (tl_entry l) \<noteq> 0 \<and> flag (tl_entry l) \<noteq> 0)"

lemmas block_bits = TG_BLOCK_GROUP_DISABLED_def TG_BLOCK_PRIVATE_DISABLED_def TG_BLOCK_DATA_DISABLED_def
  TG_BLOCK_ENCRYPTED_DISABLED_def TG_BLOCK_ALLOWLIST_def TG_BLOCK_MODE_def TG_BLOCK_HOLD_def TG_BLOCK_AUDIO_def
  TG_BLOCK_RECORD_def TG_BLOCK_STREAM_def TG_BLOCK_ENC_LOCKOUT_def TG_BLOCK_SESSION_AVOID_def

lemma block_tune_parts [simp]:
  "td_tune (tg_block_tune b r d) \<longleftrightarrow> td_tune d \<and> \<not> b"
  "td_audio (tg_block_tune b r d) = td_audio d" "td_record (tg_block_tune b r d) = td_record d"
  "td_stream (tg_block_tune b r d) = td_stream d" "td_match (tg_block_tune b r d) = td_match d"
  "td_priority (tg_block_tune b r d) = td_priority d" "td_preempt (tg_block_tune b r d) = td_preempt d"
  "td_reasons (tg_block_tune b r d) = td_reasons d OR (if b then r else 0)"
  by (simp_all add: tg_block_tune_def)

lemma block_media_parts [simp]:
  "\<not> td_tune (tg_block_tune_and_media r d)" "\<not> td_audio (tg_block_tune_and_media r d)"
  "\<not> td_record (tg_block_tune_and_media r d)" "\<not> td_stream (tg_block_tune_and_media r d)"
  "td_match (tg_block_tune_and_media r d) = td_match d" "td_priority (tg_block_tune_and_media r d) = td_priority d"
  "td_preempt (tg_block_tune_and_media r d) = td_preempt d"
  "td_reasons (tg_block_tune_and_media r d) = td_reasons d OR r"
  by (simp_all add: tg_block_tune_and_media_def)

lemma explicit_media_parts [simp]:
  "td_tune (tg_apply_explicit_media_blocks a r s d) = td_tune d"
  "td_audio (tg_apply_explicit_media_blocks a r s d) \<longleftrightarrow> td_audio d \<and> \<not> a"
  "td_record (tg_apply_explicit_media_blocks a r s d) \<longleftrightarrow> td_record d \<and> \<not> a \<and> \<not> r"
  "td_stream (tg_apply_explicit_media_blocks a r s d) \<longleftrightarrow> td_stream d \<and> \<not> a \<and> \<not> s"
  "td_priority (tg_apply_explicit_media_blocks a r s d) = td_priority d"
  "td_preempt (tg_apply_explicit_media_blocks a r s d) = td_preempt d"
  "td_reasons (tg_apply_explicit_media_blocks a r s d) =
     td_reasons d OR (if a then TG_BLOCK_AUDIO else (if r then TG_BLOCK_RECORD else 0) OR (if s then TG_BLOCK_STREAM else 0))"
  by (simp_all add: tg_apply_explicit_media_blocks_def Let_def or.assoc)

lemma or_and_zero: "((x :: u32) OR y) AND m = 0 \<longleftrightarrow> x AND m = 0 \<and> y AND m = 0"
  by (simp only: bit.conj_disj_distrib2 or_eq_0_iff)

lemma reasons_and:
  fixes m w :: u32
  shows "foldl (\<lambda>w (r, b). w OR (if b then r else 0)) w rs AND m = 0 \<longleftrightarrow>
   w AND m = 0 \<and> list_all (\<lambda>(r, b). b \<longrightarrow> r AND m = 0) rs"
proof (induction rs arbitrary: w)
  case (Cons p rs)
  show ?case by (cases p) (simp add: Cons.IH or_and_zero)
qed simp

lemma group_parts:
  fixes opts hold lk ctx tg src encrypted data_call
  defines "d \<equiv> tg_evaluate_group_call opts hold lk ctx tg src encrypted data_call"
  defines "l \<equiv> tg_lookup_id ctx tg"
  defines "known \<equiv> tl_match l \<noteq> TG_MATCH_NONE"
  defines "e \<equiv> tl_entry l"
  defines "media \<equiv> known \<and> \<not> group_mode_blocked ctx tg \<and> \<not> hold_blocks hold tg"
  shows "td_tune d \<longleftrightarrow> list_all (\<lambda>(r, b). \<not> b) (group_refusals opts hold lk ctx tg encrypted data_call)"
    and "td_audio d \<longleftrightarrow> \<not> silenced hold ctx tg \<and> entry_allows te_audio ctx tg"
    and "td_record d \<longleftrightarrow> \<not> silenced hold ctx tg \<and> entry_allows te_record ctx tg"
    and "td_stream d \<longleftrightarrow> \<not> silenced hold ctx tg \<and> entry_allows te_stream ctx tg"
    and "td_priority d = (if known then te_priority e else 0)"
    and "td_preempt d \<longleftrightarrow> known \<and> te_preempt e \<noteq> 0"
    and "td_reasons d = foldl (\<lambda>w (r, b). w OR (if b then r else 0)) 0 (group_refusals opts hold lk ctx tg encrypted data_call)
           OR (if \<not> media then 0 else if te_audio e = 0 then TG_BLOCK_AUDIO
               else (if te_record e = 0 then TG_BLOCK_RECORD else 0) OR (if te_stream e = 0 then TG_BLOCK_STREAM else 0))"
  unfolding d_def l_def known_def e_def media_def
  by (simp_all add: tg_evaluate_group_call_def tg_group_apply_lookup_def tg_set_hold_state_def tg_init_decision_def
      tg_apply_group_tune_blocks_def tg_apply_enc_lockout_block_def tg_decision_apply_entry_def Let_def
      group_refusals_def silenced_def entry_allows_def group_mode_blocked_def hold_blocks_def split: if_split) auto

lemma reasons_word_fold: "foldl (\<lambda>w (r, b). w OR (if b then r else 0)) w rs = foldl (OR) w (map fst (filter snd rs))"
  by (induction rs arbitrary: w) auto

lemma reasons_word_and: "reasons_word rs AND m = 0 \<longleftrightarrow> list_all (\<lambda>(r, b). b \<longrightarrow> r AND m = 0) rs"
  using reasons_and [of 0 rs m] by (simp add: reasons_word_def reasons_word_fold)

lemma foldl_or: "foldl (OR) (a OR b) zs = (a :: u32) OR foldl (OR) b zs"
proof (induction zs arbitrary: b)
  case (Cons z zs)
  show ?case using Cons.IH [of "b OR z"] by (simp only: foldl.simps or.assoc)
qed simp

lemma reasons_word_append: "reasons_word (xs @ ys) = reasons_word xs OR reasons_word ys"
  unfolding reasons_word_def filter_append map_append foldl_append
  using foldl_or [of "foldl (OR) 0 (map fst (filter snd xs))" 0] by simp

lemma group_mutes_word:
  "reasons_word (group_mutes hold ctx tg) =
   (let l = tg_lookup_id ctx tg; e = tl_entry l
    in if \<not> (tl_match l \<noteq> TG_MATCH_NONE \<and> \<not> group_mode_blocked ctx tg \<and> \<not> hold_blocks hold tg) then 0
       else if te_audio e = 0 then TG_BLOCK_AUDIO
       else (if te_record e = 0 then TG_BLOCK_RECORD else 0) OR (if te_stream e = 0 then TG_BLOCK_STREAM else 0))"
  by (auto simp: reasons_word_def group_mutes_def row_mutes_def Let_def)

lemma group_reasons:
  "td_reasons (tg_evaluate_group_call opts hold lk ctx tg src encrypted data_call) =
   reasons_word (group_refusals opts hold lk ctx tg encrypted data_call @ group_mutes hold ctx tg)"
  unfolding group_parts(7) reasons_word_append group_mutes_word reasons_word_fold
  by (simp only: reasons_word_def Let_def)

text \<open>C35: the decision of a group call, exactly: it is tuned when nothing refuses it; its reasons are the
  word of exactly the eight refusals and three mutes that hold, each with a bit of its own; and it is heard,
  recorded and streamed when it is neither avoided, mode-blocked nor held off and its row allows it.\<close>

theorem group_decision_exact:
  fixes opts hold lk ctx tg src encrypted data_call
  defines "d \<equiv> tg_evaluate_group_call opts hold lk ctx tg src encrypted data_call"
  defines "reasons \<equiv> group_refusals opts hold lk ctx tg encrypted data_call @ group_mutes hold ctx tg"
  shows "(td_tune d \<longleftrightarrow> (\<forall>(r, b)\<in>set (group_refusals opts hold lk ctx tg encrypted data_call). \<not> b)) \<and>
    td_reasons d = reasons_word reasons \<and>
    (\<forall>(r, b)\<in>set reasons. td_reasons d AND r \<noteq> 0 \<longleftrightarrow> b) \<and>
    (td_audio d \<longleftrightarrow> \<not> silenced hold ctx tg \<and> entry_allows te_audio ctx tg) \<and>
    (td_record d \<longleftrightarrow> \<not> silenced hold ctx tg \<and> entry_allows te_record ctx tg) \<and>
    (td_stream d \<longleftrightarrow> \<not> silenced hold ctx tg \<and> entry_allows te_stream ctx tg)"
proof (intro conjI)
  show w: "td_reasons d = reasons_word reasons" by (simp only: d_def reasons_def group_reasons)
  show "\<forall>(r, b)\<in>set reasons. td_reasons d AND r \<noteq> 0 \<longleftrightarrow> b"
    unfolding w reasons_word_and by (simp add: reasons_def group_refusals_def group_mutes_def block_bits)
qed (simp_all add: d_def group_parts(1-4) list_all_iff)

section \<open>Active priorities\<close>

definition evaluated_priority :: "tg_opts \<Rightarrow> u32 \<Rightarrow> lockout \<Rightarrow> tg_ctx \<Rightarrow> tg_call \<Rightarrow> int" where
  "evaluated_priority opts hold lk c call =
     td_priority (if tc_private call
                  then tg_evaluate_private_call opts hold lk (Some c) (tc_src call) (tc_tg call) False False
                  else tg_evaluate_group_call opts hold lk (Some c) (tc_tg call) (tc_src call) False False)"

lemma private_priority:
  "td_priority (tg_evaluate_private opts hold lk ctx src dst enc data al) =
     (case tg_choose_private_entry (tg_lookup_exact_only ctx src) (tg_lookup_exact_only ctx dst) of
        Some e \<Rightarrow> te_priority e | None \<Rightarrow> 0)"
  by (simp add: tg_evaluate_private_def tg_set_hold_state_def tg_init_decision_def tg_apply_private_tune_blocks_def
      tg_apply_enc_lockout_block_def tg_decision_apply_entry_def Let_def split: option.split)

lemma exact_only: "tg_lookup_exact_only (Some c) ident = tg_lookup_exact_in_ctx c ident"
  by (simp add: tg_lookup_exact_only_def tg_lookup_id_def no_lookup_def split: option.split)

lemma refreshed_is_evaluated: "tg_refreshed_priority c call = evaluated_priority opts hold lk c call"
  by (simp add: tg_refreshed_priority_def evaluated_priority_def tg_evaluate_private_call_def private_priority exact_only
      tg_choose_private_entry_def group_parts(5) tg_lookup_id_def no_lookup_def split: option.split)

text \<open>The calls of a context all carry the priority its table gives them.\<close>

definition calls_fresh :: "tg_ctx \<Rightarrow> bool" where
  "calls_fresh c \<longleftrightarrow> (\<forall>call\<in>set (tp_calls c). tc_valid call \<longrightarrow> tc_priority call = tg_refreshed_priority c call)"

lemma refreshed_priority_cong:
  "tp_rows c' = tp_rows c \<Longrightarrow> tc_tg a = tc_tg b \<Longrightarrow> tc_src a = tc_src b \<Longrightarrow> tc_private a = tc_private b \<Longrightarrow>
   tg_refreshed_priority c' a = tg_refreshed_priority c b"
  unfolding tg_refreshed_priority_def tg_lookup_exact_in_ctx_def tg_find_exact_idx_first_def tg_find_best_range_idx_def
  by (simp cong: option.case_cong)

lemma refresh_fresh: "calls_fresh (tg_refresh_active_priorities c)"
proof -
  have "tg_refreshed_priority (tg_refresh_active_priorities c) (call\<lparr>tc_priority := p\<rparr>) = tg_refreshed_priority c call" for call p
    by (rule refreshed_priority_cong) simp_all
  then show ?thesis by (auto simp: calls_fresh_def) (auto simp: tg_refresh_active_priorities_def split: if_splits)
qed

lemma mutation_fresh: "calls_fresh (tg_note_mutation c)"
  by (simp add: tg_note_mutation_def Let_def refresh_fresh)

text \<open>The edits of the table: each either leaves the context alone or ends in a mutation.\<close>

datatype tg_edit =
    Ed_append bool tg_entry
  | Ed_upsert bool tg_entry tg_upsert_mode
  | Ed_set_mode bool u32 u32 string
  | Ed_set_mode_at nat string
  | Ed_set_fields bool u32 u32 tg_entry u32
  | Ed_remove u32 u32
  | Ed_avoid bool u32

fun apply_edit :: "tg_edit \<Rightarrow> tg_ctx \<Rightarrow> tg_ctx \<times> int" where
  "apply_edit (Ed_append al e) c = tg_store_append al e c"
| "apply_edit (Ed_upsert al e m) c = tg_ctx_upsert_exact al e m c"
| "apply_edit (Ed_set_mode al s e m) c = tg_ctx_set_mode al s e m c"
| "apply_edit (Ed_set_mode_at i m) c = tg_ctx_set_mode_at i m c"
| "apply_edit (Ed_set_fields al s e v msk) c = tg_ctx_set_fields al s e v msk c"
| "apply_edit (Ed_remove s e) c = tg_ctx_remove_bounds s e c"
| "apply_edit (Ed_avoid al i) c = tg_ctx_avoid_add al i c"

lemma append_same_or_fresh: "fst (tg_store_append al e c) = c \<or> calls_fresh (fst (tg_store_append al e c))"
  by (auto simp: tg_store_append_def Let_def mutation_fresh split: option.split)

lemma edit_same_or_fresh: "fst (apply_edit ed c) = c \<or> calls_fresh (fst (apply_edit ed c))"
  by (cases ed) (auto simp: append_same_or_fresh tg_ctx_upsert_exact_def tg_ctx_append_exact_def tg_ctx_set_mode_def
      tg_ctx_set_mode_at_def tg_ctx_set_fields_def tg_ctx_remove_bounds_def tg_ctx_avoid_add_def tg_avoid_insert_def
      tg_set_row_def Let_def mutation_fresh split: option.split tg_upsert_mode.split)

text \<open>An edit that changes the context leaves every active call with the priority a fresh evaluation of
  that call on the edited table gives, whatever the options, the hold and the lockout ledger are.\<close>

theorem active_priorities_follow_table:
  assumes "fst (apply_edit ed c) \<noteq> c"
  shows "\<forall>call\<in>set (tp_calls (fst (apply_edit ed c))).
    tc_valid call \<longrightarrow> tc_priority call = evaluated_priority opts hold lk (fst (apply_edit ed c)) call"
  using edit_same_or_fresh [of ed c] assms by (simp add: calls_fresh_def refreshed_is_evaluated)

section \<open>Preemption\<close>

definition dwell_s :: "real option \<Rightarrow> mono_s" where "dwell_s var = tg_env_ms_default var 750 / 1000"
definition cooldown_s :: "real option \<Rightarrow> mono_s" where "cooldown_s var = tg_env_ms_default var 1000 / 1000"

text \<open>The active calls a candidate displaces: both slots', unless it needs one slot of the tuned carrier only.\<close>

definition displaces :: "tg_ctx \<Rightarrow> tg_route \<Rightarrow> nat \<Rightarrow> bool" where
  "displaces c r i \<longleftrightarrow> i < length (tp_calls c) \<and> tc_valid (tp_calls c ! i) \<and> (tr_slot r = -1 \<or> tr_retune r \<or> i = nat (tr_slot r))"

lemma collect_none: "tg_collect_loop r s i cs acc = None \<longleftrightarrow> (\<exists>c\<in>set cs. tg_call_matches_route_slot c r s)"
  by (induction cs arbitrary: i acc) (auto simp: tg_call_matches_route_slot_def)

lemma collect_some:
  "tg_collect_loop r s i cs acc = Some ds \<Longrightarrow> set ds = set acc \<union> (\<lambda>k. i + k) ` {k. k < length cs \<and> tc_valid (cs ! k)}"
proof (induction cs arbitrary: i acc)
  case (Cons c cs)
  have e: "(\<lambda>k. i + k) ` {k. k < length (c # cs) \<and> tc_valid ((c # cs) ! k)} =
      (if tc_valid c then {i} else {}) \<union> (\<lambda>k. Suc i + k) ` {k. k < length cs \<and> tc_valid (cs ! k)}" (is "?L = ?R")
  proof (rule set_eqI)
    fix x
    show "x \<in> ?L \<longleftrightarrow> x \<in> ?R"
    proof
      assume "x \<in> ?L"
      then obtain k where k: "x = i + k" "k < length (c # cs)" "tc_valid ((c # cs) ! k)" by auto
      then show "x \<in> ?R" by (cases k) auto
    next
      assume "x \<in> ?R"
      then consider "tc_valid c" "x = i" | k where "x = Suc i + k" "k < length cs" "tc_valid (cs ! k)" by (auto split: if_splits)
      then show "x \<in> ?L"
      proof cases
        case 1
        then have "x = i + 0 \<and> 0 < length (c # cs) \<and> tc_valid ((c # cs) ! 0)" by simp
        then show ?thesis by blast
      next
        case (2 k)
        then have "x = i + Suc k \<and> Suc k < length (c # cs) \<and> tc_valid ((c # cs) ! Suc k)" by simp
        then show ?thesis by blast
      qed
    qed
  qed
  show ?case
  proof (cases "tc_valid c")
    case True
    then have "tg_collect_loop r s (Suc i) cs (acc @ [i]) = Some ds" using Cons.prems by (simp split: if_splits)
    from Cons.IH [OF this] e True show ?thesis by simp
  next
    case False
    then have "tg_collect_loop r s (Suc i) cs acc = Some ds" using Cons.prems by simp
    from Cons.IH [OF this] e False show ?thesis by simp
  qed
qed simp

lemma collect_all:
  assumes "tg_collect_displaced_all_slots c r s = Some ds"
  shows "set ds = {i. i < length (tp_calls c) \<and> tc_valid (tp_calls c ! i)}"
    "\<forall>call\<in>set (tp_calls c). \<not> tg_call_matches_route_slot call r s"
proof -
  show "set ds = {i. i < length (tp_calls c) \<and> tc_valid (tp_calls c ! i)}"
    using collect_some [OF assms [unfolded tg_collect_displaced_all_slots_def]] by auto
  show "\<forall>call\<in>set (tp_calls c). \<not> tg_call_matches_route_slot call r s"
    using assms collect_none [of r s 0 "tp_calls c" "[]"] by (auto simp: tg_collect_displaced_all_slots_def)
qed

lemma complete_slot: "tg_route_is_complete r \<Longrightarrow> tr_slot r = -1 \<or> tr_slot r = 0 \<or> tr_slot r = 1"
  by (auto simp: tg_route_is_complete_def split: if_splits)

text \<open>The displaced slots, and no displaced slot already carries the candidate.\<close>

lemma collected_slots:
  assumes "length (tp_calls c) = 2" "tg_route_is_complete r" "tg_collect_displaced_slots c r = Some ds"
  shows "set ds = {i. displaces c r i}" "i \<in> set ds \<Longrightarrow> \<not> tg_call_matches_route (tp_calls c ! i) r"
proof -
  have s: "tr_slot r = -1 \<or> nat (tr_slot r) < 2" using complete_slot [OF assms(2)] by auto
  have "set ds = {i. displaces c r i} \<and> (\<forall>i\<in>set ds. \<not> tg_call_matches_route (tp_calls c ! i) r)"
  proof (cases "tr_slot r = -1 \<or> tr_retune r")
    case True
    then have "tg_collect_displaced_all_slots c r (tr_slot r) = Some ds"
      using assms(3) by (auto simp: tg_collect_displaced_slots_def split: if_splits)
    from collect_all [OF this] True show ?thesis
      by (auto simp: displaces_def tg_call_matches_route_def tg_call_matches_route_slot_def)
  next
    case False
    with s assms(1,3) show ?thesis
      by (auto simp: tg_collect_displaced_slots_def displaces_def tg_call_matches_route_def tg_call_matches_route_slot_def Let_def
          split: if_splits)
  qed
  then show "set ds = {i. displaces c r i}" "i \<in> set ds \<Longrightarrow> \<not> tg_call_matches_route (tp_calls c ! i) r" by auto
qed

lemma should_preempt_form:
  assumes "length (tp_calls c) = 2"
  shows "tg_should_preempt dv cv (Some c) r d now \<longleftrightarrow>
    td_tune d \<and> td_preempt d \<and> tg_route_is_complete r \<and> \<not> now - tp_last_preempt c < cooldown_s cv \<and>
    (\<exists>ds. tg_collect_displaced_slots c r = Some ds \<and> ds \<noteq> [] \<and>
       tg_preempt_passes_displaced_checks c ds d now (dwell_s dv) (cooldown_s cv))"
  by (auto simp: tg_should_preempt_def dwell_s_def cooldown_s_def Let_def split: option.split)

text \<open>C11: a call preempts only when it is tuned by a preempting row and would displace at least one active
  call, and each call it displaces has a strictly lower priority, has run for the minimum dwell and has
  itself preempted no more recently than the cooldown; the same holds of the last preemption anywhere.\<close>

theorem preemption_needs_lower_priority:
  assumes "ctx_ok c" "tg_should_preempt dv cv (Some c) r d now"
  shows "td_tune d \<and> td_preempt d \<and> (\<exists>i. displaces c r i) \<and> now - tp_last_preempt c \<ge> cooldown_s cv \<and>
    (\<forall>i. displaces c r i \<longrightarrow>
       tc_priority (tp_calls c ! i) < td_priority d \<and> now - tc_start (tp_calls c ! i) \<ge> dwell_s dv \<and>
       now - tc_last_preempt (tp_calls c ! i) \<ge> cooldown_s cv)"
proof -
  have two: "length (tp_calls c) = 2" using assms(1) by (simp add: ctx_ok_def)
  from assms(2) obtain ds where ds: "tg_collect_displaced_slots c r = Some ds" "ds \<noteq> []"
      "tg_preempt_passes_displaced_checks c ds d now (dwell_s dv) (cooldown_s cv)" "tg_route_is_complete r"
      "td_tune d" "td_preempt d" "\<not> now - tp_last_preempt c < cooldown_s cv"
    unfolding should_preempt_form [OF two] by blast
  have m: "displaces c r i \<longleftrightarrow> i \<in> set ds" for i using collected_slots(1) [OF two ds(4,1)] by blast
  have v: "tc_valid (tp_calls c ! i)" if "displaces c r i" for i using that by (simp add: displaces_def)
  from ds(2) obtain i where "displaces c r i" using m by (cases ds) auto
  with ds(3,5-7) m v show ?thesis
    by (auto simp: tg_preempt_passes_displaced_checks_def list_all_iff Let_def not_less not_le)
qed

lemma note_slot_last:
  "tp_last_preempt (tg_note_active_slot i r d now c) =
     (if tg_should_note_preempt (tp_calls c ! i) r d then now else tp_last_preempt c)"
  by (simp add: tg_note_active_slot_def Let_def)

lemma note_slot_other: "i \<noteq> j \<Longrightarrow> tp_calls (tg_note_active_slot i r d now c) ! j = tp_calls c ! j"
  by (simp add: tg_note_active_slot_def Let_def)

text \<open>Active calls have the priorities the table and the cleared slots give them.\<close>

definition calls_prioritised :: "tg_ctx \<Rightarrow> bool" where
  "calls_prioritised c \<longleftrightarrow> (\<forall>call\<in>set (tp_calls c). 0 \<le> tc_priority call \<and> (\<not> tc_valid call \<longrightarrow> tc_priority call = 0))"

text \<open>The calls of one context between table loads: noted, cleared, and repriced by edits of the table.\<close>

datatype tg_call_op = Cop_note tg_route tg_decision mono_s | Cop_clear int | Cop_edit tg_edit

fun call_op_step :: "tg_call_op \<Rightarrow> tg_ctx \<Rightarrow> tg_ctx" where
  "call_op_step (Cop_note r d t) c = fst (tg_ctx_note_active_call r d t c)"
| "call_op_step (Cop_clear slot) c = fst (tg_ctx_clear_active_call slot c)"
| "call_op_step (Cop_edit ed) c = fst (apply_edit ed c)"

text \<open>Field edits are refused before they reach the table when \<open>tg_set_fields_refused\<close> says so.\<close>

fun edit_checked :: "tg_edit \<Rightarrow> bool" where
  "edit_checked (Ed_set_fields al s e v msk) \<longleftrightarrow> \<not> tg_set_fields_refused s e v msk"
| "edit_checked _ \<longleftrightarrow> True"

text \<open>Only evaluated decisions are noted; their priority is that of a row or 0 (\<open>evaluated_decision_ranked\<close>).\<close>

fun call_op_ok :: "tg_call_op \<Rightarrow> tg_ctx \<Rightarrow> bool" where
  "call_op_ok (Cop_note r d t) c \<longleftrightarrow> 0 \<le> td_priority d"
| "call_op_ok (Cop_edit ed) c \<longleftrightarrow> edit_checked ed"
| "call_op_ok (Cop_clear slot) c \<longleftrightarrow> True"

text \<open>A context without calls: fresh, imported or installed.\<close>

definition idle_ctx :: "tg_ctx \<Rightarrow> bool" where
  "idle_ctx c \<longleftrightarrow> ctx_ok c \<and> tp_calls c = replicate 2 zero_call"

definition calls_inv :: "tg_ctx \<Rightarrow> bool" where
  "calls_inv c \<longleftrightarrow> ctx_ok c \<and> calls_prioritised c"

lemma row_priority: "ctx_ok c \<Longrightarrow> i < length (tp_rows c) \<Longrightarrow> 0 \<le> te_priority (tp_rows c ! i)"
  using ctx_ok_rows [of c] by (auto simp: row_ok_def)

lemma exact_row_priority: "ctx_ok c \<Longrightarrow> tg_lookup_exact_in_ctx c ident = Some e \<Longrightarrow> 0 \<le> te_priority e"
  by (auto simp: tg_lookup_exact_in_ctx_def tg_find_exact_idx_first_def row_priority dest!: find_index_SomeD split: option.splits)

lemma range_row_priority: "ctx_ok c \<Longrightarrow> tg_find_best_range_idx c ident = Some i \<Longrightarrow> 0 \<le> te_priority (tp_rows c ! i)"
  using best_range [of ident c]
  by (cases "tg_best_range_loop ident 0 (tp_rows c) None")
    (auto simp: tg_find_best_range_idx_def best_of_def narrowest_def row_priority)

lemma refreshed_nonneg: "ctx_ok c \<Longrightarrow> 0 \<le> tg_refreshed_priority c call"
  by (auto simp: tg_refreshed_priority_def exact_row_priority range_row_priority split: option.split)

lemma evaluated_decision_ranked:
  assumes "ctx_ok c"
  shows "0 \<le> td_priority (tg_evaluate_group_call opts hold lk (Some c) tg src enc data)"
    "0 \<le> td_priority (tg_evaluate_private opts hold lk (Some c) src dst enc data al)"
proof -
  have "td_priority (tg_evaluate_group_call opts hold lk (Some c) tg src enc data) = tg_refreshed_priority c (zero_call\<lparr>tc_tg := tg\<rparr>)"
    by (simp add: group_parts(5) tg_refreshed_priority_def zero_call_def tg_lookup_id_def no_lookup_def split: option.split)
  then show "0 \<le> td_priority (tg_evaluate_group_call opts hold lk (Some c) tg src enc data)"
    by (simp add: refreshed_nonneg [OF assms])
  show "0 \<le> td_priority (tg_evaluate_private opts hold lk (Some c) src dst enc data al)"
    by (auto simp: private_priority exact_only tg_choose_private_entry_def exact_row_priority [OF assms] split: option.split)
qed

lemma mutation_prioritised:
  assumes "ctx_ok c" "calls_prioritised c" shows "calls_prioritised (tg_note_mutation c)"
proof -
  have "ctx_ok (c\<lparr>tp_generation := g\<rparr>)" for g using assms(1) by (simp add: ctx_ok_def)
  with assms(2) show ?thesis
    by (auto simp: calls_prioritised_def tg_note_mutation_def tg_refresh_active_priorities_def Let_def refreshed_nonneg)
qed

text \<open>An edit leaves the calls and the cooldown to the repricing that ends it.\<close>

definition repriced :: "tg_ctx \<Rightarrow> tg_ctx \<Rightarrow> bool" where
  "repriced c c' \<longleftrightarrow> c' = c \<or> (\<exists>b. c' = tg_note_mutation b \<and> tp_calls b = tp_calls c \<and> tp_last_preempt b = tp_last_preempt c)"

lemma repriced_self [simp]: "repriced c c"
  by (simp add: repriced_def)

lemma repriced_mutation: "tp_calls b = tp_calls c \<Longrightarrow> tp_last_preempt b = tp_last_preempt c \<Longrightarrow> repriced c (tg_note_mutation b)"
  by (auto simp: repriced_def)

lemma append_repriced [simp]: "repriced c (fst (tg_store_append al e c))"
  by (auto simp: tg_store_append_def tg_table_reserve_def Let_def intro: repriced_mutation)

lemma set_row_repriced [simp]: "repriced c (tg_set_row i e c)"
  by (auto simp: tg_set_row_def intro: repriced_mutation)

lemma avoid_repriced [simp]: "repriced c (fst (tg_ctx_avoid_add al x c))"
  by (auto simp: tg_ctx_avoid_add_def tg_avoid_reserve_def tg_avoid_insert_def Let_def intro: repriced_mutation)

lemma remove_repriced [simp]: "repriced c (fst (tg_ctx_remove_bounds s e c))"
  by (auto simp: tg_ctx_remove_bounds_def intro: repriced_mutation split: option.split)

lemma upsert_repriced [simp]: "repriced c (fst (tg_ctx_upsert_exact al e m c))"
  unfolding tg_ctx_upsert_exact_def tg_ctx_append_exact_def Let_def
  by (cases m) (simp_all split: option.split)

lemma mode_repriced [simp]: "repriced c (fst (tg_ctx_set_mode al s e m c))" "repriced c (fst (tg_ctx_set_mode_at i m c))"
  unfolding tg_ctx_set_mode_def tg_ctx_set_mode_at_def Let_def by (simp_all split: option.split)

lemma fields_repriced [simp]: "repriced c (fst (tg_ctx_set_fields al s e v msk c))"
  unfolding tg_ctx_set_fields_def Let_def by (simp split: option.split)

lemma edit_repriced: "repriced c (fst (apply_edit ed c))"
  by (cases ed) simp_all

lemma repriced_inv:
  assumes "calls_inv c" "repriced c c'" "ctx_ok c'"
  shows "calls_inv c' \<and> tp_last_preempt c' = tp_last_preempt c"
proof (cases "c' = c")
  case False
  with assms(2) obtain b where b: "c' = tg_note_mutation b" "tp_calls b = tp_calls c" "tp_last_preempt b = tp_last_preempt c"
    by (auto simp: repriced_def)
  have "ctx_ok b" using assms(3) b(1) by (simp add: mutation_ok)
  moreover have "calls_prioritised b" using assms(1) b(2) by (simp add: calls_inv_def calls_prioritised_def)
  ultimately have "calls_prioritised c'" unfolding b(1) by (rule mutation_prioritised)
  with assms(3) b show ?thesis by (simp add: calls_inv_def)
qed (use assms(1) in simp)

lemma edit_ok:
  assumes "ctx_ok c" "edit_checked ed" shows "ctx_ok (fst (apply_edit ed c))"
proof (cases ed)
  case (Ed_set_fields al s e v msk)
  then have "\<not> tg_set_fields_refused s e v msk" using assms(2) by (simp only: edit_checked.simps not_False_eq_True)
  from set_fields_ok [OF assms(1) this] show ?thesis by (simp only: Ed_set_fields apply_edit.simps)
qed (simp_all add: assms(1) store_append_ok upsert_ok set_mode_ok set_mode_at_ok remove_ok avoid_add_ok)

lemma note_slot_prioritised:
  "calls_prioritised c \<Longrightarrow> 0 \<le> td_priority d \<Longrightarrow> calls_prioritised (tg_note_active_slot i r d now c)"
  by (auto simp: calls_prioritised_def tg_note_active_slot_def tg_call_assign_from_route_def Let_def dest!: set_update_subset_insert [THEN subsetD])

lemma clear_prioritised: "calls_prioritised c \<Longrightarrow> calls_prioritised (fst (tg_ctx_clear_active_call slot c))"
  by (auto simp: calls_prioritised_def tg_ctx_clear_active_call_def zero_call_def dest!: set_update_subset_insert [THEN subsetD])

lemma call_op_inv:
  assumes "calls_inv c" "call_op_ok op c" shows "calls_inv (call_op_step op c)"
proof (cases op)
  case (Cop_note r d t)
  with assms note_active_ok [of c r d t] show ?thesis
    by (simp add: calls_inv_def) (simp add: tg_ctx_note_active_call_def note_slot_prioritised)
next
  case (Cop_clear slot)
  with assms show ?thesis by (simp add: calls_inv_def clear_active_ok clear_prioritised)
next
  case (Cop_edit ed)
  with assms have "ctx_ok (fst (apply_edit ed c))" by (simp add: calls_inv_def edit_ok)
  with repriced_inv [OF assms(1) edit_repriced] Cop_edit show ?thesis by simp
qed

interpretation tgc: invariant_machine idle_ctx call_op_ok call_op_step calls_inv
proof
  show "calls_inv c" if "idle_ctx c" for c
    using that by (simp add: idle_ctx_def calls_inv_def calls_prioritised_def zero_call_def)
qed (rule call_op_inv)

text \<open>After a preemption at \<open>t\<close> the global time of the last preemption never falls behind \<open>t\<close> again.\<close>

fun not_before :: "mono_s \<Rightarrow> tg_call_op \<Rightarrow> bool" where
  "not_before t (Cop_note r d t') \<longleftrightarrow> t \<le> t'"
| "not_before t _ \<longleftrightarrow> True"

lemma call_op_last:
  assumes "calls_inv c" "call_op_ok op c" "not_before t op" "t \<le> tp_last_preempt c"
  shows "t \<le> tp_last_preempt (call_op_step op c)"
proof (cases op)
  case (Cop_note r d t')
  with assms show ?thesis by (simp add: tg_ctx_note_active_call_def note_slot_last)
next
  case (Cop_clear slot)
  with assms show ?thesis by (simp add: tg_ctx_clear_active_call_def)
next
  case (Cop_edit ed)
  with assms have "ctx_ok (fst (apply_edit ed c))" by (simp add: calls_inv_def edit_ok)
  with repriced_inv [OF assms(1) edit_repriced] Cop_edit assms(4) show ?thesis by simp
qed

lemma call_ops_last:
  "calls_inv c \<Longrightarrow> tgc.allowed ops c \<Longrightarrow> list_all (not_before t) ops \<Longrightarrow> t \<le> tp_last_preempt c \<Longrightarrow>
   t \<le> tp_last_preempt (tgc.run ops c)"
  by (induction ops arbitrary: c) (auto intro: call_op_last call_op_inv)

text \<open>The calls a release clears between the decision and the note.\<close>

definition released :: "int list \<Rightarrow> tg_ctx \<Rightarrow> tg_ctx" where
  "released slots c = tgc.run (map Cop_clear slots) c"

lemma clear_calls:
  assumes "length (tp_calls c) = 2" "i < 2"
  shows "tp_calls (fst (tg_ctx_clear_active_call s c)) ! i = tp_calls c ! i \<or> tp_calls (fst (tg_ctx_clear_active_call s c)) ! i = zero_call"
proof (cases "s < 0 \<or> s > 1")
  case False
  with assms show ?thesis by (cases "nat s = i") (simp_all add: tg_ctx_clear_active_call_def)
qed (use assms in \<open>auto simp: tg_ctx_clear_active_call_def less_2_cases_iff\<close>)

lemma released_calls:
  assumes "calls_inv c" "i < 2"
  shows "calls_inv (released slots c) \<and>
    (tp_calls (released slots c) ! i = tp_calls c ! i \<or> tp_calls (released slots c) ! i = zero_call)"
  using assms
proof (induction slots arbitrary: c)
  case (Cons s slots)
  let ?c = "fst (tg_ctx_clear_active_call s c)"
  have "calls_inv ?c" using call_op_inv [of c "Cop_clear s"] Cons.prems by simp
  from Cons.IH [OF this Cons.prems(2)] clear_calls [of c i s] Cons.prems show ?case
    by (auto simp: released_def calls_inv_def ctx_ok_def)
qed (simp add: released_def)

lemma preempting_note:
  fixes slots :: "int list" and t :: mono_s
  assumes "calls_inv c" "tg_should_preempt dv cv (Some c) r d now"
  defines "noted \<equiv> call_op_step (Cop_note r d t) (released slots c)"
  shows "tp_last_preempt noted = t" "calls_inv noted"
proof -
  let ?r = "released slots c"
  have ok: "ctx_ok c" "calls_prioritised c" using assms(1) by (simp_all add: calls_inv_def)
  have two: "length (tp_calls c) = 2" using ok by (simp add: ctx_ok_def)
  have inv: "calls_inv ?r" and kept: "\<And>i. i < 2 \<Longrightarrow> tp_calls ?r ! i = tp_calls c ! i \<or> tp_calls ?r ! i = zero_call"
    using released_calls [OF assms(1)] pos2 by blast+
  from assms(2) obtain ds where ds: "tg_collect_displaced_slots c r = Some ds" "ds \<noteq> []"
      "tg_preempt_passes_displaced_checks c ds d now (dwell_s dv) (cooldown_s cv)" "tg_route_is_complete r" "td_preempt d"
    unfolding should_preempt_form [OF two] by blast
  have m: "i \<in> set ds \<longleftrightarrow> displaces c r i" for i using collected_slots(1) [OF two ds(4,1)] by blast
  have lower: "tc_priority (tp_calls c ! i) < td_priority d" if "displaces c r i" for i
  proof -
    have "i \<in> set ds" "tc_valid (tp_calls c ! i)" using that m by (simp_all add: displaces_def)
    then show ?thesis using ds(3) by (auto simp: tg_preempt_passes_displaced_checks_def list_all_iff Let_def)
  qed
  have i2: "i < 2" if "displaces c r i" for i using that two by (simp add: displaces_def)
  have prio: "0 \<le> tc_priority (tp_calls c ! i)" "\<not> tc_valid (tp_calls c ! i) \<Longrightarrow> tc_priority (tp_calls c ! i) = 0" if "i < 2" for i
    using that ok(2) two by (simp_all add: calls_prioritised_def)
  from ds(2) obtain i where i: "displaces c r i" using m by (cases ds) auto
  have pos: "0 < td_priority d" using lower [OF i] prio(1) [OF i2 [OF i]] by simp
  have free: "tg_should_note_preempt call r d" if "\<not> tc_valid call" "tc_priority call = 0" for call
    using that pos ds(5) by (simp add: tg_should_note_preempt_def tg_call_matches_route_def)
  have noted: "tg_should_note_preempt (tp_calls ?r ! j) r d" if j: "j < 2" "displaces c r j \<or> \<not> tc_valid (tp_calls c ! j)" for j
  proof -
    have "tg_should_note_preempt (tp_calls c ! j) r d"
      using j(2)
    proof
      assume dj: "displaces c r j"
      then show ?thesis using lower [OF dj] ds(5) collected_slots(2) [OF two ds(4,1)] m by (simp add: tg_should_note_preempt_def)
    qed (use free prio(2) [OF j(1)] in blast)
    moreover have "tg_should_note_preempt zero_call r d" by (rule free) (simp_all add: zero_call_def)
    ultimately show ?thesis using kept [OF j(1)] by auto
  qed
  show "calls_inv noted" unfolding noted_def by (rule call_op_inv [OF inv]) (use pos in simp)
  show "tp_last_preempt noted = t"
  proof (cases "tr_slot r = -1")
    case True
    with noted [OF i2 [OF i]] i ds(4) i2 [OF i] show ?thesis
      by (auto simp: noted_def tg_ctx_note_active_call_def note_slot_last note_slot_other less_2_cases_iff)
  next
    case False
    define s where "s = nat (tr_slot r)"
    have s: "s < 2" using complete_slot [OF ds(4)] False by (auto simp: s_def)
    have "tg_should_note_preempt (tp_calls ?r ! s) r d"
      by (rule noted [OF s]) (use s two in \<open>auto simp: displaces_def s_def\<close>)
    with False ds(4) show ?thesis by (simp add: noted_def tg_ctx_note_active_call_def note_slot_last s_def)
  qed
qed

text \<open>C14: a preemption rests the carrier. When a call is allowed to preempt, whatever calls the release then
  clears, noting the preempting call starts the cooldown; and until it is over nothing preempts, however
  calls are noted and cleared and the table is edited meanwhile. The context has any history of noted
  (evaluated) calls, clears and edits since its table was loaded; loading another table ends the cooldown.\<close>

theorem preemption_rests_for_cooldown:
  fixes slots :: "int list" and t :: mono_s
  assumes "tgc.reachable c" "tg_should_preempt dv cv (Some c) r d now"
  defines "noted \<equiv> call_op_step (Cop_note r d t) (released slots c)"
  assumes "tgc.allowed ops noted" "list_all (not_before t) ops" "later - t < cooldown_s cv"
  shows "\<not> tg_should_preempt dv' cv (Some (tgc.run ops noted)) r' d' later"
proof
  let ?c = "tgc.run ops noted"
  assume p: "tg_should_preempt dv' cv (Some ?c) r' d' later"
  note n = preempting_note [OF tgc.reachable_inv [OF assms(1)] assms(2), of t slots, folded noted_def]
  have "calls_inv ?c" by (rule tgc.run_inv [OF n(2) assms(4)])
  then have "length (tp_calls ?c) = 2" by (simp add: calls_inv_def ctx_ok_def)
  with p have "\<not> later - tp_last_preempt ?c < cooldown_s cv" by (simp add: should_preempt_form)
  moreover have "t \<le> tp_last_preempt ?c" using call_ops_last [OF n(2) assms(4,5)] n(1) by simp
  ultimately show False using assms(6) by simp
qed

section \<open>A selection is edited as a whole\<close>

lemma adjacent_equal_sorted: "sorted (xs :: u64 list) \<Longrightarrow> \<not> adjacent_equal xs \<Longrightarrow> distinct xs"
proof (induction xs rule: adjacent_equal.induct)
  case (1 a b xs)
  then have "a < b" "sorted (b # xs)" "distinct (b # xs)" by auto
  then show ?case by (auto simp: less_le_not_le dest: order_trans)
qed auto

lemma no_duplicates: "\<not> selection_has_duplicates sel \<Longrightarrow> distinct (map selection_key sel)"
  using adjacent_equal_sorted [of "sort (map selection_key sel)"] by (simp add: selection_has_duplicates_def)

definition listening_mode :: "bool \<Rightarrow> string" where
  "listening_mode l = (if l then ''A'' else ''B'')"

definition selected_row :: "tg_selection list \<Rightarrow> nat \<Rightarrow> bool" where
  "selected_row sel j \<longleftrightarrow> (\<exists>item\<in>set sel. ts_index item = int j)"

definition new_row :: "bool \<Rightarrow> tg_selection \<Rightarrow> tg_entry" where
  "new_row l item = tg_entry_apply_mode (listening_mode l) (tg_make_exact_entry (ts_start item) ''A'' [] TG_SOURCE_USER_LOCKOUT)"

lemma prepare_entry_form:
  assumes "prepare_selection_entry old item l used = Some u" "length old \<le> length used"
  shows "if ts_index item \<ge> 0
    then nat (ts_index item) < length old \<and> u = used[nat (ts_index item) := tg_entry_apply_mode (listening_mode l) (used ! nat (ts_index item))]
    else u = used @ [new_row l item]"
  using assms by (auto simp: prepare_selection_entry_def listening_mode_def new_row_def Let_def split: if_splits)

lemma prepare_form:
  assumes "prepare_selection old sel l used = Some u" "length old \<le> length used" "distinct (map selection_key sel)"
  shows "(\<forall>j<length old. u ! j = (if selected_row sel j then tg_entry_apply_mode (listening_mode l) (used ! j) else used ! j)) \<and>
    drop (length old) u = drop (length old) used @ map (new_row l) (filter (\<lambda>item. ts_index item < 0) sel) \<and>
    length old \<le> length u"
  using assms
proof (induction sel arbitrary: used)
  case Nil
  then show ?case by (simp add: selected_row_def)
next
  case (Cons item items)
  then obtain v where v: "prepare_selection_entry old item l used = Some v" "prepare_selection old items l v = Some u"
    by (auto split: option.splits)
  note f = prepare_entry_form [OF v(1) Cons.prems(2)]
  then have len: "length old \<le> length v" using Cons.prems(2) by (auto split: if_splits)
  note IH = Cons.IH [OF v(2) len]
  show ?case
  proof (cases "ts_index item \<ge> 0")
    case True
    define i where "i = nat (ts_index item)"
    have i: "ts_index item = int i" "i < length old" "v = used[i := tg_entry_apply_mode (listening_mode l) (used ! i)]"
      using f True by (auto simp: i_def)
    have key: "ts_index x \<noteq> int i" if "x \<in> set items" for x
    proof
      assume "ts_index x = int i"
      then have "selection_key x = selection_key item" using i(1) by (simp add: selection_key_def)
      with Cons.prems(3) that show False by (metis distinct.simps(2) image_eqI list.set_map list.simps(9))
    qed
    then have "\<not> selected_row items i" by (auto simp: selected_row_def)
    moreover have "selected_row (item # items) j \<longleftrightarrow> j = i \<or> selected_row items j" for j by (auto simp: selected_row_def i(1))
    ultimately show ?thesis using IH Cons.prems i by (auto simp: nth_list_update)
  next
    case False
    then have "v = used @ [new_row l item]" using f by simp
    moreover have "selected_row (item # items) j \<longleftrightarrow> selected_row items j" for j using False by (auto simp: selected_row_def)
    ultimately show ?thesis using IH Cons.prems False by (auto simp: nth_append)
  qed
qed

lemma const_slot: "owned [] w \<Longrightarrow> ext_get h w = Some a \<Longrightarrow> \<exists>c. cell a w = Some c \<and> tg_ctx_get_const h w = Some c"
  using slot_live by (fastforce simp: tg_ctx_get_const_def)

lemma on_ctx_const:
  "ext_get h w = Some a \<Longrightarrow> cell a w = Some c \<Longrightarrow> on_ctx a f w = (w', rc) \<Longrightarrow>
   rc = snd (f c) \<and> tg_ctx_get_const h w' = Some (fst (f c))"
  by (cases "f c") (auto simp: on_ctx_def tg_ctx_get_const_def dest: cell_live)

lemma on_host_create:
  assumes "owned [] w" "h < length (tw_hosts w)" "on_host al h True missing f w = (w', rc)"
  obtains "w' = w" "rc = missing" "tg_ctx_get_const h w = None"
  | c where "tg_ctx_get_const h w = Some c" "rc = snd (f c)" "tg_ctx_get_const h w' = Some (fst (f c))"
  | i where "tg_ctx_get_const h w = None" "rc = snd (f (fresh_ctx i))" "tg_ctx_get_const h w' = Some (fst (f (fresh_ctx i)))"
proof (cases "ext_get h w")
  case (Some a)
  from const_slot [OF assms(1) Some] obtain c where c: "cell a w = Some c" "tg_ctx_get_const h w = Some c" by blast
  from assms(3) Some have "on_ctx a f w = (w', rc)" by (simp add: on_host_def tg_ctx_get_mut_def)
  from on_ctx_const [OF Some c(1) this] c(2) that(2) show thesis by blast
next
  case None
  then have n: "tg_ctx_get_const h w = None" by (simp add: tg_ctx_get_const_def)
  show thesis
  proof (cases al)
    case False
    with None assms(3) n that(1) show thesis by (simp add: on_host_def tg_ctx_get_mut_def tg_context_alloc_def)
  next
    case True
    define i where "i = fst (tg_next_context_id w)"
    define w1 where "w1 = snd (tg_next_context_id w)"
    define a where "a = length (tw_heap w)"
    define w2 where "w2 = w1\<lparr>tw_heap := tw_heap w1 @ [Some (fresh_ctx i)]\<rparr>"
    have p: "tw_heap w1 = tw_heap w" "tw_hosts w1 = tw_hosts w" by (simp_all add: w1_def tg_next_context_id_def Let_def)
    have al: "tg_context_alloc al w = Some (a, w2)"
      using True p by (simp add: tg_context_alloc_def i_def w1_def w2_def a_def case_prod_beta)
    define w3 where "w3 = ext_set h (Some a) w2"
    have "ext_get h w2 = None" using None p by (simp add: w2_def ext_get_def split: if_splits)
    then have w3: "w3 = w2\<lparr>tw_hosts := (tw_hosts w2)[h := Some a]\<rparr>" by (simp add: w3_def ext_set_def Let_def)
    have "ext_get h w3 = Some a" "cell a w3 = Some (fresh_ctx i)"
      using assms(2) p by (simp_all add: w3 w2_def ext_get_def cell_def a_def)
    moreover have "on_ctx a f w3 = (w', rc)" using assms(3) None al by (simp add: on_host_def tg_ctx_get_mut_def w3_def)
    ultimately show thesis using on_ctx_const [of h w3 a "fresh_ctx i" f w' rc] n that(3) by blast
  qed
qed

text \<open>Editing a selection is atomic: a refused or failed call leaves everything as it was, and an applied
  one puts the mode on exactly the selected rows, appends exactly the new identifiers in order, and is
  applied only on the table version the caller saw.\<close>

theorem selection_edit_is_atomic:
  assumes "owned [] w" "h < length (tw_hosts w)"
    "dsd_tg_policy_set_listening_selection a b c h context generation sel l w = (w', rc)"
  defines "old \<equiv> (case tg_ctx_get_const h w of None \<Rightarrow> [] | Some x \<Rightarrow> tp_rows x)"
  defines "new \<equiv> (case tg_ctx_get_const h w' of None \<Rightarrow> [] | Some x \<Rightarrow> tp_rows x)"
  shows "(rc \<noteq> 0 \<longrightarrow> w' = w) \<and>
    (rc = 0 \<longrightarrow> dsd_tg_policy_table_version h w = (context, generation) \<and>
       (\<forall>j<length old. new ! j = (if selected_row sel j then tg_entry_apply_mode (listening_mode l) (old ! j) else old ! j)) \<and>
       drop (length old) new = map (new_row l) (filter (\<lambda>item. ts_index item < 0) sel))"
proof -
  show ?thesis
  proof (cases "sel = [] \<or> dsd_tg_policy_table_version h w \<noteq> (context, generation) \<or> \<not> a \<or> selection_has_duplicates sel \<or> \<not> b
      \<or> prepare_selection old sel l old = None")
    case True
    with assms(3) have "w' = w \<and> rc \<noteq> 0"
      by (auto simp: dsd_tg_policy_set_listening_selection_def old_def [symmetric] Let_def split: if_splits)
    then show ?thesis by simp
  next
    case False
    then obtain used where used: "prepare_selection old sel l old = Some used" by auto
    let ?f = "\<lambda>x. (tg_note_mutation (x\<lparr>tp_rows := used, tp_capacity := length old + length sel\<rparr>), 0)"
    have "on_host c h True (-1) ?f w = (w', rc)"
      using assms(3) False used
      by (simp add: dsd_tg_policy_set_listening_selection_def old_def [symmetric] Let_def)
    then have "(w' = w \<and> rc \<noteq> 0) \<or> (rc = 0 \<and> new = used)"
      by (rule on_host_create [OF assms(1,2)]) (simp_all add: new_def)
    moreover have "distinct (map selection_key sel)" using False no_duplicates by blast
    ultimately show ?thesis using False prepare_form [OF used] by auto
  qed
qed

section \<open>A concrete table\<close>

definition demo_range :: tg_entry where
  "demo_range = (tg_make_exact_entry 100 ''A'' ''County'' TG_SOURCE_IMPORTED)\<lparr>te_end := 199, te_range := True, te_priority := 20\<rparr>"

definition demo_exact :: tg_entry where
  "demo_exact = (tg_make_exact_entry 150 ''A'' ''Fire'' TG_SOURCE_IMPORTED)\<lparr>te_priority := 60, te_preempt := 1\<rparr>"

definition demo_tg_world :: tg_world where
  "demo_tg_world = \<lparr>tw_heap = [], tw_next_id = 1, tw_hosts = [None, None], tw_held = []\<rparr>"

definition demo_tg_ops :: "tg_op list" where
  "demo_tg_ops = [Add_range True True 0 demo_range, Append_exact True True 0 demo_exact, Avoid_add True True 0 120,
     Retain 0, Restore 1 (Some 0), Set_mode True True 1 150 150 ''A'']"

lemma demo_start: "tg_start demo_tg_world"
  by (simp add: tg_start_def demo_tg_world_def)

lemma demo_allowed: "tg.allowed demo_tg_ops demo_tg_world"
  unfolding demo_tg_ops_def tg.allowed.simps by code_simp

text \<open>State 1 shares the context of state 0 and then takes a snapshot of it: one reference is abandoned.\<close>

definition demo_leak_ops :: "tg_op list" where
  "demo_leak_ops = demo_tg_ops @ [Copy_snapshot True True True 1 0]"

lemma demo_leak_allowed: "tg.allowed demo_leak_ops demo_tg_world"
  unfolding demo_leak_ops_def demo_tg_ops_def append.simps tg.allowed.simps by code_simp

lemma contexts_counted_exactly_witness:
  "tp_references (the (cell 0 (tg.run demo_leak_ops demo_tg_world))) = 3 \<and>
   count_list (tw_hosts (tg.run demo_leak_ops demo_tg_world)) (Some 0) + count_list (tw_held (tg.run demo_leak_ops demo_tg_world)) 0 = 2"
proof -
  have "cell 0 (tg.run demo_leak_ops demo_tg_world) \<noteq> None \<and>
      count_list (tw_hosts (tg.run demo_leak_ops demo_tg_world)) (Some 0) + count_list (tw_held (tg.run demo_leak_ops demo_tg_world)) 0 = 2 \<and>
      count_list (leaks demo_leak_ops demo_tg_world) 0 = 1"
    unfolding tg.run_def by code_simp
  with contexts_counted_exactly [OF demo_start demo_leak_allowed] show ?thesis by auto
qed

text \<open>The same calls after both states have reloaded a group file, one empty and one with only its header.\<close>

definition demo_file_ops :: "tg_op list" where
  "demo_file_ops = [Reload True True (\<lambda>_. (True, True)) (Some []) 0, Reload True True (\<lambda>_. (True, True)) (Some ''id'') 1] @ demo_tg_ops"

lemma demo_file_allowed: "tg.allowed demo_file_ops demo_tg_world"
  unfolding demo_file_ops_def demo_tg_ops_def append.simps tg.allowed.simps by code_simp

lemma rows_stay_normal_witness: "row_ok (the (dsd_tg_policy_entry_at 1 1 (tg.run demo_file_ops demo_tg_world)))"
proof -
  have "dsd_tg_policy_entry_at 1 1 (tg.run demo_file_ops demo_tg_world) = Some (the (dsd_tg_policy_entry_at 1 1 (tg.run demo_file_ops demo_tg_world)))"
    unfolding tg.run_def by code_simp
  then show ?thesis by (rule rows_stay_normal [OF demo_start demo_file_allowed])
qed

definition demo_rows_ctx :: tg_ctx where
  "demo_rows_ctx = (fresh_ctx 7)\<lparr>tp_rows := [demo_range, demo_exact], tp_capacity := 16, tp_avoids := [120, 130],
     tp_avoid_capacity := 16\<rparr>"

lemma demo_rows_ok: "ctx_ok demo_rows_ctx"
  by code_simp

lemma avoids_are_a_set_witness:
  "tg_avoid_contains (Some demo_rows_ctx) 130 \<and> tg_avoid_count (Some demo_rows_ctx) 100 125 = 1"
proof -
  have "130 \<in> set (tp_avoids demo_rows_ctx)" "{y \<in> set (tp_avoids demo_rows_ctx). 100 \<le> y \<and> y \<le> 125} = {120}"
    by (auto simp: demo_rows_ctx_def)
  with avoids_are_a_set [OF demo_rows_ok, of 130 100 125] show ?thesis by simp
qed

definition demo_opts :: tg_opts where
  "demo_opts = \<lparr>to_group_calls = 1, to_private_calls = 1, to_data_calls = 1, to_enc_calls = 1, to_allow_list = 0\<rparr>"

lemma lookup_is_most_specific_witness: "tl_entry (tg_lookup_id (Some demo_rows_ctx) 110) = demo_range"
proof -
  have m: "tl_match (tg_lookup_id (Some demo_rows_ctx) 110) = TG_MATCH_RANGE" by code_simp
  from lookup_is_most_specific [of demo_rows_ctx 110] m obtain i
    where i: "narrowest 110 (tp_rows demo_rows_ctx) i" "tl_entry (tg_lookup_id (Some demo_rows_ctx) 110) = tp_rows demo_rows_ctx ! i"
    by auto
  have "\<not> in_range_row 110 demo_exact" by code_simp
  with i(1) have "i = 0" by (auto simp: narrowest_def demo_rows_ctx_def less_Suc_eq)
  with i(2) show ?thesis by (simp add: demo_rows_ctx_def)
qed

lemma group_decision_exact_witness:
  "\<not> td_tune (tg_evaluate_group_call demo_opts 0 enc_lockout_init (Some demo_rows_ctx) 130 9 False False) \<and>
   td_reasons (tg_evaluate_group_call demo_opts 0 enc_lockout_init (Some demo_rows_ctx) 130 9 False False) AND TG_BLOCK_SESSION_AVOID \<noteq> 0"
proof -
  have "tg_avoid_contains (Some demo_rows_ctx) 130" by code_simp
  then have m: "(TG_BLOCK_SESSION_AVOID, True) \<in> set (group_refusals demo_opts 0 enc_lockout_init (Some demo_rows_ctx) 130 False False)"
    by (simp add: group_refusals_def)
  then have m': "(TG_BLOCK_SESSION_AVOID, True) \<in> set (group_refusals demo_opts 0 enc_lockout_init (Some demo_rows_ctx) 130 False False
      @ group_mutes 0 (Some demo_rows_ctx) 130)" by simp
  note d = group_decision_exact [where opts = demo_opts and hold = 0 and lk = enc_lockout_init and ctx = "Some demo_rows_ctx" and tg = 130 and src = 9
      and encrypted = False and data_call = False]
  show ?thesis
    using d [THEN conjunct2, THEN conjunct2, THEN conjunct1, THEN bspec, OF m'] d [THEN conjunct1, THEN iffD1, THEN bspec, OF _ m] by auto
qed

text \<open>A call on 110, under the range row, is active on slot 0 since time 0; 150 asks for the carrier at time 10.\<close>

definition demo_call :: tg_call where
  "demo_call = zero_call\<lparr>tc_valid := True, tc_tg := 110, tc_freq_hz := 851000000, tc_channel := 3, tc_priority := 20\<rparr>"

definition demo_busy :: tg_ctx where
  "demo_busy = demo_rows_ctx\<lparr>tp_calls := [demo_call, zero_call], tp_last_preempt := 0\<rparr>"

definition demo_wanted :: tg_route where
  "demo_wanted = \<lparr>tr_target = 150, tr_source = 9, tr_freq_hz = 852000000, tr_channel = 4, tr_slot = -1, tr_retune = True\<rparr>"

definition demo_decision :: tg_decision where
  "demo_decision = (tg_init_decision 150 9 False False)\<lparr>td_priority := 60, td_preempt := True\<rparr>"

lemma demo_busy_ok: "ctx_ok demo_busy"
  using demo_rows_ok by (simp add: demo_busy_def ctx_ok_def)

text \<open>The busy context as a history: the call on 110 was noted at time 0 by an evaluated decision.\<close>

definition demo_granted :: tg_decision where
  "demo_granted = tg_evaluate_group_call demo_opts 0 enc_lockout_init (Some demo_rows_ctx) 110 9 False False"

definition demo_noted_ops :: "tg_call_op list" where
  "demo_noted_ops = [Cop_note \<lparr>tr_target = 110, tr_source = 9, tr_freq_hz = 851000000, tr_channel = 3, tr_slot = 0, tr_retune = True\<rparr>
     demo_granted 0]"

lemma demo_granted_fields: "td_priority demo_granted = 20" "\<not> td_preempt demo_granted"
proof -
  have "tl_match (tg_lookup_id (Some demo_rows_ctx) 110) = TG_MATCH_RANGE \<and>
      te_priority (tl_entry (tg_lookup_id (Some demo_rows_ctx) 110)) = 20 \<and>
      te_preempt (tl_entry (tg_lookup_id (Some demo_rows_ctx) 110)) = 0" by code_simp
  then show "td_priority demo_granted = 20" "\<not> td_preempt demo_granted" by (simp_all add: demo_granted_def group_parts(5,6))
qed

definition demo_history :: tg_ctx where
  "demo_history = tgc.run demo_noted_ops demo_rows_ctx"

lemma demo_history_reachable: "tgc.reachable demo_history"
  unfolding demo_history_def
proof (rule tgc.reachable_run)
  show "idle_ctx demo_rows_ctx" using demo_rows_ok by (simp add: idle_ctx_def demo_rows_ctx_def fresh_ctx_def)
  show "tgc.allowed demo_noted_ops demo_rows_ctx"
    by (simp add: demo_noted_ops_def demo_granted_fields)
qed

lemma demo_preempts: "tg_should_preempt None None (Some demo_busy) demo_wanted demo_decision 10"
  by (simp add: tg_should_preempt_def demo_busy_def demo_call_def zero_call_def demo_wanted_def demo_decision_def
      tg_env_ms_default_def tg_route_is_complete_def tg_collect_displaced_slots_def tg_collect_displaced_all_slots_def
      tg_call_matches_route_slot_def tg_preempt_passes_displaced_checks_def tg_init_decision_def Let_def)

lemma preemption_needs_lower_priority_witness:
  "displaces demo_busy demo_wanted 0 \<and> tc_priority (tp_calls demo_busy ! 0) < td_priority demo_decision"
proof -
  have "displaces demo_busy demo_wanted 0" by (simp add: displaces_def demo_busy_def demo_call_def demo_wanted_def)
  with preemption_needs_lower_priority [OF demo_busy_ok demo_preempts] show ?thesis by blast
qed

lemma demo_history_preempts: "tg_should_preempt None None (Some demo_history) demo_wanted demo_decision 10"
  by (simp add: demo_history_def demo_noted_ops_def demo_rows_ctx_def fresh_ctx_def tg_ctx_note_active_call_def tg_note_active_slot_def
      tg_should_note_preempt_def tg_call_matches_route_def tg_call_assign_from_route_def demo_granted_fields
      tg_should_preempt_def zero_call_def demo_wanted_def demo_decision_def numeral_2_eq_2
      tg_env_ms_default_def tg_route_is_complete_def tg_collect_displaced_slots_def tg_collect_displaced_all_slots_def
      tg_call_matches_route_slot_def tg_preempt_passes_displaced_checks_def tg_init_decision_def Let_def)

lemma preemption_rests_for_cooldown_witness:
  "\<not> tg_should_preempt None None
     (Some (tgc.run [Cop_edit (Ed_avoid True 500), Cop_clear 1, Cop_note demo_wanted demo_decision 10.25]
       (call_op_step (Cop_note demo_wanted demo_decision 10) (released [-1] demo_history)))) demo_wanted demo_decision 10.5"
  by (rule preemption_rests_for_cooldown [OF demo_history_reachable demo_history_preempts])
     (simp_all add: cooldown_s_def tg_env_ms_default_def demo_decision_def)

lemma active_priorities_follow_table_witness:
  "tc_priority (hd (tp_calls (fst (apply_edit (Ed_remove 100 199) demo_busy)))) =
     evaluated_priority demo_opts 0 enc_lockout_init (fst (apply_edit (Ed_remove 100 199) demo_busy))
       (hd (tp_calls (fst (apply_edit (Ed_remove 100 199) demo_busy))))"
proof -
  have "length (tp_rows (fst (apply_edit (Ed_remove 100 199) demo_busy))) \<noteq> length (tp_rows demo_busy)" by code_simp
  then have "fst (apply_edit (Ed_remove 100 199) demo_busy) \<noteq> demo_busy" by metis
  moreover have "tc_valid (hd (tp_calls (fst (apply_edit (Ed_remove 100 199) demo_busy))))" by code_simp
  moreover have "tp_calls (fst (apply_edit (Ed_remove 100 199) demo_busy)) \<noteq> []" by code_simp
  ultimately show ?thesis using active_priorities_follow_table hd_in_set by blast
qed

lemma selection_edit_is_atomic_witness:
  "fst (dsd_tg_policy_set_listening_selection True True True 0 1 3 [\<lparr>ts_index = 5, ts_start = 150, ts_end = 150\<rparr>] False
     (tg.run demo_tg_ops demo_tg_world)) = tg.run demo_tg_ops demo_tg_world"
proof -
  let ?w = "tg.run demo_tg_ops demo_tg_world"
  let ?r = "dsd_tg_policy_set_listening_selection True True True 0 1 3 [\<lparr>ts_index = 5, ts_start = 150, ts_end = 150\<rparr>] False ?w"
  have "leaks demo_tg_ops demo_tg_world = []" unfolding demo_tg_ops_def by code_simp
  then have o: "owned [] ?w" using run_owned [OF start_owned [OF demo_start] demo_allowed] by simp
  have h: "0 < length (tw_hosts ?w)" unfolding tg.run_def by code_simp
  have "snd ?r \<noteq> 0" unfolding tg.run_def by code_simp
  with selection_edit_is_atomic [OF o h, of True True True 1 3 "[\<lparr>ts_index = 5, ts_start = 150, ts_end = 150\<rparr>]" False "fst ?r" "snd ?r"]
  show ?thesis by simp
qed

end
