(* ===== verification/Group_Csv_Props.thy ===== *)
theory Group_Csv_Props
  imports Group_Csv Tg_Policy_Props
begin

text \<open>What the policy saves as a group file, the importer reads back.\<close>

section \<open>Decimal numbers\<close>

lemma digit_char_props: "d < 10 \<Longrightarrow> is_digit (digit_char d) \<and> digit_value (digit_char d) = d \<and> \<not> is_ascii_space (digit_char d)"
proof -
  assume "d < 10"
  then have "d \<in> {0, 1, 2, 3, 4, 5, 6, 7, 8, 9}" by auto
  then consider "d = 0" | "d = 1" | "d = 2" | "d = 3" | "d = 4" | "d = 5" | "d = 6" | "d = 7" | "d = 8" | "d = 9" by auto
  then show ?thesis by cases (simp_all add: digit_char_def is_digit_def digit_value_def is_ascii_space_def)
qed

lemma show_nat_digits: "list_all (\<lambda>c. is_digit c \<and> \<not> is_ascii_space c) (show_nat n) \<and> show_nat n \<noteq> []"
proof (induction n rule: show_nat.induct)
  case (1 n)
  then show ?case by (subst (1 2) show_nat.simps) (auto simp: digit_char_props)
qed

lemma decimal_value_snoc: "decimal_value (ds @ [c]) = 10 * decimal_value ds + digit_value c"
  by (simp add: decimal_value_def)

lemma decimal_value_show: "decimal_value (show_nat n) = n"
proof (induction n rule: show_nat.induct)
  case (1 n)
  show ?case
  proof (cases "n < 10")
    case True
    then show ?thesis by (subst show_nat.simps) (simp add: decimal_value_def digit_char_props)
  next
    case False
    with 1 show ?thesis by (subst show_nat.simps) (simp add: decimal_value_snoc digit_char_props)
  qed
qed

lemma length_show_nat: "n < 10 ^ Suc k \<Longrightarrow> length (show_nat n) \<le> Suc k"
proof (induction k arbitrary: n)
  case 0
  then show ?case by (subst show_nat.simps) simp
next
  case (Suc k)
  show ?case
  proof (cases "n < 10")
    case True
    then show ?thesis by (subst show_nat.simps) simp
  next
    case False
    have "n div 10 < 10 ^ Suc k" using Suc.prems by simp
    from Suc.IH [OF this] False show ?thesis by (subst show_nat.simps) simp
  qed
qed

lemma strto_show:
  assumes "n \<le> limit" "rest = [] \<or> \<not> is_digit (hd rest)"
  shows "strto_decimal limit (show_nat n @ rest) = Some (n, rest)"
proof -
  have d: "\<forall>c\<in>set (show_nat n). is_digit c" "show_nat n \<noteq> []" using show_nat_digits [of n] by (auto simp: list_all_iff)
  have "takeWhile is_digit (show_nat n @ rest) = show_nat n" "dropWhile is_digit (show_nat n @ rest) = rest"
    using d assms(2) by (cases rest; simp add: takeWhile_append dropWhile_append)+
  with d assms(1) show ?thesis by (simp add: strto_decimal_def decimal_value_show)
qed

lemma show_nat_hd: "\<exists>c cs. show_nat n = c # cs \<and> is_digit c \<and> \<not> is_ascii_space c"
  using show_nat_digits [of n] by (cases "show_nat n") auto

lemma digit_no_sign:
  "is_digit c \<Longrightarrow> c \<noteq> CHR ''+'' \<and> c \<noteq> CHR ''-'' \<and> c \<noteq> CHR '','' \<and> c \<noteq> CHR 0x0A \<and> c \<noteq> CHR 0x0D \<and> c \<noteq> CHR 0x00"
  by (auto simp: is_digit_def)

lemma parse_u32_show: "csv_parse_u32_token (show_u32 w) = Some w"
proof -
  obtain c cs where c: "show_nat (unat w) = c # cs" "is_digit c" "\<not> is_ascii_space c" using show_nat_hd by blast
  have w: "unat w \<le> 2 ^ 32 - 1" using unsigned_less [of w, where ?'a = nat] by simp
  have "strto_decimal (2 ^ 64 - 1) (show_nat (unat w)) = Some (unat w, [])"
    using strto_show [of "unat w" "2 ^ 64 - 1" "[]"] w by simp
  with c w digit_no_sign [OF c(2)] show ?thesis by (simp add: csv_parse_u32_token_def show_u32_def)
qed

section \<open>Fields and lines\<close>

definition trimmed :: "string \<Rightarrow> bool" where
  "trimmed s \<longleftrightarrow> s = [] \<or> \<not> is_ascii_space (hd s) \<and> \<not> is_ascii_space (last s)"

definition plain :: "string \<Rightarrow> bool" where
  "plain s \<longleftrightarrow> list_all (\<lambda>c. c \<noteq> CHR '','' \<and> c \<noteq> CHR 0x0A \<and> c \<noteq> CHR 0x0D \<and> c \<noteq> CHR 0x00) s"

lemma trim_end_last: "s = [] \<or> \<not> p (last s) \<Longrightarrow> trim_end p s = s"
  by (cases s rule: rev_cases) (auto simp: trim_end_def)

lemma trim_trimmed: "trimmed s \<Longrightarrow> trim_ws s = s"
  by (cases s) (auto simp: trimmed_def trim_ws_def trim_end_last)

lemma trimmed_show: "trimmed (show_nat n)"
  using show_nat_digits [of n] by (cases "show_nat n") (auto simp: trimmed_def list_all_iff)

lemma plain_show: "plain (show_nat n)"
  using show_nat_digits [of n] digit_no_sign unfolding plain_def list_all_iff by blast

lemma split_plain: "CHR '','' \<notin> set f \<Longrightarrow> split_commas f = [f]"
  by (induction f) auto

lemma split_append: "CHR '','' \<notin> set f \<Longrightarrow> split_commas (f @ CHR '','' # s) = f # split_commas s"
  by (induction f) auto

lemma split_join: "fs \<noteq> [] \<Longrightarrow> \<forall>f\<in>set fs. CHR '','' \<notin> set f \<Longrightarrow> split_commas (join_commas fs) = fs"
  by (induction fs rule: join_commas.induct) (simp_all add: split_plain split_append)

lemma sanitize_plain: "plain s \<Longrightarrow> length s < cap \<Longrightarrow> tg_csv_sanitize_copy cap s = s"
  unfolding tg_csv_sanitize_copy_def plain_def list_all_iff by (rule trans [OF map_idI]) auto

lemma read_plain_line:
  assumes "CHR 0x0A \<notin> set line" "CHR 0x00 \<notin> set line" "length line < cap" "line = [] \<or> last line \<noteq> CHR 0x0D"
  shows "csv_read_line cap (line @ CHR 0x0A # rest) = Some (line, False, rest)"
proof -
  have "takeWhile (\<lambda>c. c \<noteq> CHR 0x0A) (line @ CHR 0x0A # rest) = line"
    "dropWhile (\<lambda>c. c \<noteq> CHR 0x0A) (line @ CHR 0x0A # rest) = CHR 0x0A # rest"
    using assms(1) by (auto simp: takeWhile_append dropWhile_append)
  with assms show ?thesis by (auto simp: csv_read_line_def Let_def)
qed

section \<open>A row, written and read\<close>

definition csv_clean :: "tg_entry \<Rightarrow> bool" where
  "csv_clean e \<longleftrightarrow> plain (te_mode e) \<and> plain (te_name e) \<and> plain (te_tags e) \<and> trimmed (te_mode e) \<and> trimmed (te_tags e)"

definition as_imported :: "u32 \<Rightarrow> tg_entry \<Rightarrow> tg_entry" where
  "as_imported k e = e\<lparr>te_source := TG_SOURCE_IMPORTED, te_row := k\<rparr>"

lemma as_imported_form: "as_imported k e = \<lparr>te_start = te_start e, te_end = te_end e, te_mode = te_mode e,
    te_name = te_name e, te_tags = te_tags e, te_priority = te_priority e, te_preempt = te_preempt e, te_audio = te_audio e,
    te_record = te_record e, te_stream = te_stream e, te_range = te_range e, te_source = TG_SOURCE_IMPORTED, te_row = k\<rparr>"
  by (cases e) (simp add: as_imported_def)

lemma show_id_no_dash: "CHR ''-'' \<notin> set (show_nat n)"
  using show_nat_digits [of n] digit_no_sign unfolding list_all_iff by blast

lemma parse_id_text:
  assumes "row_ok e" shows "csv_parse_id_field (tg_id_text e) = Some (te_start e, te_end e, te_range e)"
proof (cases "te_range e")
  case False
  then have "te_start e = te_end e" using assms by (simp add: row_ok_def)
  moreover have "show_u32 (te_start e) \<noteq> []" using show_nat_digits by (simp add: show_u32_def)
  ultimately show ?thesis using False trimmed_show show_id_no_dash
    by (simp add: csv_parse_id_field_def tg_id_text_def trim_trimmed show_u32_def csv_parse_single_id_def Let_def
        parse_u32_show [unfolded show_u32_def])
next
  case True
  let ?s = "show_u32 (te_start e)" and ?t = "show_u32 (te_end e)"
  have lt: "te_start e < te_end e" using True assms by (simp add: row_ok_def)
  have n: "?s \<noteq> []" "?t \<noteq> []" using show_nat_digits by (simp_all add: show_u32_def)
  have t: "trimmed ?s" "trimmed ?t" "CHR ''-'' \<notin> set ?s" "CHR ''-'' \<notin> set ?t"
    using trimmed_show show_id_no_dash by (simp_all add: show_u32_def)
  have "trimmed (?s @ CHR ''-'' # ?t)" using t n by (auto simp: trimmed_def)
  moreover have "takeWhile (\<lambda>c. c \<noteq> CHR ''-'') (?s @ CHR ''-'' # ?t) = ?s"
    "dropWhile (\<lambda>c. c \<noteq> CHR ''-'') (?s @ CHR ''-'' # ?t) = CHR ''-'' # ?t"
    using t(3) by (auto simp: takeWhile_append dropWhile_append)
  ultimately show ?thesis using True t n lt
    by (auto simp: csv_parse_id_field_def tg_id_text_def csv_parse_range_id_def Let_def trim_trimmed parse_u32_show)
qed

lemma parse_switches:
  "group_parse_bool_field (tg_bool_true_false v) = VALUE_OK (v \<noteq> 0)" "group_parse_bool_field (tg_bool_on_off v) = VALUE_OK (v \<noteq> 0)"
  by (cases "v = 0"; simp add: tg_bool_true_false_def tg_bool_on_off_def; code_simp)+

lemma parse_priority: "0 \<le> p \<Longrightarrow> p \<le> 100 \<Longrightarrow> group_parse_priority_field (show_int p) = VALUE_OK p"
proof -
  assume p: "0 \<le> p" "p \<le> 100"
  obtain c cs where c: "show_nat (nat p) = c # cs" "is_digit c" using show_nat_hd by blast
  have "strto_decimal (2 ^ 63 - 1) (show_nat (nat p)) = Some (nat p, [])"
    using strto_show [of "nat p" "2 ^ 63 - 1" "[]"] p by simp
  with p c digit_no_sign [OF c(2)] trim_trimmed [OF trimmed_show, of "nat p"] show ?thesis
    by (simp add: group_parse_priority_field_def show_int_def Let_def)
qed

lemma flag_value: "v \<le> 1 \<Longrightarrow> (if v \<noteq> 0 then 1 else 0) = (v :: u8)"
  by (metis antisym not_less word_less_1)

lemma flag_one: "v \<le> 1 \<Longrightarrow> v \<noteq> 0 \<Longrightarrow> v = (1 :: u8)"
  using flag_value [of v] by simp

lemma row_ok_normalized:
  assumes "row_ok e" shows "tg_copy_entry_normalized e = e"
proof -
  have c: "tg_safe_copy TG_MODE_SIZE (te_mode e) = te_mode e" "tg_safe_copy TG_NAME_SIZE (te_name e) = te_name e"
    "tg_safe_copy TG_TAGS_SIZE (te_tags e) = te_tags e"
    using assms by (simp_all add: row_ok_def tg_safe_copy_def row_sizes)
  from assms show ?thesis unfolding tg_copy_entry_normalized_def c
    by (cases e) (auto simp: tg_normalize_entry_def Let_def row_ok_def intro: flag_one)
qed

text \<open>The three layouts the writer chooses between, and the header the importer makes of each.\<close>

definition layout_header :: "bool \<Rightarrow> bool \<Rightarrow> group_header" where
  "layout_header use_policy any_tags =
     (if use_policy then \<lparr>gh_policy_active = True, gh_prefix_len = 6, gh_invalid_order = False, gh_basic_tags = False\<rparr>
      else no_header\<lparr>gh_basic_tags := any_tags\<rparr>)"

lemma layout_header_parsed: "group_parse_policy_header (butlast (tg_header_line use_policy any_tags)) = layout_header use_policy any_tags"
  by (cases use_policy; cases any_tags; simp add: tg_header_line_def layout_header_def; code_simp)

definition row_columns :: "bool \<Rightarrow> bool \<Rightarrow> tg_entry \<Rightarrow> string list" where
  "row_columns use_policy any_tags e =
     (if use_policy
      then [tg_id_text e, te_mode e, te_name e, show_int (te_priority e), tg_bool_true_false (te_preempt e),
            tg_bool_on_off (te_audio e), tg_bool_on_off (te_record e), tg_bool_on_off (te_stream e), te_tags e]
      else if any_tags then [tg_id_text e, te_mode e, te_name e, te_tags e] else [tg_id_text e, te_mode e, te_name e])"

definition layout_fits :: "bool \<Rightarrow> bool \<Rightarrow> tg_entry \<Rightarrow> bool" where
  "layout_fits use_policy any_tags e \<longleftrightarrow>
     (use_policy \<or> \<not> tg_entry_requires_extended_csv e) \<and> (use_policy \<or> any_tags \<or> te_tags e = [])"

lemma plain_id: "plain (tg_id_text e)"
  using plain_show by (auto simp: tg_id_text_def show_u32_def plain_def list_all_iff)

lemma plain_words: "plain (tg_bool_true_false v)" "plain (tg_bool_on_off v)"
  by (simp_all add: tg_bool_true_false_def tg_bool_on_off_def plain_def)

lemma plain_int: "0 \<le> i \<Longrightarrow> plain (show_int i)"
  by (simp add: show_int_def plain_show)

lemma columns_plain:
  "row_ok e \<Longrightarrow> csv_clean e \<Longrightarrow> f \<in> set (row_columns p t e) \<Longrightarrow> plain f"
  by (auto simp: row_columns_def csv_clean_def row_ok_def plain_id plain_words plain_int split: if_splits)

lemma written_row:
  assumes "row_ok e" "csv_clean e"
  shows "tg_write_group_row e (tg_id_text e) p t (tg_csv_sanitize_copy TG_MODE_SIZE (te_mode e))
       (tg_csv_sanitize_copy TG_NAME_SIZE (te_name e)) (tg_csv_sanitize_copy TG_TAGS_SIZE (te_tags e)) =
     join_commas (row_columns p t e) @ [CHR 0x0A]"
  using assms by (simp add: tg_write_group_row_def row_columns_def sanitize_plain csv_clean_def row_ok_def)

lemma columns_split:
  assumes "row_ok e" "csv_clean e"
  shows "csv_split_preserve_empty (join_commas (row_columns p t e)) 32 = row_columns p t e"
proof -
  have "\<forall>f\<in>set (row_columns p t e). CHR '','' \<notin> set f"
    using columns_plain [OF assms] unfolding plain_def list_all_iff by blast
  moreover have "row_columns p t e \<noteq> []" by (simp add: row_columns_def)
  ultimately show ?thesis by (simp add: csv_split_preserve_empty_def split_join) (simp add: row_columns_def)
qed

lemma parsed_row:
  assumes r: "row_ok e" "csv_clean e" and fit: "layout_fits p t e"
  shows "group_parse_row (layout_header p t) k (join_commas (row_columns p t e)) = Some (as_imported k e)"
proof -
  have tm: "trim_ws (te_mode e) = te_mode e" "trim_ws (te_tags e) = te_tags e" using r(2) by (simp_all add: csv_clean_def trim_trimmed)
  have tk: "take (TG_MODE_SIZE - Suc 0) (te_mode e) = te_mode e" "take (TG_NAME_SIZE - Suc 0) (te_name e) = te_name e"
    "take (TG_TAGS_SIZE - Suc 0) (te_tags e) = te_tags e" using r(1) by (simp_all add: row_ok_def row_sizes)
  note parts = parse_id_text [OF r(1)] group_entry_init_def tm tk group_apply_policy_fields_def group_apply_tags_field_def
    layout_header_def no_header_def as_imported_form zero_tg_entry_def
  have row: "group_parse_row (layout_header p t) k (join_commas (row_columns p t e)) =
    (let fs = row_columns p t e; (entry, blocking) = group_entry_init (te_start e) (te_end e) (te_range e) (te_mode e) (te_name e) k
     in Some (group_apply_tags_field (layout_header p t) fs (group_apply_policy_fields (layout_header p t) fs blocking entry)))"
    unfolding group_parse_row_def columns_split [OF r] Let_def by (simp add: row_columns_def parse_id_text [OF r(1)] tm)
  show ?thesis
  proof (cases p)
    case True
    have pr: "group_parse_priority_field (show_int (te_priority e)) = VALUE_OK (te_priority e)"
      by (rule parse_priority) (use r(1) in \<open>simp_all add: row_ok_def\<close>)
    have b: "tg_mode_is_blocking (te_mode e) \<longleftrightarrow> te_mode e = ''B'' \<or> te_mode e = ''DE''" by (simp add: tg_mode_is_blocking_def)
    have fl: "te_preempt e \<le> 1" "te_audio e \<le> 1" "te_record e \<le> 1" "te_stream e \<le> 1"
      "te_mode e = ''B'' \<or> te_mode e = ''DE'' \<Longrightarrow> te_audio e = 0" "te_audio e = 0 \<Longrightarrow> te_record e = 0 \<and> te_stream e = 0"
      using r(1) by (simp_all add: row_ok_def b)
    show ?thesis unfolding row using True fl
      by (simp add: parts row_columns_def Let_def pr parse_switches group_apply_priority_field_def
          group_apply_preempt_field_def group_apply_media_fields_def group_apply_optional_bool_field_def
          group_enforce_media_constraints_def flag_value)
  next
    case False
    with fit show ?thesis unfolding row
      by (simp add: parts row_columns_def Let_def layout_fits_def
          tg_entry_requires_extended_csv_def tg_mode_is_blocking_def) auto
  qed
qed

section \<open>A file, written and read\<close>

definition row_text :: "bool \<Rightarrow> bool \<Rightarrow> tg_entry \<Rightarrow> string" where
  "row_text p t e = join_commas (row_columns p t e)"

lemma join_set: "c \<in> set (join_commas fs) \<Longrightarrow> c = CHR '','' \<or> (\<exists>f\<in>set fs. c \<in> set f)"
  by (induction fs rule: join_commas.induct) auto

lemma join_length: "length (join_commas fs) \<le> sum_list (map (\<lambda>f. length f + 1) fs)"
  by (induction fs rule: join_commas.induct) auto

lemma row_text_chars:
  assumes "row_ok e" "csv_clean e" "c \<in> set (row_text p t e)"
  shows "c \<noteq> CHR 0x0A \<and> c \<noteq> CHR 0x0D \<and> c \<noteq> CHR 0x00"
  using join_set [OF assms(3) [unfolded row_text_def]] columns_plain [OF assms(1,2), of _ p t]
  unfolding plain_def list_all_iff by auto

lemma show_u32_length: "length (show_u32 w) \<le> 10"
  using length_show_nat [of "unat w" 9] unsigned_less [of w, where ?'a = nat] by (simp add: show_u32_def)

lemma row_text_length:
  assumes "row_ok e" shows "length (row_text p t e) < CSV_LINE_SIZE"
proof -
  have i: "length (tg_id_text e) \<le> 21" using show_u32_length [of "te_start e"] show_u32_length [of "te_end e"] by (simp add: tg_id_text_def)
  have "te_priority e \<le> 100" using assms by (simp add: row_ok_def)
  then have "nat (te_priority e) < 10 ^ Suc 2" by simp
  then have pr: "length (show_int (te_priority e)) \<le> 3"
    using length_show_nat [of "nat (te_priority e)" 2] assms by (simp add: show_int_def row_ok_def)
  have w: "length (tg_bool_true_false v) \<le> 5" "length (tg_bool_on_off v) \<le> 3" for v
    by (simp_all add: tg_bool_true_false_def tg_bool_on_off_def)
  have m: "length (te_mode e) \<le> 7" "length (te_name e) \<le> 49" "length (te_tags e) \<le> 49"
    using assms by (simp_all add: row_ok_def row_sizes)
  have "sum_list (map (\<lambda>f. length f + 1) (row_columns p t e)) \<le> 200"
    using i pr w [of "te_preempt e"] w(2) [of "te_audio e"] w(2) [of "te_record e"] w(2) [of "te_stream e"] m
    by (simp add: row_columns_def)
  with join_length [of "row_columns p t e"] show ?thesis by (simp add: row_text_def CSV_LINE_SIZE_def)
qed

lemma row_text_hd: "\<exists>c cs. row_text p t e = c # cs \<and> \<not> is_ascii_space c"
proof -
  obtain c cs where c: "show_nat (unat (te_start e)) = c # cs" "\<not> is_ascii_space c" using show_nat_hd by blast
  then have "\<exists>ds. tg_id_text e = c # ds" by (simp add: tg_id_text_def show_u32_def)
  with c(2) show ?thesis by (auto simp: row_text_def row_columns_def)
qed

lemma read_row_line:
  assumes "row_ok e" "csv_clean e"
  shows "csv_read_line CSV_LINE_SIZE (row_text p t e @ CHR 0x0A # rest) = Some (row_text p t e, False, rest)"
proof (rule read_plain_line)
  show "row_text p t e = [] \<or> last (row_text p t e) \<noteq> CHR 0x0D"
    using row_text_chars [OF assms, of "last (row_text p t e)" p t] row_text_hd [of p t e] by (cases "row_text p t e") auto
qed (use row_text_chars [OF assms] row_text_length [OF assms(1)] in blast)+

lemma trim_eol_plain: "\<forall>c\<in>set s. c \<noteq> CHR 0x0A \<and> c \<noteq> CHR 0x0D \<Longrightarrow> trim_eol s = s"
  unfolding trim_eol_def by (rule trim_end_last) (cases s rule: rev_cases; auto)

definition import_entry :: "u64 \<Rightarrow> tg_entry \<Rightarrow> tg_ctx option \<Rightarrow> tg_ctx option" where
  "import_entry ident e ctx = group_commit_entry True True ident e ctx"

lemma import_one:
  assumes "row_ok e" "csv_clean e" "layout_fits p t e" "k \<noteq> 0"
  shows "group_import_loop (\<lambda>_. (True, True)) ident k (layout_header p t) ctx (row_text p t e @ CHR 0x0A # rest) =
    group_import_loop (\<lambda>_. (True, True)) ident (k + 1) (layout_header p t) (import_entry ident (as_imported (k + 1) e) ctx) rest"
proof -
  have tr: "trim_eol (row_text p t e) = row_text p t e" using row_text_chars [OF assms(1,2)] by (intro trim_eol_plain) blast
  have ready: "csv_data_row_ready (row_text p t e) False"
    using row_text_hd [of p t e] by (auto simp: csv_data_row_ready_def csv_line_is_blank_def)
  show ?thesis
    by (subst group_import_loop.simps) (simp add: read_row_line [OF assms(1,2)] tr ready assms(4) group_import_row_def
        parsed_row [OF assms(1-3), folded row_text_def] import_entry_def Let_def)
qed

fun import_all :: "u64 \<Rightarrow> u32 \<Rightarrow> tg_entry list \<Rightarrow> tg_ctx option \<Rightarrow> tg_ctx option" where
  "import_all ident k [] ctx = ctx"
| "import_all ident k (e # es) ctx = import_all ident (k + 1) es (import_entry ident (as_imported (k + 1) e) ctx)"

lemma import_rows:
  assumes "\<forall>e\<in>set es. row_ok e \<and> csv_clean e \<and> layout_fits p t e" "0 < k" "unat k + length es < 2 ^ 32"
  shows "group_import_loop (\<lambda>_. (True, True)) ident k (layout_header p t) ctx (concat (map (\<lambda>e. row_text p t e @ [CHR 0x0A]) es)) =
    import_all ident k es ctx"
  using assms
proof (induction es arbitrary: k ctx)
  case Nil
  then show ?case by (subst group_import_loop.simps) (simp add: csv_read_line_def)
next
  case (Cons e es)
  have u: "unat (k + 1) = unat k + 1"
    using Cons.prems(3) by (simp add: unat_word_ariths)
  have k: "k \<noteq> 0" using Cons.prems(2) by auto
  have "k + 1 \<noteq> 0" using u by (metis add_is_0 one_neq_zero unat_0)
  then have "0 < k + 1" by (simp add: word_neq_0_conv)
  with Cons.IH [of "k + 1"] Cons.prems u import_one [OF _ _ _ k, of e p t ident ctx] show ?case by simp
qed

lemma commit_rows:
  assumes "row_ok e"
  shows "(case import_entry ident (as_imported k e) ctx of None \<Rightarrow> [] | Some c \<Rightarrow> tp_rows c) =
    (case ctx of None \<Rightarrow> [] | Some c \<Rightarrow> tp_rows c) @ [as_imported k e]"
proof -
  have r: "row_ok (as_imported k e)" using assms by (simp add: as_imported_def row_ok_def)
  have v: "if te_range (as_imported k e) then tg_entry_valid_range (as_imported k e) else tg_entry_valid_exact (as_imported k e)"
    using r by (auto simp: row_ok_def tg_entry_valid_range_def tg_entry_valid_exact_def not_less)
  have a: "tp_rows (fst (tg_store_append True (as_imported k e) c)) = tp_rows c @ [as_imported k e]" for c
  proof -
    obtain c1 where c1: "tg_table_reserve True (length (tp_rows c) + 1) c = Some c1" "tp_rows c1 = tp_rows c"
      by (cases "length (tp_rows c) + 1 \<le> tp_capacity c") (auto simp: tg_table_reserve_def Let_def)
    have "as_imported k e\<lparr>te_end := te_start (as_imported k e)\<rparr> = as_imported k e" if "\<not> te_range (as_imported k e)"
      using that r by (cases "as_imported k e") (simp add: row_ok_def)
    then show ?thesis using v c1 by (auto simp: tg_store_append_def row_ok_normalized [OF r] Let_def)
  qed
  show ?thesis using v by (auto simp: import_entry_def group_commit_entry_def a fresh_ctx_def split: option.split)
qed

lemma import_all_rows:
  "\<forall>e\<in>set es. row_ok e \<Longrightarrow>
   (case import_all ident k es ctx of None \<Rightarrow> [] | Some c \<Rightarrow> tp_rows c) =
   (case ctx of None \<Rightarrow> [] | Some c \<Rightarrow> tp_rows c) @ map (\<lambda>i. as_imported (k + of_nat i + 1) (es ! i)) [0..<length es]"
proof (induction es arbitrary: k ctx)
  case (Cons e es)
  have "map (\<lambda>i. as_imported (k + of_nat i + 1) ((e # es) ! i)) [0..<length (e # es)] =
      as_imported (k + 1) e # map (\<lambda>i. as_imported (k + 1 + of_nat i + 1) (es ! i)) [0..<length es]"
    by (simp add: upt_conv_Cons map_Suc_upt [symmetric] o_def add_ac del: upt_Suc)
  with Cons show ?case by (simp add: commit_rows)
qed simp

lemma imported_file_rows:
  fixes p :: bool
  assumes "\<forall>e\<in>set es. row_ok e \<and> csv_clean e" "length es + 1 < 2 ^ 32"
  defines "file \<equiv> tg_write_group_table es p (list_ex (\<lambda>e. te_tags e \<noteq> []) es)"
  assumes p: "\<not> p \<Longrightarrow> \<not> list_ex tg_entry_requires_extended_csv es"
  shows "(case group_import_path (\<lambda>_. (True, True)) ident file of None \<Rightarrow> [] | Some c \<Rightarrow> tp_rows c) =
    map (\<lambda>i. as_imported (of_nat i + 2) (es ! i)) [0..<length es]"
proof -
  define t where "t = list_ex (\<lambda>e. te_tags e \<noteq> []) es"
  have fits: "\<forall>e\<in>set es. row_ok e \<and> csv_clean e \<and> layout_fits p t e"
    using assms(1) p by (auto simp: layout_fits_def t_def list_ex_iff)
  define head where "head = butlast (tg_header_line p t)"
  have hl: "tg_header_line p t = head @ [CHR 0x0A]" by (simp add: head_def tg_header_line_def)
  have body: "concat (map (\<lambda>e. tg_write_group_row e (tg_id_text e) p t (tg_csv_sanitize_copy TG_MODE_SIZE (te_mode e))
       (tg_csv_sanitize_copy TG_NAME_SIZE (te_name e)) (tg_csv_sanitize_copy TG_TAGS_SIZE (te_tags e))) es) =
      concat (map (\<lambda>e. row_text p t e @ [CHR 0x0A]) es)" (is "_ = ?body")
    using assms(1) by (intro arg_cong [where f = concat] map_cong) (auto simp: written_row row_text_def)
  have hd: "CHR 0x0A \<notin> set head" "CHR 0x00 \<notin> set head" "length head < CSV_LINE_SIZE" "last head \<noteq> CHR 0x0D"
    "\<forall>c\<in>set head. c \<noteq> CHR 0x0A \<and> c \<noteq> CHR 0x0D"
    by (cases p; cases t; simp add: head_def tg_header_line_def CSV_LINE_SIZE_def)+
  have f: "file = head @ CHR 0x0A # ?body" unfolding file_def tg_write_group_table_def t_def [symmetric] hl body by simp
  have "group_import_path (\<lambda>_. (True, True)) ident file = group_import_loop (\<lambda>_. (True, True)) ident 1 (layout_header p t) None ?body"
    unfolding group_import_path_def f
    by (subst group_import_loop.simps)
       (simp add: read_plain_line [OF hd(1-3) disjI2 [OF hd(4)]] trim_eol_plain [OF hd(5)] layout_header_parsed [of p t, folded head_def] Let_def)
  also have "\<dots> = import_all ident 1 es None" using import_rows [OF fits, of 1] assms(2) by simp
  finally show ?thesis using import_all_rows [of es ident 1 None] assms(1) by (simp add: add_ac)
qed

lemma cell_free_other: "a \<noteq> b \<Longrightarrow> cell a (tg_context_free b w) = cell a w"
  by (simp add: tg_context_free_def Let_def split: option.split)

lemma const_after_set:
  assumes "h < length (tw_hosts w)" "cell a w = Some c" "ext_get h w \<noteq> Some a"
  shows "tg_ctx_get_const h (ext_set h (Some a) w) = Some c"
proof -
  have "cell a (w\<lparr>tw_hosts := hs\<rparr>) = cell a w" for w hs by (simp add: cell_def)
  with assms show ?thesis
    by (cases "ext_get h w") (auto simp: ext_set_def Let_def tg_ctx_get_const_def cell_free_other ext_get_def)
qed

lemma reloaded_rows:
  assumes "owned xs w" "h < length (tw_hosts w)" "list_all row_ok (case cand of None \<Rightarrow> [] | Some c \<Rightarrow> tp_rows c)"
    "dsd_tg_policy_reload_group_file True True (Some cand) h w = (w', rc)"
  shows "rc = 0 \<and> (case tg_ctx_get_const h w' of None \<Rightarrow> [] | Some c \<Rightarrow> tp_rows c) = (case cand of None \<Rightarrow> [] | Some c \<Rightarrow> tp_rows c)"
proof -
  have v: "tg_reload_validate_candidate (case cand of None \<Rightarrow> [] | Some c \<Rightarrow> tp_rows c)"
    using assms(3) by (auto simp: tg_reload_validate_candidate_def list_all_iff row_ok_def tg_terminated_def
        tg_entry_valid_range_def tg_entry_valid_exact_def not_less)
  obtain a w1 c0 where new: "(case cand of Some c \<Rightarrow> Some (length (tw_heap w), w\<lparr>tw_heap := tw_heap w @ [Some c]\<rparr>)
      | None \<Rightarrow> tg_context_alloc True w) = Some (a, w1)"
    and c0: "cell a w1 = Some c0" "tp_rows c0 = (case cand of None \<Rightarrow> [] | Some c \<Rightarrow> tp_rows c)"
    and hosts: "tw_hosts w1 = tw_hosts w" and a: "a = length (tw_heap w)"
  proof (cases cand)
    case None
    show thesis
    proof (rule that [of _ _ "fresh_ctx (fst (tg_next_context_id w))"])
      show "(case cand of Some c \<Rightarrow> Some (length (tw_heap w), w\<lparr>tw_heap := tw_heap w @ [Some c]\<rparr>) | None \<Rightarrow> tg_context_alloc True w) =
        Some (length (tw_heap w), snd (tg_next_context_id w)\<lparr>tw_heap := tw_heap w @ [Some (fresh_ctx (fst (tg_next_context_id w)))]\<rparr>)"
        by (simp add: None tg_context_alloc_def tg_next_context_id_def Let_def)
    qed (simp_all add: None cell_def tg_next_context_id_def Let_def fresh_ctx_def)
  next
    case (Some c)
    show thesis by (rule that [of "length (tw_heap w)" "w\<lparr>tw_heap := tw_heap w @ [Some c]\<rparr>" c]) (simp_all add: Some cell_def)
  qed
  let ?w2 = "fst (on_ctx a (\<lambda>c. (next_generations h w c, 0)) w1)"
  have "w' = ext_set h (Some a) ?w2" "rc = 0"
    using assms(4) v new by (auto simp: dsd_tg_policy_reload_group_file_def)
  moreover have "cell a ?w2 = Some (next_generations h w c0)" using c0(1) cell_live [OF c0(1)] by (simp add: on_ctx_def)
  moreover have "ext_get h ?w2 \<noteq> Some a"
    using slot_live [OF assms(1), of h a] hosts a by (auto simp: ext_get_def cell_def split: if_splits)
  ultimately show ?thesis
    using const_after_set [of h ?w2 a "next_generations h w c0"] assms(2) hosts c0(2)
    by (simp add: next_generations_def split: option.split)
qed

text \<open>C24: saving a state's groups and reloading the file gives back the same rows in the same order, apart
  from their origin, which is now the file and the line: whatever the existing file looked like, with
  ranges, priorities, flags and tags, for rows with clean texts (no comma, line end or NUL in the mode, the
  name and the tags, and no blanks around the mode and the tags).\<close>

theorem saved_groups_reload:
  fixes existing :: "string option"
  assumes "accounted w" "h < length (tw_hosts w)" "tg_ctx_get_const h w = Some c"
    and "\<forall>e\<in>set (tp_rows c). csv_clean e" "length (tp_rows c) + 1 < 2 ^ 32"
  defines "file \<equiv> dsd_tg_policy_write_group_file existing (Some c)"
  assumes "dsd_tg_policy_reload_group_file True True (Some (group_import_path (\<lambda>_. (True, True)) ident file)) h w = (w', rc)"
  shows "rc = 0 \<and> (case tg_ctx_get_const h w' of None \<Rightarrow> [] | Some c' \<Rightarrow> tp_rows c') =
    map (\<lambda>i. as_imported (of_nat i + 2) (tp_rows c ! i)) [0..<length (tp_rows c)]"
proof -
  obtain xs where o: "owned xs w" using assms(1) by (auto simp: accounted_def)
  have ok: "\<forall>e\<in>set (tp_rows c). row_ok e \<and> csv_clean e" using const_ok [OF o assms(3)] assms(4) by (simp add: ctx_ok_def)
  have rows: "(case group_import_path (\<lambda>_. (True, True)) ident file of None \<Rightarrow> [] | Some c \<Rightarrow> tp_rows c) =
      map (\<lambda>i. as_imported (of_nat i + 2) (tp_rows c ! i)) [0..<length (tp_rows c)]"
    unfolding file_def dsd_tg_policy_write_group_file_def
    by (cases "tg_probe_group_file existing") (simp add: Let_def, rule imported_file_rows [OF ok assms(5)], simp)
  have "row_ok (as_imported k (tp_rows c ! i))" if "i < length (tp_rows c)" for i k
    using that ok by (simp add: as_imported_def row_ok_def)
  then have "list_all row_ok (case group_import_path (\<lambda>_. (True, True)) ident file of None \<Rightarrow> [] | Some c \<Rightarrow> tp_rows c)"
    unfolding rows by (auto simp: list_all_iff)
  from reloaded_rows [OF o assms(2) this assms(7)] show ?thesis unfolding rows .
qed

definition saved_demo :: "tg_world \<times> int" where
  "saved_demo = dsd_tg_policy_reload_group_file True True
     (Some (group_import_path (\<lambda>_. (True, True)) 99
       (dsd_tg_policy_write_group_file None (tg_ctx_get_const 0 (tg.run demo_tg_ops demo_tg_world))))) 0 (tg.run demo_tg_ops demo_tg_world)"

lemma saved_groups_reload_witness:
  "snd saved_demo = 0 \<and> dsd_tg_policy_entry_at 0 1 (fst saved_demo) \<noteq> None"
proof -
  let ?w = "tg.run demo_tg_ops demo_tg_world"
  have o: "accounted ?w" by (rule tg.run_inv [OF tg.start_inv [OF demo_start] demo_allowed])
  have h: "0 < length (tw_hosts ?w)" unfolding tg.run_def by code_simp
  have "tg_ctx_get_const 0 ?w \<noteq> None" unfolding tg.run_def by code_simp
  then obtain c where c: "tg_ctx_get_const 0 ?w = Some c" by blast
  have "list_all csv_clean (case tg_ctx_get_const 0 ?w of None \<Rightarrow> [] | Some c \<Rightarrow> tp_rows c) \<and>
      length (case tg_ctx_get_const 0 ?w of None \<Rightarrow> [] | Some c \<Rightarrow> tp_rows c) = 2"
    unfolding tg.run_def by code_simp
  then have cl: "\<forall>e\<in>set (tp_rows c). csv_clean e" "length (tp_rows c) = 2" using c by (simp_all add: list_all_iff)
  then have n: "length (tp_rows c) + 1 < 2 ^ 32" by simp
  have s: "dsd_tg_policy_reload_group_file True True
      (Some (group_import_path (\<lambda>_. (True, True)) 99 (dsd_tg_policy_write_group_file None (Some c)))) 0 ?w = (fst saved_demo, snd saved_demo)"
    by (simp add: saved_demo_def c)
  from saved_groups_reload [OF o h c cl(1) n s] cl(2) show ?thesis
    by (cases "tg_ctx_get_const 0 (fst saved_demo)") (auto simp: dsd_tg_policy_entry_at_def upt_rec [of 0])
qed

text \<open>
  A row appended to a file whose last line has no line end joins that line: the text of both is one row.
\<close>

lemma appended_row_joins_open_line:
  "dsd_tg_policy_append_group_file_row (Some (''id,mode,name'' @ [CHR 0x0A] @ ''100,A,Fire'')) (tg_make_exact_entry 200 ''D'' ''Unit'' TG_SOURCE_RUNTIME_ALIAS) [] =
     (Some (''id,mode,name'' @ [CHR 0x0A] @ ''100,A,Fire200,D,Unit'' @ [CHR 0x0A]), 0)"
  by code_simp

end
