(* ===== verification/Fec_Rs.thy ===== *)
theory Fec_Rs
  imports Prelude
begin

text \<open>
  The Reed-Solomon (12,9) code of \<open>src/fec/rs-12-9.c\<close> and the check of a full link control that
  uses it, \<open>ComputeAndCorrectFullLinkControlCrc\<close> of \<open>src/protocol/dmr/dmr_utils.c\<close>.

  Bytes are words of width 8, polynomials and codewords lists of bytes. The signed temporaries of the
  polynomial product are only stored and xored, so their sign does not matter.
\<close>

section \<open>The field\<close>

definition RS_DATASIZE :: nat where "RS_DATASIZE = 9"
definition RS_CHECKSUMSIZE :: nat where "RS_CHECKSUMSIZE = 3"
definition RS_POLY_MAXDEG :: nat where "RS_POLY_MAXDEG = 6"

definition galois_exp_table :: "u8 list" where
  "galois_exp_table = [
    1, 2, 4, 8, 16, 32, 64, 128, 29, 58, 116, 232, 205, 135, 19, 38, 76, 152, 45, 90, 180, 117, 234, 201, 143, 3, 6,
    12, 24, 48, 96, 192, 157, 39, 78, 156, 37, 74, 148, 53, 106, 212, 181, 119, 238, 193, 159, 35, 70, 140, 5, 10, 20,
    40, 80, 160, 93, 186, 105, 210, 185, 111, 222, 161, 95, 190, 97, 194, 153, 47, 94, 188, 101, 202, 137, 15, 30, 60,
    120, 240, 253, 231, 211, 187, 107, 214, 177, 127, 254, 225, 223, 163, 91, 182, 113, 226, 217, 175, 67, 134, 17, 34,
    68, 136, 13, 26, 52, 104, 208, 189, 103, 206, 129, 31, 62, 124, 248, 237, 199, 147, 59, 118, 236, 197, 151, 51,
    102, 204, 133, 23, 46, 92, 184, 109, 218, 169, 79, 158, 33, 66, 132, 21, 42, 84, 168, 77, 154, 41, 82, 164, 85,
    170, 73, 146, 57, 114, 228, 213, 183, 115, 230, 209, 191, 99, 198, 145, 63, 126, 252, 229, 215, 179, 123, 246, 241,
    255, 227, 219, 171, 75, 150, 49, 98, 196, 149, 55, 110, 220, 165, 87, 174, 65, 130, 25, 50, 100, 200, 141, 7, 14,
    28, 56, 112, 224, 221, 167, 83, 166, 81, 162, 89, 178, 121, 242, 249, 239, 195, 155, 43, 86, 172, 69, 138, 9, 18,
    36, 72, 144, 61, 122, 244, 245, 247, 243, 251, 235, 203, 139, 11, 22, 44, 88, 176, 125, 250, 233, 207, 131, 27, 54,
    108, 216, 173, 71, 142, 1
  ]"

definition galois_log_table :: "nat list" where
  "galois_log_table = [
    0, 0, 1, 25, 2, 50, 26, 198, 3, 223, 51, 238, 27, 104, 199, 75, 4, 100, 224, 14, 52, 141, 239, 129, 28, 193, 105,
    248, 200, 8, 76, 113, 5, 138, 101, 47, 225, 36, 15, 33, 53, 147, 142, 218, 240, 18, 130, 69, 29, 181, 194, 125,
    106, 39, 249, 185, 201, 154, 9, 120, 77, 228, 114, 166, 6, 191, 139, 98, 102, 221, 48, 253, 226, 152, 37, 179, 16,
    145, 34, 136, 54, 208, 148, 206, 143, 150, 219, 189, 241, 210, 19, 92, 131, 56, 70, 64, 30, 66, 182, 163, 195, 72,
    126, 110, 107, 58, 40, 84, 250, 133, 186, 61, 202, 94, 155, 159, 10, 21, 121, 43, 78, 212, 229, 172, 115, 243, 167,
    87, 7, 112, 192, 247, 140, 128, 99, 13, 103, 74, 222, 237, 49, 197, 254, 24, 227, 165, 153, 119, 38, 184, 180, 124,
    17, 68, 146, 217, 35, 32, 137, 46, 55, 63, 209, 91, 149, 188, 207, 205, 144, 135, 151, 178, 220, 252, 190, 97, 242,
    86, 211, 171, 20, 42, 93, 158, 132, 60, 57, 83, 71, 109, 65, 162, 31, 45, 67, 216, 183, 123, 164, 118, 196, 23, 73,
    236, 127, 12, 111, 246, 108, 161, 59, 82, 41, 157, 85, 170, 251, 96, 134, 177, 187, 204, 62, 90, 203, 89, 95, 176,
    156, 169, 160, 81, 11, 245, 22, 235, 122, 117, 44, 215, 79, 174, 213, 233, 230, 231, 173, 232, 116, 214, 244, 234,
    168, 80, 88, 175
  ]"

definition gexp :: "nat \<Rightarrow> u8" where "gexp i = galois_exp_table ! i"
definition glog :: "u8 \<Rightarrow> nat" where "glog a = galois_log_table ! unat a"

definition galois_multiplication :: "u8 \<Rightarrow> u8 \<Rightarrow> u8" where
  "galois_multiplication a b = (if a = 0 \<or> b = 0 then 0 else gexp ((glog a + glog b) mod 255))"

definition galois_inv :: "u8 \<Rightarrow> u8" where
  "galois_inv elt = gexp (255 - glog elt)"

section \<open>Polynomials and the decoder\<close>

definition multiply_poly_z :: "u8 list \<Rightarrow> u8 list" where
  "multiply_poly_z p = 0 # take (RS_POLY_MAXDEG - 1) p"

text \<open>One row of the product: \<open>p2\<close> scaled, padded to the double length and shifted right.\<close>

definition product_row :: "u8 list \<Rightarrow> u8 \<Rightarrow> nat \<Rightarrow> u8 list" where
  "product_row p2 a i =
     replicate i 0 @ take (RS_POLY_MAXDEG * 2 - i)
       (map (\<lambda>b. galois_multiplication b a) p2 @ replicate RS_POLY_MAXDEG 0)"

fun multiplicate_loop :: "u8 list \<Rightarrow> u8 list \<Rightarrow> nat \<Rightarrow> u8 list \<Rightarrow> u8 list" where
  "multiplicate_loop [] p2 i dst = dst"
| "multiplicate_loop (a # as) p2 i dst = multiplicate_loop as p2 (Suc i) (map2 (XOR) dst (product_row p2 a i))"

definition multiplicate_polys :: "u8 list \<Rightarrow> u8 list \<Rightarrow> u8 list" where
  "multiplicate_polys p1 p2 = multiplicate_loop p1 p2 0 (replicate (RS_POLY_MAXDEG * 2) 0)"

definition calc_error_evaluator_poly :: "u8 list \<Rightarrow> u8 list \<Rightarrow> u8 list" where
  "calc_error_evaluator_poly locator syndrome =
     take RS_CHECKSUMSIZE (multiplicate_polys locator syndrome) @ replicate (RS_POLY_MAXDEG - RS_CHECKSUMSIZE) 0"

definition compute_discrepancy :: "u8 list \<Rightarrow> u8 list \<Rightarrow> nat \<Rightarrow> nat \<Rightarrow> u8" where
  "compute_discrepancy locator syndrome l n =
     foldl (\<lambda>sum i. sum XOR galois_multiplication (locator ! i) (syndrome ! (n - i))) 0 [0..<Suc l]"

text \<open>The iteration for one \<open>n\<close>, on the locator, the correction polynomial, \<open>L\<close> and \<open>k\<close>.\<close>

definition massey_step :: "u8 list \<Rightarrow> nat \<Rightarrow> u8 list \<times> u8 list \<times> nat \<times> int \<Rightarrow> u8 list \<times> u8 list \<times> nat \<times> int" where
  "massey_step syndrome n = (\<lambda>(locator, d_poly, l, k).
     (let d = compute_discrepancy locator syndrome l n;
          (locator1, d1, l1, k1) =
            (if d \<noteq> 0
             then (let psi2 = map2 (\<lambda>a b. a XOR galois_multiplication d b) locator d_poly
                   in if int l < int n - k
                      then (psi2, map (\<lambda>a. galois_multiplication a (galois_inv d)) locator, nat (int n - k), int n - int l)
                      else (psi2, d_poly, l, k))
             else (locator, d_poly, l, k))
      in (locator1, multiply_poly_z d1, l1, k1)))"

definition rs_calculate :: "u8 list \<Rightarrow> u8 list \<times> u8 list" where
  "rs_calculate syndrome =
     (let (locator, _, _, _) = fold (massey_step syndrome) [0..<RS_CHECKSUMSIZE] ([1, 0, 0, 0, 0, 0], [0, 1, 0, 0, 0, 0], 0, -1)
      in (locator, calc_error_evaluator_poly locator syndrome))"

definition chien_sum :: "u8 list \<Rightarrow> nat \<Rightarrow> u8" where
  "chien_sum locator r =
     foldl (\<lambda>sum k. sum XOR galois_multiplication (gexp ((k * r) mod 255)) (locator ! k)) 0 [0..<RS_CHECKSUMSIZE + 1]"

definition find_roots :: "u8 list \<Rightarrow> nat list" where
  "find_roots locator = map (\<lambda>r. 255 - r) (filter (\<lambda>r. chien_sum locator r = 0) [1..<256])"

definition calc_syndrome :: "u8 list \<Rightarrow> u8 list" where
  "calc_syndrome codeword =
     map (\<lambda>j. foldl (\<lambda>s c. c XOR galois_multiplication (gexp (j + 1)) s) 0 codeword) [0..<3] @ replicate 3 0"

definition check_syndrome :: "u8 list \<Rightarrow> bool" where
  "check_syndrome syndrome \<longleftrightarrow> list_ex (\<lambda>i. syndrome ! i \<noteq> 0) [0..<3]"

datatype rs_result = NO_ERRORS_FOUND | ERRORS_CORRECTED | ERRORS_CANT_BE_CORRECTED

definition error_value :: "u8 list \<Rightarrow> u8 list \<Rightarrow> nat \<Rightarrow> u8" where
  "error_value locator evaluator i =
     (let num = foldl (\<lambda>s j. s XOR galois_multiplication (evaluator ! j) (gexp (((255 - i) * j) mod 255))) 0 [0..<RS_POLY_MAXDEG];
          denom = foldl (\<lambda>s j. s XOR galois_multiplication (locator ! j) (gexp (((255 - i) * (j - 1)) mod 255))) 0 [1, 3, 5]
      in galois_multiplication num (galois_inv denom))"

definition correct_errors :: "u8 list \<Rightarrow> u8 list \<Rightarrow> u8 list \<times> rs_result \<times> nat" where
  "correct_errors codeword syndrome =
     (let (locator, evaluator) = rs_calculate syndrome;
          roots = find_roots locator;
          errors = length roots
      in if errors = 0 then (codeword, NO_ERRORS_FOUND, errors)
         else if errors \<le> RS_CHECKSUMSIZE
         then (if list_ex (\<lambda>i. i \<ge> RS_DATASIZE + RS_CHECKSUMSIZE) roots then (codeword, ERRORS_CANT_BE_CORRECTED, errors)
               else (foldl (\<lambda>w i. w[11 - i := w ! (11 - i) XOR error_value locator evaluator i]) codeword roots, ERRORS_CORRECTED, errors))
         else (codeword, ERRORS_CANT_BE_CORRECTED, errors))"

section \<open>The check of a full link control\<close>

definition lc_mask :: "u32 \<Rightarrow> u8 list \<Rightarrow> u8 list" where
  "lc_mask crc_mask bytes =
     (let m = bytes[9 := bytes ! 9 XOR ucast (drop_bit 16 crc_mask)];
          m1 = m[10 := m ! 10 XOR ucast (drop_bit 8 crc_mask)]
      in m1[11 := m1 ! 11 XOR ucast crc_mask])"

text \<open>The bytes afterwards, the computed CRC and whether it is reported correct.\<close>

definition ComputeAndCorrectFullLinkControlCrc :: "u8 list \<Rightarrow> u32 \<Rightarrow> u8 list \<times> u32 \<times> bool" where
  "ComputeAndCorrectFullLinkControlCrc bytes crc_mask =
     (let word = lc_mask crc_mask bytes;
          syndrome = calc_syndrome word;
          (word1, result) =
            (if check_syndrome syndrome then (case correct_errors word syndrome of (w, r, _) \<Rightarrow> (w, r)) else (word, NO_ERRORS_FOUND));
          crc = push_bit 16 (ucast (word1 ! 9)) OR push_bit 8 (ucast (word1 ! 10)) OR ucast (word1 ! 11)
      in if result = NO_ERRORS_FOUND \<or> result = ERRORS_CORRECTED then (lc_mask crc_mask word1, crc, True) else (bytes, crc, False))"

section \<open>Field laws\<close>

definition rs_xtime :: "u8 \<Rightarrow> u8" where
  "rs_xtime b = push_bit 1 b XOR (if bit b 7 then 0x1D else 0)"

fun iter_xtime :: "nat \<Rightarrow> u8 \<Rightarrow> u8 list" where
  "iter_xtime 0 x = []"
| "iter_xtime (Suc n) x = x # iter_xtime n (rs_xtime x)"

lemma exp_table_iter: "galois_exp_table = iter_xtime 256 1"
  by code_simp

text \<open>The logarithms in rows of sixteen, so that a lookup is two short ones.\<close>

definition log_rows :: "nat list list" where
  "log_rows = [
    [0, 0, 1, 25, 2, 50, 26, 198, 3, 223, 51, 238, 27, 104, 199, 75],
    [4, 100, 224, 14, 52, 141, 239, 129, 28, 193, 105, 248, 200, 8, 76, 113],
    [5, 138, 101, 47, 225, 36, 15, 33, 53, 147, 142, 218, 240, 18, 130, 69],
    [29, 181, 194, 125, 106, 39, 249, 185, 201, 154, 9, 120, 77, 228, 114, 166],
    [6, 191, 139, 98, 102, 221, 48, 253, 226, 152, 37, 179, 16, 145, 34, 136],
    [54, 208, 148, 206, 143, 150, 219, 189, 241, 210, 19, 92, 131, 56, 70, 64],
    [30, 66, 182, 163, 195, 72, 126, 110, 107, 58, 40, 84, 250, 133, 186, 61],
    [202, 94, 155, 159, 10, 21, 121, 43, 78, 212, 229, 172, 115, 243, 167, 87],
    [7, 112, 192, 247, 140, 128, 99, 13, 103, 74, 222, 237, 49, 197, 254, 24],
    [227, 165, 153, 119, 38, 184, 180, 124, 17, 68, 146, 217, 35, 32, 137, 46],
    [55, 63, 209, 91, 149, 188, 207, 205, 144, 135, 151, 178, 220, 252, 190, 97],
    [242, 86, 211, 171, 20, 42, 93, 158, 132, 60, 57, 83, 71, 109, 65, 162],
    [31, 45, 67, 216, 183, 123, 164, 118, 196, 23, 73, 236, 127, 12, 111, 246],
    [108, 161, 59, 82, 41, 157, 85, 170, 251, 96, 134, 177, 187, 204, 62, 90],
    [203, 89, 95, 176, 156, 169, 160, 81, 11, 245, 22, 235, 122, 117, 44, 215],
    [79, 174, 213, 233, 230, 231, 173, 232, 116, 214, 244, 234, 168, 80, 88, 175]]"

lemma nth_rows:
  "\<forall>r\<in>set rows. length r = n \<Longrightarrow> 0 < n \<Longrightarrow> i < n * length rows \<Longrightarrow> concat rows ! i = rows ! (i div n) ! (i mod n)"
proof (induction rows arbitrary: i)
  case (Cons r rows)
  show ?case
  proof (cases "i < n")
    case False
    then have "i div n = Suc ((i - n) div n)" "i mod n = (i - n) mod n" using Cons.prems(2) by (simp_all add: le_div_geq le_mod_geq)
    with Cons False show ?thesis by (simp add: nth_append)
  qed (use Cons.prems in \<open>simp add: nth_append\<close>)
qed simp

lemma log_table_rows: "galois_log_table = concat log_rows"
  by (simp add: galois_log_table_def log_rows_def)

lemma glog_rows: "glog a = log_rows ! (unat a div 16) ! (unat a mod 16)"
proof -
  have "list_all (\<lambda>r. length r = 16) log_rows" "length log_rows = 16" by (simp_all add: log_rows_def)
  then show ?thesis unfolding glog_def log_table_rows
    by (intro nth_rows) (use unsigned_less [of a, where ?'a = nat] in \<open>auto simp: list_all_iff\<close>)
qed

fun logs_from :: "nat \<Rightarrow> u8 list \<Rightarrow> bool" where
  "logs_from i [] = True"
| "logs_from i (e # es) = (e \<noteq> 0 \<and> log_rows ! (unat e div 16) ! (unat e mod 16) = i \<and> logs_from (i + 1) es)"

lemma logs_from_nth: "logs_from i es \<Longrightarrow> k < length es \<Longrightarrow> es ! k \<noteq> 0 \<and> log_rows ! (unat (es ! k) div 16) ! (unat (es ! k) mod 16) = i + k"
  by (induction i es arbitrary: k rule: logs_from.induct) (auto simp: nth_Cons split: nat.splits)

lemma log_exp_table: "logs_from 0 (take 255 galois_exp_table)"
  by (simp add: galois_exp_table_def log_rows_def)

lemma iter_xtime_nth: "i < n \<Longrightarrow> iter_xtime n x ! i = (rs_xtime ^^ i) x"
  by (induction n arbitrary: i x) (auto simp: nth_Cons funpow_swap1 split: nat.split)

lemma gexp_iter: "i < 256 \<Longrightarrow> gexp i = (rs_xtime ^^ i) 1"
  by (simp add: gexp_def exp_table_iter iter_xtime_nth)

lemma glog_gexp: "i < 255 \<Longrightarrow> glog (gexp i) = i \<and> gexp i \<noteq> 0"
proof -
  assume i: "i < 255"
  have l: "length galois_exp_table = 256" by (simp add: galois_exp_table_def)
  with i show ?thesis using logs_from_nth [OF log_exp_table, of i] by (simp add: gexp_def glog_rows)
qed

text \<open>Every non-zero byte is a power, so the tables invert each other.\<close>

lemma powers_cover: "gexp ` {..<255} = {a. a \<noteq> 0}"
proof (rule card_subset_eq)
  have "inj_on gexp {..<255}" using glog_gexp by (metis inj_onI lessThan_iff)
  then have "card (gexp ` {..<255}) = 255" by (simp add: card_image)
  moreover have "card {a :: u8. a \<noteq> 0} = 255"
  proof -
    have "{a :: u8. a \<noteq> 0} = UNIV - {0}" by auto
    then show ?thesis by (simp add: card_Diff_subset card_word)
  qed
  ultimately show "card (gexp ` {..<255}) = card {a :: u8. a \<noteq> 0}" by simp
qed (use glog_gexp in auto)

lemma gexp_glog: "a \<noteq> 0 \<Longrightarrow> gexp (glog a) = a \<and> glog a < 255"
proof -
  assume "a \<noteq> 0"
  then obtain i where "i < 255" "a = gexp i" using powers_cover by blast
  with glog_gexp show ?thesis by auto
qed

lemma gexp_255: "gexp 255 = 1"
  by code_simp

lemma funpow_xtime_255: "(rs_xtime ^^ 255) 1 = 1"
  using gexp_iter [of 255] gexp_255 by simp

lemma funpow_mod: "(f ^^ m) x = x \<Longrightarrow> 0 < m \<Longrightarrow> (f ^^ (n mod m)) x = (f ^^ n) x"
  by (metis funpow_mod_eq)

lemma gexp_add: "i < 255 \<Longrightarrow> j < 255 \<Longrightarrow> gexp ((i + j) mod 255) = (rs_xtime ^^ i) (gexp j)"
proof -
  assume "i < 255" "j < 255"
  then have "gexp ((i + j) mod 255) = (rs_xtime ^^ ((i + j) mod 255)) 1" by (intro gexp_iter) simp
  also have "\<dots> = (rs_xtime ^^ (i + j)) 1" by (rule funpow_mod [OF funpow_xtime_255]) simp
  also have "\<dots> = (rs_xtime ^^ i) (gexp j)" using \<open>j < 255\<close> by (simp add: funpow_add gexp_iter)
  finally show ?thesis .
qed

lemma rs_xtime_xor: "rs_xtime (a XOR b) = rs_xtime a XOR rs_xtime b"
  by (auto simp: rs_xtime_def bit_xor_iff push_bit_xor ac_simps xor.left_commute)

lemma rs_xtime_zero: "(rs_xtime ^^ i) 0 = 0"
  by (induction i) (simp_all add: rs_xtime_def)

lemma mult_pow: "a \<noteq> 0 \<Longrightarrow> galois_multiplication a b = (rs_xtime ^^ glog a) b"
  by (cases "b = 0") (simp_all add: galois_multiplication_def rs_xtime_zero gexp_add gexp_glog)

lemma funpow_xtime_xor: "(rs_xtime ^^ i) (a XOR b) = (rs_xtime ^^ i) a XOR (rs_xtime ^^ i) b"
  by (induction i) (simp_all add: rs_xtime_xor)

lemma mult_zero [simp]: "galois_multiplication 0 b = 0" "galois_multiplication a 0 = 0"
  by (simp_all add: galois_multiplication_def)

lemma mult_xor_right: "galois_multiplication a (b XOR c) = galois_multiplication a b XOR galois_multiplication a c"
  by (cases "a = 0") (simp_all add: mult_pow funpow_xtime_xor)

lemma mult_commute: "galois_multiplication a b = galois_multiplication b a"
  by (simp add: galois_multiplication_def add.commute)

lemma mult_xor_left: "galois_multiplication (b XOR c) a = galois_multiplication b a XOR galois_multiplication c a"
  by (metis mult_commute mult_xor_right)

lemma mult_nonzero: "a \<noteq> 0 \<Longrightarrow> b \<noteq> 0 \<Longrightarrow> galois_multiplication a b \<noteq> 0 \<and> glog (galois_multiplication a b) = (glog a + glog b) mod 255"
  by (simp add: galois_multiplication_def glog_gexp)

lemma mult_assoc: "galois_multiplication (galois_multiplication a b) c = galois_multiplication a (galois_multiplication b c)"
proof (cases "a = 0 \<or> b = 0 \<or> c = 0")
  case False
  then have "galois_multiplication (galois_multiplication a b) c = gexp ((glog a + glog b + glog c) mod 255)"
    "galois_multiplication a (galois_multiplication b c) = gexp ((glog a + glog b + glog c) mod 255)"
    using mult_nonzero [of a b] mult_nonzero [of b c] by (simp_all add: galois_multiplication_def mod_simps add.assoc)
  then show ?thesis by simp
qed auto

lemma mult_one [simp]: "galois_multiplication 1 a = a" "galois_multiplication a 1 = a"
proof -
  have "glog 1 = 0" using glog_gexp [of 0] gexp_iter [of 0] by simp
  then show "galois_multiplication 1 a = a" by (cases "a = 0") (simp_all add: mult_pow)
  then show "galois_multiplication a 1 = a" by (simp add: mult_commute)
qed

lemma mult_inv: "a \<noteq> 0 \<Longrightarrow> galois_multiplication a (galois_inv a) = 1"
proof -
  assume a: "a \<noteq> 0"
  have l: "glog a < 255" using gexp_glog [OF a] by simp
  show ?thesis
  proof (cases "glog a = 0")
    case True
    then have "a = 1" using gexp_glog [OF a] gexp_iter [of 0] by simp
    with True show ?thesis by (simp add: galois_inv_def gexp_255)
  next
    case False
    then have "galois_inv a \<noteq> 0 \<and> glog (galois_inv a) = 255 - glog a" using l by (simp add: galois_inv_def glog_gexp)
    with a l have "galois_multiplication a (galois_inv a) = gexp 0" by (simp add: galois_multiplication_def)
    then show ?thesis using gexp_iter [of 0] by simp
  qed
qed

lemma gexp_mult: "galois_multiplication (gexp i) (gexp j) = gexp ((i + j) mod 255)" if "i < 255" "j < 255"
  using that glog_gexp [of i] glog_gexp [of j] by (simp add: galois_multiplication_def)

end
