(* ===== verification/Fec_Rs_Props.thy ===== *)
theory Fec_Rs_Props
  imports Fec_Rs
begin

text \<open>
  Correction of one damaged byte by the Reed-Solomon (12,9) decoder and by the full link control check
  that uses it: the syndrome of a damage, the iteration on such a syndrome, its only root and the error
  value there. A locator without roots is shown to be reported as a correct word.
\<close>

section \<open>One damaged byte\<close>

definition horner :: "u8 \<Rightarrow> u8 \<Rightarrow> u8 list \<Rightarrow> u8" where
  "horner g s xs = foldl (\<lambda>s c. c XOR galois_multiplication g s) s xs"

lemma horner_simps [simp]:
  "horner g s [] = s"
  "horner g s (c # xs) = horner g (c XOR galois_multiplication g s) xs"
  by (simp_all add: horner_def)

lemma horner_xor: "horner g (s XOR t) xs = horner g s xs XOR (galois_multiplication g ^^ length xs) t"
proof (induction xs arbitrary: s t)
  case (Cons c xs)
  have "c XOR galois_multiplication g (s XOR t) = (c XOR galois_multiplication g s) XOR galois_multiplication g t"
    by (simp add: mult_xor_right ac_simps)
  then show ?case using Cons [of "c XOR galois_multiplication g s" "galois_multiplication g t"] by (simp add: funpow_swap1)
qed simp

lemma mult_gexp_pow: "a < 255 \<Longrightarrow> (galois_multiplication (gexp a) ^^ n) e = galois_multiplication (gexp (a * n mod 255)) e"
proof (induction n)
  case (Suc n)
  have "(a * n mod 255 + a) mod 255 = a * Suc n mod 255" by (simp add: mod_simps add.commute)
  with Suc show ?case by (simp add: mult_assoc [symmetric] gexp_mult add.commute)
qed (use gexp_iter [of 0] in simp)

lemma horner_damage:
  assumes "p < length v" "a < 255"
  shows "horner (gexp a) 0 (v[p := v ! p XOR e]) = horner (gexp a) 0 v XOR galois_multiplication (gexp (a * (length v - 1 - p) mod 255)) e"
proof -
  let ?h = "\<lambda>s xs. horner (gexp a) s xs"
  have split: "?h 0 (take p v @ c # drop (Suc p) v) = ?h (c XOR galois_multiplication (gexp a) (?h 0 (take p v))) (drop (Suc p) v)" for c
    by (simp add: horner_def)
  have "?h 0 (v[p := v ! p XOR e]) = ?h ((v ! p XOR galois_multiplication (gexp a) (?h 0 (take p v))) XOR e) (drop (Suc p) v)"
    using assms(1) by (simp add: upd_conv_take_nth_drop split ac_simps)
  also have "\<dots> = ?h 0 (take p v @ v ! p # drop (Suc p) v) XOR (galois_multiplication (gexp a) ^^ (length v - 1 - p)) e"
    by (simp add: horner_xor split)
  finally show ?thesis using assms by (simp add: id_take_nth_drop [symmetric] mult_gexp_pow)
qed

lemma calc_syndrome_horner: "calc_syndrome w = [horner (gexp 1) 0 w, horner (gexp 2) 0 w, horner (gexp 3) 0 w, 0, 0, 0]"
  by (simp add: calc_syndrome_def horner_def numeral_eq_Suc)

text \<open>The syndrome of a word with the error \<open>e\<close> at location \<open>i\<close>, and the decoder on it.\<close>

definition one_error :: "nat \<Rightarrow> u8 \<Rightarrow> u8 list" where
  "one_error i e = [galois_multiplication (gexp i) e, galois_multiplication (gexp (2 * i)) e, galois_multiplication (gexp (3 * i)) e, 0, 0, 0]"

lemma syndrome_damage:
  assumes "length v = 12" "p < 12" "calc_syndrome v = replicate 6 0"
  shows "calc_syndrome (v[p := v ! p XOR e]) = one_error (11 - p) e"
proof -
  have "horner (gexp a) 0 (v[p := v ! p XOR e]) = galois_multiplication (gexp (a * (11 - p))) e" if "a \<in> {1, 2, 3}" for a
  proof -
    have "horner (gexp a) 0 v = 0" using assms(3) that by (auto simp: calc_syndrome_horner numeral_eq_Suc)
    moreover have "a * (11 - p) < 255" using that by auto
    ultimately show ?thesis using horner_damage [of p v a e] assms that by auto
  qed
  then show ?thesis by (simp add: calc_syndrome_horner one_error_def)
qed

lemma mult_left_commute: "galois_multiplication a (galois_multiplication b c) = galois_multiplication b (galois_multiplication a c)"
  by (metis mult_assoc mult_commute)

lemma mult_eq_zero: "galois_multiplication a b = 0 \<longleftrightarrow> a = 0 \<or> b = 0"
  using mult_nonzero by auto

lemma one_error_ratio:
  assumes "i < 12"
  shows "one_error i e = (let s = galois_multiplication (gexp i) e; x = gexp i in [s, galois_multiplication x s, galois_multiplication x (galois_multiplication x s), 0, 0, 0])"
proof -
  have "gexp (2 * i) = galois_multiplication (gexp i) (gexp i)" "gexp (3 * i) = galois_multiplication (gexp i) (gexp (2 * i))"
    using assms gexp_mult [of i i] gexp_mult [of i "2 * i"] by (simp_all add: mult_2 [symmetric])
  then show ?thesis by (simp add: one_error_def mult_assoc Let_def)
qed

text \<open>The iteration on a syndrome \<open>s, x s, x x s\<close> ends with the locator \<open>1 + x z\<close>.\<close>

lemma massey_first:
  "s \<noteq> 0 \<Longrightarrow> massey_step (s # S) 0 ([1, 0, 0, 0, 0, 0], [0, 1, 0, 0, 0, 0], 0, -1) = ([1, s, 0, 0, 0, 0], [0, galois_inv s, 0, 0, 0, 0], 1, 0)"
  by (simp add: massey_step_def compute_discrepancy_def multiply_poly_z_def RS_POLY_MAXDEG_def Let_def)

lemma massey_second:
  assumes "s \<noteq> 0"
  shows "massey_step (s # galois_multiplication x s # S) 1 ([1, s, 0, 0, 0, 0], [0, galois_inv s, 0, 0, 0, 0], 1, 0)
    = ([1, x, 0, 0, 0, 0], [0, 0, galois_inv s, 0, 0, 0], 1, 0)"
proof -
  let ?d = "galois_multiplication (x XOR s) s"
  have i: "galois_multiplication (galois_multiplication a s) (galois_inv s) = a" for a
    using assms by (simp add: mult_assoc mult_inv)
  have d: "galois_multiplication x s XOR galois_multiplication s s = galois_multiplication (x XOR s) s" by (simp add: mult_xor_left)
  have "massey_step (s # galois_multiplication x s # S) 1 ([1, s, 0, 0, 0, 0], [0, galois_inv s, 0, 0, 0, 0], 1, 0)
    = ([1, if ?d = 0 then s else s XOR galois_multiplication ?d (galois_inv s), 0, 0, 0, 0], [0, 0, galois_inv s, 0, 0, 0], 1, 0)"
    by (simp add: massey_step_def compute_discrepancy_def multiply_poly_z_def RS_POLY_MAXDEG_def Let_def d)
  moreover have "?d = 0 \<Longrightarrow> x = s" using assms by (simp add: mult_eq_zero) (metis xor.right_neutral xor_self_eq word_bw_assocs(3))
  moreover have "s XOR galois_multiplication ?d (galois_inv s) = x" by (simp add: i ac_simps xor.left_commute)
  ultimately show ?thesis by auto
qed

lemma massey_third:
  "massey_step [s, galois_multiplication x s, galois_multiplication x (galois_multiplication x s), 0, 0, 0] 2 ([1, x, 0, 0, 0, 0], D, 1, 0)
    = ([1, x, 0, 0, 0, 0], multiply_poly_z D, 1, 0)"
  by (simp add: massey_step_def compute_discrepancy_def Let_def numeral_2_eq_2)

lemma rs_calculate_one:
  assumes "i < 12" "e \<noteq> 0"
  shows "rs_calculate (one_error i e) = ([1, gexp i, 0, 0, 0, 0], [galois_multiplication (gexp i) e, 0, 0, 0, 0, 0])"
proof -
  define s x where sx: "s = galois_multiplication (gexp i) e" "x = gexp i"
  have s: "s \<noteq> 0" using assms glog_gexp [of i] by (simp add: sx mult_eq_zero)
  have e: "one_error i e = [s, galois_multiplication x s, galois_multiplication x (galois_multiplication x s), 0, 0, 0]"
    using one_error_ratio [OF assms(1), of e] by (simp add: sx Let_def)
  have "[0..<RS_CHECKSUMSIZE] = [0, 1, 2]" by (simp add: RS_CHECKSUMSIZE_def upt_conv_Cons)
  then have l: "fold (massey_step (one_error i e)) [0..<RS_CHECKSUMSIZE] ([1, 0, 0, 0, 0, 0], [0, 1, 0, 0, 0, 0], 0, -1)
      = ([1, x, 0, 0, 0, 0], multiply_poly_z [0, 0, galois_inv s, 0, 0, 0], 1, 0)"
    by (simp add: e massey_first [OF s] massey_second [OF s, simplified] massey_third [simplified])
  have "calc_error_evaluator_poly [1, x, 0, 0, 0, 0] (one_error i e) = [s, 0, 0, 0, 0, 0]"
    by (simp add: e calc_error_evaluator_poly_def multiplicate_polys_def product_row_def RS_POLY_MAXDEG_def RS_CHECKSUMSIZE_def
        numeral_eq_Suc mult_commute mult_left_commute)
  with l show ?thesis by (simp add: rs_calculate_def sx)
qed

lemma chien_one:
  assumes "r \<in> {1..<256}" "i < 12"
  shows "chien_sum [1, gexp i, 0, 0, 0, 0] r = 0 \<longleftrightarrow> r = 255 - i"
proof -
  have "[0..<RS_CHECKSUMSIZE + 1] = [0, 1, 2, 3]" by (simp add: RS_CHECKSUMSIZE_def upt_conv_Cons)
  then have "chien_sum [1, gexp i, 0, 0, 0, 0] r = 1 XOR gexp ((r mod 255 + i) mod 255)"
    using assms gexp_mult [of "r mod 255" i] gexp_iter [of 0] by (simp add: chien_sum_def)
  also have "\<dots> = 0 \<longleftrightarrow> (r mod 255 + i) mod 255 = 0"
  proof -
    have "1 XOR gexp k = 0 \<longleftrightarrow> k = 0" if "k < 255" for k
    proof
      assume "1 XOR gexp k = 0"
      then have "1 XOR (1 XOR gexp k) = 1" by simp
      then have "gexp k = gexp 0" using gexp_iter [of 0] by (simp add: xor.assoc [symmetric])
      then show "k = 0" using glog_gexp [of k] glog_gexp [of 0] that by simp
    qed (use gexp_iter [of 0] in simp)
    then show ?thesis by simp
  qed
  also have "\<dots> \<longleftrightarrow> (r + i) mod 255 = 0" by (simp add: mod_simps)
  also have "\<dots> \<longleftrightarrow> r = 255 - i"
    by (cases "r + i < 255") (use assms in \<open>auto simp: le_mod_geq\<close>)
  finally show ?thesis .
qed

lemma filter_upt_one: "a \<le> r \<Longrightarrow> r < b \<Longrightarrow> filter (\<lambda>x. x = r) [a..<b] = [r]"
  by (induction b) (auto simp: less_Suc_eq filter_empty_conv)

lemma find_roots_one: "i < 12 \<Longrightarrow> find_roots [1, gexp i, 0, 0, 0, 0] = [i]"
proof -
  assume i: "i < 12"
  have "filter (\<lambda>r. chien_sum [1, gexp i, 0, 0, 0, 0] r = 0) [1..<256] = filter (\<lambda>r. r = 255 - i) [1..<256]"
    by (rule filter_cong) (use chien_one i in auto)
  also have "\<dots> = [255 - i]" using i by (intro filter_upt_one) auto
  finally show ?thesis using i by (simp add: find_roots_def)
qed

lemma error_value_one:
  assumes "i < 12" "e \<noteq> 0"
  shows "error_value [1, gexp i, 0, 0, 0, 0] [galois_multiplication (gexp i) e, 0, 0, 0, 0, 0] i = e"
proof -
  have "[0..<RS_POLY_MAXDEG] = [0, 1, 2, 3, 4, 5]" by (simp add: RS_POLY_MAXDEG_def upt_conv_Cons)
  moreover have "gexp 0 = 1" using gexp_iter [of 0] by simp
  moreover have "galois_multiplication (galois_multiplication (gexp i) e) (galois_inv (gexp i)) = e"
  proof -
    have "gexp i \<noteq> 0" using assms glog_gexp [of i] by simp
    then have "galois_multiplication (galois_inv (gexp i)) (gexp i) = 1" using mult_inv by (simp add: mult_commute)
    then show ?thesis by (simp add: mult_commute [of "gexp i" e] mult_assoc mult_commute [of "gexp i"])
  qed
  ultimately show ?thesis by (simp add: error_value_def)
qed

text \<open>Masking touches the last three bytes only, is undone by a second masking, and commutes with a damage.\<close>

lemma lc_mask_length [simp]: "length (lc_mask m w) = length w"
  by (simp add: lc_mask_def)

lemma lc_mask_mask [simp]: "length w = 12 \<Longrightarrow> lc_mask m (lc_mask m w) = w"
  by (auto simp: lc_mask_def nth_list_update xor.assoc intro!: nth_equalityI)

lemma lc_mask_damage: "length w = 12 \<Longrightarrow> p < 12 \<Longrightarrow> lc_mask m (w[p := w ! p XOR e]) = (lc_mask m w)[p := lc_mask m w ! p XOR e]"
  by (auto simp: lc_mask_def nth_list_update ac_simps intro!: nth_equalityI)

definition crc_of :: "u8 list \<Rightarrow> u32" where
  "crc_of w = push_bit 16 (ucast (w ! 9)) OR push_bit 8 (ucast (w ! 10)) OR ucast (w ! 11)"

lemma correct_errors_one:
  assumes "length v = 12" "p < 12" "e \<noteq> 0" "calc_syndrome v = replicate 6 0"
  shows "correct_errors (v[p := v ! p XOR e]) (calc_syndrome (v[p := v ! p XOR e])) = (v, ERRORS_CORRECTED, 1)"
proof -
  have i: "11 - p < 12" using assms by simp
  have "(v[p := v ! p XOR e])[p := v ! p] = v" by simp
  then show ?thesis using assms i
    by (simp add: correct_errors_def syndrome_damage rs_calculate_one find_roots_one error_value_one
        RS_CHECKSUMSIZE_def RS_DATASIZE_def xor.assoc)
qed

text \<open>C21: A full link control that is a codeword under its mask is accepted with its own check bytes, and so
  is the same word after any change of any one of its twelve bytes: the decoder puts the original bytes
  back and reports a correct CRC.\<close>

theorem one_damaged_byte_restored:
  assumes "length bytes = 12" "p < 12" "calc_syndrome (lc_mask m bytes) = replicate 6 0"
  shows "ComputeAndCorrectFullLinkControlCrc (bytes[p := bytes ! p XOR e]) m = (bytes, crc_of (lc_mask m bytes), True)"
proof (cases "e = 0")
  case True
  then show ?thesis using assms
    by (simp add: ComputeAndCorrectFullLinkControlCrc_def check_syndrome_def crc_of_def Let_def list_ex_iff)
next
  case False
  have i: "11 - p < 12" using assms by simp
  let ?v = "lc_mask m bytes"
  let ?w = "?v[p := ?v ! p XOR e]"
  have "calc_syndrome ?w = one_error (11 - p) e" using assms by (intro syndrome_damage) simp_all
  moreover have "galois_multiplication (gexp (11 - p)) e \<noteq> 0" using False i glog_gexp [of "11 - p"] by (simp add: mult_eq_zero)
  ultimately have "check_syndrome (calc_syndrome ?w)" by (auto simp: check_syndrome_def one_error_def list_ex_iff intro!: bexI [of _ "0 :: nat"])
  then show ?thesis using assms False correct_errors_one [of ?v p e]
    by (simp add: ComputeAndCorrectFullLinkControlCrc_def lc_mask_damage crc_of_def Let_def)
qed

text \<open>C32: A word whose syndrome is not zero but whose error locator has no root is reported with a correct
  CRC and handed back unchanged: finding no error location counts as finding no error.\<close>

theorem rootless_word_accepted:
  assumes "length bytes = 12" "find_roots (fst (rs_calculate (calc_syndrome (lc_mask m bytes)))) = []"
  shows "ComputeAndCorrectFullLinkControlCrc bytes m = (bytes, crc_of (lc_mask m bytes), True)"
  using assms by (auto simp: ComputeAndCorrectFullLinkControlCrc_def correct_errors_def crc_of_def Let_def split: prod.splits)

text \<open>A quadratic locator is searched with shifts alone.\<close>

fun no_root :: "nat \<Rightarrow> u8 \<Rightarrow> u8 \<Rightarrow> u8 \<Rightarrow> bool" where
  "no_root 0 a b c \<longleftrightarrow> True"
| "no_root (Suc n) a b c \<longleftrightarrow> a XOR b XOR c \<noteq> 0 \<and> no_root n a (rs_xtime b) (rs_xtime (rs_xtime c))"

lemma no_root_nth: "no_root n a b c \<Longrightarrow> k < n \<Longrightarrow> a XOR (rs_xtime ^^ k) b XOR (rs_xtime ^^ (2 * k)) c \<noteq> 0"
proof (induction n a b c arbitrary: k rule: no_root.induct)
  case (2 n a b c)
  then show ?case by (cases k) (simp_all add: funpow_swap1)
qed simp

lemma mult_gexp: "galois_multiplication (gexp (n mod 255)) c = (rs_xtime ^^ n) c"
proof (cases "c = 0")
  case False
  have "(rs_xtime ^^ 255) c = (rs_xtime ^^ (255 + glog c)) 1"
    using False gexp_glog [of c] gexp_iter [of "glog c"] by (simp add: funpow_add)
  also have "\<dots> = (rs_xtime ^^ glog c) ((rs_xtime ^^ 255) 1)" by (subst add.commute) (simp add: funpow_add)
  also have "\<dots> = c" using False gexp_glog [of c] gexp_iter [of "glog c"] by (simp add: funpow_xtime_255)
  finally have "(rs_xtime ^^ (n mod 255)) c = (rs_xtime ^^ n) c" by (rule funpow_mod) simp
  then show ?thesis using glog_gexp [of "n mod 255"] by (simp add: mult_pow)
qed (simp add: rs_xtime_zero)

lemma xtime_numeral: "rs_xtime 0 = 0" "rs_xtime 1 = 2" "rs_xtime (numeral k) = push_bit 1 (numeral k) XOR (if bit (numeral k :: u8) 7 then 0x1D else 0)"
  by (simp_all add: rs_xtime_def)

lemma mult_gexp_123:
  "galois_multiplication (gexp 1) c = rs_xtime c"
  "galois_multiplication (gexp (Suc 0)) c = rs_xtime c"
  "galois_multiplication (gexp 2) c = rs_xtime (rs_xtime c)"
  "galois_multiplication (gexp 3) c = rs_xtime (rs_xtime (rs_xtime c))"
proof -
  have "(rs_xtime ^^ 2) c = rs_xtime (rs_xtime c)" "(rs_xtime ^^ 3) c = rs_xtime (rs_xtime (rs_xtime c))" by (simp_all add: eval_nat_numeral)
  then show "galois_multiplication (gexp 1) c = rs_xtime c" "galois_multiplication (gexp (Suc 0)) c = rs_xtime c"
      "galois_multiplication (gexp 2) c = rs_xtime (rs_xtime c)" "galois_multiplication (gexp 3) c = rs_xtime (rs_xtime (rs_xtime c))"
    using mult_gexp [of 1 c] mult_gexp [of 2 c] mult_gexp [of 3 c] by simp_all
qed

lemma rootless_quadratic: "no_root 256 a b c \<Longrightarrow> find_roots [a, b, c, 0, 0, 0] = []"
proof -
  assume n: "no_root 256 a b c"
  have "[0..<RS_CHECKSUMSIZE + 1] = [0, 1, 2, 3]" by (simp add: RS_CHECKSUMSIZE_def upt_conv_Cons)
  then have "chien_sum [a, b, c, 0, 0, 0] r = a XOR (rs_xtime ^^ r) b XOR (rs_xtime ^^ (2 * r)) c" for r
    using mult_gexp [of 0] by (simp add: chien_sum_def mult_gexp [simplified] rs_xtime_zero xor.assoc)
  then show ?thesis using no_root_nth [OF n] by (auto simp: find_roots_def filter_empty_conv)
qed

lemma one_damaged_byte_restored_witness:
  "ComputeAndCorrectFullLinkControlCrc ((replicate 9 0 @ [0x96, 0x96, 0x96])[4 := 7]) 0x969696
    = (replicate 9 0 @ [0x96, 0x96, 0x96], 0, True)"
proof -
  let ?b = "replicate 9 0 @ [0x96, 0x96, 0x96] :: u8 list"
  have "lc_mask 0x969696 ?b = replicate 12 0" by code_simp
  moreover have "calc_syndrome (replicate 12 0) = replicate 6 0" by (simp add: calc_syndrome_horner numeral_eq_Suc)
  ultimately show ?thesis using one_damaged_byte_restored [where bytes = ?b and p = 4 and m = "0x969696" and e = 7]
    by (simp add: crc_of_def nth_append)
qed

lemma rootless_word_accepted_witness:
  "check_syndrome (calc_syndrome (lc_mask 0 [1, 2, 0, 0, 0, 0, 0, 0, 0, 0, 0, 0]))
    \<and> ComputeAndCorrectFullLinkControlCrc [1, 2, 0, 0, 0, 0, 0, 0, 0, 0, 0, 0] 0 = ([1, 2, 0, 0, 0, 0, 0, 0, 0, 0, 0, 0], 0, True)"
proof -
  let ?b = "[1, 2, 0, 0, 0, 0, 0, 0, 0, 0, 0, 0] :: u8 list"
  have m: "lc_mask 0 ?b = ?b" by code_simp
  have s: "calc_syndrome ?b = [0, 159, 231, 0, 0, 0]"
    by (simp add: calc_syndrome_horner mult_gexp_123 xtime_numeral del: mult_one)
  have "fst (rs_calculate [0, 159, 231, 0, 0, 0]) = [1, 156, 159, 0, 0, 0]"
    by (simp add: rs_calculate_def massey_step_def compute_discrepancy_def RS_CHECKSUMSIZE_def RS_POLY_MAXDEG_def multiply_poly_z_def Let_def
        galois_multiplication_def galois_inv_def gexp_def glog_rows log_rows_def galois_exp_table_def upt_conv_Cons)
  moreover have "find_roots [1, 156, 159, 0, 0, 0] = []" by (rule rootless_quadratic) code_simp
  moreover have "check_syndrome [0, 159, 231, 0, 0, 0]" by (auto simp: check_syndrome_def list_ex_iff intro!: bexI [of _ "1 :: nat"])
  ultimately show ?thesis using rootless_word_accepted [where bytes = ?b and m = 0] by (simp add: m s crc_of_def)
qed

end
