(* ===== verification/Crc_Checks.thy ===== *)
theory Crc_Checks
  imports Fec_Linear
begin

text \<open>
  The cyclic redundancy checks of the DMR and P25 decoders: \<open>src/protocol/dmr/dmr_utils.c\<close>,
  \<open>src/protocol/p25/p25_crc.c\<close> and the four-bit check of \<open>src/fec/dmr_late_entry.c\<close>. A buffer of bits is a
  list of truth values, one per byte of the C buffer.

  The code computes some checks with a shift register and others by dividing a buffer in place. Both are
  here, with their equivalence, and with the detection of error bursts that follows for either.
\<close>

section \<open>The shift register\<close>

text \<open>\<open>if (((CRC >> (w-1)) & 1) ^ (bit & 1)) CRC = (CRC << 1) ^ P; else CRC <<= 1;\<close>\<close>

definition crc_shift :: "'a::len word \<Rightarrow> 'a word \<Rightarrow> bool \<Rightarrow> 'a word" where
  "crc_shift P crc b = (if bit crc (LENGTH('a) - 1) \<noteq> b then push_bit 1 crc XOR P else push_bit 1 crc)"

definition crc_run :: "'a::len word \<Rightarrow> 'a word \<Rightarrow> bits \<Rightarrow> 'a word" where
  "crc_run P crc bs = foldl (crc_shift P) crc bs"

text \<open>\<open>crc = (crc << 1) | bit\<close> over a run of bits.\<close>

definition read_word :: "bits \<Rightarrow> 'a::len word" where
  "read_word bs = foldl (\<lambda>crc b. push_bit 1 crc OR of_bool b) 0 bs"

definition ComputeCrcCCITT :: "bits \<Rightarrow> u16" where
  "ComputeCrcCCITT DMRData = crc_run 0x1021 0 (take 80 DMRData) XOR 0xFFFF"

definition ComputeCrcCCITT16b :: "bits \<Rightarrow> nat \<Rightarrow> u16" where
  "ComputeCrcCCITT16b buf len = crc_run 0x1021 0 (take len buf) XOR 0xFFFF"

text \<open>The nine-bit register lives in the low bits of a 16-bit one.\<close>

definition crc9_shift :: "u16 \<Rightarrow> bool \<Rightarrow> u16" where
  "crc9_shift CRC b = (if bit CRC 8 \<noteq> b then push_bit 1 CRC XOR 0x059 else push_bit 1 CRC)"

definition ComputeCrc9Bit :: "bits \<Rightarrow> nat \<Rightarrow> u16" where
  "ComputeCrc9Bit DMRData NbData = (foldl crc9_shift 0 (take NbData DMRData) AND 0x01FF) XOR 0x01FF"

definition ComputeCrc32Bit :: "bits \<Rightarrow> nat \<Rightarrow> u32" where
  "ComputeCrc32Bit DMRData NbData =
     (let CRC = crc_run 0x04C11DB7 0 (take NbData DMRData);
          a = push_bit 24 (CRC AND 0xFF);
          b = push_bit 16 (drop_bit 8 (CRC AND 0xFF00));
          c = push_bit 8 (drop_bit 16 (CRC AND 0xFF0000));
          d = drop_bit 24 (CRC AND 0xFF000000)
      in a + b + c + d)"

text \<open>Nine bytes added up, modulo 31.\<close>

definition ComputeCrc5Bit :: "bits \<Rightarrow> u8" where
  "ComputeCrc5Bit DMRData =
     (let Buffer = map (\<lambda>i. read_word (map (\<lambda>j. DMRData ! (8 * i + j)) [0..<8]) :: u8) [0..<9];
          Sum = foldl (\<lambda>s b. s + ucast b) (0 :: u32) Buffer
      in ucast (Sum mod 31))"

section \<open>Division in a buffer\<close>

definition divide_at :: "bits \<Rightarrow> bits \<Rightarrow> nat \<Rightarrow> bits" where
  "divide_at poly buf i =
     (if buf ! i then foldl (\<lambda>b j. b[i + j := (b ! (i + j) \<noteq> poly ! j)]) buf [0..<length poly] else buf)"

definition crc_divide :: "bits \<Rightarrow> bits \<Rightarrow> nat \<Rightarrow> bits" where
  "crc_divide poly bs len = foldl (divide_at poly) (take len bs @ replicate (256 - len) False) [0..<len]"

definition crc8 :: "bits \<Rightarrow> nat \<Rightarrow> u8" where
  "crc8 bs len =
     (if len + 8 > 256 then 0
      else (let buf = crc_divide (bits_of [1, 0, 0, 0, 0, 0, 1, 1, 1]) bs len
            in foldl (\<lambda>crc i. push_bit 1 crc + of_bool (buf ! (len + i))) 0 [0..<8]))"

definition crc8_ok :: "bits \<Rightarrow> nat \<Rightarrow> bool" where
  "crc8_ok bs len \<longleftrightarrow> foldl (\<lambda>crc i. push_bit 1 crc + of_bool (bs ! (len + i))) (0 :: u16) [0..<8] = ucast (crc8 bs len)"

definition crc7 :: "bits \<Rightarrow> nat \<Rightarrow> u8" where
  "crc7 bs len =
     (if len + 7 > 256 then 0
      else (let buf = crc_divide (bits_of [1, 0, 1, 0, 0, 1, 1, 1]) bs len
            in foldl (\<lambda>crc i. push_bit 1 crc + of_bool (buf ! (len + i))) 0 [0..<7]))"

definition crc12 :: "bits \<Rightarrow> nat \<Rightarrow> u16" where
  "crc12 bs len =
     (if len + 12 > 256 then 0
      else (let buf = crc_divide (bits_of [1, 1, 0, 0, 0, 1, 0, 0, 1, 0, 1, 1, 1]) bs len
            in foldl (\<lambda>crc i. push_bit 1 crc + of_bool (buf ! (len + i))) 0 [0..<12] XOR 0xfff))"

definition dsd_dmr_crc4 :: "bits \<Rightarrow> nat \<Rightarrow> u8" where
  "dsd_dmr_crc4 bs len =
     (if len > 256 - 4 then 0
      else (let work = crc_divide (bits_of [1, 0, 0, 1, 1]) bs len
            in read_word (map (\<lambda>i. work ! (len + i)) [0..<4]) XOR 0x0F))"

section \<open>The P25 bridges\<close>

definition crc16_ok :: "bits \<Rightarrow> nat \<Rightarrow> nat \<Rightarrow> u16" where
  "crc16_ok bs len cap =
     (if 16 > cap \<or> len > cap \<or> len + 16 > cap then -1
      else if read_word (map (\<lambda>i. bs ! (i + len)) [0..<16]) = ComputeCrcCCITT16b bs len then 0 else -1)"

definition crc12_ok :: "bits \<Rightarrow> nat \<Rightarrow> nat \<Rightarrow> u16" where
  "crc12_ok bs len cap =
     (if 12 > cap \<or> len > cap \<or> len + 12 > cap then -1
      else if read_word (map (\<lambda>i. bs ! (i + len)) [0..<12]) = crc12 bs len then 0 else -1)"

text \<open>The payload is copied into a zeroed buffer of 190 bytes, as much of it as fits; a negative length
  becomes a huge unsigned one.\<close>

definition load_bits :: "bits \<Rightarrow> int \<Rightarrow> bits" where
  "load_bits payload loaded = (let t = nat (min (max loaded 0) 190) in take t payload @ replicate (190 - t) False)"

definition crc16_lb_bridge :: "bits \<Rightarrow> int \<Rightarrow> int" where
  "crc16_lb_bridge payload len = uint (crc16_ok (load_bits payload (len + 16)) (unat (word_of_int len :: u32)) 190)"

definition crc12_xb_bridge :: "bits \<Rightarrow> int \<Rightarrow> int" where
  "crc12_xb_bridge payload len = uint (crc12_ok (load_bits payload (len + 12)) (unat (word_of_int len :: u32)) 190)"

section \<open>Facts of the register\<close>

definition word_bits :: "'a::len word \<Rightarrow> bits" where
  "word_bits w = map (\<lambda>i. bit w (LENGTH('a) - 1 - i)) [0..<LENGTH('a)]"

lemma crc_run_simps [simp]:
  "crc_run P s [] = s" "crc_run P s (b # bs) = crc_run P (crc_shift P s b) bs"
  "crc_run P s (bs @ cs) = crc_run P (crc_run P s bs) cs"
  by (simp_all add: crc_run_def)

lemma bit_crc_shift:
  fixes s :: "'a::len word"
  shows "bit (crc_shift P s b) i \<longleftrightarrow> i < LENGTH('a) \<and> ((0 < i \<and> bit s (i - 1)) \<noteq> ((bit s (LENGTH('a) - 1) \<noteq> b) \<and> bit P i))"
  by (cases i) (auto simp: crc_shift_def bit_xor_iff bit_push_bit_iff simp del: push_bit_numeral push_bit_of_Suc_0 push_bit_Suc dest: bit_imp_le_length)

lemma crc_shift_xor: "crc_shift P (s XOR t) (a \<noteq> b) = crc_shift P s a XOR crc_shift P t b"
  by (rule bit_word_eqI) (auto simp: bit_crc_shift bit_xor_iff)

lemma crc_run_xor:
  "length bs = length cs \<Longrightarrow> crc_run P (s XOR t) (xor_bits bs cs) = crc_run P s bs XOR crc_run P t cs"
proof (induction bs cs arbitrary: s t rule: list_induct2)
  case (Cons b bs c cs)
  then show ?case using crc_shift_xor [of P s t b c] by (simp del: not_iff)
qed simp

lemma crc_run_zero [simp]: "crc_run P 0 (replicate n False) = 0"
  by (induction n) (simp_all add: crc_shift_def)

lemma length_word_bits [simp]: "length (word_bits (w :: 'a::len word)) = LENGTH('a)"
  by (simp add: word_bits_def)

text \<open>A register whose low bits vanish after a step was shifted without feedback.\<close>

definition low_zero :: "nat \<Rightarrow> 'a::len word \<Rightarrow> bool" where
  "low_zero n s \<longleftrightarrow> (\<forall>i<n. \<not> bit s i)"

lemma shift_low_zero:
  fixes s :: "'a::len word"
  assumes "odd P" "low_zero (Suc n) (crc_shift P s b)" "n < LENGTH('a)"
  shows "low_zero n s \<and> bit s (LENGTH('a) - 1) = b"
proof -
  have z: "\<not> bit (crc_shift P s b) i" if "i \<le> n" for i using assms(2) that by (simp add: low_zero_def)
  have f: "bit s (LENGTH('a) - 1) = b" using z [of 0] assms(1) bit_crc_shift [of P s b 0] by (auto simp: bit_0)
  have "\<not> bit s i" if "i < n" for i using z [of "Suc i"] f assms(3) that by (simp add: bit_crc_shift)
  with f show ?thesis by (simp add: low_zero_def)
qed

lemma run_low_zero:
  fixes s :: "'a::len word"
  assumes "odd P"
  shows "low_zero n (crc_run P s bs) \<Longrightarrow> length bs \<le> n \<Longrightarrow> n \<le> LENGTH('a) \<Longrightarrow>
    low_zero (n - length bs) s \<and> (s = 0 \<longrightarrow> bs = replicate (length bs) False)"
proof (induction bs arbitrary: s)
  case (Cons b bs)
  let ?k = "n - length (b # bs)" and ?t = "crc_shift P s b"
  have k: "n - length bs = Suc ?k" "length bs \<le> n" "?k < LENGTH('a)" using Cons.prems by auto
  have l: "low_zero (Suc ?k) ?t" "?t = 0 \<longrightarrow> bs = replicate (length bs) False"
    using Cons.IH [of ?t] Cons.prems k by simp_all
  note f = shift_low_zero [OF assms l(1) k(3)]
  have "b = False \<and> bs = replicate (length bs) False" if "s = 0"
  proof -
    have "\<not> b" using f that by simp
    then have "?t = 0" using that by (simp add: crc_shift_def)
    with l(2) \<open>\<not> b\<close> show ?thesis by simp
  qed
  with f show ?case by simp
qed simp

lemma low_zero_all: "low_zero LENGTH('a) (s :: 'a::len word) \<longleftrightarrow> s = 0"
  by (auto simp: low_zero_def intro: bit_word_eqI)

text \<open>An error burst no longer than the register leaves a trace in it.\<close>

definition burst :: "nat \<Rightarrow> bits \<Rightarrow> bool" where
  "burst w e \<longleftrightarrow> True \<in> set e \<and> (\<exists>a b z. e = replicate a False @ b @ replicate z False \<and> length b \<le> w)"

lemma run_zeros:
  fixes s :: "'a::len word"
  assumes "odd P" "crc_run P s (replicate n False) = 0"
  shows "s = 0"
  using assms(2)
proof (induction n arbitrary: s)
  case (Suc n)
  then have "crc_shift P s False = 0" by simp
  then have "low_zero (Suc (LENGTH('a) - 1)) (crc_shift P s False)" by (simp add: low_zero_def)
  then have "low_zero (LENGTH('a) - 1) s \<and> \<not> bit s (LENGTH('a) - 1)"
    using shift_low_zero [OF assms(1), of "LENGTH('a) - 1" s False] by simp
  then have "\<not> bit s i" if "i < LENGTH('a)" for i
    using that by (cases "i = LENGTH('a) - 1") (auto simp: low_zero_def)
  then have "low_zero LENGTH('a) s" by (simp add: low_zero_def)
  then show ?case by (simp add: low_zero_all)
qed simp

lemma burst_trace:
  fixes P :: "'a::len word"
  assumes "odd P" "burst LENGTH('a) e"
  shows "crc_run P 0 e \<noteq> 0"
proof
  assume z: "crc_run P 0 e = 0"
  from assms(2) obtain a b c where e: "e = replicate a False @ b @ replicate c False" "length b \<le> LENGTH('a)" "True \<in> set e"
    by (auto simp: burst_def)
  then have "crc_run P 0 b = 0" using z run_zeros [OF assms(1), of "crc_run P 0 b" c] by simp
  then have "low_zero (length b) (crc_run P 0 b)" by (simp add: low_zero_def)
  then have "b = replicate (length b) False" using run_low_zero [OF assms(1), of "length b" 0 b] e(2) by simp
  then have "set b \<subseteq> {False}" by (metis set_replicate_conv_if empty_subsetI order_refl)
  then show False using e(1,3) by (auto split: if_splits)
qed

text \<open>Feeding the register its own bits empties it, and nothing else of that length does.\<close>

lemma word_bits_nth: "i < LENGTH('a) \<Longrightarrow> word_bits (w :: 'a::len word) ! i = bit w (LENGTH('a) - 1 - i)"
  by (simp add: word_bits_def)

lemma run_own_bits:
  fixes s :: "'a::len word"
  shows "j \<le> LENGTH('a) \<Longrightarrow> crc_run P (push_bit j s) (drop j (word_bits s)) = 0"
proof (induction "LENGTH('a) - j" arbitrary: j)
  case 0
  then have "j = LENGTH('a)" by simp
  then show ?case by (simp add: bit_word_eqI bit_push_bit_iff)
next
  case (Suc d)
  then have j: "j < LENGTH('a)" by simp
  then have "crc_shift P (push_bit j s) (word_bits s ! j) = push_bit (Suc j) s"
    by (intro bit_word_eqI) (auto simp: bit_crc_shift bit_push_bit_iff word_bits_nth simp del: push_bit_Suc)
  moreover have "drop j (word_bits s) = word_bits s ! j # drop (Suc j) (word_bits s)" using j by (simp add: Cons_nth_drop_Suc)
  ultimately show ?case using Suc(1) [of "Suc j"] Suc(2) j by (simp del: push_bit_Suc)
qed

lemma xor_bits_self: "length a = length b \<Longrightarrow> xor_bits a b = replicate (length a) False \<Longrightarrow> a = b"
  by (induction a b rule: list_induct2) auto

lemma run_check_bits:
  fixes s :: "'a::len word"
  assumes "odd P" "length c = LENGTH('a)"
  shows "crc_run P s c = 0 \<longleftrightarrow> c = word_bits s"
proof
  assume z: "crc_run P s c = 0"
  have "crc_run P s (word_bits s) = 0" using run_own_bits [of 0 P s] by simp
  then have "crc_run P 0 (xor_bits c (word_bits s)) = 0"
    using crc_run_xor [of c "word_bits s" P s s] assms(2) z by simp
  then have l: "low_zero (LENGTH('a)) (crc_run P 0 (xor_bits c (word_bits s)))" by (simp add: low_zero_def)
  have len: "length (xor_bits c (word_bits s)) = length c" using assms(2) by simp
  have r: "xor_bits c (word_bits s) = replicate (length (xor_bits c (word_bits s))) False"
    by (rule run_low_zero [OF assms(1) l, THEN conjunct2, THEN mp]) (simp_all add: assms(2))
  show "c = word_bits s" by (rule xor_bits_self [OF _ r [unfolded len]]) (simp add: assms(2))
qed (use run_own_bits [of 0 P s] in simp)

text \<open>A check word that is the register's content under a mask: all accepted words leave the same trace, so
  two of them never differ by a burst.\<close>

definition check_accepts :: "'a::len word \<Rightarrow> 'a word \<Rightarrow> bits \<Rightarrow> bits \<Rightarrow> bool" where
  "check_accepts P m data check \<longleftrightarrow> length check = LENGTH('a) \<and> check = word_bits (crc_run P 0 data XOR m)"

lemma word_bits_xor: "word_bits (a XOR b) = xor_bits (word_bits a) (word_bits b)"
  by (rule nth_equalityI) (auto simp: nth_xor_bits word_bits_nth bit_xor_iff)

lemma accepted_trace: "check_accepts P m data check \<Longrightarrow> crc_run P 0 (data @ check) = crc_run P 0 (word_bits m)"
proof -
  assume "check_accepts P m data check"
  then have "crc_run P 0 (data @ check) = crc_run P (crc_run P 0 data XOR 0) (xor_bits (word_bits (crc_run P 0 data)) (word_bits m))"
    by (simp add: check_accepts_def word_bits_xor)
  also have "\<dots> = crc_run P (crc_run P 0 data) (word_bits (crc_run P 0 data)) XOR crc_run P 0 (word_bits m)"
    by (rule crc_run_xor) simp
  finally show ?thesis using run_own_bits [of 0 P "crc_run P 0 data"] by simp
qed

lemma xor_bits_append: "length a = length c \<Longrightarrow> xor_bits (a @ b) (c @ d) = xor_bits a c @ xor_bits b d"
  by (induction a c rule: list_induct2) auto

lemma burst_refused:
  fixes P :: "'a::len word"
  assumes "odd P" "check_accepts P m data check" "burst LENGTH('a) e" "xor_bits (data @ check) e = data' @ check'"
    "length e = length (data @ check)" "length data' = length data"
  shows "\<not> check_accepts P m data' check'"
proof
  assume "check_accepts P m data' check'"
  then have "crc_run P 0 (data' @ check') = crc_run P 0 (data @ check)"
    using accepted_trace [OF assms(2)] accepted_trace [OF \<open>check_accepts P m data' check'\<close>] by simp
  moreover have "crc_run P 0 (data' @ check') = crc_run P 0 (data @ check) XOR crc_run P 0 e"
    using crc_run_xor [of "data @ check" e P 0 0] assms(4,5) by simp
  ultimately have "crc_run P 0 e = 0" by (metis xor_self_eq word_bw_assocs(3) xor.left_neutral)
  with burst_trace [OF assms(1,3)] show False ..
qed

text \<open>Assembling a word from bits.\<close>

lemma bit_read_one: "bit (push_bit 1 (c :: 'a::len word) OR of_bool b) i \<longleftrightarrow> i < LENGTH('a) \<and> (if i = 0 then b else bit c (i - 1))"
  by (cases i) (auto simp: bit_or_iff bit_push_bit_iff simp del: push_bit_Suc dest: bit_imp_le_length)

lemma bit_read_step: "bit (foldl (\<lambda>crc b. push_bit 1 crc OR of_bool b) (0 :: 'a::len word) bs) i
    \<longleftrightarrow> i < LENGTH('a) \<and> i < length bs \<and> bs ! (length bs - 1 - i)"
proof (induction bs arbitrary: i rule: rev_induct)
  case (snoc b bs)
  show ?case unfolding foldl_append foldl.simps bit_read_one snoc by (cases i) (auto simp: nth_append)
qed simp

lemma bit_read_word: "bit (read_word bs :: 'a::len word) i \<longleftrightarrow> i < LENGTH('a) \<and> i < length bs \<and> bs ! (length bs - 1 - i)"
  unfolding read_word_def by (rule bit_read_step)

lemma read_word_eq:
  fixes w :: "'a::len word" and v :: "'b::len word"
  assumes "length bs = LENGTH('a)" "v = ucast w" "LENGTH('a) \<le> LENGTH('b)"
  shows "read_word bs = v \<longleftrightarrow> bs = word_bits w"
proof
  assume r: "read_word bs = v"
  show "bs = word_bits w"
  proof (rule nth_equalityI)
    fix i assume "i < length bs"
    then show "bs ! i = word_bits w ! i"
      using arg_cong [OF r, of "\<lambda>v. bit v (LENGTH('a) - 1 - i)"] assms
      by (auto simp: bit_read_word word_bits_nth bit_ucast_iff)
  qed (use assms in simp)
next
  assume "bs = word_bits w"
  then have "bit (read_word bs :: 'b word) n \<longleftrightarrow> bit v n" if "n < LENGTH('b)" for n
    using assms that bit_imp_le_length [of w n] by (cases "n < LENGTH('a)") (auto simp: bit_read_word word_bits_nth bit_ucast_iff)
  then show "read_word bs = v" by (intro bit_word_eqI) simp
qed

section \<open>Division is the register\<close>

lemma divide_at_prefix:
  assumes "i + length poly \<le> length buf" "k \<le> length poly"
  shows "length (foldl (\<lambda>b j. b[i + j := (b ! (i + j) \<noteq> poly ! j)]) buf [0..<k]) = length buf
    \<and> (\<forall>x<length buf. foldl (\<lambda>b j. b[i + j := (b ! (i + j) \<noteq> poly ! j)]) buf [0..<k] ! x
      = (buf ! x \<noteq> (i \<le> x \<and> x < i + k \<and> poly ! (x - i))))"
  using assms(2)
proof (induction k)
  case (Suc k)
  then have k: "i + k < length buf" using assms(1) by simp
  show ?case using Suc k by (auto simp: nth_list_update)
qed simp

lemma divide_at_nth:
  assumes "i + length poly \<le> length buf"
  shows "length (divide_at poly buf i) = length buf"
    "x < length buf \<Longrightarrow> divide_at poly buf i ! x = (buf ! x \<noteq> (buf ! i \<and> i \<le> x \<and> x < i + length poly \<and> poly ! (x - i)))"
  using divide_at_prefix [OF assms order_refl] by (auto simp: divide_at_def)

lemma division_invariant:
  fixes P :: "'a::len word"
  assumes "len + LENGTH('a) \<le> 256" "len \<le> length m" "k \<le> len"
  defines "B \<equiv> foldl (divide_at (True # word_bits P)) (take len m @ replicate (256 - len) False)"
  shows "length (B [0..<k]) = 256 \<and> (\<forall>x. k \<le> x \<and> x < 256 \<longrightarrow>
    B [0..<k] ! x = ((x < len \<and> m ! x) \<noteq> (x - k < LENGTH('a) \<and> bit (crc_run P 0 (take k m)) (LENGTH('a) - 1 - (x - k)))))"
  using assms(3)
proof (induction k)
  case 0
  then show ?case using assms(1,2) by (auto simp: B_def nth_append)
next
  case (Suc k)
  let ?s = "crc_run P 0 (take k m)" and ?b = "B [0..<k]"
  have IH: "length ?b = 256" "\<And>x. k \<le> x \<Longrightarrow> x < 256 \<Longrightarrow>
      ?b ! x = ((x < len \<and> m ! x) \<noteq> (x - k < LENGTH('a) \<and> bit ?s (LENGTH('a) - 1 - (x - k))))"
    using Suc by auto
  have k: "k + length (True # word_bits P) \<le> length ?b" "k < len" "k < 256" using Suc.prems assms(1) IH(1) by auto
  have B: "B [0..<Suc k] = divide_at (True # word_bits P) ?b k" by (simp add: B_def)
  have f: "?b ! k = (bit ?s (LENGTH('a) - 1) \<noteq> m ! k)" using IH(2) [of k] k by auto
  have s: "crc_run P 0 (take (Suc k) m) = crc_shift P ?s (m ! k)"
    using k(2) assms(2) by (simp add: take_Suc_conv_app_nth)
  have "B [0..<Suc k] ! x = ((x < len \<and> m ! x) \<noteq> (x - Suc k < LENGTH('a) \<and> bit (crc_shift P ?s (m ! k)) (LENGTH('a) - 1 - (x - Suc k))))"
    if x: "Suc k \<le> x" "x < 256" for x
  proof -
    obtain d where d: "x = Suc k + d" using x(1) le_iff_add by blast
    have "B [0..<Suc k] ! x = (?b ! x \<noteq> (?b ! k \<and> d < LENGTH('a) \<and> bit P (LENGTH('a) - 1 - d)))"
      unfolding B using divide_at_nth(2) [OF k(1), of x] IH(1) x(2) d by (auto simp: word_bits_nth)
    moreover have "?b ! x = ((x < len \<and> m ! x) \<noteq> (Suc d < LENGTH('a) \<and> bit ?s (LENGTH('a) - 1 - Suc d)))"
      using IH(2) [of x] x d by simp
    moreover have "bit (crc_shift P ?s (m ! k)) (LENGTH('a) - 1 - d)
        = ((Suc d < LENGTH('a) \<and> bit ?s (LENGTH('a) - 1 - Suc d)) \<noteq> (?b ! k \<and> bit P (LENGTH('a) - 1 - d)))" if "d < LENGTH('a)"
    proof -
      have "LENGTH('a) - 1 - d - 1 = LENGTH('a) - 1 - Suc d" "0 < LENGTH('a) - 1 - d \<longleftrightarrow> Suc d < LENGTH('a)"
        "LENGTH('a) - 1 - d < LENGTH('a)" using that by auto
      then show ?thesis unfolding bit_crc_shift f by (simp only: simp_thms)
    qed
    moreover have "x - Suc k = d" using d by simp
    ultimately show ?thesis by (cases "d < LENGTH('a)") (simp only: simp_thms, blast, simp)
  qed
  then show ?case unfolding s B using divide_at_nth(1) [OF k(1)] IH(1) by simp
qed

lemma divided_tail:
  fixes P :: "'a::len word"
  assumes "len + LENGTH('a) \<le> 256" "len \<le> length m"
  shows "map (\<lambda>i. crc_divide (True # word_bits P) m len ! (len + i)) [0..<LENGTH('a)] = word_bits (crc_run P 0 (take len m))"
proof (rule nth_equalityI)
  fix i assume "i < length (map (\<lambda>i. crc_divide (True # word_bits P) m len ! (len + i)) [0..<LENGTH('a)])"
  then show "map (\<lambda>i. crc_divide (True # word_bits P) m len ! (len + i)) [0..<LENGTH('a)] ! i = word_bits (crc_run P 0 (take len m)) ! i"
    using division_invariant [OF assms order_refl, of P] assms(1) by (simp add: crc_divide_def word_bits_nth)
qed simp

lemma read_plus: "foldl (\<lambda>crc b. push_bit 1 crc + of_bool b) 0 bs = (read_word bs :: 'a::len word)"
proof -
  have "push_bit 1 c + of_bool b = push_bit 1 c OR of_bool b" for c :: "'a word" and b
    by (rule disjunctive_add) (auto simp: bit_push_bit_iff bit_of_bool_iff simp del: push_bit_Suc)
  then show ?thesis by (simp add: read_word_def del: push_bit_Suc)
qed

lemma read_word_bits: "LENGTH('a) \<le> LENGTH('b) \<Longrightarrow> (read_word (word_bits (w :: 'a::len word)) :: 'b::len word) = ucast w"
  using read_word_eq [of "word_bits w" "ucast w" w] by simp

lemma read_plus_at: "foldl (\<lambda>crc i. push_bit 1 crc + of_bool (f i)) 0 is = (read_word (map f is) :: 'a::len word)"
  unfolding read_plus [symmetric] foldl_map ..

lemma polynomials:
  "bits_of [1, 0, 0, 0, 0, 0, 1, 1, 1] = True # word_bits (0x07 :: 8 word)"
  "bits_of [1, 0, 1, 0, 0, 1, 1, 1] = True # word_bits (0x27 :: 7 word)"
  "bits_of [1, 1, 0, 0, 0, 1, 0, 0, 1, 0, 1, 1, 1] = True # word_bits (0x897 :: 12 word)"
  "bits_of [1, 0, 0, 1, 1] = True # word_bits (0x3 :: 4 word)"
  by code_simp+

lemma crc8_register: "len + 8 \<le> 256 \<Longrightarrow> len \<le> length bs \<Longrightarrow> crc8 bs len = crc_run 0x07 0 (take len bs)"
  using divided_tail [of len bs "0x07 :: 8 word"] unfolding crc8_def polynomials read_plus_at by (simp add: read_word_bits)

lemma crc7_register: "len + 7 \<le> 256 \<Longrightarrow> len \<le> length bs \<Longrightarrow> crc7 bs len = ucast (crc_run (0x27 :: 7 word) 0 (take len bs))"
  using divided_tail [of len bs "0x27 :: 7 word"] unfolding crc7_def polynomials read_plus_at by (simp add: read_word_bits)

lemma crc12_register:
  "len + 12 \<le> 256 \<Longrightarrow> len \<le> length bs \<Longrightarrow> crc12 bs len = ucast (crc_run (0x897 :: 12 word) 0 (take len bs)) XOR 0xfff"
  using divided_tail [of len bs "0x897 :: 12 word"] unfolding crc12_def polynomials read_plus_at by (simp add: read_word_bits)

lemma crc4_register:
  "len + 4 \<le> 256 \<Longrightarrow> len \<le> length bs \<Longrightarrow> dsd_dmr_crc4 bs len = ucast (crc_run (0x3 :: 4 word) 0 (take len bs)) XOR 0x0F"
  using divided_tail [of len bs "0x3 :: 4 word"] unfolding dsd_dmr_crc4_def polynomials by (simp add: read_word_bits)

text \<open>C33: Division in a zero-padded buffer computes the same check words as a shift register fed bit by bit:
  the eight-, seven-, twelve- and four-bit checks agree with the registers of their polynomials, the
  last two inverted.\<close>

theorem division_is_the_register:
  assumes "len + 12 \<le> 256" "len \<le> length bs"
  shows "crc8 bs len = crc_run 0x07 0 (take len bs)
    \<and> crc7 bs len = ucast (crc_run (0x27 :: 7 word) 0 (take len bs))
    \<and> crc12 bs len = ucast (crc_run (0x897 :: 12 word) 0 (take len bs)) XOR 0xfff
    \<and> dsd_dmr_crc4 bs len = ucast (crc_run (0x3 :: 4 word) 0 (take len bs)) XOR 0x0F"
  using assms by (simp add: crc8_register crc7_register crc12_register crc4_register)

section \<open>What the P25 bridges accept\<close>

lemma load_exact: "length payload = n \<Longrightarrow> n \<le> 190 \<Longrightarrow> load_bits payload (int n) = payload @ replicate (190 - n) False"
  by (simp add: load_bits_def)

lemma length_small: "n \<le> 190 \<Longrightarrow> unat (word_of_nat n :: u32) = n"
  by (simp add: unsigned_of_nat take_bit_nat_eq_self)

lemma uint_minus_one: "uint (-1 :: u16) = 65535"
  by (simp add: unsigned_minus_1_eq_mask mask_eq_exp_minus_1)

lemma slice_map: "n + k \<le> length xs \<Longrightarrow> map (\<lambda>i. xs ! (i + n)) [0..<k] = take k (drop n xs)"
  by (rule nth_equalityI) (auto simp: add.commute)

lemma xor_mask_word: "ucast (w :: 12 word) XOR (0xfff :: u16) = ucast (w XOR 0xfff)"
proof -
  have "(0xfff :: u16) = mask 12" "(0xfff :: 12 word) = mask 12" by (simp_all add: mask_eq_exp_minus_1)
  moreover have "ucast w XOR (mask 12 :: u16) = ucast (w XOR mask 12)"
    by (rule bit_word_eqI) (auto simp: bit_xor_iff bit_ucast_iff bit_mask_iff simp del: mask_numeral dest: bit_imp_le_length)
  ultimately show ?thesis by simp
qed

lemma crc16_bridge_accepts:
  assumes "length payload = len + 16" "len + 16 \<le> 190"
  shows "crc16_lb_bridge payload (int len) = (if check_accepts (0x1021 :: u16) 0xFFFF (take len payload) (drop len payload) then 0 else 65535)"
proof -
  let ?r = "crc_run (0x1021 :: u16) 0 (take len payload) XOR 0xFFFF"
  have l: "load_bits payload (int len + 16) = payload @ replicate (190 - (len + 16)) False"
    using load_exact [OF assms(1,2)] by simp
  have m: "map (\<lambda>i. (payload @ replicate (190 - (len + 16)) False) ! (i + len)) [0..<16] = drop len payload"
    using assms by (subst slice_map) auto
  have r: "(read_word (drop len payload) = ?r) = (drop len payload = word_bits ?r)"
    using assms by (intro read_word_eq) simp_all
  show ?thesis using assms m r
    by (simp add: crc16_lb_bridge_def crc16_ok_def l length_small uint_minus_one ComputeCrcCCITT16b_def check_accepts_def)
qed

lemma crc12_bridge_accepts:
  assumes "length payload = len + 12" "len + 12 \<le> 190"
  shows "crc12_xb_bridge payload (int len) = (if check_accepts (0x897 :: 12 word) 0xFFF (take len payload) (drop len payload) then 0 else 65535)"
proof -
  let ?r = "crc_run (0x897 :: 12 word) 0 (take len payload) XOR 0xFFF"
  have l: "load_bits payload (int len + 12) = payload @ replicate (190 - (len + 12)) False"
    using load_exact [OF assms(1,2)] by simp
  have m: "map (\<lambda>i. (payload @ replicate (190 - (len + 12)) False) ! (i + len)) [0..<12] = drop len payload"
    using assms by (subst slice_map) auto
  have c: "crc12 (payload @ replicate (190 - (len + 12)) False) len = ucast ?r"
    using assms divided_tail [of len "payload @ replicate (190 - (len + 12)) False" "0x897 :: 12 word"]
    unfolding crc12_def polynomials read_plus_at by (simp add: read_word_bits xor_mask_word)
  have r: "(read_word (drop len payload) = (ucast ?r :: u16)) = (drop len payload = word_bits ?r)"
    using assms by (intro read_word_eq) simp_all
  show ?thesis using assms m c r
    by (simp add: crc12_xb_bridge_def crc12_ok_def l length_small uint_minus_one check_accepts_def)
qed

lemma accepted_burst_refused:
  fixes P :: "'a::len word"
  assumes "odd P" "check_accepts P m (take len payload) (drop len payload)" "burst LENGTH('a) e"
    "length payload = len + LENGTH('a)" "length e = length payload"
  shows "\<not> check_accepts P m (take len (xor_bits payload e)) (drop len (xor_bits payload e))"
  by (rule burst_refused [OF assms(1,2,3)]) (use assms(4,5) in simp_all)

text \<open>C25: A control-channel payload that carries its check bits passes the bridge, and changing it by any
  error burst no longer than the check word, over data and check bits alike, makes the bridge refuse it.\<close>

theorem p25_checks_refuse_bursts:
  assumes "length data + 16 \<le> 190"
  shows "(let sent = data @ word_bits (ComputeCrcCCITT16b data (length data)) in
      crc16_lb_bridge sent (int (length data)) = 0 \<and>
      (\<forall>e. burst 16 e \<and> length e = length sent \<longrightarrow> crc16_lb_bridge (xor_bits sent e) (int (length data)) = 65535))
    \<and> (let sent = data @ word_bits (ucast (crc12 data (length data)) :: 12 word) in
      crc12_xb_bridge sent (int (length data)) = 0 \<and>
      (\<forall>e. burst 12 e \<and> length e = length sent \<longrightarrow> crc12_xb_bridge (xor_bits sent e) (int (length data)) = 65535))"
proof (intro conjI)
  let ?n = "length data"
  let ?s = "data @ word_bits (ComputeCrcCCITT16b data ?n)"
  have a: "check_accepts (0x1021 :: u16) 0xFFFF (take ?n ?s) (drop ?n ?s)"
    by (simp add: check_accepts_def ComputeCrcCCITT16b_def)
  have "crc16_lb_bridge (xor_bits ?s e) (int ?n) = 65535" if "burst 16 e" "length e = length ?s" for e
    using crc16_bridge_accepts [of "xor_bits ?s e" ?n] accepted_burst_refused [OF _ a, of e] that assms by simp
  then show "let sent = ?s in crc16_lb_bridge sent (int ?n) = 0 \<and>
      (\<forall>e. burst 16 e \<and> length e = length sent \<longrightarrow> crc16_lb_bridge (xor_bits sent e) (int ?n) = 65535)"
    using crc16_bridge_accepts [of ?s ?n] a assms by (simp add: Let_def)
next
  let ?n = "length data"
  let ?s = "data @ word_bits (ucast (crc12 data ?n) :: 12 word)"
  have u: "ucast (ucast (w :: 12 word) :: u16) = w" for w by (rule bit_word_eqI) (auto simp: bit_ucast_iff)
  have a: "check_accepts (0x897 :: 12 word) 0xFFF (take ?n ?s) (drop ?n ?s)"
    using crc12_register [of ?n data] assms by (simp add: check_accepts_def xor_mask_word u)
  have "crc12_xb_bridge (xor_bits ?s e) (int ?n) = 65535" if "burst 12 e" "length e = length ?s" for e
    using crc12_bridge_accepts [of "xor_bits ?s e" ?n] accepted_burst_refused [OF _ a, of e] that assms by simp
  then show "let sent = ?s in crc12_xb_bridge sent (int ?n) = 0 \<and>
      (\<forall>e. burst 12 e \<and> length e = length sent \<longrightarrow> crc12_xb_bridge (xor_bits sent e) (int ?n) = 65535)"
    using crc12_bridge_accepts [of ?s ?n] a assms by (simp add: Let_def)
qed

section \<open>What the DMR checks notice\<close>

text \<open>The low nine bits of the 16-bit register follow the nine-bit register of the same polynomial.\<close>

lemma crc9_shift_low: "ucast (crc9_shift s b) = crc_shift (0x059 :: 9 word) (ucast s) b"
proof (rule bit_word_eqI)
  fix n assume n: "n < LENGTH(9)"
  have p: "bit (0x059 :: u16) n = bit (0x059 :: 9 word) n"
    using n by (simp add: bit_numeral_word_iff)
  show "bit (ucast (crc9_shift s b) :: 9 word) n = bit (crc_shift (0x059 :: 9 word) (ucast s) b) n"
    using n p by (auto simp: crc9_shift_def bit_crc_shift bit_ucast_iff bit_xor_iff bit_push_bit_iff simp del: push_bit_Suc)
qed

lemma crc9_low: "ucast (foldl crc9_shift s bs) = crc_run (0x059 :: 9 word) (ucast s) bs"
  by (induction bs arbitrary: s) (simp_all add: crc9_shift_low)

lemma crc9_register: "ComputeCrc9Bit d n = ucast (crc_run (0x059 :: 9 word) 0 (take n d) XOR 0x1FF)"
proof -
  have m: "(0x01FF :: u16) = mask 9" "(0x1FF :: 9 word) = mask 9" by (simp_all add: mask_eq_exp_minus_1)
  have c: "ucast (foldl crc9_shift 0 (take n d)) = crc_run (0x059 :: 9 word) 0 (take n d)" by (simp add: crc9_low)
  show ?thesis unfolding ComputeCrc9Bit_def m c [symmetric]
    by (rule bit_word_eqI) (auto simp: bit_xor_iff bit_and_iff bit_ucast_iff bit_mask_iff simp del: mask_numeral dest: bit_imp_le_length)
qed

text \<open>The 32-bit register is handed out with its bytes reversed.\<close>

lemma byte_swap_bit:
  fixes w :: u32
  assumes "n < 8"
  defines "r \<equiv> push_bit 24 (w AND 0xFF) + push_bit 16 (drop_bit 8 (w AND 0xFF00)) + push_bit 8 (drop_bit 16 (w AND 0xFF0000)) + drop_bit 24 (w AND 0xFF000000)"
  shows "bit r n = bit w (24 + n)" "bit r (8 + n) = bit w (16 + n)" "bit r (16 + n) = bit w (8 + n)" "bit r (24 + n) = bit w n"
proof -
  have m: "(0xFF :: u32) = mask 8" "(0xFF00 :: u32) = push_bit 8 (mask 8)" "(0xFF0000 :: u32) = push_bit 16 (mask 8)" "(0xFF000000 :: u32) = push_bit 24 (mask 8)"
    by (simp_all add: mask_eq_exp_minus_1)
  let ?a = "push_bit 24 (w AND 0xFF)" and ?b = "push_bit 16 (drop_bit 8 (w AND 0xFF00))"
  let ?c = "push_bit 8 (drop_bit 16 (w AND 0xFF0000))" and ?d = "drop_bit 24 (w AND 0xFF000000)"
  have a: "bit ?a i \<longleftrightarrow> 24 \<le> i \<and> i < 32 \<and> bit w (i - 24)" for i
    unfolding m by (auto simp: bit_push_bit_iff bit_and_iff bit_mask_iff simp del: mask_numeral)
  have b: "bit ?b i \<longleftrightarrow> 16 \<le> i \<and> i < 24 \<and> bit w (i - 8)" for i
    unfolding m by (auto simp: bit_push_bit_iff bit_drop_bit_eq bit_and_iff bit_mask_iff simp del: mask_numeral)
  have c: "bit ?c i \<longleftrightarrow> 8 \<le> i \<and> i < 16 \<and> bit w (i + 8)" for i
    unfolding m by (auto simp: bit_push_bit_iff bit_drop_bit_eq bit_and_iff bit_mask_iff add.commute simp del: mask_numeral)
  have d: "bit ?d i \<longleftrightarrow> i < 8 \<and> bit w (i + 24)" for i
    unfolding m by (auto simp: bit_push_bit_iff bit_drop_bit_eq bit_and_iff bit_mask_iff add.commute simp del: mask_numeral)
  have "?a + ?b = ?a OR ?b" by (rule disjunctive_add) (unfold a b, linarith)
  moreover have "(?a OR ?b) + ?c = ?a OR ?b OR ?c" by (subst disjunctive_add) (unfold a b c bit_or_iff, linarith, simp add: or.assoc)
  moreover have "(?a OR ?b OR ?c) + ?d = ?a OR ?b OR ?c OR ?d" by (subst disjunctive_add) (unfold a b c d bit_or_iff, linarith, simp add: or.assoc)
  ultimately have "r = ?a OR ?b OR ?c OR ?d" by (simp add: r_def)
  then show "bit r n = bit w (24 + n)" "bit r (8 + n) = bit w (16 + n)" "bit r (16 + n) = bit w (8 + n)" "bit r (24 + n) = bit w n"
    using assms(1) by (simp_all only: bit_or_iff a b c d) (auto simp: add.commute)
qed

lemma crc32_swap_inj: "ComputeCrc32Bit d n = ComputeCrc32Bit d' n' \<Longrightarrow> crc_run (0x04C11DB7 :: u32) 0 (take n d) = crc_run 0x04C11DB7 0 (take n' d')"
proof (rule bit_word_eqI)
  let ?w = "crc_run (0x04C11DB7 :: u32) 0 (take n d)" and ?v = "crc_run (0x04C11DB7 :: u32) 0 (take n' d')"
  assume eq: "ComputeCrc32Bit d n = ComputeCrc32Bit d' n'"
  fix i assume "i < LENGTH(32)"
  then have "i = 8 * (i div 8) + i mod 8" "i mod 8 < 8" "i div 8 < 4" by auto
  then obtain q k where i: "i = 8 * q + k" "k < 8" "q < 4" by blast
  then consider "q = 0" | "q = 1" | "q = 2" | "q = 3" by linarith
  then show "bit ?w i = bit ?v i"
    using byte_swap_bit [OF i(2), of ?w] byte_swap_bit [OF i(2), of ?v] eq
    by cases (simp_all only: ComputeCrc32Bit_def Let_def i(1), simp_all)
qed

lemma burst_changes_register:
  fixes P :: "'a::len word"
  assumes "odd P" "burst LENGTH('a) e" "length e = length d"
  shows "crc_run P 0 (xor_bits d e) \<noteq> crc_run P 0 d"
proof
  assume "crc_run P 0 (xor_bits d e) = crc_run P 0 d"
  then have "crc_run P 0 d XOR crc_run P 0 e = crc_run P 0 d" using crc_run_xor [of d e P 0 0] assms(3) by simp
  then have "crc_run P 0 e = 0" by (metis xor_self_eq word_bw_assocs(3) xor.left_neutral)
  with burst_trace [OF assms(1,2)] show False ..
qed

lemma xor_mask_inj: "(a :: 'a::len word) XOR m = b XOR m \<Longrightarrow> a = b"
  by (metis xor_self_eq word_bw_assocs(3) xor.right_neutral)

text \<open>The checks of DMR data blocks notice every error burst in the data that is no longer than the check
  word: nine bits for confirmed blocks, sixteen for control blocks and headers, thirty-two for whole
  messages.\<close>

theorem dmr_checks_notice_bursts:
  assumes "length d = n" "length e = n"
  shows "(burst 9 e \<longrightarrow> ComputeCrc9Bit (xor_bits d e) n \<noteq> ComputeCrc9Bit d n)
    \<and> (burst 16 e \<and> n = 80 \<longrightarrow> ComputeCrcCCITT (xor_bits d e) \<noteq> ComputeCrcCCITT d)
    \<and> (burst 32 e \<longrightarrow> ComputeCrc32Bit (xor_bits d e) n \<noteq> ComputeCrc32Bit d n)"
proof (intro conjI impI notI)
  assume b: "burst 9 e" and eq: "ComputeCrc9Bit (xor_bits d e) n = ComputeCrc9Bit d n"
  have u: "(ucast a :: u16) = ucast b \<Longrightarrow> a = b" for a b :: "9 word"
  proof (rule bit_word_eqI)
    fix i assume "(ucast a :: u16) = ucast b" "i < LENGTH(9)"
    then have "bit (ucast a :: u16) i = bit (ucast b :: u16) i" "i < 16" by simp_all
    then show "bit a i = bit b i" unfolding bit_ucast_iff by simp
  qed
  have "crc_run (0x059 :: 9 word) 0 (xor_bits d e) = crc_run 0x059 0 d"
    using assms xor_mask_inj u [OF eq [unfolded crc9_register]] by simp
  with burst_changes_register [of "0x059 :: 9 word" e d] b assms show False by simp
next
  assume b: "burst 16 e \<and> n = 80" and eq: "ComputeCrcCCITT (xor_bits d e) = ComputeCrcCCITT d"
  have "crc_run (0x1021 :: u16) 0 (xor_bits d e) = crc_run 0x1021 0 d"
    using assms b xor_mask_inj [OF eq [unfolded ComputeCrcCCITT_def]] by simp
  with burst_changes_register [of "0x1021 :: u16" e d] b assms show False by simp
next
  assume b: "burst 32 e" and eq: "ComputeCrc32Bit (xor_bits d e) n = ComputeCrc32Bit d n"
  have "crc_run (0x04C11DB7 :: u32) 0 (xor_bits d e) = crc_run 0x04C11DB7 0 d"
    using crc32_swap_inj [OF eq] assms by simp
  with burst_changes_register [of "0x04C11DB7 :: u32" e d] b assms show False by simp
qed

lemma dmr_checks_notice_bursts_witness:
  "ComputeCrc9Bit (xor_bits [True, True, False] [False, True, True]) 3 \<noteq> ComputeCrc9Bit [True, True, False] 3"
proof -
  have "burst 9 [False, True, True]"
    unfolding burst_def by (intro conjI exI [of _ 1] exI [of _ 0] exI [of _ "[True, True]"]) auto
  then show ?thesis using dmr_checks_notice_bursts [of "[True, True, False]" 3 "[False, True, True]"] by simp
qed

lemma division_is_the_register_witness:
  "crc8 [True, False, True] 3 = crc_run 0x07 0 [True, False, True] \<and> crc_run (0x07 :: u8) 0 [True, False, True] = 0x1B"
proof -
  have "crc_run (0x07 :: u8) 0 [True, False, True] = 0x1B" by code_simp
  then show ?thesis using division_is_the_register [of 3 "[True, False, True]"] by simp
qed

lemma p25_checks_refuse_bursts_witness:
  "crc16_lb_bridge (xor_bits (replicate 4 True @ word_bits (ComputeCrcCCITT16b (replicate 4 True) 4))
     (replicate 3 False @ [True, True, False, True] @ replicate 13 False)) 4 = 65535"
proof -
  have b: "burst 16 (replicate 3 False @ [True, True, False, True] @ replicate 13 False)"
    unfolding burst_def by (intro conjI exI [of _ 3] exI [of _ 13] exI [of _ "[True, True, False, True]"]) auto
  show ?thesis using p25_checks_refuse_bursts [of "replicate 4 True"] b by (simp add: Let_def)
qed

end
