(* ===== verification/Dmr_Cach.thy ===== *)
theory Dmr_Cach
  imports Fec_Codes Crc_Checks
begin

text \<open>
  The short link control of the DMR common announcement channel: \<open>dmr_cach\<close> of
  \<open>src/protocol/dmr/dmr_flco.c\<close> with \<open>Hamming17123\<close> of \<open>src/protocol/dmr/dmr_utils.c\<close>. Four 17-bit
  fragments, announced by the LCSS bits of the TACT, are collected, deinterleaved, corrected row by row
  and checked.

  What \<open>dmr_slco\<close> does with a message that passed is another matter: here it is the event of a step.
\<close>

section \<open>The Hamming (17,12) code\<close>

text \<open>\<open>d[a] ^ d[b] ^ ...\<close>\<close>

definition xor_at :: "bits \<Rightarrow> nat list \<Rightarrow> bool" where
  "xor_at d js = foldl (\<lambda>x j. x \<noteq> d ! j) False js"

definition kHamming17123Corrections :: "(u8 \<times> nat) list" where
  "kHamming17123Corrections =
     [(0x01, 12), (0x02, 13), (0x04, 14), (0x08, 15), (0x10, 16), (0x1B, 0),
      (0x1F, 1), (0x17, 2), (0x07, 3), (0x0E, 4), (0x1C, 5), (0x11, 6),
      (0x0B, 7), (0x16, 8), (0x05, 9), (0x0A, 10), (0x14, 11)]"

definition dmr_hamming17123_apply_correction :: "bits \<Rightarrow> u8 \<Rightarrow> bits \<times> bool" where
  "dmr_hamming17123_apply_correction d synd =
     (case find_index (\<lambda>c. fst c = synd) kHamming17123Corrections of
        None \<Rightarrow> (d, False)
      | Some i \<Rightarrow> (let bit_index = snd (kHamming17123Corrections ! i) in (d[bit_index := \<not> d ! bit_index], True)))"

definition hamming17123_syndrome :: "bits \<Rightarrow> u8" where
  "hamming17123_syndrome d =
     (let c0 = xor_at d [0, 1, 2, 3, 6, 7, 9];
          c1 = xor_at d [0, 1, 2, 3, 4, 7, 8, 10];
          c2 = xor_at d [1, 2, 3, 4, 5, 8, 9, 11];
          c3 = xor_at d [0, 1, 4, 5, 7, 10];
          c4 = xor_at d [0, 1, 2, 5, 6, 8, 11]
      in (if c0 \<noteq> d ! 12 then 0x01 else 0) OR (if c1 \<noteq> d ! 13 then 0x02 else 0) OR
         (if c2 \<noteq> d ! 14 then 0x04 else 0) OR (if c3 \<noteq> d ! 15 then 0x08 else 0) OR
         (if c4 \<noteq> d ! 16 then 0x10 else 0))"

definition Hamming17123 :: "bits \<Rightarrow> bits \<times> bool" where
  "Hamming17123 d =
     (let n = hamming17123_syndrome d
      in if n = 0 then (d, True) else dmr_hamming17123_apply_correction d n)"

lemma xor_at_step: "foldl (\<lambda>x j. x \<noteq> (d :: bits) ! j) b js = (b \<noteq> xor_at d js)"
proof (induction js arbitrary: b)
  case (Cons j js)
  show ?case using Cons [of "b \<noteq> d ! j"] Cons [of "d ! j"] by (simp add: xor_at_def) blast
qed (simp add: xor_at_def)

lemma xor_at_Cons: "xor_at d (j # js) = (d ! j \<noteq> xor_at d js)"
  using xor_at_step [of d "d ! j" js] by (simp add: xor_at_def)

lemma xor_at_Nil [simp]: "xor_at d [] = False" by (simp add: xor_at_def)

lemma xor_at_flip:
  "distinct js \<Longrightarrow> i < length d \<Longrightarrow> xor_at (flip_bit i d) js = (xor_at d js \<noteq> (i \<in> set js))"
  by (induction js) (auto simp: xor_at_Cons flip_bit_def nth_list_update)

text \<open>The syndrome of one wrong bit, and the table that names that bit.\<close>

definition column17 :: "nat \<Rightarrow> u8" where
  "column17 i =
     (if (i \<in> set [0, 1, 2, 3, 6, 7, 9]) \<noteq> (i = 12) then 0x01 else 0) OR (if (i \<in> set [0, 1, 2, 3, 4, 7, 8, 10]) \<noteq> (i = 13) then 0x02 else 0) OR
     (if (i \<in> set [1, 2, 3, 4, 5, 8, 9, 11]) \<noteq> (i = 14) then 0x04 else 0) OR (if (i \<in> set [0, 1, 4, 5, 7, 10]) \<noteq> (i = 15) then 0x08 else 0) OR
     (if (i \<in> set [0, 1, 2, 5, 6, 8, 11]) \<noteq> (i = 16) then 0x10 else 0)"

lemma flip_bit_nth: "i < length d \<Longrightarrow> flip_bit i d ! j = (d ! j \<noteq> (j = i))"
  by (cases "j = i") (simp_all add: flip_bit_def)

lemma syndrome17_flip:
  assumes "hamming17123_syndrome d = 0" "length d = 17" "i < 17"
  shows "hamming17123_syndrome (flip_bit i d) = column17 i"
proof -
  have c: "xor_at d [0, 1, 2, 3, 6, 7, 9] = d ! 12" "xor_at d [0, 1, 2, 3, 4, 7, 8, 10] = d ! 13"
    "xor_at d [1, 2, 3, 4, 5, 8, 9, 11] = d ! 14" "xor_at d [0, 1, 4, 5, 7, 10] = d ! 15" "xor_at d [0, 1, 2, 5, 6, 8, 11] = d ! 16"
    using assms(1) by (simp_all add: hamming17123_syndrome_def Let_def split: if_splits)
  have e: "(xor_at (flip_bit i d) js \<noteq> flip_bit i d ! k) = ((i \<in> set js) \<noteq> (i = k))" if "xor_at d js = d ! k" "distinct js" for js k
    using xor_at_flip [OF that(2), of i d] that(1) assms(2,3) by (auto simp: flip_bit_nth)
  show ?thesis
    unfolding hamming17123_syndrome_def Let_def column17_def
    using e [OF c(1)] e [OF c(2)] e [OF c(3)] e [OF c(4)] e [OF c(5)] by simp
qed

lemma columns17: "list_all (\<lambda>i. column17 i \<noteq> 0 \<and> map_option (\<lambda>k. snd (kHamming17123Corrections ! k))
    (find_index (\<lambda>c. fst c = column17 i) kHamming17123Corrections) = Some i) [0..<17]"
  by code_simp

text \<open>Any one wrong bit of a codeword is put back, and the check reports success.\<close>

lemma hamming_17_12_fact:
  assumes "hamming17123_syndrome d = 0" "length d = 17" "i < 17"
  shows "Hamming17123 (flip_bit i d) = (d, True) \<and> Hamming17123 d = (d, True)"
proof -
  have "column17 i \<noteq> 0" "map_option (\<lambda>k. snd (kHamming17123Corrections ! k)) (find_index (\<lambda>c. fst c = column17 i) kHamming17123Corrections) = Some i"
    using columns17 assms(3) by (auto simp: list_all_iff)
  moreover have "(flip_bit i d)[i := \<not> flip_bit i d ! i] = d" using assms by (simp add: flip_bit_def)
  ultimately show ?thesis using assms
    by (auto simp: Hamming17123_def dmr_hamming17123_apply_correction_def syndrome17_flip Let_def)
qed

section \<open>Collecting a short link control\<close>

record cach_state =
  dmr_cach_fragment :: "bits list"
  dmr_cach_counter :: nat
  slco_sfrag_last :: "wall_s list"
  currentslot :: nat

datatype slc_event =
    Slc_nothing
  | Slc_single bits
  | Slc_full bits
  | Slc_crc_error

definition dmr_cach_reset_fragments :: "cach_state \<Rightarrow> cach_state" where
  "dmr_cach_reset_fragments st = st\<lparr>dmr_cach_counter := 0, dmr_cach_fragment := replicate 4 (replicate 17 True)\<rparr>"

definition dmr_cach_store_fragment :: "cach_state \<Rightarrow> bits \<Rightarrow> cach_state" where
  "dmr_cach_store_fragment st cach_bits =
     st\<lparr>dmr_cach_fragment := (dmr_cach_fragment st)[dmr_cach_counter st := map (\<lambda>i. cach_bits ! (i + 7)) [0..<17]]\<rparr>"

text \<open>A single-fragment message is shown at most once a second per slot.\<close>

definition dmr_cach_handle_single_fragment :: "wall_s \<Rightarrow> cach_state \<Rightarrow> bits \<Rightarrow> bool \<Rightarrow> cach_state \<times> bool \<times> slc_event" where
  "dmr_cach_handle_single_fragment now st cach_bits err =
     (case Hamming17123 (map (\<lambda>i. cach_bits ! (i + 7)) [0..<17]) of
        (slco_bits, ok) \<Rightarrow>
          (if \<not> ok then (st, True, Slc_nothing)
           else let slot = currentslot st; last = slco_sfrag_last st ! slot
                in if last \<noteq> 0 \<and> now - last < 1 then (st, err, Slc_nothing)
                   else (st\<lparr>slco_sfrag_last := (slco_sfrag_last st)[slot := now]\<rparr>, err, Slc_single slco_bits)))"

definition slc_deinterleave :: "bits \<Rightarrow> bits" where
  "slc_deinterleave raw = map (\<lambda>i. raw ! (i * 4 mod 67)) [0..<67] @ [raw ! 67]"

text \<open>A decoder applied in place to the 17 bits from \<open>p\<close> on.\<close>

definition hamming17_at :: "nat \<Rightarrow> bits \<Rightarrow> bits \<times> bool" where
  "hamming17_at p x = (case Hamming17123 (take 17 (drop p x)) of (row, ok) \<Rightarrow> (take p x @ row @ drop (p + 17) x, ok))"

definition slc_compact :: "bits \<Rightarrow> bits" where
  "slc_compact x =
     (let x1 = foldl (\<lambda>b k. b[k - 5 := b ! k]) x [17..<29];
          x2 = foldl (\<lambda>b k. b[k - 10 := b ! k]) x1 [34..<46]
      in foldl (\<lambda>b k. b[k := False]) x2 [36..<68])"

definition dmr_cach_process_final_fragment :: "cach_state \<Rightarrow> slc_event" where
  "dmr_cach_process_final_fragment st =
     (let slco_raw_bits = concat (map (\<lambda>j. map (\<lambda>i. dmr_cach_fragment st ! j ! i) [0..<17]) [0..<4]);
          slco_bits = slc_deinterleave slco_raw_bits;
          (b1, h1) = hamming17_at 0 slco_bits;
          (b2, h2) = hamming17_at 17 b1;
          (b3, h3) = hamming17_at 34 b2;
          info = slc_compact b3
      in if h1 \<and> h2 \<and> h3 \<and> crc8_ok info 36 then Slc_full info else Slc_crc_error)"

text \<open>The LCSS field of a decoded TACT, if it decodes.\<close>

definition tact_lcss :: "bits \<Rightarrow> nat option" where
  "tact_lcss cach_bits =
     (case Hamming_7_4_decode (map (\<lambda>i. cach_bits ! i) [0..<7]) of
        (tact_bits, ok) \<Rightarrow> (if ok then Some (2 * of_bool (tact_bits ! 2) + of_bool (tact_bits ! 3)) else None))"

definition dmr_cach :: "wall_s \<Rightarrow> cach_state \<Rightarrow> bits \<Rightarrow> cach_state \<times> bool \<times> slc_event" where
  "dmr_cach now st cach_bits =
     (let err = (tact_lcss cach_bits = None);
          lcss = (case tact_lcss cach_bits of Some v \<Rightarrow> v | None \<Rightarrow> 0)
      in if \<not> err \<and> lcss = 0 then dmr_cach_handle_single_fragment now (dmr_cach_reset_fragments st) cach_bits err
         else let st1 = (if lcss = 1 then dmr_cach_reset_fragments st
                         else if lcss = 3 then st\<lparr>dmr_cach_counter := dmr_cach_counter st + 1\<rparr>
                         else if lcss = 2 then st\<lparr>dmr_cach_counter := 3\<rparr> else st)
              in if dmr_cach_counter st1 > 3 then (dmr_cach_reset_fragments st1, True, Slc_nothing)
                 else let st2 = dmr_cach_store_fragment st1 cach_bits
                      in (st2, err, if lcss = 2 then dmr_cach_process_final_fragment st2 else Slc_nothing))"

fun cach_run :: "cach_state \<Rightarrow> (wall_s \<times> bits) list \<Rightarrow> cach_state \<times> slc_event list" where
  "cach_run st [] = (st, [])"
| "cach_run st ((now, b) # bs) =
     (case dmr_cach now st b of (st1, _, ev) \<Rightarrow> (case cach_run st1 bs of (st2, evs) \<Rightarrow> (st2, ev # evs)))"

section \<open>The fragment buffer is never overrun\<close>

definition cach_ok :: "cach_state \<Rightarrow> bool" where
  "cach_ok st \<longleftrightarrow> dmr_cach_counter st \<le> 3 \<and> length (dmr_cach_fragment st) = 4 \<and> (\<forall>f\<in>set (dmr_cach_fragment st). length f = 17)"

lemma reset_ok [simp]: "cach_ok (dmr_cach_reset_fragments st)"
  by (simp add: cach_ok_def dmr_cach_reset_fragments_def)

lemma store_ok [simp]: "cach_ok st \<Longrightarrow> cach_ok (dmr_cach_store_fragment st b)"
  by (auto simp: cach_ok_def dmr_cach_store_fragment_def dest!: set_update_subset_insert [THEN subsetD])

lemma single_ok [simp]: "cach_ok st \<Longrightarrow> cach_ok (fst (dmr_cach_handle_single_fragment now st b err))"
  by (auto simp: dmr_cach_handle_single_fragment_def cach_ok_def Let_def split: prod.splits)

lemma dmr_cach_ok: "cach_ok st \<Longrightarrow> cach_ok (fst (dmr_cach now st b))"
  by (auto simp: dmr_cach_def Let_def intro!: store_ok) (auto simp: cach_ok_def)

lemma cach_run_ok: "cach_ok st \<Longrightarrow> cach_ok (fst (cach_run st bs))"
proof (induction st bs rule: cach_run.induct)
  case (2 st now b bs)
  then show ?case using dmr_cach_ok [of st now b] by (auto split: prod.splits)
qed simp

section \<open>Four fragments make the message\<close>

text \<open>The order in which a base station sends the 68 bits: the inverse of the code's deinterleaving.\<close>

definition slc_interleave :: "bits \<Rightarrow> bits" where
  "slc_interleave x = map (\<lambda>p. x ! (p * 17 mod 67)) [0..<67] @ [x ! 67]"

lemma length_interleave [simp]: "length (slc_interleave x) = 68"
  by (simp add: slc_interleave_def)

lemma deinterleave_interleave: "length x = 68 \<Longrightarrow> slc_deinterleave (slc_interleave x) = x"
proof (rule nth_equalityI)
  fix i assume x: "length x = 68" and "i < length (slc_deinterleave (slc_interleave x))"
  then have i: "i < 68" by (simp add: slc_deinterleave_def)
  have "(i * 4 mod 67) * 17 mod 67 = i" if "i < 67"
  proof -
    have "(i * 4 mod 67) * 17 mod 67 = (i * 4 * 17) mod 67" by (rule mod_mult_left_eq)
    also have "i * 4 * 17 = i + i * 67" by simp
    finally show ?thesis using that by (simp only: mod_mult_self1 mod_less)
  qed
  with i x show "slc_deinterleave (slc_interleave x) ! i = x ! i"
    by (cases "i = 67") (auto simp: slc_deinterleave_def slc_interleave_def nth_append)
qed (simp add: slc_deinterleave_def)

lemma quarters: "length (y :: bits) = 68 \<Longrightarrow>
  concat (map (\<lambda>j. map (\<lambda>i. y ! (17 * j + i)) [0..<17]) [0..<4]) = y"
proof -
  assume y: "length y = 68"
  have t: "map (\<lambda>i. y ! (17 * j + i)) [0..<17] = take 17 (drop (17 * j) y)" if "j < 4" for j
    by (rule nth_equalityI) (use that y in auto)
  have "[0..<4] = [0, 1, 2, 3 :: nat]" by (simp add: upt_conv_Cons)
  moreover have "take 17 y @ take 17 (drop 17 y) @ take 17 (drop 34 y) @ take 17 (drop 51 y) = y"
    using take_add [of 17 51 y] take_add [of 17 34 "drop 17 y"] take_add [of 17 17 "drop 34 y"] y by simp
  ultimately show ?thesis using t [of 0] t [of 1] t [of 2] t [of 3] by simp
qed

lemma hamming17_row:
  "length pre = p \<Longrightarrow> length r' = 17 \<Longrightarrow> Hamming17123 r' = (r, True) \<Longrightarrow> hamming17_at p (pre @ r' @ post) = (pre @ r @ post, True)"
  by (simp add: hamming17_at_def)

lemma shift_down:
  assumes "m \<le> n" "n \<le> length x" "0 < s" "s \<le> m"
  shows "length (foldl (\<lambda>b k. b[k - s := b ! k]) x [m..<n]) = length x
    \<and> (\<forall>j<length x. foldl (\<lambda>b k. b[k - s := b ! k]) x [m..<n] ! j = (if m \<le> j + s \<and> j + s < n then x ! (j + s) else x ! j))"
  using assms(1,2)
proof (induction n rule: dec_induct)
  case (step n)
  have "[m..<Suc n] = [m..<n] @ [n]" using step(1) by simp
  then show ?case using step assms(3,4) by (auto simp: nth_list_update)
qed auto

lemma update_nth: "j < length xs \<Longrightarrow> xs[n := v] ! j = (if n = j then v else xs ! j)"
  by (cases "n = j") simp_all

lemma clear_from:
  "length (foldl (\<lambda>b k. b[k := False]) x [m..<n]) = length x
    \<and> (\<forall>j<length x. foldl (\<lambda>b k. b[k := False]) x [m..<n] ! j = (x ! j \<and> \<not> (m \<le> j \<and> j < n)))"
  by (induction n) (auto simp: update_nth not_less)

lemma slc_compact_rows:
  assumes "length a = 17" "length b = 17" "length c = 17" "length t = 17"
  shows "slc_compact (a @ b @ c @ t) = take 12 a @ take 12 b @ take 12 c @ replicate 32 False"
proof -
  define x where "x = a @ b @ c @ t"
  define x1 where "x1 = foldl (\<lambda>b k. b[k - 5 := b ! k]) x [17..<29]"
  define x2 where "x2 = foldl (\<lambda>b k. b[k - 10 := b ! k]) x1 [34..<46]"
  have l: "length x = 68" using assms by (simp add: x_def)
  have xn: "x ! j = (if j < 17 then a ! j else if j < 34 then b ! (j - 17) else if j < 51 then c ! (j - 34) else t ! (j - 51))" for j
    using assms by (auto simp: x_def nth_append)
  have x1: "length x1 = 68" "\<And>j. j < 68 \<Longrightarrow> x1 ! j = (if 12 \<le> j \<and> j < 24 then x ! (j + 5) else x ! j)"
    using shift_down [of 17 29 x 5] unfolding l x1_def [symmetric] by auto
  have x2: "length x2 = 68" "\<And>j. j < 68 \<Longrightarrow> x2 ! j = (if 24 \<le> j \<and> j < 36 then x1 ! (j + 10) else x1 ! j)"
    using shift_down [of 34 46 x1 10] unfolding x1(1) x2_def [symmetric] by auto
  have e: "slc_compact x = foldl (\<lambda>b k. b[k := False]) x2 [36..<68]"
    unfolding slc_compact_def Let_def x1_def [symmetric] x2_def [symmetric] ..
  have r: "length (slc_compact x) = 68" "\<And>j. j < 68 \<Longrightarrow> slc_compact x ! j = (x2 ! j \<and> j < 36)"
    using clear_from [of x2 36 68] unfolding x2(1) e [symmetric] by auto
  have "slc_compact x = take 12 a @ take 12 b @ take 12 c @ replicate 32 False"
  proof (rule nth_equalityI)
    fix j assume "j < length (slc_compact x)"
    then have j: "j < 68" using r(1) by simp
    consider "j < 12" | "12 \<le> j" "j < 24" | "24 \<le> j" "j < 36" | "36 \<le> j" by linarith
    then show "slc_compact x ! j = (take 12 a @ take 12 b @ take 12 c @ replicate 32 False) ! j"
    proof cases
      case 1
      then show ?thesis using j assms by (auto simp: r x2 x1 xn nth_append)
    next
      case 2
      then show ?thesis using j assms by (auto simp: r x2 x1 xn nth_append)
    next
      case 3
      then show ?thesis using j assms by (auto simp: r x2 x1 xn nth_append)
    next
      case 4
      then have "\<not> j < 12" "\<not> j - 12 < 12" "\<not> j - 24 < 12" by linarith+
      with 4 show ?thesis using j assms by (simp add: r xn nth_append)
    qed
  qed (use r assms in simp)
  then show ?thesis by (simp add: x_def)
qed

lemma slc_check:
  assumes "length info = 36" "drop 28 info = word_bits (crc8 info 28)"
  shows "crc8_ok (info @ replicate 32 False) 36"
proof -
  have "crc8 info 28 = crc_run 0x07 0 (take 28 info)" using assms by (intro crc8_register) auto
  then have "crc_run (0x07 :: u8) 0 (take 28 info @ drop 28 info) = 0"
    using assms(2) run_own_bits [of 0 "0x07 :: u8" "crc_run 0x07 0 (take 28 info)"] by simp
  then have "crc8 (info @ replicate 32 False) 36 = 0"
    using assms(1) by (simp add: crc8_register)
  moreover have "foldl (\<lambda>crc i. push_bit 1 crc + of_bool ((info @ replicate 32 False) ! (36 + i))) (0 :: u16) [0..<8] = 0"
  proof -
    have "map (\<lambda>i. (info @ replicate 32 False) ! (36 + i)) [0..<8] = replicate 8 False"
      using assms(1) by (intro nth_equalityI) (auto simp: nth_append)
    moreover have "(read_word (replicate 8 False) :: u16) = 0"
      by (rule bit_word_eqI) (auto simp: bit_read_word)
    ultimately show ?thesis unfolding read_plus_at by (simp only:)
  qed
  ultimately show ?thesis by (simp add: crc8_ok_def)
qed

definition slc_burst :: "nat \<Rightarrow> bits \<Rightarrow> bits \<Rightarrow> bool" where
  "slc_burst lcss fragment cach_bits \<longleftrightarrow> tact_lcss cach_bits = Some lcss \<and> map (\<lambda>i. cach_bits ! (i + 7)) [0..<17] = fragment"

definition slc_fragment :: "bits \<Rightarrow> nat \<Rightarrow> bits" where
  "slc_fragment x j = map (\<lambda>i. slc_interleave x ! (17 * j + i)) [0..<17]"

lemma final_fragment:
  assumes "dmr_cach_fragment st = map (slc_fragment (a @ b @ c @ t)) [0..<4]"
    "length a = 17" "length b = 17" "length c = 17" "length t = 17"
    "Hamming17123 a = (a', True)" "Hamming17123 b = (b', True)" "Hamming17123 c = (c', True)"
    "length a' = 17" "length b' = 17" "length c' = 17"
    "info = take 12 a' @ take 12 b' @ take 12 c'" "drop 28 info = word_bits (crc8 info 28)"
  shows "dmr_cach_process_final_fragment st = Slc_full (info @ replicate 32 False)"
proof -
  let ?x = "a @ b @ c @ t"
  have r: "concat (map (\<lambda>j. map (\<lambda>i. dmr_cach_fragment st ! j ! i) [0..<17]) [0..<4]) = slc_interleave ?x"
  proof -
    have "map (\<lambda>j. map (\<lambda>i. dmr_cach_fragment st ! j ! i) [0..<17]) [0..<4] = map (\<lambda>j. map (\<lambda>i. slc_interleave ?x ! (17 * j + i)) [0..<17]) [0..<4]"
      by (rule map_cong [OF refl], rule map_cong [OF refl]) (simp add: assms(1) slc_fragment_def)
    then show ?thesis using quarters [OF length_interleave, of ?x] by (simp only:)
  qed
  have d: "slc_deinterleave (slc_interleave ?x) = ?x" using assms by (intro deinterleave_interleave) simp
  have h: "hamming17_at 0 ?x = (a' @ b @ c @ t, True)" "hamming17_at 17 (a' @ b @ c @ t) = (a' @ b' @ c @ t, True)"
    "hamming17_at 34 (a' @ b' @ c @ t) = (a' @ b' @ c' @ t, True)"
    using hamming17_row [of "[]" 0 a a' "b @ c @ t"] hamming17_row [of a' 17 b b' "c @ t"] hamming17_row [of "a' @ b'" 34 c c' t] assms by simp_all
  have k: "slc_compact (a' @ b' @ c' @ t) = info @ replicate 32 False" using slc_compact_rows assms by simp
  have "crc8_ok (info @ replicate 32 False) 36" using assms by (intro slc_check) simp_all
  then show ?thesis unfolding dmr_cach_process_final_fragment_def r Let_def d h prod.case k by simp
qed

lemma store_step:
  assumes "slc_burst v f b" "v = 1 \<or> v = 3 \<and> dmr_cach_counter st < 3"
  shows "dmr_cach now st b =
    (let k = (if v = 1 then 0 else dmr_cach_counter st + 1); fs = (if v = 1 then replicate 4 (replicate 17 True) else dmr_cach_fragment st)
     in (st\<lparr>dmr_cach_counter := k, dmr_cach_fragment := fs[k := f]\<rparr>, False, Slc_nothing))"
  using assms by (auto simp: dmr_cach_def slc_burst_def dmr_cach_store_fragment_def dmr_cach_reset_fragments_def Let_def)

lemma final_step:
  assumes "slc_burst 2 f b"
  shows "dmr_cach now st b = (let st2 = st\<lparr>dmr_cach_counter := 3, dmr_cach_fragment := (dmr_cach_fragment st)[3 := f]\<rparr>
     in (st2, False, dmr_cach_process_final_fragment st2))"
  using assms by (auto simp: dmr_cach_def slc_burst_def dmr_cach_store_fragment_def Let_def)

lemma damaged_row: "hamming17123_syndrome r = 0 \<Longrightarrow> length r = 17 \<Longrightarrow> i \<le> 17 \<Longrightarrow> length (if i < 17 then flip_bit i r else r) = 17
    \<and> Hamming17123 (if i < 17 then flip_bit i r else r) = (r, True)"
  using hamming_17_12_fact [of r i] by (auto simp: Hamming17123_def Let_def)

text \<open>C22: Four bursts whose TACTs announce the first, two middle and the last fragment of a short link control
  hand exactly that message over with the fourth: whatever was collected before, in the order the
  interleaver prescribes, and with any one bit wrong in any of the three Hamming rows.\<close>

theorem short_lc_reassembled:
  assumes "length a = 17" "length b = 17" "length c = 17" "length t = 17"
    "hamming17123_syndrome a = 0" "hamming17123_syndrome b = 0" "hamming17123_syndrome c = 0"
    "info = take 12 a @ take 12 b @ take 12 c" "drop 28 info = word_bits (crc8 info 28)"
    "x = (if i < 17 then flip_bit i a else a) @ (if j < 17 then flip_bit j b else b) @ (if k < 17 then flip_bit k c else c) @ t"
    "i \<le> 17" "j \<le> 17" "k \<le> 17"
    "slc_burst 1 (slc_fragment x 0) b0" "slc_burst 3 (slc_fragment x 1) b1" "slc_burst 3 (slc_fragment x 2) b2" "slc_burst 2 (slc_fragment x 3) b3"
  shows "snd (cach_run st [(t0, b0), (t1, b1), (t2, b2), (t3, b3)]) = [Slc_nothing, Slc_nothing, Slc_nothing, Slc_full (info @ replicate 32 False)]"
proof -
  note d = damaged_row [OF assms(5,1,11)] damaged_row [OF assms(6,2,12)] damaged_row [OF assms(7,3,13)]
  define f where "f = slc_fragment x"
  define s1 where "s1 = st\<lparr>dmr_cach_counter := 0, dmr_cach_fragment := (replicate 4 (replicate 17 True))[0 := f 0]\<rparr>"
  define s2 where "s2 = s1\<lparr>dmr_cach_counter := 1, dmr_cach_fragment := (dmr_cach_fragment s1)[1 := f 1]\<rparr>"
  define s3 where "s3 = s2\<lparr>dmr_cach_counter := 2, dmr_cach_fragment := (dmr_cach_fragment s2)[2 := f 2]\<rparr>"
  define s4 where "s4 = s3\<lparr>dmr_cach_counter := 3, dmr_cach_fragment := (dmr_cach_fragment s3)[3 := f 3]\<rparr>"
  have "dmr_cach t0 st b0 = (s1, False, Slc_nothing)" using store_step [OF assms(14)] by (simp add: s1_def f_def)
  moreover have "dmr_cach t1 s1 b1 = (s2, False, Slc_nothing)" using store_step [OF assms(15), of s1] by (simp add: s2_def s1_def f_def)
  moreover have "dmr_cach t2 s2 b2 = (s3, False, Slc_nothing)" using store_step [OF assms(16), of s2] by (simp add: s3_def s2_def s1_def f_def numeral_2_eq_2)
  moreover have "dmr_cach t3 s3 b3 = (s4, False, dmr_cach_process_final_fragment s4)"
    using final_step [OF assms(17), of _ s3] by (simp add: s4_def f_def Let_def)
  moreover have "dmr_cach_fragment s4 = map f [0..<4]"
    by (simp add: s4_def s3_def s2_def s1_def upt_conv_Cons numeral_eq_Suc)
  then have "dmr_cach_process_final_fragment s4 = Slc_full (info @ replicate 32 False)"
    using d assms(1-4,8,9)
    by (intro final_fragment [where a = "if i < 17 then flip_bit i a else a" and b = "if j < 17 then flip_bit j b else b"
          and c = "if k < 17 then flip_bit k c else c" and a' = a and b' = b and c' = c and t = t])
      (simp_all only: f_def assms(10))
  ultimately show ?thesis by simp
qed

lemma short_lc_reassembled_witness:
  "\<exists>bursts. snd (cach_run \<lparr>dmr_cach_fragment = [], dmr_cach_counter = 0, slco_sfrag_last = [0, 0], currentslot = 0\<rparr> bursts)
    = [Slc_nothing, Slc_nothing, Slc_nothing, Slc_full (replicate 68 False)]"
proof -
  let ?z = "replicate 17 False"
  let ?x = "flip_bit 3 ?z @ ?z @ flip_bit 14 ?z @ ?z"
  let ?b = "\<lambda>tact j. bits_of tact @ slc_fragment ?x j"
  have f: "slc_fragment ?x j = map (\<lambda>i. slc_interleave ?x ! (17 * j + i)) [0..<17]" for j by (simp add: slc_fragment_def)
  have b: "slc_burst v (slc_fragment ?x j) (bits_of tact @ slc_fragment ?x j)"
    if "tact_lcss (bits_of tact) = Some v" "length tact = 7" for v tact j
  proof -
    have "map (\<lambda>i. (bits_of tact @ slc_fragment ?x j) ! i) [0..<7] = map ((!) (bits_of tact)) [0..<7]"
      using that(2) by (intro nth_equalityI) (auto simp: nth_append bits_of_def)
    then have "tact_lcss (bits_of tact @ slc_fragment ?x j) = Some v" using that(1) by (simp only: tact_lcss_def)
    moreover have "map (\<lambda>i. (bits_of tact @ slc_fragment ?x j) ! (i + 7)) [0..<17] = slc_fragment ?x j"
      using that(2) by (intro nth_equalityI) (auto simp: nth_append bits_of_def slc_fragment_def)
    ultimately show ?thesis by (simp add: slc_burst_def)
  qed
  have z: "hamming17123_syndrome ?z = 0" by code_simp
  have i: "take 12 ?z @ take 12 ?z @ take 12 ?z = replicate 36 False" by (simp add: replicate_add [symmetric])
  have c: "drop 28 (replicate 36 False) = word_bits (crc8 (replicate 36 False) 28)"
    by (simp add: crc8_register) code_simp
  have t1: "tact_lcss (bits_of [0, 0, 0, 1, 0, 1, 1]) = Some 1" by code_simp
  have t3: "tact_lcss (bits_of [0, 0, 1, 1, 1, 0, 1]) = Some 3" by code_simp
  have t2: "tact_lcss (bits_of [0, 0, 1, 0, 1, 1, 0]) = Some 2" by code_simp
  have "snd (cach_run \<lparr>dmr_cach_fragment = [], dmr_cach_counter = 0, slco_sfrag_last = [0, 0], currentslot = 0\<rparr>
      [(0, ?b [0, 0, 0, 1, 0, 1, 1] 0), (0, ?b [0, 0, 1, 1, 1, 0, 1] 1), (0, ?b [0, 0, 1, 1, 1, 0, 1] 2), (0, ?b [0, 0, 1, 0, 1, 1, 0] 3)])
    = [Slc_nothing, Slc_nothing, Slc_nothing, Slc_full (replicate 36 False @ replicate 32 False)]"
    by (rule short_lc_reassembled [OF _ _ _ _ z z z i [symmetric] c _ _ _ _ b [OF t1] b [OF t3] b [OF t3] b [OF t2], of ?z 3 17 14]) simp_all
  moreover have "replicate 36 False @ replicate 32 False = replicate 68 False" by (simp add: replicate_add [symmetric])
  ultimately show ?thesis by (simp only:) (rule exI)
qed

end
