(* ===== verification/Dmr_Late_Entry.thy ===== *)
theory Dmr_Late_Entry
  imports Fec_Codes Crc_Checks
begin

text \<open>
  The message indicator that DMR spreads over the voice frames of a superframe for late entry:
  \<open>src/fec/dmr_late_entry.c\<close>. Each voice frame brings three nibbles; three Golay codewords of 24 bits carry
  32 bits of message and a four-bit check.
\<close>

section \<open>The decoder\<close>

text \<open>The fragments are an array of three nibbles per voice frame, row after row.\<close>

definition dmr_late_entry_pack_fragments :: "u64 list \<Rightarrow> nat \<Rightarrow> u64" where
  "dmr_late_entry_pack_fragments fragments vc_base =
     foldl (\<lambda>packed (col, row). push_bit 4 packed OR (fragments ! ((vc_base + row) * 3 + col) AND 0x0F)) 0
       [(col, row). col \<leftarrow> [0..<3], row \<leftarrow> [0..<3]]"

record late_entry_result =
  le_mi :: u32
  le_crc_ok :: bool

text \<open>\<open>((w << shift) & 0x800000000) >> 35\<close>\<close>

definition le_bit :: "u64 \<Rightarrow> nat \<Rightarrow> bool" where
  "le_bit w shift = (drop_bit 35 (push_bit shift w AND 0x800000000) \<noteq> 0)"

definition le_codeword :: "u64 list \<Rightarrow> nat \<Rightarrow> bits" where
  "le_codeword fragments triplet =
     (let mi_codewords = dmr_late_entry_pack_fragments fragments 1;
          parity_codewords = dmr_late_entry_pack_fragments fragments 4
      in map (\<lambda>k. le_bit mi_codewords (k + triplet * 12)) [0..<12] @ map (\<lambda>k. le_bit parity_codewords (k + triplet * 12)) [0..<12])"

definition dsd_dmr_late_entry_decode :: "u64 list \<Rightarrow> late_entry_result \<times> bool" where
  "dsd_dmr_late_entry_decode fragments =
     (let decoded = map (\<lambda>triplet. Golay_24_12_decode Golay_24_12_init (le_codeword fragments triplet)) [0..<3];
          all_golay_pass = list_all snd decoded;
          mi_bits = concat (map (\<lambda>d. take 12 (fst d)) decoded);
          mi = read_word (take 32 mi_bits);
          extracted_crc = (read_word (take 4 (drop 32 mi_bits)) :: u8)
      in (\<lparr>le_mi = mi, le_crc_ok = (extracted_crc = dsd_dmr_crc4 mi_bits 32)\<rparr>, all_golay_pass))"

section \<open>Packing is concatenation of nibbles\<close>

text \<open>The 36 bits the nibbles of three voice frames make, column by column.\<close>

definition nibble_bits :: "u64 \<Rightarrow> bits" where
  "nibble_bits w = map (\<lambda>i. bit w (3 - i)) [0..<4]"

definition le_bits :: "u64 list \<Rightarrow> nat \<Rightarrow> bits" where
  "le_bits fragments vc_base = concat (map (\<lambda>(col, row). nibble_bits (fragments ! ((vc_base + row) * 3 + col)))
     [(col, row). col \<leftarrow> [0..<3], row \<leftarrow> [0..<3]])"

lemma pack_nibbles:
  "foldl (\<lambda>packed (col, row). push_bit 4 packed OR (f col row AND 0x0F)) p ps
    = (foldl (\<lambda>packed b. push_bit 1 packed OR of_bool b) p (concat (map (\<lambda>(col, row). nibble_bits (f col row)) ps)) :: u64)"
proof (induction ps arbitrary: p)
  case (Cons cr ps)
  have "push_bit 4 p OR (w AND 0x0F) = foldl (\<lambda>packed b. push_bit 1 packed OR of_bool b) p (nibble_bits w)" for w
  proof (rule bit_word_eqI)
    fix n assume n: "n < LENGTH(64)"
    have "[0..<4] = [0, 1, 2, 3 :: nat]" by (simp add: upt_conv_Cons)
    then have nb: "nibble_bits w = [bit w 3, bit w 2, bit w 1, bit w 0]" by (simp add: nibble_bits_def del: bit_0)
    have m: "(0x0F :: u64) = mask 4" by (simp add: mask_eq_exp_minus_1)
    consider "n = 0" | "n = 1" | "n = 2" | "n = 3" | "4 \<le> n" by linarith
    then show "bit (push_bit 4 p OR (w AND 0x0F)) n = bit (foldl (\<lambda>packed b. push_bit 1 packed OR of_bool b) p (nibble_bits w)) n"
      unfolding m nb foldl.simps bit_read_one using n
      by cases (auto simp: bit_or_iff bit_and_iff bit_mask_iff bit_push_bit_iff numeral_eq_Suc simp del: mask_numeral push_bit_Suc bit_0)
  qed
  then show ?case by (cases cr) (simp add: Cons del: push_bit_Suc)
qed simp

lemma pack_bits: "dmr_late_entry_pack_fragments fragments base = read_word (le_bits fragments base)"
  unfolding dmr_late_entry_pack_fragments_def read_word_def le_bits_def
  by (rule pack_nibbles)

lemma length_le_bits [simp]: "length (le_bits fragments base) = 36"
  by (simp add: le_bits_def nibble_bits_def upt_conv_Cons numeral_eq_Suc)

lemma le_bit_iff: "s < 36 \<Longrightarrow> le_bit w s \<longleftrightarrow> bit w (35 - s)"
proof -
  assume s: "s < 36"
  have m: "(0x800000000 :: u64) = push_bit 35 1" by simp
  have "bit (drop_bit 35 (push_bit s w AND 0x800000000)) i \<longleftrightarrow> i = 0 \<and> bit w (35 - s)" for i
    unfolding m using s by (auto simp: bit_drop_bit_eq bit_and_iff bit_push_bit_iff bit_1_iff dest: bit_imp_le_length)
  then show ?thesis unfolding le_bit_def by (metis bit_0_eq bot_apply bit_word_eqI bot_bool_def zero_less_numeral)
qed

lemma le_codeword_bits:
  assumes "i < 3"
  shows "le_codeword fragments i = take 12 (drop (12 * i) (le_bits fragments 1)) @ take 12 (drop (12 * i) (le_bits fragments 4))"
proof -
  have "le_bit (dmr_late_entry_pack_fragments fragments b) (k + i * 12) = le_bits fragments b ! (12 * i + k)" if "k < 12" for b k
  proof -
    have s: "k + i * 12 < 36" using assms that by auto
    then have "36 - 1 - (35 - (k + i * 12)) = 12 * i + k" "35 - (k + i * 12) < 36" "35 - (k + i * 12) < LENGTH(64)" by auto
    then show ?thesis by (simp only: le_bit_iff [OF s] pack_bits bit_read_word length_le_bits simp_thms)
  qed
  then have "map (\<lambda>k. le_bit (dmr_late_entry_pack_fragments fragments b) (k + i * 12)) [0..<12] = take 12 (drop (12 * i) (le_bits fragments b))" for b
    using assms by (intro nth_equalityI) auto
  then show ?thesis by (simp add: le_codeword_def Let_def)
qed

section \<open>Late entry survives three wrong bits in every codeword\<close>

lemma golay_systematic: "length m = 12 \<Longrightarrow> take 12 (Golay_24_12_encode m) = m"
proof (rule nth_equalityI)
  fix j assume m: "length m = 12" and "j < length (take 12 (Golay_24_12_encode m))"
  then have j: "j < 12" by simp
  have "list_all (\<lambda>j. list_all (\<lambda>i. Golay_24_12_G ! i ! j = (i = j)) [0..<12]) [0..<12]" by code_simp
  then have G: "Golay_24_12_G ! i ! j = (i = j)" if "i < 12" for i using that j by (auto simp: list_all_iff)
  have "(\<Sum>i\<leftarrow>[0..<12]. of_bool (m ! i) * of_bool (Golay_24_12_G ! i ! j) :: nat) = (\<Sum>i\<leftarrow>[0..<12]. if i = j then of_bool (m ! j) else 0)"
    by (intro arg_cong [of _ _ sum_list] map_cong) (auto simp: G)
  also have "\<dots> = of_bool (m ! j)" using j by (simp add: sum_list_distinct_conv_sum_set)
  finally show "take 12 (Golay_24_12_encode m) ! j = m ! j" using j by (simp add: Golay_24_12_encode_def)
qed (simp add: min_def)

lemma thirds: "length m = 36 \<Longrightarrow> concat (map (\<lambda>i. take 12 (drop (12 * i) m)) [0..<3]) = m"
proof -
  assume m: "length m = 36"
  have "[0..<3] = [0, 1, 2 :: nat]" by (simp add: upt_conv_Cons)
  then show ?thesis using take_add [of 12 24 m] take_add [of 12 12 "drop 12 m"] m by simp
qed

text \<open>C27: If the nibbles of a superframe carry three Golay codewords of a message and its four-bit check, each
  with at most three wrong bits, the decoder returns the message's 32 bits, finds the check correct and
  reports that all codewords passed.\<close>

theorem late_entry_recovers:
  assumes "length m = 36" "drop 32 m = word_bits (ucast (dsd_dmr_crc4 m 32) :: 4 word)"
    "\<forall>i<3. hamming_dist (Golay_24_12_encode (take 12 (drop (12 * i) m)))
      (take 12 (drop (12 * i) (le_bits fragments 1)) @ take 12 (drop (12 * i) (le_bits fragments 4))) \<le> 3"
  shows "dsd_dmr_late_entry_decode fragments = (\<lparr>le_mi = read_word (take 32 m), le_crc_ok = True\<rparr>, True)"
proof -
  have d: "Golay_24_12_decode Golay_24_12_init (le_codeword fragments i) = (Golay_24_12_encode (take 12 (drop (12 * i) m)), True)" if "i < 3" for i
    using that assms(1,3) by (intro golay_24_12_corrects) (auto simp: le_codeword_bits)
  then have D: "map (\<lambda>i. Golay_24_12_decode Golay_24_12_init (le_codeword fragments i)) [0..<3]
      = map (\<lambda>i. (Golay_24_12_encode (take 12 (drop (12 * i) m)), True)) [0..<3]" by simp
  have "concat (map (\<lambda>d. take 12 (fst d)) (map (\<lambda>i. (Golay_24_12_encode (take 12 (drop (12 * i) m)), True)) [0..<3]))
      = concat (map (\<lambda>i. take 12 (drop (12 * i) m)) [0..<3])"
    using assms(1) by (intro arg_cong [of _ _ concat]) (auto simp: golay_systematic)
  then have mi: "concat (map (\<lambda>d. take 12 (fst d)) (map (\<lambda>i. (Golay_24_12_encode (take 12 (drop (12 * i) m)), True)) [0..<3])) = m"
    using thirds [OF assms(1)] by simp
  have c: "dsd_dmr_crc4 m 32 = ucast (crc_run (0x3 :: 4 word) 0 (take 32 m) XOR 0xF)"
  proof -
    have "(0x0F :: u8) = ucast (0xF :: 4 word)" by simp
    then show ?thesis using crc4_register [of 32 m] assms(1) by (simp only:) (simp add: unsigned_xor_eq)
  qed
  have u: "ucast (ucast (w :: 4 word) :: u8) = w" for w by (rule bit_word_eqI) (auto simp: bit_ucast_iff)
  have "(read_word (take 4 (drop 32 m)) :: u8) = dsd_dmr_crc4 m 32"
    using read_word_eq [of "drop 32 m" "dsd_dmr_crc4 m 32" "ucast (dsd_dmr_crc4 m 32) :: 4 word"] assms(1,2) by (simp add: c u)
  then show ?thesis unfolding dsd_dmr_late_entry_decode_def Let_def D mi by (simp add: list_all_iff)
qed

lemma late_entry_recovers_witness:
  "dsd_dmr_late_entry_decode [0, 0, 0, 0x58, 0, 0, 0, 0, 0, 0, 0, 0xF, 0, 0, 7, 0, 0, 8, 0, 0, 4, 0, 0, 0]
    = (\<lparr>le_mi = 0, le_crc_ok = True\<rparr>, True)"
proof -
  let ?f = "[0, 0, 0, 0x58, 0, 0, 0, 0, 0, 0, 0, 0xF, 0, 0, 7, 0, 0, 8, 0, 0, 4, 0, 0, 0] :: u64 list"
  let ?m = "replicate 32 False @ replicate 4 True"
  have c: "drop 32 ?m = word_bits (ucast (dsd_dmr_crc4 ?m 32) :: 4 word)"
    by (simp add: crc4_register) code_simp
  have "\<forall>i<3. hamming_dist (Golay_24_12_encode (take 12 (drop (12 * i) ?m)))
      (take 12 (drop (12 * i) (le_bits ?f 1)) @ take 12 (drop (12 * i) (le_bits ?f 4))) \<le> 3"
  proof -
    have "list_all (\<lambda>i. hamming_dist (Golay_24_12_encode (take 12 (drop (12 * i) ?m)))
      (take 12 (drop (12 * i) (le_bits ?f 1)) @ take 12 (drop (12 * i) (le_bits ?f 4))) \<le> 3) [0..<3]" by code_simp
    then show ?thesis by (auto simp: list_all_iff)
  qed
  moreover have "(read_word (replicate 32 False) :: u32) = 0" by (rule bit_word_eqI) (auto simp: bit_read_word)
  ultimately show ?thesis using late_entry_recovers [of ?m ?f] c by simp
qed

end
