(* ===== verification/Slot_Table.thy ===== *)
theory Slot_Table
  imports Bounded_Table
begin

text \<open>
  Keyed tables kept in an array of slots: an insertion rewrites one slot, the key's own, a free one or,
  in a full table, a victim. This is the shape of most tables of the program, and it gives the
  interface of \<open>Bounded_Table\<close>.
\<close>

locale slot_table =
  fixes inv :: "'s \<Rightarrow> bool"
    and cells :: "'s \<Rightarrow> 'c list"
    and key :: "'c \<Rightarrow> 'k option"
    and legal :: "'k \<Rightarrow> bool"
    and put :: "'a \<Rightarrow> 'k \<Rightarrow> 's \<Rightarrow> 's"
    and cap :: nat
  assumes slots_inv: "inv s \<Longrightarrow> inv (put a k s)"
    and slots_length: "inv s \<Longrightarrow> length (cells s) = cap"
    and slots_unique: "inv s \<Longrightarrow> i < cap \<Longrightarrow> j < cap \<Longrightarrow> key (cells s ! i) = Some k \<Longrightarrow> key (cells s ! j) = Some k \<Longrightarrow> i = j"
    and slots_illegal: "inv s \<Longrightarrow> \<not> legal k \<Longrightarrow> cells (put a k s) = cells s"
    and slots_put: "inv s \<Longrightarrow> legal k \<Longrightarrow> \<exists>i<cap. \<exists>c. key c = Some k \<and> cells (put a k s) = (cells s)[i := c]
        \<and> (key (cells s ! i) = Some k
          \<or> (\<forall>j<cap. key (cells s ! j) \<noteq> Some k) \<and> (key (cells s ! i) = None \<or> (\<forall>j<cap. key (cells s ! j) \<noteq> None)))"
begin

definition holds :: "'s \<Rightarrow> 'k \<Rightarrow> bool" where
  "holds s k \<longleftrightarrow> (\<exists>i<cap. key (cells s ! i) = Some k)"

lemma put_cases:
  assumes "inv s"
  obtains "cells (put a k s) = cells s" "\<not> legal k"
  | i c where "legal k" "i < cap" "key c = Some k" "cells (put a k s) = (cells s)[i := c]"
      "key (cells s ! i) = Some k \<or> \<not> holds s k \<and> (key (cells s ! i) = None \<or> (\<forall>j<cap. key (cells s ! j) \<noteq> None))"
proof (cases "legal k")
  case True
  from slots_put [OF assms this, of a] obtain i c where "i < cap" "key c = Some k" "cells (put a k s) = (cells s)[i := c]"
    "key (cells s ! i) = Some k
      \<or> (\<forall>j<cap. key (cells s ! j) \<noteq> Some k) \<and> (key (cells s ! i) = None \<or> (\<forall>j<cap. key (cells s ! j) \<noteq> None))" by blast
  then show ?thesis by (intro that(2) [OF True, of i c]) (auto simp: holds_def)
qed (use slots_illegal [OF assms] that(1) in blast)

lemma holds_after:
  "inv s \<Longrightarrow> i < cap \<Longrightarrow> key c = Some k \<Longrightarrow> cells s' = (cells s)[i := c] \<Longrightarrow>
     holds s' k' \<longleftrightarrow> k' = k \<or> (\<exists>j<cap. j \<noteq> i \<and> key (cells s ! j) = Some k')"
  using slots_length [of s] by (auto simp: holds_def nth_list_update)

lemma lost_only_victim:
  assumes "inv s" "i < cap" "key c = Some k" "cells s' = (cells s)[i := c]" "holds s k'" "\<not> holds s' k'"
  shows "key (cells s ! i) = Some k' \<and> k' \<noteq> k"
  using assms holds_after [OF assms(1-4), of k'] by (auto simp: holds_def)

lemma used_cells: "inv s \<Longrightarrow> bij_betw (\<lambda>i. the (key (cells s ! i))) {i. i < cap \<and> key (cells s ! i) \<noteq> None} {k. holds s k}"
  unfolding bij_betw_def inj_on_def
proof (intro conjI ballI impI)
  fix i j assume "inv s" "i \<in> {i. i < cap \<and> key (cells s ! i) \<noteq> None}" "j \<in> {i. i < cap \<and> key (cells s ! i) \<noteq> None}"
    "the (key (cells s ! i)) = the (key (cells s ! j))"
  then show "i = j" using slots_unique [of s i j] by auto
next
  show "(\<lambda>i. the (key (cells s ! i))) ` {i. i < cap \<and> key (cells s ! i) \<noteq> None} = {k. holds s k}"
  proof (intro equalityI subsetI)
    fix k assume "k \<in> {k. holds s k}"
    then obtain i where "i < cap" "key (cells s ! i) = Some k" by (auto simp: holds_def)
    then show "k \<in> (\<lambda>i. the (key (cells s ! i))) ` {i. i < cap \<and> key (cells s ! i) \<noteq> None}" by force
  qed (auto simp: holds_def)
qed

lemma holds_card: "inv s \<Longrightarrow> card {k. holds s k} = card {i. i < cap \<and> key (cells s ! i) \<noteq> None}"
  using bij_betw_same_card [OF used_cells] by simp

lemma full_iff: "inv s \<Longrightarrow> (\<forall>j<cap. key (cells s ! j) \<noteq> None) \<Longrightarrow> card {k. holds s k} = cap"
proof -
  assume s: "inv s" "\<forall>j<cap. key (cells s ! j) \<noteq> None"
  then have "{i. i < cap \<and> key (cells s ! i) \<noteq> None} = {..<cap}" by auto
  then show ?thesis using holds_card [OF s(1)] by simp
qed

end

sublocale slot_table \<subseteq> bounded_table inv holds legal put cap
proof unfold_locales
  fix s a k k' assume s: "inv s"
  show "holds (put a k s) k" if "legal k"
    using s by (rule put_cases [where a = a and k = k]) (use that holds_after [OF s] in auto)
  show "k' = k \<or> holds s k'" if "holds (put a k s) k'"
    using s by (rule put_cases [where a = a and k = k]) (use that holds_after [OF s] in \<open>auto simp: holds_def\<close>)
  show "holds (put a k s) k'" if "holds s k" "holds s k'"
    using s
  proof (rule put_cases [where a = a and k = k])
    fix i c assume c: "i < cap" "key c = Some k" "cells (put a k s) = (cells s)[i := c]"
      "key (cells s ! i) = Some k \<or> \<not> holds s k \<and> (key (cells s ! i) = None \<or> (\<forall>j<cap. key (cells s ! j) \<noteq> None))"
    then show ?thesis using lost_only_victim [OF s c(1,2,3) that(2)] that(1) by auto
  qed (use that in \<open>simp add: holds_def\<close>)
  show "holds (put a k s) k'" if "card {j. holds s j} < cap" "holds s k'"
    using s
  proof (rule put_cases [where a = a and k = k])
    fix i c assume c: "i < cap" "key c = Some k" "cells (put a k s) = (cells s)[i := c]"
      "key (cells s ! i) = Some k \<or> \<not> holds s k \<and> (key (cells s ! i) = None \<or> (\<forall>j<cap. key (cells s ! j) \<noteq> None))"
    show ?thesis
    proof (rule ccontr)
      assume "\<not> holds (put a k s) k'"
      from lost_only_victim [OF s c(1,2,3) that(2) this] c(4) full_iff [OF s] that(1) show False by auto
    qed
  qed (use that in \<open>simp add: holds_def\<close>)
next
  fix s a k k1 k2 assume s: "inv s" and lost: "holds s k1" "holds s k2" "\<not> holds (put a k s) k1" "\<not> holds (put a k s) k2"
  show "k1 = k2"
    using s
  proof (rule put_cases [where a = a and k = k])
    fix i c assume c: "i < cap" "key c = Some k" "cells (put a k s) = (cells s)[i := c]"
    then show ?thesis using lost_only_victim [OF s c lost(1,3)] lost_only_victim [OF s c lost(2,4)] by simp
  qed (use lost in \<open>simp add: holds_def\<close>)
next
  fix s assume s: "inv s"
  have "card {i. i < cap \<and> key (cells s ! i) \<noteq> None} \<le> card {..<cap}" by (intro card_mono) auto
  then show "finite {j. holds s j} \<and> card {j. holds s j} \<le> cap"
    using holds_card [OF s] bij_betw_finite [OF used_cells [OF s]] by simp
qed (rule slots_inv)

end
