(* ===== verification/P25_Affiliations.thy ===== *)
theory P25_Affiliations
  imports Slot_Table
begin

text \<open>
  Who has been seen on the system, and with which talkgroup: the affiliation and group-affiliation tables
  at the end of \<open>src/protocol/p25/p25_trunk_sm.c\<close>. The parallel arrays of the decoder state are one list
  of cells each.
\<close>

section \<open>The tables\<close>

definition P25_AFF_TTL_SEC :: wall_s where "P25_AFF_TTL_SEC = 15 * 60"
definition P25_GA_TTL_SEC :: wall_s where "P25_GA_TTL_SEC = 30 * 60"
definition AFF_CELLS :: nat where "AFF_CELLS = 256"
definition GA_CELLS :: nat where "GA_CELLS = 512"

record aff_cell =
  ac_rid :: u32
  ac_last_seen :: wall_s

record aff_table =
  aff_cells :: "aff_cell list"
  aff_count :: int

record ga_cell =
  gc_rid :: u32
  gc_tg :: u16
  gc_last_seen :: wall_s

record ga_table =
  ga_cells :: "ga_cell list"
  ga_count :: int

text \<open>The first of the cells with the smallest time stamp.\<close>

fun oldest_from :: "nat \<Rightarrow> wall_s \<Rightarrow> nat \<Rightarrow> wall_s list \<Rightarrow> nat" where
  "oldest_from i oldest best [] = best"
| "oldest_from i oldest best (t # ts) =
     (if t < oldest then oldest_from (Suc i) t i ts else oldest_from (Suc i) oldest best ts)"

definition oldest_index :: "wall_s list \<Rightarrow> nat" where
  "oldest_index ts = oldest_from 1 (hd ts) 0 (tl ts)"

text \<open>The slot an insertion writes, and whether it was free: the key's own, a free one, else the oldest.\<close>

definition cell_for :: "('c \<Rightarrow> bool) \<Rightarrow> ('c \<Rightarrow> bool) \<Rightarrow> ('c \<Rightarrow> wall_s) \<Rightarrow> 'c list \<Rightarrow> nat \<times> bool" where
  "cell_for matches free seen cells =
     (case find_index matches cells of
        Some i \<Rightarrow> (i, False)
      | None \<Rightarrow> (case find_index free cells of Some i \<Rightarrow> (i, True) | None \<Rightarrow> (oldest_index (map seen cells), False)))"

definition p25_aff_find_idx :: "aff_table \<Rightarrow> u32 \<Rightarrow> nat option" where
  "p25_aff_find_idx t rid = (if rid = 0 then None else find_index (\<lambda>c. ac_rid c = rid) (aff_cells t))"

definition p25_aff_register :: "wall_s \<Rightarrow> u32 \<Rightarrow> aff_table \<Rightarrow> aff_table" where
  "p25_aff_register now rid t =
     (if rid = 0 then t
      else (case cell_for (\<lambda>c. ac_rid c = rid) (\<lambda>c. ac_rid c = 0) ac_last_seen (aff_cells t) of
              (i, fresh) \<Rightarrow> t\<lparr>aff_cells := (aff_cells t)[i := \<lparr>ac_rid = rid, ac_last_seen = now\<rparr>],
                            aff_count := aff_count t + of_bool fresh\<rparr>))"

definition aff_drop :: "nat \<Rightarrow> aff_table \<Rightarrow> aff_table" where
  "aff_drop i t = t\<lparr>aff_cells := (aff_cells t)[i := \<lparr>ac_rid = 0, ac_last_seen = 0\<rparr>],
     aff_count := (if aff_count t > 0 then aff_count t - 1 else aff_count t)\<rparr>"

definition p25_aff_deregister :: "u32 \<Rightarrow> aff_table \<Rightarrow> aff_table" where
  "p25_aff_deregister rid t =
     (if rid = 0 then t else case p25_aff_find_idx t rid of Some i \<Rightarrow> aff_drop i t | None \<Rightarrow> t)"

definition aff_expired :: "wall_s \<Rightarrow> aff_cell \<Rightarrow> bool" where
  "aff_expired now c \<longleftrightarrow> ac_rid c \<noteq> 0 \<and> ac_last_seen c \<noteq> 0 \<and> now - ac_last_seen c > P25_AFF_TTL_SEC"

definition p25_aff_tick :: "wall_s \<Rightarrow> aff_table \<Rightarrow> aff_table" where
  "p25_aff_tick now t = foldl (\<lambda>t i. if aff_expired now (aff_cells t ! i) then aff_drop i t else t) t [0..<AFF_CELLS]"

definition p25_ga_add :: "wall_s \<Rightarrow> u32 \<Rightarrow> u16 \<Rightarrow> ga_table \<Rightarrow> ga_table" where
  "p25_ga_add now rid tg t =
     (if rid = 0 \<or> tg = 0 then t
      else (case cell_for (\<lambda>c. gc_rid c = rid \<and> gc_tg c = tg) (\<lambda>c. gc_rid c = 0 \<or> gc_tg c = 0) gc_last_seen (ga_cells t) of
              (i, fresh) \<Rightarrow> t\<lparr>ga_cells := (ga_cells t)[i := \<lparr>gc_rid = rid, gc_tg = tg, gc_last_seen = now\<rparr>],
                            ga_count := ga_count t + of_bool fresh\<rparr>))"

definition ga_drop :: "nat \<Rightarrow> ga_table \<Rightarrow> ga_table" where
  "ga_drop i t = t\<lparr>ga_cells := (ga_cells t)[i := \<lparr>gc_rid = 0, gc_tg = 0, gc_last_seen = 0\<rparr>],
     ga_count := (if ga_count t > 0 then ga_count t - 1 else ga_count t)\<rparr>"

definition ga_expired :: "wall_s \<Rightarrow> ga_cell \<Rightarrow> bool" where
  "ga_expired now c \<longleftrightarrow> gc_rid c \<noteq> 0 \<and> gc_tg c \<noteq> 0 \<and> gc_last_seen c \<noteq> 0 \<and> now - gc_last_seen c > P25_GA_TTL_SEC"

definition p25_ga_tick :: "wall_s \<Rightarrow> ga_table \<Rightarrow> ga_table" where
  "p25_ga_tick now t = foldl (\<lambda>t i. if ga_expired now (ga_cells t ! i) then ga_drop i t else t) t [0..<GA_CELLS]"

definition aff_boot :: aff_table where
  "aff_boot = \<lparr>aff_cells = replicate AFF_CELLS \<lparr>ac_rid = 0, ac_last_seen = 0\<rparr>, aff_count = 0\<rparr>"

definition ga_boot :: ga_table where
  "ga_boot = \<lparr>ga_cells = replicate GA_CELLS \<lparr>gc_rid = 0, gc_tg = 0, gc_last_seen = 0\<rparr>, ga_count = 0\<rparr>"

section \<open>Keys, and the exact count\<close>

definition aff_key :: "aff_cell \<Rightarrow> u32 option" where
  "aff_key c = (if ac_rid c = 0 then None else Some (ac_rid c))"

definition ga_key :: "ga_cell \<Rightarrow> (u32 \<times> u16) option" where
  "ga_key c = (if gc_rid c = 0 \<or> gc_tg c = 0 then None else Some (gc_rid c, gc_tg c))"

definition keyed :: "nat \<Rightarrow> ('c \<Rightarrow> 'k option) \<Rightarrow> 'c list \<Rightarrow> int \<Rightarrow> bool" where
  "keyed cap key cells n \<longleftrightarrow> length cells = cap
     \<and> (\<forall>i<cap. \<forall>j<cap. \<forall>k. key (cells ! i) = Some k \<longrightarrow> key (cells ! j) = Some k \<longrightarrow> i = j)
     \<and> n = int (count_if (\<lambda>c. key c \<noteq> None) cells)"

lemma oldest_from_less: "best < i + length ts \<Longrightarrow> oldest_from i t best ts < i + length ts"
  by (induction i t best ts rule: oldest_from.induct) auto

lemma oldest_index_less: "ts \<noteq> [] \<Longrightarrow> oldest_index ts < length ts"
  using oldest_from_less [of 0 1 "tl ts" "hd ts"] by (cases ts) (auto simp: oldest_index_def)

text \<open>What \<open>cell_for\<close> picks in a keyed table.\<close>

lemma cell_for_cases:
  assumes "keyed cap key cells n" "0 < cap" "\<And>c. matches c \<longleftrightarrow> key c = Some k" "\<And>c. free c \<longleftrightarrow> key c = None"
    "cell_for matches free seen cells = (i, fresh)"
  shows "i < cap \<and> fresh = (key (cells ! i) = None) \<and> (key (cells ! i) = Some k
    \<or> (\<forall>j<cap. key (cells ! j) \<noteq> Some k) \<and> (key (cells ! i) = None \<or> (\<forall>j<cap. key (cells ! j) \<noteq> None)))"
proof (cases "find_index matches cells")
  case (Some j)
  then show ?thesis using assms find_index_SomeD [OF Some] by (auto simp: cell_for_def keyed_def)
next
  case None
  then have m: "\<forall>j<cap. key (cells ! j) \<noteq> Some k" using assms(1,3) by (auto simp: find_index_None_iff keyed_def)
  show ?thesis
  proof (cases "find_index free cells")
    case (Some j)
    then show ?thesis using assms None m find_index_SomeD [OF Some] by (auto simp: cell_for_def keyed_def)
  next
    case free: None
    then have "\<forall>j<cap. key (cells ! j) \<noteq> None" using assms(1,4) by (auto simp: find_index_None_iff keyed_def)
    moreover have "oldest_index (map seen cells) < cap"
      using oldest_index_less [of "map seen cells"] assms(1,2) by (auto simp: keyed_def)
    ultimately show ?thesis using assms(5) None free m by (auto simp: cell_for_def)
  qed
qed

lemma keyed_insert:
  assumes "keyed cap key cells n" "i < cap" "key c = Some k"
    "key (cells ! i) = Some k \<or> (\<forall>j<cap. key (cells ! j) \<noteq> Some k)"
  shows "keyed cap key (cells[i := c]) (n + of_bool (key (cells ! i) = None))"
proof -
  have "a = b" if "a < cap" "b < cap" "key (cells[i := c] ! a) = Some k'" "key (cells[i := c] ! b) = Some k'" for a b k'
    using that assms by (auto simp: keyed_def nth_list_update split: if_splits)
  moreover have "int (count_if (\<lambda>c. key c \<noteq> None) (cells[i := c])) = n + of_bool (key (cells ! i) = None)"
    using assms count_if_update [of i cells "\<lambda>c. key c \<noteq> None" c] by (auto simp: keyed_def)
  ultimately show ?thesis using assms(1) unfolding keyed_def by auto
qed

lemma keyed_drop:
  assumes "keyed cap key cells n" "i < cap" "key c = None" "key (cells ! i) \<noteq> None"
  shows "keyed cap key (cells[i := c]) (n - 1) \<and> 0 < n"
proof -
  have "a = b" if "a < cap" "b < cap" "key (cells[i := c] ! a) = Some k'" "key (cells[i := c] ! b) = Some k'" for a b k'
    using that assms by (auto simp: keyed_def nth_list_update split: if_splits)
  moreover have "int (count_if (\<lambda>c. key c \<noteq> None) (cells[i := c])) = n - 1"
    using assms count_if_update [of i cells "\<lambda>c. key c \<noteq> None" c] by (auto simp: keyed_def)
  ultimately show ?thesis using assms(1) unfolding keyed_def by auto
qed

text \<open>The last-seen times by key, and how the three ways to write a cell change them.\<close>

definition cell_map :: "('c \<Rightarrow> 'k option) \<Rightarrow> ('c \<Rightarrow> wall_s) \<Rightarrow> 'c list \<Rightarrow> 'k \<Rightarrow> wall_s option" where
  "cell_map key seen cells = (\<lambda>k. map_option (\<lambda>i. seen (cells ! i)) (find_index (\<lambda>c. key c = Some k) cells))"

lemma cell_map_Some:
  assumes "keyed cap key cells n"
  shows "cell_map key seen cells k = Some v \<longleftrightarrow> (\<exists>i<cap. key (cells ! i) = Some k \<and> seen (cells ! i) = v)"
proof
  assume "cell_map key seen cells k = Some v"
  then show "\<exists>i<cap. key (cells ! i) = Some k \<and> seen (cells ! i) = v"
    using assms by (auto simp: cell_map_def keyed_def dest!: find_index_SomeD)
next
  assume "\<exists>i<cap. key (cells ! i) = Some k \<and> seen (cells ! i) = v"
  then obtain i where i: "i < cap" "key (cells ! i) = Some k" "seen (cells ! i) = v" by blast
  have "find_index (\<lambda>c. key c = Some k) cells = Some i"
    by (rule find_index_unique) (use assms i in \<open>auto simp: keyed_def\<close>)
  with i show "cell_map key seen cells k = Some v" by (simp add: cell_map_def)
qed

lemma cell_map_None:
  assumes "keyed cap key cells n"
  shows "cell_map key seen cells k = None \<longleftrightarrow> (\<forall>i<cap. key (cells ! i) \<noteq> Some k)"
  using cell_map_Some [OF assms, of seen k] by (cases "cell_map key seen cells k") auto

lemma cell_map_eqI:
  assumes "\<And>k v. f k = Some v \<longleftrightarrow> g k = Some v"
  shows "f = g"
proof
  fix k show "f k = g k" using assms [of k] by (metis option.exhaust)
qed

lemma cell_map_insert:
  assumes "keyed cap key cells n" "i < cap" "key c = Some k" "key (cells ! i) = Some k \<or> (\<forall>j<cap. key (cells ! j) \<noteq> Some k)"
    "key (cells ! i) = Some k \<or> key (cells ! i) = None"
  shows "cell_map key seen (cells[i := c]) = (cell_map key seen cells)(k \<mapsto> seen c)"
proof (rule cell_map_eqI)
  fix k' v
  have l: "length cells = cap" and u: "\<And>j. j < cap \<Longrightarrow> key (cells ! j) = Some k \<Longrightarrow> j = i"
    using assms by (auto simp: keyed_def)
  have "(\<exists>j<cap. key (cells[i := c] ! j) = Some k' \<and> seen (cells[i := c] ! j) = v) \<longleftrightarrow>
      (if k' = k then seen c = v else \<exists>j<cap. key (cells ! j) = Some k' \<and> seen (cells ! j) = v)"
  proof (cases "k' = k")
    case True
    have "j = i" if "j < cap" "key (cells[i := c] ! j) = Some k" for j
      using that u [of j] by (metis nth_list_update_neq)
    then show ?thesis using True assms(2,3) l by (metis nth_list_update_eq)
  next
    case False
    have "key (cells[i := c] ! j) = Some k' \<and> seen (cells[i := c] ! j) = v \<longleftrightarrow> key (cells ! j) = Some k' \<and> seen (cells ! j) = v" for j
      using False assms(2,3,5) l by (cases "j = i") auto
    with False show ?thesis by simp
  qed
  then show "cell_map key seen (cells[i := c]) k' = Some v \<longleftrightarrow> ((cell_map key seen cells)(k \<mapsto> seen c)) k' = Some v"
    unfolding cell_map_Some [OF keyed_insert [OF assms(1-4)]] cell_map_Some [OF assms(1), of seen k' v, symmetric]
    by (cases "k' = k") (simp_all only: fun_upd_same fun_upd_other if_True if_False option.inject simp_thms)
qed

lemma cell_map_drop:
  assumes "keyed cap key cells n" "i < cap" "key c = None" "key (cells ! i) = Some k"
  shows "cell_map key seen (cells[i := c]) = (cell_map key seen cells)(k := None)"
proof (rule cell_map_eqI)
  fix k' v
  have l: "length cells = cap" and u: "\<And>j. j < cap \<Longrightarrow> key (cells ! j) = Some k \<Longrightarrow> j = i"
    using assms by (auto simp: keyed_def)
  have d: "keyed cap key (cells[i := c]) (n - 1)" using keyed_drop [OF assms(1-3)] assms(4) by simp
  have "(\<exists>j<cap. key (cells[i := c] ! j) = Some k' \<and> seen (cells[i := c] ! j) = v) \<longleftrightarrow>
      k' \<noteq> k \<and> (\<exists>j<cap. key (cells ! j) = Some k' \<and> seen (cells ! j) = v)"
  proof (cases "k' = k")
    case True
    have "key (cells[i := c] ! j) \<noteq> Some k" if "j < cap" for j
      using that u [of j] assms(2,3) l by (metis nth_list_update_eq nth_list_update_neq option.distinct(1))
    with True show ?thesis by blast
  next
    case False
    have "key (cells[i := c] ! j) = Some k' \<and> seen (cells[i := c] ! j) = v \<longleftrightarrow> key (cells ! j) = Some k' \<and> seen (cells ! j) = v" for j
      using False assms(2,3,4) l by (cases "j = i") auto
    with False show ?thesis by simp
  qed
  then show "cell_map key seen (cells[i := c]) k' = Some v \<longleftrightarrow> ((cell_map key seen cells)(k := None)) k' = Some v"
    unfolding cell_map_Some [OF d] cell_map_Some [OF assms(1), of seen k' v, symmetric]
    by (cases "k' = k") (simp_all only: fun_upd_same fun_upd_other option.distinct simp_thms)
qed

text \<open>A pass that empties the expired cells.\<close>

definition sweep_cells :: "('c \<Rightarrow> bool) \<Rightarrow> 'c \<Rightarrow> nat \<Rightarrow> 'c list \<times> int \<Rightarrow> 'c list \<times> int" where
  "sweep_cells expired z m cn =
     foldl (\<lambda>(cells, n) i. if expired (cells ! i) then (cells[i := z], if n > 0 then n - 1 else n) else (cells, n)) cn [0..<m]"

lemma sweep_cells_pass:
  assumes "keyed cap key cells n" "m \<le> cap" "key z = None" "\<And>c. expired c \<Longrightarrow> key c \<noteq> None"
  shows "case sweep_cells expired z m (cells, n) of (cells', n') \<Rightarrow> keyed cap key cells' n'
    \<and> (\<forall>j<cap. cells' ! j = (if j < m \<and> expired (cells ! j) then z else cells ! j))"
  using assms(2)
proof (induction m)
  case (Suc m)
  obtain cells' n' where s: "sweep_cells expired z m (cells, n) = (cells', n')" by fastforce
  then have k: "keyed cap key cells' n'" "\<forall>j<cap. cells' ! j = (if j < m \<and> expired (cells ! j) then z else cells ! j)"
    using Suc by auto
  have c: "cells' ! m = cells ! m" "length cells' = cap" using k Suc.prems by (auto simp: keyed_def)
  have e: "sweep_cells expired z (Suc m) (cells, n) =
      (if expired (cells ! m) then (cells'[m := z], if n' > 0 then n' - 1 else n') else (cells', n'))"
    using s c by (simp add: sweep_cells_def)
  show ?case
  proof (cases "expired (cells ! m)")
    case True
    then have "keyed cap key (cells'[m := z]) (n' - 1) \<and> 0 < n'"
      using keyed_drop [OF k(1) _ assms(3), of m] Suc.prems c assms(4) by auto
    then show ?thesis using True e k c Suc.prems by (auto simp: nth_list_update less_Suc_eq)
  next
    case False
    then show ?thesis using e k by (auto simp: less_Suc_eq)
  qed
qed (use assms(1) in \<open>simp add: sweep_cells_def\<close>)

lemma cell_map_sweep:
  assumes "keyed cap key cells n" "key z = None" "\<And>c. expired c \<Longrightarrow> key c \<noteq> None" "\<And>c. key c \<noteq> None \<Longrightarrow> expired c \<longleftrightarrow> old (seen c)"
    "sweep_cells expired z cap (cells, n) = (cells', n')"
  shows "keyed cap key cells' n' \<and> cell_map key seen cells' =
    (\<lambda>k. case cell_map key seen cells k of Some v \<Rightarrow> if old v then None else Some v | None \<Rightarrow> None)"
proof -
  have k: "keyed cap key cells' n'" "\<forall>j<cap. cells' ! j = (if expired (cells ! j) then z else cells ! j)"
    using sweep_cells_pass [of cap key cells n cap z expired] assms by auto
  have "cell_map key seen cells' = (\<lambda>k. case cell_map key seen cells k of Some v \<Rightarrow> if old v then None else Some v | None \<Rightarrow> None)"
  proof (rule cell_map_eqI)
    fix k v
    have "key (cells' ! i) = Some k \<and> seen (cells' ! i) = v \<longleftrightarrow> (key (cells ! i) = Some k \<and> seen (cells ! i) = v) \<and> \<not> old v" if "i < cap" for i
      using k(2) [rule_format, OF that] assms(2) assms(4) [of "cells ! i"] by auto
    then have "(\<exists>i<cap. key (cells' ! i) = Some k \<and> seen (cells' ! i) = v)
        \<longleftrightarrow> (\<exists>i<cap. key (cells ! i) = Some k \<and> seen (cells ! i) = v) \<and> \<not> old v" by blast
    then show "cell_map key seen cells' k = Some v \<longleftrightarrow>
        (case cell_map key seen cells k of Some v \<Rightarrow> if old v then None else Some v | None \<Rightarrow> None) = Some v"
      unfolding cell_map_Some [OF k(1)] by (auto simp: cell_map_Some [OF assms(1), symmetric] split: option.splits if_splits)
  qed
  with k(1) show ?thesis ..
qed

section \<open>Both tables are maps of times\<close>

definition aff_ok :: "aff_table \<Rightarrow> bool" where
  "aff_ok t \<longleftrightarrow> keyed AFF_CELLS aff_key (aff_cells t) (aff_count t)"

definition ga_ok :: "ga_table \<Rightarrow> bool" where
  "ga_ok t \<longleftrightarrow> keyed GA_CELLS ga_key (ga_cells t) (ga_count t)"

definition aff_seen :: "aff_table \<Rightarrow> u32 \<Rightarrow> wall_s option" where
  "aff_seen t = cell_map aff_key ac_last_seen (aff_cells t)"

definition ga_seen :: "ga_table \<Rightarrow> u32 \<times> u16 \<Rightarrow> wall_s option" where
  "ga_seen t = cell_map ga_key gc_last_seen (ga_cells t)"

lemma keys [simp]:
  "aff_key c = Some k \<longleftrightarrow> k \<noteq> 0 \<and> ac_rid c = k" "aff_key c = None \<longleftrightarrow> ac_rid c = 0"
  "ga_key g = Some p \<longleftrightarrow> fst p \<noteq> 0 \<and> snd p \<noteq> 0 \<and> gc_rid g = fst p \<and> gc_tg g = snd p"
  "ga_key g = None \<longleftrightarrow> gc_rid g = 0 \<or> gc_tg g = 0"
  by (auto simp: aff_key_def ga_key_def prod_eq_iff)

lemma boot_ok: "aff_ok aff_boot" "ga_ok ga_boot"
  by (auto simp: aff_ok_def ga_ok_def keyed_def aff_boot_def ga_boot_def count_if_eq_0_iff)

text \<open>What a registration does: one cell, its own, a free one or, when every cell is taken, a victim.\<close>

lemma aff_register_cell:
  assumes "aff_ok t" "rid \<noteq> 0"
  obtains i where "i < AFF_CELLS" "p25_aff_register now rid t = t\<lparr>aff_cells := (aff_cells t)[i := \<lparr>ac_rid = rid, ac_last_seen = now\<rparr>],
      aff_count := aff_count t + of_bool (aff_key (aff_cells t ! i) = None)\<rparr>"
    "aff_key (aff_cells t ! i) = Some rid \<or> (\<forall>j<AFF_CELLS. aff_key (aff_cells t ! j) \<noteq> Some rid)
       \<and> (aff_key (aff_cells t ! i) = None \<or> (\<forall>j<AFF_CELLS. aff_key (aff_cells t ! j) \<noteq> None))"
proof -
  obtain i fresh where c: "cell_for (\<lambda>c. ac_rid c = rid) (\<lambda>c. ac_rid c = 0) ac_last_seen (aff_cells t) = (i, fresh)" by fastforce
  have "i < AFF_CELLS \<and> fresh = (aff_key (aff_cells t ! i) = None) \<and> (aff_key (aff_cells t ! i) = Some rid
    \<or> (\<forall>j<AFF_CELLS. aff_key (aff_cells t ! j) \<noteq> Some rid) \<and> (aff_key (aff_cells t ! i) = None \<or> (\<forall>j<AFF_CELLS. aff_key (aff_cells t ! j) \<noteq> None)))"
    by (rule cell_for_cases [OF assms(1) [unfolded aff_ok_def] _ _ _ c]) (use assms(2) in \<open>auto simp: AFF_CELLS_def\<close>)
  then show ?thesis using c assms(2) by (intro that [of i]) (auto simp: p25_aff_register_def)
qed

lemma ga_add_cell:
  assumes "ga_ok t" "rid \<noteq> 0" "tg \<noteq> 0"
  obtains i where "i < GA_CELLS" "p25_ga_add now rid tg t = t\<lparr>ga_cells := (ga_cells t)[i := \<lparr>gc_rid = rid, gc_tg = tg, gc_last_seen = now\<rparr>],
      ga_count := ga_count t + of_bool (ga_key (ga_cells t ! i) = None)\<rparr>"
    "ga_key (ga_cells t ! i) = Some (rid, tg) \<or> (\<forall>j<GA_CELLS. ga_key (ga_cells t ! j) \<noteq> Some (rid, tg))
       \<and> (ga_key (ga_cells t ! i) = None \<or> (\<forall>j<GA_CELLS. ga_key (ga_cells t ! j) \<noteq> None))"
proof -
  obtain i fresh where c: "cell_for (\<lambda>c. gc_rid c = rid \<and> gc_tg c = tg) (\<lambda>c. gc_rid c = 0 \<or> gc_tg c = 0) gc_last_seen (ga_cells t) = (i, fresh)"
    by fastforce
  have "i < GA_CELLS \<and> fresh = (ga_key (ga_cells t ! i) = None) \<and> (ga_key (ga_cells t ! i) = Some (rid, tg)
    \<or> (\<forall>j<GA_CELLS. ga_key (ga_cells t ! j) \<noteq> Some (rid, tg)) \<and> (ga_key (ga_cells t ! i) = None \<or> (\<forall>j<GA_CELLS. ga_key (ga_cells t ! j) \<noteq> None)))"
    by (rule cell_for_cases [OF assms(1) [unfolded ga_ok_def] _ _ _ c]) (use assms(2,3) in \<open>auto simp: GA_CELLS_def\<close>)
  then show ?thesis using c assms(2,3) by (intro that [of i]) (auto simp: p25_ga_add_def)
qed

lemma aff_register_ok: "aff_ok t \<Longrightarrow> aff_ok (p25_aff_register now rid t)"
proof (cases "rid = 0")
  case False
  assume t: "aff_ok t"
  from t False show ?thesis
  proof (rule aff_register_cell [where now = now])
    fix i assume i: "i < AFF_CELLS" "p25_aff_register now rid t = t\<lparr>aff_cells := (aff_cells t)[i := \<lparr>ac_rid = rid, ac_last_seen = now\<rparr>],
        aff_count := aff_count t + of_bool (aff_key (aff_cells t ! i) = None)\<rparr>"
      "aff_key (aff_cells t ! i) = Some rid \<or> (\<forall>j<AFF_CELLS. aff_key (aff_cells t ! j) \<noteq> Some rid)
        \<and> (aff_key (aff_cells t ! i) = None \<or> (\<forall>j<AFF_CELLS. aff_key (aff_cells t ! j) \<noteq> None))"
    have "aff_key \<lparr>ac_rid = rid, ac_last_seen = now\<rparr> = Some rid" using False by (simp add: aff_key_def)
    from keyed_insert [OF t [unfolded aff_ok_def] i(1) this] i(3) have K:
      "keyed AFF_CELLS aff_key ((aff_cells t)[i := \<lparr>ac_rid = rid, ac_last_seen = now\<rparr>]) (aff_count t + of_bool (aff_key (aff_cells t ! i) = None))" by blast
    show ?thesis
      unfolding aff_ok_def i(2) using K by (simp del: keys split del: if_split)
  qed
qed (simp add: p25_aff_register_def)

lemma ga_add_ok: "ga_ok t \<Longrightarrow> ga_ok (p25_ga_add now rid tg t)"
proof (cases "rid = 0 \<or> tg = 0")
  case False
  assume t: "ga_ok t"
  from False have "rid \<noteq> 0" "tg \<noteq> 0" by auto
  with t show ?thesis
  proof (rule ga_add_cell [where now = now])
    fix i assume i: "i < GA_CELLS" "p25_ga_add now rid tg t = t\<lparr>ga_cells := (ga_cells t)[i := \<lparr>gc_rid = rid, gc_tg = tg, gc_last_seen = now\<rparr>],
        ga_count := ga_count t + of_bool (ga_key (ga_cells t ! i) = None)\<rparr>"
      "ga_key (ga_cells t ! i) = Some (rid, tg) \<or> (\<forall>j<GA_CELLS. ga_key (ga_cells t ! j) \<noteq> Some (rid, tg))
        \<and> (ga_key (ga_cells t ! i) = None \<or> (\<forall>j<GA_CELLS. ga_key (ga_cells t ! j) \<noteq> None))"
    have "ga_key \<lparr>gc_rid = rid, gc_tg = tg, gc_last_seen = now\<rparr> = Some (rid, tg)" using False by (simp add: ga_key_def)
    from keyed_insert [OF t [unfolded ga_ok_def] i(1) this] i(3) have K:
      "keyed GA_CELLS ga_key ((ga_cells t)[i := \<lparr>gc_rid = rid, gc_tg = tg, gc_last_seen = now\<rparr>]) (ga_count t + of_bool (ga_key (ga_cells t ! i) = None))" by blast
    show ?thesis
      unfolding ga_ok_def i(2) using K by (simp del: keys split del: if_split)
  qed
qed (auto simp: p25_ga_add_def)

interpretation aff: slot_table aff_ok aff_cells aff_key "\<lambda>k. k \<noteq> 0" p25_aff_register AFF_CELLS
proof unfold_locales
  fix t now and rid :: u32 assume t: "aff_ok t"
  show "aff_ok (p25_aff_register now rid t)" by (rule aff_register_ok [OF t])
  show "\<not> rid \<noteq> 0 \<Longrightarrow> aff_cells (p25_aff_register now rid t) = aff_cells t" by (simp add: p25_aff_register_def)
  assume r: "rid \<noteq> 0"
  from t r show "\<exists>i<AFF_CELLS. \<exists>c. aff_key c = Some rid \<and> aff_cells (p25_aff_register now rid t) = (aff_cells t)[i := c]
      \<and> (aff_key (aff_cells t ! i) = Some rid \<or> (\<forall>j<AFF_CELLS. aff_key (aff_cells t ! j) \<noteq> Some rid)
        \<and> (aff_key (aff_cells t ! i) = None \<or> (\<forall>j<AFF_CELLS. aff_key (aff_cells t ! j) \<noteq> None)))"
  proof (rule aff_register_cell [where now = now])
    fix i assume i: "i < AFF_CELLS" "p25_aff_register now rid t = t\<lparr>aff_cells := (aff_cells t)[i := \<lparr>ac_rid = rid, ac_last_seen = now\<rparr>],
        aff_count := aff_count t + of_bool (aff_key (aff_cells t ! i) = None)\<rparr>"
      "aff_key (aff_cells t ! i) = Some rid \<or> (\<forall>j<AFF_CELLS. aff_key (aff_cells t ! j) \<noteq> Some rid)
        \<and> (aff_key (aff_cells t ! i) = None \<or> (\<forall>j<AFF_CELLS. aff_key (aff_cells t ! j) \<noteq> None))"
    show ?thesis
      by (rule exI [of _ i], rule conjI [OF i(1)], rule exI [of _ "\<lparr>ac_rid = rid, ac_last_seen = now\<rparr>"]) (use i r in simp)
  qed
qed (auto simp: aff_ok_def keyed_def)

interpretation ga: slot_table ga_ok ga_cells ga_key "\<lambda>k. fst k \<noteq> 0 \<and> snd k \<noteq> 0" "\<lambda>now k. p25_ga_add now (fst k) (snd k)" GA_CELLS
proof unfold_locales
  fix t now and k :: "u32 \<times> u16" assume t: "ga_ok t"
  show "ga_ok (p25_ga_add now (fst k) (snd k) t)" by (rule ga_add_ok [OF t])
  show "\<not> (fst k \<noteq> 0 \<and> snd k \<noteq> 0) \<Longrightarrow> ga_cells (p25_ga_add now (fst k) (snd k) t) = ga_cells t" by (auto simp: p25_ga_add_def)
  assume r: "fst k \<noteq> 0 \<and> snd k \<noteq> 0"
  from t r [THEN conjunct1] r [THEN conjunct2] show "\<exists>i<GA_CELLS. \<exists>c. ga_key c = Some k \<and> ga_cells (p25_ga_add now (fst k) (snd k) t) = (ga_cells t)[i := c]
      \<and> (ga_key (ga_cells t ! i) = Some k \<or> (\<forall>j<GA_CELLS. ga_key (ga_cells t ! j) \<noteq> Some k)
        \<and> (ga_key (ga_cells t ! i) = None \<or> (\<forall>j<GA_CELLS. ga_key (ga_cells t ! j) \<noteq> None)))"
  proof (rule ga_add_cell [where now = now])
    fix i assume i: "i < GA_CELLS" "p25_ga_add now (fst k) (snd k) t = t\<lparr>ga_cells := (ga_cells t)[i := \<lparr>gc_rid = fst k, gc_tg = snd k, gc_last_seen = now\<rparr>],
        ga_count := ga_count t + of_bool (ga_key (ga_cells t ! i) = None)\<rparr>"
      "ga_key (ga_cells t ! i) = Some (fst k, snd k) \<or> (\<forall>j<GA_CELLS. ga_key (ga_cells t ! j) \<noteq> Some (fst k, snd k))
        \<and> (ga_key (ga_cells t ! i) = None \<or> (\<forall>j<GA_CELLS. ga_key (ga_cells t ! j) \<noteq> None))"
    show ?thesis
      by (rule exI [of _ i], rule conjI [OF i(1)], rule exI [of _ "\<lparr>gc_rid = fst k, gc_tg = snd k, gc_last_seen = now\<rparr>"]) (use i r in simp)
  qed
qed (auto simp: ga_ok_def keyed_def prod_eq_iff)

section \<open>Registration, removal and expiry as operations on the maps\<close>

lemma oldest_from_least:
  "oldest_from i x best ts = r \<Longrightarrow>
     (r = best \<and> (\<forall>y\<in>set ts. x \<le> y)) \<or> (\<exists>j<length ts. r = i + j \<and> ts ! j \<le> x \<and> (\<forall>y\<in>set ts. ts ! j \<le> y))"
proof (induction i x best ts rule: oldest_from.induct)
  case (2 i x best t ts)
  show ?case
  proof (cases "t < x")
    case True
    with 2 have "(r = i \<and> (\<forall>y\<in>set ts. t \<le> y)) \<or> (\<exists>j<length ts. r = Suc i + j \<and> ts ! j \<le> t \<and> (\<forall>y\<in>set ts. ts ! j \<le> y))" by simp
    then consider "r = i" "\<forall>y\<in>set ts. t \<le> y" | j where "j < length ts" "r = Suc i + j" "ts ! j \<le> t" "\<forall>y\<in>set ts. ts ! j \<le> y" by blast
    then show ?thesis
    proof cases
      case 1
      with True show ?thesis by (intro disjI2 exI [of _ 0]) auto
    next
      case (2 j)
      with True show ?thesis by (intro disjI2 exI [of _ "Suc j"]) auto
    qed
  next
    case False
    with 2 have "(r = best \<and> (\<forall>y\<in>set ts. x \<le> y)) \<or> (\<exists>j<length ts. r = Suc i + j \<and> ts ! j \<le> x \<and> (\<forall>y\<in>set ts. ts ! j \<le> y))" by simp
    then consider "r = best" "\<forall>y\<in>set ts. x \<le> y" | j where "j < length ts" "r = Suc i + j" "ts ! j \<le> x" "\<forall>y\<in>set ts. ts ! j \<le> y" by blast
    then show ?thesis
    proof cases
      case 1
      with False show ?thesis by auto
    next
      case (2 j)
      with False show ?thesis by (intro disjI2 exI [of _ "Suc j"]) auto
    qed
  qed
qed simp

lemma oldest_index_least: "ts \<noteq> [] \<Longrightarrow> y \<in> set ts \<Longrightarrow> ts ! oldest_index ts \<le> y"
  using oldest_from_least [of 1 "hd ts" 0 "tl ts"] by (cases ts) (auto simp: oldest_index_def)

lemma count_if_card: "count_if p xs = card {i. i < length xs \<and> p (xs ! i)}"
  by (simp add: count_if_def length_filter_conv_card)

lemma cell_map_dom:
  assumes "keyed cap key cells n"
  shows "k \<in> dom (cell_map key seen cells) \<longleftrightarrow> (\<exists>i<cap. key (cells ! i) = Some k)"
  using cell_map_None [OF assms, of seen k] by (auto simp: dom_def)

lemma keyed_card:
  assumes "keyed cap key cells n"
  shows "n = int (card (dom (cell_map key seen cells)))"
proof -
  have "bij_betw (\<lambda>i. the (key (cells ! i))) {i. i < cap \<and> key (cells ! i) \<noteq> None} (dom (cell_map key seen cells))"
    unfolding bij_betw_def
  proof
    show "inj_on (\<lambda>i. the (key (cells ! i))) {i. i < cap \<and> key (cells ! i) \<noteq> None}"
      using assms by (auto simp: keyed_def inj_on_def)
    show "(\<lambda>i. the (key (cells ! i))) ` {i. i < cap \<and> key (cells ! i) \<noteq> None} = dom (cell_map key seen cells)"
    proof (intro equalityI subsetI)
      fix k assume "k \<in> dom (cell_map key seen cells)"
      then obtain i where "i < cap" "key (cells ! i) = Some k" using cell_map_dom [OF assms] by blast
      then show "k \<in> (\<lambda>i. the (key (cells ! i))) ` {i. i < cap \<and> key (cells ! i) \<noteq> None}" by force
    next
      fix k assume "k \<in> (\<lambda>i. the (key (cells ! i))) ` {i. i < cap \<and> key (cells ! i) \<noteq> None}"
      then show "k \<in> dom (cell_map key seen cells)" unfolding cell_map_dom [OF assms] by force
    qed
  qed
  then have "card (dom (cell_map key seen cells)) = card {i. i < cap \<and> key (cells ! i) \<noteq> None}"
    using bij_betw_same_card by fastforce
  then show ?thesis using assms by (simp add: keyed_def count_if_card)
qed

lemma cell_map_evict:
  assumes "keyed cap key cells n" "i < cap" "key c = Some k" "key (cells ! i) = Some k0" "\<forall>j<cap. key (cells ! j) \<noteq> Some k"
  shows "cell_map key seen (cells[i := c]) = (cell_map key seen cells)(k0 := None, k \<mapsto> seen c)"
proof (rule cell_map_eqI)
  fix k' v
  have l: "length cells = cap" and u: "\<And>j. j < cap \<Longrightarrow> key (cells ! j) = Some k0 \<Longrightarrow> j = i"
    using assms by (auto simp: keyed_def)
  have K: "keyed cap key (cells[i := c]) (n + of_bool (key (cells ! i) = None))" by (rule keyed_insert) (use assms in auto)
  consider "k' = k" | "k' \<noteq> k" "k' = k0" | "k' \<noteq> k" "k' \<noteq> k0" by blast
  then show "cell_map key seen (cells[i := c]) k' = Some v \<longleftrightarrow> ((cell_map key seen cells)(k0 := None, k \<mapsto> seen c)) k' = Some v"
  proof cases
    case 1
    have "j = i" if "j < cap" "key (cells[i := c] ! j) = Some k" for j
      using that assms(5) by (metis nth_list_update_neq)
    then have "(\<exists>j<cap. key (cells[i := c] ! j) = Some k \<and> seen (cells[i := c] ! j) = v) \<longleftrightarrow> seen c = v"
      using assms(2,3) l by (metis nth_list_update_eq)
    with 1 show ?thesis unfolding cell_map_Some [OF K] by simp
  next
    case 2
    have "key (cells[i := c] ! j) \<noteq> Some k0" if "j < cap" for j
      using that u [of j] assms(2,3) 2 l by (metis nth_list_update_eq nth_list_update_neq option.inject)
    then have "\<not> (\<exists>j<cap. key (cells[i := c] ! j) = Some k0 \<and> seen (cells[i := c] ! j) = v)" by blast
    then show ?thesis using 2 unfolding cell_map_Some [OF K] by simp
  next
    case 3
    have "key (cells[i := c] ! j) = Some k' \<and> seen (cells[i := c] ! j) = v \<longleftrightarrow> key (cells ! j) = Some k' \<and> seen (cells ! j) = v" for j
      using 3 assms(2,3,4) l by (cases "j = i") auto
    with 3 show ?thesis unfolding cell_map_Some [OF K] by (simp add: cell_map_Some [OF assms(1)])
  qed
qed

text \<open>One insertion, seen on the map: an update when the key is held or a cell is free, else the oldest goes.\<close>

lemma cell_for_insert:
  assumes "keyed cap key cells n" "0 < cap" "\<And>c. matches c \<longleftrightarrow> key c = Some k" "\<And>c. free c \<longleftrightarrow> key c = None"
    "cell_for matches free seen cells = (i, fresh)" "key c = Some k"
  shows "keyed cap key (cells[i := c]) (n + of_bool fresh)"
    "k \<in> dom (cell_map key seen cells) \<or> n < int cap \<Longrightarrow> cell_map key seen (cells[i := c]) = (cell_map key seen cells)(k \<mapsto> seen c)"
    "k \<notin> dom (cell_map key seen cells) \<Longrightarrow> n = int cap \<Longrightarrow>
      \<exists>victim t. cell_map key seen cells victim = Some t \<and> (\<forall>t'\<in>ran (cell_map key seen cells). t \<le> t')
        \<and> cell_map key seen (cells[i := c]) = (cell_map key seen cells)(victim := None, k \<mapsto> seen c)"
proof -
  note i = cell_for_cases [OF assms(1-5)]
  have l: "length cells = cap" using assms(1) by (simp add: keyed_def)
  show "keyed cap key (cells[i := c]) (n + of_bool fresh)"
    using keyed_insert [OF assms(1) _ assms(6), of i] i by blast
  have full: "n = int cap" if "\<forall>j<cap. key (cells ! j) \<noteq> None"
  proof -
    have "{i. i < length cells \<and> key (cells ! i) \<noteq> None} = {..<cap}" using that l by auto
    then show ?thesis using assms(1) by (simp add: keyed_def count_if_card)
  qed
  show "cell_map key seen (cells[i := c]) = (cell_map key seen cells)(k \<mapsto> seen c)"
    if "k \<in> dom (cell_map key seen cells) \<or> n < int cap"
  proof (rule cell_map_insert [OF assms(1) _ assms(6)])
    show "key (cells ! i) = Some k \<or> key (cells ! i) = None"
    proof (cases "k \<in> dom (cell_map key seen cells)")
      case True
      then have "\<not> (\<forall>j<cap. key (cells ! j) \<noteq> Some k)" using cell_map_dom [OF assms(1)] by blast
      with i show ?thesis by blast
    next
      case False
      with that have "n < int cap" by blast
      with full have f: "\<not> (\<forall>j<cap. key (cells ! j) \<noteq> None)" by force
      from i have "key (cells ! i) = Some k \<or> key (cells ! i) = None \<or> (\<forall>j<cap. key (cells ! j) \<noteq> None)" by (elim conjE disjE) simp_all
      with f show ?thesis by argo
    qed
  qed (use i in blast)+
  assume k: "k \<notin> dom (cell_map key seen cells)" and n: "n = int cap"
  have all: "key (cells ! j) \<noteq> None" if "j < cap" for j
  proof
    assume "key (cells ! j) = None"
    then have "j \<notin> {i. i < length cells \<and> key (cells ! i) \<noteq> None}" by simp
    moreover have "{i. i < length cells \<and> key (cells ! i) \<noteq> None} \<subseteq> {..<cap}" using l by fastforce
    ultimately have "{i. i < length cells \<and> key (cells ! i) \<noteq> None} \<subset> {..<cap}" using that by blast
    from psubset_card_mono [OF finite_lessThan this] have "card {i. i < length cells \<and> key (cells ! i) \<noteq> None} < cap" by simp
    then show False using n assms(1) by (simp add: keyed_def count_if_card)
  qed
  have none: "\<forall>j<cap. key (cells ! j) \<noteq> Some k" using k cell_map_None [OF assms(1), of seen k] by (simp add: dom_def)
  then have ma: "find_index matches cells = None" "find_index free cells = None"
    using assms(3,4) all l unfolding find_index_None_iff by (metis in_set_conv_nth)+
  then have oi: "i = oldest_index (map seen cells)" using assms(5) by (simp add: cell_for_def)
  obtain k0 where k0: "key (cells ! i) = Some k0" using all i by blast
  have "t' \<ge> seen (cells ! i)" if t': "t' \<in> ran (cell_map key seen cells)" for t'
  proof -
    from t' obtain j where "j < cap" "seen (cells ! j) = t'" by (auto simp: ran_def cell_map_Some [OF assms(1)])
    then have "t' \<in> set (map seen cells)" using l by auto
    then have "map seen cells ! i \<le> t'" using oldest_index_least [of "map seen cells" t'] oi by fastforce
    then show ?thesis using i l by simp
  qed
  moreover have "cell_map key seen cells k0 = Some (seen (cells ! i))" using k0 i cell_map_Some [OF assms(1)] by blast
  ultimately show "\<exists>victim t. cell_map key seen cells victim = Some t \<and> (\<forall>t'\<in>ran (cell_map key seen cells). t \<le> t')
      \<and> cell_map key seen (cells[i := c]) = (cell_map key seen cells)(victim := None, k \<mapsto> seen c)"
    using cell_map_evict [OF assms(1) _ assms(6) k0 none] i by blast
qed

definition timed_out :: "wall_s \<Rightarrow> wall_s \<Rightarrow> wall_s \<Rightarrow> bool" where
  "timed_out ttl now v \<longleftrightarrow> v \<noteq> 0 \<and> now - v > ttl"

definition without_old :: "wall_s \<Rightarrow> wall_s \<Rightarrow> ('k \<Rightarrow> wall_s option) \<Rightarrow> 'k \<Rightarrow> wall_s option" where
  "without_old ttl now m = (\<lambda>k. case m k of Some v \<Rightarrow> if timed_out ttl now v then None else Some v | None \<Rightarrow> None)"

definition aff_zero :: aff_cell where "aff_zero = \<lparr>ac_rid = 0, ac_last_seen = 0\<rparr>"
definition ga_zero :: ga_cell where "ga_zero = \<lparr>gc_rid = 0, gc_tg = 0, gc_last_seen = 0\<rparr>"

lemma aff_zero_key: "aff_key aff_zero = None"
  by (simp add: aff_zero_def)

lemma aff_tick_sweep:
  "p25_aff_tick now t = (case sweep_cells (aff_expired now) aff_zero AFF_CELLS (aff_cells t, aff_count t) of
     (cells, n) \<Rightarrow> t\<lparr>aff_cells := cells, aff_count := n\<rparr>)"
proof -
  have "foldl (\<lambda>t i. if aff_expired now (aff_cells t ! i) then aff_drop i t else t) t xs =
      (case foldl (\<lambda>(cells, n) i. if aff_expired now (cells ! i) then (cells[i := aff_zero], if n > 0 then n - 1 else n) else (cells, n))
         (aff_cells t, aff_count t) xs of (cells, n) \<Rightarrow> t\<lparr>aff_cells := cells, aff_count := n\<rparr>)" for xs
    by (induction xs arbitrary: t) (auto simp: aff_drop_def aff_zero_def split: prod.splits)
  then show ?thesis by (simp add: p25_aff_tick_def sweep_cells_def)
qed

lemma ga_zero_key: "ga_key ga_zero = None"
  by (simp add: ga_zero_def)

lemma ga_tick_sweep:
  "p25_ga_tick now t = (case sweep_cells (ga_expired now) ga_zero GA_CELLS (ga_cells t, ga_count t) of
     (cells, n) \<Rightarrow> t\<lparr>ga_cells := cells, ga_count := n\<rparr>)"
proof -
  have "foldl (\<lambda>t i. if ga_expired now (ga_cells t ! i) then ga_drop i t else t) t xs =
      (case foldl (\<lambda>(cells, n) i. if ga_expired now (cells ! i) then (cells[i := ga_zero], if n > 0 then n - 1 else n) else (cells, n))
         (ga_cells t, ga_count t) xs of (cells, n) \<Rightarrow> t\<lparr>ga_cells := cells, ga_count := n\<rparr>)" for xs
    by (induction xs arbitrary: t) (auto simp: ga_drop_def ga_zero_def split: prod.splits)
  then show ?thesis by (simp add: p25_ga_tick_def sweep_cells_def)
qed

lemma aff_tick_map:
  assumes "aff_ok t"
  shows "aff_ok (p25_aff_tick now t) \<and> aff_seen (p25_aff_tick now t) = without_old P25_AFF_TTL_SEC now (aff_seen t)"
proof -
  obtain cells n where s: "sweep_cells (aff_expired now) aff_zero AFF_CELLS (aff_cells t, aff_count t) = (cells, n)" by fastforce
  show ?thesis
    using cell_map_sweep [OF assms [unfolded aff_ok_def] aff_zero_key _ _ s, where old = "timed_out P25_AFF_TTL_SEC now" and seen = ac_last_seen]
    by (simp add: aff_tick_sweep s aff_ok_def aff_seen_def without_old_def aff_expired_def timed_out_def)
qed

lemma ga_tick_map:
  assumes "ga_ok t"
  shows "ga_ok (p25_ga_tick now t) \<and> ga_seen (p25_ga_tick now t) = without_old P25_GA_TTL_SEC now (ga_seen t)"
proof -
  obtain cells n where s: "sweep_cells (ga_expired now) ga_zero GA_CELLS (ga_cells t, ga_count t) = (cells, n)" by fastforce
  show ?thesis
    using cell_map_sweep [OF assms [unfolded ga_ok_def] ga_zero_key _ _ s, where old = "timed_out P25_GA_TTL_SEC now" and seen = gc_last_seen]
    by (simp add: ga_tick_sweep s ga_ok_def ga_seen_def without_old_def ga_expired_def timed_out_def)
qed

lemma aff_deregister_map:
  assumes "aff_ok t"
  shows "aff_ok (p25_aff_deregister rid t) \<and> aff_seen (p25_aff_deregister rid t) = (aff_seen t)(rid := None)"
proof (cases "p25_aff_find_idx t rid")
  case None
  then have "aff_seen t rid = None"
    using assms by (auto simp: aff_seen_def aff_ok_def keyed_def p25_aff_find_idx_def find_index_None_iff cell_map_def split: if_splits)
  then have "(aff_seen t)(rid := None) = aff_seen t" by auto
  then show ?thesis using None assms by (auto simp: p25_aff_deregister_def)
next
  case (Some i)
  then have i: "rid \<noteq> 0" "i < AFF_CELLS" "ac_rid (aff_cells t ! i) = rid"
    using assms by (auto simp: p25_aff_find_idx_def aff_ok_def keyed_def dest!: find_index_SomeD split: if_splits)
  have k: "keyed AFF_CELLS aff_key (aff_cells t) (aff_count t)" using assms by (simp add: aff_ok_def)
  have d: "keyed AFF_CELLS aff_key ((aff_cells t)[i := aff_zero]) (aff_count t - 1) \<and> 0 < aff_count t"
    by (rule keyed_drop [OF k i(2)]) (use i in \<open>simp_all add: aff_zero_def\<close>)
  have m: "cell_map aff_key ac_last_seen ((aff_cells t)[i := aff_zero]) = (cell_map aff_key ac_last_seen (aff_cells t))(rid := None)"
    by (rule cell_map_drop [OF k i(2)]) (use i in \<open>simp_all add: aff_zero_def\<close>)
  show ?thesis using d m i Some by (simp add: p25_aff_deregister_def aff_drop_def aff_ok_def aff_seen_def aff_zero_def)
qed

lemma aff_register_map:
  assumes "aff_ok t" "rid \<noteq> 0"
  shows "rid \<in> dom (aff_seen t) \<or> aff_count t < int AFF_CELLS \<Longrightarrow> aff_seen (p25_aff_register now rid t) = (aff_seen t)(rid \<mapsto> now)"
    and "rid \<notin> dom (aff_seen t) \<Longrightarrow> aff_count t = int AFF_CELLS \<Longrightarrow>
      \<exists>victim v. aff_seen t victim = Some v \<and> (\<forall>w\<in>ran (aff_seen t). v \<le> w)
        \<and> aff_seen (p25_aff_register now rid t) = (aff_seen t)(victim := None, rid \<mapsto> now)"
proof -
  obtain i fresh where c: "cell_for (\<lambda>c. ac_rid c = rid) (\<lambda>c. ac_rid c = 0) ac_last_seen (aff_cells t) = (i, fresh)" by fastforce
  have e: "aff_seen (p25_aff_register now rid t) = cell_map aff_key ac_last_seen ((aff_cells t)[i := \<lparr>ac_rid = rid, ac_last_seen = now\<rparr>])"
    using c assms(2) by (simp add: p25_aff_register_def aff_seen_def)
  have k: "keyed AFF_CELLS aff_key (aff_cells t) (aff_count t)" using assms(1) by (simp add: aff_ok_def)
  have m: "0 < AFF_CELLS" "\<And>c. ac_rid c = rid \<longleftrightarrow> aff_key c = Some rid" "\<And>c. ac_rid c = 0 \<longleftrightarrow> aff_key c = None"
    "aff_key \<lparr>ac_rid = rid, ac_last_seen = now\<rparr> = Some rid" using assms(2) by (auto simp: AFF_CELLS_def)
  note ins = cell_for_insert(2,3) [OF k m(1-3) c m(4), folded aff_seen_def]
  show "rid \<in> dom (aff_seen t) \<or> aff_count t < int AFF_CELLS \<Longrightarrow> aff_seen (p25_aff_register now rid t) = (aff_seen t)(rid \<mapsto> now)"
    using ins(1) unfolding e by simp
  show "rid \<notin> dom (aff_seen t) \<Longrightarrow> aff_count t = int AFF_CELLS \<Longrightarrow>
      \<exists>victim v. aff_seen t victim = Some v \<and> (\<forall>w\<in>ran (aff_seen t). v \<le> w)
        \<and> aff_seen (p25_aff_register now rid t) = (aff_seen t)(victim := None, rid \<mapsto> now)"
    using ins(2) unfolding e by simp
qed

lemma ga_add_map:
  assumes "ga_ok t" "rid \<noteq> 0" "tg \<noteq> 0"
  shows "(rid, tg) \<in> dom (ga_seen t) \<or> ga_count t < int GA_CELLS \<Longrightarrow> ga_seen (p25_ga_add now rid tg t) = (ga_seen t)((rid, tg) \<mapsto> now)"
    and "(rid, tg) \<notin> dom (ga_seen t) \<Longrightarrow> ga_count t = int GA_CELLS \<Longrightarrow>
      \<exists>victim v. ga_seen t victim = Some v \<and> (\<forall>w\<in>ran (ga_seen t). v \<le> w)
        \<and> ga_seen (p25_ga_add now rid tg t) = (ga_seen t)(victim := None, (rid, tg) \<mapsto> now)"
proof -
  let ?c = "\<lparr>gc_rid = rid, gc_tg = tg, gc_last_seen = now\<rparr>"
  obtain i fresh where c: "cell_for (\<lambda>c. gc_rid c = rid \<and> gc_tg c = tg) (\<lambda>c. gc_rid c = 0 \<or> gc_tg c = 0) gc_last_seen (ga_cells t) = (i, fresh)" by fastforce
  have e: "ga_seen (p25_ga_add now rid tg t) = cell_map ga_key gc_last_seen ((ga_cells t)[i := ?c])"
    using c assms(2,3) by (simp add: p25_ga_add_def ga_seen_def)
  have k: "keyed GA_CELLS ga_key (ga_cells t) (ga_count t)" using assms(1) by (simp add: ga_ok_def)
  have m: "0 < GA_CELLS" "\<And>c. gc_rid c = rid \<and> gc_tg c = tg \<longleftrightarrow> ga_key c = Some (rid, tg)"
    "\<And>c. gc_rid c = 0 \<or> gc_tg c = 0 \<longleftrightarrow> ga_key c = None" "ga_key ?c = Some (rid, tg)"
    using assms(2,3) by (auto simp: GA_CELLS_def)
  note ins = cell_for_insert(2,3) [OF k m(1-3) c m(4), folded ga_seen_def]
  show "(rid, tg) \<in> dom (ga_seen t) \<or> ga_count t < int GA_CELLS \<Longrightarrow> ga_seen (p25_ga_add now rid tg t) = (ga_seen t)((rid, tg) \<mapsto> now)"
    using ins(1) unfolding e by simp
  show "(rid, tg) \<notin> dom (ga_seen t) \<Longrightarrow> ga_count t = int GA_CELLS \<Longrightarrow>
      \<exists>victim v. ga_seen t victim = Some v \<and> (\<forall>w\<in>ran (ga_seen t). v \<le> w)
        \<and> ga_seen (p25_ga_add now rid tg t) = (ga_seen t)(victim := None, (rid, tg) \<mapsto> now)"
    using ins(2) unfolding e by simp
qed

section \<open>What the tables promise\<close>

text \<open>C40: The affiliation table is a map from radio IDs to the time each was last heard, at most 256 of
  them, and its counter is exactly the number of entries. Registering a radio sets its time; when all 256
  cells are taken and the radio is new, one entry with the least time is forgotten and nothing else.
  Deregistering removes that radio alone. The tick removes exactly the entries whose time is not 0 and more
  than 15 minutes old. The number 0 is never registered.\<close>

theorem affiliations_are_timed_maps:
  assumes "aff_ok t"
  shows "aff_count t = int (card (dom (aff_seen t))) \<and> aff_count t \<le> 256 \<and> 0 \<notin> dom (aff_seen t)
    \<and> p25_aff_register now 0 t = t
    \<and> (\<forall>rid. rid \<noteq> 0 \<longrightarrow> rid \<in> dom (aff_seen t) \<or> aff_count t < 256 \<longrightarrow> aff_seen (p25_aff_register now rid t) = (aff_seen t)(rid \<mapsto> now))
    \<and> (\<forall>rid. rid \<noteq> 0 \<longrightarrow> rid \<notin> dom (aff_seen t) \<longrightarrow> aff_count t = 256 \<longrightarrow>
         (\<exists>victim v. aff_seen t victim = Some v \<and> (\<forall>w\<in>ran (aff_seen t). v \<le> w)
           \<and> aff_seen (p25_aff_register now rid t) = (aff_seen t)(victim := None, rid \<mapsto> now)))
    \<and> (\<forall>rid. aff_seen (p25_aff_deregister rid t) = (aff_seen t)(rid := None))
    \<and> aff_seen (p25_aff_tick now t) = without_old (15 * 60) now (aff_seen t)
    \<and> (\<forall>rid. aff_ok (p25_aff_register now rid t) \<and> aff_ok (p25_aff_deregister rid t)) \<and> aff_ok (p25_aff_tick now t)"
proof -
  have k: "keyed AFF_CELLS aff_key (aff_cells t) (aff_count t)" using assms by (simp add: aff_ok_def)
  have le: "aff_count t \<le> 256"
    using k count_if_le_length [of "\<lambda>c. aff_key c \<noteq> None" "aff_cells t"] by (simp add: keyed_def AFF_CELLS_def)
  have z: "0 \<notin> dom (aff_seen t)" unfolding aff_seen_def cell_map_dom [OF k] by simp
  have c: "int AFF_CELLS = 256" by (simp add: AFF_CELLS_def)
  have n: "P25_AFF_TTL_SEC = 15 * 60" by (simp add: P25_AFF_TTL_SEC_def)
  show ?thesis
    using aff_register_map [OF assms, of _ now, unfolded c] aff_deregister_map [OF assms] aff_tick_map [OF assms, of now, unfolded n]
      keyed_card [OF k, of ac_last_seen, folded aff_seen_def] aff_register_ok [OF assms, of now] le z
    by (simp add: p25_aff_register_def [of _ 0])
qed

text \<open>A table with two radios, one of them stale: registering a third, removing the first, expiring the second.\<close>

definition aff_sample :: aff_table where
  "aff_sample = p25_aff_register 1000 7 (p25_aff_register 50 9 aff_boot)"

lemma aff_sample_ok: "aff_ok aff_sample"
  by (simp add: aff_sample_def aff_register_ok boot_ok)

lemma aff_boot_seen: "aff_seen aff_boot = Map.empty"
proof
  fix r
  have "keyed AFF_CELLS aff_key (aff_cells aff_boot) (aff_count aff_boot)" using boot_ok(1) by (simp add: aff_ok_def)
  from cell_map_None [OF this, of ac_last_seen r] show "aff_seen aff_boot r = None"
    by (simp add: aff_seen_def aff_boot_def)
qed

lemma aff_sample_seen: "aff_seen aff_sample = [9 \<mapsto> 50, 7 \<mapsto> 1000]"
proof -
  have o: "aff_ok aff_boot" by (rule boot_ok)
  have "aff_seen (p25_aff_register 50 9 aff_boot) = [9 \<mapsto> 50]"
    using aff_register_map(1) [OF o, of 9 50] unfolding aff_boot_seen by (simp add: aff_boot_def AFF_CELLS_def)
  moreover have "aff_count (p25_aff_register 50 9 aff_boot) \<le> 1"
    by (simp add: p25_aff_register_def aff_boot_def split: prod.splits)
  ultimately show ?thesis
    using aff_register_map(1) [OF aff_register_ok [OF o], of 7 50 9 1000] by (simp add: aff_sample_def AFF_CELLS_def)
qed

lemma affiliations_are_timed_maps_witness:
  "aff_seen (p25_aff_tick 1000 aff_sample) 9 = None \<and> aff_seen (p25_aff_tick 1000 aff_sample) 7 = Some 1000
    \<and> aff_seen (p25_aff_deregister 7 aff_sample) = [9 \<mapsto> 50] \<and> aff_count aff_sample = 2"
  using affiliations_are_timed_maps [OF aff_sample_ok, of 1000]
  by (auto simp: aff_sample_seen without_old_def timed_out_def fun_upd_twist)

text \<open>The group-affiliation table is the same over pairs of a radio and a talkgroup, with 512 cells and
  30 minutes: an addition sets the pair's time and loses another pair only when the table is full and the
  pair is new, and then one with the least time; the tick removes exactly the pairs that are too old; the
  counter is the number of pairs; a pair with a 0 in it is never added.\<close>

lemma group_affiliations_are_timed_maps:
  assumes "ga_ok t"
  shows "ga_count t = int (card (dom (ga_seen t))) \<and> ga_count t \<le> 512
    \<and> (\<forall>rid tg. rid = 0 \<or> tg = 0 \<longrightarrow> p25_ga_add now rid tg t = t \<and> (rid, tg) \<notin> dom (ga_seen t))
    \<and> (\<forall>rid tg. rid \<noteq> 0 \<longrightarrow> tg \<noteq> 0 \<longrightarrow> (rid, tg) \<in> dom (ga_seen t) \<or> ga_count t < 512 \<longrightarrow>
         ga_seen (p25_ga_add now rid tg t) = (ga_seen t)((rid, tg) \<mapsto> now))
    \<and> (\<forall>rid tg. rid \<noteq> 0 \<longrightarrow> tg \<noteq> 0 \<longrightarrow> (rid, tg) \<notin> dom (ga_seen t) \<longrightarrow> ga_count t = 512 \<longrightarrow>
         (\<exists>victim v. ga_seen t victim = Some v \<and> (\<forall>w\<in>ran (ga_seen t). v \<le> w)
           \<and> ga_seen (p25_ga_add now rid tg t) = (ga_seen t)(victim := None, (rid, tg) \<mapsto> now)))
    \<and> ga_seen (p25_ga_tick now t) = without_old (30 * 60) now (ga_seen t)
    \<and> (\<forall>rid tg. ga_ok (p25_ga_add now rid tg t)) \<and> ga_ok (p25_ga_tick now t)"
proof -
  have k: "keyed GA_CELLS ga_key (ga_cells t) (ga_count t)" using assms by (simp add: ga_ok_def)
  have le: "ga_count t \<le> 512"
    using k count_if_le_length [of "\<lambda>c. ga_key c \<noteq> None" "ga_cells t"] by (simp add: keyed_def GA_CELLS_def)
  have z: "(rid, tg) \<notin> dom (ga_seen t)" if "rid = 0 \<or> tg = 0" for rid tg
    unfolding ga_seen_def cell_map_dom [OF k] using that by auto
  have c: "int GA_CELLS = 512" by (simp add: GA_CELLS_def)
  have n: "P25_GA_TTL_SEC = 30 * 60" by (simp add: P25_GA_TTL_SEC_def)
  have a: "p25_ga_add now rid tg t = t" if "rid = 0 \<or> tg = 0" for rid tg
    using that by (auto simp: p25_ga_add_def)
  show ?thesis
    using ga_add_map [OF assms, of _ _ now, unfolded c] ga_tick_map [OF assms, of now, unfolded n]
      keyed_card [OF k, of gc_last_seen, folded ga_seen_def] ga_add_ok [OF assms, of now] le z a
    by simp
qed

end
