(* ===== verification/P25_Sm_Types.thy ===== *)
theory P25_Sm_Types
  imports Prelude
begin

text \<open>
  The data of the P25 trunking machine, from \<open>include/dsd-neo/protocol/p25/p25_trunk_sm.h\<close>: the grant
  event, the per-slot context, the quarantine of a call that has ended, the memo of a re-admitted target,
  and the machine's own context. An event has the fields a grant carries, the context the fields its grant
  path uses. The two slots are a list of two.
\<close>

datatype p25_sm_state = P25_SM_IDLE | P25_SM_ON_CC | P25_SM_TUNED | P25_SM_HUNTING

datatype grant_provenance = PROVENANCE_UNKNOWN | PROVENANCE_ASSIGNMENT | PROVENANCE_UPDATE

definition P25_SM_SVC_UNKNOWN :: int where "P25_SM_SVC_UNKNOWN = - 1"

record p25_grant_event =
  ev_channel :: int
  ev_tg :: int
  ev_src :: int
  ev_dst :: int
  ev_svc_bits :: int
  ev_is_group :: bool
  ev_provenance :: grant_provenance
  ev_data_override :: int

record p25_slot =
  sl_last_active_m :: mono_s
  sl_last_start_m :: mono_s
  sl_last_stop_m :: mono_s
  sl_last_followed_m :: mono_s
  sl_voice_active :: bool
  sl_algid :: int
  sl_keyid :: int
  sl_tg :: int
  sl_grant_active :: bool
  sl_freq_hz :: int
  sl_channel :: int
  sl_target_id :: int
  sl_ota_tg :: int
  sl_src :: int
  sl_dst :: int
  sl_is_group :: bool
  sl_data_call :: bool
  sl_svc_bits :: int
  sl_enc_override_clear :: bool
  sl_enc_lockout_reprobe :: bool
  sl_last_grant_m :: mono_s
  sl_crypto_attempt_m :: mono_s
  sl_last_end_m :: mono_s
  sl_last_end_tg :: int
  sl_last_end_src :: int
  sl_facch_end_m :: mono_s
  sl_facch_end_tg :: int
  sl_facch_end_src :: int
  sl_ptt_signature :: "u8 list"
  sl_ptt_last_seen_m :: mono_s
  sl_ptt_signature_valid :: bool
  sl_ptt_canonical_epoch :: u64
  sl_last_enc_suppress_m :: mono_s

record call_end_guard =
  eg_end_m :: mono_s
  eg_last_match_m :: mono_s
  eg_freq_hz :: int
  eg_slot :: int
  eg_target :: int
  eg_src :: int
  eg_is_group :: bool
  eg_probe_attempted :: bool
  eg_valid :: bool

record reprobe_memo =
  rm_admitted_m :: mono_s
  rm_target :: u32
  rm_is_group :: bool

record p25_sm_ctx =
  sm_state :: p25_sm_state
  sm_vc_freq_hz :: int
  sm_vc_is_tdma :: bool
  sm_recent_call_ends :: "call_end_guard list"
  sm_slots :: "p25_slot list"
  sm_enc_reprobes :: "reprobe_memo list"

definition ENC_REPROBE_MEMO_MAX :: nat where "ENC_REPROBE_MEMO_MAX = 16"

definition zero_guard :: call_end_guard where
  "zero_guard = \<lparr>eg_end_m = 0, eg_last_match_m = 0, eg_freq_hz = 0, eg_slot = 0, eg_target = 0, eg_src = 0,
     eg_is_group = False, eg_probe_attempted = False, eg_valid = False\<rparr>"

definition zero_memo :: reprobe_memo where
  "zero_memo = \<lparr>rm_admitted_m = 0, rm_target = 0, rm_is_group = False\<rparr>"

definition PTT_SIGNATURE_BYTES :: nat where "PTT_SIGNATURE_BYTES = 17"

definition zero_slot :: p25_slot where
  "zero_slot = \<lparr>sl_last_active_m = 0, sl_last_start_m = 0, sl_last_stop_m = 0, sl_last_followed_m = 0, sl_voice_active = False,
     sl_algid = 0, sl_keyid = 0, sl_tg = 0, sl_grant_active = False, sl_freq_hz = 0, sl_channel = 0, sl_target_id = 0,
     sl_ota_tg = 0, sl_src = 0, sl_dst = 0, sl_is_group = False, sl_data_call = False, sl_svc_bits = 0,
     sl_enc_override_clear = False, sl_enc_lockout_reprobe = False, sl_last_grant_m = 0, sl_crypto_attempt_m = 0,
     sl_last_end_m = 0, sl_last_end_tg = 0, sl_last_end_src = 0, sl_facch_end_m = 0, sl_facch_end_tg = 0, sl_facch_end_src = 0,
     sl_ptt_signature = replicate PTT_SIGNATURE_BYTES 0, sl_ptt_last_seen_m = 0, sl_ptt_signature_valid = False,
     sl_ptt_canonical_epoch = 0, sl_last_enc_suppress_m = 0\<rparr>"

text \<open>The network's own identifiers are no subscriber's.\<close>

definition p25_source_id_is_subscriber :: "u64 \<Rightarrow> bool" where
  "p25_source_id_is_subscriber source \<longleftrightarrow> source \<noteq> 0 \<and> source \<noteq> 0xFFFFFD \<and> source \<noteq> 0xFFFFFF"

definition p25_source_id_known :: "int \<Rightarrow> bool" where
  "p25_source_id_known src \<longleftrightarrow> src > 0 \<and> p25_source_id_is_subscriber (ucast (word_of_int src :: u32))"

definition p25_grant_ota_target_id :: "p25_grant_event \<Rightarrow> int" where
  "p25_grant_ota_target_id ev = (if ev_is_group ev then ev_tg ev else ev_dst ev)"

text \<open>The constructors of grant events.\<close>

definition ev_group_grant :: "int \<Rightarrow> int \<Rightarrow> int \<Rightarrow> int \<Rightarrow> p25_grant_event" where
  "ev_group_grant channel tg src svc_bits = \<lparr>ev_channel = channel, ev_tg = tg, ev_src = src, ev_dst = 0, ev_svc_bits = svc_bits,
     ev_is_group = True, ev_provenance = PROVENANCE_ASSIGNMENT, ev_data_override = 0\<rparr>"

definition ev_group_grant_update :: "int \<Rightarrow> int \<Rightarrow> int \<Rightarrow> int \<Rightarrow> p25_grant_event" where
  "ev_group_grant_update channel tg src svc_bits = (ev_group_grant channel tg src svc_bits)\<lparr>ev_provenance := PROVENANCE_UPDATE\<rparr>"

definition ev_indiv_grant :: "int \<Rightarrow> int \<Rightarrow> int \<Rightarrow> int \<Rightarrow> p25_grant_event" where
  "ev_indiv_grant channel dst src svc_bits = \<lparr>ev_channel = channel, ev_tg = 0, ev_src = src, ev_dst = dst, ev_svc_bits = svc_bits,
     ev_is_group = False, ev_provenance = PROVENANCE_ASSIGNMENT, ev_data_override = 0\<rparr>"

definition ev_indiv_grant_update :: "int \<Rightarrow> int \<Rightarrow> int \<Rightarrow> int \<Rightarrow> p25_grant_event" where
  "ev_indiv_grant_update channel dst src svc_bits = (ev_indiv_grant channel dst src svc_bits)\<lparr>ev_provenance := PROVENANCE_UPDATE\<rparr>"

definition ev_group_data_grant :: "int \<Rightarrow> int \<Rightarrow> int \<Rightarrow> int \<Rightarrow> p25_grant_event" where
  "ev_group_data_grant channel tg src svc_bits = (ev_group_grant channel tg src svc_bits)\<lparr>ev_data_override := 1\<rparr>"

definition ev_indiv_data_grant :: "int \<Rightarrow> int \<Rightarrow> int \<Rightarrow> int \<Rightarrow> p25_grant_event" where
  "ev_indiv_data_grant channel dst src svc_bits = (ev_indiv_grant channel dst src svc_bits)\<lparr>ev_data_override := 1\<rparr>"

lemmas event_defs = ev_group_grant_def ev_group_grant_update_def ev_indiv_grant_def ev_indiv_grant_update_def
  ev_group_data_grant_def ev_indiv_data_grant_def

end
