(* ===== verification/P25_Regrant.thy ===== *)
theory P25_Regrant
  imports P25_Sm_Types
begin

text \<open>
  The quarantine of repeated grants, in \<open>src/protocol/p25/p25_trunk_sm.c\<close>. After a call ends its control
  channel may go on announcing it; following such an update would tune back to an empty carrier. Each slot
  has a guard holding the identity of the call that ended there.
\<close>

section \<open>The code\<close>

definition STALE_REGRANT_QUIET_S :: mono_s where "STALE_REGRANT_QUIET_S = 2"
definition STALE_REGRANT_PROBE_DELAY_S :: mono_s where "STALE_REGRANT_PROBE_DELAY_S = 2"
definition STALE_REGRANT_MAX_AGE_S :: mono_s where "STALE_REGRANT_MAX_AGE_S = 10"

definition guard_clear :: "call_end_guard \<Rightarrow> call_end_guard" where
  "guard_clear g = zero_guard\<lparr>eg_slot := - 1\<rparr>"

definition guard_slot_eligible :: "p25_slot \<Rightarrow> int \<Rightarrow> bool" where
  "guard_slot_eligible sl target \<longleftrightarrow> \<not> sl_data_call sl \<and> sl_last_end_m sl > 0 \<and> sl_freq_hz sl > 0 \<and> target > 0"

definition guard_same_epoch :: "call_end_guard \<Rightarrow> p25_slot \<Rightarrow> int \<Rightarrow> int \<Rightarrow> bool" where
  "guard_same_epoch g sl slot target \<longleftrightarrow> eg_valid g \<and> eg_freq_hz g = sl_freq_hz sl \<and> eg_slot g = slot
     \<and> eg_target g = target \<and> eg_src g = sl_last_end_src sl \<and> eg_is_group g = sl_is_group sl"

definition ended_target :: "p25_slot \<Rightarrow> int" where
  "ended_target sl = (if sl_is_group sl then sl_last_end_tg sl else sl_dst sl)"

definition stale_regrant_guard_arm :: "mono_s \<Rightarrow> int \<Rightarrow> p25_sm_ctx \<Rightarrow> p25_sm_ctx \<times> bool" where
  "stale_regrant_guard_arm now slot c =
     (if slot < 0 \<or> slot > 1 then (c, False)
      else
        let sl = sm_slots c ! nat slot;
            target = ended_target sl;
            g = sm_recent_call_ends c ! nat slot
        in if \<not> guard_slot_eligible sl target then (c, False)
           else if guard_same_epoch g sl slot target then (c, True)
           else (c\<lparr>sm_recent_call_ends := (sm_recent_call_ends c)[nat slot :=
                  \<lparr>eg_end_m = now, eg_last_match_m = 0, eg_freq_hz = sl_freq_hz sl, eg_slot = slot, eg_target = target,
                   eg_src = sl_last_end_src sl, eg_is_group = sl_is_group sl, eg_probe_attempted = False, eg_valid = True\<rparr>]\<rparr>, True))"

definition identity_matches :: "call_end_guard \<Rightarrow> p25_grant_event \<Rightarrow> int \<Rightarrow> int \<Rightarrow> bool" where
  "identity_matches g ev freq slot \<longleftrightarrow> freq = eg_freq_hz g \<and> slot = eg_slot g \<and> ev_is_group ev = eg_is_group g
     \<and> p25_grant_ota_target_id ev = eg_target g"

definition has_new_source :: "call_end_guard \<Rightarrow> p25_grant_event \<Rightarrow> bool" where
  "has_new_source g ev \<longleftrightarrow> p25_source_id_known (eg_src g) \<and> p25_source_id_known (ev_src ev) \<and> ev_src ev \<noteq> eg_src g"

definition clear_for_new_epoch :: "p25_grant_event \<Rightarrow> call_end_guard \<Rightarrow> call_end_guard \<times> bool" where
  "clear_for_new_epoch ev g =
     (if ev_provenance ev = PROVENANCE_ASSIGNMENT then (guard_clear g, True)
      else if has_new_source g ev then (guard_clear g, True)
      else (g, False))"

text \<open>The guard afterwards, whether the update is blocked, and whether it is the validation tune.\<close>

definition update_blocked :: "mono_s \<Rightarrow> mono_s \<Rightarrow> call_end_guard \<Rightarrow> call_end_guard \<times> bool \<times> bool" where
  "update_blocked age now g =
     (if age \<ge> STALE_REGRANT_MAX_AGE_S then (guard_clear g, False, False)
      else
        let quiet = (if eg_last_match_m g > 0 then now - eg_last_match_m g else 0)
        in if quiet < 0 then (guard_clear g, False, False)
           else if quiet \<ge> STALE_REGRANT_QUIET_S then (guard_clear g, False, False)
           else if age \<ge> STALE_REGRANT_PROBE_DELAY_S \<and> \<not> eg_probe_attempted g
                then (g\<lparr>eg_probe_attempted := True, eg_last_match_m := now\<rparr>, False, True)
           else (g\<lparr>eg_last_match_m := now\<rparr>, True, False))"

definition guard_verdict :: "p25_grant_event \<Rightarrow> int \<Rightarrow> int \<Rightarrow> mono_s \<Rightarrow> call_end_guard \<Rightarrow> call_end_guard \<times> bool \<times> bool" where
  "guard_verdict ev freq slot now g =
     (if \<not> eg_valid g \<or> \<not> identity_matches g ev freq slot then (g, False, False)
      else
        let age = now - eg_end_m g
        in if eg_end_m g \<le> 0 \<or> age < 0 then (guard_clear g, False, False)
           else case clear_for_new_epoch ev g of
             (g1, True) \<Rightarrow> (g1, False, False)
           | (g1, False) \<Rightarrow> update_blocked age now g1)"

definition grant_stale_regrant_blocked ::
  "p25_grant_event \<Rightarrow> int \<Rightarrow> int \<Rightarrow> bool \<Rightarrow> mono_s \<Rightarrow> p25_sm_ctx \<Rightarrow> p25_sm_ctx \<times> bool \<times> bool" where
  "grant_stale_regrant_blocked ev freq slot data_call now c =
     (if data_call \<or> slot < 0 \<or> slot > 1 then (c, False, False)
      else case guard_verdict ev freq slot now (sm_recent_call_ends c ! nat slot) of
        (g, blocked, probe) \<Rightarrow> (c\<lparr>sm_recent_call_ends := (sm_recent_call_ends c)[nat slot := g]\<rparr>, blocked, probe))"

section \<open>When a grant is held back\<close>

text \<open>The guard's claim on an update: the same call, heard within the age limit, and not known to be a new one.\<close>

definition quarantined :: "p25_grant_event \<Rightarrow> int \<Rightarrow> int \<Rightarrow> mono_s \<Rightarrow> call_end_guard \<Rightarrow> bool" where
  "quarantined ev freq slot now g \<longleftrightarrow> eg_valid g \<and> identity_matches g ev freq slot
     \<and> 0 < eg_end_m g \<and> eg_end_m g \<le> now \<and> now < eg_end_m g + 10
     \<and> ev_provenance ev \<noteq> PROVENANCE_ASSIGNMENT \<and> \<not> has_new_source g ev
     \<and> (eg_last_match_m g > 0 \<longrightarrow> eg_last_match_m g \<le> now \<and> now < eg_last_match_m g + 2)"

lemmas stale_limits = STALE_REGRANT_QUIET_S_def STALE_REGRANT_PROBE_DELAY_S_def STALE_REGRANT_MAX_AGE_S_def

text \<open>The four outcomes of a verdict.\<close>

lemma verdict_cases:
  "guard_verdict ev freq slot now g =
     (if \<not> eg_valid g \<or> \<not> identity_matches g ev freq slot then (g, False, False)
      else if \<not> quarantined ev freq slot now g then (guard_clear g, False, False)
      else if now < eg_end_m g + 2 \<or> eg_probe_attempted g then (g\<lparr>eg_last_match_m := now\<rparr>, True, False)
      else (g\<lparr>eg_probe_attempted := True, eg_last_match_m := now\<rparr>, False, True))"
proof (cases "eg_valid g \<and> identity_matches g ev freq slot \<and> 0 < eg_end_m g \<and> eg_end_m g \<le> now
    \<and> ev_provenance ev \<noteq> PROVENANCE_ASSIGNMENT \<and> \<not> has_new_source g ev")
  case True
  then have "clear_for_new_epoch ev g = (g, False)" by (simp add: clear_for_new_epoch_def)
  with True have v: "guard_verdict ev freq slot now g = update_blocked (now - eg_end_m g) now g"
    by (simp add: guard_verdict_def)
  show ?thesis
    using True unfolding v by (simp add: update_blocked_def quarantined_def stale_limits Let_def)
next
  case False
  then show ?thesis
    by (auto simp: guard_verdict_def quarantined_def clear_for_new_epoch_def Let_def)
qed

lemma cleared [simp]: "\<not> eg_valid (guard_clear g)"
  by (simp add: guard_clear_def zero_guard_def)

lemma verdict_blocked:
  "fst (snd (guard_verdict ev freq slot now g)) \<longleftrightarrow>
     quarantined ev freq slot now g \<and> (now < eg_end_m g + 2 \<or> eg_probe_attempted g)"
  unfolding verdict_cases by (auto simp: quarantined_def)

lemma verdict_probe:
  "snd (snd (guard_verdict ev freq slot now g)) \<longleftrightarrow>
     quarantined ev freq slot now g \<and> eg_end_m g + 2 \<le> now \<and> \<not> eg_probe_attempted g"
  unfolding verdict_cases by (auto simp: quarantined_def)

section \<open>Histories\<close>

text \<open>What happens to the guards: a call ends on a slot whose context is then \<open>sl\<close>, or a grant is heard.\<close>

datatype regrant_op =
    Call_ended int p25_slot mono_s
  | Grant_heard p25_grant_event int int bool mono_s

fun regrant_step :: "regrant_op \<Rightarrow> p25_sm_ctx \<Rightarrow> p25_sm_ctx \<times> bool \<times> bool" where
  "regrant_step (Call_ended slot sl now) c =
     (fst (stale_regrant_guard_arm now slot (c\<lparr>sm_slots := (sm_slots c)[nat slot := sl]\<rparr>)), False, False)"
| "regrant_step (Grant_heard ev freq slot data now) c = grant_stale_regrant_blocked ev freq slot data now c"

definition regrant_run :: "regrant_op list \<Rightarrow> p25_sm_ctx \<Rightarrow> p25_sm_ctx" where
  "regrant_run ops c = foldl (\<lambda>c op. fst (regrant_step op c)) c ops"

lemma regrant_run_simps [simp]:
  "regrant_run [] c = c" "regrant_run (ops @ [op]) c = fst (regrant_step op (regrant_run ops c))"
  by (simp_all add: regrant_run_def)

definition blocks :: "regrant_op \<Rightarrow> p25_sm_ctx \<Rightarrow> bool" where
  "blocks op c \<longleftrightarrow> fst (snd (regrant_step op c))"

definition probes :: "int \<Rightarrow> regrant_op \<Rightarrow> p25_sm_ctx \<Rightarrow> bool" where
  "probes i op c \<longleftrightarrow> (case op of Grant_heard ev freq slot data now \<Rightarrow> slot = i \<and> snd (snd (regrant_step op c)) | _ \<Rightarrow> False)"

text \<open>The end of a call that the guard of its slot does not already describe.\<close>

definition starts_guard :: "int \<Rightarrow> regrant_op \<Rightarrow> p25_sm_ctx \<Rightarrow> bool" where
  "starts_guard i op c \<longleftrightarrow> (case op of
     Call_ended slot sl now \<Rightarrow> slot = i \<and> guard_slot_eligible sl (ended_target sl)
       \<and> \<not> guard_same_epoch (sm_recent_call_ends c ! nat slot) sl slot (ended_target sl)
   | _ \<Rightarrow> False)"

text \<open>How often something holds of the operations of a history, each in the context it meets.\<close>

definition times :: "(regrant_op \<Rightarrow> p25_sm_ctx \<Rightarrow> bool) \<Rightarrow> regrant_op list \<Rightarrow> p25_sm_ctx \<Rightarrow> nat" where
  "times P ops c = length (filter (\<lambda>n. P (ops ! n) (regrant_run (take n ops) c)) [0..<length ops])"

lemma times_simps:
  "times P [] c = 0"
  "times P (ops @ [op]) c = times P ops c + of_bool (P op (regrant_run ops c))"
proof -
  have "filter (\<lambda>n. P ((ops @ [op]) ! n) (regrant_run (take n (ops @ [op])) c)) [0..<length ops]
      = filter (\<lambda>n. P (ops ! n) (regrant_run (take n ops) c)) [0..<length ops]"
    by (rule filter_cong) (auto simp: nth_append)
  then show "times P (ops @ [op]) c = times P ops c + of_bool (P op (regrant_run ops c))"
    by (simp add: times_def)
qed (simp add: times_def)

definition sm_shape :: "p25_sm_ctx \<Rightarrow> bool" where
  "sm_shape c \<longleftrightarrow> length (sm_recent_call_ends c) = 2 \<and> length (sm_slots c) = 2"

text \<open>The guard of a slot after each operation.\<close>

abbreviation guard_of :: "p25_sm_ctx \<Rightarrow> int \<Rightarrow> call_end_guard" where
  "guard_of c i \<equiv> sm_recent_call_ends c ! nat i"

definition new_guard :: "int \<Rightarrow> p25_slot \<Rightarrow> mono_s \<Rightarrow> call_end_guard" where
  "new_guard slot sl now = \<lparr>eg_end_m = now, eg_last_match_m = 0, eg_freq_hz = sl_freq_hz sl, eg_slot = slot,
     eg_target = ended_target sl, eg_src = sl_last_end_src sl, eg_is_group = sl_is_group sl,
     eg_probe_attempted = False, eg_valid = True\<rparr>"

lemma step_shape: "sm_shape c \<Longrightarrow> sm_shape (fst (regrant_step op c))"
  by (cases op) (auto simp: sm_shape_def stale_regrant_guard_arm_def grant_stale_regrant_blocked_def Let_def split: prod.splits)

lemma run_shape: "sm_shape c \<Longrightarrow> sm_shape (regrant_run ops c)"
  by (induction ops rule: rev_induct) (auto intro: step_shape)

lemma guard_after:
  assumes "sm_shape c" "i = 0 \<or> i = 1"
  shows "guard_of (fst (regrant_step op c)) i =
     (case op of
        Call_ended slot sl now \<Rightarrow> if starts_guard i op c then new_guard i sl now else guard_of c i
      | Grant_heard ev freq slot data now \<Rightarrow> if slot = i \<and> \<not> data then fst (guard_verdict ev freq i now (guard_of c i)) else guard_of c i)"
proof (cases op)
  case (Call_ended slot sl now)
  show ?thesis
  proof (cases "slot < 0 \<or> slot > 1")
    case True
    then show ?thesis using Call_ended assms by (auto simp: stale_regrant_guard_arm_def starts_guard_def)
  next
    case False
    then have "slot = 0 \<or> slot = 1" by auto
    then show ?thesis
      using Call_ended assms
      by (auto simp: sm_shape_def stale_regrant_guard_arm_def starts_guard_def new_guard_def Let_def)
  qed
next
  case (Grant_heard ev freq slot data now)
  show ?thesis
  proof (cases "slot < 0 \<or> slot > 1")
    case True
    then show ?thesis using Grant_heard assms by (auto simp: grant_stale_regrant_blocked_def)
  next
    case False
    then have "slot = 0 \<or> slot = 1" by auto
    then show ?thesis
      using Grant_heard assms
      by (auto simp: sm_shape_def grant_stale_regrant_blocked_def split: prod.splits)
  qed
qed

lemma grant_verdicts:
  "snd (regrant_step (Grant_heard ev freq slot data now) c) =
     (if data \<or> slot < 0 \<or> slot > 1 then (False, False) else snd (guard_verdict ev freq slot now (guard_of c slot)))"
  by (auto simp: grant_stale_regrant_blocked_def split: prod.splits)

text \<open>A guard goes back to the end of a call, whose identity it holds.\<close>

lemma guard_origin:
  assumes "sm_shape c" "\<not> eg_valid (guard_of c i)" "i = 0 \<or> i = 1" "eg_valid (guard_of (regrant_run ops c) i)"
  shows "\<exists>sl. Call_ended i sl (eg_end_m (guard_of (regrant_run ops c) i)) \<in> set ops \<and> guard_slot_eligible sl (ended_target sl)
    \<and> guard_same_epoch (guard_of (regrant_run ops c) i) sl i (ended_target sl)"
  using assms(4)
proof (induction ops rule: rev_induct)
  case Nil
  then show ?case using assms(2) by simp
next
  case (snoc op ops)
  let ?c = "regrant_run ops c"
  note a = guard_after [OF run_shape [OF assms(1)] assms(3), of op ops]
  show ?case
  proof (cases op)
    case (Call_ended slot sl now)
    show ?thesis
    proof (cases "starts_guard i op ?c")
      case True
      then have g: "guard_of (fst (regrant_step op ?c)) i = new_guard i sl now" and s: "slot = i" "guard_slot_eligible sl (ended_target sl)"
        using a Call_ended by (auto simp: starts_guard_def)
      then show ?thesis
        using Call_ended by (intro exI [of _ sl]) (simp add: new_guard_def guard_same_epoch_def)
    next
      case False
      then show ?thesis using a Call_ended snoc by auto
    qed
  next
    case (Grant_heard ev freq slot data now)
    let ?g = "guard_of ?c i" and ?g' = "guard_of (fst (regrant_step op ?c)) i"
    have v: "?g' = ?g \<or> ?g' = fst (guard_verdict ev freq i now ?g)" using a Grant_heard by (auto split: if_splits)
    have v': "eg_valid ?g'" using snoc.prems by simp
    have "\<not> eg_valid (guard_clear ?g)" by simp
    with v v' have k: "eg_valid ?g \<and> eg_end_m ?g' = eg_end_m ?g \<and> eg_freq_hz ?g' = eg_freq_hz ?g \<and> eg_slot ?g' = eg_slot ?g
        \<and> eg_target ?g' = eg_target ?g \<and> eg_src ?g' = eg_src ?g \<and> eg_is_group ?g' = eg_is_group ?g"
      unfolding verdict_cases by (auto split: if_splits)
    then obtain sl where "Call_ended i sl (eg_end_m ?g) \<in> set ops" "guard_slot_eligible sl (ended_target sl)"
      "guard_same_epoch ?g sl i (ended_target sl)" using snoc.IH by blast
    then show ?thesis using k v' by (intro exI [of _ sl]) (simp add: guard_same_epoch_def)
  qed
qed

text \<open>C9: A grant is held back only as the echo of a call that ended on the same slot less than ten seconds
  before, on the same carrier and to the same target: no update is blocked without such an end, none later
  than that, never a grant the control channel marks as a new assignment, and never one whose known source
  differs from the known source of the ended call.\<close>

theorem held_grant_echoes_an_ended_call:
  assumes "sm_shape c" "\<forall>g\<in>set (sm_recent_call_ends c). \<not> eg_valid g"
    "blocks (Grant_heard ev freq slot data now) (regrant_run ops c)"
  shows "\<exists>sl ended. Call_ended slot sl ended \<in> set ops \<and> ended \<le> now \<and> now < ended + 10
    \<and> \<not> data \<and> sl_freq_hz sl = freq \<and> sl_is_group sl = ev_is_group ev \<and> ended_target sl = p25_grant_ota_target_id ev
    \<and> ev_provenance ev \<noteq> PROVENANCE_ASSIGNMENT
    \<and> \<not> (p25_source_id_known (ev_src ev) \<and> p25_source_id_known (sl_last_end_src sl) \<and> ev_src ev \<noteq> sl_last_end_src sl)"
proof -
  let ?g = "guard_of (regrant_run ops c) slot"
  have b: "\<not> data" "slot = 0 \<or> slot = 1" "fst (snd (guard_verdict ev freq slot now ?g))"
    using assms(3) grant_verdicts [of ev freq slot data now "regrant_run ops c"] by (auto simp: blocks_def split: if_splits)
  then have q: "quarantined ev freq slot now ?g" unfolding verdict_blocked by blast
  have "\<not> eg_valid (guard_of c slot)" using assms(1,2) b(2) by (auto simp: sm_shape_def)
  from guard_origin [OF assms(1) this b(2)] q obtain sl where
    "Call_ended slot sl (eg_end_m ?g) \<in> set ops" "guard_same_epoch ?g sl slot (ended_target sl)"
    by (auto simp: quarantined_def)
  then show ?thesis
    using q b(1) by (intro exI [of _ sl] exI [of _ "eg_end_m ?g"])
      (auto simp: quarantined_def guard_same_epoch_def identity_matches_def has_new_source_def)
qed

text \<open>C10: In any history the number of validation tunes on a slot is at most the number of calls whose end
  started a guard there: repeated updates buy one tune per ended call, and repeated terminators of the same
  call buy none.\<close>

theorem one_validation_tune_per_ended_call:
  assumes "sm_shape c" "\<forall>g\<in>set (sm_recent_call_ends c). \<not> eg_valid g" "i = 0 \<or> i = 1"
  shows "times (probes i) ops c \<le> times (starts_guard i) ops c"
proof -
  have "times (probes i) ops c + of_bool (eg_valid (guard_of (regrant_run ops c) i) \<and> \<not> eg_probe_attempted (guard_of (regrant_run ops c) i))
      \<le> times (starts_guard i) ops c"
  proof (induction ops rule: rev_induct)
    case Nil
    have "\<not> eg_valid (guard_of c i)" using assms by (auto simp: sm_shape_def)
    then show ?case by (simp add: times_simps)
  next
    case (snoc op ops)
    note a = guard_after [OF run_shape [OF assms(1)] assms(3), of op ops]
    show ?case
    proof (cases op)
      case (Call_ended slot sl now)
      then have "\<not> probes i op (regrant_run ops c)" by (simp add: probes_def)
      then show ?thesis
        using snoc a Call_ended by (cases "starts_guard i op (regrant_run ops c)") (auto simp: times_simps)
    next
      case (Grant_heard ev freq slot data now)
      let ?g = "guard_of (regrant_run ops c) i"
      have s: "\<not> starts_guard i op (regrant_run ops c)" using Grant_heard by (simp add: starts_guard_def)
      have p: "probes i op (regrant_run ops c) \<longleftrightarrow> slot = i \<and> \<not> data \<and> snd (snd (guard_verdict ev freq i now ?g))"
        using Grant_heard grant_verdicts [of ev freq slot data now "regrant_run ops c"] assms(3) by (auto simp: probes_def split: if_splits)
      have "snd (snd (guard_verdict ev freq i now ?g)) \<Longrightarrow> eg_valid ?g \<and> \<not> eg_probe_attempted ?g \<and> eg_probe_attempted (fst (guard_verdict ev freq i now ?g))"
        unfolding verdict_cases by (auto split: if_splits)
      moreover have "eg_valid (fst (guard_verdict ev freq i now ?g)) \<and> \<not> eg_probe_attempted (fst (guard_verdict ev freq i now ?g))
          \<Longrightarrow> eg_valid ?g \<and> \<not> eg_probe_attempted ?g"
        unfolding verdict_cases by (auto split: if_splits)
      ultimately show ?thesis
        using snoc a Grant_heard s p by (cases "slot = i \<and> \<not> data") (auto simp: times_simps split: if_splits)
    qed
  qed
  then show ?thesis by simp
qed

section \<open>An example\<close>

definition regrant_boot :: p25_sm_ctx where
  "regrant_boot = \<lparr>sm_state = P25_SM_ON_CC, sm_vc_freq_hz = 0, sm_vc_is_tdma = False,
     sm_recent_call_ends = [guard_clear zero_guard, guard_clear zero_guard], sm_slots = [zero_slot, zero_slot],
     sm_enc_reprobes = replicate ENC_REPROBE_MEMO_MAX zero_memo\<rparr>"

definition ended_slot :: p25_slot where
  "ended_slot = zero_slot\<lparr>sl_is_group := True, sl_freq_hz := 851000000, sl_last_end_m := 100, sl_last_end_tg := 77\<rparr>"

definition update_for_77 :: p25_grant_event where
  "update_for_77 = ev_group_grant_update 5 77 0 (- 1)"

definition update_heard :: "mono_s \<Rightarrow> regrant_op" where
  "update_heard now = Grant_heard update_for_77 851000000 0 False now"

lemma regrant_boot_ok: "sm_shape regrant_boot" "\<forall>g\<in>set (sm_recent_call_ends regrant_boot). \<not> eg_valid g"
  by (simp_all add: sm_shape_def regrant_boot_def)

lemmas example_defs = event_defs regrant_boot_def ended_slot_def update_for_77_def update_heard_def zero_slot_def zero_guard_def
  guard_clear_def p25_source_id_known_def p25_grant_ota_target_id_def ended_target_def

definition guard_at :: "mono_s \<Rightarrow> bool \<Rightarrow> call_end_guard" where
  "guard_at m p = \<lparr>eg_end_m = 100, eg_last_match_m = m, eg_freq_hz = 851000000, eg_slot = 0, eg_target = 77, eg_src = 0,
     eg_is_group = True, eg_probe_attempted = p, eg_valid = True\<rparr>"

lemma example_armed: "guard_of (regrant_run [Call_ended 0 ended_slot 100] regrant_boot) 0 = guard_at 0 False"
  by (simp add: regrant_run_def stale_regrant_guard_arm_def guard_slot_eligible_def guard_same_epoch_def guard_at_def example_defs Let_def)

lemma example_verdict:
  "quarantined update_for_77 851000000 0 now (guard_at m p) \<longleftrightarrow> 100 \<le> now \<and> now < 110 \<and> (0 < m \<longrightarrow> m \<le> now \<and> now < m + 2)"
  by (auto simp: quarantined_def guard_at_def identity_matches_def has_new_source_def example_defs)

lemma held_grant_echoes_an_ended_call_witness:
  "\<exists>sl ended. Call_ended 0 sl ended \<in> set [Call_ended 0 ended_slot 100] \<and> ended \<le> 101 \<and> 101 < ended + 10
    \<and> sl_freq_hz sl = 851000000 \<and> ended_target sl = 77"
proof -
  have b: "blocks (Grant_heard update_for_77 851000000 0 False 101) (regrant_run [Call_ended 0 ended_slot 100] regrant_boot)"
    unfolding blocks_def grant_verdicts example_armed
    by (simp add: verdict_blocked example_verdict) (simp add: guard_at_def)
  show ?thesis
    using held_grant_echoes_an_ended_call [OF regrant_boot_ok b] by (auto simp: example_defs)
qed

lemma one_validation_tune_per_ended_call_witness:
  "times (probes 0) [Call_ended 0 ended_slot 100, update_heard 103, update_heard 104] regrant_boot \<le> 1"
proof -
  have "times (starts_guard 0) [Call_ended 0 ended_slot 100, update_heard 103, update_heard 104] regrant_boot = 1"
    by (simp add: times_def starts_guard_def guard_slot_eligible_def guard_same_epoch_def example_defs upt_rec)
  then show ?thesis
    using one_validation_tune_per_ended_call [OF regrant_boot_ok, of 0 "[Call_ended 0 ended_slot 100, update_heard 103, update_heard 104]"] by simp
qed

end
