(* ===== verification/P25_Grant.thy ===== *)
theory P25_Grant
  imports P25_Sm_Types P25_Patch Tg_Policy P25_Affiliations
begin

text \<open>
  Whether a P25 grant is followed: \<open>grant_allowed\<close> of \<open>src/protocol/p25/p25_trunk_sm.c\<close> and what it calls.
  The decoder state it reads and writes is \<open>grant_world\<close>: options, the held talkgroup, the talkgroup policy,
  the ledger of encrypted targets, the patch table, the group affiliations, the machine's context and the
  two clocks, which stand still during one evaluation.
\<close>

section \<open>The evaluation context\<close>

record grant_eval =
  ge_svc :: int
  ge_svc_valid :: bool
  ge_data_call :: bool
  ge_encrypted_call :: bool
  ge_enc_override_clear :: bool
  ge_probe_call :: bool
  ge_enc_lockout_reprobe :: bool
  ge_is_indiv :: bool
  ge_tg :: int

record grant_world =
  gw_opts :: tg_opts
  gw_hold :: u32
  gw_policy :: "tg_ctx option"
  gw_lockout :: lockout
  gw_patches :: patch_table
  gw_ga :: ga_table
  gw_sm :: p25_sm_ctx
  gw_wall :: wall_s
  gw_now_m :: mono_s

unbundle bit_operations_syntax

definition svc_is_data :: "int \<Rightarrow> bool" where "svc_is_data svc \<longleftrightarrow> svc AND 0x10 \<noteq> 0"
definition svc_is_enc :: "int \<Rightarrow> bool" where "svc_is_enc svc \<longleftrightarrow> svc AND 0x40 \<noteq> 0"

definition p25_sm_svc_bits_valid :: "int \<Rightarrow> bool" where
  "p25_sm_svc_bits_valid svc_bits \<longleftrightarrow> svc_bits \<ge> 0"

definition eval_ctx_from_event :: "p25_grant_event \<Rightarrow> grant_eval" where
  "eval_ctx_from_event ev =
     (let valid = p25_sm_svc_bits_valid (ev_svc_bits ev);
          svc = (if valid then ev_svc_bits ev else 0)
      in \<lparr>ge_svc = svc, ge_svc_valid = valid,
          ge_data_call = (if ev_data_override ev > 0 then True
                          else if ev_data_override ev < 0 then False
                          else valid \<and> svc_is_data svc),
          ge_encrypted_call = (valid \<and> svc_is_enc svc),
          ge_enc_override_clear = False, ge_probe_call = False, ge_enc_lockout_reprobe = False,
          ge_is_indiv = (\<not> ev_is_group ev), ge_tg = (if ev_is_group ev then ev_tg ev else ev_dst ev)\<rparr>)"

definition patch_key_clear :: "grant_world \<Rightarrow> int \<Rightarrow> bool" where
  "patch_key_clear w tg \<longleftrightarrow> p25_patch_tg_key_is_clear (gw_wall w) tg (gw_patches w)
     \<or> p25_patch_sg_key_is_clear (gw_wall w) tg (gw_patches w)"

definition note_encrypted_call_typed :: "int \<Rightarrow> bool \<Rightarrow> int \<Rightarrow> int \<Rightarrow> grant_world \<Rightarrow> grant_world" where
  "note_encrypted_call_typed target is_group algid keyid w =
     (if target \<le> 0 \<or> to_enc_calls (gw_opts w) \<noteq> 0 then w
      else if is_group \<and> patch_key_clear w target then w
      else w\<lparr>gw_lockout := fst (enc_lockout_note (gw_wall w) (word_of_int target) is_group algid keyid (gw_lockout w))\<rparr>)"

definition apply_clear_override :: "grant_world \<Rightarrow> grant_eval \<Rightarrow> grant_eval" where
  "apply_clear_override w e =
     (if \<not> ge_is_indiv e \<and> ge_encrypted_call e \<and> to_enc_calls (gw_opts w) = 0 \<and> ge_tg e > 0 \<and> patch_key_clear w (ge_tg e)
      then e\<lparr>ge_encrypted_call := False, ge_enc_override_clear := True\<rparr>
      else e)"

definition apply_crypto_probe :: "grant_world \<Rightarrow> grant_eval \<Rightarrow> grant_eval" where
  "apply_crypto_probe w e =
     (if ge_data_call e \<or> ge_enc_override_clear e \<or> to_enc_calls (gw_opts w) \<noteq> 0 then e
      else if \<not> ge_svc_valid e \<or> ge_encrypted_call e then e\<lparr>ge_probe_call := True\<rparr>
      else e)"

definition is_voice_call :: "grant_eval \<Rightarrow> bool" where
  "is_voice_call e \<longleftrightarrow> \<not> ge_data_call e"

definition grant_patch_clear_key :: "grant_world \<Rightarrow> grant_eval \<Rightarrow> bool" where
  "grant_patch_clear_key w e \<longleftrightarrow> \<not> ge_is_indiv e \<and> ge_tg e > 0 \<and> patch_key_clear w (ge_tg e)"

section \<open>Re-admissions, and the time they rest\<close>

definition ENC_REPROBE_COOLDOWN_S :: mono_s where "ENC_REPROBE_COOLDOWN_S = 10"

definition memo_matches :: "u32 \<Rightarrow> bool \<Rightarrow> reprobe_memo \<Rightarrow> bool" where
  "memo_matches target is_group m \<longleftrightarrow> rm_admitted_m m > 0 \<and> rm_target m = target \<and> rm_is_group m = is_group"

definition enc_reprobe_index :: "u32 \<Rightarrow> bool \<Rightarrow> p25_sm_ctx \<Rightarrow> nat option" where
  "enc_reprobe_index target is_group c = find_index (memo_matches target is_group) (sm_enc_reprobes c)"

definition memo_expired :: "mono_s \<Rightarrow> reprobe_memo \<Rightarrow> bool" where
  "memo_expired now m \<longleftrightarrow> rm_admitted_m m \<le> 0 \<or> (now \<ge> rm_admitted_m m \<and> now - rm_admitted_m m \<ge> ENC_REPROBE_COOLDOWN_S)"

fun reuse_loop :: "mono_s \<Rightarrow> nat \<Rightarrow> reprobe_memo list \<Rightarrow> (nat \<times> mono_s) option \<Rightarrow> nat option" where
  "reuse_loop now i [] victim = map_option fst victim"
| "reuse_loop now i (m # ms) victim =
     (if \<not> memo_expired now m then reuse_loop now (Suc i) ms victim
      else if (case victim of None \<Rightarrow> True | Some (_, t) \<Rightarrow> rm_admitted_m m < t)
           then reuse_loop now (Suc i) ms (Some (i, rm_admitted_m m))
           else reuse_loop now (Suc i) ms victim)"

definition enc_reprobe_slot :: "u32 \<Rightarrow> bool \<Rightarrow> mono_s \<Rightarrow> p25_sm_ctx \<Rightarrow> nat option" where
  "enc_reprobe_slot target is_group now c =
     (case enc_reprobe_index target is_group c of
        Some i \<Rightarrow> Some i
      | None \<Rightarrow> reuse_loop now 0 (sm_enc_reprobes c) None)"

definition enc_reprobe_in_cooldown :: "u32 \<Rightarrow> bool \<Rightarrow> mono_s \<Rightarrow> p25_sm_ctx \<Rightarrow> bool" where
  "enc_reprobe_in_cooldown target is_group now c =
     (case enc_reprobe_index target is_group c of
        Some i \<Rightarrow> \<not> memo_expired now (sm_enc_reprobes c ! i)
      | None \<Rightarrow> False)"

definition enc_reprobe_forget :: "u32 \<Rightarrow> bool \<Rightarrow> p25_sm_ctx \<Rightarrow> p25_sm_ctx" where
  "enc_reprobe_forget target is_group c =
     (case enc_reprobe_index target is_group c of
        Some i \<Rightarrow> c\<lparr>sm_enc_reprobes := (sm_enc_reprobes c)[i := zero_memo]\<rparr>
      | None \<Rightarrow> c)"

definition enc_reprobe_record :: "u32 \<Rightarrow> bool \<Rightarrow> mono_s \<Rightarrow> p25_sm_ctx \<Rightarrow> p25_sm_ctx" where
  "enc_reprobe_record target is_group now c =
     (if now \<le> 0 then c
      else case enc_reprobe_slot target is_group now c of
        None \<Rightarrow> c
      | Some i \<Rightarrow> c\<lparr>sm_enc_reprobes := (sm_enc_reprobes c)[i :=
            \<lparr>rm_admitted_m = now, rm_target = target, rm_is_group = is_group\<rparr>]\<rparr>)"

datatype release_evidence = ENC_RELEASE_NONE | ENC_RELEASE_CORROBORATED | ENC_RELEASE_GRANT_BIT

definition enc_release_evidence :: "grant_world \<Rightarrow> grant_eval \<Rightarrow> release_evidence" where
  "enc_release_evidence w e =
     (if ge_enc_override_clear e \<or> grant_patch_clear_key w e then ENC_RELEASE_CORROBORATED
      else if ge_svc_valid e \<and> \<not> ge_encrypted_call e then ENC_RELEASE_GRANT_BIT
      else ENC_RELEASE_NONE)"

definition release_lockout :: "u32 \<Rightarrow> bool \<Rightarrow> grant_world \<Rightarrow> grant_world" where
  "release_lockout target is_group w = w\<lparr>gw_lockout := fst (enc_lockout_release target is_group (gw_lockout w))\<rparr>"

definition forget_reprobe :: "u32 \<Rightarrow> bool \<Rightarrow> grant_world \<Rightarrow> grant_world" where
  "forget_reprobe target is_group w = w\<lparr>gw_sm := enc_reprobe_forget target is_group (gw_sm w)\<rparr>"

definition release_enc_lockout_on_grant_bit :: "u32 \<Rightarrow> bool \<Rightarrow> grant_eval \<Rightarrow> grant_world \<Rightarrow> grant_world \<times> grant_eval" where
  "release_enc_lockout_on_grant_bit target is_group e w =
     (if \<not> enc_lockout_is_blocked (to_enc_calls (gw_opts w) \<noteq> 0) target is_group (gw_lockout w)
      then (forget_reprobe target is_group (release_lockout target is_group w), e)
      else if enc_reprobe_in_cooldown target is_group (gw_now_m w) (gw_sm w) then (w, e)
      else if snd (enc_lockout_release target is_group (gw_lockout w))
           then (release_lockout target is_group w, e\<lparr>ge_enc_lockout_reprobe := True\<rparr>)
           else (release_lockout target is_group w, e))"

definition note_enc_reprobe_admitted :: "grant_eval \<Rightarrow> mono_s \<Rightarrow> p25_sm_ctx \<Rightarrow> p25_sm_ctx" where
  "note_enc_reprobe_admitted e now c =
     (if \<not> ge_enc_lockout_reprobe e \<or> ge_tg e \<le> 0 then c
      else enc_reprobe_record (word_of_int (ge_tg e)) (\<not> ge_is_indiv e) now c)"

definition release_enc_lockout_if_clear :: "bool \<Rightarrow> grant_eval \<Rightarrow> grant_world \<Rightarrow> grant_world \<times> grant_eval" where
  "release_enc_lockout_if_clear commit e w =
     (if \<not> is_voice_call e \<or> ge_tg e \<le> 0 \<or> to_enc_calls (gw_opts w) \<noteq> 0 then (w, e)
      else
        let is_group = (\<not> ge_is_indiv e); target = word_of_int (ge_tg e)
        in case enc_release_evidence w e of
             ENC_RELEASE_CORROBORATED \<Rightarrow> (forget_reprobe target is_group (release_lockout target is_group w), e)
           | ENC_RELEASE_GRANT_BIT \<Rightarrow> (if commit then release_enc_lockout_on_grant_bit target is_group e w else (w, e))
           | ENC_RELEASE_NONE \<Rightarrow> (w, e))"

section \<open>Policy over a patch\<close>

definition policy_candidate_is_better :: "tg_decision \<Rightarrow> tg_decision option \<Rightarrow> bool" where
  "policy_candidate_is_better cand best =
     (if \<not> td_tune cand then False
      else case best of
        None \<Rightarrow> True
      | Some b \<Rightarrow>
          if td_hold_match cand \<noteq> td_hold_match b then td_hold_match cand
          else if td_priority cand \<noteq> td_priority b then td_priority cand > td_priority b
          else td_preempt cand \<and> \<not> td_preempt b)"

fun policy_scan :: "(u32 \<Rightarrow> tg_decision) \<Rightarrow> u32 list \<Rightarrow> tg_decision option \<Rightarrow> tg_decision option" where
  "policy_scan decide [] best = best"
| "policy_scan decide (t # ts) best =
     policy_scan decide ts (if policy_candidate_is_better (decide t) best then Some (decide t) else best)"

definition grant_patch_members :: "grant_world \<Rightarrow> int \<Rightarrow> u32 list" where
  "grant_patch_members w tg =
     (case p25_patch_collect_active_wgids (gw_wall w) tg 8 (gw_patches w) of
        (ids, n) \<Rightarrow> map (\<lambda>i. if i < length ids then ucast (ids ! i) else 0) [0..<n])"

definition policy_targets :: "grant_world \<Rightarrow> int \<Rightarrow> u32 list" where
  "policy_targets w tg = word_of_int tg # filter (\<lambda>m. m \<noteq> 0 \<and> m \<noteq> word_of_int tg) (grant_patch_members w tg)"

definition eval_group_policy :: "p25_grant_event \<Rightarrow> grant_eval \<Rightarrow> grant_world \<Rightarrow> tg_decision" where
  "eval_group_policy ev e w =
     (let decide = (\<lambda>t. tg_evaluate_group_call (gw_opts w) (gw_hold w) (gw_lockout w) (gw_policy w) t
                          (word_of_int (ev_src ev)) (ge_encrypted_call e) (ge_data_call e))
      in case policy_scan decide (policy_targets w (ge_tg e)) None of
           Some d \<Rightarrow> d
         | None \<Rightarrow> decide (word_of_int (ge_tg e)))"

definition eval_policy :: "p25_grant_event \<Rightarrow> grant_eval \<Rightarrow> grant_world \<Rightarrow> tg_decision" where
  "eval_policy ev e w =
     (let p = (if ge_probe_call e then e\<lparr>ge_encrypted_call := False\<rparr> else e)
      in if ge_is_indiv p
         then tg_evaluate_private_grant (gw_opts w) (gw_hold w) (gw_lockout w) (gw_policy w)
                (word_of_int (ev_src ev)) (word_of_int (ev_dst ev)) (ge_encrypted_call p) (ge_data_call p)
         else eval_group_policy ev p w)"

definition track_src_tg :: "p25_grant_event \<Rightarrow> grant_eval \<Rightarrow> grant_world \<Rightarrow> grant_world" where
  "track_src_tg ev e w =
     (if ev_src ev > 0 \<and> ge_tg e > 0
      then w\<lparr>gw_ga := p25_ga_add (gw_wall w) (word_of_int (ev_src ev)) (word_of_int (ge_tg e)) (gw_ga w)\<rparr>
      else w)"

text \<open>The world afterwards, whether the grant is followed, the decision and the context.\<close>

definition grant_allowed :: "bool \<Rightarrow> p25_grant_event \<Rightarrow> grant_world \<Rightarrow> grant_world \<times> bool \<times> tg_decision \<times> grant_eval" where
  "grant_allowed commit ev w =
     (let e0 = eval_ctx_from_event ev;
          e1 = apply_clear_override w e0;
          e2 = apply_crypto_probe w e1;
          (w1, e) = release_enc_lockout_if_clear commit e2 w;
          d = eval_policy ev e w1
      in if \<not> td_tune d then (w1, False, d, e)
         else (track_src_tg ev e w1, True, d, e))"

text \<open>A grant heard where calls are not followed is only weighed.\<close>

definition apply_group_grant_policy :: "int \<Rightarrow> int \<Rightarrow> int \<Rightarrow> int \<Rightarrow> int \<Rightarrow> grant_world \<Rightarrow> grant_world" where
  "apply_group_grant_policy trunk_enable channel svc_bits tg src w =
     (if trunk_enable \<noteq> 1 then w else fst (grant_allowed False (ev_group_grant channel tg src svc_bits) w))"

end
