(* ===== verification/P25_Grant_Props.thy ===== *)
theory P25_Grant_Props
  imports P25_Grant Tg_Policy_Props
begin

text \<open>
  What the admission of a P25 grant promises: a locked-out target is refused, the best member of a patch
  decides, a re-admission on a grant bit rests ten seconds and no live rest is evicted; and three places
  where the code does otherwise than its comments say.
\<close>

section \<open>The lockout in the decisions\<close>

lemma private_tune:
  "td_tune (tg_evaluate_private opts hold lk ctx src dst enc data al) \<Longrightarrow>
     data \<or> \<not> enc_lockout_is_blocked (to_enc_calls opts \<noteq> 0) dst False lk"
  by (auto simp: tg_evaluate_private_def tg_apply_enc_lockout_block_def Let_def split: if_splits option.splits prod.splits)

lemma group_tune:
  "td_tune (tg_evaluate_group_call opts hold lk ctx tg src enc data) \<Longrightarrow>
     data \<or> \<not> enc_lockout_is_blocked (to_enc_calls opts \<noteq> 0) tg True lk"
  unfolding group_parts(1) by (auto simp: group_refusals_def)

section \<open>The best of a patch\<close>

lemma scan_cases:
  "policy_scan decide ts best = best \<or> (\<exists>t\<in>set ts. policy_scan decide ts best = Some (decide t) \<and> td_tune (decide t))"
proof (induction ts arbitrary: best)
  case (Cons t ts)
  then show ?case
    by (cases "policy_candidate_is_better (decide t) best") (fastforce simp: policy_candidate_is_better_def split: if_splits)+
qed simp

lemma scan_none: "policy_scan decide ts None = None \<longleftrightarrow> (\<forall>t\<in>set ts. \<not> td_tune (decide t))"
proof (induction ts)
  case (Cons t ts)
  show ?case
  proof (cases "td_tune (decide t)")
    case True
    then have "policy_scan decide (t # ts) None = policy_scan decide ts (Some (decide t))"
      by (simp add: policy_candidate_is_better_def)
    then show ?thesis using scan_cases [of decide ts "Some (decide t)"] True by auto
  qed (simp add: policy_candidate_is_better_def Cons)
qed simp

lemma scan_best:
  assumes "policy_scan decide ts best = Some d" "case best of Some b \<Rightarrow> td_tune b | None \<Rightarrow> True"
  shows "td_tune d \<and> (\<forall>t\<in>set ts. \<not> policy_candidate_is_better (decide t) (Some d))
    \<and> (case best of Some b \<Rightarrow> d = b \<or> policy_candidate_is_better d (Some b) | None \<Rightarrow> True)"
  using assms
proof (induction ts arbitrary: best)
  case Nil
  then show ?case by (auto split: option.splits)
next
  case (Cons t ts)
  let ?b = "if policy_candidate_is_better (decide t) best then Some (decide t) else best"
  have tb: "case ?b of Some b \<Rightarrow> td_tune b | None \<Rightarrow> True"
    using Cons.prems(2) by (auto simp: policy_candidate_is_better_def split: if_splits)
  have s: "policy_scan decide ts ?b = Some d" using Cons.prems(1) by simp
  note IH = Cons.IH [OF s tb]
  have "\<not> policy_candidate_is_better (decide t) (Some d)
      \<and> (case best of Some b \<Rightarrow> d = b \<or> policy_candidate_is_better d (Some b) | None \<Rightarrow> True)"
  proof (cases "policy_candidate_is_better (decide t) best")
    case True
    then have "d = decide t \<or> policy_candidate_is_better d (Some (decide t))" using IH by simp
    then show ?thesis
      using True by (auto simp: policy_candidate_is_better_def split: option.splits if_splits)
  next
    case False
    then show ?thesis
      using IH by (cases best) (auto simp: policy_candidate_is_better_def split: if_splits)
  qed
  with IH show ?case by simp
qed

definition group_verdict :: "p25_grant_event \<Rightarrow> grant_eval \<Rightarrow> grant_world \<Rightarrow> u32 \<Rightarrow> tg_decision" where
  "group_verdict ev e w t = tg_evaluate_group_call (gw_opts w) (gw_hold w) (gw_lockout w) (gw_policy w) t
     (word_of_int (ev_src ev)) (ge_encrypted_call e) (ge_data_call e)"

lemma eval_group_policy_scan:
  "eval_group_policy ev e w = (case policy_scan (group_verdict ev e w) (policy_targets w (ge_tg e)) None of
     Some d \<Rightarrow> d | None \<Rightarrow> group_verdict ev e w (word_of_int (ge_tg e)))"
  unfolding eval_group_policy_def Let_def group_verdict_def [abs_def] by simp

text \<open>C15: The decision of a grant to a supergroup is that of its best member. When the policy refuses the
  group and every active member, it is the refusal of the group itself; otherwise it is the decision of one
  of them that the policy allows, and none that the policy allows is better: none has the hold where it has
  not, or as much of a hold and a higher priority, or the same of both and the right to preempt where it has
  not.\<close>

theorem best_member_decides:
  "let d = eval_group_policy ev e w; ts = policy_targets w (ge_tg e); verdict = group_verdict ev e w
   in ((\<forall>t\<in>set ts. \<not> td_tune (verdict t)) \<longrightarrow> d = verdict (word_of_int (ge_tg e)) \<and> \<not> td_tune d)
    \<and> ((\<exists>t\<in>set ts. td_tune (verdict t)) \<longrightarrow> td_tune d \<and> (\<exists>t\<in>set ts. d = verdict t)
        \<and> (\<forall>t\<in>set ts. td_tune (verdict t) \<longrightarrow>
             (td_hold_match (verdict t) \<longrightarrow> td_hold_match d)
             \<and> (td_hold_match (verdict t) = td_hold_match d \<longrightarrow> td_priority (verdict t) \<le> td_priority d
                 \<and> (td_priority (verdict t) = td_priority d \<longrightarrow> td_preempt (verdict t) \<longrightarrow> td_preempt d))))"
proof -
  let ?v = "group_verdict ev e w" and ?ts = "policy_targets w (ge_tg e)"
  have tg: "word_of_int (ge_tg e) \<in> set ?ts" by (simp add: policy_targets_def)
  show ?thesis
  proof (cases "policy_scan ?v ?ts None")
    case None
    then have "\<forall>t\<in>set ?ts. \<not> td_tune (?v t)" using scan_none by blast
    then show ?thesis using None tg by (simp add: eval_group_policy_scan Let_def)
  next
    case (Some d)
    then have "\<exists>t\<in>set ?ts. td_tune (?v t)" using scan_none [of ?v ?ts] by auto
    moreover have "td_tune d" "\<forall>t\<in>set ?ts. \<not> policy_candidate_is_better (?v t) (Some d)" using scan_best [OF Some] by auto
    moreover have "\<exists>t\<in>set ?ts. d = ?v t" using scan_cases [of ?v ?ts None] Some by auto
    ultimately show ?thesis
      using Some by (auto simp: eval_group_policy_scan Let_def policy_candidate_is_better_def split: if_splits)
  qed
qed

section \<open>Resting re-admissions\<close>

definition memos_ok :: "p25_sm_ctx \<Rightarrow> bool" where
  "memos_ok c \<longleftrightarrow> length (sm_enc_reprobes c) = ENC_REPROBE_MEMO_MAX
     \<and> (\<forall>i<ENC_REPROBE_MEMO_MAX. \<forall>j<ENC_REPROBE_MEMO_MAX. \<forall>t g.
          memo_matches t g (sm_enc_reprobes c ! i) \<longrightarrow> memo_matches t g (sm_enc_reprobes c ! j) \<longrightarrow> i = j)"

lemma index_iff:
  assumes "memos_ok c"
  shows "enc_reprobe_index t g c = Some i \<longleftrightarrow> i < ENC_REPROBE_MEMO_MAX \<and> memo_matches t g (sm_enc_reprobes c ! i)"
proof
  assume "enc_reprobe_index t g c = Some i"
  then show "i < ENC_REPROBE_MEMO_MAX \<and> memo_matches t g (sm_enc_reprobes c ! i)"
    using assms by (auto simp: enc_reprobe_index_def memos_ok_def dest!: find_index_SomeD)
next
  assume i: "i < ENC_REPROBE_MEMO_MAX \<and> memo_matches t g (sm_enc_reprobes c ! i)"
  have "find_index (memo_matches t g) (sm_enc_reprobes c) = Some i"
    by (rule find_index_unique) (use assms i in \<open>auto simp: memos_ok_def\<close>)
  then show "enc_reprobe_index t g c = Some i" by (simp add: enc_reprobe_index_def)
qed

lemma reuse_loop_expired:
  "reuse_loop now i ms victim = Some k \<Longrightarrow>
     (\<exists>t. victim = Some (k, t)) \<or> (i \<le> k \<and> k < i + length ms \<and> memo_expired now (ms ! (k - i)))"
proof (induction now i ms victim rule: reuse_loop.induct)
  case (2 now i m ms victim)
  have step: "(\<exists>t. v = Some (k, t)) \<or> (Suc i \<le> k \<and> k < Suc i + length ms \<and> memo_expired now (ms ! (k - Suc i))) \<Longrightarrow>
      (\<exists>t. v = Some (k, t)) \<or> (i \<le> k \<and> k < i + length (m # ms) \<and> memo_expired now ((m # ms) ! (k - i)))" for v
  proof -
    have "(m # ms) ! (k - i) = ms ! (k - Suc i)" if "Suc i \<le> k" using that by (simp add: nth_Cons')
    moreover assume "(\<exists>t. v = Some (k, t)) \<or> (Suc i \<le> k \<and> k < Suc i + length ms \<and> memo_expired now (ms ! (k - Suc i)))"
    ultimately show ?thesis by auto
  qed
  show ?case
  proof (cases "memo_expired now m")
    case False
    then show ?thesis using 2 step by auto
  next
    case True
    show ?thesis
    proof (cases "case victim of None \<Rightarrow> True | Some (_, t) \<Rightarrow> rm_admitted_m m < t")
      case c: True
      then have "reuse_loop now (Suc i) ms (Some (i, rm_admitted_m m)) = Some k" using "2.prems" True by simp
      from "2.IH"(2) [OF _ c this] True have
        "(\<exists>t. Some (i, rm_admitted_m m) = Some (k, t)) \<or> (Suc i \<le> k \<and> k < Suc i + length ms \<and> memo_expired now (ms ! (k - Suc i)))" by simp
      from step [OF this] True show ?thesis by auto
    next
      case c: False
      then have "reuse_loop now (Suc i) ms victim = Some k" using "2.prems" True by simp
      from "2.IH"(3) [OF _ c this] True step show ?thesis by simp
    qed
  qed
qed auto

lemma reuse_loop_finds:
  "victim \<noteq> None \<or> (\<exists>m\<in>set ms. memo_expired now m) \<Longrightarrow> reuse_loop now i ms victim \<noteq> None"
  by (induction now i ms victim rule: reuse_loop.induct) (auto split: option.splits)

lemma index_none:
  assumes "memos_ok c"
  shows "enc_reprobe_index t g c = None \<longleftrightarrow> (\<forall>i<ENC_REPROBE_MEMO_MAX. \<not> memo_matches t g (sm_enc_reprobes c ! i))"
  using index_iff [OF assms, of t g] by (metis not_Some_eq)

lemma slot_choice:
  assumes "memos_ok c" "enc_reprobe_slot t g now c = Some i"
  shows "i < ENC_REPROBE_MEMO_MAX \<and> (memo_matches t g (sm_enc_reprobes c ! i)
    \<or> memo_expired now (sm_enc_reprobes c ! i) \<and> (\<forall>j<ENC_REPROBE_MEMO_MAX. \<not> memo_matches t g (sm_enc_reprobes c ! j)))"
proof (cases "enc_reprobe_index t g c")
  case None
  then have "\<forall>j<ENC_REPROBE_MEMO_MAX. \<not> memo_matches t g (sm_enc_reprobes c ! j)" using index_none [OF assms(1)] by blast
  then show ?thesis
    using assms None reuse_loop_expired [of now 0 "sm_enc_reprobes c" None i]
    by (auto simp: enc_reprobe_slot_def memos_ok_def)
next
  case (Some j)
  then have "i = j" using assms(2) by (simp add: enc_reprobe_slot_def)
  then show ?thesis using index_iff [OF assms(1), THEN iffD1, OF Some] by blast
qed

lemma cooldown_iff:
  assumes "memos_ok c"
  shows "enc_reprobe_in_cooldown t g now c \<longleftrightarrow> (\<exists>i<ENC_REPROBE_MEMO_MAX. memo_matches t g (sm_enc_reprobes c ! i)
    \<and> \<not> memo_expired now (sm_enc_reprobes c ! i))"
proof (cases "enc_reprobe_index t g c")
  case None
  then have "\<forall>i<ENC_REPROBE_MEMO_MAX. \<not> memo_matches t g (sm_enc_reprobes c ! i)" using index_none [OF assms] by blast
  moreover have "\<not> enc_reprobe_in_cooldown t g now c" using None by (simp add: enc_reprobe_in_cooldown_def)
  ultimately show ?thesis by blast
next
  case (Some j)
  then have j: "j < ENC_REPROBE_MEMO_MAX" "memo_matches t g (sm_enc_reprobes c ! j)" using index_iff [OF assms] by auto
  moreover have u: "i = j" if "i < ENC_REPROBE_MEMO_MAX" "memo_matches t g (sm_enc_reprobes c ! i)" for i
    using that j assms unfolding memos_ok_def by blast
  moreover have "enc_reprobe_in_cooldown t g now c \<longleftrightarrow> \<not> memo_expired now (sm_enc_reprobes c ! j)"
    using Some by (simp add: enc_reprobe_in_cooldown_def)
  ultimately show ?thesis by metis
qed

lemma record_effect:
  assumes "memos_ok c" "enc_reprobe_slot t g now c = Some i" "0 < now"
  shows "enc_reprobe_record t g now c = c\<lparr>sm_enc_reprobes := (sm_enc_reprobes c)[i := \<lparr>rm_admitted_m = now, rm_target = t, rm_is_group = g\<rparr>]\<rparr>"
    "memos_ok (enc_reprobe_record t g now c)"
proof -
  let ?m = "\<lparr>rm_admitted_m = now, rm_target = t, rm_is_group = g\<rparr>"
  show e: "enc_reprobe_record t g now c = c\<lparr>sm_enc_reprobes := (sm_enc_reprobes c)[i := ?m]\<rparr>"
    using assms by (simp add: enc_reprobe_record_def)
  note s = slot_choice [OF assms(1,2)]
  have l: "length (sm_enc_reprobes c) = ENC_REPROBE_MEMO_MAX" and u: "\<And>a b t g. a < ENC_REPROBE_MEMO_MAX \<Longrightarrow> b < ENC_REPROBE_MEMO_MAX \<Longrightarrow>
      memo_matches t g (sm_enc_reprobes c ! a) \<Longrightarrow> memo_matches t g (sm_enc_reprobes c ! b) \<Longrightarrow> a = b"
    using assms(1) unfolding memos_ok_def by blast+
  have alone: "j = i" if "j < ENC_REPROBE_MEMO_MAX" "memo_matches t g (sm_enc_reprobes c ! j)" for j
    using that s u by blast
  have m: "memo_matches t' g' ?m \<longleftrightarrow> t' = t \<and> g' = g" for t' g' using assms(3) by (auto simp: memo_matches_def)
  have "a = b" if ab: "a < ENC_REPROBE_MEMO_MAX" "b < ENC_REPROBE_MEMO_MAX"
    "memo_matches t' g' ((sm_enc_reprobes c)[i := ?m] ! a)" "memo_matches t' g' ((sm_enc_reprobes c)[i := ?m] ! b)" for a b t' g'
  proof -
    have x: "memo_matches t' g' ((sm_enc_reprobes c)[i := ?m] ! j) \<longleftrightarrow> (if j = i then t' = t \<and> g' = g else memo_matches t' g' (sm_enc_reprobes c ! j))"
      if "j < ENC_REPROBE_MEMO_MAX" for j using that l m by (cases "j = i") simp_all
    have y: "if a = i then t' = t \<and> g' = g else memo_matches t' g' (sm_enc_reprobes c ! a)"
      "if b = i then t' = t \<and> g' = g else memo_matches t' g' (sm_enc_reprobes c ! b)"
      using ab(3,4) x [OF ab(1)] x [OF ab(2)] by blast+
    show ?thesis
    proof (cases "t' = t \<and> g' = g")
      case True
      have "a = i" using y(1) alone [OF ab(1)] True by (simp split: if_splits)
      moreover have "b = i" using y(2) alone [OF ab(2)] True by (simp split: if_splits)
      ultimately show ?thesis by simp
    next
      case False
      then have "memo_matches t' g' (sm_enc_reprobes c ! a)" "memo_matches t' g' (sm_enc_reprobes c ! b)" using y by (simp_all split: if_splits)
      then show ?thesis by (rule u [OF ab(1,2)])
    qed
  qed
  then show "memos_ok (enc_reprobe_record t g now c)" unfolding e memos_ok_def using l by simp
qed

lemma record_cooldowns:
  assumes "memos_ok c" "enc_reprobe_slot t g now c = Some i" "0 < now"
  shows "enc_reprobe_in_cooldown t g later (enc_reprobe_record t g now c) \<longleftrightarrow> later < now + 10"
    "(t', g') \<noteq> (t, g) \<Longrightarrow> enc_reprobe_in_cooldown t' g' later (enc_reprobe_record t g now c) \<longleftrightarrow>
       (\<exists>j<ENC_REPROBE_MEMO_MAX. j \<noteq> i \<and> memo_matches t' g' (sm_enc_reprobes c ! j) \<and> \<not> memo_expired later (sm_enc_reprobes c ! j))"
proof -
  note e = record_effect [OF assms]
  have l: "length (sm_enc_reprobes c) = ENC_REPROBE_MEMO_MAX" using assms(1) by (simp add: memos_ok_def)
  have i: "i < ENC_REPROBE_MEMO_MAX" using slot_choice [OF assms(1,2)] by blast
  let ?m = "\<lparr>rm_admitted_m = now, rm_target = t, rm_is_group = g\<rparr>"
  have memo: "sm_enc_reprobes (enc_reprobe_record t g now c) = (sm_enc_reprobes c)[i := ?m]" by (simp add: e(1))
  have "enc_reprobe_index t g (enc_reprobe_record t g now c) = Some i"
    unfolding index_iff [OF e(2)] memo using i l assms(3) by (simp add: memo_matches_def)
  then show "enc_reprobe_in_cooldown t g later (enc_reprobe_record t g now c) \<longleftrightarrow> later < now + 10"
    using i l assms(3) by (auto simp: enc_reprobe_in_cooldown_def memo memo_expired_def ENC_REPROBE_COOLDOWN_S_def)
  assume n: "(t', g') \<noteq> (t, g)"
  have x: "memo_matches t' g' ((sm_enc_reprobes c)[i := ?m] ! j) \<and> \<not> memo_expired later ((sm_enc_reprobes c)[i := ?m] ! j) \<longleftrightarrow>
      j \<noteq> i \<and> memo_matches t' g' (sm_enc_reprobes c ! j) \<and> \<not> memo_expired later (sm_enc_reprobes c ! j)" if "j < ENC_REPROBE_MEMO_MAX" for j
    using that n l by (cases "j = i") (auto simp: memo_matches_def)
  show "enc_reprobe_in_cooldown t' g' later (enc_reprobe_record t g now c) \<longleftrightarrow>
       (\<exists>j<ENC_REPROBE_MEMO_MAX. j \<noteq> i \<and> memo_matches t' g' (sm_enc_reprobes c ! j) \<and> \<not> memo_expired later (sm_enc_reprobes c ! j))"
    unfolding cooldown_iff [OF e(2)] memo using x by blast
qed

lemma noting_effect:
  assumes "memos_ok c" "0 < now"
  shows "memos_ok (enc_reprobe_record t g now c)
    \<and> ((\<exists>m\<in>set (sm_enc_reprobes c). memo_expired now m \<or> memo_matches t g m) \<longrightarrow>
        (\<forall>later. enc_reprobe_in_cooldown t g later (enc_reprobe_record t g now c) \<longleftrightarrow> later < now + 10))
    \<and> (\<forall>t' g'. (t', g') \<noteq> (t, g) \<longrightarrow> enc_reprobe_in_cooldown t' g' now c \<longrightarrow>
        (\<forall>later. enc_reprobe_in_cooldown t' g' later (enc_reprobe_record t g now c) \<longleftrightarrow> enc_reprobe_in_cooldown t' g' later c))"
proof (cases "enc_reprobe_slot t g now c")
  case None
  then have "enc_reprobe_record t g now c = c" by (simp add: enc_reprobe_record_def)
  moreover have "enc_reprobe_index t g c = None" "reuse_loop now 0 (sm_enc_reprobes c) None = None"
    using None by (auto simp: enc_reprobe_slot_def split: option.splits)
  then have "\<not> (\<exists>m\<in>set (sm_enc_reprobes c). memo_expired now m \<or> memo_matches t g m)"
    using reuse_loop_finds [of None "sm_enc_reprobes c" now 0] by (auto simp: enc_reprobe_index_def find_index_None_iff)
  ultimately show ?thesis using assms(1) by simp
next
  case (Some i)
  have s: "i < ENC_REPROBE_MEMO_MAX" "memo_matches t g (sm_enc_reprobes c ! i) \<or> memo_expired now (sm_enc_reprobes c ! i)"
    using slot_choice [OF assms(1) Some] by auto
  have "enc_reprobe_in_cooldown t' g' later (enc_reprobe_record t g now c) \<longleftrightarrow> enc_reprobe_in_cooldown t' g' later c"
    if n: "(t', g') \<noteq> (t, g)" and r: "enc_reprobe_in_cooldown t' g' now c" for t' g' later
  proof -
    obtain k where k: "k < ENC_REPROBE_MEMO_MAX" "memo_matches t' g' (sm_enc_reprobes c ! k)" "\<not> memo_expired now (sm_enc_reprobes c ! k)"
      using r cooldown_iff [OF assms(1)] by blast
    have "k \<noteq> i" using k s n by (auto simp: memo_matches_def)
    moreover have "j = k" if "j < ENC_REPROBE_MEMO_MAX" "memo_matches t' g' (sm_enc_reprobes c ! j)" for j
      using that k assms(1) unfolding memos_ok_def by blast
    ultimately show ?thesis
      unfolding record_cooldowns(2) [OF assms(1) Some assms(2) n] cooldown_iff [OF assms(1)] by blast
  qed
  then show ?thesis using record_effect(2) [OF assms(1) Some assms(2)] record_cooldowns(1) [OF assms(1) Some assms(2)] by blast
qed

text \<open>C18: A re-admission noted at a time after 0 rests exactly ten seconds from it, a clock that jumps back
  included, whenever its target has a memo or some memo is free or has run out; and noting it takes from no
  other target a rest that still runs: whoever was resting rests until the same moment.\<close>

theorem noting_evicts_no_live_rest:
  assumes "memos_ok c" "0 < now"
  shows "memos_ok (enc_reprobe_record t g now c)
    \<and> ((\<exists>m\<in>set (sm_enc_reprobes c). memo_expired now m \<or> memo_matches t g m) \<longrightarrow>
        (\<forall>later. enc_reprobe_in_cooldown t g later (enc_reprobe_record t g now c) \<longleftrightarrow> later < now + 10))
    \<and> (\<forall>t' g'. (t', g') \<noteq> (t, g) \<longrightarrow> enc_reprobe_in_cooldown t' g' now c \<longrightarrow>
        (\<forall>later. enc_reprobe_in_cooldown t' g' later (enc_reprobe_record t g now c) \<longleftrightarrow> enc_reprobe_in_cooldown t' g' later c))"
  by (rule noting_effect [OF assms])

lemma boot_memos: "memos_ok c" if "sm_enc_reprobes c = replicate ENC_REPROBE_MEMO_MAX zero_memo"
  using that by (auto simp: memos_ok_def memo_matches_def zero_memo_def)

definition memo_boot :: p25_sm_ctx where
  "memo_boot = \<lparr>sm_state = P25_SM_ON_CC, sm_vc_freq_hz = 0, sm_vc_is_tdma = False, sm_recent_call_ends = [zero_guard, zero_guard],
     sm_slots = [zero_slot, zero_slot], sm_enc_reprobes = replicate ENC_REPROBE_MEMO_MAX zero_memo\<rparr>"

lemma memo_boot_ok: "memos_ok memo_boot" "zero_memo \<in> set (sm_enc_reprobes memo_boot)" "memo_expired now zero_memo"
  by (simp_all add: boot_memos memo_boot_def zero_memo_def memo_expired_def ENC_REPROBE_MEMO_MAX_def)

lemma noting_evicts_no_live_rest_witness:
  "enc_reprobe_in_cooldown 7 True 109 (enc_reprobe_record 7 True 100 memo_boot)
    \<and> \<not> enc_reprobe_in_cooldown 7 True 110 (enc_reprobe_record 7 True 100 memo_boot)"
  using noting_evicts_no_live_rest [OF memo_boot_ok(1), of 100 7 True] memo_boot_ok(2) memo_boot_ok(3) [of 100] by auto

section \<open>A locked-out target\<close>

definition explicit_clear :: "p25_grant_event \<Rightarrow> bool" where
  "explicit_clear ev \<longleftrightarrow> p25_sm_svc_bits_valid (ev_svc_bits ev) \<and> \<not> svc_is_enc (ev_svc_bits ev)"

definition voice_grant :: "p25_grant_event \<Rightarrow> grant_world \<Rightarrow> bool" where
  "voice_grant ev w \<longleftrightarrow> to_enc_calls (gw_opts w) = 0 \<and> \<not> ge_data_call (eval_ctx_from_event ev) \<and> 0 < p25_grant_ota_target_id ev
     \<and> (ev_is_group ev \<longrightarrow> \<not> patch_key_clear w (p25_grant_ota_target_id ev))"

abbreviation evaluated :: "p25_grant_event \<Rightarrow> grant_world \<Rightarrow> grant_eval" where
  "evaluated ev w \<equiv> apply_crypto_probe w (apply_clear_override w (eval_ctx_from_event ev))"

abbreviation ota_blocked :: "p25_grant_event \<Rightarrow> grant_world \<Rightarrow> bool" where
  "ota_blocked ev w \<equiv> enc_lockout_is_blocked False (word_of_int (p25_grant_ota_target_id ev)) (ev_is_group ev) (gw_lockout w)"

abbreviation ota_resting :: "p25_grant_event \<Rightarrow> grant_world \<Rightarrow> bool" where
  "ota_resting ev w \<equiv> enc_reprobe_in_cooldown (word_of_int (p25_grant_ota_target_id ev)) (ev_is_group ev) (gw_now_m w) (gw_sm w)"

lemma evaluated_parts:
  assumes "voice_grant ev w"
  shows "ge_tg (evaluated ev w) = p25_grant_ota_target_id ev" "ge_is_indiv (evaluated ev w) \<longleftrightarrow> \<not> ev_is_group ev"
    "\<not> ge_data_call (evaluated ev w)" "ge_probe_call (evaluated ev w) \<longleftrightarrow> \<not> explicit_clear ev"
    "\<not> ge_enc_override_clear (evaluated ev w)" "ge_svc_valid (evaluated ev w) \<and> \<not> ge_encrypted_call (evaluated ev w) \<longleftrightarrow> explicit_clear ev"
    "ge_probe_call (evaluated ev w) \<or> \<not> ge_encrypted_call (evaluated ev w)" "\<not> ge_enc_lockout_reprobe (evaluated ev w)"
  using assms
  by (auto simp: voice_grant_def apply_crypto_probe_def apply_clear_override_def eval_ctx_from_event_def explicit_clear_def
      p25_grant_ota_target_id_def Let_def)

lemma evidence_voice:
  assumes "voice_grant ev w"
  shows "enc_release_evidence w (evaluated ev w) = (if explicit_clear ev then ENC_RELEASE_GRANT_BIT else ENC_RELEASE_NONE)"
proof -
  have "\<not> grant_patch_clear_key w (evaluated ev w)"
    using assms evaluated_parts(1,2) [OF assms] by (simp add: grant_patch_clear_key_def voice_grant_def)
  then show ?thesis using evaluated_parts(5,6) [OF assms] by (simp add: enc_release_evidence_def)
qed

lemma release_voice:
  assumes "voice_grant ev w"
  shows "release_enc_lockout_if_clear commit (evaluated ev w) w =
     (if explicit_clear ev \<and> commit
      then release_enc_lockout_on_grant_bit (word_of_int (p25_grant_ota_target_id ev)) (ev_is_group ev) (evaluated ev w) w
      else (w, evaluated ev w))"
  unfolding release_enc_lockout_if_clear_def evidence_voice [OF assms] evaluated_parts(1,2) [OF assms]
  using assms evaluated_parts(3) [OF assms] by (auto simp: voice_grant_def is_voice_call_def)

lemma refused_release:
  assumes "voice_grant ev w" "ota_blocked ev w" "\<not> explicit_clear ev \<or> \<not> commit \<or> ota_resting ev w"
  shows "release_enc_lockout_if_clear commit (evaluated ev w) w = (w, evaluated ev w)"
  unfolding release_voice [OF assms(1)] using assms by (auto simp: release_enc_lockout_on_grant_bit_def voice_grant_def)

text \<open>C12: A locked-out target stays refused while encrypted calls are not followed: a voice grant for it is
  declined and changes nothing, neither the ledger nor the memos nor the affiliations, when it claims
  encryption or does not say, when it is only a re-evaluation, and when it claims a clear call but the target
  was re-admitted on such a claim less than ten seconds ago. The target is not an active supergroup, and no
  regroup key declares it clear.\<close>

theorem locked_target_is_refused:
  assumes "voice_grant ev w" "ota_blocked ev w" "\<not> explicit_clear ev \<or> \<not> commit \<or> ota_resting ev w"
    "ev_is_group ev \<longrightarrow> policy_targets w (p25_grant_ota_target_id ev) = [word_of_int (p25_grant_ota_target_id ev)]"
  shows "fst (grant_allowed commit ev w) = w \<and> \<not> fst (snd (grant_allowed commit ev w))"
proof -
  let ?e = "evaluated ev w"
  have enc: "to_enc_calls (gw_opts w) = 0" using assms(1) by (simp add: voice_grant_def)
  note p = evaluated_parts [OF assms(1)]
  have "\<not> td_tune (eval_policy ev ?e w)"
  proof (cases "ev_is_group ev")
    case True
    define e where "e = (if ge_probe_call ?e then ?e\<lparr>ge_encrypted_call := False\<rparr> else ?e)"
    have e: "ge_tg e = p25_grant_ota_target_id ev" "\<not> ge_data_call e" using p(1,3) by (auto simp: e_def)
    have "\<not> td_tune (group_verdict ev e w (word_of_int (p25_grant_ota_target_id ev)))"
      unfolding group_verdict_def using group_tune assms(2) True enc e(2) by fastforce
    then have "\<not> td_tune (eval_group_policy ev e w)"
      using True assms(4) unfolding eval_group_policy_scan e(1) by (simp add: policy_candidate_is_better_def)
    moreover have "eval_policy ev ?e w = eval_group_policy ev e w"
      using True p(2) by (simp add: eval_policy_def e_def [symmetric] Let_def) (simp add: e_def)
    ultimately show ?thesis by simp
  next
    case False
    then have "\<not> td_tune (tg_evaluate_private (gw_opts w) (gw_hold w) (gw_lockout w) (gw_policy w) s (word_of_int (ev_dst ev)) enc False al)" for s enc al
      using private_tune assms(2) enc by (fastforce simp: p25_grant_ota_target_id_def)
    then show ?thesis using False p(2,3) by (simp add: eval_policy_def tg_evaluate_private_grant_def Let_def)
  qed
  then show ?thesis using refused_release [OF assms(1-3)] by (simp add: grant_allowed_def Let_def)
qed

lemma target_parts [simp]:
  "td_target (tg_block_tune b r d) = td_target d" "td_target (tg_block_tune_and_media r d) = td_target d"
  "td_target (tg_apply_explicit_media_blocks a r' s d) = td_target d"
  by (simp_all add: tg_block_tune_def tg_block_tune_and_media_def tg_apply_explicit_media_blocks_def Let_def)

lemma verdict_target: "td_target (group_verdict ev e w t) = t"
proof -
  obtain d1 mode a r s where l: "tg_group_apply_lookup (gw_policy w) t
      (tg_init_decision t (word_of_int (ev_src ev)) (ge_encrypted_call e) (ge_data_call e)) = (d1, mode, a, r, s)"
    by (metis prod_cases5)
  then have "td_target d1 = t"
    by (auto simp: tg_group_apply_lookup_def tg_init_decision_def tg_decision_apply_entry_def Let_def split: if_splits)
  then show ?thesis
    by (simp add: group_verdict_def tg_evaluate_group_call_def l tg_set_hold_state_def tg_apply_group_tune_blocks_def
        tg_apply_enc_lockout_block_def Let_def)
qed

text \<open>C19: The lockout of a supergroup does not hold while its patch is active. When one of its members is
  not itself refused by the policy, a grant for the locked supergroup that claims encryption is followed,
  again and again: the decision is a member's, and the ledger, which locks the supergroup as a target, is
  left as it was and is not asked about the call that is tuned.\<close>

theorem supergroup_lockout_is_evaded:
  assumes "voice_grant ev w" "ota_blocked ev w" "ev_is_group ev" "\<not> explicit_clear ev"
    "m \<in> set (policy_targets w (p25_grant_ota_target_id ev))"
    "td_tune (group_verdict ev ((evaluated ev w)\<lparr>ge_encrypted_call := False\<rparr>) w m)"
  shows "case grant_allowed commit ev w of (w', allowed, d, e) \<Rightarrow>
     allowed \<and> ota_blocked ev w' \<and> gw_lockout w' = gw_lockout w \<and> td_target d \<noteq> word_of_int (p25_grant_ota_target_id ev)"
proof -
  let ?e = "evaluated ev w" and ?t = "word_of_int (p25_grant_ota_target_id ev) :: u32"
  let ?p = "?e\<lparr>ge_encrypted_call := False\<rparr>" and ?ts = "policy_targets w (p25_grant_ota_target_id ev)"
  have enc: "to_enc_calls (gw_opts w) = 0" using assms(1) by (simp add: voice_grant_def)
  note p = evaluated_parts [OF assms(1)]
  have ep: "eval_policy ev ?e w = eval_group_policy ev ?p w"
    using assms(3,4) p(2,4) by (simp add: eval_policy_def Let_def)
  obtain d where d: "policy_scan (group_verdict ev ?p w) ?ts None = Some d"
    using scan_none [of "group_verdict ev ?p w" ?ts] assms(5,6) by blast
  then have "eval_policy ev ?e w = d" unfolding ep eval_group_policy_scan using p(1) by simp
  moreover obtain t where t: "t \<in> set ?ts" "d = group_verdict ev ?p w t" "td_tune (group_verdict ev ?p w t)"
    using scan_cases [of "group_verdict ev ?p w" ?ts None] d by auto
  moreover have "\<not> td_tune (group_verdict ev ?p w ?t)"
    unfolding group_verdict_def using group_tune assms(2,3) enc p(3) by fastforce
  moreover have "td_target (group_verdict ev ?p w t) = t" for t by (rule verdict_target)
  ultimately have k: "td_tune (eval_policy ev ?e w)" "td_target (eval_policy ev ?e w) \<noteq> ?t" by auto
  have "release_enc_lockout_if_clear commit ?e w = (w, ?e)"
    using refused_release [OF assms(1,2)] assms(4) by blast
  then show ?thesis using k assms(2) by (simp add: grant_allowed_def Let_def track_src_tg_def)
qed

text \<open>C38: An accepted private grant enters the table of group affiliations: the low sixteen bits of the called
  radio are recorded as a talkgroup that the caller was heard with, though the code means to track group
  grants only.\<close>

theorem private_grant_enters_group_table:
  assumes "grant_allowed commit ev w = (w', True, d, e)" "\<not> ev_is_group ev" "0 < ev_src ev" "0 < ev_dst ev"
    "ga_ok (gw_ga w)" "(word_of_int (ev_src ev) :: u32) \<noteq> 0" "(word_of_int (ev_dst ev) :: u16) \<noteq> 0"
  shows "ga_seen (gw_ga w') (word_of_int (ev_src ev), word_of_int (ev_dst ev)) = Some (gw_wall w)"
proof -
  obtain w1 e1 where r: "release_enc_lockout_if_clear commit (evaluated ev w) w = (w1, e1)" by fastforce
  have same: "gw_ga w1 = gw_ga w \<and> gw_wall w1 = gw_wall w \<and> ge_tg e1 = ge_tg (evaluated ev w)"
    using r by (auto simp: release_enc_lockout_if_clear_def release_enc_lockout_on_grant_bit_def release_lockout_def forget_reprobe_def
        Let_def split: if_splits release_evidence.splits)
  have tg: "ge_tg (evaluated ev w) = ev_dst ev"
    using assms(2) by (simp add: apply_crypto_probe_def apply_clear_override_def eval_ctx_from_event_def Let_def)
  have "w' = track_src_tg ev e1 w1" using assms(1) r by (auto simp: grant_allowed_def Let_def split: if_splits)
  then have g: "gw_ga w' = p25_ga_add (gw_wall w) (word_of_int (ev_src ev)) (word_of_int (ev_dst ev)) (gw_ga w)"
    using same tg assms(3,4) by (simp add: track_src_tg_def)
  note m = ga_add_map [OF assms(5-7), of "gw_wall w"]
  have "ga_count (gw_ga w) \<le> int GA_CELLS"
    using assms(5) count_if_le_length [of "\<lambda>c. ga_key c \<noteq> None" "ga_cells (gw_ga w)"] by (simp add: ga_ok_def keyed_def)
  then consider "(word_of_int (ev_src ev), word_of_int (ev_dst ev)) \<in> dom (ga_seen (gw_ga w)) \<or> ga_count (gw_ga w) < int GA_CELLS"
    | "(word_of_int (ev_src ev), word_of_int (ev_dst ev)) \<notin> dom (ga_seen (gw_ga w))" "ga_count (gw_ga w) = int GA_CELLS" by linarith
  then show ?thesis
  proof cases
    case 1
    show ?thesis unfolding g m(1) [OF 1] by simp
  next
    case 2
    from m(2) [OF 2] show ?thesis unfolding g by auto
  qed
qed


text \<open>Weighing a grant spends neither a lockout nor a rest.\<close>

lemma weighing_spends_nothing:
  assumes "voice_grant (ev_group_grant channel tg src svc_bits) w"
  shows "gw_lockout (apply_group_grant_policy trunk_enable channel svc_bits tg src w) = gw_lockout w
    \<and> gw_sm (apply_group_grant_policy trunk_enable channel svc_bits tg src w) = gw_sm w"
  using release_voice [OF assms, of False]
  by (simp add: apply_group_grant_policy_def grant_allowed_def Let_def track_src_tg_def)

section \<open>A rest that is forgotten\<close>

definition grant_after :: "p25_grant_event \<Rightarrow> grant_world \<Rightarrow> grant_world" where
  "grant_after ev w = fst (grant_allowed True ev w)"

definition grant_reprobes :: "p25_grant_event \<Rightarrow> grant_world \<Rightarrow> bool" where
  "grant_reprobes ev w \<longleftrightarrow> ge_enc_lockout_reprobe (snd (snd (snd (grant_allowed True ev w))))"

text \<open>The slot is taken over for the grant, and later the voice of the target is found encrypted again.\<close>

definition grant_taken :: "p25_grant_event \<Rightarrow> grant_world \<Rightarrow> grant_world" where
  "grant_taken ev w = (grant_after ev w)\<lparr>gw_sm :=
     note_enc_reprobe_admitted (snd (snd (snd (grant_allowed True ev w)))) (gw_now_m w) (gw_sm (grant_after ev w))\<rparr>"

definition relocked :: "p25_grant_event \<Rightarrow> mono_s \<Rightarrow> int \<Rightarrow> int \<Rightarrow> grant_world \<Rightarrow> grant_world" where
  "relocked ev later algid keyid w =
     (note_encrypted_call_typed (p25_grant_ota_target_id ev) (ev_is_group ev) algid keyid w)\<lparr>gw_now_m := later\<rparr>"

lemma track_parts:
  "gw_lockout (track_src_tg ev e w) = gw_lockout w" "gw_sm (track_src_tg ev e w) = gw_sm w"
  "gw_opts (track_src_tg ev e w) = gw_opts w" "gw_patches (track_src_tg ev e w) = gw_patches w"
  "gw_wall (track_src_tg ev e w) = gw_wall w" "gw_now_m (track_src_tg ev e w) = gw_now_m w"
  by (simp_all add: track_src_tg_def)

lemma grant_parts:
  assumes "release_enc_lockout_if_clear True (evaluated ev w) w = (w1, e1)"
  shows "snd (snd (snd (grant_allowed True ev w))) = e1" "gw_lockout (grant_after ev w) = gw_lockout w1"
    "gw_sm (grant_after ev w) = gw_sm w1" "gw_opts (grant_after ev w) = gw_opts w1" "gw_patches (grant_after ev w) = gw_patches w1"
    "gw_wall (grant_after ev w) = gw_wall w1" "gw_now_m (grant_after ev w) = gw_now_m w1"
  using assms by (simp_all add: grant_after_def grant_allowed_def Let_def track_parts)

lemma voice_grant_cong:
  "gw_opts w' = gw_opts w \<Longrightarrow> gw_patches w' = gw_patches w \<Longrightarrow> gw_wall w' = gw_wall w \<Longrightarrow> voice_grant ev w' \<longleftrightarrow> voice_grant ev w"
  by (simp add: voice_grant_def patch_key_clear_def)

lemma not_blocked_after_release:
  assumes "lockout_inv s"
  shows "\<not> enc_lockout_is_blocked False t g (fst (enc_lockout_release t g s))"
  using holds_release [OF assms] unfolding enc_lockout_is_blocked_def entry_active_iff [OF lockout_inv_release [OF assms]] by simp

lemma blocked_release:
  "enc_lockout_is_blocked False t g s \<Longrightarrow> t \<noteq> 0 \<and> snd (enc_lockout_release t g s)"
  by (auto simp: enc_lockout_is_blocked_def enc_lockout_entry_active_def enc_lockout_find_def enc_lockout_release_def
      split: if_splits option.splits)

lemma forget_cooldown:
  assumes "memos_ok c"
  shows "\<not> enc_reprobe_in_cooldown t g later (enc_reprobe_forget t g c)"
proof (cases "enc_reprobe_index t g c")
  case None
  then show ?thesis by (simp add: enc_reprobe_forget_def enc_reprobe_in_cooldown_def)
next
  case (Some i)
  then have i: "i < ENC_REPROBE_MEMO_MAX" "memo_matches t g (sm_enc_reprobes c ! i)" using index_iff [OF assms] by auto
  have l: "length (sm_enc_reprobes c) = ENC_REPROBE_MEMO_MAX" using assms by (simp add: memos_ok_def)
  have "\<not> memo_matches t g ((sm_enc_reprobes c)[i := zero_memo] ! j)" if "j < ENC_REPROBE_MEMO_MAX" for j
    using that i l assms unfolding memos_ok_def by (cases "j = i") (auto simp: memo_matches_def zero_memo_def)
  then have "enc_reprobe_index t g (enc_reprobe_forget t g c) = None"
    using Some l by (auto simp: enc_reprobe_forget_def enc_reprobe_index_def find_index_None_iff in_set_conv_nth)
  then show ?thesis by (simp add: enc_reprobe_in_cooldown_def)
qed

text \<open>The three answers to a clear-claiming grant that is processed.\<close>

lemma clear_grant_cases:
  assumes "voice_grant ev w" "explicit_clear ev"
  shows "ota_blocked ev w \<Longrightarrow> \<not> ota_resting ev w \<Longrightarrow> release_enc_lockout_if_clear True (evaluated ev w) w =
      (release_lockout (word_of_int (p25_grant_ota_target_id ev)) (ev_is_group ev) w, (evaluated ev w)\<lparr>ge_enc_lockout_reprobe := True\<rparr>)"
    "ota_blocked ev w \<Longrightarrow> ota_resting ev w \<Longrightarrow> release_enc_lockout_if_clear True (evaluated ev w) w = (w, evaluated ev w)"
    "\<not> ota_blocked ev w \<Longrightarrow> release_enc_lockout_if_clear True (evaluated ev w) w =
      (forget_reprobe (word_of_int (p25_grant_ota_target_id ev)) (ev_is_group ev)
         (release_lockout (word_of_int (p25_grant_ota_target_id ev)) (ev_is_group ev) w), evaluated ev w)"
  unfolding release_voice [OF assms(1)] using assms blocked_release
  by (auto simp: release_enc_lockout_on_grant_bit_def voice_grant_def)

text \<open>C26: The ten seconds that a re-admission rests are lost when the same clear-claiming update is heard once
  more before the voice has been classified. A locked target is re-admitted on a grant bit and the slot taken
  over. When its voice is then found encrypted, the next update within ten seconds is declined, as it should
  be; but with one more update in between, it is re-admitted again.\<close>

theorem repeated_update_defeats_rest:
  assumes "voice_grant ev w" "explicit_clear ev" "ota_blocked ev w" "\<not> ota_resting ev w" "0 < gw_now_m w"
    "memos_ok (gw_sm w)" "lockout_inv (gw_lockout w)" "\<exists>m\<in>set (sm_enc_reprobes (gw_sm w)). memo_expired (gw_now_m w) m"
    "later < gw_now_m w + 10"
  shows "grant_reprobes ev w
    \<and> \<not> grant_reprobes ev (relocked ev later algid keyid (grant_taken ev w))
    \<and> grant_reprobes ev (relocked ev later algid keyid (grant_after ev (grant_taken ev w)))"
proof -
  let ?t = "word_of_int (p25_grant_ota_target_id ev) :: u32" and ?g = "ev_is_group ev" and ?now = "gw_now_m w"
  let ?lk = "fst (enc_lockout_release ?t ?g (gw_lockout w))" and ?c = "enc_reprobe_record ?t ?g ?now (gw_sm w)"
  have enc: "to_enc_calls (gw_opts w) = 0" and pos: "0 < p25_grant_ota_target_id ev" using assms(1) by (auto simp: voice_grant_def)
  have t0: "?t \<noteq> 0" using blocked_release [OF assms(3)] by blast
  note r1 = clear_grant_cases(1) [OF assms(1-4)]
  have g1: "grant_reprobes ev w" using grant_parts(1) [OF r1] by (simp add: grant_reprobes_def)
  have w2: "gw_lockout (grant_taken ev w) = ?lk" "gw_sm (grant_taken ev w) = ?c" "gw_opts (grant_taken ev w) = gw_opts w"
    "gw_patches (grant_taken ev w) = gw_patches w" "gw_wall (grant_taken ev w) = gw_wall w" "gw_now_m (grant_taken ev w) = ?now"
    using evaluated_parts(1,2) [OF assms(1)] pos
    by (simp_all add: grant_taken_def grant_parts [OF r1] release_lockout_def note_enc_reprobe_admitted_def)
  have li: "lockout_inv ?lk" by (rule lockout_inv_release [OF assms(7)])
  have cool: "enc_reprobe_in_cooldown ?t ?g later ?c" and mok: "memos_ok ?c"
    using noting_effect [OF assms(6,5), of ?t ?g] assms(8,9) by blast+
  have v: "voice_grant ev (relocked ev later algid keyid w')"
    if "gw_opts w' = gw_opts w" "gw_patches w' = gw_patches w" "gw_wall w' = gw_wall w" for w'
    using that assms(1) by (subst voice_grant_cong [of _ w]) (simp_all add: relocked_def note_encrypted_call_typed_def)
  have lock: "ota_blocked ev (relocked ev later algid keyid w')"
    if "gw_opts w' = gw_opts w" "gw_patches w' = gw_patches w" "gw_wall w' = gw_wall w" "lockout_inv (gw_lockout w')" for w'
  proof -
    have "\<not> (?g \<and> patch_key_clear w' (p25_grant_ota_target_id ev))" using assms(1) that by (auto simp: voice_grant_def patch_key_clear_def)
    then show ?thesis
      using note_locks [OF that(4) t0] that(1) enc pos
      by (auto simp: relocked_def note_encrypted_call_typed_def enc_lockout_is_blocked_def)
  qed
  have sm: "gw_sm (relocked ev later algid keyid w') = gw_sm w'" "gw_now_m (relocked ev later algid keyid w') = later" for w'
    by (simp_all add: relocked_def note_encrypted_call_typed_def)
  have "\<not> grant_reprobes ev (relocked ev later algid keyid (grant_taken ev w))"
  proof -
    let ?w = "relocked ev later algid keyid (grant_taken ev w)"
    have "release_enc_lockout_if_clear True (evaluated ev ?w) ?w = (?w, evaluated ev ?w)"
      by (rule clear_grant_cases(2) [OF v assms(2) lock]) (simp_all add: w2 sm cool li)
    then show ?thesis using evaluated_parts(8) [OF v, of "grant_taken ev w"] by (simp add: grant_reprobes_def grant_parts(1) w2)
  qed
  moreover have "grant_reprobes ev (relocked ev later algid keyid (grant_after ev (grant_taken ev w)))"
  proof -
    have v2: "voice_grant ev (grant_taken ev w)" using voice_grant_cong [of "grant_taken ev w" w ev] assms(1) w2 by simp
    have nb: "\<not> ota_blocked ev (grant_taken ev w)" unfolding w2 by (rule not_blocked_after_release [OF assms(7)])
    note r2 = clear_grant_cases(3) [OF v2 assms(2) nb]
    have w3: "gw_lockout (grant_after ev (grant_taken ev w)) = fst (enc_lockout_release ?t ?g ?lk)"
      "gw_sm (grant_after ev (grant_taken ev w)) = enc_reprobe_forget ?t ?g ?c"
      "gw_opts (grant_after ev (grant_taken ev w)) = gw_opts w" "gw_patches (grant_after ev (grant_taken ev w)) = gw_patches w"
      "gw_wall (grant_after ev (grant_taken ev w)) = gw_wall w"
      by (simp_all add: grant_parts [OF r2] release_lockout_def forget_reprobe_def w2)
    let ?w = "relocked ev later algid keyid (grant_after ev (grant_taken ev w))"
    have "release_enc_lockout_if_clear True (evaluated ev ?w) ?w = (release_lockout ?t ?g ?w, (evaluated ev ?w)\<lparr>ge_enc_lockout_reprobe := True\<rparr>)"
      by (rule clear_grant_cases(1) [OF v assms(2) lock]) (simp_all add: w3 sm forget_cooldown [OF mok] lockout_inv_release [OF li])
    then show ?thesis by (simp add: grant_reprobes_def grant_parts(1))
  qed
  ultimately show ?thesis using g1 by blast
qed

section \<open>An example\<close>

definition demo_grant :: "bool \<Rightarrow> int \<Rightarrow> p25_grant_event" where
  "demo_grant to_group svc = (if to_group then ev_group_grant_update 5 1000 9 svc else ev_indiv_grant_update 5 70000 9 svc)"

definition demo_world :: "patch_table \<Rightarrow> grant_world" where
  "demo_world patches = \<lparr>gw_opts = \<lparr>to_group_calls = 1, to_private_calls = 1, to_data_calls = 0, to_enc_calls = 0, to_allow_list = 0\<rparr>,
     gw_hold = 0, gw_policy = None, gw_lockout = fst (enc_lockout_note 50 1000 True 0x84 1 enc_lockout_init),
     gw_patches = patches, gw_ga = ga_boot, gw_sm = memo_boot, gw_wall = 100, gw_now_m = 100\<rparr>"

text \<open>The supergroup 1000 with the one member 5.\<close>

definition demo_patch :: patch_table where
  "demo_patch = foldl patch_step patch_boot [(100, Patch_update 1000 True True), (100, Patch_add_wgid 1000 5)]"

lemma demo_patch_parts:
  "p25_patch_collect_active_wgids 100 1000 8 demo_patch = ([5], 1)"
  "\<not> p25_patch_tg_key_is_clear 100 1000 demo_patch" "\<not> p25_patch_sg_key_is_clear 100 1000 demo_patch"
  "p25_patch_collect_active_wgids 100 1000 8 patch_boot = ([], 0)"
  "\<not> p25_patch_tg_key_is_clear 100 1000 patch_boot" "\<not> p25_patch_sg_key_is_clear 100 1000 patch_boot"
  by code_simp+

lemma demo_lockout: "lockout_inv (gw_lockout (demo_world p))" "enc_lockout_is_blocked False 1000 True (gw_lockout (demo_world p))"
  using lockout_inv_note [OF lockout_inv_init, of 50 1000 True "0x84" 1] note_locks [OF lockout_inv_init, of 1000 True 50 "0x84" 1]
  by (simp_all add: demo_world_def enc_lockout_is_blocked_def)

lemma demo_svc: "svc_is_enc 64" "\<not> svc_is_data 64" "\<not> svc_is_enc 0" "\<not> svc_is_data 0"
  by code_simp+

lemma demo_voice:
  assumes "p = demo_patch \<or> p = patch_boot" "svc = 0 \<or> svc = 64"
  shows "voice_grant (demo_grant True svc) (demo_world p)"
  using assms demo_patch_parts demo_svc
  by (auto simp: voice_grant_def demo_grant_def event_defs demo_world_def eval_ctx_from_event_def p25_grant_ota_target_id_def patch_key_clear_def Let_def)

lemma demo_target: "p25_grant_ota_target_id (demo_grant True svc) = 1000" "ev_is_group (demo_grant True svc)"
  by (simp_all add: p25_grant_ota_target_id_def demo_grant_def event_defs)

lemma demo_clear: "explicit_clear (demo_grant True 0)" "\<not> explicit_clear (demo_grant True 64)"
  using demo_svc by (simp_all add: explicit_clear_def demo_grant_def event_defs p25_sm_svc_bits_valid_def)

lemma demo_members: "policy_targets (demo_world patch_boot) 1000 = [1000]" "policy_targets (demo_world demo_patch) 1000 = [1000, 5]"
  by (simp_all add: policy_targets_def grant_patch_members_def demo_world_def demo_patch_parts)

lemma locked_target_is_refused_witness:
  "grant_allowed True (demo_grant True 64) (demo_world patch_boot)
     = (demo_world patch_boot, False, snd (snd (grant_allowed True (demo_grant True 64) (demo_world patch_boot))))"
  using locked_target_is_refused [OF demo_voice [of patch_boot 64], of True] demo_lockout(2) demo_clear(2) demo_members(1)
  by (simp add: demo_target prod_eq_iff)

lemma free_member: "\<not> enc_lockout_is_blocked False 5 True (gw_lockout (demo_world p))"
  by code_simp

lemma demo_member_tune:
  "\<not> ge_data_call e \<Longrightarrow> td_tune (group_verdict ev (e\<lparr>ge_encrypted_call := False\<rparr>) (demo_world p) 5)"
  unfolding group_verdict_def group_parts(1)
  using free_member
  by (simp add: group_refusals_def demo_world_def tg_lookup_id_def tg_avoid_contains_def group_mode_blocked_def no_lookup_def hold_blocks_def)

lemma supergroup_lockout_is_evaded_witness:
  "fst (snd (grant_allowed True (demo_grant True 64) (demo_world demo_patch)))
    \<and> enc_lockout_is_blocked False 1000 True (gw_lockout (fst (grant_allowed True (demo_grant True 64) (demo_world demo_patch))))"
  using supergroup_lockout_is_evaded [OF demo_voice [of demo_patch 64], where m = 5 and commit = True] demo_lockout(2) demo_clear(2) demo_members(2)
    demo_member_tune [OF evaluated_parts(3) [OF demo_voice [of demo_patch 64]]]
  by (auto simp: demo_target split: prod.splits)

lemma best_member_decides_witness:
  "td_target (eval_group_policy (demo_grant True 64) ((evaluated (demo_grant True 64) (demo_world demo_patch))\<lparr>ge_encrypted_call := False\<rparr>)
     (demo_world demo_patch)) = 5"
proof -
  let ?e = "(evaluated (demo_grant True 64) (demo_world demo_patch))\<lparr>ge_encrypted_call := False\<rparr>"
  note p = evaluated_parts [OF demo_voice [of demo_patch 64]]
  have t: "td_tune (group_verdict (demo_grant True 64) ?e (demo_world demo_patch) 5)"
    by (rule demo_member_tune) (use p(3) in simp)
  moreover have "\<not> td_tune (group_verdict (demo_grant True 64) ?e (demo_world demo_patch) 1000)"
    unfolding group_verdict_def using group_tune demo_lockout(2) p(3) by (fastforce simp: demo_world_def)
  moreover have "policy_targets (demo_world demo_patch) (ge_tg ?e) = [1000, 5]"
    using p(1) demo_members(2) by (simp add: demo_target)
  ultimately show ?thesis
    using best_member_decides [of "demo_grant True 64" ?e "demo_world demo_patch"] by (auto simp: Let_def verdict_target)
qed

lemma repeated_update_defeats_rest_witness:
  "grant_reprobes (demo_grant True 0) (relocked (demo_grant True 0) 102 0x84 1
      (grant_after (demo_grant True 0) (grant_taken (demo_grant True 0) (demo_world patch_boot))))"
proof -
  have "\<not> enc_reprobe_in_cooldown 1000 True 100 memo_boot"
    unfolding cooldown_iff [OF memo_boot_ok(1)] by (auto simp: memo_boot_def memo_matches_def) (simp add: zero_memo_def)
  then show ?thesis
    using repeated_update_defeats_rest [OF demo_voice [of patch_boot 0] demo_clear(1), of 102] demo_lockout memo_boot_ok
    by (auto simp: demo_target demo_world_def)
qed

lemma private_grant_enters_group_table_witness:
  "ga_seen (gw_ga (fst (grant_allowed True (demo_grant False 0) (demo_world patch_boot)))) (9, 4464) = Some 100"
proof -
  let ?e = "evaluated (demo_grant False 0) (demo_world patch_boot)"
  obtain w' a d e where g: "grant_allowed True (demo_grant False 0) (demo_world patch_boot) = (w', a, d, e)" by (metis prod_cases4)
  have "fst (snd (grant_allowed True (demo_grant False 0) (demo_world patch_boot)))" by code_simp
  with g have "grant_allowed True (demo_grant False 0) (demo_world patch_boot) = (w', True, d, e)" by simp
  from private_grant_enters_group_table [OF this] boot_ok(2) have
    "ga_seen (gw_ga w') (word_of_int 9, word_of_int 70000) = Some 100"
    by (simp add: demo_grant_def event_defs demo_world_def)
  moreover have low: "(word_of_int 70000 :: u16) = 4464" "(word_of_int 9 :: u32) = 9" by code_simp+
  ultimately have "ga_seen (gw_ga w') (9, 4464) = Some 100" unfolding low by blast
  then show ?thesis using g by (metis fst_conv)
qed

end
