(* ===== verification/Des_Cipher.thy ===== *)
theory Des_Cipher
  imports Prelude
begin

text \<open>
  DES and the key streams made from it, in \<open>src/crypto/crypt-des.c\<close>. Registers and keys are lists of bytes;
  a table of bit positions counts from 1 with the most significant bit first. What a function writes to a
  zeroed buffer is its result. The lemmas read a list of bytes as bits; a round is undone by itself with the
  halves exchanged, so decryption inverts encryption.
\<close>

unbundle bit_operations_syntax

section \<open>Tables\<close>

definition SLUT1 :: "u8 list" where
  "SLUT1 =
   [0xE0, 0x00, 0x40, 0xF0, 0xD0, 0x70, 0x10, 0x40, 0x20, 0xE0, 0xF0, 0x20, 0xB0, 0xD0, 0x80, 0x10, 0x30, 0xA0,
    0xA0, 0x60, 0x60, 0xC0, 0xC0, 0xB0, 0x50, 0x90, 0x90, 0x50, 0x00, 0x30, 0x70, 0x80, 0x40, 0xF0, 0x10, 0xC0,
    0xE0, 0x80, 0x80, 0x20, 0xD0, 0x40, 0x60, 0x90, 0x20, 0x10, 0xB0, 0x70, 0xF0, 0x50, 0xC0, 0xB0, 0x90, 0x30,
    0x70, 0xE0, 0x30, 0xA0, 0xA0, 0x00, 0x50, 0x60, 0x00, 0xD0]"

definition SLUT2 :: "u8 list" where
  "SLUT2 =
   [0x0F, 0x03, 0x01, 0x0D, 0x08, 0x04, 0x0E, 0x07, 0x06, 0x0F, 0x0B, 0x02, 0x03, 0x08, 0x04, 0x0E, 0x09, 0x0C,
    0x07, 0x00, 0x02, 0x01, 0x0D, 0x0A, 0x0C, 0x06, 0x00, 0x09, 0x05, 0x0B, 0x0A, 0x05, 0x00, 0x0D, 0x0E, 0x08,
    0x07, 0x0A, 0x0B, 0x01, 0x0A, 0x03, 0x04, 0x0F, 0x0D, 0x04, 0x01, 0x02, 0x05, 0x0B, 0x08, 0x06, 0x0C, 0x07,
    0x06, 0x0C, 0x09, 0x00, 0x03, 0x05, 0x02, 0x0E, 0x0F, 0x09]"

definition SLUT3 :: "u8 list" where
  "SLUT3 =
   [0xA0, 0xD0, 0x00, 0x70, 0x90, 0x00, 0xE0, 0x90, 0x60, 0x30, 0x30, 0x40, 0xF0, 0x60, 0x50, 0xA0, 0x10, 0x20,
    0xD0, 0x80, 0xC0, 0x50, 0x70, 0xE0, 0xB0, 0xC0, 0x40, 0xB0, 0x20, 0xF0, 0x80, 0x10, 0xD0, 0x10, 0x60, 0xA0,
    0x40, 0xD0, 0x90, 0x00, 0x80, 0x60, 0xF0, 0x90, 0x30, 0x80, 0x00, 0x70, 0xB0, 0x40, 0x10, 0xF0, 0x20, 0xE0,
    0xC0, 0x30, 0x50, 0xB0, 0xA0, 0x50, 0xE0, 0x20, 0x70, 0xC0]"

definition SLUT4 :: "u8 list" where
  "SLUT4 =
   [0x07, 0x0D, 0x0D, 0x08, 0x0E, 0x0B, 0x03, 0x05, 0x00, 0x06, 0x06, 0x0F, 0x09, 0x00, 0x0A, 0x03, 0x01, 0x04,
    0x02, 0x07, 0x08, 0x02, 0x05, 0x0C, 0x0B, 0x01, 0x0C, 0x0A, 0x04, 0x0E, 0x0F, 0x09, 0x0A, 0x03, 0x06, 0x0F,
    0x09, 0x00, 0x00, 0x06, 0x0C, 0x0A, 0x0B, 0x01, 0x07, 0x0D, 0x0D, 0x08, 0x0F, 0x09, 0x01, 0x04, 0x03, 0x05,
    0x0E, 0x0B, 0x05, 0x0C, 0x02, 0x07, 0x08, 0x02, 0x04, 0x0E]"

definition SLUT5 :: "u8 list" where
  "SLUT5 =
   [0x20, 0xE0, 0xC0, 0xB0, 0x40, 0x20, 0x10, 0xC0, 0x70, 0x40, 0xA0, 0x70, 0xB0, 0xD0, 0x60, 0x10, 0x80, 0x50,
    0x50, 0x00, 0x30, 0xF0, 0xF0, 0xA0, 0xD0, 0x30, 0x00, 0x90, 0xE0, 0x80, 0x90, 0x60, 0x40, 0xB0, 0x20, 0x80,
    0x10, 0xC0, 0xB0, 0x70, 0xA0, 0x10, 0xD0, 0xE0, 0x70, 0x20, 0x80, 0xD0, 0xF0, 0x60, 0x90, 0xF0, 0xC0, 0x00,
    0x50, 0x90, 0x60, 0xA0, 0x30, 0x40, 0x00, 0x50, 0xE0, 0x30]"

definition SLUT6 :: "u8 list" where
  "SLUT6 =
   [0x0C, 0x0A, 0x01, 0x0F, 0x0A, 0x04, 0x0F, 0x02, 0x09, 0x07, 0x02, 0x0C, 0x06, 0x09, 0x08, 0x05, 0x00, 0x06,
    0x0D, 0x01, 0x03, 0x0D, 0x04, 0x0E, 0x0E, 0x00, 0x07, 0x0B, 0x05, 0x03, 0x0B, 0x08, 0x09, 0x04, 0x0E, 0x03,
    0x0F, 0x02, 0x05, 0x0C, 0x02, 0x09, 0x08, 0x05, 0x0C, 0x0F, 0x03, 0x0A, 0x07, 0x0B, 0x00, 0x0E, 0x04, 0x01,
    0x0A, 0x07, 0x01, 0x06, 0x0D, 0x00, 0x0B, 0x08, 0x06, 0x0D]"

definition SLUT7 :: "u8 list" where
  "SLUT7 =
   [0x40, 0xD0, 0xB0, 0x00, 0x20, 0xB0, 0xE0, 0x70, 0xF0, 0x40, 0x00, 0x90, 0x80, 0x10, 0xD0, 0xA0, 0x30, 0xE0,
    0xC0, 0x30, 0x90, 0x50, 0x70, 0xC0, 0x50, 0x20, 0xA0, 0xF0, 0x60, 0x80, 0x10, 0x60, 0x10, 0x60, 0x40, 0xB0,
    0xB0, 0xD0, 0xD0, 0x80, 0xC0, 0x10, 0x30, 0x40, 0x70, 0xA0, 0xE0, 0x70, 0xA0, 0x90, 0xF0, 0x50, 0x60, 0x00,
    0x80, 0xF0, 0x00, 0xE0, 0x50, 0x20, 0x90, 0x30, 0x20, 0xC0]"

definition SLUT8 :: "u8 list" where
  "SLUT8 =
   [0x0D, 0x01, 0x02, 0x0F, 0x08, 0x0D, 0x04, 0x08, 0x06, 0x0A, 0x0F, 0x03, 0x0B, 0x07, 0x01, 0x04, 0x0A, 0x0C,
    0x09, 0x05, 0x03, 0x06, 0x0E, 0x0B, 0x05, 0x00, 0x00, 0x0E, 0x0C, 0x09, 0x07, 0x02, 0x07, 0x02, 0x0B, 0x01,
    0x04, 0x0E, 0x01, 0x07, 0x09, 0x04, 0x0C, 0x0A, 0x0E, 0x08, 0x02, 0x0D, 0x00, 0x0F, 0x06, 0x0C, 0x0A, 0x09,
    0x0D, 0x00, 0x0F, 0x03, 0x03, 0x05, 0x05, 0x06, 0x08, 0x0B]"

definition initial_register_permutation :: "nat list" where
  "initial_register_permutation =
   [58, 50, 42, 34, 26, 18, 10, 2, 60, 52, 44, 36, 28, 20, 12, 4, 62, 54, 46, 38, 30, 22, 14, 6, 64, 56, 48,
    40, 32, 24, 16, 8, 57, 49, 41, 33, 25, 17, 9, 1, 59, 51, 43, 35, 27, 19, 11, 3, 61, 53, 45, 37, 29, 21, 13,
    5, 63, 55, 47, 39, 31, 23, 15, 7]"

definition message_expansion :: "nat list" where
  "message_expansion =
   [32, 1, 2, 3, 4, 5, 4, 5, 6, 7, 8, 9, 8, 9, 10, 11, 12, 13, 12, 13, 14, 15, 16, 17, 16, 17, 18, 19, 20, 21,
    20, 21, 22, 23, 24, 25, 24, 25, 26, 27, 28, 29, 28, 29, 30, 31, 32, 1]"

definition right_half_permutation :: "nat list" where
  "right_half_permutation =
   [16, 7, 20, 21, 29, 12, 28, 17, 1, 15, 23, 26, 5, 18, 31, 10, 2, 8, 24, 14, 32, 27, 3, 9, 19, 13, 30, 6, 22,
    11, 4, 25]"

definition final_register_permutation :: "nat list" where
  "final_register_permutation =
   [40, 8, 48, 16, 56, 24, 64, 32, 39, 7, 47, 15, 55, 23, 63, 31, 38, 6, 46, 14, 54, 22, 62, 30, 37, 5, 45, 13,
    53, 21, 61, 29, 36, 4, 44, 12, 52, 20, 60, 28, 35, 3, 43, 11, 51, 19, 59, 27, 34, 2, 42, 10, 50, 18, 58,
    26, 33, 1, 41, 9, 49, 17, 57, 25]"

definition pc1_key_permutation :: "nat list" where
  "pc1_key_permutation =
   [57, 49, 41, 33, 25, 17, 9, 1, 58, 50, 42, 34, 26, 18, 10, 2, 59, 51, 43, 35, 27, 19, 11, 3, 60, 52, 44, 36,
    63, 55, 47, 39, 31, 23, 15, 7, 62, 54, 46, 38, 30, 22, 14, 6, 61, 53, 45, 37, 29, 21, 13, 5, 28, 20, 12, 4]"

definition pc2_key_permutation :: "nat list" where
  "pc2_key_permutation =
   [14, 17, 11, 24, 1, 5, 3, 28, 15, 6, 21, 10, 23, 19, 12, 4, 26, 8, 16, 7, 27, 20, 13, 2, 13, 24, 3, 9, 19,
    27, 2, 12, 23, 17, 5, 20, 16, 21, 11, 28, 6, 25, 18, 14, 22, 8, 1, 4]"

definition key_shift_sizes :: "nat list" where
  "key_shift_sizes =
   [1, 1, 1, 2, 2, 2, 2, 2, 2, 1, 2, 2, 2, 2, 2, 2, 1]"

definition key_shift_bytes :: "u8 list" where
  "key_shift_bytes =
   [0x80, 0x80, 0x80, 0xC0, 0xC0, 0xC0, 0xC0, 0xC0, 0xC0, 0x80, 0xC0, 0xC0, 0xC0, 0xC0, 0xC0, 0xC0, 0x80]"

definition key_shift_x :: "nat list" where "key_shift_x = [8, 8, 8, 4]"
definition key_shift_y :: "nat list" where "key_shift_y = [1, 2, 3, 0]"

section \<open>Bytes and bits\<close>

definition permute_bit :: "u8 list \<Rightarrow> nat list \<Rightarrow> nat \<Rightarrow> u8" where
  "permute_bit input table i =
     (let tdiv = (table ! i - 1) div 8; tmod = (table ! i - 1) mod 8
      in drop_bit (i mod 8) (push_bit tmod (input ! tdiv AND drop_bit tmod 0x80)))"

definition permute :: "u8 list \<Rightarrow> u8 list \<Rightarrow> nat list \<Rightarrow> nat \<Rightarrow> nat \<Rightarrow> u8 list" where
  "permute input output table start end' =
     foldl (\<lambda>out i. out[i div 8 := out ! (i div 8) OR permute_bit input table i]) output [start..<end']"

definition zeros :: "nat \<Rightarrow> u8 list" where
  "zeros n = replicate n 0"

definition xor_bytes :: "u8 list \<Rightarrow> u8 list \<Rightarrow> u8 list" where
  "xor_bytes xs ys = map2 (XOR) xs ys"

section \<open>The key schedule\<close>

text \<open>One half of \<open>rotate_sub_keys\<close>, which treats \<open>Kc\<close> and \<open>Kd\<close> alike.\<close>

definition rotate_half :: "nat \<Rightarrow> u8 \<Rightarrow> u8 list \<Rightarrow> u8 list" where
  "rotate_half shift_size shift_byte K =
     (let sb = map (\<lambda>k. shift_byte AND k) K
      in map (\<lambda>i. push_bit shift_size (K ! i) OR drop_bit (key_shift_x ! i - shift_size) (sb ! (key_shift_y ! i))) [0..<4])"

definition rotate_sub_keys :: "nat \<Rightarrow> u8 \<Rightarrow> u8 list \<times> u8 list \<Rightarrow> u8 list \<times> u8 list" where
  "rotate_sub_keys shift_size shift_byte K = (case K of (Kc, Kd) \<Rightarrow> (rotate_half shift_size shift_byte Kc, rotate_half shift_size shift_byte Kd))"

definition split_key :: "u8 list \<Rightarrow> u8 list \<times> u8 list" where
  "split_key k = ([k ! 0, k ! 1, k ! 2, k ! 3 AND 0xF0],
     map (\<lambda>i. push_bit 4 (k ! (i + 3) AND 0x0F) OR drop_bit 4 (k ! (i + 4) AND 0xF0)) [0..<3] @ [push_bit 4 (k ! 6 AND 0x0F)])"

fun round_keys_from :: "nat \<Rightarrow> nat \<Rightarrow> u8 list \<times> u8 list \<Rightarrow> u8 list list" where
  "round_keys_from i 0 K = []"
| "round_keys_from i (Suc n) K =
     (case rotate_sub_keys (key_shift_sizes ! (i + 1)) (key_shift_bytes ! (i + 1)) K of
        (Kc, Kd) \<Rightarrow> permute Kd (permute Kc (zeros 7) pc2_key_permutation 0 24) pc2_key_permutation 24 48
                    # round_keys_from (Suc i) n (Kc, Kd))"

definition des_prepare_round_keys :: "u8 list \<Rightarrow> u8 list list" where
  "des_prepare_round_keys main_key = round_keys_from 0 16 (split_key (permute main_key (zeros 7) pc1_key_permutation 0 56))"

section \<open>The cipher\<close>

definition sbox_indices :: "u8 list \<Rightarrow> u8 list" where
  "sbox_indices e =
     [drop_bit 2 (e ! 0), push_bit 4 (e ! 0 AND 0x3) OR drop_bit 4 (e ! 1), push_bit 2 (e ! 1 AND 0xF) OR drop_bit 6 (e ! 2), e ! 2 AND 0x3F,
      drop_bit 2 (e ! 3), push_bit 4 (e ! 3 AND 0x3) OR drop_bit 4 (e ! 4), push_bit 2 (e ! 4 AND 0xF) OR drop_bit 6 (e ! 5), e ! 5 AND 0x3F]"

definition sbox_select :: "u8 list \<Rightarrow> u8 list" where
  "sbox_select e =
     (let s = map unat (sbox_indices e)
      in [SLUT1 ! (s ! 0) OR SLUT2 ! (s ! 1), SLUT3 ! (s ! 2) OR SLUT4 ! (s ! 3),
          SLUT5 ! (s ! 4) OR SLUT6 ! (s ! 5), SLUT7 ! (s ! 6) OR SLUT8 ! (s ! 7)])"

definition round_function :: "u8 list \<Rightarrow> u8 list \<Rightarrow> u8 list" where
  "round_function right k =
     (let e = permute right (zeros 6) message_expansion 0 48
      in permute (sbox_select (xor_bytes e (take 6 k))) (zeros 4) right_half_permutation 0 32)"

definition des_round :: "u8 list \<times> u8 list \<Rightarrow> u8 list \<Rightarrow> u8 list \<times> u8 list" where
  "des_round lr k = (case lr of (left, right) \<Rightarrow> (right, xor_bytes (round_function right k) left))"

text \<open>\<open>de\<close> is 1 to encrypt; the round keys are then taken forward, otherwise backward.\<close>

definition des_cipher :: "u8 list \<Rightarrow> u8 list \<Rightarrow> u8 list \<Rightarrow> u8 \<Rightarrow> u8 list" where
  "des_cipher main_key input_register output_register de =
     (let Ks = des_prepare_round_keys main_key;
          ip = permute input_register (zeros 8) initial_register_permutation 0 64;
          (left, right) = foldl des_round (take 4 ip, drop 4 ip) (map (\<lambda>f. if de = 1 then Ks ! f else Ks ! (15 - f)) [0..<16])
      in permute (right @ left) output_register final_register_permutation 0 64)"

section \<open>Key streams\<close>

fun ofb_blocks :: "nat \<Rightarrow> u8 list \<Rightarrow> u8 list \<Rightarrow> u8 \<Rightarrow> u8 list" where
  "ofb_blocks 0 main_key input_register de = []"
| "ofb_blocks (Suc n) main_key input_register de =
     (let out = des_cipher main_key input_register (zeros 8) de in out @ ofb_blocks n main_key out de)"

definition des56_ofb_keystream_output :: "u8 list \<Rightarrow> u8 list \<Rightarrow> u8 \<Rightarrow> nat \<Rightarrow> u8 list" where
  "des56_ofb_keystream_output main_key iv de nblocks = ofb_blocks nblocks main_key (take 8 iv) de"

definition flip_de :: "u8 \<Rightarrow> u8" where
  "flip_de de = (de XOR 1) AND 1"

fun tofb_blocks :: "nat \<Rightarrow> u8 list \<Rightarrow> u8 list \<Rightarrow> u8 list \<Rightarrow> u8 list \<Rightarrow> u8 \<Rightarrow> u8 list" where
  "tofb_blocks 0 K1 K2 K3 input_register de = []"
| "tofb_blocks (Suc n) K1 K2 K3 input_register de =
     (let r1 = des_cipher K1 input_register (zeros 8) de;
          r2 = des_cipher K2 r1 (zeros 8) (flip_de de);
          r3 = des_cipher K3 r2 (zeros 8) (flip_de (flip_de de))
      in r3 @ tofb_blocks n K1 K2 K3 r3 (flip_de (flip_de de)))"

definition tdea_tofb_keystream_output_bytes :: "u8 list \<Rightarrow> u8 list \<Rightarrow> u8 list \<Rightarrow> u8 list \<Rightarrow> u8 \<Rightarrow> nat \<Rightarrow> u8 list" where
  "tdea_tofb_keystream_output_bytes K1 K2 K3 iv de nblocks = tofb_blocks nblocks K1 K2 K3 (take 8 iv) de"

definition bytes_of_u64 :: "u64 \<Rightarrow> u8 list" where
  "bytes_of_u64 w = map (\<lambda>i. ucast (drop_bit (8 * i) w AND 0xFF)) (rev [0..<8])"

definition des_ofb_keystream_output :: "u64 \<Rightarrow> u64 \<Rightarrow> nat \<Rightarrow> u8 list" where
  "des_ofb_keystream_output mi key nblocks = des56_ofb_keystream_output (bytes_of_u64 key) (bytes_of_u64 mi) 1 nblocks"

definition tdea_tofb_keystream_output :: "u64 \<Rightarrow> u8 list \<Rightarrow> nat \<Rightarrow> u8 list" where
  "tdea_tofb_keystream_output mi key nblocks =
     tdea_tofb_keystream_output_bytes (take 8 key) (take 8 (drop 8 key)) (take 8 (drop 16 key)) (bytes_of_u64 mi) 1 nblocks"

text \<open>The shift register with taps 63, 61, 45, 37, 26 and 14, and its use for one-bit output.\<close>

definition lfsr64_bit :: "u64 \<Rightarrow> u64" where
  "lfsr64_bit r = (drop_bit 63 r XOR drop_bit 61 r XOR drop_bit 45 r XOR drop_bit 37 r XOR drop_bit 26 r XOR drop_bit 14 r) AND 1"

definition lfsr64_step :: "u64 \<Rightarrow> u64" where
  "lfsr64_step r = push_bit 1 r OR lfsr64_bit r"

definition u64_of_bytes :: "u8 list \<Rightarrow> u64" where
  "u64_of_bytes iv = foldl (\<lambda>w i. w + push_bit (56 - 8 * i) (ucast (iv ! i))) 0 [0..<8]"

definition lfsr_64_to_len_ca :: "nat \<Rightarrow> u8 list \<Rightarrow> u8 list" where
  "lfsr_64_to_len_ca len iv = map (\<lambda>i. ucast (drop_bit (56 - 8 * i) ((lfsr64_step ^^ len) (u64_of_bytes iv)) AND 0xFF)) [0..<8]"

fun ca_bits :: "nat \<Rightarrow> u8 list \<Rightarrow> u8 list \<Rightarrow> u8 \<Rightarrow> u8 list" where
  "ca_bits 0 main_key input_register de = []"
| "ca_bits (Suc n) main_key input_register de =
     (drop_bit 7 (des_cipher main_key input_register (zeros 8) de ! 0) AND 1)
     # ca_bits n main_key (lfsr_64_to_len_ca 1 input_register) de"

text \<open>Each bit is shifted into its byte of the buffer, which keeps what it held before in a byte that is not filled.\<close>

definition pack_bits :: "u8 list \<Rightarrow> u8 list \<Rightarrow> u8 list" where
  "pack_bits ks bits = foldl (\<lambda>ks i. ks[i div 8 := push_bit 1 (ks ! (i div 8)) OR bits ! i]) ks [0..<length bits]"

definition des56_ca_keystream_output :: "u8 list \<Rightarrow> u8 list \<Rightarrow> u8 list \<Rightarrow> u8 \<Rightarrow> nat \<Rightarrow> nat \<Rightarrow> u8 list" where
  "des56_ca_keystream_output main_key iv ks_bytes de ff nbits =
     pack_bits ks_bytes (ca_bits nbits main_key (lfsr_64_to_len_ca ff (take 8 iv)) de)"

definition des_xl_keystream_output :: "u64 \<Rightarrow> u64 \<Rightarrow> u8 list \<Rightarrow> bool \<Rightarrow> u8 list" where
  "des_xl_keystream_output mi key output late_entry =
     des56_ca_keystream_output (bytes_of_u64 key) (bytes_of_u64 mi) output 1 (110 + (if \<not> late_entry then 696 else 0)) 1704"

section \<open>Registers as bits\<close>

definition getb :: "u8 list \<Rightarrow> nat \<Rightarrow> bool" where
  "getb xs i = bit (xs ! (i div 8)) (7 - i mod 8)"

lemma bit_top: "bit (0x80 :: u8) k \<longleftrightarrow> k = 7"
proof -
  have "(0x80 :: u8) = push_bit 7 1" by simp
  then show ?thesis by (simp only: bit_push_bit_iff bit_1_iff) auto
qed

lemma permute_bit_bit:
  "bit (permute_bit input table i) n \<longleftrightarrow> n = 7 - i mod 8 \<and> getb input (table ! i - 1)"
proof -
  have t: "(table ! i - 1) mod 8 < 8" "i mod 8 < 8" by simp_all
  show ?thesis
    using t unfolding permute_bit_def Let_def getb_def bit_drop_bit_eq comp_def bit_push_bit_iff bit_and_iff bit_top
    by (cases "n + i mod 8 = 7") (auto simp: add.commute)
qed

lemma getb_eqI:
  assumes "length xs = length ys" "\<And>i. i < 8 * length xs \<Longrightarrow> getb xs i = getb ys i"
  shows "xs = ys"
proof (rule nth_equalityI [OF assms(1)])
  fix k assume k: "k < length xs"
  show "xs ! k = ys ! k"
  proof (rule bit_eqI)
    fix n :: nat assume "possible_bit TYPE(u8) n"
    then have n: "n < 8" by (simp add: possible_bit_def)
    define m where "m = 7 - n"
    then have m: "m < 8" "n = 7 - m" using n by simp_all
    then have "(8 * k + m) div 8 = k" "(8 * k + m) mod 8 = m" by simp_all
    then show "bit (xs ! k) n \<longleftrightarrow> bit (ys ! k) n"
      using assms(2) [of "8 * k + m"] k m by (simp add: getb_def)
  qed
qed

lemma permute_fold_length: "length (foldl (\<lambda>out i. out[i div 8 := out ! (i div 8) OR permute_bit input table i]) buf xs) = length buf"
  by (induction xs arbitrary: buf) simp_all

lemma permute_length [simp]: "length (permute input output table a b) = length output"
  by (simp add: permute_def permute_fold_length)

lemma permute_Suc: "a \<le> b \<Longrightarrow> permute input output table a (Suc b) =
    (permute input output table a b)[b div 8 := permute input output table a b ! (b div 8) OR permute_bit input table b]"
  by (simp add: permute_def)

text \<open>What a permutation writes: the bits of its range, beside what the buffer held.\<close>

lemma permute_getb:
  assumes "b \<le> 8 * length output" "a \<le> b" "j < 8 * length output"
  shows "getb (permute input output table a b) j \<longleftrightarrow> getb output j \<or> (a \<le> j \<and> j < b \<and> getb input (table ! j - 1))"
  using assms(1,2)
proof (induction b)
  case 0
  then show ?case by (simp add: permute_def)
next
  case (Suc b)
  show ?case
  proof (cases "a \<le> b")
    case True
    let ?p = "permute input output table a b"
    have IH: "getb ?p j \<longleftrightarrow> getb output j \<or> (a \<le> j \<and> j < b \<and> getb input (table ! j - 1))" using Suc True by simp
    have b: "b div 8 < length output" using Suc.prems(1) by linarith
    have "getb (?p[b div 8 := ?p ! (b div 8) OR permute_bit input table b]) j \<longleftrightarrow> getb ?p j \<or> (j = b \<and> getb input (table ! j - 1))"
    proof (cases "j div 8 = b div 8")
      case same: True
      have "j mod 8 < 8" "b mod 8 < 8" by simp_all
      then have "7 - j mod 8 = 7 - b mod 8 \<longleftrightarrow> j mod 8 = b mod 8" by arith
      then have "7 - j mod 8 = 7 - b mod 8 \<longleftrightarrow> j = b" using same by (metis div_mult_mod_eq)
      then show ?thesis using same b by (auto simp: getb_def bit_or_iff permute_bit_bit)
    next
      case False
      then have "j \<noteq> b" by auto
      with False show ?thesis by (simp add: getb_def)
    qed
    then show ?thesis unfolding permute_Suc [OF True] using IH True by auto
  next
    case False
    then have "a = Suc b" using Suc.prems by simp
    then show ?thesis by (auto simp: permute_def)
  qed
qed

lemma getb_zeros [simp]: "i < 8 * n \<Longrightarrow> \<not> getb (zeros n) i"
proof -
  assume "i < 8 * n"
  then have "i div 8 < n" by linarith
  then show ?thesis by (simp add: getb_def zeros_def)
qed

lemma zeros_length [simp]: "length (zeros n) = n"
  by (simp add: zeros_def)

text \<open>The two register permutations undo each other.\<close>

lemma permutations_inverse:
  "i < 64 \<Longrightarrow> initial_register_permutation ! i - Suc 0 < 64 \<and> final_register_permutation ! (initial_register_permutation ! i - Suc 0) = Suc i"
  "i < 64 \<Longrightarrow> final_register_permutation ! i - Suc 0 < 64 \<and> initial_register_permutation ! (final_register_permutation ! i - Suc 0) = Suc i"
proof -
  have "list_all (\<lambda>i. initial_register_permutation ! i - Suc 0 < 64 \<and> final_register_permutation ! (initial_register_permutation ! i - Suc 0) = Suc i
      \<and> final_register_permutation ! i - Suc 0 < 64 \<and> initial_register_permutation ! (final_register_permutation ! i - Suc 0) = Suc i) [0..<64]"
    by code_simp
  then show "i < 64 \<Longrightarrow> initial_register_permutation ! i - Suc 0 < 64 \<and> final_register_permutation ! (initial_register_permutation ! i - Suc 0) = Suc i"
    "i < 64 \<Longrightarrow> final_register_permutation ! i - Suc 0 < 64 \<and> initial_register_permutation ! (final_register_permutation ! i - Suc 0) = Suc i"
    by (simp_all add: list_all_iff)
qed

definition initial_perm :: "u8 list \<Rightarrow> u8 list" where "initial_perm x = permute x (zeros 8) initial_register_permutation 0 64"
definition final_perm :: "u8 list \<Rightarrow> u8 list" where "final_perm x = permute x (zeros 8) final_register_permutation 0 64"

lemma perm_lengths [simp]: "length (initial_perm x) = 8" "length (final_perm x) = 8"
  by (simp_all add: initial_perm_def final_perm_def)

lemma perm_getb:
  "i < 64 \<Longrightarrow> getb (initial_perm x) i = getb x (initial_register_permutation ! i - 1)"
  "i < 64 \<Longrightarrow> getb (final_perm x) i = getb x (final_register_permutation ! i - 1)"
  by (simp_all add: initial_perm_def final_perm_def permute_getb)

lemma perms_cancel: "length x = 8 \<Longrightarrow> final_perm (initial_perm x) = x" "length x = 8 \<Longrightarrow> initial_perm (final_perm x) = x"
  by (rule getb_eqI; simp add: perm_getb permutations_inverse)+

section \<open>Decryption inverts encryption\<close>

lemma xor_bytes_length [simp]: "length (xor_bytes xs ys) = min (length xs) (length ys)"
  by (simp add: xor_bytes_def)

lemma xor_bytes_cancel: "length xs = length ys \<Longrightarrow> xor_bytes xs (xor_bytes xs ys) = ys"
  by (rule nth_equalityI) (simp_all add: xor_bytes_def xor.assoc [symmetric])

lemma round_function_length [simp]: "length (round_function r k) = 4"
  by (simp add: round_function_def Let_def)

lemma des_round_length: "length (fst lr) = 4 \<Longrightarrow> length (snd lr) = 4 \<Longrightarrow> length (fst (des_round lr k)) = 4 \<and> length (snd (des_round lr k)) = 4"
  by (cases lr) (simp add: des_round_def)

lemma des_rounds_length:
  "length (fst lr) = 4 \<Longrightarrow> length (snd lr) = 4 \<Longrightarrow> length (fst (foldl des_round lr ks)) = 4 \<and> length (snd (foldl des_round lr ks)) = 4"
proof (induction ks arbitrary: lr)
  case (Cons k ks)
  show ?case using Cons.IH [of "des_round lr k"] des_round_length [OF Cons.prems] by simp
qed simp

text \<open>A round, with the halves exchanged before and after, is its own inverse; so are all of them in reverse.\<close>

lemma des_round_undone:
  "length (fst lr) = 4 \<Longrightarrow> length (snd lr) = 4 \<Longrightarrow> des_round (prod.swap (des_round lr k)) k = prod.swap lr"
  by (cases lr) (simp add: des_round_def xor_bytes_cancel)

lemma des_rounds_undone:
  "length (fst lr) = 4 \<Longrightarrow> length (snd lr) = 4 \<Longrightarrow> foldl des_round (prod.swap (foldl des_round lr ks)) (rev ks) = prod.swap lr"
proof (induction ks arbitrary: lr)
  case (Cons k ks)
  then show ?case using Cons.IH [of "des_round lr k"] des_round_length [of lr k] by (simp add: des_round_undone)
qed simp

lemma round_keys_length: "length (round_keys_from i n K) = n"
  by (induction n arbitrary: i K) (simp_all split: prod.split)

lemma key_order:
  "rev (map (\<lambda>f. des_prepare_round_keys key ! f) [0..<16]) = map (\<lambda>f. des_prepare_round_keys key ! (15 - f)) [0..<16]"
  by (rule nth_equalityI) (simp_all add: rev_nth)

definition des_rounds :: "u8 list list \<Rightarrow> u8 list \<Rightarrow> u8 list" where
  "des_rounds ks x = (case foldl des_round (take 4 x, drop 4 x) ks of (left, right) \<Rightarrow> right @ left)"

lemma des_cipher_parts:
  "des_cipher key x (zeros 8) 1 = final_perm (des_rounds (map (\<lambda>f. des_prepare_round_keys key ! f) [0..<16]) (initial_perm x))"
  "de \<noteq> 1 \<Longrightarrow> des_cipher key x (zeros 8) de = final_perm (des_rounds (rev (map (\<lambda>f. des_prepare_round_keys key ! f) [0..<16])) (initial_perm x))"
  unfolding key_order by (simp_all add: des_cipher_def des_rounds_def final_perm_def initial_perm_def Let_def split: prod.split)

lemma des_rounds_inverse:
  assumes "length x = 8"
  shows "des_rounds (rev ks) (des_rounds ks x) = x" "length (des_rounds ks x) = 8"
proof -
  let ?lr = "foldl des_round (take 4 x, drop 4 x) ks"
  have l: "length (fst ?lr) = 4 \<and> length (snd ?lr) = 4" by (rule des_rounds_length) (use assms in simp_all)
  obtain left right where lr: "?lr = (left, right)" by fastforce
  show len: "length (des_rounds ks x) = 8" using l by (simp add: des_rounds_def lr)
  have "(take 4 (des_rounds ks x), drop 4 (des_rounds ks x)) = prod.swap ?lr" using l by (simp add: des_rounds_def lr)
  then show "des_rounds (rev ks) (des_rounds ks x) = x"
    using des_rounds_undone [of "(take 4 x, drop 4 x)" ks] assms by (simp add: des_rounds_def split: prod.split)
qed

lemma des_cipher_length [simp]: "length (des_cipher key x (zeros 8) de) = 8"
  by (cases "de = 1") (simp_all add: des_cipher_parts)

lemma des_inverse:
  assumes "length x = 8" "de = 1 \<and> de' \<noteq> 1 \<or> de \<noteq> 1 \<and> de' = 1"
  shows "des_cipher key (des_cipher key x (zeros 8) de) (zeros 8) de' = x"
proof -
  have i: "des_rounds ks (des_rounds (rev ks) (initial_perm x)) = initial_perm x"
    "des_rounds (rev ks) (des_rounds ks (initial_perm x)) = initial_perm x"
    "length (des_rounds ks (initial_perm x)) = 8" for ks
    using des_rounds_inverse [of "initial_perm x" ks] des_rounds_inverse(1) [of "initial_perm x" "rev ks"] by simp_all
  show ?thesis using assms by (auto simp: des_cipher_parts perms_cancel i)
qed

text \<open>C13: DES decryption inverts encryption, and encryption decryption: for every key and every block of
  eight bytes, running the cipher with the direction flag at 1 and then not at 1, or the other way round,
  gives the block back.\<close>

theorem des_decryption_inverts_encryption:
  assumes "length block = 8" "de \<noteq> 1"
  shows "des_cipher key (des_cipher key block (zeros 8) 1) (zeros 8) de = block
    \<and> des_cipher key (des_cipher key block (zeros 8) de) (zeros 8) 1 = block"
  using des_inverse [OF assms(1)] assms(2) by simp

lemma des_decryption_inverts_encryption_witness:
  "des_cipher (bytes_of_u64 0x133457799BBCDFF1) (des_cipher (bytes_of_u64 0x133457799BBCDFF1) [1, 2, 3, 4, 5, 6, 7, 8] (zeros 8) 1) (zeros 8) 0
     = [1, 2, 3, 4, 5, 6, 7, 8]"
  using des_decryption_inverts_encryption [of "[1, 2, 3, 4, 5, 6, 7, 8]" 0] by simp

lemma bytes_of_u64_length [simp]: "length (bytes_of_u64 w) = 8"
  by (simp add: bytes_of_u64_def)

lemma tofb_is_ofb: "length x = 8 \<Longrightarrow> tofb_blocks n key key key x 1 = ofb_blocks n key x 1"
proof (induction n arbitrary: x)
  case (Suc n)
  have f: "flip_de 1 = 0" "flip_de 0 = 1" by (simp_all add: flip_de_def)
  have "des_cipher key (des_cipher key x (zeros 8) 1) (zeros 8) 0 = x" by (rule des_inverse [OF Suc.prems]) simp
  then show ?case using Suc.IH [of "des_cipher key x (zeros 8) 1"] by (simp add: Let_def f)
qed simp

text \<open>Triple DES with the same key three times makes the key stream of single DES: the middle stage, run
  backward, cancels the first, block after block.\<close>

theorem triple_des_with_one_key_is_des:
  "tdea_tofb_keystream_output mi (bytes_of_u64 key @ bytes_of_u64 key @ bytes_of_u64 key) nblocks = des_ofb_keystream_output mi key nblocks"
  by (simp add: tdea_tofb_keystream_output_def tdea_tofb_keystream_output_bytes_def des_ofb_keystream_output_def
      des56_ofb_keystream_output_def tofb_is_ofb)

end
