(* ===== verification/Key_Streams.thy ===== *)
theory Key_Streams
  imports Des_Cipher
begin

text \<open>
  The stream ciphers and shift registers beside DES: RC4 (\<open>src/crypto/crypt-rc4.c\<close>), the registers that carry
  a message indicator from frame to frame and stretch it to an initial vector
  (\<open>src/protocol/p25/p25_lfsr.c\<close>, \<open>src/protocol/nxdn/nxdn_lfsr.c\<close>, \<open>src/crypto/nxdn_keystream.c\<close>,
  \<open>src/crypto/dmr_mi.c\<close>) and the NXDN scrambler. Several of them exist twice in the program, once per
  protocol; the lemmas show that the copies agree.
\<close>

section \<open>RC4\<close>

definition swap_at :: "nat \<Rightarrow> nat \<Rightarrow> 'a list \<Rightarrow> 'a list" where
  "swap_at i j S = S[i := S ! j, j := S ! i]"

text \<open>\<open>rc4_voice_decrypt\<close>, on bytes.\<close>

fun voice_schedule :: "nat \<Rightarrow> nat \<Rightarrow> nat \<Rightarrow> u8 list \<Rightarrow> nat \<Rightarrow> u8 list \<Rightarrow> u8 list" where
  "voice_schedule 0 i j key keylength S = S"
| "voice_schedule (Suc n) i j key keylength S =
     (let j' = (j + unat (S ! i) + unat (key ! (i mod keylength))) mod 256
      in voice_schedule n (Suc i) j' key keylength (swap_at i j' S))"

fun voice_stream :: "nat \<Rightarrow> nat \<Rightarrow> nat \<Rightarrow> nat \<Rightarrow> nat \<Rightarrow> u8 list \<Rightarrow> u8 list \<Rightarrow> u8 list" where
  "voice_stream 0 count drop' i j S cipher = []"
| "voice_stream (Suc n) count drop' i j S cipher =
     (let i' = (i + 1) mod 256; j' = (j + unat (S ! i')) mod 256; S' = swap_at i' j' S;
          rest = voice_stream n (Suc count) drop' i' j' S' cipher
      in if count \<ge> drop'
         then (S' ! ((unat (S' ! i') + unat (S' ! j')) mod 256) XOR cipher ! (count - drop')) # rest
         else rest)"

definition rc4_voice_decrypt :: "int \<Rightarrow> u8 \<Rightarrow> u8 \<Rightarrow> u8 list \<Rightarrow> u8 list \<Rightarrow> u8 list" where
  "rc4_voice_decrypt drop' keylength messagelength key cipher =
     (let d = nat (if drop' < 0 then 0 else drop');
          S = voice_schedule 256 0 0 key (unat keylength) (map of_nat [0..<256])
      in voice_stream (unat messagelength + d) 0 d 0 0 S cipher)"

text \<open>\<open>rc4_block_output\<close>, on unsigned integers.\<close>

fun block_schedule :: "nat \<Rightarrow> nat \<Rightarrow> nat \<Rightarrow> u8 list \<Rightarrow> nat \<Rightarrow> u32 list \<Rightarrow> u32 list" where
  "block_schedule 0 i j key keylength S = S"
| "block_schedule (Suc n) i j key keylength S =
     (let j' = unat ((of_nat j + S ! i + ucast (key ! (i mod keylength))) mod 256)
      in block_schedule n (Suc i) j' key keylength (swap_at i j' S))"

fun block_stream :: "nat \<Rightarrow> nat \<Rightarrow> nat \<Rightarrow> nat \<Rightarrow> nat \<Rightarrow> u32 list \<Rightarrow> u8 list" where
  "block_stream 0 count drop' i j S = []"
| "block_stream (Suc n) count drop' i j S =
     (let i' = (i + 1) mod 256; j' = unat ((of_nat j + S ! i') mod 256); S' = swap_at i' j' S;
          rest = block_stream n (Suc count) drop' i' j' S'
      in if count \<ge> drop' then ucast (S' ! unat ((S' ! i' + S' ! j') mod 256)) # rest else rest)"

definition rc4_block_output :: "int \<Rightarrow> nat \<Rightarrow> nat \<Rightarrow> u8 list \<Rightarrow> u8 list" where
  "rc4_block_output drop' keylen meslen key =
     (let d = nat (if drop' < 0 then 0 else drop');
          S = block_schedule 256 0 0 key keylen (map of_nat [0..<256])
      in block_stream (meslen + d) 0 d 0 0 S)"

text \<open>The octets written to the slot's key stream.\<close>

definition hytera_enhanced_rc4_setup :: "u64 \<Rightarrow> u64 \<Rightarrow> u8 list" where
  "hytera_enhanced_rc4_setup key_value mi_value =
     (let key = map (\<lambda>i. ucast (drop_bit (8 * i) key_value AND 0xFF)) (rev [0..<5]);
          mi = map (\<lambda>i. ucast (drop_bit (8 * i) mi_value AND 0xFF)) (rev [0..<5]);
          ks = rc4_block_output 0 5 135 key;
          kiv = map (\<lambda>i. key ! i XOR mi ! i) [0..<5]
      in map (\<lambda>i. kiv ! (i mod 5) XOR ks ! i) [0..<135])"

section \<open>Registers of 64 bits\<close>

definition p25_lfsr_advance_64 :: "u64 \<Rightarrow> u64" where
  "p25_lfsr_advance_64 lfsr = (lfsr64_step ^^ 64) lfsr"

record crypto_state =
  cs_slot :: int
  cs_miP :: u64
  cs_miN :: u64
  cs_iv :: "u8 list"
  cs_ivR :: "u8 list"

definition LFSRP :: "crypto_state \<Rightarrow> crypto_state" where
  "LFSRP s =
     (let lfsr = (if cs_slot s = 0 then cs_miP s else 0);
          lfsr = (if cs_slot s = 1 then cs_miN s else lfsr);
          lfsr = p25_lfsr_advance_64 lfsr;
          s = (if cs_slot s = 0 then s\<lparr>cs_miP := lfsr\<rparr> else s)
      in if cs_slot s = 1 then s\<lparr>cs_miN := lfsr\<rparr> else s)"

definition store_seed_bytes :: "u64 \<Rightarrow> u8 list \<Rightarrow> u8 list" where
  "store_seed_bytes lfsr iv = foldl (\<lambda>iv i. iv[i := ucast (drop_bit (56 - 8 * i) lfsr AND 0xFF)]) iv [0..<8]"

text \<open>One turn of the loop: step the register and shift the new bit into byte \<open>x div 8\<close>.\<close>

definition feedback_step :: "u64 \<times> u8 list \<Rightarrow> nat \<Rightarrow> u64 \<times> u8 list" where
  "feedback_step s x = (case s of (lfsr, iv) \<Rightarrow>
     (lfsr64_step lfsr, iv[x div 8 := push_bit 1 (iv ! (x div 8)) + ucast (lfsr64_bit lfsr)]))"

definition store_feedback_bytes :: "u64 \<Rightarrow> u8 list \<Rightarrow> u8 list" where
  "store_feedback_bytes lfsr iv = snd (foldl feedback_step (lfsr, iv) [64..<128])"

definition p25_lfsr128_slot :: "int \<Rightarrow> crypto_state \<Rightarrow> crypto_state" where
  "p25_lfsr128_slot slot s =
     (if slot \<noteq> 0 \<and> slot \<noteq> 1 then s
      else
        let lfsr = (if slot = 0 then cs_miP s else cs_miN s); iv = (if slot = 0 then cs_iv s else cs_ivR s);
            iv' = store_feedback_bytes lfsr (store_seed_bytes lfsr iv)
        in if slot = 0 then s\<lparr>cs_iv := iv'\<rparr> else s\<lparr>cs_ivR := iv'\<rparr>)"

definition LFSR128 :: "crypto_state \<Rightarrow> crypto_state" where
  "LFSR128 s = p25_lfsr128_slot (cs_slot s) s"

definition LFSR128n :: "crypto_state \<Rightarrow> crypto_state" where
  "LFSR128n s = s\<lparr>cs_iv := store_feedback_bytes (cs_miN s) (store_seed_bytes (cs_miN s) (cs_iv s))\<rparr>"

text \<open>\<open>nxdn_lfsr128_expand_iv_from_mi64\<close>: eight bits make an octet.\<close>

definition shift_in :: "u8 \<Rightarrow> u64 \<Rightarrow> u8" where
  "shift_in octet b = push_bit 1 octet OR ucast b"

fun octet_loop :: "nat \<Rightarrow> u64 \<Rightarrow> u8 \<Rightarrow> u64 \<times> u8" where
  "octet_loop 0 lfsr octet = (lfsr, octet)"
| "octet_loop (Suc n) lfsr octet = octet_loop n (lfsr64_step lfsr) (shift_in octet (lfsr64_bit lfsr))"

fun expand_loop :: "nat \<Rightarrow> u64 \<Rightarrow> u8 list" where
  "expand_loop 0 lfsr = []"
| "expand_loop (Suc n) lfsr = (case octet_loop 8 lfsr 0 of (lfsr', octet) \<Rightarrow> octet # expand_loop n lfsr')"

definition nxdn_lfsr128_expand_iv_from_mi64 :: "u64 \<Rightarrow> u8 list" where
  "nxdn_lfsr128_expand_iv_from_mi64 mi = map (\<lambda>i. ucast (drop_bit (56 - i * 8) mi)) [0..<8] @ expand_loop 8 mi"

section \<open>The NXDN scrambler\<close>

definition nxdn_step :: "u16 \<Rightarrow> u16" where
  "nxdn_step r = drop_bit 1 r OR push_bit 14 ((drop_bit 1 r XOR r) AND 1)"

fun nxdn_bits :: "nat \<Rightarrow> u16 \<Rightarrow> u8 list" where
  "nxdn_bits 0 r = []"
| "nxdn_bits (Suc n) r = ucast (r AND 1) # nxdn_bits n (nxdn_step r)"

definition nxdn_pdu_scrambler_keystream_creation :: "int \<Rightarrow> int \<Rightarrow> u8 list" where
  "nxdn_pdu_scrambler_keystream_creation lfsr len_bits =
     (if len_bits \<le> 0 then [] else nxdn_bits (nat len_bits) (word_of_int lfsr AND 0x7FFF))"

text \<open>\<open>LFSRN\<close> works on a signed integer that stays within fifteen bits.\<close>

fun lfsrn_loop :: "nat \<Rightarrow> int \<Rightarrow> u8 list \<Rightarrow> u8 list \<times> int" where
  "lfsrn_loop 0 lfsr bits = ([], lfsr)"
| "lfsrn_loop (Suc n) lfsr bits =
     (let pn = lfsr AND 1;
          b = (drop_bit 1 lfsr XOR lfsr) AND 1;
          lfsr' = drop_bit 1 lfsr OR push_bit 14 b;
          (out, last) = lfsrn_loop n lfsr' (tl bits)
      in ((hd bits XOR word_of_int pn) # out, last))"

definition LFSRN :: "u8 list \<Rightarrow> u64 \<Rightarrow> u8 list \<times> u64" where
  "LFSRN BufferIn miN =
     (let (out, lfsr) = lfsrn_loop 49 (uint (miN AND 0x7FFF)) BufferIn in (out, word_of_int (lfsr AND 0x7FFF)))"

section \<open>The DMR message indicator\<close>

definition dmr_mi_step :: "u64 \<Rightarrow> u64" where
  "dmr_mi_step r = push_bit 1 r OR ((drop_bit 31 r XOR drop_bit 3 r XOR drop_bit 1 r) AND 1)"

definition dmr_mi_advance32 :: "u32 \<Rightarrow> u32" where
  "dmr_mi_advance32 mi = ucast ((dmr_mi_step ^^ 32) (ucast mi))"

definition dmr_iv_step :: "u32 \<Rightarrow> u32" where
  "dmr_iv_step r = push_bit 1 r OR ((drop_bit 31 r XOR drop_bit 21 r XOR drop_bit 1 r XOR r) AND 1)"

fun dmr_octet :: "nat \<Rightarrow> u32 \<Rightarrow> u8 \<Rightarrow> u32 \<times> u8" where
  "dmr_octet 0 r octet = (r, octet)"
| "dmr_octet (Suc n) r octet =
     dmr_octet n (dmr_iv_step r) (push_bit 1 octet OR ucast ((drop_bit 31 r XOR drop_bit 21 r XOR drop_bit 1 r XOR r) AND 1))"

fun dmr_octets :: "nat \<Rightarrow> u32 \<Rightarrow> u8 list" where
  "dmr_octets 0 r = []"
| "dmr_octets (Suc n) r = (case dmr_octet 8 r 0 of (r', octet) \<Rightarrow> octet # dmr_octets n r')"

definition dmr_aes_expand_iv :: "u32 \<Rightarrow> u8 list \<times> u32" where
  "dmr_aes_expand_iv mi =
     (let iv = map (\<lambda>i. ucast (drop_bit (24 - 8 * i) mi)) [0..<4] @ dmr_octets 12 mi
      in (iv, push_bit 24 (ucast (iv ! 4)) OR push_bit 16 (ucast (iv ! 5)) OR push_bit 8 (ucast (iv ! 6)) OR ucast (iv ! 7)))"

section \<open>Stepping the register\<close>

lemma one_bit: "bit ((x :: 'a::len word) AND 1) n \<longleftrightarrow> n = 0 \<and> bit x 0"
  by (auto simp: bit_and_iff bit_1_iff)

definition fed :: "u64 \<Rightarrow> nat \<Rightarrow> bool" where
  "fed r k = bit (lfsr64_bit ((lfsr64_step ^^ k) r)) 0"

lemma lfsr64_bit_bits: "bit (lfsr64_bit r) n \<longleftrightarrow> n = 0 \<and> fed r 0"
  unfolding fed_def lfsr64_bit_def funpow_0 one_bit by simp

lemma step_bits: "bit (lfsr64_step r) n \<longleftrightarrow> n < 64 \<and> (if n = 0 then fed r 0 else bit r (n - 1))"
proof -
  have "bit (push_bit 1 r OR lfsr64_bit r) n \<longleftrightarrow> (1 \<le> n \<and> n < 64 \<and> bit r (n - 1)) \<or> (n = 0 \<and> fed r 0)"
    unfolding bit_or_iff lfsr64_bit_bits bit_push_bit_iff possible_bit_word by auto
  then show ?thesis unfolding lfsr64_step_def by auto
qed

lemma fed_Suc: "fed (lfsr64_step r) k = fed r (Suc k)"
  by (simp add: fed_def funpow_swap1)

lemma steps_bits: "bit ((lfsr64_step ^^ k) r) n \<longleftrightarrow> n < 64 \<and> (if n < k then fed r (k - 1 - n) else bit r (n - k))"
proof (induction k arbitrary: n)
  case 0
  show ?case using bit_imp_le_length [of r n] by auto
next
  case (Suc k)
  have z: "fed ((lfsr64_step ^^ k) r) 0 = fed r k" by (simp add: fed_def)
  show ?case
  proof (cases n)
    case 0
    then show ?thesis by (simp add: step_bits z)
  next
    case (Suc m)
    then show ?thesis by (auto simp: step_bits Suc.IH)
  qed
qed

lemma octet_last:
  "octet_loop (Suc n) r b = (let (r', b') = octet_loop n r b in (lfsr64_step r', shift_in b' (lfsr64_bit r')))"
proof (induction n arbitrary: r b)
  case (Suc n)
  have "octet_loop (Suc (Suc n)) r b = octet_loop (Suc n) (lfsr64_step r) (shift_in b (lfsr64_bit r))"
    by (rule octet_loop.simps(2))
  also have "\<dots> = (let (r', b') = octet_loop n (lfsr64_step r) (shift_in b (lfsr64_bit r)) in (lfsr64_step r', shift_in b' (lfsr64_bit r')))"
    by (rule Suc.IH)
  also have "octet_loop n (lfsr64_step r) (shift_in b (lfsr64_bit r)) = octet_loop (Suc n) r b" by (rule octet_loop.simps(2) [symmetric])
  finally show ?case .
qed simp

lemma shift_in_bits: "bit (shift_in b (lfsr64_bit r)) m \<longleftrightarrow> m < 8 \<and> (if m = 0 then fed r 0 else bit b (m - 1))"
proof -
  have "bit (push_bit 1 b OR ucast (lfsr64_bit r)) m \<longleftrightarrow> (1 \<le> m \<and> m < 8 \<and> bit b (m - 1)) \<or> (m = 0 \<and> fed r 0)"
    unfolding bit_or_iff bit_push_bit_iff bit_ucast_iff lfsr64_bit_bits possible_bit_word by auto
  then show ?thesis unfolding shift_in_def by auto
qed

lemma shift_in_sum: "push_bit 1 b + ucast (lfsr64_bit r) = shift_in b (lfsr64_bit r)"
  unfolding shift_in_def
proof (rule disjunctive_add)
  fix k show "\<not> bit (push_bit 1 b) k \<or> \<not> bit (ucast (lfsr64_bit r) :: u8) k"
    unfolding bit_push_bit_iff bit_ucast_iff lfsr64_bit_bits by auto
qed

lemma octet_state: "fst (octet_loop n r b) = (lfsr64_step ^^ n) r"
  by (induction n arbitrary: r b) (simp_all add: funpow_swap1)

declare octet_loop.simps(2) [simp del]

lemma octet_bits:
  "bit (snd (octet_loop n r b)) m \<longleftrightarrow> m < 8 \<and> (if m < n then fed r (n - 1 - m) else bit b (m - n))"
proof (induction n arbitrary: m)
  case 0
  show ?case using bit_imp_le_length [of b m] by auto
next
  case (Suc n)
  obtain r' b' where o: "octet_loop n r b = (r', b')" by fastforce
  have r': "r' = (lfsr64_step ^^ n) r" using octet_state [of n r b] o by simp
  have s: "bit (snd (octet_loop (Suc n) r b)) m \<longleftrightarrow> m < 8 \<and> (if m = 0 then fed r' 0 else bit b' (m - 1))"
    unfolding octet_last o by (simp add: Let_def shift_in_bits)
  have f: "fed r' 0 = fed r n" by (simp add: r' fed_def)
  show ?case
  proof (cases m)
    case 0
    then show ?thesis unfolding s f by simp
  next
    case (Suc k)
    have "bit b' k \<longleftrightarrow> k < 8 \<and> (if k < n then fed r (n - 1 - k) else bit b (k - n))" using Suc.IH [of k] o by simp
    then show ?thesis unfolding s using Suc by auto
  qed
qed

text \<open>Eight bits push out whatever the octet held.\<close>

lemma octet_full: "snd (octet_loop 8 r b) = snd (octet_loop 8 r 0)"
  by (rule bit_eqI) (simp add: octet_bits)

lemma feedback_block:
  assumes "a < length iv" "n \<le> 8"
  shows "foldl feedback_step (r, iv) [8 * a..<8 * a + n] = (fst (octet_loop n r (iv ! a)), iv[a := snd (octet_loop n r (iv ! a))])"
  using assms(2)
proof (induction n)
  case (Suc n)
  obtain r' b' where o: "octet_loop n r (iv ! a) = (r', b')" by fastforce
  have d: "(8 * a + n) div 8 = a" using Suc.prems by simp
  have "foldl feedback_step (r, iv) [8 * a..<8 * a + Suc n] = feedback_step (r', iv[a := b']) (8 * a + n)"
    using Suc o by simp
  then show ?case
    using assms(1) unfolding octet_last o feedback_step_def prod.case d Let_def shift_in_sum by simp
qed simp

lemma feedback_blocks:
  "length iv = k + n \<Longrightarrow> snd (foldl feedback_step (r, iv) [8 * k..<8 * (k + n)]) = take k iv @ expand_loop n r"
proof (induction n arbitrary: k r iv)
  case (Suc n)
  let ?o = "octet_loop 8 r (iv ! k)"
  have s: "[8 * k..<8 * (k + Suc n)] = [8 * k..<8 * k + 8] @ [8 * Suc k..<8 * (Suc k + n)]"
    using upt_add_eq_append [of "8 * k" "8 * k + 8" "8 * n"] by (simp add: algebra_simps)
  have b: "foldl feedback_step (r, iv) [8 * k..<8 * k + 8] = (fst ?o, iv[k := snd ?o])"
    by (rule feedback_block) (use Suc.prems in simp_all)
  have "snd (foldl feedback_step (r, iv) [8 * k..<8 * (k + Suc n)]) = take (Suc k) (iv[k := snd ?o]) @ expand_loop n (fst ?o)"
    unfolding s foldl_append b by (rule Suc.IH) (use Suc.prems in simp)
  also have "take (Suc k) (iv[k := snd ?o]) = take k iv @ [snd ?o]"
    using Suc.prems by (simp add: take_Suc_conv_app_nth)
  also have "fst ?o = fst (octet_loop 8 r 0)" by (simp only: octet_state)
  also have "snd ?o = snd (octet_loop 8 r 0)" by (rule octet_full)
  finally show ?case by (simp add: split_beta del: octet_loop.simps)
qed simp

section \<open>The initial vectors agree\<close>

lemma low_byte_bits: "bit (ucast (drop_bit k (w :: u64) AND 0xFF) :: u8) m \<longleftrightarrow> m < 8 \<and> bit w (k + m)"
proof -
  have "drop_bit k w AND 0xFF = take_bit 8 (drop_bit k w)" by (simp add: take_bit_eq_mask mask_eq_exp_minus_1)
  then show ?thesis by (auto simp only: bit_ucast_iff bit_take_bit_iff bit_drop_bit_eq comp_def possible_bit_word len_bit0 len_num1 mult_2 one_add_one)
qed

lemma low_byte: "ucast (drop_bit k (w :: u64) AND 0xFF) = (ucast (drop_bit k w) :: u8)"
proof (rule bit_eqI)
  fix n
  have "bit (ucast (drop_bit k w) :: u8) n \<longleftrightarrow> n < 8 \<and> bit w (k + n)" by (simp add: bit_ucast_iff bit_drop_bit_eq)
  then show "bit (ucast (drop_bit k w AND 0xFF) :: u8) n \<longleftrightarrow> bit (ucast (drop_bit k w) :: u8) n" by (simp only: low_byte_bits)
qed

lemma bytes_of_u64_nth: "i < 8 \<Longrightarrow> bytes_of_u64 w ! i = ucast (drop_bit (56 - 8 * i) w AND 0xFF)"
  by (simp add: bytes_of_u64_def rev_nth del: upt_rec_numeral) (simp add: diff_mult_distrib2)

lemma bytes_of_u64_shifts: "bytes_of_u64 w = map (\<lambda>i. ucast (drop_bit (56 - i * 8) w)) [0..<8]"
  by (rule nth_equalityI) (simp_all add: bytes_of_u64_nth low_byte mult.commute)

lemma store_fold: "n \<le> length iv \<Longrightarrow> foldl (\<lambda>iv i. iv[i := f i]) iv [0..<n] = map f [0..<n] @ drop n iv"
proof (induction n)
  case (Suc n)
  then have "foldl (\<lambda>iv i. iv[i := f i]) iv [0..<Suc n] = (map f [0..<n] @ drop n iv)[n := f n]" by simp
  also have "\<dots> = map f [0..<n] @ (drop n iv)[0 := f n]" by (simp add: list_update_append)
  also have "(drop n iv)[0 := f n] = f n # drop (Suc n) iv" using Suc.prems by (simp add: Cons_nth_drop_Suc [symmetric])
  finally show ?case by simp
qed simp

lemma seed_bytes: "8 \<le> length iv \<Longrightarrow> store_seed_bytes w iv = bytes_of_u64 w @ drop 8 iv"
  unfolding store_seed_bytes_def by (subst store_fold) (auto intro!: nth_equalityI simp: bytes_of_u64_nth)

lemma funpow_steps: "(lfsr64_step ^^ a) ((lfsr64_step ^^ b) r) = (lfsr64_step ^^ (a + b)) r"
  by (simp add: funpow_add)

lemma expand_nth: "i < n \<Longrightarrow> expand_loop n r ! i = snd (octet_loop 8 ((lfsr64_step ^^ (8 * i)) r) 0)"
proof (induction n arbitrary: i r)
  case (Suc n)
  have "expand_loop (Suc n) r = snd (octet_loop 8 r 0) # expand_loop n ((lfsr64_step ^^ 8) r)"
    by (simp add: split_beta octet_state)
  then show ?case using Suc by (cases i) (simp_all add: funpow_steps add.commute)
qed simp

lemma expand_length: "length (expand_loop n r) = n"
  by (induction n arbitrary: r) (simp_all add: split_beta)

lemma fed_later: "fed ((lfsr64_step ^^ a) r) k = fed r (k + a)"
  by (simp add: fed_def funpow_steps)

lemma expand_is_advance: "expand_loop 8 r = bytes_of_u64 (p25_lfsr_advance_64 r)"
proof (rule nth_equalityI)
  fix i assume "i < length (expand_loop 8 r)"
  then have i: "i < 8" by (simp add: expand_length)
  show "expand_loop 8 r ! i = bytes_of_u64 (p25_lfsr_advance_64 r) ! i"
  proof (rule bit_eqI)
    fix m assume "possible_bit TYPE(u8) m"
    then have m: "m < 8" by (simp add: possible_bit_def)
    have "bit (expand_loop 8 r ! i) m \<longleftrightarrow> fed r (7 - m + 8 * i)"
      using i m by (simp add: expand_nth octet_bits fed_later)
    moreover have "bit (bytes_of_u64 (p25_lfsr_advance_64 r) ! i) m \<longleftrightarrow> fed r (63 - (56 - 8 * i + m))"
    proof -
      have "56 - 8 * i + m < 64" using i m by arith
      then show ?thesis
        unfolding bytes_of_u64_nth [OF i] low_byte_bits p25_lfsr_advance_64_def steps_bits using m by simp
    qed
    moreover have "7 - m + 8 * i = 63 - (56 - 8 * i + m)" using i m by arith
    ultimately show "bit (expand_loop 8 r ! i) m \<longleftrightarrow> bit (bytes_of_u64 (p25_lfsr_advance_64 r) ! i) m" by simp
  qed
qed (simp add: expand_length)

lemma nxdn_expand: "nxdn_lfsr128_expand_iv_from_mi64 mi = bytes_of_u64 mi @ bytes_of_u64 (p25_lfsr_advance_64 mi)"
  by (simp only: nxdn_lfsr128_expand_iv_from_mi64_def expand_is_advance bytes_of_u64_shifts [of mi])

lemma feedback_expand: "length iv = 16 \<Longrightarrow> store_feedback_bytes mi (store_seed_bytes mi iv) = bytes_of_u64 mi @ bytes_of_u64 (p25_lfsr_advance_64 mi)"
  using feedback_blocks [of "store_seed_bytes mi iv" 8 8 mi]
  by (simp add: store_feedback_bytes_def seed_bytes expand_is_advance)

text \<open>C29: The three routines that stretch a 64-bit message indicator to a 128-bit initial vector agree: the P25
  one on either slot, the NXDN one that works in the decoder state and the NXDN one that returns a buffer give
  the same sixteen bytes, whatever the vector held before. They are the indicator followed by the indicator
  that the P25 register reaches after its 64 steps.\<close>

theorem initial_vectors_agree:
  assumes "length (cs_iv s) = 16" "length (cs_ivR s) = 16"
  shows "cs_iv (p25_lfsr128_slot 0 s) = nxdn_lfsr128_expand_iv_from_mi64 (cs_miP s)
    \<and> cs_ivR (p25_lfsr128_slot 1 s) = nxdn_lfsr128_expand_iv_from_mi64 (cs_miN s)
    \<and> cs_iv (LFSR128n s) = nxdn_lfsr128_expand_iv_from_mi64 (cs_miN s)
    \<and> nxdn_lfsr128_expand_iv_from_mi64 (cs_miP s) = bytes_of_u64 (cs_miP s) @ bytes_of_u64 (cs_miP (LFSRP (s\<lparr>cs_slot := 0\<rparr>)))"
  using assms by (simp add: p25_lfsr128_slot_def LFSR128n_def feedback_expand nxdn_expand LFSRP_def Let_def)

lemma initial_vectors_agree_witness:
  "cs_iv (p25_lfsr128_slot 0 \<lparr>cs_slot = 0, cs_miP = 5, cs_miN = 7, cs_iv = replicate 16 9, cs_ivR = replicate 16 8\<rparr>)
     = nxdn_lfsr128_expand_iv_from_mi64 5"
  using initial_vectors_agree [of "\<lparr>cs_slot = 0, cs_miP = 5, cs_miN = 7, cs_iv = replicate 16 9, cs_ivR = replicate 16 8\<rparr>"] by simp

section \<open>The indicator never gets stuck\<close>

lemma fed_taps: "fed r 0 \<longleftrightarrow> bit r 63 \<noteq> (bit r 61 \<noteq> (bit r 45 \<noteq> (bit r 37 \<noteq> (bit r 26 \<noteq> bit r 14))))"
  unfolding fed_def funpow_0 lfsr64_bit_def one_bit by (auto simp: bit_xor_iff bit_drop_bit_eq)

lemma step_inj: "lfsr64_step a = lfsr64_step b \<Longrightarrow> a = b"
proof (rule bit_eqI)
  assume e: "lfsr64_step a = lfsr64_step b"
  have low: "bit a n = bit b n" if "n < 63" for n
  proof -
    have "bit (lfsr64_step a) (Suc n) = bit (lfsr64_step b) (Suc n)" by (simp add: e)
    then show ?thesis using that by (simp add: step_bits)
  qed
  have "bit (lfsr64_step a) 0 = bit (lfsr64_step b) 0" by (simp add: e)
  then have "fed a 0 = fed b 0" by (simp add: step_bits)
  then have "bit a 63 = bit b 63" unfolding fed_taps using low [of 61] low [of 45] low [of 37] low [of 26] low [of 14] by (simp, argo)
  moreover fix n assume "possible_bit TYPE(u64) n"
  then have "n < 64" by (simp add: possible_bit_def)
  ultimately show "bit a n = bit b n" using low [of n] by (cases "n = 63") simp_all
qed

lemma advance_inj: "(lfsr64_step ^^ k) a = (lfsr64_step ^^ k) b \<Longrightarrow> a = b"
  by (induction k) (auto dest: step_inj)

lemma step_zero: "lfsr64_step 0 = 0"
  by (rule bit_eqI) (simp add: step_bits fed_taps)

lemma advance_zero: "(lfsr64_step ^^ k) 0 = 0"
  by (induction k) (simp_all add: step_zero)

text \<open>The indicator of a P25 call that runs through the register frame after frame is never lost: different
  indicators stay different, so the one before can be recovered, and an indicator that is not zero never
  becomes zero.\<close>

theorem indicator_is_never_lost:
  "(p25_lfsr_advance_64 mi = p25_lfsr_advance_64 mi' \<longleftrightarrow> mi = mi')
    \<and> ((p25_lfsr_advance_64 ^^ frames) mi = 0 \<longleftrightarrow> mi = 0)"
proof (rule conjI)
  show "p25_lfsr_advance_64 mi = p25_lfsr_advance_64 mi' \<longleftrightarrow> mi = mi'"
    unfolding p25_lfsr_advance_64_def using advance_inj by blast
  have "(p25_lfsr_advance_64 ^^ frames) mi = (lfsr64_step ^^ (64 * frames)) mi"
    by (induction frames) (simp_all add: p25_lfsr_advance_64_def funpow_steps)
  then show "(p25_lfsr_advance_64 ^^ frames) mi = 0 \<longleftrightarrow> mi = 0"
    using advance_inj [of "64 * frames" mi 0] advance_zero by auto
qed

end
