(* ===== verification/Key_Stream_Props.thy ===== *)
theory Key_Stream_Props
  imports Key_Streams
begin

text \<open>
  What the stream ciphers of \<open>Key_Streams\<close> promise: the two RC4 routines make the same stream, which is undone
  by applying it again, and the NXDN voice scrambler runs over the stream that the packet scrambler makes.
\<close>

section \<open>The two RC4 routines\<close>

definition wide :: "u8 list \<Rightarrow> u32 list" where
  "wide S = map ucast S"

lemma wide_length [simp]: "length (wide S) = length S"
  by (simp add: wide_def)

lemma wide_nth [simp]: "i < length S \<Longrightarrow> wide S ! i = ucast (S ! i)"
  by (simp add: wide_def)

lemma wide_swap: "i < length S \<Longrightarrow> j < length S \<Longrightarrow> swap_at i j (wide S) = wide (swap_at i j S)"
  unfolding swap_at_def by (simp add: wide_def map_update)

lemma swap_length [simp]: "length (swap_at i j S) = length S"
  by (simp add: swap_at_def)

lemma byte_lt: "unat (b :: u8) < 256"
  by (simp add: unsigned_less [of b, simplified])

lemma unat_wide: "unat (ucast (b :: u8) :: u32) = unat b"
  unfolding unsigned_ucast_eq
  by (rule take_bit_nat_eq_self) (use byte_lt [of b] in simp)

lemma narrow_wide: "ucast (ucast (b :: u8) :: u32) = b"
  by (rule bit_eqI) (simp add: bit_ucast_iff possible_bit_def)

lemma wide_sum3:
  assumes "j < 256"
  shows "unat ((of_nat j + ucast (a :: u8) + ucast (b :: u8)) mod (256 :: u32)) = (j + unat a + unat b) mod 256"
proof -
  have "unat (of_nat j + ucast a + ucast b :: u32) = j + unat a + unat b"
    using assms byte_lt [of a] byte_lt [of b]
    by (simp add: unat_word_ariths unat_of_nat unat_wide)
  then show ?thesis by (simp add: unat_mod)
qed

lemma wide_sum2: "j < 256 \<Longrightarrow> unat ((of_nat j + ucast (a :: u8)) mod (256 :: u32)) = (j + unat a) mod 256"
  using wide_sum3 [of j a 0] by simp

lemma wide_sum: "unat ((ucast (a :: u8) + ucast (b :: u8)) mod (256 :: u32)) = (unat a + unat b) mod 256"
  using wide_sum3 [of 0 a b] by simp

lemma schedules_agree:
  "length S = 256 \<Longrightarrow> i + n \<le> 256 \<Longrightarrow> j < 256
    \<Longrightarrow> block_schedule n i j key k (wide S) = wide (voice_schedule n i j key k S)"
proof (induction n arbitrary: i j S)
  case (Suc n)
  then show ?case by (simp add: Let_def wide_sum3 wide_swap)
qed simp

lemma schedule_length: "length (voice_schedule n i j key k S) = length S"
  by (induction n arbitrary: i j S) (simp_all add: Let_def)

lemma streams_agree:
  "length S = 256 \<Longrightarrow> j < 256 \<Longrightarrow> count + n - d \<le> length cipher
    \<Longrightarrow> voice_stream n count d i j S cipher = xor_bytes (block_stream n count d i j (wide S)) (drop (count - d) cipher)"
proof (induction n arbitrary: count i j S)
  case (Suc n)
  let ?i = "(i + 1) mod 256" and ?j = "(j + unat (S ! ((i + 1) mod 256))) mod 256"
  have j: "unat ((of_nat j + wide S ! ?i) mod 256) = ?j" using Suc.prems by (simp add: wide_sum2)
  have s: "swap_at ?i ?j (wide S) = wide (swap_at ?i ?j S)" using Suc.prems by (simp add: wide_swap)
  have ih: "voice_stream n (Suc count) d ?i ?j (swap_at ?i ?j S) cipher
      = xor_bytes (block_stream n (Suc count) d ?i ?j (wide (swap_at ?i ?j S))) (drop (Suc count - d) cipher)"
    by (rule Suc.IH) (use Suc.prems in simp_all)
  have b: "ucast (wide (swap_at ?i ?j S) ! unat ((wide (swap_at ?i ?j S) ! ?i + wide (swap_at ?i ?j S) ! ?j) mod 256))
      = swap_at ?i ?j S ! ((unat (swap_at ?i ?j S ! ?i) + unat (swap_at ?i ?j S ! ?j)) mod 256)"
    using Suc.prems by (simp add: wide_sum narrow_wide)
  show ?case
  proof (cases "d \<le> count")
    case True
    then have "drop (count - d) cipher = cipher ! (count - d) # drop (Suc count - d) cipher"
      using Suc.prems by (simp add: Cons_nth_drop_Suc Suc_diff_le)
    then show ?thesis
      unfolding voice_stream.simps block_stream.simps Let_def j s b ih using True by (simp add: xor_bytes_def)
  next
    case False
    then have "Suc count - d = 0" "count - d = 0" by simp_all
    then show ?thesis
      unfolding voice_stream.simps block_stream.simps Let_def j s ih using False by simp
  qed
qed (simp add: xor_bytes_def)

lemma stream_length: "length (block_stream n count d i j S) = (count + n - d) - (count - d)"
  by (induction n arbitrary: count i j S) (auto simp: Let_def)

lemma identity_wide: "map of_nat [0..<256] = wide (map of_nat [0..<256])"
proof (rule nth_equalityI)
  fix i assume "i < length (map of_nat [0..<256] :: u32 list)"
  then have "i < 256" by simp
  then show "map of_nat [0..<256] ! i = wide (map of_nat [0..<256]) ! i"
    by (simp add: word_unat_eq_iff unat_of_nat unat_wide)
qed simp

lemma voice_is_block:
  assumes "unat m \<le> length cipher"
  shows "rc4_voice_decrypt d k m key cipher = xor_bytes (rc4_block_output d (unat k) (unat m) key) cipher"
  unfolding rc4_voice_decrypt_def rc4_block_output_def Let_def identity_wide
  by (subst streams_agree) (use assms in \<open>auto simp: schedule_length schedules_agree\<close>)

lemma block_length: "length (rc4_block_output d k m key) = m"
  by (simp add: rc4_block_output_def Let_def stream_length)

lemma xor_bytes_twice: "length ks = n \<Longrightarrow> n \<le> length t \<Longrightarrow> xor_bytes ks (xor_bytes ks t) = take n t"
  unfolding xor_bytes_def by (rule nth_equalityI) (simp_all add: xor.assoc [symmetric])

text \<open>C28: The two RC4 routines agree, though one keeps its table in octets and the other in unsigned integers:
  voice is decrypted by the stream the packet routine puts out for the same key and the same number of dropped
  octets, negative numbers included. Decrypting the result again gives the ciphertext back.\<close>

theorem rc4_routines_agree:
  assumes "unat messagelength \<le> length cipher"
  shows "rc4_voice_decrypt drop' keylength messagelength key cipher
      = xor_bytes (rc4_block_output drop' (unat keylength) (unat messagelength) key) cipher
    \<and> rc4_voice_decrypt drop' keylength messagelength key (rc4_voice_decrypt drop' keylength messagelength key cipher)
      = take (unat messagelength) cipher"
proof -
  let ?ks = "rc4_block_output drop' (unat keylength) (unat messagelength) key"
  have v: "rc4_voice_decrypt drop' keylength messagelength key cipher = xor_bytes ?ks cipher"
    by (rule voice_is_block) (rule assms)
  have "unat messagelength \<le> length (xor_bytes ?ks cipher)" using assms by (simp add: xor_bytes_def block_length)
  then have "rc4_voice_decrypt drop' keylength messagelength key (xor_bytes ?ks cipher) = take (unat messagelength) cipher"
    using assms by (simp only: voice_is_block xor_bytes_twice block_length)
  then show ?thesis by (simp add: v)
qed

lemma rc4_routines_agree_witness:
  "rc4_voice_decrypt 256 5 2 [1, 2, 3, 4, 5] (rc4_voice_decrypt 256 5 2 [1, 2, 3, 4, 5] [7, 8, 9]) = [7, 8]"
  using rc4_routines_agree [of 2 "[7, 8, 9]" 256 5 "[1, 2, 3, 4, 5]", THEN conjunct2] by simp

section \<open>The NXDN scrambler\<close>

definition fifteen :: "u16 \<Rightarrow> bool" where
  "fifteen r \<longleftrightarrow> \<not> bit r 15"

lemma fifteen_bits: "fifteen r \<Longrightarrow> bit r n \<Longrightarrow> n < 15"
  using bit_imp_le_length [of r n] by (cases "n = 15") (auto simp: fifteen_def)

lemma nxdn_step_bits: "bit (nxdn_step r) n \<longleftrightarrow> bit r (Suc n) \<or> (n = 14 \<and> bit r 1 \<noteq> bit r 0)"
  unfolding nxdn_step_def bit_or_iff bit_push_bit_iff bit_and_iff bit_xor_iff bit_drop_bit_eq comp_def bit_1_iff possible_bit_word
  by auto

lemma nxdn_step_fifteen: "fifteen r \<Longrightarrow> fifteen (nxdn_step r)"
  unfolding fifteen_def nxdn_step_bits using bit_imp_le_length [of r 16] by auto

lemma uint_bits: "bit (uint (r :: u16)) k \<longleftrightarrow> bit r k"
  using bit_imp_le_length [of r k] by (auto simp: bit_uint_iff)

lemma one_bit_int: "bit ((x :: int) AND 1) n \<longleftrightarrow> n = 0 \<and> bit x 0"
  by (auto simp: bit_and_iff bit_1_iff)

lemma nxdn_step_uint:
  "uint (nxdn_step r) = drop_bit 1 (uint r) OR push_bit 14 ((drop_bit 1 (uint r) XOR uint r) AND 1)"
proof (rule bit_eqI)
  fix n
  have "bit (drop_bit 1 (uint r) OR push_bit 14 ((drop_bit 1 (uint r) XOR uint r) AND 1)) n
      \<longleftrightarrow> bit r (1 + n) \<or> (14 \<le> n \<and> n - 14 = 0 \<and> bit r (1 + 0) \<noteq> bit r 0)"
    unfolding bit_or_iff bit_push_bit_iff one_bit_int bit_xor_iff bit_drop_bit_eq comp_def uint_bits by simp
  then show "bit (uint (nxdn_step r)) n = bit (drop_bit 1 (uint r) OR push_bit 14 ((drop_bit 1 (uint r) XOR uint r) AND 1)) n"
    unfolding uint_bits nxdn_step_bits by auto
qed

lemma uint_low: "word_of_int (uint (r :: u16) AND 1) = (ucast (r AND 1) :: u8)"
  by (rule bit_eqI) (auto simp: bit_ucast_iff bit_and_iff bit_1_iff bit_word_of_int_iff bit_uint_iff)

lemma scrambled:
  "n \<le> length bits \<Longrightarrow> lfsrn_loop n (uint r) bits = (xor_bytes (nxdn_bits n r) bits, uint ((nxdn_step ^^ n) r))"
proof (induction n arbitrary: r bits)
  case (Suc n)
  then obtain b bs where b: "bits = b # bs" by (cases bits) auto
  have "lfsrn_loop n (uint (nxdn_step r)) bs = (xor_bytes (nxdn_bits n (nxdn_step r)) bs, uint ((nxdn_step ^^ n) (nxdn_step r)))"
    by (rule Suc.IH) (use Suc.prems b in simp)
  then show ?case
    unfolding lfsrn_loop.simps Let_def nxdn_step_uint [symmetric] b list.sel
    by (simp add: xor_bytes_def uint_low funpow_swap1 xor.commute)
qed (simp add: xor_bytes_def)

lemma stepped_fifteen: "fifteen r \<Longrightarrow> fifteen ((nxdn_step ^^ n) r)"
  by (induction n) (simp_all add: nxdn_step_fifteen)

lemma nxdn_bits_split: "nxdn_bits (m + n) r = nxdn_bits m r @ nxdn_bits n ((nxdn_step ^^ m) r)"
  by (induction m arbitrary: r) (simp_all add: funpow_swap1)


definition register15 :: "u64 \<Rightarrow> u16" where
  "register15 mi = ucast mi AND 0x7FFF"

lemma bit_mask15: "bit (0x7FFF :: 'a::len word) n \<longleftrightarrow> n < 15 \<and> n < LENGTH('a)"
proof -
  have "(0x7FFF :: 'a word) = mask 15" by (simp add: mask_eq_exp_minus_1)
  then show ?thesis by (simp only: bit_mask_iff possible_bit_word) auto
qed

lemma register_fifteen: "fifteen (register15 mi)"
  by (simp only: fifteen_def register15_def bit_and_iff bit_mask15) simp

lemma register_uint: "uint (mi AND 0x7FFF) = uint (register15 mi)"
  by (rule bit_eqI) (auto simp only: bit_uint_iff register15_def bit_and_iff bit_mask15 bit_ucast_iff possible_bit_word len_bit0 len_num1)

lemma register_again: "fifteen r \<Longrightarrow> register15 (ucast r) = r"
  unfolding register15_def
proof (rule bit_eqI)
  fix n assume "fifteen r"
  then show "bit (ucast (ucast r :: u64) AND 0x7FFF :: u16) n \<longleftrightarrow> bit r n"
    unfolding bit_and_iff bit_mask15 bit_ucast_iff using fifteen_bits [of r n] by auto
qed

lemma packet_register: "nxdn_pdu_scrambler_keystream_creation (uint (mi AND 0x7FFF)) (int n) = nxdn_bits n (register15 mi)"
proof -
  have "word_of_int (uint (register15 mi)) AND 0x7FFF = register15 mi"
    unfolding word_of_int_uint
  proof (rule bit_eqI)
    fix n show "bit (register15 mi AND 0x7FFF) n \<longleftrightarrow> bit (register15 mi) n"
      unfolding bit_and_iff bit_mask15 using fifteen_bits [OF register_fifteen, of mi n] by auto
  qed
  then show ?thesis by (simp add: nxdn_pdu_scrambler_keystream_creation_def register_uint)
qed

lemma scrambled_voice:
  assumes "49 \<le> length buf"
  shows "LFSRN buf mi = (xor_bytes (nxdn_bits 49 (register15 mi)) buf, ucast ((nxdn_step ^^ 49) (register15 mi)))"
proof -
  let ?r = "(nxdn_step ^^ 49) (register15 mi)"
  have r: "fifteen ?r" by (rule stepped_fifteen [OF register_fifteen])
  have "word_of_int (uint ?r AND 0x7FFF) = (ucast ?r :: u64)"
  proof (rule bit_eqI)
    fix n
    have m: "bit (0x7FFF :: int) n \<longleftrightarrow> n < 15" using bit_mask_iff [of 15 n, where 'a = int] by (simp add: mask_eq_exp_minus_1)
    show "bit (word_of_int (uint ?r AND 0x7FFF) :: u64) n \<longleftrightarrow> bit (ucast ?r :: u64) n"
      unfolding bit_word_of_int_iff bit_and_iff uint_bits m bit_ucast_iff using fifteen_bits [OF r, of n] by auto
  qed
  then show ?thesis using scrambled [OF assms, of "register15 mi"] by (simp add: LFSRN_def register_uint)
qed

text \<open>C36: NXDN voice is descrambled by the first 49 bits of the stream that the packet scrambler makes from the same
  fifteen-bit value, and the value left in the call's indicator is where that stream goes on: the packet stream
  for a longer run is the frame's 49 bits followed by the stream made from what the voice routine stored.\<close>

theorem voice_and_packets_share_the_scrambler:
  assumes "length buf = 49"
  shows "fst (LFSRN buf mi) = xor_bytes (nxdn_pdu_scrambler_keystream_creation (uint (mi AND 0x7FFF)) 49) buf
    \<and> nxdn_pdu_scrambler_keystream_creation (uint (mi AND 0x7FFF)) (49 + int n)
      = nxdn_pdu_scrambler_keystream_creation (uint (mi AND 0x7FFF)) 49
        @ nxdn_pdu_scrambler_keystream_creation (uint (snd (LFSRN buf mi) AND 0x7FFF)) (int n)"
proof -
  have f: "nxdn_pdu_scrambler_keystream_creation (uint (mi AND 0x7FFF)) 49 = nxdn_bits 49 (register15 mi)"
    using packet_register [of mi 49] by simp
  have "nxdn_pdu_scrambler_keystream_creation (uint (mi AND 0x7FFF)) (49 + int n) = nxdn_bits (49 + n) (register15 mi)"
    using packet_register [of mi "49 + n"] by simp
  also have "\<dots> = nxdn_bits 49 (register15 mi) @ nxdn_bits n ((nxdn_step ^^ 49) (register15 mi))" by (rule nxdn_bits_split)
  finally show ?thesis
    using assms by (simp add: f scrambled_voice packet_register register_again stepped_fifteen register_fifteen)
qed

lemma voice_and_packets_share_the_scrambler_witness:
  "fst (LFSRN (replicate 49 1) 7) = xor_bytes (nxdn_pdu_scrambler_keystream_creation (uint ((7 :: u64) AND 0x7FFF)) 49) (replicate 49 1)"
  using voice_and_packets_share_the_scrambler [of "replicate 49 1" 7 0, OF length_replicate, THEN conjunct1] .

end
