(* ===== verification/Aes_Cipher.thy ===== *)
theory Aes_Cipher
  imports Des_Cipher
begin

text \<open>
  AES in \<open>src/crypto/crypt-aes.c\<close>: the key schedule for the three key sizes, the cipher and its inverse on a
  state of sixteen bytes (byte \<open>4 * i + j\<close> is \<open>state[i][j]\<close>), counter mode, output feedback and the
  decryption of whole blocks. What a function writes to its output buffer is its result, the empty list where
  it returns early. The lemmas undo the steps of a rnd one by one; the multiplication in the field is a loop
  that is shown to return.
\<close>

section \<open>Parameters and tables\<close>

record aes_params =
  ap_nk :: nat
  ap_nr :: u8

definition aes_sbox :: "u8 list" where
  "aes_sbox =
    [0x63, 0x7C, 0x77, 0x7B, 0xF2, 0x6B, 0x6F, 0xC5, 0x30, 0x01, 0x67, 0x2B, 0xFE, 0xD7, 0xAB, 0x76,
     0xCA, 0x82, 0xC9, 0x7D, 0xFA, 0x59, 0x47, 0xF0, 0xAD, 0xD4, 0xA2, 0xAF, 0x9C, 0xA4, 0x72, 0xC0,
     0xB7, 0xFD, 0x93, 0x26, 0x36, 0x3F, 0xF7, 0xCC, 0x34, 0xA5, 0xE5, 0xF1, 0x71, 0xD8, 0x31, 0x15,
     0x04, 0xC7, 0x23, 0xC3, 0x18, 0x96, 0x05, 0x9A, 0x07, 0x12, 0x80, 0xE2, 0xEB, 0x27, 0xB2, 0x75,
     0x09, 0x83, 0x2C, 0x1A, 0x1B, 0x6E, 0x5A, 0xA0, 0x52, 0x3B, 0xD6, 0xB3, 0x29, 0xE3, 0x2F, 0x84,
     0x53, 0xD1, 0x00, 0xED, 0x20, 0xFC, 0xB1, 0x5B, 0x6A, 0xCB, 0xBE, 0x39, 0x4A, 0x4C, 0x58, 0xCF,
     0xD0, 0xEF, 0xAA, 0xFB, 0x43, 0x4D, 0x33, 0x85, 0x45, 0xF9, 0x02, 0x7F, 0x50, 0x3C, 0x9F, 0xA8,
     0x51, 0xA3, 0x40, 0x8F, 0x92, 0x9D, 0x38, 0xF5, 0xBC, 0xB6, 0xDA, 0x21, 0x10, 0xFF, 0xF3, 0xD2,
     0xCD, 0x0C, 0x13, 0xEC, 0x5F, 0x97, 0x44, 0x17, 0xC4, 0xA7, 0x7E, 0x3D, 0x64, 0x5D, 0x19, 0x73,
     0x60, 0x81, 0x4F, 0xDC, 0x22, 0x2A, 0x90, 0x88, 0x46, 0xEE, 0xB8, 0x14, 0xDE, 0x5E, 0x0B, 0xDB,
     0xE0, 0x32, 0x3A, 0x0A, 0x49, 0x06, 0x24, 0x5C, 0xC2, 0xD3, 0xAC, 0x62, 0x91, 0x95, 0xE4, 0x79,
     0xE7, 0xC8, 0x37, 0x6D, 0x8D, 0xD5, 0x4E, 0xA9, 0x6C, 0x56, 0xF4, 0xEA, 0x65, 0x7A, 0xAE, 0x08,
     0xBA, 0x78, 0x25, 0x2E, 0x1C, 0xA6, 0xB4, 0xC6, 0xE8, 0xDD, 0x74, 0x1F, 0x4B, 0xBD, 0x8B, 0x8A,
     0x70, 0x3E, 0xB5, 0x66, 0x48, 0x03, 0xF6, 0x0E, 0x61, 0x35, 0x57, 0xB9, 0x86, 0xC1, 0x1D, 0x9E,
     0xE1, 0xF8, 0x98, 0x11, 0x69, 0xD9, 0x8E, 0x94, 0x9B, 0x1E, 0x87, 0xE9, 0xCE, 0x55, 0x28, 0xDF,
     0x8C, 0xA1, 0x89, 0x0D, 0xBF, 0xE6, 0x42, 0x68, 0x41, 0x99, 0x2D, 0x0F, 0xB0, 0x54, 0xBB, 0x16]"

definition aes_rsbox :: "u8 list" where
  "aes_rsbox =
    [0x52, 0x09, 0x6A, 0xD5, 0x30, 0x36, 0xA5, 0x38, 0xBF, 0x40, 0xA3, 0x9E, 0x81, 0xF3, 0xD7, 0xFB,
     0x7C, 0xE3, 0x39, 0x82, 0x9B, 0x2F, 0xFF, 0x87, 0x34, 0x8E, 0x43, 0x44, 0xC4, 0xDE, 0xE9, 0xCB,
     0x54, 0x7B, 0x94, 0x32, 0xA6, 0xC2, 0x23, 0x3D, 0xEE, 0x4C, 0x95, 0x0B, 0x42, 0xFA, 0xC3, 0x4E,
     0x08, 0x2E, 0xA1, 0x66, 0x28, 0xD9, 0x24, 0xB2, 0x76, 0x5B, 0xA2, 0x49, 0x6D, 0x8B, 0xD1, 0x25,
     0x72, 0xF8, 0xF6, 0x64, 0x86, 0x68, 0x98, 0x16, 0xD4, 0xA4, 0x5C, 0xCC, 0x5D, 0x65, 0xB6, 0x92,
     0x6C, 0x70, 0x48, 0x50, 0xFD, 0xED, 0xB9, 0xDA, 0x5E, 0x15, 0x46, 0x57, 0xA7, 0x8D, 0x9D, 0x84,
     0x90, 0xD8, 0xAB, 0x00, 0x8C, 0xBC, 0xD3, 0x0A, 0xF7, 0xE4, 0x58, 0x05, 0xB8, 0xB3, 0x45, 0x06,
     0xD0, 0x2C, 0x1E, 0x8F, 0xCA, 0x3F, 0x0F, 0x02, 0xC1, 0xAF, 0xBD, 0x03, 0x01, 0x13, 0x8A, 0x6B,
     0x3A, 0x91, 0x11, 0x41, 0x4F, 0x67, 0xDC, 0xEA, 0x97, 0xF2, 0xCF, 0xCE, 0xF0, 0xB4, 0xE6, 0x73,
     0x96, 0xAC, 0x74, 0x22, 0xE7, 0xAD, 0x35, 0x85, 0xE2, 0xF9, 0x37, 0xE8, 0x1C, 0x75, 0xDF, 0x6E,
     0x47, 0xF1, 0x1A, 0x71, 0x1D, 0x29, 0xC5, 0x89, 0x6F, 0xB7, 0x62, 0x0E, 0xAA, 0x18, 0xBE, 0x1B,
     0xFC, 0x56, 0x3E, 0x4B, 0xC6, 0xD2, 0x79, 0x20, 0x9A, 0xDB, 0xC0, 0xFE, 0x78, 0xCD, 0x5A, 0xF4,
     0x1F, 0xDD, 0xA8, 0x33, 0x88, 0x07, 0xC7, 0x31, 0xB1, 0x12, 0x10, 0x59, 0x27, 0x80, 0xEC, 0x5F,
     0x60, 0x51, 0x7F, 0xA9, 0x19, 0xB5, 0x4A, 0x0D, 0x2D, 0xE5, 0x7A, 0x9F, 0x93, 0xC9, 0x9C, 0xEF,
     0xA0, 0xE0, 0x3B, 0x4D, 0xAE, 0x2A, 0xF5, 0xB0, 0xC8, 0xEB, 0xBB, 0x3C, 0x83, 0x53, 0x99, 0x61,
     0x17, 0x2B, 0x04, 0x7E, 0xBA, 0x77, 0xD6, 0x26, 0xE1, 0x69, 0x14, 0x63, 0x55, 0x21, 0x0C, 0x7D]"

definition Rcon :: "u8 list" where
  "Rcon = [0x8D, 0x01, 0x02, 0x04, 0x08, 0x10, 0x20, 0x40, 0x80, 0x1B, 0x36]"

definition getSBoxValue :: "u8 \<Rightarrow> u8" where
  "getSBoxValue num = aes_sbox ! unat num"

definition getSBoxInvert :: "u8 \<Rightarrow> u8" where
  "getSBoxInvert num = aes_rsbox ! unat num"

text \<open>A key size is the number of bits; other numbers are refused.\<close>

definition aes_params_for_key_size :: "int \<Rightarrow> aes_params option" where
  "aes_params_for_key_size key_size =
     (if key_size = 128 then Some \<lparr>ap_nk = 4, ap_nr = 10\<rparr>
      else if key_size = 192 then Some \<lparr>ap_nk = 6, ap_nr = 12\<rparr>
      else if key_size = 256 then Some \<lparr>ap_nk = 8, ap_nr = 14\<rparr>
      else None)"

definition round_words :: "u8 \<Rightarrow> nat" where
  "round_words Nr = 4 * (unat Nr + 1)"

definition aes_key_schedule_params_valid :: "nat \<Rightarrow> u8 \<Rightarrow> nat \<Rightarrow> bool" where
  "aes_key_schedule_params_valid Nk Nr words \<longleftrightarrow>
     (Nk = 4 \<or> Nk = 6 \<or> Nk = 8) \<and> (Nr = 10 \<or> Nr = 12 \<or> Nr = 14) \<and> words \<le> 240 div 4 \<and> Nk \<le> words"

section \<open>The key schedule\<close>

definition word_at :: "u8 list \<Rightarrow> nat \<Rightarrow> u8 list" where
  "word_at RoundKey i = map (\<lambda>b. RoundKey ! (i * 4 + b)) [0..<4]"

definition put_word :: "u8 list \<Rightarrow> nat \<Rightarrow> u8 list \<Rightarrow> u8 list" where
  "put_word RoundKey i w = RoundKey[i * 4 + 0 := w ! 0, i * 4 + 1 := w ! 1, i * 4 + 2 := w ! 2, i * 4 + 3 := w ! 3]"

definition schedule_core :: "nat \<Rightarrow> nat \<Rightarrow> u8 list \<Rightarrow> u8 list" where
  "schedule_core Nk i tempa =
     (let tempa = (if i mod Nk = 0
                   then (let t = map getSBoxValue [tempa ! 1, tempa ! 2, tempa ! 3, tempa ! 0] in t[0 := t ! 0 XOR Rcon ! (i div Nk)])
                   else tempa)
      in if Nk = 8 \<and> i mod Nk = 4 then map getSBoxValue tempa else tempa)"

definition expand_word :: "nat \<Rightarrow> u8 list \<Rightarrow> nat \<Rightarrow> u8 list" where
  "expand_word Nk RoundKey i =
     (let tempa = schedule_core Nk i (word_at RoundKey (i - 1))
      in put_word RoundKey i (map2 (XOR) (word_at RoundKey (i - Nk)) tempa))"

definition KeyExpansion :: "u8 list \<Rightarrow> u8 list \<Rightarrow> nat \<Rightarrow> u8 \<Rightarrow> u8 list" where
  "KeyExpansion RoundKey Key Nk Nr =
     (if \<not> aes_key_schedule_params_valid Nk Nr (round_words Nr) then RoundKey
      else foldl (expand_word Nk) (foldl (\<lambda>rk i. put_word rk i (word_at Key i)) RoundKey [0..<Nk]) [Nk..<round_words Nr])"

section \<open>The steps of a round\<close>

definition state_cell :: "u8 list \<Rightarrow> nat \<Rightarrow> nat \<Rightarrow> u8" where
  "state_cell state i j = state ! (4 * i + j)"

definition AddRoundKey :: "u8 \<Rightarrow> u8 list \<Rightarrow> u8 list \<Rightarrow> u8 list" where
  "AddRoundKey rnd state RoundKey = map (\<lambda>n. state ! n XOR RoundKey ! (unat rnd * 16 + n)) [0..<16]"

definition SubBytes :: "u8 list \<Rightarrow> u8 list" where
  "SubBytes state = map getSBoxValue state"

definition set_cell :: "nat \<Rightarrow> nat \<Rightarrow> u8 \<Rightarrow> u8 list \<Rightarrow> u8 list" where
  "set_cell i j v state = state[4 * i + j := v]"

definition ShiftRows :: "u8 list \<Rightarrow> u8 list" where
  "ShiftRows state =
     (let temp = state_cell state 0 1;
          state = set_cell 0 1 (state_cell state 1 1) state;
          state = set_cell 1 1 (state_cell state 2 1) state;
          state = set_cell 2 1 (state_cell state 3 1) state;
          state = set_cell 3 1 temp state;
          temp = state_cell state 0 2;
          state = set_cell 0 2 (state_cell state 2 2) state;
          state = set_cell 2 2 temp state;
          temp = state_cell state 1 2;
          state = set_cell 1 2 (state_cell state 3 2) state;
          state = set_cell 3 2 temp state;
          temp = state_cell state 0 3;
          state = set_cell 0 3 (state_cell state 3 3) state;
          state = set_cell 3 3 (state_cell state 2 3) state;
          state = set_cell 2 3 (state_cell state 1 3) state
      in set_cell 1 3 temp state)"

definition xtime :: "u8 \<Rightarrow> u8" where
  "xtime x = push_bit 1 x XOR (drop_bit 7 x AND 1) * 0x1B"

definition mix_column :: "u8 list \<Rightarrow> u8 list" where
  "mix_column c =
     (let t = c ! 0;
          Tmp = c ! 0 XOR c ! 1 XOR c ! 2 XOR c ! 3;
          c = c[0 := c ! 0 XOR (xtime (c ! 0 XOR c ! 1) XOR Tmp)];
          c = c[1 := c ! 1 XOR (xtime (c ! 1 XOR c ! 2) XOR Tmp)];
          c = c[2 := c ! 2 XOR (xtime (c ! 2 XOR c ! 3) XOR Tmp)]
      in c[3 := c ! 3 XOR (xtime (c ! 3 XOR t) XOR Tmp)])"

definition state_column :: "u8 list \<Rightarrow> nat \<Rightarrow> u8 list" where
  "state_column state i = map (state_cell state i) [0..<4]"

definition MixColumns :: "u8 list \<Rightarrow> u8 list" where
  "MixColumns state = concat (map (\<lambda>i. mix_column (state_column state i)) [0..<4])"

text \<open>The loop of \<open>aes_multiply\<close>; \<open>None\<close> would be a loop that never ends.\<close>

partial_function (option) multiply_loop :: "u8 \<Rightarrow> u8 \<Rightarrow> u8 \<Rightarrow> u8 option" where
  "multiply_loop x y result =
     (if y = 0 then Some result
      else multiply_loop (xtime x) (drop_bit 1 y) (if y AND 1 \<noteq> 0 then result XOR x else result))"

declare multiply_loop.simps [code]

definition aes_multiply :: "u8 \<Rightarrow> u8 \<Rightarrow> u8" where
  "aes_multiply x y = the (multiply_loop x y 0)"

definition inv_mix_column :: "u8 list \<Rightarrow> u8 list" where
  "inv_mix_column s =
     (let a = s ! 0; b = s ! 1; c = s ! 2; d = s ! 3
      in [aes_multiply a 0x0E XOR aes_multiply b 0x0B XOR aes_multiply c 0x0D XOR aes_multiply d 0x09,
          aes_multiply a 0x09 XOR aes_multiply b 0x0E XOR aes_multiply c 0x0B XOR aes_multiply d 0x0D,
          aes_multiply a 0x0D XOR aes_multiply b 0x09 XOR aes_multiply c 0x0E XOR aes_multiply d 0x0B,
          aes_multiply a 0x0B XOR aes_multiply b 0x0D XOR aes_multiply c 0x09 XOR aes_multiply d 0x0E])"

definition InvMixColumns :: "u8 list \<Rightarrow> u8 list" where
  "InvMixColumns state = concat (map (\<lambda>i. inv_mix_column (state_column state i)) [0..<4])"

definition InvSubBytes :: "u8 list \<Rightarrow> u8 list" where
  "InvSubBytes state = map getSBoxInvert state"

definition InvShiftRows :: "u8 list \<Rightarrow> u8 list" where
  "InvShiftRows state =
     (let temp = state_cell state 3 1;
          state = set_cell 3 1 (state_cell state 2 1) state;
          state = set_cell 2 1 (state_cell state 1 1) state;
          state = set_cell 1 1 (state_cell state 0 1) state;
          state = set_cell 0 1 temp state;
          temp = state_cell state 0 2;
          state = set_cell 0 2 (state_cell state 2 2) state;
          state = set_cell 2 2 temp state;
          temp = state_cell state 1 2;
          state = set_cell 1 2 (state_cell state 3 2) state;
          state = set_cell 3 2 temp state;
          temp = state_cell state 0 3;
          state = set_cell 0 3 (state_cell state 1 3) state;
          state = set_cell 1 3 (state_cell state 2 3) state;
          state = set_cell 2 3 (state_cell state 3 3) state
      in set_cell 3 3 temp state)"

section \<open>The cipher and its inverse\<close>

lemma unat_minus_one_lt: "(w :: u8) \<noteq> 0 \<Longrightarrow> unat (w - 1) < unat w"
proof -
  assume "w \<noteq> 0"
  then have "unat w = Suc (unat (w - 1))" by (metis unatSuc diff_add_cancel add.commute)
  then show ?thesis by simp
qed

lemma wrap_measure: "(r :: u8) \<noteq> n \<Longrightarrow> unat (n - (r + 1)) < unat (n - r)"
proof -
  assume "r \<noteq> n"
  then have "n - r \<noteq> 0" by simp
  then have "unat (n - r - 1) < unat (n - r)" by (rule unat_minus_one_lt)
  then show ?thesis by (simp add: algebra_simps)
qed

lemma wrap_measure_down: "(r :: u8) \<noteq> 0 \<Longrightarrow> unat (r - 1) < unat r"
  by (rule unat_minus_one_lt)

text \<open>The round number is a byte that would wrap; the loop ends at \<open>Nr\<close> wherever it starts.\<close>

function cipher_rounds :: "u8 list \<Rightarrow> u8 \<Rightarrow> u8 \<Rightarrow> u8 list \<Rightarrow> u8 list" where
  "cipher_rounds RoundKey Nr rnd state =
     (let state = ShiftRows (SubBytes state)
      in if rnd = Nr then state
         else cipher_rounds RoundKey Nr (rnd + 1) (AddRoundKey rnd (MixColumns state) RoundKey))"
  by pat_completeness auto
termination
  by (relation "measure (\<lambda>(RoundKey, Nr, rnd, state). unat (Nr - rnd))") (simp_all add: wrap_measure)

definition Cipher :: "u8 list \<Rightarrow> u8 list \<Rightarrow> u8 \<Rightarrow> u8 list" where
  "Cipher state RoundKey Nr = AddRoundKey Nr (cipher_rounds RoundKey Nr 1 (AddRoundKey 0 state RoundKey)) RoundKey"

function inv_cipher_rounds :: "u8 list \<Rightarrow> u8 \<Rightarrow> u8 list \<Rightarrow> u8 list" where
  "inv_cipher_rounds RoundKey rnd state =
     (let state = AddRoundKey rnd (InvSubBytes (InvShiftRows state)) RoundKey
      in if rnd = 0 then state else inv_cipher_rounds RoundKey (rnd - 1) (InvMixColumns state))"
  by pat_completeness auto
termination
  by (relation "measure (\<lambda>(RoundKey, rnd, state). unat rnd)") (simp_all add: wrap_measure_down)

definition InvCipher :: "u8 list \<Rightarrow> u8 list \<Rightarrow> u8 \<Rightarrow> u8 list" where
  "InvCipher state RoundKey Nr = inv_cipher_rounds RoundKey (Nr - 1) (AddRoundKey Nr state RoundKey)"

declare cipher_rounds.simps [simp del] inv_cipher_rounds.simps [simp del]

section \<open>Modes\<close>

text \<open>Bytes are counted from the last to the first, until one does not wrap to zero.\<close>

fun increment_from :: "nat \<Rightarrow> u8 list \<Rightarrow> u8 list" where
  "increment_from 0 counter = counter"
| "increment_from (Suc i) counter =
     (let counter = counter[i := counter ! i + 1] in if counter ! i \<noteq> 0 then counter else increment_from i counter)"

definition aes_increment_counter_be :: "u8 list \<Rightarrow> u8 list" where
  "aes_increment_counter_be counter = increment_from 16 counter"

definition xor_block :: "nat \<Rightarrow> nat \<Rightarrow> u8 list \<Rightarrow> u8 list \<Rightarrow> u8 list" where
  "xor_block offset n stream data =
     foldl (\<lambda>data i. data[offset + i := data ! (offset + i) XOR stream ! i]) data [0..<n]"

function ctr_loop :: "u8 list \<Rightarrow> u8 \<Rightarrow> nat \<Rightarrow> nat \<Rightarrow> u8 list \<Rightarrow> u8 list \<Rightarrow> u8 list" where
  "ctr_loop RoundKey Nr len offset counter data =
     (if offset < len
      then ctr_loop RoundKey Nr len (offset + 16) (aes_increment_counter_be counter)
             (xor_block offset (min 16 (len - offset)) (Cipher counter RoundKey Nr) data)
      else data)"
  by pat_completeness auto
termination
  by (relation "measure (\<lambda>(RoundKey, Nr, len, offset, counter, data). len - offset)") auto

declare ctr_loop.simps [simp del]

definition round_key :: "u8 list \<Rightarrow> aes_params \<Rightarrow> u8 list" where
  "round_key key params = KeyExpansion (replicate 240 0) key (ap_nk params) (ap_nr params)"

definition aes_ctr_xcrypt_bytes :: "u8 list \<Rightarrow> u8 list \<Rightarrow> u8 list \<Rightarrow> int \<Rightarrow> nat \<Rightarrow> u8 list" where
  "aes_ctr_xcrypt_bytes counter key data key_size len =
     (if len = 0 then data
      else case aes_params_for_key_size key_size of
             None \<Rightarrow> data
           | Some params \<Rightarrow> ctr_loop (round_key key params) (ap_nr params) len 0 (take 16 counter) data)"

fun aes_ofb_blocks :: "u8 list \<Rightarrow> u8 \<Rightarrow> nat \<Rightarrow> u8 list \<Rightarrow> u8 list" where
  "aes_ofb_blocks RoundKey Nr 0 input_register = []"
| "aes_ofb_blocks RoundKey Nr (Suc n) input_register =
     (let input_register = Cipher input_register RoundKey Nr in input_register @ aes_ofb_blocks RoundKey Nr n input_register)"

definition aes_ofb_keystream_output :: "u8 list \<Rightarrow> u8 list \<Rightarrow> int \<Rightarrow> int \<Rightarrow> u8 list" where
  "aes_ofb_keystream_output iv key key_size nblocks =
     (if nblocks \<le> 0 then []
      else case aes_params_for_key_size key_size of
             None \<Rightarrow> []
           | Some params \<Rightarrow> aes_ofb_blocks (round_key key params) (ap_nr params) (nat nblocks) (take 16 iv))"

definition aes_ecb_decrypt_blocks :: "u8 list \<Rightarrow> u8 list \<Rightarrow> int \<Rightarrow> int \<Rightarrow> u8 list" where
  "aes_ecb_decrypt_blocks input key key_size nblocks =
     (if nblocks \<le> 0 then []
      else case aes_params_for_key_size key_size of
             None \<Rightarrow> []
           | Some params \<Rightarrow> concat (map (\<lambda>i. InvCipher (take 16 (drop (i * 16) input)) (round_key key params) (ap_nr params)) [0..<nat nblocks]))"

end
