(* ===== verification/Aes_Props.thy ===== *)
theory Aes_Props
  imports Aes_Cipher
begin

section \<open>The field\<close>

lemma xtime_if: "xtime x = push_bit 1 x XOR (if bit x 7 then 0x1B else 0)"
proof -
  have "drop_bit 7 x AND 1 = of_bool (bit x 7)"
    by (rule bit_eqI) (auto simp: bit_and_iff bit_1_iff bit_drop_bit_eq bit_of_bool_iff)
  then show ?thesis unfolding xtime_def by simp
qed

lemma xtime_xor: "xtime (a XOR b) = xtime a XOR xtime b"
proof -
  have "push_bit 1 (a XOR b) = push_bit 1 a XOR push_bit 1 b" by (rule push_bit_xor)
  then show ?thesis unfolding xtime_if by (auto simp: bit_xor_iff xor.assoc xor.left_commute xor.commute)
qed

lemma xtime_zero: "xtime 0 = 0"
  by (simp add: xtime_if)

text \<open>
  The field, from its definition and without the code's steps: bytes are polynomials over the two-element
  field, multiplied without carries and reduced by long division modulo \<open>x^8 + x^4 + x^3 + x + 1\<close>.
\<close>

definition poly_product :: "u8 \<Rightarrow> u8 \<Rightarrow> u16" where
  "poly_product x y = foldr (\<lambda>k p. (if bit y k then push_bit k (ucast x) else 0) XOR p) [0..<8] 0"

definition poly_cancel :: "nat \<Rightarrow> u16 \<Rightarrow> u16" where
  "poly_cancel k p = (if bit p (k + 8) then p XOR push_bit k 0b100011011 else p)"

definition poly_remainder :: "u16 \<Rightarrow> u8" where
  "poly_remainder p = ucast (foldr poly_cancel [0..<8] p)"

definition field_product :: "u8 \<Rightarrow> u8 \<Rightarrow> u8" where
  "field_product x y = poly_remainder (poly_product x y)"

text \<open>The remainder is additive, and so decided by the multiples of single powers.\<close>

lemma cancel_xor: "poly_cancel k (a XOR b) = poly_cancel k a XOR poly_cancel k b"
  unfolding poly_cancel_def by (auto simp: bit_xor_iff xor.assoc xor.left_commute xor.commute)

lemma remainder_xor: "poly_remainder (a XOR b) = poly_remainder a XOR poly_remainder b"
proof -
  have "foldr poly_cancel ks (a XOR b) = foldr poly_cancel ks a XOR foldr poly_cancel ks b" for ks
    by (induction ks) (simp_all add: cancel_xor)
  then show ?thesis by (simp add: poly_remainder_def unsigned_xor_eq)
qed

lemma remainder_zero: "poly_remainder 0 = 0"
  using remainder_xor [of 0 0] by simp

lemma remainder_sum:
  "poly_remainder (foldr (\<lambda>k p. (if c k then f k else 0) XOR p) ks 0) =
   foldr (\<lambda>k p. (if c k then poly_remainder (f k) else 0) XOR p) ks 0"
  by (induction ks) (simp_all add: remainder_zero remainder_xor)

text \<open>One more factor \<open>x\<close>: the division of the shifted polynomial is the shifted division and one more step.\<close>

lemma cancel_shift: "k < 7 \<Longrightarrow> poly_cancel (Suc k) (push_bit 1 p) = push_bit 1 (poly_cancel k p)"
proof -
  assume k: "k < 7"
  then have "bit (push_bit 1 p) (Suc k + 8) \<longleftrightarrow> bit p (k + 8)" unfolding bit_push_bit_iff by (simp add: add.commute)
  moreover have "push_bit (Suc k) m = push_bit 1 (push_bit k m)" for m :: u16 by (simp add: push_bit_push_bit del: push_bit_of_1)
  ultimately show ?thesis unfolding poly_cancel_def by (cases "bit p (k + 8)") (simp_all only: push_bit_xor if_True if_False)
qed

lemma cancels_shift: "set ks \<subseteq> {..<7} \<Longrightarrow> foldr poly_cancel (map Suc ks) (push_bit 1 p) = push_bit 1 (foldr poly_cancel ks p)"
  by (induction ks) (simp_all only: list.map foldr.simps o_apply id_apply list.set insert_subset lessThan_iff cancel_shift)

lemma remainder_shift:
  assumes "\<not> bit p 15" shows "poly_remainder (push_bit 1 p) = xtime (poly_remainder p)"
proof -
  define q where "q = foldr poly_cancel [0..<7] p"
  have up: "[0..<8] = 0 # map Suc [0..<7]" "[0..<8] = [0..<7] @ [7]" by (simp_all add: upt_rec)
  have "foldr poly_cancel [0..<8] (push_bit 1 p) = poly_cancel 0 (push_bit 1 q)"
    unfolding up(1) q_def using cancels_shift [of "[0..<7]" p] by (simp only: foldr.simps o_apply set_upt atLeast0LessThan order_refl simp_thms)
  moreover have "foldr poly_cancel [0..<8] p = q" using assms unfolding up(2) q_def by (simp add: poly_cancel_def)
  moreover have "ucast (poly_cancel 0 (push_bit 1 q)) = xtime (ucast q)"
  proof -
    have "ucast (push_bit 1 q) = push_bit 1 (ucast q :: u8)"
      by (rule bit_eqI) (unfold bit_unsigned_iff bit_push_bit_iff, auto simp: bit_unsigned_iff)
    moreover have "bit (push_bit 1 q) (0 + 8) \<longleftrightarrow> bit (ucast q :: u8) 7" unfolding bit_unsigned_iff bit_push_bit_iff by simp
    moreover have "ucast (push_bit 0 0b100011011 :: u16) = (0x1B :: u8)" by simp
    ultimately show ?thesis unfolding xtime_if poly_cancel_def by (simp only: unsigned_xor_eq xor.right_neutral split: if_split) simp
  qed
  ultimately show ?thesis by (simp only: poly_remainder_def)
qed

lemma remainder_byte: "poly_remainder (ucast x) = x"
proof -
  have "\<not> bit (ucast x :: u16) (k + 8)" for k using bit_imp_le_length [of x "k + 8"] by (auto simp: bit_unsigned_iff)
  then have "foldr poly_cancel ks (ucast x) = ucast x" for ks by (induction ks) (simp_all add: poly_cancel_def)
  moreover have "ucast (ucast x :: u16) = x" by (rule bit_eqI) (auto simp: bit_unsigned_iff)
  ultimately show ?thesis by (simp add: poly_remainder_def)
qed

lemma xtime_powers: "k < 8 \<Longrightarrow> poly_remainder (push_bit k (ucast x)) = (xtime ^^ k) x"
proof (induction k)
  case (Suc k)
  have "\<not> bit (push_bit k (ucast x :: u16)) 15"
    using Suc.prems bit_imp_le_length [of x "15 - k"] by (auto simp: bit_push_bit_iff bit_unsigned_iff)
  moreover have "push_bit (Suc k) (ucast x :: u16) = push_bit 1 (push_bit k (ucast x))" unfolding push_bit_push_bit by simp
  ultimately have "poly_remainder (push_bit (Suc k) (ucast x)) = xtime (poly_remainder (push_bit k (ucast x)))"
    by (simp only: remainder_shift not_False_eq_True)
  then show ?case using Suc by simp
qed (simp add: remainder_byte)

lemma field_product_xtime: "field_product x y = foldr (\<lambda>k p. (if bit y k then (xtime ^^ k) x else 0) XOR p) [0..<8] 0"
proof -
  have "foldr (\<lambda>k p. (if bit y k then poly_remainder (push_bit k (ucast x)) else 0) XOR p) ks 0 =
      foldr (\<lambda>k p. (if bit y k then (xtime ^^ k) x else 0) XOR p) ks 0" if "set ks \<subseteq> {..<8}" for ks
    using that by (induction ks) (simp_all add: xtime_powers)
  from this [of "[0..<8]"] show ?thesis
    unfolding field_product_def poly_product_def remainder_sum by (simp only: set_upt atLeast0LessThan order_refl)
qed

fun low_product :: "nat \<Rightarrow> u8 \<Rightarrow> u8 \<Rightarrow> u8" where
  "low_product 0 x y = 0"
| "low_product (Suc n) x y = (if bit y 0 then x else 0) XOR low_product n (xtime x) (drop_bit 1 y)"

lemma byte_below: "unat (b :: u8) < 256"
  by (simp add: unsigned_less [of b, simplified])

lemma low_product_zero: "low_product n x 0 = 0"
  by (induction n arbitrary: x) simp_all

lemma low_product_sum:
  "low_product n x y = foldr (\<lambda>k p. (if bit y k then (xtime ^^ k) x else 0) XOR p) [0..<n] 0"
proof (induction n arbitrary: x y)
  case (Suc n)
  have "[0..<Suc n] = 0 # map Suc [0..<n]" by (simp add: map_Suc_upt upt_conv_Cons del: upt_Suc)
  have e: "(xtime ^^ Suc k) x = (xtime ^^ k) (xtime x)" for k by (simp add: funpow_swap1)
  from \<open>[0..<Suc n] = _\<close> show ?case by (simp add: Suc.IH foldr_map comp_def bit_drop_bit_eq e del: upt_Suc funpow.simps(2) cong: if_cong)
qed simp

lemma multiply_low: "(\<And>k. n \<le> k \<Longrightarrow> \<not> bit y k) \<Longrightarrow> multiply_loop x y r = Some (r XOR low_product n x y)"
proof (induction n arbitrary: x y r)
  case 0
  have "y = 0" by (rule bit_eqI) (use 0 in simp)
  then show ?case by (simp add: multiply_loop.simps)
next
  case (Suc n)
  have low: "y AND 1 \<noteq> 0 \<longleftrightarrow> bit y 0"
    by (simp add: and_one_eq odd_iff_mod_2_eq_one bit_0)
  have "multiply_loop (xtime x) (drop_bit 1 y) s = Some (s XOR low_product n (xtime x) (drop_bit 1 y))" for s
    by (rule Suc.IH) (use Suc.prems in \<open>simp add: bit_drop_bit_eq\<close>)
  then show ?case
    by (subst multiply_loop.simps) (simp add: low xor.assoc low_product_zero split: if_splits)
qed

lemma multiply_returns: "multiply_loop x y r = Some (r XOR field_product x y)"
  unfolding field_product_xtime low_product_sum [symmetric]
proof (rule multiply_low)
  fix k :: nat assume "8 \<le> k"
  then show "\<not> bit y k" using bit_imp_le_length [of y k] by auto
qed

text \<open>C34: The multiplication loop returns for every pair of bytes and every starting sum, and adds to it the product in
  the field: the carry-less product of the two polynomials, reduced modulo \<open>x^8 + x^4 + x^3 + x + 1\<close>.\<close>

theorem multiplication_returns_the_product:
  "multiply_loop x y r = Some (r XOR field_product x y)"
  by (rule multiply_returns)

lemma constants:
  "aes_multiply a 0x0E = xtime a XOR xtime (xtime a) XOR xtime (xtime (xtime a))"
  "aes_multiply a 0x0B = a XOR xtime a XOR xtime (xtime (xtime a))"
  "aes_multiply a 0x0D = a XOR xtime (xtime a) XOR xtime (xtime (xtime a))"
  "aes_multiply a 0x09 = a XOR xtime (xtime (xtime a))"
  by (simp_all add: aes_multiply_def multiply_loop.simps xor.assoc)

section \<open>The steps are undone\<close>

lemma xor_left_self: "(x :: u8) XOR (x XOR y) = y"
  by (simp add: xor.assoc [symmetric])

lemma columns_undone: "inv_mix_column (mix_column [a, b, c, d]) = [a, b, c, d]"
proof -
  have "mix_column [a, b, c, d] =
     [xtime a XOR xtime b XOR b XOR c XOR d, a XOR xtime b XOR xtime c XOR c XOR d,
      a XOR b XOR xtime c XOR xtime d XOR d, xtime a XOR a XOR b XOR c XOR xtime d]"
    by (simp add: mix_column_def Let_def xtime_xor ac_simps xor_left_self)
  then show ?thesis
    by (simp add: inv_mix_column_def Let_def constants xtime_xor ac_simps xor_left_self)
qed

lemma sixteen:
  assumes "length s = 16"
  shows "s = [s ! 0, s ! 1, s ! 2, s ! 3, s ! 4, s ! 5, s ! 6, s ! 7, s ! 8, s ! 9, s ! 10, s ! 11, s ! 12, s ! 13, s ! 14, s ! 15]"
proof -
  have "s = map ((!) s) [0..<16]" using map_nth [of s] assms by simp
  also have "[0..<16] = [0, 1, 2, 3, 4, 5, 6, 7, 8, 9, 10, 11, 12, 13, 14, 15 :: nat]" by (simp add: upt_rec)
  finally show ?thesis by simp
qed

lemma four: "map f [0..<4] = [f 0, f 1, f 2, f (3 :: nat)]"
  by (simp add: upt_rec numeral_2_eq_2 numeral_3_eq_3)

lemma shift_rows_undone16:
  "InvShiftRows (ShiftRows [a, b, c, d, e, f, g, h, i, j, k, l, m, n, p, q]) = [a, b, c, d, e, f, g, h, i, j, k, l, m, n, p, q]"
  by (simp add: InvShiftRows_def ShiftRows_def Let_def set_cell_def state_cell_def)

lemma shift_rows_undone: "length s = 16 \<Longrightarrow> InvShiftRows (ShiftRows s) = s"
  using shift_rows_undone16 sixteen by metis

lemma mix_columns16:
  "MixColumns [a, b, c, d, e, f, g, h, i, j, k, l, m, n, p, q] =
     mix_column [a, b, c, d] @ mix_column [e, f, g, h] @ mix_column [i, j, k, l] @ mix_column [m, n, p, q]"
  by (simp add: MixColumns_def four state_column_def state_cell_def)

lemma mix_columns_undone: "length s = 16 \<Longrightarrow> InvMixColumns (MixColumns s) = s"
proof -
  assume "length s = 16"
  then obtain a b c d e f g h i j k l m n p q where s: "s = [a, b, c, d, e, f, g, h, i, j, k, l, m, n, p, q]"
    using sixteen by blast
  have four_bytes: "length (mix_column x) = 4" if "length x = 4" for x using that by (simp add: mix_column_def Let_def)
  have parts: "state_column (w @ x @ y @ z) 0 = w \<and> state_column (w @ x @ y @ z) 1 = x \<and> state_column (w @ x @ y @ z) 2 = y \<and> state_column (w @ x @ y @ z) 3 = z"
    if "length w = 4" "length x = 4" "length y = 4" "length z = 4" for w x y z
    using that by (auto intro!: nth_equalityI simp: state_column_def state_cell_def nth_append)
  show ?thesis
    unfolding s mix_columns16 InvMixColumns_def four using parts [of "mix_column [a, b, c, d]" "mix_column [e, f, g, h]" "mix_column [i, j, k, l]" "mix_column [m, n, p, q]"]
    by (simp add: four_bytes columns_undone)
qed

lemma sbox_undone: "getSBoxInvert (getSBoxValue x) = x"
proof -
  have t: "map (\<lambda>v. aes_rsbox ! unat v) aes_sbox = map of_nat [0..<256]" by code_simp
  have x: "unat x < 256" using byte_below [of x] .
  then have "unat x < length aes_sbox" by (simp add: aes_sbox_def)
  then have "aes_rsbox ! unat (aes_sbox ! unat x) = map (\<lambda>v. aes_rsbox ! unat v) aes_sbox ! unat x" by simp
  also have "\<dots> = x" unfolding t using x by simp
  finally show ?thesis by (simp add: getSBoxInvert_def getSBoxValue_def)
qed

lemma sub_bytes_undone: "InvSubBytes (SubBytes s) = s"
  by (simp add: InvSubBytes_def SubBytes_def sbox_undone comp_def)

lemma add_round_key_undone: "length s = 16 \<Longrightarrow> AddRoundKey r (AddRoundKey r s rk) rk = s"
  unfolding AddRoundKey_def by (rule nth_equalityI) (simp_all add: xor.assoc)

lemma step_lengths [simp]:
  "length (AddRoundKey r s rk) = 16"
  "length (SubBytes s) = length s"
  "length (ShiftRows s) = length s"
  by (simp_all add: AddRoundKey_def SubBytes_def ShiftRows_def Let_def set_cell_def)

lemma mix_length [simp]: "length (MixColumns s) = 16"
  by (simp add: MixColumns_def four mix_column_def Let_def state_column_def)

section \<open>Decryption inverts encryption\<close>

lemma concat_block: "(\<And>b. b \<in> set bs \<Longrightarrow> length b = 16) \<Longrightarrow> i < length bs \<Longrightarrow> take 16 (drop (i * 16) (concat bs)) = bs ! i"
proof (induction bs arbitrary: i)
  case (Cons b bs)
  then show ?case by (cases i) (simp_all add: add.commute)
qed simp

lemma next_round: "(r :: u8) < n \<Longrightarrow> 0 < r + 1 \<and> r + 1 \<le> n"
proof -
  assume lt: "r < n"
  have "unat (r + 1) = Suc (unat r)"
  proof -
    have "unat n < 256" by (rule byte_below)
    then have "Suc (unat r) < 256" using lt by (simp add: word_less_nat_alt)
    then show ?thesis by (simp add: unat_word_ariths)
  qed
  then show ?thesis using lt by (simp add: word_less_nat_alt word_le_nat_alt)
qed

lemma rounds_undone:
  "length s = 16 \<Longrightarrow> 0 < r \<Longrightarrow> r \<le> Nr
    \<Longrightarrow> inv_cipher_rounds rk (Nr - 1) (cipher_rounds rk Nr r s) = inv_cipher_rounds rk (r - 1) (ShiftRows (SubBytes s))"
proof (induction rk Nr r s rule: cipher_rounds.induct)
  case (1 rk Nr r s)
  show ?case
  proof (cases "r = Nr")
    case True
    then show ?thesis by (simp add: cipher_rounds.simps)
  next
    case False
    then have m: "0 < r + 1 \<and> r + 1 \<le> Nr" using 1(4) next_round [of r Nr] by simp
    define x where "x = ShiftRows (SubBytes s)"
    have len: "length x = 16" using 1 by (simp add: x_def)
    have c: "cipher_rounds rk Nr r s = cipher_rounds rk Nr (r + 1) (AddRoundKey r (MixColumns x) rk)"
      using False by (subst cipher_rounds.simps) (simp add: Let_def x_def)
    have ih: "inv_cipher_rounds rk (Nr - 1) (cipher_rounds rk Nr r s)
        = inv_cipher_rounds rk r (ShiftRows (SubBytes (AddRoundKey r (MixColumns x) rk)))"
      unfolding c using 1(1) [OF x_def False] m by simp
    have "inv_cipher_rounds rk r (ShiftRows (SubBytes (AddRoundKey r (MixColumns x) rk))) = inv_cipher_rounds rk (r - 1) x"
      using 1(2) 1(3) len by (subst inv_cipher_rounds.simps) (simp add: Let_def shift_rows_undone sub_bytes_undone add_round_key_undone mix_columns_undone word_gt_0)
    then show ?thesis using ih by (simp add: x_def)
  qed
qed

lemma cipher_undone:
  assumes "length s = 16" "0 < Nr"
  shows "InvCipher (Cipher s rk Nr) rk Nr = s"
proof -
  let ?s = "AddRoundKey 0 s rk"
  have l: "length (cipher_rounds rk Nr r t) = 16" if "length t = 16" for r t
    using that by (induction rk Nr r t rule: cipher_rounds.induct) (subst cipher_rounds.simps, simp add: Let_def)
  have one: "1 \<le> Nr" using assms(2) by (simp add: word_le_nat_alt word_less_nat_alt)
  have "InvCipher (Cipher s rk Nr) rk Nr = inv_cipher_rounds rk (Nr - 1) (cipher_rounds rk Nr 1 ?s)"
    unfolding InvCipher_def Cipher_def by (simp add: add_round_key_undone l)
  also have "\<dots> = inv_cipher_rounds rk (1 - 1) (ShiftRows (SubBytes ?s))" by (rule rounds_undone) (simp_all add: one)
  also have "\<dots> = s" using assms(1) by (simp add: inv_cipher_rounds.simps Let_def shift_rows_undone sub_bytes_undone add_round_key_undone)
  finally show ?thesis .
qed


text \<open>C16: Decrypting blocks gives back what was encrypted: for each of the three key sizes and any key, the cipher applied
  to every block, block after block, and then \<open>aes_ecb_decrypt_blocks\<close> on the whole is the identity.\<close>

theorem aes_decryption_inverts_encryption:
  assumes "aes_params_for_key_size key_size = Some p" "\<forall>b \<in> set blocks. length b = 16"
  shows "aes_ecb_decrypt_blocks (concat (map (\<lambda>b. Cipher b (round_key key p) (ap_nr p)) blocks)) key key_size (int (length blocks))
    = concat blocks"
proof -
  let ?c = "map (\<lambda>b. Cipher b (round_key key p) (ap_nr p)) blocks"
  have nr: "0 < ap_nr p" using assms(1) by (auto simp: aes_params_for_key_size_def split: if_splits)
  have "take 16 (drop (i * 16) (concat ?c)) = ?c ! i" if "i < length blocks" for i
    by (rule concat_block) (use that in \<open>auto simp: Cipher_def\<close>)
  then have "map (\<lambda>i. InvCipher (take 16 (drop (i * 16) (concat ?c))) (round_key key p) (ap_nr p)) [0..<length blocks] = blocks"
    using assms(2) nr by (intro nth_equalityI) (simp_all add: cipher_undone)
  then show ?thesis using assms(1) by (simp add: aes_ecb_decrypt_blocks_def)
qed

lemma aes_decryption_inverts_encryption_witness:
  "aes_ecb_decrypt_blocks (concat (map (\<lambda>b. Cipher b (round_key (replicate 32 7) \<lparr>ap_nk = 8, ap_nr = 14\<rparr>) 14) [replicate 16 1, replicate 16 2]))
     (replicate 32 7) 256 2 = replicate 16 1 @ replicate 16 2"
  using aes_decryption_inverts_encryption [of 256 "\<lparr>ap_nk = 8, ap_nr = 14\<rparr>" "[replicate 16 1, replicate 16 2]" "replicate 32 7"]
  by (simp add: aes_params_for_key_size_def)

section \<open>Counter mode\<close>

definition counter_value :: "u8 list \<Rightarrow> nat" where
  "counter_value c = foldl (\<lambda>v b. v * 256 + unat b) 0 c"

lemma counter_snoc: "counter_value (c @ [b]) = counter_value c * 256 + unat b"
  by (simp add: counter_value_def)

lemma counter_below: "counter_value c < 256 ^ length c"
proof (induction c rule: rev_induct)
  case Nil
  show ?case by (simp add: counter_value_def)
next
  case (snoc b c)
  have "counter_value c * 256 + unat b < (counter_value c + 1) * 256" using byte_below [of b] by simp
  also have "\<dots> \<le> 256 ^ length c * 256" using snoc by (intro mult_right_mono) simp_all
  finally show ?case by (simp add: counter_snoc mult.commute)
qed

lemma byte_next: "unat (b + 1 :: u8) = (unat b + 1) mod 256" "b + 1 = 0 \<longleftrightarrow> unat (b :: u8) = 255"
proof -
  show m: "unat (b + 1 :: u8) = (unat b + 1) mod 256" by (simp add: unat_word_ariths)
  have "b + 1 = 0 \<longleftrightarrow> unat (b + 1) = 0" by (simp add: unat_eq_zero)
  then show "b + 1 = 0 \<longleftrightarrow> unat b = 255" using byte_below [of b] unfolding m by presburger
qed

lemma increment_counts:
  "length c = n \<Longrightarrow> length d = k \<Longrightarrow> \<exists>c'. increment_from n (c @ d) = c' @ d \<and> length c' = n \<and> counter_value c' = (counter_value c + 1) mod 256 ^ n"
proof (induction n arbitrary: c d k)
  case 0
  then show ?case by (simp add: counter_value_def)
next
  case (Suc n)
  then obtain a b where c: "c = a @ [b]" and a: "length a = n" by (metis length_append_singleton rev_exhaust length_0_conv nat.distinct(1) nat.inject)
  have u: "increment_from (Suc n) (c @ d) = (if b + 1 \<noteq> 0 then a @ (b + 1) # d else increment_from n (a @ (b + 1) # d))"
    by (simp add: c a Let_def nth_append list_update_append)
  show ?case
  proof (cases "b + 1 = 0")
    case False
    have "counter_value c + 1 < 256 ^ Suc n"
    proof -
      have "(counter_value a + 1) * 256 \<le> 256 ^ n * 256" using counter_below [of a] a by (intro mult_right_mono) simp_all
      then show ?thesis using False byte_below [of b] by (simp add: c counter_snoc byte_next)
    qed
    moreover have "counter_value (a @ [b + 1]) = counter_value c + 1"
      using False byte_below [of b] by (simp add: c counter_snoc byte_next)
    ultimately have "increment_from (Suc n) (c @ d) = (a @ [b + 1]) @ d \<and> length (a @ [b + 1]) = Suc n
        \<and> counter_value (a @ [b + 1]) = (counter_value c + 1) mod 256 ^ Suc n"
      using False u a by simp
    then show ?thesis by blast
  next
    case True
    obtain a' where a': "increment_from n (a @ (b + 1) # d) = a' @ (b + 1) # d" "length a' = n" "counter_value a' = (counter_value a + 1) mod 256 ^ n"
      using Suc.IH [OF a refl] by blast
    have b: "unat b = 255" using True byte_next(2) [of b] by simp
    have "(counter_value c + 1) = (counter_value a + 1) * 256" by (simp add: c counter_snoc b)
    then have "(counter_value c + 1) mod 256 ^ Suc n = (counter_value a + 1) mod 256 ^ n * 256"
      by (simp only: power_Suc2 mult_mod_left)
    then have "increment_from (Suc n) (c @ d) = (a' @ [b + 1]) @ d \<and> length (a' @ [b + 1]) = Suc n
        \<and> counter_value (a' @ [b + 1]) = (counter_value c + 1) mod 256 ^ Suc n"
      using u a' True by (simp add: counter_snoc)
    then show ?thesis by blast
  qed
qed

lemma increment_value:
  assumes "length c = 16"
  shows "length (aes_increment_counter_be c) = 16" "counter_value (aes_increment_counter_be c) = (counter_value c + 1) mod 2 ^ 128"
proof -
  obtain c' where "increment_from 16 c = c'" "length c' = 16" "counter_value c' = (counter_value c + 1) mod 256 ^ 16"
    using increment_counts [OF assms, of "[]" 0] by auto
  moreover have "(256 :: nat) ^ 16 = 2 ^ 128" by simp
  ultimately show "length (aes_increment_counter_be c) = 16" "counter_value (aes_increment_counter_be c) = (counter_value c + 1) mod 2 ^ 128"
    by (simp_all only: aes_increment_counter_be_def)
qed

definition counter_at :: "u8 list \<Rightarrow> nat \<Rightarrow> u8 list" where
  "counter_at counter m = (aes_increment_counter_be ^^ m) counter"

lemma counter_at_next: "counter_at (aes_increment_counter_be c) m = counter_at c (Suc m)"
  by (simp only: counter_at_def funpow_Suc_right comp_def)

lemma counter_at_value:
  assumes "length counter = 16"
  shows "length (counter_at counter m) = 16 \<and> counter_value (counter_at counter m) = (counter_value counter + m) mod 2 ^ 128"
proof (induction m)
  case 0
  have "(256 :: nat) ^ 16 = 2 ^ 128" by simp
  then have "counter_value counter < 2 ^ 128" using counter_below [of counter] assms by (simp only:)
  then show ?case using assms by (simp add: counter_at_def)
next
  case (Suc m)
  have s: "counter_at counter (Suc m) = aes_increment_counter_be (counter_at counter m)" by (simp add: counter_at_def)
  have "((counter_value counter + m) mod 2 ^ 128 + 1) mod 2 ^ 128 = (counter_value counter + Suc m) mod 2 ^ 128"
    by (simp only: mod_add_left_eq add_Suc_right Suc_eq_plus1 add.assoc)
  then show ?case unfolding s using Suc increment_value [of "counter_at counter m"] by simp
qed

lemma xor_block_nth:
  "offset + n \<le> length data \<Longrightarrow> length (xor_block offset n st data) = length data \<and> (\<forall>k < length data.
     xor_block offset n st data ! k = (if offset \<le> k \<and> k < offset + n then data ! k XOR st ! (k - offset) else data ! k))"
proof (induction n)
  case 0
  show ?case by (auto simp: xor_block_def)
next
  case (Suc n)
  let ?d = "xor_block offset n st data"
  have d: "length ?d = length data" "?d ! (offset + n) = data ! (offset + n)"
    and ih: "\<And>k. k < length data \<Longrightarrow> ?d ! k = (if offset \<le> k \<and> k < offset + n then data ! k XOR st ! (k - offset) else data ! k)"
    using Suc by auto
  have "xor_block offset (Suc n) st data = ?d[offset + n := ?d ! (offset + n) XOR st ! n]" by (simp add: xor_block_def)
  then show ?case using Suc.prems d ih by (auto simp: nth_list_update less_Suc_eq)
qed

lemma ctr_loop_nth:
  "len \<le> length data \<Longrightarrow> length (ctr_loop rk Nr len offset c data) = length data \<and> (\<forall>k < length data.
     ctr_loop rk Nr len offset c data ! k =
       (if offset \<le> k \<and> k < len then data ! k XOR Cipher (counter_at c ((k - offset) div 16)) rk Nr ! ((k - offset) mod 16) else data ! k))"
proof (induction rk Nr len offset c data rule: ctr_loop.induct)
  case (1 rk Nr len offset c data)
  show ?case
  proof (cases "offset < len")
    case False
    then show ?thesis by (auto simp: ctr_loop.simps)
  next
    case True
    let ?n = "min 16 (len - offset)" and ?c = "aes_increment_counter_be c"
    let ?d = "xor_block offset ?n (Cipher c rk Nr) data"
    have x: "length ?d = length data" "\<And>k. k < length data \<Longrightarrow> ?d ! k
        = (if offset \<le> k \<and> k < offset + ?n then data ! k XOR Cipher c rk Nr ! (k - offset) else data ! k)"
      using xor_block_nth [of offset ?n data "Cipher c rk Nr"] 1(2) True by auto
    have l: "ctr_loop rk Nr len offset c data = ctr_loop rk Nr len (offset + 16) ?c ?d"
      using True by (subst ctr_loop.simps) simp
    have ih: "length (ctr_loop rk Nr len (offset + 16) ?c ?d) = length data" "\<And>k. k < length data \<Longrightarrow> ctr_loop rk Nr len (offset + 16) ?c ?d ! k
        = (if offset + 16 \<le> k \<and> k < len then ?d ! k XOR Cipher (counter_at ?c ((k - (offset + 16)) div 16)) rk Nr ! ((k - (offset + 16)) mod 16) else ?d ! k)"
      using 1(1) [OF True] 1(2) x(1) by auto
    have later: "counter_at ?c ((k - (offset + 16)) div 16) = counter_at c ((k - offset) div 16)
        \<and> (k - (offset + 16)) mod 16 = (k - offset) mod 16" if "offset + 16 \<le> k" for k
    proof -
      define j where "j = k - (offset + 16)"
      have d: "k - (offset + 16) = j" "k - offset = 16 + j" using \<open>offset + 16 \<le> k\<close> by (simp_all add: j_def)
      have e: "(16 + j) div 16 = Suc (j div 16)" "(16 + j) mod 16 = j mod 16" by simp_all
      show ?thesis unfolding d e counter_at_next by (rule conjI) (rule refl)+
    qed
    have "ctr_loop rk Nr len offset c data ! k =
       (if offset \<le> k \<and> k < len then data ! k XOR Cipher (counter_at c ((k - offset) div 16)) rk Nr ! ((k - offset) mod 16) else data ! k)"
      if k: "k < length data" for k
    proof (cases "offset + 16 \<le> k")
      case True
      then show ?thesis unfolding l ih(2) [OF k] x(2) [OF k] using later [OF True] True by auto
    next
      case False
      then show ?thesis unfolding l ih(2) [OF k] x(2) [OF k] by (auto simp: counter_at_def)
    qed
    then show ?thesis using l ih(1) by simp
  qed
qed

lemma ctr_nth:
  assumes "aes_params_for_key_size key_size = Some p" "length counter = 16" "len \<le> length data"
  shows "length (aes_ctr_xcrypt_bytes counter key data key_size len) = length data" "k < length data \<Longrightarrow>
    aes_ctr_xcrypt_bytes counter key data key_size len ! k =
      (if k < len then data ! k XOR Cipher (counter_at counter (k div 16)) (round_key key p) (ap_nr p) ! (k mod 16) else data ! k)"
  using ctr_loop_nth [OF assms(3), of "round_key key p" "ap_nr p" 0 counter] assms(1,2) by (auto simp: aes_ctr_xcrypt_bytes_def)

text \<open>C30: Counter mode, for each of the three key sizes and any length up to the buffer's: byte \<open>k\<close> is XORed with byte
  \<open>k mod 16\<close> of the encrypted counter block number \<open>k div 16\<close>, whose value is the given counter's plus that
  number, modulo \<open>2 ^ 128\<close>; the bytes past the length stay. Hence a
  counter recurs only after \<open>2 ^ 128\<close> blocks. The same call again gives the data back.\<close>

theorem counter_mode_exact:
  assumes "aes_params_for_key_size key_size = Some p" "length counter = 16" "len \<le> length data"
  shows "(k < length data \<longrightarrow> aes_ctr_xcrypt_bytes counter key data key_size len ! k =
      (if k < len then data ! k XOR Cipher (counter_at counter (k div 16)) (round_key key p) (ap_nr p) ! (k mod 16) else data ! k))
    \<and> counter_value (counter_at counter m) = (counter_value counter + m) mod 2 ^ 128
    \<and> aes_ctr_xcrypt_bytes counter key (aes_ctr_xcrypt_bytes counter key data key_size len) key_size len = data"
proof -
  note once = ctr_nth [OF assms]
  have "len \<le> length (aes_ctr_xcrypt_bytes counter key data key_size len)" using once(1) [of key] assms(3) by simp
  note twice = ctr_nth [OF assms(1,2) this]
  have "aes_ctr_xcrypt_bytes counter key (aes_ctr_xcrypt_bytes counter key data key_size len) key_size len = data"
  proof (rule nth_equalityI)
    fix j assume "j < length (aes_ctr_xcrypt_bytes counter key (aes_ctr_xcrypt_bytes counter key data key_size len) key_size len)"
    then have "j < length data" using once(1) twice(1) by simp
    then show "aes_ctr_xcrypt_bytes counter key (aes_ctr_xcrypt_bytes counter key data key_size len) key_size len ! j = data ! j"
      using once twice by (simp add: xor.assoc)
  qed (use once(1) twice(1) in simp)
  then show ?thesis using once counter_at_value [OF assms(2)] by blast
qed

lemma counter_mode_exact_witness:
  "aes_ctr_xcrypt_bytes (replicate 16 255) (replicate 32 7) (aes_ctr_xcrypt_bytes (replicate 16 255) (replicate 32 7) [1, 2, 3] 256 2) 256 2 = [1, 2, 3]"
  using counter_mode_exact [of 256 "\<lparr>ap_nk = 8, ap_nr = 14\<rparr>" "replicate 16 255" 2 "[1, 2, 3]" 0 "replicate 32 7" 0]
  by (simp add: aes_params_for_key_size_def)

end
