(* ===== verification/Spec2Isabelle.thy ===== *)
theory Spec2Isabelle
  imports Prelude Tuning_Ledger Bounded_Table Audio_Ring Cc_Candidates Enc_Lockout P25_Patch Fec_Linear Fec_Codes Fec_Bptc Machine Sync_Types Call_State Call_Epochs Call_Texts Dmr_Sm Dmr_Sm_Props Tg_Policy_Machine Tg_Policy_Props Group_Csv_Props Fec_Rs_Props Crc_Checks Dmr_Cach Dmr_Late_Entry P25_Affiliations P25_Regrant P25_Grant_Props Key_Stream_Props Aes_Props
begin

text \<open>
  A verification library for the decoding core of XeraX SDR, the engine \<open>dsd-neo\<close> under
  \<open>src/upstream/dsd-neo\<close> (every path below is relative to it): how it follows a trunked radio system, what
  it decides about the calls it hears, and how it corrects what it receives.

  The parts and how they meet.

  A trunked system announces calls on a control channel. The decoder (\<open>src/protocol\<close>) parses frames whose
  sync pattern tells their protocol, corrects their bits with block codes, and drives a trunking state
  machine that decides to follow a grant to a voice channel and to return. A decision to move the tuner
  is a correlated request in a ledger, which the radio backend answers later and which closes the frame
  gate until the front end is ready. What is heard on a slot is an epoch in the call store. Whether a call
  is followed at all is the talkgroup policy's decision, which also asks the ledger of encrypted targets.

  Theories, in the order they build on each other.

  \<open>Prelude\<close>: fixed-width type names, search and update of arrays, shared by all. \<open>Machine\<close>: the locales
  \<open>machine\<close> (operations, allowed histories, reachability) and \<open>invariant_machine\<close>, interpreted by
  the DMR trunking machine and by the talkgroup policy. \<open>Bounded_Table\<close>: the locale of fixed-size keyed
  tables, interpreted by the candidate list, the encrypted-target ledger and the patch table.
  \<open>Slot_Table\<close>: the locale of such tables kept in an array of slots, which gives that interface and is
  interpreted by the two affiliation tables.

  \<open>Tuning_Ledger\<close> (\<open>src/runtime/trunk_tuning_hooks.c\<close>): the request ledger, its generations, publication
  by the backend, cancellation, expiry and the frame gate; the call state of a request is that of the C
  struct. Lemmas: the gate is closed exactly while a request is pending, no race opens it early.

  \<open>Cc_Candidates\<close> (\<open>src/runtime/trunk_cc_candidates.c\<close>): the control-channel candidates, their cooldown
  and the round robin over them; its fuel is the number of candidates. \<open>Audio_Ring\<close>
  (\<open>src/runtime/p25_p2_audio_ring.c\<close>): the per-slot ring of decoded audio, related to a queue that drops
  its oldest frame. \<open>Enc_Lockout\<close> (\<open>src/core/util/enc_lockout.c\<close>): which targets are known to be
  encrypted, learned after a number of confirmations and evicted under pressure only. \<open>P25_Patch\<close>
  (\<open>src/protocol/p25/p25_patch.c\<close>): supergroups, members, keys and sessions, with the eviction order.

  \<open>Fec_Linear\<close>, \<open>Fec_Codes\<close> (\<open>src/fec/fec.c\<close>) and \<open>Fec_Bptc\<close> (\<open>src/fec/bptc.c\<close>): Hamming, Golay and
  quadratic residue codes and the DMR product codes. The lemmas reduce a code to its parity-check
  columns, so that correction of every error pattern of the stated weight is computed once per column.
  \<open>Fec_Rs\<close>, \<open>Fec_Rs_Props\<close> (\<open>src/fec/rs-12-9.c\<close> and the full link control check of
  \<open>src/protocol/dmr/dmr_utils.c\<close>): Reed-Solomon decoding over bytes. The field laws follow from one
  pass over the exponent table; any one damaged byte is corrected.
  \<open>Crc_Checks\<close> (\<open>src/protocol/dmr/dmr_utils.c\<close>, \<open>src/protocol/p25/p25_crc.c\<close>): the cyclic checks, as shift
  registers and as divisions, and the bursts they notice. \<open>Dmr_Cach\<close> (\<open>dmr_cach\<close> of
  \<open>src/protocol/dmr/dmr_flco.c\<close>) and \<open>Dmr_Late_Entry\<close> (\<open>src/fec/dmr_late_entry.c\<close>) compose codes and
  checks into messages: the short link control from four fragments, the message indicator from nibbles.

  \<open>Sync_Types\<close> (\<open>src/core/util/synctype.c\<close> and its headers): sync identifiers, their names and families.

  \<open>Call_State\<close>, \<open>Call_Epochs\<close>, \<open>Call_Texts\<close> (\<open>src/core/util/call_state.c\<close>): the call store of a decoder
  state: slots, epochs, phases, evidence, boundaries, ends and their healing, texts and recent activity.
  Counters keep their width, times are reals.

  \<open>Dmr_Sm\<close>, \<open>Dmr_Sm_Props\<close> (\<open>src/protocol/dmr/dmr_trunk_sm.c\<close>): the DMR trunking machine with its context
  and the decoder state it shares with the ledger, the candidates and the call store; the radio backend's
  replies are an environment argument. Lemmas: the context invariant, following a voice channel only on a
  grant, confirmation only by decoded evidence, release of a silent channel, retry of a refused return.

  \<open>Tg_Policy\<close>, \<open>Tg_Rows\<close>, \<open>Tg_Policy_Store\<close>, \<open>Tg_Policy_Machine\<close>, \<open>Tg_Policy_Props\<close>
  (\<open>src/core/util/talkgroup_policy.c\<close>, \<open>src/runtime/state_ext.c\<close>): rows, lookups, session avoids, edits,
  decisions, preemption, and the reference-counted contexts that decoder states and scan profiles share,
  under any history of calls with reloads of arbitrary group files. Lemmas: every reference is accounted for
  (a snapshot onto a state that shares the source's context abandons one) and the rows stay in normal form,
  lookups are the most specific, the reasons of a group decision are exactly its refusals and mutes,
  preemption displaces lower priorities only and rests for its cooldown.
  \<open>Group_Csv\<close>, \<open>Group_Csv_Props\<close> (\<open>src/core/file/dsd_import.c\<close>, \<open>src/core/file/csv_parse_internal.h\<close>): the
  group file, read and written as bytes; what is saved is read back.

  The P25 trunking machine (\<open>src/protocol/p25/p25_trunk_sm.c\<close> and its header) as far as the grants.
  \<open>P25_Sm_Types\<close>: events, slot contexts and the context. \<open>P25_Grant\<close>, \<open>P25_Grant_Props\<close>: \<open>grant_allowed\<close> and
  what it calls, the release of a lockout on a grant that claims a clear call, the memos that make such a
  re-admission rest, the policy over a patch. Lemmas: a locked-out target stays refused, the best member
  decides, no running rest is lost to another target, and the three ways in which the code does otherwise.
  \<open>P25_Regrant\<close>: the quarantine of updates for a call that ended: what is held back is an echo, and one
  validation tune is made per ended call. \<open>P25_Affiliations\<close>: which radios were heard, and with which
  talkgroup, as maps of last-heard times with exact counters.

  Ciphers applied with keys the user holds. \<open>Des_Cipher\<close> (\<open>src/crypto/crypt-des.c\<close>): DES, triple DES and their
  key streams; decryption inverts encryption. \<open>Key_Streams\<close>, \<open>Key_Stream_Props\<close> (\<open>src/crypto/crypt-rc4.c\<close>,
  \<open>src/crypto/nxdn_keystream.c\<close>, \<open>src/crypto/dmr_mi.c\<close>, \<open>src/protocol/p25/p25_lfsr.c\<close>,
  \<open>src/protocol/nxdn/nxdn_lfsr.c\<close>): RC4, message indicators and the NXDN scrambler; the several copies of
  each agree, and an indicator is never lost. \<open>Aes_Cipher\<close>, \<open>Aes_Props\<close> (\<open>src/crypto/crypt-aes.c\<close>): AES with
  its modes; decryption inverts encryption, counter mode is exact, and the multiplication loop returns the
  product of the field, reduced by long division.

  Conventions. A C struct is a record with the struct's fields, an enum a datatype, a fixed-width integer a
  word, a double a real (rounding is out of scope), a C string the list of its bytes before the
  terminator. A null pointer is \<open>None\<close>; a call that only rejects null pointers is not a branch of the
  model. Every allocation a call makes and every answer of the platform is an argument of it. A mutex is
  modelled by the atomicity of the operation it protects. Logging, frontend notifications and telemetry
  are left out.

  Not modelled. The Qt and terminal frontends, the Android and Windows applications, \<open>src/app_control\<close>,
  \<open>src/io\<close>, \<open>src/platform\<close> and \<open>src/ui\<close>: input, output, hardware and presentation. \<open>src/dsp\<close>: filters,
  demodulators and symbol recovery on floating-point samples, whose meaning is numerical. The vocoders and
  everything under \<open>src/third_party\<close>: code of others. The P25 machine past the
  admission of a grant (tuning, voice slots, control-channel acquisition, its tick), the phase 2 packet
  decoder, the scan engine, the other protocols' frame parsers, the vendor-specific ciphers, the event history
  and the configuration files: core code not reached yet; the manifest lists each with its reason.
\<close>

end
